(* ===== verification/Prelude.thy ===== *)
theory Prelude
  imports Main "HOL-Library.Word" "HOL-Library.AList"
begin

text \<open>
  Shared vocabulary of the development.

  \<^item> JavaScript strings are sequences of UTF-16 code units (\<open>jstring\<close>); \<open>js\<close> turns an ASCII
    literal into one, \<open>js_trim\<close> is \<^verbatim>\<open>String.prototype.trim\<close>.
  \<^item> A JavaScript number that the code only ever uses as an integer is an \<open>int\<close>;
    \<open>is_safe_integer\<close> is \<^verbatim>\<open>Number.isSafeInteger\<close> on it.
  \<^item> A JavaScript \<^verbatim>\<open>Map\<close> is an association list in insertion order: \<open>map_of\<close> is \<^verbatim>\<open>get\<close>,
    \<open>AList.update\<close> is \<^verbatim>\<open>set\<close> (an existing key keeps its place), \<open>AList.delete\<close> is \<^verbatim>\<open>delete\<close>.
  \<^item> Code that may throw returns a sum: \<open>Inl\<close> carries the error, \<open>Inr\<close> the value; \<open>and_then\<close>
    runs the continuation only on a value.
\<close>

named_theorems result_simps \<open>inversion of results: when a composed computation returns a value\<close>
named_theorems jsmap_simps \<open>what get, has and size return after set and delete\<close>

section \<open>JavaScript strings\<close>

type_synonym code_unit = "16 word"
type_synonym jstring = "code_unit list"
type_synonym byte = "8 word"

text \<open>The code units of an ASCII literal of the source.\<close>

definition js :: "string \<Rightarrow> jstring" where
  "js s = map (\<lambda>c. word_of_nat (of_char c)) s"

text \<open>White space and line terminators, as \<^verbatim>\<open>trim\<close> strips them.\<close>

definition js_whitespace :: "code_unit \<Rightarrow> bool" where
  "js_whitespace u \<longleftrightarrow>
     (9 \<le> u \<and> u \<le> 13) \<or> u = 32 \<or> u = 160 \<or> u = 0x1680 \<or> (0x2000 \<le> u \<and> u \<le> 0x200A) \<or>
     u = 0x2028 \<or> u = 0x2029 \<or> u = 0x202F \<or> u = 0x205F \<or> u = 0x3000 \<or> u = 0xFEFF"

definition js_trim :: "jstring \<Rightarrow> jstring" where
  "js_trim s = rev (dropWhile js_whitespace (rev (dropWhile js_whitespace s)))"

definition is_trimmed :: "jstring \<Rightarrow> bool" where
  "is_trimmed s \<longleftrightarrow> js_trim s = s"

section \<open>Numbers\<close>

definition max_safe_integer :: int where
  "max_safe_integer = 9007199254740991"

definition is_safe_integer :: "int \<Rightarrow> bool" where
  "is_safe_integer n \<longleftrightarrow> \<bar>n\<bar> \<le> max_safe_integer"

section \<open>Results\<close>

type_synonym ('e, 'a) result = "'e + 'a"

definition and_then :: "'e + 'a \<Rightarrow> ('a \<Rightarrow> 'e + 'b) \<Rightarrow> 'e + 'b" where
  "and_then m f = (case m of Inl e \<Rightarrow> Inl e | Inr x \<Rightarrow> f x)"

definition require_that :: "bool \<Rightarrow> 'e \<Rightarrow> 'e + unit" where
  "require_that b e = (if b then Inr () else Inl e)"

fun map_result :: "('a \<Rightarrow> 'e + 'b) \<Rightarrow> 'a list \<Rightarrow> 'e + 'b list" where
  "map_result f [] = Inr []"
| "map_result f (x # xs) =
     and_then (f x) (\<lambda>y. and_then (map_result f xs) (\<lambda>ys. Inr (y # ys)))"

section \<open>Maps in insertion order\<close>

abbreviation jsmap_has :: "('k \<times> 'v) list \<Rightarrow> 'k \<Rightarrow> bool" where
  "jsmap_has m k \<equiv> map_of m k \<noteq> None"

definition jsmap_wf :: "('k \<times> 'v) list \<Rightarrow> bool" where
  "jsmap_wf m \<longleftrightarrow> distinct (map fst m)"

text \<open>Setting every pair of a list, left to right.\<close>

fun jsmap_set_all :: "('k \<times> 'v) list \<Rightarrow> ('k \<times> 'v) list \<Rightarrow> ('k \<times> 'v) list" where
  "jsmap_set_all [] m = m"
| "jsmap_set_all ((k, v) # kvs) m = jsmap_set_all kvs (AList.update k v m)"

section \<open>Lemmas on results\<close>

lemma and_then_simps [simp]:
  "and_then (Inl e) f = Inl e"
  "and_then (Inr x) f = f x"
  by (simp_all add: and_then_def)

lemma and_then_Inr_iff [result_simps]:
  "and_then m f = Inr y \<longleftrightarrow> (\<exists>x. m = Inr x \<and> f x = Inr y)"
  by (cases m) auto

lemma and_then_Inl_iff:
  "and_then m f = Inl e \<longleftrightarrow> m = Inl e \<or> (\<exists>x. m = Inr x \<and> f x = Inl e)"
  by (cases m) auto

lemma and_then_assoc: "and_then (and_then m f) g = and_then m (\<lambda>x. and_then (f x) g)"
  by (cases m) auto

lemma require_that_Inr_iff [result_simps]: "require_that b e = Inr u \<longleftrightarrow> b"
  by (simp add: require_that_def)

lemma if_Inl_eq_Inr [result_simps]: "(if b then Inl e else m) = Inr y \<longleftrightarrow> \<not> b \<and> m = Inr y"
  by simp

lemma map_result_Inr_iff [result_simps]:
  "map_result f xs = Inr ys \<longleftrightarrow> list_all2 (\<lambda>x y. f x = Inr y) xs ys"
proof (induction xs arbitrary: ys)
  case Nil
  then show ?case by auto
next
  case (Cons x xs)
  show ?case
    by (cases ys) (auto simp: and_then_Inr_iff Cons.IH)
qed

lemma map_result_total:
  assumes "\<And>x. x \<in> set xs \<Longrightarrow> f x = Inr (g x)"
  shows "map_result f xs = Inr (map g xs)"
  using assms by (induction xs) simp_all

section \<open>Lemmas on strings\<close>

lemma length_js [simp]: "length (js s) = length s"
  by (simp add: js_def)

lemma js_Nil [simp]: "js [] = []"
  by (simp add: js_def)

lemma dropWhile_prefix_id: "(\<And>x xs. s = x # xs \<Longrightarrow> \<not> P x) \<Longrightarrow> dropWhile P s = s"
  by (cases s) auto

lemma js_trim_idem [simp]: "js_trim (js_trim s) = js_trim s"
proof -
  let ?a = "dropWhile js_whitespace s"
  let ?b = "dropWhile js_whitespace (rev ?a)"
  have last_b: "?b \<noteq> [] \<Longrightarrow> \<not> js_whitespace (hd ?b)"
    by (rule hd_dropWhile)
  have split: "rev ?a = takeWhile js_whitespace (rev ?a) @ ?b"
    by simp
  have "dropWhile js_whitespace (rev ?b) = rev ?b"
  proof (cases "rev ?b")
    case Nil
    show ?thesis unfolding Nil by (rule dropWhile.simps)
  next
    case (Cons x xs)
    from split have "?a = rev ?b @ rev (takeWhile js_whitespace (rev ?a))"
      by (metis rev_append rev_rev_ident)
    then have a: "?a = x # xs @ rev (takeWhile js_whitespace (rev ?a))"
      unfolding Cons by simp
    then have "?a \<noteq> []" by (metis list.distinct(1))
    then have "\<not> js_whitespace (hd ?a)" by (rule hd_dropWhile)
    also have "hd ?a = x" by (subst a) simp
    finally have "\<not> js_whitespace x" .
    with Cons show ?thesis by simp
  qed
  then have "js_trim (js_trim s) = rev (dropWhile js_whitespace ?b)"
    by (simp add: js_trim_def)
  also have "dropWhile js_whitespace ?b = ?b"
    by (rule dropWhile_idem)
  finally show ?thesis by (simp add: js_trim_def)
qed

lemma is_trimmed_js_trim [simp]: "is_trimmed (js_trim s)"
  by (simp add: is_trimmed_def)

lemma length_js_trim_le: "length (js_trim s) \<le> length s"
proof -
  have "length (js_trim s) \<le> length (dropWhile js_whitespace s)"
    unfolding js_trim_def using length_dropWhile_le [of js_whitespace "rev (dropWhile js_whitespace s)"]
    by simp
  also have "\<dots> \<le> length s"
    by (rule length_dropWhile_le)
  finally show ?thesis .
qed

section \<open>Lemmas on maps\<close>

lemma map_of_update [jsmap_simps, simp]: "map_of (AList.update k v m) = (map_of m)(k \<mapsto> v)"
  by (rule update_conv')

lemma jsmap_wf_update [simp]: "jsmap_wf m \<Longrightarrow> jsmap_wf (AList.update k v m)"
  by (simp add: jsmap_wf_def distinct_update)

lemma jsmap_wf_delete [simp]: "jsmap_wf m \<Longrightarrow> jsmap_wf (AList.delete k m)"
  by (simp add: jsmap_wf_def distinct_delete)

lemma jsmap_wf_Nil [simp]: "jsmap_wf []"
  by (simp add: jsmap_wf_def)

lemma jsmap_wf_Cons [simp]:
  "jsmap_wf (p # m) \<longleftrightarrow> map_of m (fst p) = None \<and> jsmap_wf m"
  by (auto simp: jsmap_wf_def map_of_eq_None_iff)

lemma map_of_jsmap_set_all [jsmap_simps]:
  "map_of (jsmap_set_all kvs m) = (map_of m) ++ map_of (rev kvs)"
proof (induction kvs arbitrary: m)
  case Nil
  show ?case by simp
next
  case (Cons p kvs)
  obtain k v where p: "p = (k, v)" by fastforce
  show ?case by (simp add: p Cons.IH map_add_upd_left map_add_def fun_eq_iff split: option.split)
qed

lemma jsmap_wf_set_all [simp]: "jsmap_wf m \<Longrightarrow> jsmap_wf (jsmap_set_all kvs m)"
  by (induction kvs m rule: jsmap_set_all.induct) auto

lemma length_update_fresh [jsmap_simps]:
  "map_of m k = None \<Longrightarrow> AList.update k v m = m @ [(k, v)]"
  by (induction m) (auto split: if_splits)

lemma length_update_old [jsmap_simps]:
  "map_of m k \<noteq> None \<Longrightarrow> length (AList.update k v m) = length m"
  by (induction m) (auto split: if_splits)

lemma map_of_mem_iff: "jsmap_wf m \<Longrightarrow> (k, v) \<in> set m \<longleftrightarrow> map_of m k = Some v"
  by (auto simp: jsmap_wf_def intro: map_of_is_SomeI dest: map_of_SomeD)

section \<open>Lemmas on numbers and lists\<close>

lemma is_safe_integer_iff: "is_safe_integer n \<longleftrightarrow> - max_safe_integer \<le> n \<and> n \<le> max_safe_integer"
  by (auto simp: is_safe_integer_def)

lemma list_all2_nth_iff:
  "list_all2 P xs ys \<longleftrightarrow> length xs = length ys \<and> (\<forall>i < length xs. P (xs ! i) (ys ! i))"
  by (rule list_all2_conv_all_nth)

end
