(* ===== verification/Js_Text.thy ===== *)
theory Js_Text
  imports Prelude
begin

text \<open>
  Text and bytes, as \<^verbatim>\<open>shared/nulledit/textDiff.ts\<close> (\<open>encodeText\<close>, \<open>decodeText\<close>) and
  \<^verbatim>\<open>shared/drop/codecs/diff-v1.ts\<close> (\<open>toBase64\<close>, \<open>fromBase64\<close>) convert them.

  The platform's \<^verbatim>\<open>TextEncoder\<close> replaces every unpaired surrogate by U+FFFD before it writes
  UTF-8; \<^verbatim>\<open>TextDecoder\<close> (non-fatal, \<^verbatim>\<open>ignoreBOM\<close> false) is the decoder of the Encoding standard,
  which emits U+FFFD for a malformed sequence and drops one leading U+FEFF. Both are written
  out here, since a diff payload passes through them on every replay. The last part proves
  what a round trip returns: \<open>decode_encode_text\<close> for every string, \<open>decode_encode_text_id\<close> for
  the strings it leaves alone.
\<close>

section \<open>Code units and scalar values\<close>

definition is_high_surrogate :: "code_unit \<Rightarrow> bool" where
  "is_high_surrogate u \<longleftrightarrow> 0xD800 \<le> unat u \<and> unat u < 0xDC00"

definition is_low_surrogate :: "code_unit \<Rightarrow> bool" where
  "is_low_surrogate u \<longleftrightarrow> 0xDC00 \<le> unat u \<and> unat u < 0xE000"

definition is_surrogate :: "code_unit \<Rightarrow> bool" where
  "is_surrogate u \<longleftrightarrow> 0xD800 \<le> unat u \<and> unat u < 0xE000"

definition scalar_or_replacement :: "code_unit \<Rightarrow> nat" where
  "scalar_or_replacement u = (if is_surrogate u then 0xFFFD else unat u)"

definition pair_scalar :: "code_unit \<Rightarrow> code_unit \<Rightarrow> nat" where
  "pair_scalar u v = 0x10000 + (unat u - 0xD800) * 0x400 + (unat v - 0xDC00)"

text \<open>The scalar values of a string, unpaired surrogates replaced.\<close>

fun scalars :: "jstring \<Rightarrow> nat list" where
  "scalars [] = []"
| "scalars [u] = [scalar_or_replacement u]"
| "scalars (u # v # us) =
     (if is_high_surrogate u \<and> is_low_surrogate v then pair_scalar u v # scalars us
      else scalar_or_replacement u # scalars (v # us))"

definition utf16_units :: "nat \<Rightarrow> jstring" where
  "utf16_units c =
     (if c < 0x10000 then [word_of_nat c]
      else [word_of_nat (0xD800 + (c - 0x10000) div 0x400),
            word_of_nat (0xDC00 + (c - 0x10000) mod 0x400)])"

definition utf16_encode :: "nat list \<Rightarrow> jstring" where
  "utf16_encode cs = concat (map utf16_units cs)"

section \<open>UTF-8\<close>

definition utf8_bytes :: "nat \<Rightarrow> nat list" where
  "utf8_bytes c =
     (if c < 0x80 then [c]
      else if c < 0x800 then [0xC0 + c div 64, 0x80 + c mod 64]
      else if c < 0x10000 then [0xE0 + c div 4096, 0x80 + c div 64 mod 64, 0x80 + c mod 64]
      else [0xF0 + c div 262144, 0x80 + c div 4096 mod 64, 0x80 + c div 64 mod 64, 0x80 + c mod 64])"

text \<open>
  The decoder's state: the code point so far, the bytes still needed (0 between sequences) and
  the bounds of the next continuation byte. A byte out of bounds ends the sequence with U+FFFD
  and is read again as the first byte of another one.
\<close>

function utf8_decode :: "nat \<Rightarrow> nat \<Rightarrow> nat \<Rightarrow> nat \<Rightarrow> nat list \<Rightarrow> nat list" where
  "utf8_decode cp needed lower upper [] = (if needed = 0 then [] else [0xFFFD])"
| "utf8_decode cp needed lower upper (b # bs) =
     (if needed = 0 then
        (if b \<le> 0x7F then b # utf8_decode 0 0 0x80 0xBF bs
         else if 0xC2 \<le> b \<and> b \<le> 0xDF then utf8_decode (b - 0xC0) 1 0x80 0xBF bs
         else if 0xE0 \<le> b \<and> b \<le> 0xEF then
           utf8_decode (b - 0xE0) 2 (if b = 0xE0 then 0xA0 else 0x80) (if b = 0xED then 0x9F else 0xBF) bs
         else if 0xF0 \<le> b \<and> b \<le> 0xF4 then
           utf8_decode (b - 0xF0) 3 (if b = 0xF0 then 0x90 else 0x80) (if b = 0xF4 then 0x8F else 0xBF) bs
         else 0xFFFD # utf8_decode 0 0 0x80 0xBF bs)
      else if b < lower \<or> upper < b then 0xFFFD # utf8_decode 0 0 0x80 0xBF (b # bs)
      else if needed = 1 then (cp * 64 + (b - 0x80)) # utf8_decode 0 0 0x80 0xBF bs
      else utf8_decode (cp * 64 + (b - 0x80)) (needed - 1) 0x80 0xBF bs)"
  by pat_completeness auto
termination
  by (relation "measure (\<lambda>(cp, needed, lower, upper, bs). 2 * length bs + (if needed = 0 then 0 else 1))") auto

declare utf8_decode.simps [simp del]

definition drop_bom :: "nat list \<Rightarrow> nat list" where
  "drop_bom cs = (case cs of [] \<Rightarrow> [] | c # r \<Rightarrow> if c = 0xFEFF then r else cs)"

text \<open>\<^verbatim>\<open>encoder.encode\<close> and \<^verbatim>\<open>decoder.decode\<close> behind the two exported functions.\<close>

definition encodeText :: "jstring \<Rightarrow> byte list" where
  "encodeText value = map word_of_nat (concat (map utf8_bytes (scalars value)))"

definition decodeText :: "byte list \<Rightarrow> jstring" where
  "decodeText buffer = utf16_encode (drop_bom (utf8_decode 0 0 0x80 0xBF (map unat buffer)))"

section \<open>Base64\<close>

definition base64_alphabet :: jstring where
  "base64_alphabet = js ''ABCDEFGHIJKLMNOPQRSTUVWXYZabcdefghijklmnopqrstuvwxyz0123456789+/''"

definition base64_char :: "nat \<Rightarrow> code_unit" where
  "base64_char n = base64_alphabet ! n"

definition base64_value :: "code_unit \<Rightarrow> nat option" where
  "base64_value u = map_of (zip base64_alphabet [0..<64]) u"

fun base64_encode :: "nat list \<Rightarrow> jstring" where
  "base64_encode [] = []"
| "base64_encode [a] =
     [base64_char (a div 4), base64_char (a mod 4 * 16), 61, 61]"
| "base64_encode [a, b] =
     [base64_char (a div 4), base64_char (a mod 4 * 16 + b div 16), base64_char (b mod 16 * 4), 61]"
| "base64_encode (a # b # c # r) =
     [base64_char (a div 4), base64_char (a mod 4 * 16 + b div 16),
      base64_char (b mod 16 * 4 + c div 64), base64_char (c mod 64)] @ base64_encode r"

text \<open>The groups of a stripped input: two or three trailing digits lose their low bits.\<close>

fun base64_groups :: "nat list \<Rightarrow> nat list" where
  "base64_groups (p # q # r # s # rest) =
     (p * 4 + q div 16) # (q mod 16 * 16 + r div 4) # (r mod 4 * 64 + s) # base64_groups rest"
| "base64_groups [p, q, r] = [p * 4 + q div 16, q mod 16 * 16 + r div 4]"
| "base64_groups [p, q] = [p * 4 + q div 16]"
| "base64_groups _ = []"

definition is_ascii_whitespace :: "code_unit \<Rightarrow> bool" where
  "is_ascii_whitespace u \<longleftrightarrow> u \<in> {9, 10, 12, 13, 32}"

definition strip_padding :: "jstring \<Rightarrow> jstring" where
  "strip_padding s =
     (if length s mod 4 = 0 then
        (if s \<noteq> [] \<and> last s = 61 then
           (let t = butlast s in if t \<noteq> [] \<and> last t = 61 then butlast t else t)
         else s)
      else s)"

text \<open>\<^verbatim>\<open>atob\<close>: None where it throws \<^verbatim>\<open>InvalidCharacterError\<close>.\<close>

definition atob_bytes :: "jstring \<Rightarrow> nat list option" where
  "atob_bytes value =
     (let s = strip_padding (filter (\<lambda>u. \<not> is_ascii_whitespace u) value)
      in if length s mod 4 = 1 then None
         else map_option base64_groups (those (map base64_value s)))"

definition toBase64 :: "byte list \<Rightarrow> jstring" where
  "toBase64 value = base64_encode (map unat value)"

definition fromBase64 :: "jstring \<Rightarrow> byte list option" where
  "fromBase64 value = map_option (map word_of_nat) (atob_bytes value)"

text \<open>The base64 digits of a byte list and its padding.\<close>

fun base64_digits :: "nat list \<Rightarrow> nat list" where
  "base64_digits [] = []"
| "base64_digits [a] = [a div 4, a mod 4 * 16]"
| "base64_digits [a, b] = [a div 4, a mod 4 * 16 + b div 16, b mod 16 * 4]"
| "base64_digits (a # b # c # r) =
     [a div 4, a mod 4 * 16 + b div 16, b mod 16 * 4 + c div 64, c mod 64] @ base64_digits r"

definition base64_padding :: "nat list \<Rightarrow> jstring" where
  "base64_padding bs = replicate ((3 - length bs mod 3) mod 3) 61"

section \<open>What survives a round trip\<close>

text \<open>Every surrogate of a well-formed string is half of a pair.\<close>

fun well_formed :: "jstring \<Rightarrow> bool" where
  "well_formed [] = True"
| "well_formed [u] = (\<not> is_surrogate u)"
| "well_formed (u # v # us) =
     (if is_high_surrogate u \<and> is_low_surrogate v then well_formed us
      else \<not> is_surrogate u \<and> well_formed (v # us))"

definition starts_with_bom :: "jstring \<Rightarrow> bool" where
  "starts_with_bom s \<longleftrightarrow> s \<noteq> [] \<and> hd s = 0xFEFF"

definition text_survives :: "jstring \<Rightarrow> bool" where
  "text_survives s \<longleftrightarrow> well_formed s \<and> \<not> starts_with_bom s"

text \<open>Text with neither surrogates nor U+FEFF: every slice of it survives.\<close>

definition plain_text :: "jstring \<Rightarrow> bool" where
  "plain_text s \<longleftrightarrow> (\<forall>u \<in> set s. \<not> is_surrogate u \<and> u \<noteq> 0xFEFF)"

definition is_scalar :: "nat \<Rightarrow> bool" where
  "is_scalar c \<longleftrightarrow> c < 0x110000 \<and> \<not> (0xD800 \<le> c \<and> c < 0xE000)"

section \<open>Lemmas\<close>

lemma unat_word_of_nat_16: "n < 65536 \<Longrightarrow> unat (word_of_nat n :: code_unit) = n"
  by (simp add: unat_of_nat take_bit_nat_def)

lemma unat_word_of_nat_8: "n < 256 \<Longrightarrow> unat (word_of_nat n :: byte) = n"
  by (simp add: unat_of_nat take_bit_nat_def)

lemma unat_code_unit_less [simp]: "unat (u :: code_unit) < 65536"
  using unsigned_less [where ?'a = nat, of u] by simp

lemma unat_byte_less [simp]: "unat (b :: byte) < 256"
  using unsigned_less [where ?'a = nat, of b] by simp

lemma scalar_or_replacement_scalar [simp]: "is_scalar (scalar_or_replacement u)"
  using unat_code_unit_less [of u]
  by (auto simp: is_scalar_def scalar_or_replacement_def is_surrogate_def simp del: unat_code_unit_less)

lemma pair_scalar_scalar [simp]:
  "is_high_surrogate u \<Longrightarrow> is_low_surrogate v \<Longrightarrow> is_scalar (pair_scalar u v)"
  by (auto simp: is_scalar_def pair_scalar_def is_high_surrogate_def is_low_surrogate_def)

lemma scalars_scalar: "c \<in> set (scalars s) \<Longrightarrow> is_scalar c"
  by (induction s rule: scalars.induct) (auto split: if_splits)

lemma utf8_bytes_bound: "is_scalar c \<Longrightarrow> b \<in> set (utf8_bytes c) \<Longrightarrow> b < 256"
  by (auto simp: utf8_bytes_def is_scalar_def split: if_splits)

lemma utf8_decode_1:
  "c < 0x80 \<Longrightarrow> utf8_decode cp 0 l u (utf8_bytes c @ bs) = c # utf8_decode 0 0 0x80 0xBF bs"
  by (simp add: utf8_bytes_def utf8_decode.simps)

lemma utf8_decode_2:
  assumes "0x80 \<le> c" and "c < 0x800"
  shows "utf8_decode cp 0 l u (utf8_bytes c @ bs) = c # utf8_decode 0 0 0x80 0xBF bs"
proof -
  have b: "utf8_bytes c = [0xC0 + c div 64, 0x80 + c mod 64]"
    using assms by (simp add: utf8_bytes_def)
  have "2 \<le> c div 64" and "c div 64 < 32"
    using assms by auto
  moreover have "c mod 64 < 64" by simp
  ultimately show ?thesis
    by (simp add: b utf8_decode.simps)
qed

lemma utf8_decode_3:
  assumes "0x800 \<le> c" and "c < 0x10000" and "\<not> (0xD800 \<le> c \<and> c < 0xE000)"
  shows "utf8_decode cp 0 l u (utf8_bytes c @ bs) = c # utf8_decode 0 0 0x80 0xBF bs"
proof -
  define q where "q = c div 64"
  have c: "c = q * 64 + c mod 64" and m: "c mod 64 < 64" "q mod 64 < 64"
    by (simp_all add: q_def)
  have q: "q = q div 64 * 64 + q mod 64" by simp
  have d: "c div 4096 = q div 64" by (simp add: q_def flip: div_mult2_eq)
  have b: "utf8_bytes c = [0xE0 + q div 64, 0x80 + q mod 64, 0x80 + c mod 64]"
    using assms by (simp add: utf8_bytes_def d q_def)
  have hi: "q div 64 < 16" using assms(2) c q m by linarith
  have lo: "q div 64 = 0 \<Longrightarrow> 32 \<le> q mod 64" using assms(1) c q m by linarith
  have up: "q div 64 = 13 \<Longrightarrow> q mod 64 < 32" using assms(3) c q m by linarith
  show ?thesis
    using hi lo up m by (auto simp: b utf8_decode.simps c [symmetric])
qed

lemma utf8_decode_4:
  assumes "0x10000 \<le> c" and "c < 0x110000"
  shows "utf8_decode cp 0 l u (utf8_bytes c @ bs) = c # utf8_decode 0 0 0x80 0xBF bs"
proof -
  define q where "q = c div 64"
  define r where "r = q div 64"
  have c: "c = q * 64 + c mod 64" and m: "c mod 64 < 64" "q mod 64 < 64" "r mod 64 < 64"
    by (simp_all add: q_def)
  have q: "q = r * 64 + q mod 64" by (simp add: r_def)
  have r: "r = r div 64 * 64 + r mod 64" by simp
  have d: "c div 4096 = r" "c div 262144 = r div 64"
    by (simp_all add: q_def r_def flip: div_mult2_eq)
  have b: "utf8_bytes c = [0xF0 + r div 64, 0x80 + r mod 64, 0x80 + q mod 64, 0x80 + c mod 64]"
    using assms by (simp add: utf8_bytes_def d q_def)
  have hi: "r div 64 \<le> 4" using assms(2) c q r m by linarith
  have lo: "r div 64 = 0 \<Longrightarrow> 16 \<le> r mod 64" using assms(1) c q r m by linarith
  have up: "r div 64 = 4 \<Longrightarrow> r mod 64 < 16" using assms(2) c q r m by linarith
  have val: "4096 * r + q mod 64 * 64 + c mod 64 = c"
    using c q by linarith
  show ?thesis
    using hi lo up m by (auto simp: b utf8_decode.simps val)
qed

lemma utf8_decode_bytes:
  assumes "is_scalar c"
  shows "utf8_decode cp 0 l u (utf8_bytes c @ bs) = c # utf8_decode 0 0 0x80 0xBF bs"
proof -
  consider "c < 0x80" | "0x80 \<le> c" "c < 0x800"
    | "0x800 \<le> c" "c < 0x10000" "\<not> (0xD800 \<le> c \<and> c < 0xE000)"
    | "0x10000 \<le> c" "c < 0x110000"
    using assms unfolding is_scalar_def by linarith
  then show ?thesis
    by cases (simp_all add: utf8_decode_1 utf8_decode_2 utf8_decode_3 utf8_decode_4)
qed

lemma utf8_decode_concat:
  "(\<And>c. c \<in> set cs \<Longrightarrow> is_scalar c) \<Longrightarrow> utf8_decode 0 0 0x80 0xBF (concat (map utf8_bytes cs)) = cs"
proof (induction cs)
  case Nil
  show ?case by (simp add: utf8_decode.simps)
next
  case (Cons c cs)
  then show ?case by (simp add: utf8_decode_bytes)
qed

lemma map_unat_encodeText: "map unat (encodeText s) = concat (map utf8_bytes (scalars s))"
proof -
  have "b < 256" if "b \<in> set (concat (map utf8_bytes (scalars s)))" for b
    using that utf8_bytes_bound scalars_scalar by auto
  then have "map (\<lambda>b. unat (word_of_nat b :: byte)) (concat (map utf8_bytes (scalars s)))
      = map (\<lambda>b. b) (concat (map utf8_bytes (scalars s)))"
    by (intro map_cong) (auto simp: unat_word_of_nat_8)
  then show ?thesis by (simp add: encodeText_def o_def)
qed

lemma decode_encode_text: "decodeText (encodeText s) = utf16_encode (drop_bom (scalars s))"
  by (simp add: decodeText_def map_unat_encodeText utf8_decode_concat scalars_scalar)

lemma utf16_units_pair:
  assumes "is_high_surrogate u" and "is_low_surrogate v"
  shows "utf16_units (pair_scalar u v) = [u, v]"
proof -
  let ?h = "unat u - 0xD800" and ?l = "unat v - 0xDC00"
  have l: "?l < 0x400" and h: "?h < 0x400"
    using assms by (auto simp: is_high_surrogate_def is_low_surrogate_def)
  have "(?h * 0x400 + ?l) div 0x400 = ?h" and "(?h * 0x400 + ?l) mod 0x400 = ?l"
    using l by simp_all
  moreover have "0xD800 + ?h = unat u" and "0xDC00 + ?l = unat v"
    using assms by (simp_all add: is_high_surrogate_def is_low_surrogate_def)
  ultimately show ?thesis
    by (simp add: utf16_units_def pair_scalar_def)
qed

lemma utf16_units_bmp: "utf16_units (unat u) = [u]"
  by (simp add: utf16_units_def)

lemma utf16_encode_scalars: "well_formed s \<Longrightarrow> utf16_encode (scalars s) = s"
  by (induction s rule: well_formed.induct)
    (auto simp: utf16_encode_def utf16_units_pair utf16_units_bmp scalar_or_replacement_def split: if_splits)

lemma scalars_Cons_bom:
  "well_formed s \<Longrightarrow> s \<noteq> [] \<Longrightarrow> hd (scalars s) = 0xFEFF \<longleftrightarrow> hd s = 0xFEFF"
proof (induction s rule: well_formed.induct)
  case 1
  then show ?case by simp
next
  case (2 u)
  then show ?case by (auto simp: scalar_or_replacement_def word_unat_eq_iff)
next
  case (3 u v us)
  show ?case
  proof (cases "is_high_surrogate u \<and> is_low_surrogate v")
    case True
    then have "pair_scalar u v \<noteq> 0xFEFF" and "u \<noteq> 0xFEFF"
      by (auto simp: pair_scalar_def is_high_surrogate_def)
    with True show ?thesis by simp
  next
    case False
    with 3(3) show ?thesis
      by (auto simp: scalar_or_replacement_def word_unat_eq_iff)
  qed
qed

lemma scalars_Nil_iff [simp]: "scalars s = [] \<longleftrightarrow> s = []"
  by (cases s rule: scalars.cases) auto

lemma decode_encode_text_id: "text_survives s \<Longrightarrow> decodeText (encodeText s) = s"
proof -
  assume s: "text_survives s"
  then have "drop_bom (scalars s) = scalars s"
    using scalars_Cons_bom [of s]
    by (cases "scalars s"; cases "s = []") (auto simp: drop_bom_def text_survives_def starts_with_bom_def)
  with s show ?thesis
    by (simp add: decode_encode_text utf16_encode_scalars text_survives_def)
qed

lemma text_survives_Nil [simp]: "text_survives []"
  by (simp add: text_survives_def starts_with_bom_def)

lemma plain_text_well_formed: "plain_text s \<Longrightarrow> well_formed s"
  by (induction s rule: well_formed.induct)
    (auto simp: plain_text_def is_high_surrogate_def is_surrogate_def)

lemma plain_text_survives: "plain_text s \<Longrightarrow> text_survives s"
  by (auto simp: text_survives_def plain_text_well_formed starts_with_bom_def plain_text_def)

lemma plain_text_subset: "plain_text s \<Longrightarrow> set t \<subseteq> set s \<Longrightarrow> plain_text t"
  by (auto simp: plain_text_def)

section \<open>Base64 round trip\<close>

lemma length_base64_alphabet [simp]: "length base64_alphabet = 64"
  by (simp add: base64_alphabet_def)

lemma distinct_base64_alphabet: "distinct base64_alphabet"
  by code_simp

lemma base64_value_char: "n < 64 \<Longrightarrow> base64_value (base64_char n) = Some n"
  unfolding base64_value_def base64_char_def
  by (rule map_of_zip_nth [where ys = "[0..<64]" and i = n, simplified])
    (simp_all add: distinct_base64_alphabet)

lemma base64_alphabet_plain: "list_all (\<lambda>u. \<not> is_ascii_whitespace u \<and> u \<noteq> 61) base64_alphabet"
  by code_simp

lemma base64_char_plain: "n < 64 \<Longrightarrow> \<not> is_ascii_whitespace (base64_char n) \<and> base64_char n \<noteq> 61"
  using base64_alphabet_plain by (simp add: base64_char_def list_all_length)

lemma base64_encode_digits: "base64_encode bs = map base64_char (base64_digits bs) @ base64_padding bs"
  by (induction bs rule: base64_digits.induct) (auto simp: base64_padding_def numeral_2_eq_2)

lemma base64_digits_bound: "\<forall>b \<in> set bs. b < 256 \<Longrightarrow> d \<in> set (base64_digits bs) \<Longrightarrow> d < 64"
proof (induction bs rule: base64_digits.induct)
  case (4 a b c r)
  have "a div 4 < 64" "a mod 4 * 16 + b div 16 < 64" "b mod 16 * 4 + c div 64 < 64" "c mod 64 < 64"
    using 4(2) by auto
  with 4 show ?case by auto
qed auto

lemma base64_groups_digits: "\<forall>b \<in> set bs. b < 256 \<Longrightarrow> base64_groups (base64_digits bs) = bs"
proof (induction bs rule: base64_digits.induct)
  case (4 a b c r)
  then show ?case by auto
qed auto

lemma length_base64_digits: "length (base64_digits bs) mod 4 \<noteq> 1"
  by (induction bs rule: base64_digits.induct) auto

lemma length_base64_encode_mod: "length (base64_encode bs) mod 4 = 0"
  by (induction bs rule: base64_encode.induct) auto

lemma strip_padding_encode:
  assumes "\<forall>b \<in> set bs. b < 256"
  shows "strip_padding (base64_encode bs) = map base64_char (base64_digits bs)"
proof -
  let ?d = "map base64_char (base64_digits bs)"
  have plain: "u \<noteq> 61" if "u \<in> set ?d" for u
    using that base64_digits_bound [OF assms] base64_char_plain by auto
  have len: "length (base64_encode bs) mod 4 = 0"
    by (rule length_base64_encode_mod)
  consider "length bs mod 3 = 0" | "length bs mod 3 = 1" | "length bs mod 3 = 2"
    by linarith
  then show ?thesis
  proof cases
    case 1
    then have e: "base64_encode bs = ?d"
      by (simp add: base64_encode_digits base64_padding_def)
    have "?d = [] \<or> last ?d \<noteq> 61"
      using plain last_in_set by blast
    with len show ?thesis unfolding e strip_padding_def by auto
  next
    case 2
    then have e: "base64_encode bs = ?d @ [61, 61]"
      by (simp add: base64_encode_digits base64_padding_def numeral_2_eq_2)
    from len show ?thesis unfolding e strip_padding_def by (simp add: butlast_append)
  next
    case 3
    then have e: "base64_encode bs = ?d @ [61]"
      by (simp add: base64_encode_digits base64_padding_def)
    have "?d = [] \<or> last ?d \<noteq> 61"
      using plain last_in_set by blast
    with len show ?thesis unfolding e strip_padding_def by (auto simp: butlast_append Let_def)
  qed
qed

lemma base64_encode_no_whitespace:
  assumes "\<forall>b \<in> set bs. b < 256"
  shows "filter (\<lambda>u. \<not> is_ascii_whitespace u) (base64_encode bs) = base64_encode bs"
proof (rule filter_True, rule ballI)
  fix u assume "u \<in> set (base64_encode bs)"
  then consider "u \<in> base64_char ` set (base64_digits bs)" | "u = 61"
    by (auto simp: base64_encode_digits base64_padding_def split: if_splits)
  then show "\<not> is_ascii_whitespace u"
    using base64_digits_bound [OF assms] base64_char_plain
    by cases (auto simp: is_ascii_whitespace_def)
qed

lemma those_map_Some: "(\<And>x. x \<in> set xs \<Longrightarrow> f x = Some (g x)) \<Longrightarrow> those (map f xs) = Some (map g xs)"
  by (induction xs) auto

lemma atob_btoa: "\<forall>b \<in> set bs. b < 256 \<Longrightarrow> atob_bytes (base64_encode bs) = Some bs"
proof -
  assume bs: "\<forall>b \<in> set bs. b < 256"
  have "those (map base64_value (map base64_char (base64_digits bs))) = Some (map id (base64_digits bs))"
    unfolding map_map using base64_digits_bound [OF bs] base64_value_char
    by (intro those_map_Some) auto
  moreover have "length (base64_digits bs) mod 4 \<noteq> 1"
    by (rule length_base64_digits)
  ultimately show ?thesis
    by (simp add: atob_bytes_def base64_encode_no_whitespace [OF bs] strip_padding_encode [OF bs]
        base64_groups_digits [OF bs] Let_def)
qed

lemma fromBase64_toBase64 [simp]: "fromBase64 (toBase64 bs) = Some bs"
  by (simp add: fromBase64_def toBase64_def atob_btoa o_def)

section \<open>Which strings a round trip keeps\<close>

lemma well_formed_utf16_units:
  assumes "is_scalar c"
  shows "well_formed (utf16_units c @ s) = well_formed s"
proof (cases "c < 0x10000")
  case True
  then have "unat (word_of_nat c :: code_unit) = c"
    by (simp add: unat_word_of_nat_16)
  then have "\<not> is_surrogate (word_of_nat c)" "\<not> is_high_surrogate (word_of_nat c)"
    using assms by (auto simp: is_surrogate_def is_high_surrogate_def is_scalar_def)
  with True show ?thesis
    by (cases s) (simp_all add: utf16_units_def)
next
  case False
  have "(c - 0x10000) div 0x400 < 0x400" "(c - 0x10000) mod 0x400 < 0x400"
    using assms by (auto simp: is_scalar_def)
  then have "is_high_surrogate (word_of_nat (0xD800 + (c - 0x10000) div 0x400))"
    "is_low_surrogate (word_of_nat (0xDC00 + (c - 0x10000) mod 0x400))"
    unfolding is_high_surrogate_def is_low_surrogate_def
    by (simp_all add: unat_word_of_nat_16 del: of_nat_add)
  with False show ?thesis by (simp add: utf16_units_def)
qed

lemma well_formed_utf16_encode: "\<forall>c \<in> set cs. is_scalar c \<Longrightarrow> well_formed (utf16_encode cs)"
  by (induction cs) (simp_all add: utf16_encode_def well_formed_utf16_units)

lemma decode_encode_wf: "well_formed (decodeText (encodeText s))"
  unfolding decode_encode_text
proof (rule well_formed_utf16_encode, rule ballI)
  fix c assume "c \<in> set (drop_bom (scalars s))"
  then have "c \<in> set (scalars s)"
    by (cases "scalars s") (auto simp: drop_bom_def split: if_splits)
  then show "is_scalar c" by (rule scalars_scalar)
qed

lemma bom_dropped:
  assumes "well_formed s" and "starts_with_bom s"
  shows "decodeText (encodeText s) = tl s"
proof -
  obtain t where s: "s = 0xFEFF # t"
    using assms(2) by (cases s) (auto simp: starts_with_bom_def)
  have ns: "\<not> is_high_surrogate 0xFEFF" "\<not> is_surrogate 0xFEFF"
    by (simp_all add: is_high_surrogate_def is_surrogate_def)
  have "well_formed t \<and> scalars s = 0xFEFF # scalars t"
    using assms(1) ns s by (cases t) (simp_all add: scalar_or_replacement_def)
  then show ?thesis
    by (simp add: decode_encode_text drop_bom_def utf16_encode_scalars s)
qed

lemma decode_encode_iff:
  "decodeText (encodeText s) = s \<longleftrightarrow> well_formed s \<and> \<not> starts_with_bom s"
proof
  assume eq: "decodeText (encodeText s) = s"
  then have wf: "well_formed s" using decode_encode_wf [of s] by simp
  moreover have "\<not> starts_with_bom s"
  proof
    assume "starts_with_bom s"
    then have "tl s = s" and "s \<noteq> []"
      using eq wf by (auto simp: bom_dropped starts_with_bom_def)
    then show False by (cases s) auto
  qed
  ultimately show "well_formed s \<and> \<not> starts_with_bom s" by simp
next
  assume "well_formed s \<and> \<not> starts_with_bom s"
  then show "decodeText (encodeText s) = s"
    by (intro decode_encode_text_id) (simp add: text_survives_def)
qed

text \<open>
  Encoding a text payload and decoding it again returns the text exactly when every
  surrogate of it is half of a pair and it does not begin with U+FEFF: \<^verbatim>\<open>TextEncoder\<close> replaces an
  unpaired surrogate and \<^verbatim>\<open>TextDecoder\<close> drops a leading byte-order mark.
\<close>

theorem text_codec_roundtrip_iff:
  "decodeText (encodeText s) = s \<longleftrightarrow> well_formed s \<and> \<not> starts_with_bom s"
  by (rule decode_encode_iff)

end
