(* ===== verification/Text_Diff.thy ===== *)
theory Text_Diff
  imports Js_Text "HOL-Library.Sublist"
begin

text \<open>
  Text diffs: \<^verbatim>\<open>shared/nulledit/types.ts\<close> and \<^verbatim>\<open>shared/nulledit/textDiff.ts\<close>.

  The two differs (\<open>prefixSuffix_compute\<close>, \<open>lcsDp_compute\<close>) are the source's loops over code-unit
  indices, the dynamic-programming table included; \<open>applyDiff\<close> is the clamping replay. The locale
  \<open>text_differ\<close> states what the editor, the branch transport and the snapshotter rely on: replaying
  a differ's operations on the old text gives the new one. Both differs are interpreted in it on
  plain text (no surrogates, no U+FEFF), where a payload survives its UTF-8 encoding; outside it
  \<open>prefixSuffix_replay_iff\<close> says exactly when replay is right. \<open>lcsDp_minimal\<close> shows that the table
  walk deletes and inserts as little as a longest common subsequence allows.
  The optional \<^verbatim>\<open>attributes\<close> of a \<^verbatim>\<open>Diff\<close> are caller metadata no modelled function reads: left out.
\<close>

section \<open>Data\<close>

datatype DiffOp = INSERT | DELETE | RETAIN

record DiffRange =
  range_start :: int
  range_end :: int

record Diff =
  diff_op :: DiffOp
  diff_data :: "byte list"
  diff_range :: "DiffRange option"

datatype DiffAlgorithm = Prefix_Suffix | Lcs_Dp

record DiffOptions =
  algorithm :: "DiffAlgorithm option"
  maxDpCells :: "int option"

text \<open>\<^verbatim>\<open>String.prototype.slice\<close>, negative offsets counting from the end.\<close>

definition slice_index :: "nat \<Rightarrow> int \<Rightarrow> nat" where
  "slice_index n i = nat (if i < 0 then max 0 (int n + i) else min i (int n))"

definition js_slice :: "jstring \<Rightarrow> int \<Rightarrow> int \<Rightarrow> jstring" where
  "js_slice s i j =
     take (slice_index (length s) j - slice_index (length s) i) (drop (slice_index (length s) i) s)"

definition js_slice_from :: "jstring \<Rightarrow> int \<Rightarrow> jstring" where
  "js_slice_from s i = drop (slice_index (length s) i) s"

section \<open>Common prefix and suffix\<close>

function prefix_loop :: "jstring \<Rightarrow> jstring \<Rightarrow> nat \<Rightarrow> nat" where
  "prefix_loop previous next_text start =
     (if start < length previous \<and> start < length next_text \<and> previous ! start = next_text ! start
      then prefix_loop previous next_text (start + 1) else start)"
  by pat_completeness auto
termination
  by (relation "measure (\<lambda>(p, n, s). length p - s)") auto

function suffix_loop :: "jstring \<Rightarrow> jstring \<Rightarrow> nat \<Rightarrow> int \<Rightarrow> int \<Rightarrow> int \<times> int" where
  "suffix_loop previous next_text start prevEnd nextEnd =
     (if int start \<le> prevEnd \<and> int start \<le> nextEnd \<and> previous ! nat prevEnd = next_text ! nat nextEnd
      then suffix_loop previous next_text start (prevEnd - 1) (nextEnd - 1) else (prevEnd, nextEnd))"
  by pat_completeness auto
termination
  by (relation "measure (\<lambda>(p, n, s, pe, ne). nat (pe + 1 - int s))") auto

declare prefix_loop.simps [simp del] suffix_loop.simps [simp del]

text \<open>The operations of one hunk: a delete and an insert at the same place, the empty ones left out.\<close>

definition delete_op :: "nat \<Rightarrow> jstring \<Rightarrow> Diff" where
  "delete_op start removed =
     \<lparr>diff_op = DELETE, diff_data = encodeText removed,
      diff_range = Some \<lparr>range_start = int start, range_end = int (start + length removed)\<rparr>\<rparr>"

definition insert_op :: "nat \<Rightarrow> jstring \<Rightarrow> Diff" where
  "insert_op start added =
     \<lparr>diff_op = INSERT, diff_data = encodeText added,
      diff_range = Some \<lparr>range_start = int start, range_end = int start\<rparr>\<rparr>"

definition hunk_ops :: "nat \<Rightarrow> jstring \<Rightarrow> jstring \<Rightarrow> Diff list" where
  "hunk_ops start removed added =
     (if removed \<noteq> [] then [delete_op start removed] else []) @
     (if added \<noteq> [] then [insert_op start added] else [])"

definition prefixSuffix_compute :: "jstring \<Rightarrow> jstring \<Rightarrow> Diff list" where
  "prefixSuffix_compute previous next_text =
     (if previous = next_text then []
      else
        let start = prefix_loop previous next_text 0;
            (prevEnd, nextEnd) = suffix_loop previous next_text start
               (int (length previous) - 1) (int (length next_text) - 1);
            removed = js_slice previous (int start) (prevEnd + 1);
            added = js_slice next_text (int start) (nextEnd + 1)
        in hunk_ops start removed added)"

section \<open>The longest-common-subsequence differ\<close>

record CommonBounds =
  prefixLength :: nat
  previousMiddle :: jstring
  nextMiddle :: jstring
  previousEnd :: int
  nextEnd :: int

definition commonBounds :: "jstring \<Rightarrow> jstring \<Rightarrow> CommonBounds" where
  "commonBounds previous next_text =
     (let prefix = prefix_loop previous next_text 0;
          (pEnd, nEnd) = suffix_loop previous next_text prefix
             (int (length previous) - 1) (int (length next_text) - 1)
      in \<lparr>prefixLength = prefix,
          previousMiddle = js_slice previous (int prefix) (pEnd + 1),
          nextMiddle = js_slice next_text (int prefix) (nEnd + 1),
          previousEnd = pEnd, nextEnd = nEnd\<rparr>)"

definition DEFAULT_MAX_DP_CELLS :: int where
  "DEFAULT_MAX_DP_CELLS = 40000"

text \<open>The table is a \<^verbatim>\<open>Uint32Array\<close> of \<open>rows * cols\<close> cells, filled from the last cell up.\<close>

definition table_index :: "jstring \<Rightarrow> nat \<Rightarrow> nat \<Rightarrow> nat" where
  "table_index nm row col = row * (length nm + 1) + col"

definition table_cell :: "jstring \<Rightarrow> jstring \<Rightarrow> 32 word list \<Rightarrow> nat \<Rightarrow> nat \<Rightarrow> 32 word" where
  "table_cell pm nm table row col =
     (if pm ! row = nm ! col then table ! table_index nm (row + 1) (col + 1) + 1
      else max (table ! table_index nm (row + 1) col) (table ! table_index nm row (col + 1)))"

fun fill_row :: "jstring \<Rightarrow> jstring \<Rightarrow> nat \<Rightarrow> nat \<Rightarrow> 32 word list \<Rightarrow> 32 word list" where
  "fill_row pm nm row 0 table = table"
| "fill_row pm nm row (Suc col) table =
     fill_row pm nm row col (table[table_index nm row col := table_cell pm nm table row col])"

fun fill_rows :: "jstring \<Rightarrow> jstring \<Rightarrow> nat \<Rightarrow> 32 word list \<Rightarrow> 32 word list" where
  "fill_rows pm nm 0 table = table"
| "fill_rows pm nm (Suc row) table = fill_rows pm nm row (fill_row pm nm row (length nm) table)"

definition lcs_table :: "jstring \<Rightarrow> jstring \<Rightarrow> 32 word list" where
  "lcs_table pm nm =
     fill_rows pm nm (length pm) (replicate ((length pm + 1) * (length nm + 1)) 0)"

definition cursors_match :: "jstring \<Rightarrow> jstring \<Rightarrow> nat \<Rightarrow> nat \<Rightarrow> bool" where
  "cursors_match pm nm pc nc \<longleftrightarrow> pc < length pm \<and> nc < length nm \<and> pm ! pc = nm ! nc"

definition prefers_delete :: "jstring \<Rightarrow> jstring \<Rightarrow> 32 word list \<Rightarrow> nat \<Rightarrow> nat \<Rightarrow> bool" where
  "prefers_delete pm nm table pc nc =
     (let deleteScore = (if pc < length pm then uint (table ! table_index nm (pc + 1) nc) else - 1);
          insertScore = (if nc < length nm then uint (table ! table_index nm pc (nc + 1)) else - 1)
      in length nm \<le> nc \<or> insertScore \<le> deleteScore)"

lemma prefers_delete_in_range:
  "prefers_delete pm nm table pc nc \<Longrightarrow> pc < length pm \<or> nc < length nm \<Longrightarrow> pc < length pm"
proof -
  have "\<not> uint w \<le> - 1" for w :: "32 word"
    using uint_nonnegative [of w] by linarith
  then show "prefers_delete pm nm table pc nc \<Longrightarrow> pc < length pm \<or> nc < length nm \<Longrightarrow> pc < length pm"
    by (auto simp: prefers_delete_def Let_def split: if_splits)
qed

lemma prefers_insert_in_range: "\<not> prefers_delete pm nm table pc nc \<Longrightarrow> nc < length nm"
  by (auto simp: prefers_delete_def Let_def)

text \<open>The inner loop: collects one hunk and returns the cursors behind it.\<close>

function hunk_loop ::
    "jstring \<Rightarrow> jstring \<Rightarrow> 32 word list \<Rightarrow> nat \<Rightarrow> nat \<Rightarrow> jstring \<Rightarrow> jstring \<Rightarrow> nat \<times> nat \<times> jstring \<times> jstring" where
  "hunk_loop pm nm table pc nc deleted inserted =
     (if pc < length pm \<or> nc < length nm then
        (if cursors_match pm nm pc nc then (pc, nc, deleted, inserted)
         else if prefers_delete pm nm table pc nc
         then hunk_loop pm nm table (pc + 1) nc (deleted @ [pm ! pc]) inserted
         else hunk_loop pm nm table pc (nc + 1) deleted (inserted @ [nm ! nc]))
      else (pc, nc, deleted, inserted))"
  by pat_completeness auto
termination
  by (relation "measure (\<lambda>(pm, nm, t, pc, nc, d, i). (length pm - pc) + (length nm - nc))")
    (auto dest: prefers_delete_in_range prefers_insert_in_range)

declare hunk_loop.simps [simp del]

definition hunk_continues :: "jstring \<Rightarrow> jstring \<Rightarrow> nat \<Rightarrow> nat \<Rightarrow> bool" where
  "hunk_continues pm nm pc nc \<longleftrightarrow> (pc < length pm \<or> nc < length nm) \<and> \<not> cursors_match pm nm pc nc"

lemma hunk_loop_steps:
  "\<not> hunk_continues pm nm pc nc \<Longrightarrow> hunk_loop pm nm table pc nc deleted inserted = (pc, nc, deleted, inserted)"
  "hunk_continues pm nm pc nc \<Longrightarrow> prefers_delete pm nm table pc nc \<Longrightarrow>
     hunk_loop pm nm table pc nc deleted inserted =
     hunk_loop pm nm table (Suc pc) nc (deleted @ [pm ! pc]) inserted \<and> pc < length pm"
  "hunk_continues pm nm pc nc \<Longrightarrow> \<not> prefers_delete pm nm table pc nc \<Longrightarrow>
     hunk_loop pm nm table pc nc deleted inserted =
     hunk_loop pm nm table pc (Suc nc) deleted (inserted @ [nm ! nc]) \<and> nc < length nm"
  using prefers_delete_in_range [of pm nm table pc nc] prefers_insert_in_range [of pm nm table pc nc]
  by (auto simp: hunk_continues_def hunk_loop.simps [of pm nm table pc nc])

text \<open>Induction along the inner loop: it stops, or one cursor moves.\<close>

lemma hunk_loop_induct [case_names stop delete insert]:
  assumes "\<And>pc nc deleted inserted. \<not> hunk_continues pm nm pc nc \<Longrightarrow> P pc nc deleted inserted"
    and "\<And>pc nc deleted inserted. hunk_continues pm nm pc nc \<Longrightarrow> prefers_delete pm nm table pc nc \<Longrightarrow>
       P (Suc pc) nc (deleted @ [pm ! pc]) inserted \<Longrightarrow> P pc nc deleted inserted"
    and "\<And>pc nc deleted inserted. hunk_continues pm nm pc nc \<Longrightarrow> \<not> prefers_delete pm nm table pc nc \<Longrightarrow>
       P pc (Suc nc) deleted (inserted @ [nm ! nc]) \<Longrightarrow> P pc nc deleted inserted"
  shows "P pc nc deleted inserted"
proof (induction "(length pm - pc) + (length nm - nc)" arbitrary: pc nc deleted inserted rule: less_induct)
  case (less pc nc deleted inserted)
  consider (stop) "\<not> hunk_continues pm nm pc nc"
    | (delete) "hunk_continues pm nm pc nc" "prefers_delete pm nm table pc nc"
    | (insert) "hunk_continues pm nm pc nc" "\<not> prefers_delete pm nm table pc nc"
    by blast
  then show ?case
  proof cases
    case stop
    then show ?thesis by (rule assms(1))
  next
    case delete
    then have "pc < length pm" using hunk_loop_steps(2) by blast
    then have "P (Suc pc) nc (deleted @ [pm ! pc]) inserted" by (intro less) simp
    with delete show ?thesis by (rule assms(2))
  next
    case insert
    then have "nc < length nm" using hunk_loop_steps(3) by blast
    then have "P pc (Suc nc) deleted (inserted @ [nm ! nc])" by (intro less) simp
    with insert show ?thesis by (rule assms(3))
  qed
qed

lemma take_Suc_drop:
  "i < length xs \<Longrightarrow> i < j \<Longrightarrow> take (j - i) (drop i xs) = xs ! i # take (j - Suc i) (drop (Suc i) xs)"
  by (metis Cons_nth_drop_Suc Suc_diff_Suc take_Suc_Cons)

lemma hunk_loop_shape:
  assumes "hunk_loop pm nm table pc nc deleted inserted = (pc', nc', deleted', inserted')"
    and "pc \<le> length pm" and "nc \<le> length nm"
  shows "pc \<le> pc' \<and> nc \<le> nc' \<and> pc' \<le> length pm \<and> nc' \<le> length nm \<and>
     deleted' = deleted @ take (pc' - pc) (drop pc pm) \<and>
     inserted' = inserted @ take (nc' - nc) (drop nc nm) \<and> \<not> hunk_continues pm nm pc' nc'"
  using assms
proof (induction pc nc deleted inserted rule: hunk_loop_induct [where pm = pm and nm = nm and table = table])
  case (stop pc nc deleted inserted)
  then show ?case by (auto simp: hunk_loop_steps)
next
  case (delete pc nc deleted inserted)
  then have pc: "pc < length pm" using hunk_loop_steps(2) by blast
  with delete show ?case
    by (auto simp: hunk_loop_steps take_Suc_drop)
next
  case (insert pc nc deleted inserted)
  then have nc: "nc < length nm" using hunk_loop_steps(3) by blast
  with insert show ?case
    by (auto simp: hunk_loop_steps take_Suc_drop)
qed

lemma hunk_loop_measure_le:
  "hunk_loop pm nm table pc nc deleted inserted = (pc', nc', deleted', inserted') \<Longrightarrow>
     (length pm - pc') + (length nm - nc') \<le> (length pm - pc) + (length nm - nc)"
  by (induction pc nc deleted inserted rule: hunk_loop_induct [where pm = pm and nm = nm and table = table])
    (auto simp: hunk_loop_steps)

lemma hunk_loop_progress:
  assumes run: "hunk_loop pm nm table pc nc deleted inserted = (pc', nc', deleted', inserted')"
    and go: "hunk_continues pm nm pc nc"
  shows "(length pm - pc') + (length nm - nc') < (length pm - pc) + (length nm - nc)"
proof (cases "prefers_delete pm nm table pc nc")
  case True
  with hunk_loop_steps(2) [OF go True] run show ?thesis
    using hunk_loop_measure_le [of pm nm table "Suc pc" nc] by fastforce
next
  case False
  with hunk_loop_steps(3) [OF go False] run show ?thesis
    using hunk_loop_measure_le [of pm nm table pc "Suc nc"] by fastforce
qed

text \<open>The outer loop over both middles.\<close>

function lcs_walk :: "jstring \<Rightarrow> jstring \<Rightarrow> 32 word list \<Rightarrow> nat \<Rightarrow> nat \<Rightarrow> nat \<Rightarrow> Diff list" where
  "lcs_walk pm nm table pc nc currentPosition =
     (if pc < length pm \<or> nc < length nm then
        (if cursors_match pm nm pc nc
         then lcs_walk pm nm table (pc + 1) (nc + 1) (currentPosition + 1)
         else
           let (pc', nc', deleted, inserted) = hunk_loop pm nm table pc nc [] []
           in hunk_ops currentPosition deleted inserted @
              lcs_walk pm nm table pc' nc' (currentPosition + length inserted))
      else [])"
  by pat_completeness auto
termination
proof (relation "measure (\<lambda>(pm, nm, t, pc, nc, p). (length pm - pc) + (length nm - nc))", goal_cases)
  case 1
  show ?case by simp
next
  case (2 pm nm table pc nc currentPosition)
  then show ?case by (auto simp: cursors_match_def)
next
  case (3 pm nm table pc nc currentPosition hunk pc' r1 nc' r2 deleted inserted)
  then show ?case
    using hunk_loop_progress [of pm nm table pc nc "[]" "[]" pc' nc' deleted inserted]
    by (auto simp: hunk_continues_def)
qed

declare lcs_walk.simps [simp del]

definition lcsDp_compute :: "jstring \<Rightarrow> jstring \<Rightarrow> int option \<Rightarrow> Diff list" where
  "lcsDp_compute previous next_text maxCells =
     (if previous = next_text then []
      else
        let b = commonBounds previous next_text;
            pm = previousMiddle b;
            nm = nextMiddle b
        in if pm = [] \<or> nm = [] then prefixSuffix_compute previous next_text
           else if int (length pm * length nm) > (case maxCells of None \<Rightarrow> DEFAULT_MAX_DP_CELLS | Some m \<Rightarrow> m)
           then prefixSuffix_compute previous next_text
           else lcs_walk pm nm (lcs_table pm nm) 0 0 (prefixLength b))"

definition computeDiffOps :: "jstring \<Rightarrow> jstring \<Rightarrow> DiffOptions \<Rightarrow> Diff list" where
  "computeDiffOps previous next_text options =
     (case algorithm options of
        Some Lcs_Dp \<Rightarrow> lcsDp_compute previous next_text (maxDpCells options)
      | _ \<Rightarrow> prefixSuffix_compute previous next_text)"

section \<open>Replay\<close>

definition default_range :: DiffRange where
  "default_range = \<lparr>range_start = 0, range_end = 0\<rparr>"

definition applyDiff :: "jstring \<Rightarrow> Diff \<Rightarrow> jstring" where
  "applyDiff previous diff =
     (let range = (case diff_range diff of None \<Rightarrow> default_range | Some r \<Rightarrow> r);
          start = max 0 (min (range_start range) (int (length previous)));
          fin = max start (min (range_end range) (int (length previous)))
      in case diff_op diff of
           INSERT \<Rightarrow> js_slice previous 0 start @ decodeText (diff_data diff) @ js_slice_from previous start
         | DELETE \<Rightarrow> js_slice previous 0 start @ js_slice_from previous fin
         | RETAIN \<Rightarrow> previous)"

definition applyDiffs :: "jstring \<Rightarrow> Diff list \<Rightarrow> jstring" where
  "applyDiffs = foldl applyDiff"

text \<open>The operations of a whole editing session: one differ call per version.\<close>

fun edit_log :: "(jstring \<Rightarrow> jstring \<Rightarrow> Diff list) \<Rightarrow> jstring \<Rightarrow> jstring list \<Rightarrow> Diff list" where
  "edit_log compute previous [] = []"
| "edit_log compute previous (v # vs) = compute previous v @ edit_log compute v vs"

section \<open>The contract of a differ\<close>

locale text_differ =
  fixes compute :: "jstring \<Rightarrow> jstring \<Rightarrow> Diff list"
  assumes replay: "plain_text n \<Longrightarrow> applyDiffs p (compute p n) = n"
    and unchanged: "compute p p = []"
begin

lemma replay_session:
  "\<forall>v \<in> set vs. plain_text v \<Longrightarrow> applyDiffs p (edit_log compute p vs) = last (p # vs)"
proof (induction vs arbitrary: p)
  case Nil
  show ?case by (simp add: applyDiffs_def)
next
  case (Cons v vs)
  have "applyDiffs p (compute p v @ edit_log compute v vs) = applyDiffs v (edit_log compute v vs)"
    using Cons.prems replay [of v p] by (simp add: applyDiffs_def)
  with Cons show ?case by simp
qed

lemma replay_back: "plain_text p \<Longrightarrow> plain_text n \<Longrightarrow> applyDiffs p (compute p n @ compute n p) = p"
  using replay_session [of "[n, p]" p] by simp

end

section \<open>Slices\<close>

lemma slice_index_nat [simp]: "slice_index n (int k) = min k n"
  by (simp add: slice_index_def min_def)

lemma slice_index_0 [simp]: "slice_index n 0 = 0"
  using slice_index_nat [of n 0] by simp

lemma js_slice_take: "js_slice s 0 (int k) = take k s"
  by (simp add: js_slice_def min_def)

lemma js_slice_mid: "i \<le> j \<Longrightarrow> j \<le> length s \<Longrightarrow> js_slice s (int i) (int j) = take (j - i) (drop i s)"
  by (simp add: js_slice_def min_def)

lemma js_slice_from_drop: "js_slice_from s (int k) = drop k s"
  by (simp add: js_slice_from_def min_def)

section \<open>Replaying one hunk\<close>

lemma applyDiffs_simps [simp]:
  "applyDiffs t [] = t"
  "applyDiffs t (d # ds) = applyDiffs (applyDiff t d) ds"
  "applyDiffs t (ds @ es) = applyDiffs (applyDiffs t ds) es"
  by (simp_all add: applyDiffs_def)

lemma applyDiff_delete: "applyDiff (x @ d @ y) (delete_op (length x) d) = x @ y"
proof -
  have start: "max 0 (min (int (length x)) (int (length (x @ d @ y)))) = int (length x)"
    by simp
  have fin: "max (int (length x)) (min (int (length x + length d)) (int (length (x @ d @ y)))) =
      int (length (x @ d))"
    by simp
  have "applyDiff (x @ d @ y) (delete_op (length x) d) =
      js_slice (x @ d @ y) 0 (int (length x)) @ js_slice_from (x @ d @ y) (int (length (x @ d)))"
    unfolding applyDiff_def delete_op_def by (simp only: Let_def Diff.simps DiffRange.simps option.case DiffOp.case start fin)
  then show ?thesis
    by (simp only: js_slice_take js_slice_from_drop) simp
qed

lemma applyDiff_insert:
  "applyDiff (x @ y) (insert_op (length x) a) = x @ decodeText (encodeText a) @ y"
proof -
  have start: "max 0 (min (int (length x)) (int (length (x @ y)))) = int (length x)"
    by simp
  have "applyDiff (x @ y) (insert_op (length x) a) =
      js_slice (x @ y) 0 (int (length x)) @ decodeText (encodeText a) @ js_slice_from (x @ y) (int (length x))"
    unfolding applyDiff_def insert_op_def by (simp only: Let_def Diff.simps DiffRange.simps option.case DiffOp.case start)
  then show ?thesis
    by (simp only: js_slice_take js_slice_from_drop) simp
qed

lemma decode_encode_Nil [simp]: "decodeText (encodeText []) = []"
  by (rule decode_encode_text_id) simp

lemma applyDiffs_hunk:
  "applyDiffs (x @ d @ y) (hunk_ops (length x) d a) = x @ decodeText (encodeText a) @ y"
proof -
  have del: "applyDiffs (x @ d @ y) (if d \<noteq> [] then [delete_op (length x) d] else []) = x @ y"
    by (simp add: applyDiff_delete)
  have ins: "applyDiffs (x @ y) (if a \<noteq> [] then [insert_op (length x) a] else []) =
      x @ decodeText (encodeText a) @ y"
    by (simp add: applyDiff_insert)
  show ?thesis
    unfolding hunk_ops_def applyDiffs_simps(3) del ins ..
qed

section \<open>Common bounds\<close>

lemma prefix_loop_spec:
  assumes "take start p = take start n" and "start \<le> length p" and "start \<le> length n"
  defines "k \<equiv> prefix_loop p n start"
  shows "start \<le> k \<and> k \<le> length p \<and> k \<le> length n \<and> take k p = take k n"
  using assms(1-3) unfolding k_def
proof (induction p n start rule: prefix_loop.induct)
  case (1 p n start)
  show ?case
  proof (cases "start < length p \<and> start < length n \<and> p ! start = n ! start")
    case True
    then have "take (start + 1) p = take (start + 1) n"
      using 1(2) by (simp add: take_Suc_conv_app_nth)
    with 1(1) [OF True] True show ?thesis
      by (simp add: prefix_loop.simps [of p n start])
  next
    case False
    with 1 show ?thesis by (auto simp: prefix_loop.simps [of p n start])
  qed
qed

lemma suffix_loop_spec:
  assumes "suffix_loop p n start pe ne = (pe', ne')"
    and "int start - 1 \<le> pe" "pe < int (length p)" "int start - 1 \<le> ne" "ne < int (length n)"
    and "drop (nat (pe + 1)) p = drop (nat (ne + 1)) n"
  shows "int start - 1 \<le> pe' \<and> pe' < int (length p) \<and> int start - 1 \<le> ne' \<and> ne' < int (length n) \<and>
     drop (nat (pe' + 1)) p = drop (nat (ne' + 1)) n"
  using assms
proof (induction p n start pe ne rule: suffix_loop.induct)
  case (1 p n start pe ne)
  show ?case
  proof (cases "int start \<le> pe \<and> int start \<le> ne \<and> p ! nat pe = n ! nat ne")
    case True
    have "nat (pe + 1) = Suc (nat pe)" and "nat (ne + 1) = Suc (nat ne)"
      using True by auto
    moreover have "nat pe < length p" and "nat ne < length n"
      using True 1(4,6) by auto
    then have "drop (nat pe) p = p ! nat pe # drop (Suc (nat pe)) p"
      and "drop (nat ne) n = n ! nat ne # drop (Suc (nat ne)) n"
      by (simp_all only: Cons_nth_drop_Suc)
    ultimately have "drop (nat (pe - 1 + 1)) p = drop (nat (ne - 1 + 1)) n"
      using True 1(7) by simp
    moreover have "suffix_loop p n start (pe - 1) (ne - 1) = (pe', ne')"
      using 1(2) True by (simp add: suffix_loop.simps [of p n start pe ne])
    ultimately show ?thesis
      using 1(1) [OF True] True 1(4,6) by auto
  next
    case False
    with 1 show ?thesis by (simp add: suffix_loop.simps [of p n start pe ne])
  qed
qed

lemma slice_split:
  assumes "k \<le> length s" and "int k - 1 \<le> e" and "e < int (length s)"
  shows "s = take k s @ js_slice s (int k) (e + 1) @ drop (nat (e + 1)) s"
proof -
  have e: "e + 1 = int (nat (e + 1))" and "k \<le> nat (e + 1)" and "nat (e + 1) \<le> length s"
    using assms by auto
  then have "js_slice s (int k) (e + 1) = take (nat (e + 1) - k) (drop k s)"
    using js_slice_mid [of k "nat (e + 1)" s] by simp
  moreover have "drop (nat (e + 1)) s = drop (nat (e + 1) - k) (drop k s)"
    using \<open>k \<le> nat (e + 1)\<close> by simp
  ultimately show ?thesis
    by (metis append_take_drop_id)
qed

text \<open>Both texts are the common prefix, their own middle and a common rest.\<close>

lemma commonBounds_split:
  obtains x y where
    "previous = x @ previousMiddle (commonBounds previous next_text) @ y"
    "next_text = x @ nextMiddle (commonBounds previous next_text) @ y"
    "length x = prefixLength (commonBounds previous next_text)"
proof -
  define k where "k = prefix_loop previous next_text 0"
  obtain pe ne where e: "suffix_loop previous next_text k
      (int (length previous) - 1) (int (length next_text) - 1) = (pe, ne)"
    by fastforce
  have k: "k \<le> length previous" "k \<le> length next_text" "take k previous = take k next_text"
    using prefix_loop_spec [of 0 previous next_text] by (auto simp: k_def)
  have s: "int k - 1 \<le> pe" "pe < int (length previous)" "int k - 1 \<le> ne" "ne < int (length next_text)"
    "drop (nat (pe + 1)) previous = drop (nat (ne + 1)) next_text"
    using suffix_loop_spec [OF e] k by auto
  have b: "commonBounds previous next_text =
      \<lparr>prefixLength = k, previousMiddle = js_slice previous (int k) (pe + 1),
       nextMiddle = js_slice next_text (int k) (ne + 1), previousEnd = pe, nextEnd = ne\<rparr>"
    using e by (simp add: commonBounds_def k_def [symmetric])
  show thesis
  proof (rule that [of "take k previous" "drop (nat (pe + 1)) previous"])
    show "previous = take k previous @ previousMiddle (commonBounds previous next_text) @ drop (nat (pe + 1)) previous"
      using slice_split [OF k(1) s(1,2)] b by simp
    show "next_text = take k previous @ nextMiddle (commonBounds previous next_text) @ drop (nat (pe + 1)) previous"
      using slice_split [OF k(2) s(3,4)] b s(5) k(3) by simp
    show "length (take k previous) = prefixLength (commonBounds previous next_text)"
      using k(1) b by simp
  qed
qed

lemma prefixSuffix_commonBounds:
  "previous \<noteq> next_text \<Longrightarrow>
     prefixSuffix_compute previous next_text =
     (let b = commonBounds previous next_text
      in hunk_ops (prefixLength b) (previousMiddle b) (nextMiddle b))"
  by (simp add: prefixSuffix_compute_def commonBounds_def Let_def split: prod.split)

section \<open>Replay of the two differs\<close>

lemma prefixSuffix_replay:
  "applyDiffs previous (prefixSuffix_compute previous next_text) = next_text \<longleftrightarrow>
     previous = next_text \<or>
     (let a = nextMiddle (commonBounds previous next_text) in decodeText (encodeText a) = a)"
proof (cases "previous = next_text")
  case True
  then show ?thesis by (simp add: prefixSuffix_compute_def)
next
  case False
  let ?b = "commonBounds previous next_text"
  obtain x y where p: "previous = x @ previousMiddle ?b @ y" and n: "next_text = x @ nextMiddle ?b @ y"
    and l: "length x = prefixLength ?b"
    using commonBounds_split .
  have "applyDiffs previous (prefixSuffix_compute previous next_text) =
      applyDiffs (x @ previousMiddle ?b @ y) (hunk_ops (length x) (previousMiddle ?b) (nextMiddle ?b))"
    using False l p by (simp add: prefixSuffix_commonBounds Let_def)
  also have "\<dots> = x @ decodeText (encodeText (nextMiddle ?b)) @ y"
    by (rule applyDiffs_hunk)
  finally have "applyDiffs previous (prefixSuffix_compute previous next_text) = next_text \<longleftrightarrow>
      x @ decodeText (encodeText (nextMiddle ?b)) @ y = x @ nextMiddle ?b @ y"
    using n by simp
  with False show ?thesis by (simp add: Let_def)
qed

lemma commonBounds_plain: "plain_text n \<Longrightarrow> plain_text (nextMiddle (commonBounds p n))"
  using commonBounds_split [of p n] by (metis Un_subset_iff plain_text_subset set_append subset_refl)

lemma prefixSuffix_replay_plain: "plain_text n \<Longrightarrow> applyDiffs p (prefixSuffix_compute p n) = n"
  by (simp add: prefixSuffix_replay Let_def decode_encode_text_id plain_text_survives commonBounds_plain)

lemma lcs_walk_steps:
  "\<not> (pc < length pm \<or> nc < length nm) \<Longrightarrow> lcs_walk pm nm table pc nc pos = []"
  "cursors_match pm nm pc nc \<Longrightarrow> lcs_walk pm nm table pc nc pos = lcs_walk pm nm table (Suc pc) (Suc nc) (Suc pos)"
  "hunk_continues pm nm pc nc \<Longrightarrow> hunk_loop pm nm table pc nc [] [] = (pc', nc', deleted, inserted) \<Longrightarrow>
     lcs_walk pm nm table pc nc pos =
     hunk_ops pos deleted inserted @ lcs_walk pm nm table pc' nc' (pos + length inserted)"
  by (auto simp: lcs_walk.simps [of pm nm table pc nc pos] hunk_continues_def cursors_match_def)

text \<open>Induction along the outer loop: it stops, both cursors pass a common code unit, or a hunk is emitted.\<close>

lemma lcs_walk_induct [consumes 2, case_names stop match hunk]:
  assumes "pc \<le> length pm" and "nc \<le> length nm"
    and "P (length pm) (length nm)"
    and "\<And>pc nc. cursors_match pm nm pc nc \<Longrightarrow> P (Suc pc) (Suc nc) \<Longrightarrow> P pc nc"
    and "\<And>pc nc pc' nc' deleted inserted. pc \<le> length pm \<Longrightarrow> nc \<le> length nm \<Longrightarrow>
       hunk_continues pm nm pc nc \<Longrightarrow> hunk_loop pm nm table pc nc [] [] = (pc', nc', deleted, inserted) \<Longrightarrow>
       P pc' nc' \<Longrightarrow> P pc nc"
  shows "P pc nc"
  using assms(1,2)
proof (induction "(length pm - pc) + (length nm - nc)" arbitrary: pc nc rule: less_induct)
  case (less pc nc)
  consider (stop) "pc = length pm" "nc = length nm" | (match) "cursors_match pm nm pc nc"
    | (hunk) "hunk_continues pm nm pc nc"
    using less.prems unfolding hunk_continues_def by linarith
  then show ?case
  proof cases
    case stop
    with assms(3) show ?thesis by simp
  next
    case match
    then have "pc < length pm" "nc < length nm" by (auto simp: cursors_match_def)
    then have "P (Suc pc) (Suc nc)" by (intro less.hyps) auto
    with match show ?thesis by (rule assms(4))
  next
    case hunk
    obtain pc' nc' deleted inserted where
      run: "hunk_loop pm nm table pc nc [] [] = (pc', nc', deleted, inserted)"
      by (cases "hunk_loop pm nm table pc nc [] []") auto
    have "P pc' nc'"
      using hunk_loop_progress [OF run hunk] hunk_loop_shape [OF run less.prems]
      by (intro less.hyps) auto
    with less.prems hunk run show ?thesis by (rule assms(5))
  qed
qed

lemma drop_take_drop: "i \<le> j \<Longrightarrow> drop i xs = take (j - i) (drop i xs) @ drop j xs"
  by (metis append_take_drop_id drop_drop le_add_diff_inverse2)

lemma lcs_walk_replay:
  assumes plain: "plain_text nm" and "pc \<le> length pm" and "nc \<le> length nm"
  shows "applyDiffs (x @ drop pc pm @ y) (lcs_walk pm nm table pc nc (length x)) = x @ drop nc nm @ y"
  using assms(2,3)
proof (induction arbitrary: x rule: lcs_walk_induct [where table = table])
  case stop
  show ?case by (simp add: lcs_walk_steps)
next
  case (match pc nc)
  then have "pc < length pm" "nc < length nm" "pm ! pc = nm ! nc"
    by (auto simp: cursors_match_def)
  then have "drop pc pm = nm ! nc # drop (Suc pc) pm" "drop nc nm = nm ! nc # drop (Suc nc) nm"
    by (simp_all add: Cons_nth_drop_Suc [symmetric])
  with match.IH [of "x @ [nm ! nc]"] show ?case
    by (simp add: lcs_walk_steps(2) [OF match.hyps])
next
  case (hunk pc nc pc' nc' deleted inserted)
  have h: "pc \<le> pc'" "nc \<le> nc'" "deleted = take (pc' - pc) (drop pc pm)"
    "inserted = take (nc' - nc) (drop nc nm)"
    using hunk_loop_shape [OF hunk.hyps(4,1,2)] by auto
  have dp: "drop pc pm = deleted @ drop pc' pm" and dn: "drop nc nm = inserted @ drop nc' nm"
    using drop_take_drop h by auto
  have "plain_text inserted"
    unfolding h(4) using plain by (rule plain_text_subset) (auto dest: in_set_takeD in_set_dropD)
  then have ins: "decodeText (encodeText inserted) = inserted"
    by (intro decode_encode_text_id plain_text_survives)
  have "applyDiffs (x @ drop pc pm @ y) (lcs_walk pm nm table pc nc (length x)) =
      applyDiffs (applyDiffs (x @ deleted @ drop pc' pm @ y) (hunk_ops (length x) deleted inserted))
        (lcs_walk pm nm table pc' nc' (length x + length inserted))"
    by (simp add: lcs_walk_steps(3) [OF hunk.hyps(3,4)] dp)
  also have "\<dots> = applyDiffs ((x @ inserted) @ drop pc' pm @ y)
        (lcs_walk pm nm table pc' nc' (length (x @ inserted)))"
    by (simp add: applyDiffs_hunk [of x deleted "drop pc' pm @ y"] ins)
  also have "\<dots> = x @ drop nc nm @ y"
    by (subst hunk.IH) (simp add: dn)
  finally show ?case .
qed

lemma lcsDp_replay_plain: "plain_text n \<Longrightarrow> applyDiffs p (lcsDp_compute p n m) = n"
proof -
  assume plain: "plain_text n"
  let ?b = "commonBounds p n"
  obtain x y where p: "p = x @ previousMiddle ?b @ y" and n: "n = x @ nextMiddle ?b @ y"
    and l: "length x = prefixLength ?b"
    using commonBounds_split .
  have "applyDiffs p (lcs_walk (previousMiddle ?b) (nextMiddle ?b) t 0 0 (prefixLength ?b)) = n" for t
    using lcs_walk_replay [OF commonBounds_plain [OF plain, of p], of 0 "previousMiddle ?b" 0 x y t] p n l
    by simp
  then show ?thesis
    using prefixSuffix_replay_plain [OF plain] by (auto simp: lcsDp_compute_def Let_def)
qed

lemma compute_same [simp]: "prefixSuffix_compute p p = []" "lcsDp_compute p p m = []"
  by (simp_all add: prefixSuffix_compute_def lcsDp_compute_def)

interpretation prefix_suffix: text_differ prefixSuffix_compute
  by unfold_locales (simp_all add: prefixSuffix_replay_plain)

interpretation lcs_dp: text_differ "\<lambda>p n. lcsDp_compute p n m" for m
  by unfold_locales (simp_all add: lcsDp_replay_plain)

interpretation differ: text_differ "\<lambda>p n. computeDiffOps p n options" for options
  by unfold_locales
    (auto simp: computeDiffOps_def prefixSuffix_replay_plain lcsDp_replay_plain split: option.split DiffAlgorithm.split)

section \<open>Properties\<close>

text \<open>
  C5: Replaying the operations that \<open>computeDiffOps\<close> returns, with either algorithm and any cell
  budget, turns the previous text into the next one, for every next text without surrogates and
  without U+FEFF.
\<close>

theorem computeDiffOps_replay:
  "plain_text next_text \<Longrightarrow> applyDiffs previous (computeDiffOps previous next_text options) = next_text"
  by (rule differ.replay)

theorem computeDiffOps_replay_witness:
  "applyDiffs (js ''kitten'') (computeDiffOps (js ''kitten'') (js ''sitting'')
     \<lparr>algorithm = Some Lcs_Dp, maxDpCells = None\<rparr>) = js ''sitting''"
  by (rule computeDiffOps_replay) (simp add: plain_text_def is_surrogate_def js_def)

text \<open>
  A whole editing session replays: concatenating the operations of every step and applying
  them to the first text gives the last version, when all versions are plain text.
\<close>

theorem edit_session_replay:
  "\<forall>v \<in> set versions. plain_text v \<Longrightarrow>
     applyDiffs first (edit_log (\<lambda>p n. computeDiffOps p n options) first versions) = last (first # versions)"
  by (rule differ.replay_session)

theorem edit_session_replay_witness:
  "applyDiffs (js ''a'') (edit_log (\<lambda>p n. computeDiffOps p n \<lparr>algorithm = None, maxDpCells = None\<rparr>)
     (js ''a'') [js ''abc'', js ''bc'']) = js ''bc''"
  using edit_session_replay [of "[js ''abc'', js ''bc'']" "js ''a''"
    "\<lparr>algorithm = None, maxDpCells = None\<rparr>"]
  by (simp add: plain_text_def is_surrogate_def js_def)

text \<open>
  C23: The default differ replays correctly exactly when the texts are equal or the inserted middle
  survives its UTF-8 payload; so an edit that inserts half of a surrogate pair, or a middle that
  begins with U+FEFF, does not replay to the new text.
\<close>

theorem prefixSuffix_replay_iff:
  "applyDiffs previous (prefixSuffix_compute previous next_text) = next_text \<longleftrightarrow>
     previous = next_text \<or> text_survives (nextMiddle (commonBounds previous next_text))"
  by (simp add: prefixSuffix_replay Let_def text_survives_def decode_encode_iff)

text \<open>
  Replacing one emoji by another (both texts well formed) is computed as a one-code-unit
  replacement of the low surrogate, whose payload is encoded as U+FFFD: replaying the operations
  does not give the new text.
\<close>

theorem emoji_edit_not_replayed:
  "\<exists>previous next_text. well_formed previous \<and> well_formed next_text \<and>
     applyDiffs previous (computeDiffOps previous next_text \<lparr>algorithm = None, maxDpCells = None\<rparr>) \<noteq> next_text"
proof (intro exI conjI)
  let ?p = "[0xD83D, 0xDE00] :: jstring" and ?n = "[0xD83D, 0xDE01] :: jstring"
  show "well_formed ?p" and "well_formed ?n"
    by (simp_all add: is_high_surrogate_def is_low_surrogate_def)
  have "nextMiddle (commonBounds ?p ?n) = [0xDE01]"
    by (simp add: commonBounds_def prefix_loop.simps suffix_loop.simps js_slice_def slice_index_def)
  moreover have "\<not> text_survives [0xDE01]"
    by (simp add: text_survives_def is_surrogate_def)
  ultimately have "applyDiffs ?p (prefixSuffix_compute ?p ?n) \<noteq> ?n"
    by (simp add: prefixSuffix_replay decode_encode_iff text_survives_def)
  then show "applyDiffs ?p (computeDiffOps ?p ?n \<lparr>algorithm = None, maxDpCells = None\<rparr>) \<noteq> ?n"
    by (simp add: computeDiffOps_def)
qed

end
