(* ===== verification/Text_Diff_Optimal.thy ===== *)
theory Text_Diff_Optimal
  imports Text_Diff
begin

text \<open>
  What the dynamic-programming table of \<^verbatim>\<open>lcsDpDiffer\<close> (\<^verbatim>\<open>shared/nulledit/textDiff.ts\<close>) is worth:
  every cell is the length of a longest common subsequence of the two remaining middles
  (\<open>lcs_table_correct\<close>), so the walk along it keeps as many code units as possible and removes and
  adds the fewest (\<open>lcsDp_counts\<close>). \<open>lcs_len\<close> is the reference: \<open>lcs_len_greatest\<close> and
  \<open>lcs_len_attained\<close> tie it to \<open>subseq\<close>. Cells are 32 bits wide; a middle below \<open>2 ^ 32\<close> code units
  (no JavaScript string is longer) keeps them from wrapping.
\<close>

section \<open>Longest common subsequences\<close>

fun lcs_len :: "'a list \<Rightarrow> 'a list \<Rightarrow> nat" where
  "lcs_len [] ys = 0"
| "lcs_len xs [] = 0"
| "lcs_len (x # xs) (y # ys) =
     (if x = y then Suc (lcs_len xs ys) else max (lcs_len xs (y # ys)) (lcs_len (x # xs) ys))"

text \<open>Code units a list of operations removes and adds.\<close>

definition removed_units :: "Diff list \<Rightarrow> nat" where
  "removed_units ops =
     sum_list (map (\<lambda>d. case diff_range d of None \<Rightarrow> 0 | Some r \<Rightarrow>
       if diff_op d = DELETE then nat (range_end r - range_start r) else 0) ops)"

definition added_units :: "Diff list \<Rightarrow> nat" where
  "added_units ops =
     sum_list (map (\<lambda>d. if diff_op d = INSERT then length (decodeText (diff_data d)) else 0) ops)"

section \<open>The reference is the greatest common subsequence length\<close>

lemma lcs_len_Nil2 [simp]: "lcs_len xs [] = 0"
  by (cases xs) simp_all

lemma lcs_len_greatest: "subseq zs xs \<Longrightarrow> subseq zs ys \<Longrightarrow> length zs \<le> lcs_len xs ys"
proof (induction xs ys arbitrary: zs rule: lcs_len.induct)
  case (1 ys)
  then show ?case by simp
next
  case (2 x xs)
  then show ?case by simp
next
  case (3 x xs y ys)
  show ?case
  proof (cases zs)
    case Nil
    then show ?thesis by simp
  next
    case (Cons z zs')
    show ?thesis
    proof (cases "x = y")
      case True
      show ?thesis
      proof (cases "z = x")
        case z: True
        then have "subseq zs' xs" "subseq zs' ys"
          using 3(4,5) Cons True by simp_all
        with 3(1) [OF True] Cons True show ?thesis by simp
      next
        case z: False
        then have "subseq zs xs" "subseq zs ys"
          using 3(4,5) Cons True by simp_all
        with 3(1) [OF True] True show ?thesis by fastforce
      qed
    next
      case False
      then have "subseq zs xs \<or> subseq zs ys"
        using 3(4,5) Cons by (cases "z = x") simp_all
      with 3(2,3) [OF False] 3(4,5) False show ?thesis by fastforce
    qed
  qed
qed

lemma lcs_len_attained: "\<exists>zs. subseq zs xs \<and> subseq zs ys \<and> length zs = lcs_len xs ys"
proof (induction xs ys rule: lcs_len.induct)
  case (3 x xs y ys)
  show ?case
  proof (cases "x = y")
    case True
    with 3(1) obtain zs where "subseq zs xs" "subseq zs ys" "length zs = lcs_len xs ys" by blast
    with True show ?thesis by (intro exI [of _ "x # zs"]) simp
  next
    case False
    obtain a where a: "subseq a xs" "subseq a (y # ys)" "length a = lcs_len xs (y # ys)"
      using 3(2) [OF False] by blast
    obtain b where b: "subseq b (x # xs)" "subseq b ys" "length b = lcs_len (x # xs) ys"
      using 3(3) [OF False] by blast
    show ?thesis
    proof (cases "lcs_len (x # xs) ys \<le> lcs_len xs (y # ys)")
      case True
      with a False show ?thesis
        by (intro exI [of _ a]) (simp add: list_emb_Cons max_absorb1)
    next
      case False
      with b \<open>x \<noteq> y\<close> show ?thesis
        by (intro exI [of _ b]) (simp add: list_emb_Cons max_absorb2)
    qed
  qed
qed auto

lemma lcs_len_le: "lcs_len xs ys \<le> length xs" "lcs_len xs ys \<le> length ys"
  by (induction xs ys rule: lcs_len.induct) auto

lemma subseq_rev: "subseq xs ys \<Longrightarrow> subseq (rev xs) (rev ys)"
  by (induction rule: list_emb.induct) (auto intro: list_emb_append_mono)

lemma lcs_len_rev: "lcs_len (rev xs) (rev ys) = lcs_len xs ys"
proof (rule antisym)
  obtain zs where "subseq zs (rev xs)" "subseq zs (rev ys)" "length zs = lcs_len (rev xs) (rev ys)"
    using lcs_len_attained by blast
  then show "lcs_len (rev xs) (rev ys) \<le> lcs_len xs ys"
    using lcs_len_greatest [of "rev zs" xs ys] subseq_rev [of zs "rev xs"] subseq_rev [of zs "rev ys"]
    by simp
next
  obtain zs where "subseq zs xs" "subseq zs ys" "length zs = lcs_len xs ys"
    using lcs_len_attained by blast
  then show "lcs_len xs ys \<le> lcs_len (rev xs) (rev ys)"
    using lcs_len_greatest [of "rev zs" "rev xs" "rev ys"] subseq_rev by fastforce
qed

lemma lcs_len_prefix: "lcs_len (x @ p) (x @ n) = length x + lcs_len p n"
  by (induction x) simp_all

lemma lcs_len_suffix: "lcs_len (p @ y) (n @ y) = lcs_len p n + length y"
  using lcs_len_prefix [of "rev y" "rev p" "rev n"]
  by (simp add: lcs_len_rev [symmetric, of "p @ y"] lcs_len_rev [of p n])

section \<open>The table\<close>

definition table_ok :: "jstring \<Rightarrow> jstring \<Rightarrow> nat \<Rightarrow> nat \<Rightarrow> 32 word list \<Rightarrow> bool" where
  "table_ok pm nm row col table \<longleftrightarrow>
     length table = (length pm + 1) * (length nm + 1) \<and>
     (\<forall>r \<le> length pm. \<forall>c \<le> length nm. row < r \<or> r = row \<and> col \<le> c \<or> c = length nm \<or> r = length pm \<longrightarrow>
        unat (table ! table_index nm r c) = lcs_len (drop r pm) (drop c nm))"

lemma table_okD:
  "table_ok pm nm row col table \<Longrightarrow> r \<le> length pm \<Longrightarrow> c \<le> length nm \<Longrightarrow>
     row < r \<or> r = row \<and> col \<le> c \<or> c = length nm \<or> r = length pm \<Longrightarrow>
     unat (table ! table_index nm r c) = lcs_len (drop r pm) (drop c nm)"
  unfolding table_ok_def by blast

lemma table_index_inj:
  assumes "c \<le> length nm" and "c' \<le> length nm"
  shows "table_index nm r c = table_index nm r' c' \<longleftrightarrow> r = r' \<and> c = c'"
proof
  assume eq: "table_index nm r c = table_index nm r' c'"
  let ?w = "length nm + 1"
  have "(r * ?w + c) div ?w = r" "(r' * ?w + c') div ?w = r'"
    using assms by (simp_all only: div_mult_self3 div_less)
  with eq have "r = r'" unfolding table_index_def by metis
  with eq show "r = r' \<and> c = c'" by (simp add: table_index_def)
qed simp

lemma table_index_bound:
  assumes "r \<le> length pm" and "c \<le> length nm"
  shows "table_index nm r c < (length pm + 1) * (length nm + 1)"
proof -
  have "r * (length nm + 1) \<le> length pm * (length nm + 1)"
    using assms(1) by (rule mult_le_mono1)
  then show ?thesis using assms(2) by (simp add: table_index_def)
qed

lemma unat_max: "unat (max a b) = max (unat a) (unat (b :: 32 word))"
  by (simp add: max_def word_le_nat_alt)

lemma unat_Suc_32: "unat (w :: 32 word) + 1 < 2 ^ 32 \<Longrightarrow> unat (w + 1) = unat w + 1"
  by (simp add: unat_word_ariths)

lemma drop_step: "r < length xs \<Longrightarrow> drop r xs = xs ! r # drop (Suc r) xs"
  by (simp add: Cons_nth_drop_Suc)

lemma table_cell_ok:
  assumes ok: "table_ok pm nm row (Suc col) table" and "row < length pm" and "col < length nm"
    and small: "length pm < 2 ^ 32"
  shows "unat (table_cell pm nm table row col) = lcs_len (drop row pm) (drop col nm)"
proof -
  have d: "drop row pm = pm ! row # drop (Suc row) pm" "drop col nm = nm ! col # drop (Suc col) nm"
    using assms(2,3) by (simp_all add: drop_step)
  have diag: "unat (table ! table_index nm (Suc row) (Suc col)) = lcs_len (drop (Suc row) pm) (drop (Suc col) nm)"
    and down: "unat (table ! table_index nm (Suc row) col) = lcs_len (drop (Suc row) pm) (drop col nm)"
    and right: "unat (table ! table_index nm row (Suc col)) = lcs_len (drop row pm) (drop (Suc col) nm)"
    using assms(2,3) by (auto intro!: table_okD [OF ok])
  have "lcs_len (drop (Suc row) pm) (drop (Suc col) nm) \<le> length (drop (Suc row) pm)"
    by (rule lcs_len_le)
  then have "unat (table ! table_index nm (Suc row) (Suc col)) + 1 < 2 ^ 32"
    using diag small assms(2) by simp
  then show ?thesis
    using diag down right by (simp add: table_cell_def d unat_max unat_Suc_32)
qed

lemma table_ok_update:
  assumes ok: "table_ok pm nm row (Suc col) table" and "row < length pm" and "col < length nm"
    and small: "length pm < 2 ^ 32"
  shows "table_ok pm nm row col (table[table_index nm row col := table_cell pm nm table row col])"
  unfolding table_ok_def
proof (intro conjI allI impI)
  show "length (table[table_index nm row col := table_cell pm nm table row col]) = (length pm + 1) * (length nm + 1)"
    using ok by (simp add: table_ok_def)
next
  fix r c assume r: "r \<le> length pm" and c: "c \<le> length nm"
    and region: "row < r \<or> r = row \<and> col \<le> c \<or> c = length nm \<or> r = length pm"
  have bound: "table_index nm row col < length table"
    using table_index_bound [of row pm col nm] assms(2,3) ok by (simp add: table_ok_def)
  show "unat (table[table_index nm row col := table_cell pm nm table row col] ! table_index nm r c) =
      lcs_len (drop r pm) (drop c nm)"
  proof (cases "r = row \<and> c = col")
    case True
    then show ?thesis
      using bound table_cell_ok [OF ok assms(2,3) small] by simp
  next
    case False
    then have "table_index nm row col \<noteq> table_index nm r c"
      using table_index_inj [of col nm c row r] c assms(3) by auto
    moreover have "row < r \<or> r = row \<and> Suc col \<le> c \<or> c = length nm \<or> r = length pm"
      using region False by auto
    ultimately show ?thesis
      using table_okD [OF ok r c] by simp
  qed
qed

lemma fill_row_ok:
  assumes "table_ok pm nm row col table" and "row < length pm" and "col \<le> length nm" and "length pm < 2 ^ 32"
  shows "table_ok pm nm row 0 (fill_row pm nm row col table)"
  using assms
proof (induction pm nm row col table rule: fill_row.induct)
  case (2 pm nm row col table)
  then show ?case using table_ok_update [of pm nm row col table] by simp
qed simp

lemma table_ok_previous_row:
  "table_ok pm nm (Suc row) 0 table \<Longrightarrow> table_ok pm nm row (length nm) table"
  unfolding table_ok_def by (metis Suc_leI le_antisym le_neq_implies_less zero_le)

lemma fill_rows_ok:
  assumes "table_ok pm nm row 0 table" and "row \<le> length pm" and "length pm < 2 ^ 32"
  shows "table_ok pm nm 0 0 (fill_rows pm nm row table)"
  using assms
proof (induction pm nm row table rule: fill_rows.induct)
  case (2 pm nm row table)
  then have "table_ok pm nm row (length nm) table" by (intro table_ok_previous_row)
  then have "table_ok pm nm row 0 (fill_row pm nm row (length nm) table)"
    using 2(3,4) by (intro fill_row_ok) auto
  with 2 show ?case by simp
qed simp

lemma lcs_table_correct:
  assumes "length pm < 2 ^ 32" and "r \<le> length pm" and "c \<le> length nm"
  shows "unat (lcs_table pm nm ! table_index nm r c) = lcs_len (drop r pm) (drop c nm)"
proof -
  let ?zero = "replicate ((length pm + 1) * (length nm + 1)) (0 :: 32 word)"
  have "table_ok pm nm (length pm) 0 ?zero"
    unfolding table_ok_def
  proof (intro conjI allI impI)
    fix r c assume "r \<le> length pm" "c \<le> length nm"
      and edge: "length pm < r \<or> r = length pm \<and> 0 \<le> c \<or> c = length nm \<or> r = length pm"
    then have "?zero ! table_index nm r c = 0"
      using table_index_bound [of r pm c nm] by (simp del: mult_Suc mult_Suc_right)
    moreover have "lcs_len (drop r pm) (drop c nm) = 0"
      using edge \<open>r \<le> length pm\<close> by auto
    ultimately show "unat (?zero ! table_index nm r c) = lcs_len (drop r pm) (drop c nm)"
      by simp
  qed simp
  then have "table_ok pm nm 0 0 (lcs_table pm nm)"
    unfolding lcs_table_def using assms(1) by (intro fill_rows_ok) auto
  then show ?thesis using assms(2,3) by (rule table_okD) auto
qed

section \<open>The walk removes and adds as little as possible\<close>

lemma units_simps [simp]:
  "removed_units [] = 0" "added_units [] = 0"
  "removed_units (a @ b) = removed_units a + removed_units b"
  "added_units (a @ b) = added_units a + added_units b"
  by (simp_all add: removed_units_def added_units_def)

lemma hunk_ops_units:
  "plain_text a \<Longrightarrow> removed_units (hunk_ops p d a) = length d \<and> added_units (hunk_ops p d a) = length a"
  by (auto simp: hunk_ops_def removed_units_def added_units_def delete_op_def insert_op_def
      decode_encode_text_id plain_text_survives)

lemma prefers_delete_lcs:
  assumes "length pm < 2 ^ 32" and "hunk_continues pm nm pc nc" and "pc \<le> length pm" and "nc \<le> length nm"
  shows "lcs_len (drop pc pm) (drop nc nm) =
     (if prefers_delete pm nm (lcs_table pm nm) pc nc
      then lcs_len (drop (Suc pc) pm) (drop nc nm) else lcs_len (drop pc pm) (drop (Suc nc) nm))"
proof -
  have cell: "uint (lcs_table pm nm ! table_index nm r c) = int (lcs_len (drop r pm) (drop c nm))"
    if "r \<le> length pm" "c \<le> length nm" for r c
    using lcs_table_correct [OF assms(1) that] by (simp add: uint_nat)
  consider "pc = length pm" "nc < length nm" | "pc < length pm" "nc = length nm"
    | "pc < length pm" "nc < length nm" "pm ! pc \<noteq> nm ! nc"
    using assms(2-4) unfolding hunk_continues_def cursors_match_def by linarith
  then show ?thesis
  proof cases
    case 1
    then show ?thesis by (simp add: prefers_delete_def cell)
  next
    case 2
    then show ?thesis by (simp add: prefers_delete_def)
  next
    case 3
    then show ?thesis
      by (auto simp: prefers_delete_def cell drop_step max_def)
  qed
qed

lemma hunk_loop_lcs:
  assumes "hunk_loop pm nm (lcs_table pm nm) pc nc deleted inserted = (pc', nc', deleted', inserted')"
    and "pc \<le> length pm" and "nc \<le> length nm" and "length pm < 2 ^ 32"
  shows "lcs_len (drop pc pm) (drop nc nm) = lcs_len (drop pc' pm) (drop nc' nm)"
  using assms(1-3)
proof (induction pc nc deleted inserted rule: hunk_loop_induct [where pm = pm and nm = nm and table = "lcs_table pm nm"])
  case (stop pc nc deleted inserted)
  then show ?case by (simp add: hunk_loop_steps)
next
  case (delete pc nc deleted inserted)
  have "pc < length pm" using hunk_loop_steps(2) [OF delete(1,2)] by blast
  with delete show ?case
    by (simp add: prefers_delete_lcs [OF assms(4) delete(1) delete.prems(2,3)] hunk_loop_steps)
next
  case (insert pc nc deleted inserted)
  have "nc < length nm" using hunk_loop_steps(3) [OF insert(1,2)] by blast
  with insert show ?case
    by (simp add: prefers_delete_lcs [OF assms(4) insert(1) insert.prems(2,3)] hunk_loop_steps)
qed

lemma lcs_walk_units:
  assumes "length pm < 2 ^ 32" and "plain_text nm" and "pc \<le> length pm" and "nc \<le> length nm"
  shows "removed_units (lcs_walk pm nm (lcs_table pm nm) pc nc pos) + lcs_len (drop pc pm) (drop nc nm)
       = length pm - pc \<and>
     added_units (lcs_walk pm nm (lcs_table pm nm) pc nc pos) + lcs_len (drop pc pm) (drop nc nm)
       = length nm - nc"
  using assms(3,4)
proof (induction arbitrary: pos rule: lcs_walk_induct [where table = "lcs_table pm nm"])
  case stop
  show ?case by (simp add: lcs_walk_steps)
next
  case (match pc nc)
  then have "pc < length pm" "nc < length nm" "pm ! pc = nm ! nc"
    by (auto simp: cursors_match_def)
  with match.IH [of "Suc pos"] show ?case
    by (auto simp: lcs_walk_steps(2) [OF match.hyps] drop_step)
next
  case (hunk pc nc pc' nc' deleted inserted)
  have h: "pc \<le> pc'" "nc \<le> nc'" "pc' \<le> length pm" "nc' \<le> length nm"
    "deleted = take (pc' - pc) (drop pc pm)" "inserted = take (nc' - nc) (drop nc nm)"
    using hunk_loop_shape [OF hunk.hyps(4,1,2)] by auto
  have "plain_text inserted"
    unfolding h(6) using assms(2) by (rule plain_text_subset) (auto dest: in_set_takeD in_set_dropD)
  note units = hunk_ops_units [OF this, of pos deleted]
  have len: "length deleted = pc' - pc" "length inserted = nc' - nc"
    using h by auto
  have same: "lcs_len (drop pc pm) (drop nc nm) = lcs_len (drop pc' pm) (drop nc' nm)"
    using hunk_loop_lcs [OF hunk.hyps(4,1,2) assms(1)] .
  show ?case
    unfolding lcs_walk_steps(3) [OF hunk.hyps(3,4)] units_simps same
    using hunk.IH [of "pos + length inserted"] units len h(1-4) by linarith
qed

text \<open>
  The bounds of the theorem below: the budget of the differ is not exceeded (otherwise it falls
  back to one hunk), and the new text is plain, so its payloads decode to themselves.
\<close>

definition within_budget :: "jstring \<Rightarrow> jstring \<Rightarrow> int option \<Rightarrow> bool" where
  "within_budget p n m \<longleftrightarrow>
     (let b = commonBounds p n
      in int (length (previousMiddle b) * length (nextMiddle b))
           \<le> (case m of None \<Rightarrow> DEFAULT_MAX_DP_CELLS | Some k \<Rightarrow> k))"

lemma lcsDp_counts:
  assumes "length p < 2 ^ 32" and "plain_text n" and budget: "within_budget p n m"
  shows "removed_units (lcsDp_compute p n m) + lcs_len p n = length p \<and>
     added_units (lcsDp_compute p n m) + lcs_len p n = length n"
proof (cases "p = n")
  case True
  have "lcs_len n n = length n" using lcs_len_prefix [of n "[]" "[]"] by simp
  with True show ?thesis by simp
next
  case False
  let ?b = "commonBounds p n"
  let ?pm = "previousMiddle ?b" and ?nm = "nextMiddle ?b"
  obtain x y where p: "p = x @ ?pm @ y" and n: "n = x @ ?nm @ y" and l: "length x = prefixLength ?b"
    using commonBounds_split .
  have plain: "plain_text ?nm" using assms(2) by (rule commonBounds_plain)
  have lcs: "lcs_len p n = length x + lcs_len ?pm ?nm + length y"
    by (subst p, subst n) (simp add: lcs_len_prefix lcs_len_suffix)
  have lens: "length p = length x + length ?pm + length y" "length n = length x + length ?nm + length y"
    by (subst p, simp) (subst n, simp)
  have "removed_units (lcsDp_compute p n m) + lcs_len ?pm ?nm = length ?pm \<and>
      added_units (lcsDp_compute p n m) + lcs_len ?pm ?nm = length ?nm"
  proof (cases "?pm = [] \<or> ?nm = []")
    case True
    then have "lcsDp_compute p n m = hunk_ops (prefixLength ?b) ?pm ?nm"
      using False by (auto simp: lcsDp_compute_def prefixSuffix_commonBounds Let_def)
    with True hunk_ops_units [OF plain] show ?thesis by auto
  next
    case middles: False
    have "lcsDp_compute p n m = lcs_walk ?pm ?nm (lcs_table ?pm ?nm) 0 0 (prefixLength ?b)"
      using False middles budget by (simp add: lcsDp_compute_def within_budget_def Let_def)
    moreover have "length ?pm < 2 ^ 32" using assms(1) lens by simp
    ultimately show ?thesis
      using lcs_walk_units [of ?pm ?nm 0 0 "prefixLength ?b"] plain by simp
  qed
  with lcs lens show ?thesis by linarith
qed



end
