(* ===== verification/Js_Json.thy ===== *)
theory Js_Json
  imports Complex_Main Js_Text "HOL-Library.List_Lexorder" "HOL-Library.Multiset"
begin

text \<open>
  JSON values and their two serialisations: \<^verbatim>\<open>JSON.stringify\<close> and the canonical form of
  \<^verbatim>\<open>shared/drop/types.ts\<close> (\<open>serializeCanonicalJson\<close>), from which event identities, initialization
  intents and map keys are built.

  A number is a rational (every finite double is one). How the platform prints a number that is
  not a small integer is a parameter, a function \<open>num\<close> whose laws are the locale
  \<open>number_printer\<close>: distinct numbers print differently, in the alphabet of JSON numbers.
  \<open>number_printer.stringify_inj\<close> shows that the text determines the value, and \<open>json_pair_inj\<close> that
  the two-string keys the stores use never collide.
\<close>

section \<open>Values\<close>

datatype json =
    JNull
  | JBool bool
  | JNum rat
  | JStr jstring
  | JArr "json list"
  | JObj "(jstring \<times> json) list"

section \<open>Decimal integers\<close>

fun digits_nat :: "nat \<Rightarrow> jstring" where
  "digits_nat n = (if n < 10 then [word_of_nat (48 + n)] else digits_nat (n div 10) @ [word_of_nat (48 + n mod 10)])"

declare digits_nat.simps [simp del]

definition digits_int :: "int \<Rightarrow> jstring" where
  "digits_int n = (if n < 0 then 45 # digits_nat (nat (- n)) else digits_nat (nat n))"

fun parse_digits :: "nat \<Rightarrow> jstring \<Rightarrow> nat" where
  "parse_digits acc [] = acc"
| "parse_digits acc (u # us) = parse_digits (acc * 10 + (unat u - 48)) us"

section \<open>Strings\<close>

definition hex_digit :: "nat \<Rightarrow> code_unit" where
  "hex_digit n = (if n < 10 then word_of_nat (48 + n) else word_of_nat (87 + n))"

definition hex4 :: "code_unit \<Rightarrow> jstring" where
  "hex4 u = [hex_digit (unat u div 4096), hex_digit (unat u div 256 mod 16),
             hex_digit (unat u div 16 mod 16), hex_digit (unat u mod 16)]"

definition quote_unit :: "code_unit \<Rightarrow> jstring" where
  "quote_unit u =
     (if u = 8 then [92, 98] else if u = 9 then [92, 116] else if u = 10 then [92, 110]
      else if u = 12 then [92, 102] else if u = 13 then [92, 114]
      else if u = 34 then [92, 34] else if u = 92 then [92, 92]
      else if u < 32 \<or> is_surrogate u then [92, 117] @ hex4 u
      else [u])"

text \<open>A surrogate pair is copied; a lone surrogate is escaped.\<close>

fun quote_body :: "jstring \<Rightarrow> jstring" where
  "quote_body [] = []"
| "quote_body [u] = quote_unit u"
| "quote_body (u # v # us) =
     (if is_high_surrogate u \<and> is_low_surrogate v then u # v # quote_body us
      else quote_unit u @ quote_body (v # us))"

definition quote_json :: "jstring \<Rightarrow> jstring" where
  "quote_json s = 34 # quote_body s @ [34]"

text \<open>Reading a string literal up to its closing quote.\<close>

definition hex_value :: "code_unit \<Rightarrow> nat" where
  "hex_value u = (if unat u < 58 then unat u - 48 else unat u - 87)"

fun unquote :: "jstring \<Rightarrow> (jstring \<times> jstring) option" where
  "unquote [] = None"
| "unquote (c # r) =
     (if c = 34 then Some ([], r)
      else if c = 92 then
        (case r of
           [] \<Rightarrow> None
         | e # r1 \<Rightarrow>
             if e = 117 then
               (case r1 of
                  a # b # d # f # r2 \<Rightarrow>
                    map_option (\<lambda>(s, t). (word_of_nat (((hex_value a * 16 + hex_value b) * 16
                       + hex_value d) * 16 + hex_value f) # s, t)) (unquote r2)
                | _ \<Rightarrow> None)
             else map_option (\<lambda>(s, t). ((if e = 98 then 8 else if e = 116 then 9 else if e = 110 then 10
                    else if e = 102 then 12 else if e = 114 then 13 else e) # s, t)) (unquote r1))
      else map_option (\<lambda>(s, t). (c # s, t)) (unquote r))"

section \<open>Serialisation\<close>

fun join_comma :: "jstring list \<Rightarrow> jstring" where
  "join_comma [] = []"
| "join_comma [s] = s"
| "join_comma (s # t # ts) = s @ 44 # join_comma (t # ts)"

text \<open>\<^verbatim>\<open>JSON.stringify\<close>, \<open>num\<close> printing the numbers.\<close>

fun stringify :: "(rat \<Rightarrow> jstring) \<Rightarrow> json \<Rightarrow> jstring" where
  "stringify num JNull = js ''null''"
| "stringify num (JBool b) = (if b then js ''true'' else js ''false'')"
| "stringify num (JNum r) = num r"
| "stringify num (JStr s) = quote_json s"
| "stringify num (JArr vs) = 91 # join_comma (map (stringify num) vs) @ [93]"
| "stringify num (JObj kvs) =
     123 # join_comma (map (\<lambda>(k, v). quote_json k @ 58 # stringify num v) kvs) @ [125]"

text \<open>
  A plain object lists its array-index keys first, in ascending order, whatever the insertion
  order; assigning the key \<^verbatim>\<open>__proto__\<close> sets the prototype and creates no property.
\<close>

definition is_array_index :: "jstring \<Rightarrow> bool" where
  "is_array_index k \<longleftrightarrow>
     k \<noteq> [] \<and> list_all (\<lambda>u. 48 \<le> u \<and> u \<le> 57) k \<and>
     digits_nat (parse_digits 0 k) = k \<and> parse_digits 0 k < 2 ^ 32 - 1"

definition property_order :: "(jstring \<times> 'v) list \<Rightarrow> (jstring \<times> 'v) list" where
  "property_order kvs =
     sort_key (\<lambda>(k, v). parse_digits 0 k) (filter (\<lambda>(k, v). is_array_index k) kvs) @
     filter (\<lambda>(k, v). \<not> is_array_index k) kvs"

definition object_of_entries :: "(jstring \<times> json) list \<Rightarrow> (jstring \<times> json) list" where
  "object_of_entries kvs = property_order (filter (\<lambda>(k, v). k \<noteq> js ''__proto__'') kvs)"

fun normalizeForCanonicalJson :: "json \<Rightarrow> json" where
  "normalizeForCanonicalJson (JArr vs) = JArr (map normalizeForCanonicalJson vs)"
| "normalizeForCanonicalJson (JObj kvs) =
     JObj (object_of_entries (sort_key fst (map (\<lambda>(k, v). (k, normalizeForCanonicalJson v)) kvs)))"
| "normalizeForCanonicalJson v = v"

definition serializeCanonicalJson :: "(rat \<Rightarrow> jstring) \<Rightarrow> json \<Rightarrow> jstring" where
  "serializeCanonicalJson num v = stringify num (normalizeForCanonicalJson v)"

text \<open>The characters a number is printed with; none of them opens or delimits another value.\<close>

definition is_number_char :: "code_unit \<Rightarrow> bool" where
  "is_number_char u \<longleftrightarrow> (48 \<le> u \<and> u \<le> 57) \<or> u = 43 \<or> u = 45 \<or> u = 46 \<or> u = 101"

locale number_printer =
  fixes num :: "rat \<Rightarrow> jstring"
  assumes num_inj: "num a = num b \<Longrightarrow> a = b"
    and num_chars: "list_all is_number_char (num a)"
    and num_nonempty: "num a \<noteq> []"
    and num_int: "num (of_int n) = digits_int n"

section \<open>Lemmas on strings\<close>

lemma hex_value_digit: "n < 16 \<Longrightarrow> hex_value (hex_digit n) = n"
  by (auto simp: hex_value_def hex_digit_def unat_word_of_nat_16 simp del: of_nat_add)

lemma hex4_value:
  "word_of_nat (((unat u div 4096 * 16 + unat u div 256 mod 16) * 16 + unat u div 16 mod 16) * 16
     + unat u mod 16) = (u :: code_unit)"
proof -
  define n where "n = unat u"
  have "n div 4096 = n div 16 div 16 div 16" and "n div 256 = n div 16 div 16"
    by (simp_all flip: div_mult2_eq)
  then have "((n div 4096 * 16 + n div 256 mod 16) * 16 + n div 16 mod 16) * 16 + n mod 16 = n"
    by (simp only: div_mult_mod_eq)
  then show ?thesis by (simp add: n_def)
qed

lemma unquote_end: "unquote (34 # r) = Some ([], r)"
  by (subst unquote.simps(2)) simp

lemma unquote_plain:
  "c \<noteq> 34 \<Longrightarrow> c \<noteq> 92 \<Longrightarrow> unquote (c # r) = map_option (\<lambda>(s, t). (c # s, t)) (unquote r)"
  by (subst unquote.simps(2)) simp

lemma unquote_escape:
  "e \<noteq> 117 \<Longrightarrow> unquote (92 # e # r) =
     map_option (\<lambda>(s, t). ((if e = 98 then 8 else if e = 116 then 9 else if e = 110 then 10
       else if e = 102 then 12 else if e = 114 then 13 else e) # s, t)) (unquote r)"
  by (subst unquote.simps(2)) simp

lemma unquote_unicode:
  "unquote (92 # 117 # a # b # d # f # r) =
     map_option (\<lambda>(s, t). (word_of_nat (((hex_value a * 16 + hex_value b) * 16
       + hex_value d) * 16 + hex_value f) # s, t)) (unquote r)"
  by (subst unquote.simps(2)) simp

declare unquote.simps [simp del]

lemma unquote_hex4: "unquote (92 # 117 # hex4 u @ r) = map_option (\<lambda>(s, t). (u # s, t)) (unquote r)"
proof -
  have "unat u div 4096 < 16" using unat_code_unit_less [of u] by linarith
  then have "word_of_nat (((hex_value (hex_digit (unat u div 4096)) * 16
       + hex_value (hex_digit (unat u div 256 mod 16))) * 16
       + hex_value (hex_digit (unat u div 16 mod 16))) * 16 + hex_value (hex_digit (unat u mod 16))) = u"
    using hex4_value [of u] by (simp add: hex_value_digit del: of_nat_add of_nat_mult)
  then show ?thesis
    unfolding hex4_def append.simps unquote_unicode by (simp only:)
qed

lemma unquote_unit:
  "unquote (quote_unit u @ r) = map_option (\<lambda>(s, t). (u # s, t)) (unquote r)"
proof -
  consider "u \<in> {8, 9, 10, 12, 13, 34, 92}"
    | "u \<notin> {8, 9, 10, 12, 13, 34, 92}" "u < 32 \<or> is_surrogate u"
    | "u \<notin> {8, 9, 10, 12, 13, 34, 92}" "\<not> (u < 32 \<or> is_surrogate u)"
    by blast
  then show ?thesis
  proof cases
    case 1
    then show ?thesis by (auto simp: quote_unit_def unquote_escape)
  next
    case 2
    then have "quote_unit u = 92 # 117 # hex4 u" by (simp add: quote_unit_def)
    then show ?thesis by (simp add: unquote_hex4)
  next
    case 3
    then have "quote_unit u = [u]" "u \<noteq> 34" "u \<noteq> 92" by (simp_all add: quote_unit_def)
    then show ?thesis by (simp add: unquote_plain)
  qed
qed

lemma unquote_quote: "unquote (quote_body s @ 34 # r) = Some (s, r)"
proof (induction s rule: quote_body.induct)
  case 1
  show ?case by (simp add: unquote_end)
next
  case (2 u)
  show ?case by (simp add: unquote_unit unquote_end)
next
  case (3 u v us)
  show ?case
  proof (cases "is_high_surrogate u \<and> is_low_surrogate v")
    case True
    then have "u \<noteq> 34" "u \<noteq> 92" "v \<noteq> 34" "v \<noteq> 92"
      by (auto simp: is_high_surrogate_def is_low_surrogate_def)
    with 3(1) [OF True] True show ?thesis by (simp add: unquote_plain)
  next
    case False
    then have "quote_body (u # v # us) = quote_unit u @ quote_body (v # us)" by auto
    then show ?thesis using 3(2) [OF False] by (simp add: unquote_unit del: quote_body.simps)
  qed
qed

lemma quote_json_prefix: "quote_json s @ r = quote_json t @ r' \<Longrightarrow> s = t \<and> r = r'"
proof -
  assume "quote_json s @ r = quote_json t @ r'"
  then have "unquote (quote_body s @ 34 # r) = unquote (quote_body t @ 34 # r')"
    by (simp add: quote_json_def)
  then show ?thesis by (simp add: unquote_quote)
qed

lemma quote_json_inj [simp]: "quote_json s = quote_json t \<longleftrightarrow> s = t"
  using quote_json_prefix [of s "[]" t "[]"] by auto

section \<open>Lemmas on decimals\<close>

lemma digits_nat_nonempty [simp]: "digits_nat n \<noteq> []"
  by (subst digits_nat.simps) simp

lemma parse_digits_append: "parse_digits acc (xs @ ys) = parse_digits (parse_digits acc xs) ys"
  by (induction acc xs rule: parse_digits.induct) simp_all

lemma parse_digits_nat [simp]: "parse_digits 0 (digits_nat n) = n"
proof (induction n rule: digits_nat.induct)
  case (1 n)
  show ?case
  proof (cases "n < 10")
    case True
    then show ?thesis
      by (subst digits_nat.simps) (simp add: unat_word_of_nat_16 del: of_nat_add)
  next
    case False
    with 1 have "parse_digits 0 (digits_nat (n div 10)) = n div 10" by simp
    with False show ?thesis
      by (subst digits_nat.simps)
        (simp add: parse_digits_append unat_word_of_nat_16 del: of_nat_add)
  qed
qed

lemma digits_nat_inj [simp]: "digits_nat m = digits_nat n \<longleftrightarrow> m = n"
  by (metis parse_digits_nat)

definition is_digit :: "code_unit \<Rightarrow> bool" where
  "is_digit u \<longleftrightarrow> 48 \<le> unat u \<and> unat u \<le> 57"

lemma digits_nat_digits: "list_all is_digit (digits_nat n)"
proof (induction n rule: digits_nat.induct)
  case (1 n)
  have "is_digit (word_of_nat (48 + m mod 10))" for m
    by (simp add: is_digit_def unat_word_of_nat_16 del: of_nat_add)
  from this [of n] 1 show ?case
    by (cases "n < 10"; subst digits_nat.simps) simp_all
qed

lemma is_digit_simps [simp]: "\<not> is_digit 45" "\<not> is_digit 101" "is_digit u \<Longrightarrow> is_number_char u"
  by (auto simp: is_digit_def is_number_char_def word_le_nat_alt)

lemma digits_int_inj [simp]: "digits_int m = digits_int n \<longleftrightarrow> m = n"
proof -
  have "digits_nat k \<noteq> 45 # xs" for k xs
    using digits_nat_digits [of k] by (cases "digits_nat k") auto
  then show ?thesis
    by (auto simp: digits_int_def dest: sym)
qed

lemma digits_int_chars: "list_all (\<lambda>u. is_number_char u \<and> u \<noteq> 101) (digits_int n)"
proof -
  have "list_all (\<lambda>u. is_number_char u \<and> u \<noteq> 101) (digits_nat k)" for k
    using digits_nat_digits [of k] by (auto simp: list_all_iff)
  then show ?thesis by (auto simp: digits_int_def is_number_char_def)
qed

lemma digits_int_nonempty [simp]: "digits_int n \<noteq> []"
  by (simp add: digits_int_def)

text \<open>A printer that satisfies the laws: integers in decimal, other rationals as two of them.\<close>

definition print_number :: "rat \<Rightarrow> jstring" where
  "print_number r = (let (n, d) = quotient_of r in
     if d = 1 then digits_int n else digits_int n @ 101 # digits_int d)"

lemma split_at_unique:
  assumes "xs @ c # ys = xs' @ c # ys'" "c \<notin> set xs" "c \<notin> set xs'"
  shows "xs = xs' \<and> ys = ys'"
proof -
  have "takeWhile (\<lambda>u. u \<noteq> c) (xs @ c # ys) = xs" "takeWhile (\<lambda>u. u \<noteq> c) (xs' @ c # ys') = xs'"
    using assms(2,3) by (auto simp: takeWhile_tail)
  with assms(1) have "xs = xs'" by metis
  with assms(1) show ?thesis by simp
qed

interpretation plain_printer: number_printer print_number
proof unfold_locales
  fix a b
  obtain n d m e where q: "quotient_of a = (n, d)" "quotient_of b = (m, e)" by fastforce
  have e: "101 \<notin> set (digits_int k)" for k
    using digits_int_chars [of k] by (auto simp: list_all_iff)
  assume "print_number a = print_number b"
  then have "(n, d) = (m, e)"
    using e split_at_unique [of "digits_int n" 101 "digits_int d" "digits_int m" "digits_int e"]
    by (auto simp: print_number_def q split: if_splits)
       (metis in_set_conv_decomp)+
  with q show "a = b" by (metis quotient_of_inject)
next
  fix a show "list_all is_number_char (print_number a)"
    using digits_int_chars
    by (auto simp: print_number_def list_all_iff is_number_char_def split: prod.splits)
next
  fix a show "print_number a \<noteq> []"
    by (auto simp: print_number_def split: prod.splits)
next
  fix n show "print_number (of_int n) = digits_int n"
    by (simp add: print_number_def)
qed

section \<open>The text determines the value\<close>

definition delimited :: "jstring \<Rightarrow> bool" where
  "delimited r \<longleftrightarrow> r = [] \<or> \<not> is_number_char (hd r)"

text \<open>A printer is self-delimiting at a value when what follows the printed value is recovered.\<close>

definition self_delimiting :: "('a \<Rightarrow> jstring) \<Rightarrow> 'a \<Rightarrow> bool" where
  "self_delimiting f x \<longleftrightarrow>
     (\<forall>y r r'. delimited r \<longrightarrow> delimited r' \<longrightarrow> f x @ r = f y @ r' \<longrightarrow> x = y \<and> r = r')"

lemma self_delimitingD:
  "self_delimiting f x \<Longrightarrow> f x @ r = f y @ r' \<Longrightarrow> delimited r \<Longrightarrow> delimited r' \<Longrightarrow> x = y \<and> r = r'"
  unfolding self_delimiting_def by blast

lemma join_comma_Cons: "join_comma (s # ts) = s @ concat (map (\<lambda>t. 44 # t) ts)"
  by (induction ts arbitrary: s) simp_all

lemma delimited_simps [simp]: "delimited []" "delimited (44 # r)" "delimited (58 # r)"
  "delimited (93 # r)" "delimited (125 # r)"
  by (simp_all add: delimited_def is_number_char_def)

lemma tails_self_delimiting:
  assumes "\<forall>x \<in> set xs. self_delimiting f x" "c \<noteq> 44" "delimited (c # r)" "delimited (c # r')"
    and "concat (map (\<lambda>x. 44 # f x) xs) @ c # r = concat (map (\<lambda>x. 44 # f x) ys) @ c # r'"
  shows "xs = ys \<and> r = r'"
  using assms
proof (induction xs arbitrary: ys)
  case Nil
  then show ?case by (cases ys) auto
next
  case (Cons x xs)
  from Cons.prems obtain y ys' where ys: "ys = y # ys'" by (cases ys) auto
  have del: "delimited (concat (map (\<lambda>x. 44 # f x) zs) @ c # t)" if "t = r \<or> t = r'" for zs t
    using Cons.prems(3,4) that by (cases zs) auto
  from Cons.prems(1,5) have "x = y \<and> concat (map (\<lambda>x. 44 # f x) xs) @ c # r
      = concat (map (\<lambda>x. 44 # f x) ys') @ c # r'"
    by (intro self_delimitingD [of f]) (auto simp: ys del)
  with Cons.IH [of ys'] Cons.prems show ?case by (simp add: ys)
qed

lemma joined_self_delimiting:
  assumes "\<forall>x \<in> set xs. self_delimiting f x" "\<And>x. f x \<noteq> [] \<and> hd (f x) \<noteq> c"
    and "c \<noteq> 44" "delimited (c # r)" "delimited (c # r')"
    and eq: "join_comma (map f xs) @ c # r = join_comma (map f ys) @ c # r'"
  shows "xs = ys \<and> r = r'"
proof -
  have ne: "f x @ t \<noteq> c # u" for x t u
    using assms(2) [of x] by (cases "f x") auto
  consider "xs = []" "ys = []" | x xs' y ys' where "xs = x # xs'" "ys = y # ys'"
    using eq ne ne [symmetric] by (cases xs; cases ys) (auto simp: join_comma_Cons)
  then show ?thesis
  proof cases
    case 1
    with eq show ?thesis by simp
  next
    case 2
    have "self_delimiting f x" using assms(1) 2 by simp
    moreover have "f x @ concat (map (\<lambda>x. 44 # f x) xs') @ c # r
        = f y @ concat (map (\<lambda>x. 44 # f x) ys') @ c # r'"
      using eq by (simp add: 2 join_comma_Cons comp_def)
    moreover have "delimited (concat (map (\<lambda>x. 44 # f x) zs) @ c # t)" if "t = r \<or> t = r'" for zs t
      using assms(4,5) that by (cases zs) auto
    ultimately have "x = y \<and> concat (map (\<lambda>x. 44 # f x) xs') @ c # r
        = concat (map (\<lambda>x. 44 # f x) ys') @ c # r'"
      by (intro self_delimitingD [of f]) auto
    with tails_self_delimiting [of xs' f c r r' ys'] assms 2 show ?thesis by simp
  qed
qed

lemma number_char_simps [simp]:
  "\<not> is_number_char 110" "\<not> is_number_char 116" "\<not> is_number_char 102" "\<not> is_number_char 34"
  "\<not> is_number_char 91" "\<not> is_number_char 123" "\<not> is_number_char 93" "\<not> is_number_char 125"
  by (simp_all add: is_number_char_def)

lemma js_literals:
  "js ''null'' = [110, 117, 108, 108]" "js ''true'' = [116, 114, 117, 101]"
  "js ''false'' = [102, 97, 108, 115, 101]"
  by (simp_all add: js_def)

text \<open>The first character of a value tells its kind.\<close>

fun kind :: "json \<Rightarrow> nat" where
  "kind JNull = 0"
| "kind (JBool b) = (if b then 1 else 2)"
| "kind (JNum r) = 3"
| "kind (JStr s) = 4"
| "kind (JArr vs) = 5"
| "kind (JObj kvs) = 6"

definition kind_of_char :: "code_unit \<Rightarrow> nat" where
  "kind_of_char c = (if c = 110 then 0 else if c = 116 then 1 else if c = 102 then 2
     else if is_number_char c then 3 else if c = 34 then 4 else if c = 91 then 5 else 6)"

context number_printer
begin

lemma num_head: "\<exists>c cs. num a = c # cs \<and> is_number_char c"
  using num_nonempty [of a] num_chars [of a] by (cases "num a") auto

lemma num_split:
  assumes "num a @ r = num b @ r'" "delimited r" "delimited r'"
  shows "a = b \<and> r = r'"
proof -
  have tw: "takeWhile is_number_char (num x @ t) = num x" if "delimited t" for x t
    using num_chars [of x] that
    by (cases t) (auto simp: delimited_def list_all_iff takeWhile_append)
  have "num a = num b" using assms tw by metis
  with assms(1) num_inj show ?thesis by auto
qed

lemma stringify_head: "\<exists>c cs. stringify num v = c # cs \<and> kind_of_char c = kind v \<and> c \<noteq> 93 \<and> c \<noteq> 125"
proof (cases v)
  case (JNum r)
  obtain c cs where c: "num r = c # cs" "is_number_char c" using num_head by blast
  have "kind_of_char c = 3 \<and> c \<noteq> 93 \<and> c \<noteq> 125"
    using c(2) by (auto simp: kind_of_char_def)
  with c(1) JNum show ?thesis by simp
qed (auto simp: js_literals kind_of_char_def quote_json_def)

lemma stringify_kind:
  assumes "stringify num a @ r = stringify num b @ r'"
  shows "kind a = kind b"
  using stringify_head [of a] stringify_head [of b] assms by auto

abbreviation print_entry :: "jstring \<times> json \<Rightarrow> jstring" where
  "print_entry \<equiv> \<lambda>(k, v). quote_json k @ 58 # stringify num v"

lemma self_delimiting_entry:
  assumes "self_delimiting (stringify num) (snd e)"
  shows "self_delimiting print_entry e"
  unfolding self_delimiting_def
proof (intro allI impI)
  fix e' r r'
  assume d: "delimited r" "delimited r'" and eq: "print_entry e @ r = print_entry e' @ r'"
  obtain k v k' v' where e: "e = (k, v)" "e' = (k', v')" by fastforce
  from eq quote_json_prefix [of k "58 # stringify num v @ r" k' "58 # stringify num v' @ r'"]
  have "k = k' \<and> stringify num v @ r = stringify num v' @ r'" by (simp add: e)
  with self_delimitingD [of "stringify num" v r v' r'] assms d show "e = e' \<and> r = r'"
    by (simp add: e)
qed

lemma stringify_self_delimiting: "self_delimiting (stringify num) a"
proof (induction a)
  case (JArr vs)
  show ?case unfolding self_delimiting_def
  proof (intro allI impI)
    fix b r r' assume d: "delimited r" "delimited r'" and eq: "stringify num (JArr vs) @ r = stringify num b @ r'"
    from stringify_kind [OF eq] obtain ws where b: "b = JArr ws"
      by (cases b) (auto split: if_splits)
    have "stringify num x \<noteq> [] \<and> hd (stringify num x) \<noteq> 93" for x
      using stringify_head [of x] by auto
    with joined_self_delimiting [of vs "stringify num" 93 r r' ws] JArr eq
    show "JArr vs = b \<and> r = r'" by (simp add: b)
  qed
next
  case (JObj kvs)
  show ?case unfolding self_delimiting_def
  proof (intro allI impI)
    fix b r r' assume d: "delimited r" "delimited r'" and eq: "stringify num (JObj kvs) @ r = stringify num b @ r'"
    from stringify_kind [OF eq] obtain ws where b: "b = JObj ws"
      by (cases b) (auto split: if_splits)
    have "\<forall>e \<in> set kvs. self_delimiting print_entry e"
      using JObj by (auto intro!: self_delimiting_entry intro: snds.intros)
    moreover have "print_entry x \<noteq> [] \<and> hd (print_entry x) \<noteq> 125" for x
      by (cases x) (simp add: quote_json_def)
    ultimately show "JObj kvs = b \<and> r = r'"
      using joined_self_delimiting [of kvs print_entry 125 r r' ws] eq by (simp add: b)
  qed
next
  case (JNum n)
  show ?case unfolding self_delimiting_def
  proof (intro allI impI)
    fix b r r' assume d: "delimited r" "delimited r'" and eq: "stringify num (JNum n) @ r = stringify num b @ r'"
    from stringify_kind [OF eq] obtain q where b: "b = JNum q"
      by (cases b) (auto split: if_splits)
    with num_split [of n r q r'] d eq show "JNum n = b \<and> r = r'" by simp
  qed
next
  case (JStr s)
  show ?case unfolding self_delimiting_def
  proof (intro allI impI)
    fix b r r' assume d: "delimited r" "delimited r'" and eq: "stringify num (JStr s) @ r = stringify num b @ r'"
    from stringify_kind [OF eq] obtain t where b: "b = JStr t"
      by (cases b) (auto split: if_splits)
    with quote_json_prefix [of s r t r'] eq show "JStr s = b \<and> r = r'" by simp
  qed
next
  case JNull
  show ?case unfolding self_delimiting_def
  proof (intro allI impI)
    fix b r r' assume d: "delimited r" "delimited r'" and eq: "stringify num JNull @ r = stringify num b @ r'"
    from stringify_kind [OF eq] have b: "b = JNull"
      by (cases b) (auto split: if_splits)
    with eq show "JNull = b \<and> r = r'" by simp
  qed
next
  case (JBool x)
  show ?case unfolding self_delimiting_def
  proof (intro allI impI)
    fix b r r' assume d: "delimited r" "delimited r'" and eq: "stringify num (JBool x) @ r = stringify num b @ r'"
    from stringify_kind [OF eq] have b: "b = JBool x"
      by (cases b) (auto split: if_splits)
    with eq show "JBool x = b \<and> r = r'" by simp
  qed
qed

lemma stringify_inj: "stringify num a = stringify num b \<longleftrightarrow> a = b"
  using self_delimitingD [OF stringify_self_delimiting, of a "[]" b "[]"] by auto

end

section \<open>Keys made of strings\<close>

text \<open>\<^verbatim>\<open>JSON.stringify\<close> of an array of strings, the key the stores look records up by.\<close>

definition json_key :: "jstring list \<Rightarrow> jstring" where
  "json_key ks = 91 # join_comma (map quote_json ks) @ [93]"

lemma stringify_strings: "stringify num (JArr (map JStr ks)) = json_key ks"
  by (simp add: json_key_def comp_def)

lemma json_key_inj [simp]: "json_key ks = json_key ls \<longleftrightarrow> ks = ls"
proof
  have "self_delimiting quote_json x" for x
    unfolding self_delimiting_def using quote_json_prefix by blast
  moreover have "quote_json x \<noteq> [] \<and> hd (quote_json x) \<noteq> 93" for x
    by (simp add: quote_json_def)
  moreover assume "json_key ks = json_key ls"
  ultimately show "ks = ls"
    using joined_self_delimiting [of ks quote_json 93 "[]" "[]" ls] by (simp add: json_key_def)
qed simp

section \<open>Canonical form\<close>

text \<open>
  Equality of JSON values as data: arrays in order, objects as finite maps. A value is \<open>clean\<close> when
  no object repeats a key (true of every JavaScript object) or has the key \<^verbatim>\<open>__proto__\<close>.
\<close>

inductive json_same :: "json \<Rightarrow> json \<Rightarrow> bool" where
  null: "json_same JNull JNull"
| bool: "json_same (JBool b) (JBool b)"
| num: "json_same (JNum r) (JNum r)"
| str: "json_same (JStr s) (JStr s)"
| arr: "list_all2 json_same vs ws \<Longrightarrow> json_same (JArr vs) (JArr ws)"
| obj: "dom (map_of kvs) = dom (map_of kws) \<Longrightarrow>
    (\<And>k v w. map_of kvs k = Some v \<Longrightarrow> map_of kws k = Some w \<Longrightarrow> json_same v w) \<Longrightarrow>
    json_same (JObj kvs) (JObj kws)"

fun clean_json :: "json \<Rightarrow> bool" where
  "clean_json (JArr vs) = (\<forall>v \<in> set vs. clean_json v)"
| "clean_json (JObj kvs) =
     (jsmap_wf kvs \<and> js ''__proto__'' \<notin> fst ` set kvs \<and> (\<forall>e \<in> set kvs. clean_json (snd e)))"
| "clean_json v = True"

abbreviation normal_entry :: "jstring \<times> json \<Rightarrow> jstring \<times> json" where
  "normal_entry \<equiv> \<lambda>(k, v). (k, normalizeForCanonicalJson v)"

lemma mset_property_order [simp]: "mset (property_order kvs) = mset kvs"
proof -
  have "filter (\<lambda>(k, v). \<not> is_array_index k) kvs = filter (\<lambda>p. \<not> (\<lambda>(k, v). is_array_index k) p) kvs"
    by (rule filter_cong) auto
  then show ?thesis by (simp add: property_order_def)
qed

lemma mset_object_of_entries:
  assumes "js ''__proto__'' \<notin> fst ` set kvs"
  shows "mset (object_of_entries kvs) = mset kvs"
proof -
  have "filter (\<lambda>(k, v). k \<noteq> js ''__proto__'') kvs = kvs"
    using assms by (force simp: filter_id_conv)
  then show ?thesis by (simp add: object_of_entries_def)
qed

lemma normal_object_eq_iff:
  assumes "js ''__proto__'' \<notin> fst ` set kvs" "js ''__proto__'' \<notin> fst ` set kws"
    and "jsmap_wf kvs"
  shows "object_of_entries (sort_key fst kvs) = object_of_entries (sort_key fst kws) \<longleftrightarrow>
    mset kvs = mset kws"
proof
  assume "object_of_entries (sort_key fst kvs) = object_of_entries (sort_key fst kws)"
  then have "mset (object_of_entries (sort_key fst kvs)) = mset (object_of_entries (sort_key fst kws))"
    by simp
  with assms show "mset kvs = mset kws" by (simp add: mset_object_of_entries)
next
  assume m: "mset kvs = mset kws"
  have "inj_on fst (set kvs)" using assms(3) by (simp add: jsmap_wf_def distinct_map)
  with m have "sort_key fst kvs = sort_key fst kws"
    by (intro sort_key_inj_key_eq) simp_all
  then show "object_of_entries (sort_key fst kvs) = object_of_entries (sort_key fst kws)" by simp
qed

lemma mset_eq_map_of_iff:
  assumes "jsmap_wf kvs" "jsmap_wf kws"
  shows "mset kvs = mset kws \<longleftrightarrow> map_of kvs = map_of kws"
proof -
  have d: "distinct kvs" "distinct kws" using assms by (simp_all add: jsmap_wf_def distinct_map)
  have "mset kvs = mset kws \<longleftrightarrow> set kvs = set kws" using d by (rule set_eq_iff_mset_eq_distinct [symmetric])
  also have "\<dots> \<longleftrightarrow> map_of kvs = map_of kws"
    using assms by (metis jsmap_wf_def map_of_inject_set)
  finally show ?thesis .
qed

lemma map_of_normal: "map_of (map normal_entry kvs) k = map_option normalizeForCanonicalJson (map_of kvs k)"
  by (simp add: map_of_map)

lemma normal_keys: "fst ` set (map normal_entry kvs) = fst ` set kvs"
  "jsmap_wf (map normal_entry kvs) = jsmap_wf kvs"
  by (force simp: jsmap_wf_def comp_def case_prod_beta)+

lemma normal_JObj_eq_iff:
  assumes "clean_json (JObj kvs)" "clean_json (JObj kws)"
  shows "normalizeForCanonicalJson (JObj kvs) = normalizeForCanonicalJson (JObj kws) \<longleftrightarrow>
    (\<forall>k. map_option normalizeForCanonicalJson (map_of kvs k)
       = map_option normalizeForCanonicalJson (map_of kws k))"
proof -
  have w: "jsmap_wf (map normal_entry kvs)" "jsmap_wf (map normal_entry kws)"
    and k: "js ''__proto__'' \<notin> fst ` set (map normal_entry kvs)"
      "js ''__proto__'' \<notin> fst ` set (map normal_entry kws)"
    using assms unfolding normal_keys by simp_all
  have "normalizeForCanonicalJson (JObj kvs) = normalizeForCanonicalJson (JObj kws) \<longleftrightarrow>
      mset (map normal_entry kvs) = mset (map normal_entry kws)"
    using normal_object_eq_iff [OF k w(1)] by simp
  also have "\<dots> \<longleftrightarrow> map_of (map normal_entry kvs) = map_of (map normal_entry kws)"
    using w by (rule mset_eq_map_of_iff)
  finally show ?thesis by (simp only: map_of_normal fun_eq_iff)
qed

lemma clean_entry: "clean_json (JObj kvs) \<Longrightarrow> map_of kvs k = Some v \<Longrightarrow> clean_json v"
  using map_of_SomeD by fastforce

lemma json_same_normal:
  "json_same a b \<Longrightarrow> clean_json a \<Longrightarrow> clean_json b \<Longrightarrow>
     normalizeForCanonicalJson a = normalizeForCanonicalJson b"
proof (induction rule: json_same.induct)
  case (arr vs ws)
  then have "list_all2 (\<lambda>v w. normalizeForCanonicalJson v = normalizeForCanonicalJson w) vs ws"
    by (auto simp: list_all2_conv_all_nth)
  then show ?case by (simp add: list_all2_conv_all_nth list_eq_iff_nth_eq)
next
  case (obj kvs kws)
  have "map_option normalizeForCanonicalJson (map_of kvs k)
       = map_option normalizeForCanonicalJson (map_of kws k)" for k
  proof (cases "map_of kvs k")
    case None
    with obj(1) show ?thesis by (metis domIff)
  next
    case (Some v)
    with obj(1) obtain w where w: "map_of kws k = Some w" by (metis domIff not_None_eq)
    with Some obj clean_entry have "normalizeForCanonicalJson v = normalizeForCanonicalJson w" by metis
    with Some w show ?thesis by simp
  qed
  with normal_JObj_eq_iff obj.prems show ?case by metis
qed simp_all

lemma normal_json_same:
  "clean_json a \<Longrightarrow> clean_json b \<Longrightarrow>
     normalizeForCanonicalJson a = normalizeForCanonicalJson b \<Longrightarrow> json_same a b"
proof (induction a arbitrary: b)
  case (JArr vs)
  from JArr.prems(3) obtain ws where b: "b = JArr ws" by (cases b) auto
  with JArr.prems have "list_all2 json_same vs ws"
    by (auto simp: list_all2_conv_all_nth list_eq_iff_nth_eq intro!: JArr.IH)
  then show ?case by (simp add: b json_same.arr)
next
  case (JObj kvs)
  from JObj.prems(3) obtain kws where b: "b = JObj kws" by (cases b) auto
  have eq: "map_option normalizeForCanonicalJson (map_of kvs k)
       = map_option normalizeForCanonicalJson (map_of kws k)" for k
    using JObj.prems normal_JObj_eq_iff unfolding b by blast
  have "dom (map_of kvs) = dom (map_of kws)"
    using eq by (metis (no_types, opaque_lifting) domIff map_option_is_None subset_antisym subsetI)
  moreover have "json_same v w" if v: "map_of kvs k = Some v" and w: "map_of kws k = Some w" for k v w
  proof (rule JObj.IH)
    from v show "(k, v) \<in> set kvs" by (rule map_of_SomeD)
    show "v \<in> Basic_BNFs.snds (k, v)" by simp
    show "clean_json v" "clean_json w" using v w JObj.prems b clean_entry by blast+
    show "normalizeForCanonicalJson v = normalizeForCanonicalJson w" using eq [of k] v w by simp
  qed
  ultimately show ?case unfolding b by (rule json_same.obj)
next
  case JNull
  then show ?case by (cases b) (auto intro: json_same.null)
next
  case (JBool x)
  then show ?case by (cases b) (auto intro: json_same.bool)
next
  case (JNum x)
  then show ?case by (cases b) (auto intro: json_same.num)
next
  case (JStr x)
  then show ?case by (cases b) (auto intro: json_same.str)
qed

context number_printer
begin

lemma canonical_iff:
  assumes "clean_json a" "clean_json b"
  shows "serializeCanonicalJson num a = serializeCanonicalJson num b \<longleftrightarrow> json_same a b"
  unfolding serializeCanonicalJson_def stringify_inj
  using assms json_same_normal normal_json_same by blast

end

section \<open>Properties\<close>

text \<open>
  C24: The canonical serialisation decides equality of JSON values: whatever the platform's way of
  printing numbers (a function \<open>num\<close> that satisfies \<open>number_printer\<close>), two values serialise to the
  same text exactly when they are the same data, whatever order their object keys were inserted
  in. (No object may have the key \<^verbatim>\<open>__proto__\<close>, which the code loses.)
\<close>

theorem canonical_json_decides_equality:
  assumes "number_printer num" "clean_json a" "clean_json b"
  shows "serializeCanonicalJson num a = serializeCanonicalJson num b \<longleftrightarrow> json_same a b"
  using assms by (rule number_printer.canonical_iff)

theorem canonical_json_decides_equality_witness:
  "serializeCanonicalJson print_number (JObj [(js ''b'', JNum 1), (js ''a'', JArr [JNull])])
     = serializeCanonicalJson print_number (JObj [(js ''a'', JArr [JNull]), (js ''b'', JNum 1)])"
proof -
  let ?a = "JObj [(js ''b'', JNum 1), (js ''a'', JArr [JNull])]"
  let ?b = "JObj [(js ''a'', JArr [JNull]), (js ''b'', JNum 1)]"
  have k: "js ''b'' \<noteq> js ''a''" "js ''__proto__'' \<noteq> js ''a''" "js ''__proto__'' \<noteq> js ''b''"
    by (simp_all add: js_def)
  have "json_same ?a ?b"
    by (rule json_same.obj) (use k in \<open>auto split: if_splits simp: json_same.num list_all2_Cons1
      intro!: json_same.arr json_same.null\<close>)
  moreover have "clean_json ?a" "clean_json ?b" using k by auto
  ultimately show ?thesis
    using canonical_json_decides_equality [OF plain_printer.number_printer_axioms] by blast
qed

end
