(* ===== verification/Json_Schema.thy ===== *)
theory Json_Schema
  imports Js_Json "HOL-Library.Monad_Syntax"
begin

text \<open>
  The schema combinators the source builds its validators from (\<^verbatim>\<open>zod\<close>), as functions from a JSON
  value to the parsed value or \<open>None\<close> for a failure. An object schema reads its fields by key; a
  strict one refuses every other key. \<open>z_integer\<close> is a finite number refined by
  \<^verbatim>\<open>Number.isInteger\<close>; \<open>z_int\<close> is \<^verbatim>\<open>z.number().int()\<close>, which also refuses unsafe integers.

  The lemmas in the collection \<open>schema_simps\<close> evaluate a schema on a value built by the matching
  constructor functions (\<open>j_int\<close>, \<open>opt_entry\<close>), so that every codec's round trip is a simplification.
\<close>

named_theorems schema_simps \<open>schemas on constructed values\<close>

type_synonym 'a schema = "json \<Rightarrow> 'a option"

section \<open>Combinators\<close>

definition refine :: "('a \<Rightarrow> bool) \<Rightarrow> 'a schema \<Rightarrow> 'a schema" where
  "refine p s v = (case s v of None \<Rightarrow> None | Some x \<Rightarrow> if p x then Some x else None)"

fun z_string :: "jstring schema" where
  "z_string (JStr s) = Some s"
| "z_string _ = None"

fun z_boolean :: "bool schema" where
  "z_boolean (JBool b) = Some b"
| "z_boolean _ = None"

fun z_number :: "rat schema" where
  "z_number (JNum r) = Some r"
| "z_number _ = None"

fun z_integer :: "int schema" where
  "z_integer (JNum r) = (let (n, d) = quotient_of r in if d = 1 then Some n else None)"
| "z_integer _ = None"

definition z_int :: "int schema" where
  "z_int = refine is_safe_integer z_integer"

fun z_nullable :: "'a schema \<Rightarrow> 'a option schema" where
  "z_nullable s JNull = Some None"
| "z_nullable s v = map_option Some (s v)"

fun z_array :: "'a schema \<Rightarrow> 'a list schema" where
  "z_array s (JArr vs) = those (map s vs)"
| "z_array s _ = None"

definition z_enum :: "(jstring \<times> 'a) list \<Rightarrow> 'a schema" where
  "z_enum table v = Option.bind (z_string v) (map_of table)"

text \<open>Object schemas: the entries of a strict object, then its required and optional fields.\<close>

fun z_strict :: "jstring list \<Rightarrow> (jstring \<times> json) list schema" where
  "z_strict keys (JObj kvs) = (if fst ` set kvs \<subseteq> set keys then Some kvs else None)"
| "z_strict keys _ = None"

definition z_field :: "jstring \<Rightarrow> 'a schema \<Rightarrow> (jstring \<times> json) list \<Rightarrow> 'a option" where
  "z_field k s kvs = Option.bind (map_of kvs k) s"

definition z_optional :: "jstring \<Rightarrow> 'a schema \<Rightarrow> (jstring \<times> json) list \<Rightarrow> 'a option option" where
  "z_optional k s kvs = (case map_of kvs k of None \<Rightarrow> Some None | Some v \<Rightarrow> map_option Some (s v))"

section \<open>Constructed values\<close>

definition j_int :: "int \<Rightarrow> json" where
  "j_int n = JNum (of_int n)"

definition j_nullable :: "('a \<Rightarrow> json) \<Rightarrow> 'a option \<Rightarrow> json" where
  "j_nullable f x = (case x of None \<Rightarrow> JNull | Some y \<Rightarrow> f y)"

text \<open>An optional property: absent when undefined.\<close>

definition opt_entry :: "string \<Rightarrow> ('a \<Rightarrow> json) \<Rightarrow> 'a option \<Rightarrow> (jstring \<times> json) list" where
  "opt_entry k f x = (case x of None \<Rightarrow> [] | Some y \<Rightarrow> [(js k, f y)])"

section \<open>Lemmas\<close>

lemma refine_Some_iff [schema_simps]: "refine p s v = Some x \<longleftrightarrow> s v = Some x \<and> p x"
  by (auto simp: refine_def split: option.splits)

lemma z_integer_j_int [schema_simps]: "z_integer (j_int n) = Some n"
  by (simp add: j_int_def)

lemma z_int_j_int [schema_simps]: "z_int (j_int n) = (if is_safe_integer n then Some n else None)"
  by (simp add: z_int_def refine_def z_integer_j_int)

lemma z_int_Some: "z_int v = Some n \<Longrightarrow> is_safe_integer n"
  by (simp add: z_int_def refine_Some_iff)

lemma refine_eval [schema_simps]:
  "s v = Some x \<Longrightarrow> refine p s v = (if p x then Some x else None)"
  by (simp add: refine_def)

lemma z_array_map [schema_simps]:
  assumes "\<And>x. x \<in> set xs \<Longrightarrow> s (f x) = Some (g x)"
  shows "z_array s (JArr (map f xs)) = Some (map g xs)"
  using assms by (simp add: comp_def those_map_Some)

lemma those_Some_iff: "those ys = Some xs \<longleftrightarrow> ys = map Some xs"
proof (induction ys arbitrary: xs)
  case (Cons y ys)
  show ?case by (cases y; cases xs) (auto simp: Cons.IH)
qed auto

lemma z_array_Some_iff: "z_array s v = Some xs \<longleftrightarrow> (\<exists>vs. v = JArr vs \<and> map s vs = map Some xs)"
  by (cases v) (auto simp: those_Some_iff)

lemma z_array_memD: "z_array s v = Some xs \<Longrightarrow> x \<in> set xs \<Longrightarrow> \<exists>u. s u = Some x"
  by (auto simp: z_array_Some_iff in_set_conv_nth) (metis length_map nth_map)

lemma z_nullable_j [schema_simps]:
  assumes "\<And>y. x = Some y \<Longrightarrow> s (f y) = Some y" "\<And>y. f y \<noteq> JNull"
  shows "z_nullable s (j_nullable f x) = Some x"
proof (cases x)
  case (Some y)
  with assms show ?thesis by (cases "f y") (auto simp: j_nullable_def)
qed (simp add: j_nullable_def)

lemma map_of_opt_entry [schema_simps]:
  "map_of (opt_entry k f x @ r) key =
     (if key = js k \<and> x \<noteq> None then map_option f x else map_of r key)"
  by (auto simp: opt_entry_def split: option.splits)

lemma keys_opt_entry [schema_simps]: "fst ` set (opt_entry k f x) \<subseteq> {js k}"
  by (auto simp: opt_entry_def split: option.splits)

lemma z_field_Some_iff: "z_field k s kvs = Some x \<longleftrightarrow> (\<exists>v. map_of kvs k = Some v \<and> s v = Some x)"
  by (cases "map_of kvs k") (auto simp: z_field_def)

lemma z_optional_SomeD:
  "z_optional k s kvs = Some (Some x) \<Longrightarrow> \<exists>v. map_of kvs k = Some v \<and> s v = Some x"
  by (auto simp: z_optional_def split: option.splits)

lemma z_optional_eval:
  "map_of kvs k = map_option f x \<Longrightarrow> (\<And>y. x = Some y \<Longrightarrow> s (f y) = Some y) \<Longrightarrow>
     z_optional k s kvs = Some x"
  by (cases x) (auto simp: z_optional_def)

lemma js_inj [simp]: "js s = js t \<longleftrightarrow> s = t"
proof -
  have "unat (word_of_nat (of_char c) :: code_unit) = of_char c" for c :: char
  proof -
    have "(of_char c :: nat) < 256" by (rule nat_of_char_less_256)
    then show ?thesis by (intro unat_word_of_nat_16) linarith
  qed
  then have "inj (\<lambda>c. word_of_nat (of_char c) :: code_unit)"
    by (intro injI) (metis of_char_eq_iff)
  then show ?thesis unfolding js_def by (simp add: inj_map_eq_map)
qed

end
