(* ===== verification/Diff_Codec.thy ===== *)
theory Diff_Codec
  imports Text_Diff Json_Schema
begin

text \<open>
  The wire form of branch diffs: \<^verbatim>\<open>shared/drop/codecs/diff-v1.ts\<close> (the schemas and the conversion
  between editor diffs and records) and \<^verbatim>\<open>shared/drop/diff-operation.ts\<close> (the validated operation
  value). Records are the source's interfaces with an undefined property as \<open>None\<close>; \<open>op_json\<close>,
  \<open>event_json\<close> and their like are the JSON objects those records are in storage and transport.

  The lemmas show, schema by schema, what a parsed value satisfies (\<open>valid_event\<close> and its parts) and
  that a value satisfying it is read back unchanged, so parsing is stable; and that an editor diff
  survives the record form (\<open>record_of_diff_roundtrip\<close>).
\<close>

section \<open>Records\<close>

datatype DropDiffOpType = Legacy_Insert | Legacy_Delete

record DropDiffNativeOp =
  native_op :: DiffOp
  native_data :: jstring
  native_range :: "DiffRange option"

record DropDiffOp =
  op_type :: "DropDiffOpType option"
  op_start :: "int option"
  op_end :: "int option"
  op_text :: "jstring option"
  op_native :: "DropDiffNativeOp option"

datatype DropDiffEventKind =
    User_Edit | Agent_Edit | Nullplug_Invoke | Nullplug_Result | Ui_Response | Policy_Decision

record DropDiffEventMetadata =
  meta_kind :: "DropDiffEventKind option"
  meta_intent :: "jstring option"
  meta_pluginId :: "jstring option"
  meta_args :: "(jstring \<times> json) list option"
  meta_batchId :: "jstring option"
  meta_batchIndex :: "int option"
  meta_parentEventId :: "jstring option"
  meta_followsSeq :: "int option"
  meta_labels :: "jstring list option"
  meta_confidence :: "rat option"
  meta_resultRef :: "jstring option"
  meta_policyDecisionRef :: "jstring option"

record DropDiffEvent =
  eventId :: jstring
  event_seq :: int
  dropId :: jstring
  sourceClientId :: jstring
  event_createdAt :: int
  event_snapshotId :: "int option"
  event_ops :: "DropDiffOp list"
  event_metadata :: "DropDiffEventMetadata option"

section \<open>Limits and leaf schemas\<close>

definition DIFF_ENVELOPE_MAX_EVENTS :: nat where "DIFF_ENVELOPE_MAX_EVENTS = 100"
definition DIFF_EVENT_MAX_OPS :: nat where "DIFF_EVENT_MAX_OPS = 1000"
definition DIFF_TOKEN_MAX_LENGTH :: nat where "DIFF_TOKEN_MAX_LENGTH = 120"
definition DIFF_TEXT_MAX_LENGTH :: nat where "DIFF_TEXT_MAX_LENGTH = 1000000"
definition DIFF_NATIVE_DATA_MAX_LENGTH :: nat where "DIFF_NATIVE_DATA_MAX_LENGTH = 1500000"
definition DIFF_METADATA_STRING_MAX_LENGTH :: nat where "DIFF_METADATA_STRING_MAX_LENGTH = 10000"
definition DIFF_METADATA_MAX_LABELS :: nat where "DIFF_METADATA_MAX_LABELS = 32"
definition DIFF_METADATA_MAX_ARRAY_LENGTH :: nat where "DIFF_METADATA_MAX_ARRAY_LENGTH = 200"
definition DIFF_METADATA_MAX_KEYS :: nat where "DIFF_METADATA_MAX_KEYS = 200"
definition DIFF_METADATA_KEY_MAX_LENGTH :: nat where "DIFF_METADATA_KEY_MAX_LENGTH = 120"

definition bounded :: "nat \<Rightarrow> nat \<Rightarrow> 'a list \<Rightarrow> bool" where
  "bounded lo hi s \<longleftrightarrow> lo \<le> length s \<and> length s \<le> hi"

definition sequenceNumberSchema :: "int schema" where
  "sequenceNumberSchema = refine (\<lambda>n. - 1 \<le> n) z_integer"

definition nonnegativeSchema :: "int schema" where
  "nonnegativeSchema = refine (\<lambda>n. 0 \<le> n) z_integer"

text \<open>A token is trimmed, then measured; an event id must come trimmed.\<close>

definition tokenSchema :: "jstring schema" where
  "tokenSchema v = refine (bounded 1 DIFF_TOKEN_MAX_LENGTH) (\<lambda>u. map_option js_trim (z_string u)) v"

definition DropDiffEventIdSchema :: "jstring schema" where
  "DropDiffEventIdSchema = refine (\<lambda>s. bounded 1 DIFF_TOKEN_MAX_LENGTH s \<and> is_trimmed s) z_string"

definition metadataStringSchema :: "jstring schema" where
  "metadataStringSchema = refine (bounded 0 DIFF_METADATA_STRING_MAX_LENGTH) z_string"

definition is_base64_text :: "jstring \<Rightarrow> bool" where
  "is_base64_text s \<longleftrightarrow>
     dropWhile (\<lambda>u. u \<in> set base64_alphabet) s \<in> {[], [61], [61, 61]} \<and> length s mod 4 = 0"

definition base64_ok :: "jstring \<Rightarrow> bool" where
  "base64_ok s \<longleftrightarrow> bounded 1 DIFF_NATIVE_DATA_MAX_LENGTH s \<and> is_base64_text s"

definition base64Schema :: "jstring schema" where
  "base64Schema = refine base64_ok z_string"

fun valid_metadata_json :: "json \<Rightarrow> bool" where
  "valid_metadata_json (JStr s) = bounded 0 DIFF_METADATA_STRING_MAX_LENGTH s"
| "valid_metadata_json (JArr vs) =
     (length vs \<le> DIFF_METADATA_MAX_ARRAY_LENGTH \<and> list_all valid_metadata_json vs)"
| "valid_metadata_json (JObj kvs) =
     (list_all (\<lambda>(k, v). bounded 1 DIFF_METADATA_KEY_MAX_LENGTH k \<and> valid_metadata_json v) kvs \<and>
      length kvs \<le> DIFF_METADATA_MAX_KEYS)"
| "valid_metadata_json _ = True"

definition JsonValueSchema :: "json schema" where
  "JsonValueSchema v = (if valid_metadata_json v then Some v else None)"

definition argsSchema :: "(jstring \<times> json) list schema" where
  "argsSchema v = (case v of JObj kvs \<Rightarrow> if valid_metadata_json v then Some kvs else None | _ \<Rightarrow> None)"

section \<open>Operation schemas\<close>

definition valid_range :: "DiffRange \<Rightarrow> bool" where
  "valid_range r \<longleftrightarrow> 0 \<le> range_start r \<and> 0 \<le> range_end r \<and> range_start r \<le> range_end r"

definition DiffRangeSchema :: "DiffRange schema" where
  "DiffRangeSchema v = do {
     kvs \<leftarrow> z_strict [js ''start'', js ''end''] v;
     s \<leftarrow> z_field (js ''start'') nonnegativeSchema kvs;
     e \<leftarrow> z_field (js ''end'') nonnegativeSchema kvs;
     if s \<le> e then Some \<lparr>range_start = s, range_end = e\<rparr> else None }"

fun diff_op_code :: "DiffOp \<Rightarrow> int" where
  "diff_op_code INSERT = 0"
| "diff_op_code DELETE = 1"
| "diff_op_code RETAIN = 2"

definition diffOpSchema :: "DiffOp schema" where
  "diffOpSchema v = (case z_integer v of
     Some n \<Rightarrow> if n = 0 then Some INSERT else if n = 1 then Some DELETE
              else if n = 2 then Some RETAIN else None
   | None \<Rightarrow> None)"

definition DropDiffNativeOpSchema :: "DropDiffNativeOp schema" where
  "DropDiffNativeOpSchema v = do {
     kvs \<leftarrow> z_strict [js ''op'', js ''data'', js ''range''] v;
     oper \<leftarrow> z_field (js ''op'') diffOpSchema kvs;
     payload \<leftarrow> z_field (js ''data'') base64Schema kvs;
     rng \<leftarrow> z_optional (js ''range'') DiffRangeSchema kvs;
     Some \<lparr>native_op = oper, native_data = payload, native_range = rng\<rparr> }"

definition op_type_table :: "(jstring \<times> DropDiffOpType) list" where
  "op_type_table = [(js ''insert'', Legacy_Insert), (js ''delete'', Legacy_Delete)]"

definition has_legacy :: "DropDiffOp \<Rightarrow> bool" where
  "has_legacy p \<longleftrightarrow> op_type p \<noteq> None \<and> op_start p \<noteq> None \<and> op_end p \<noteq> None \<and> op_text p \<noteq> None"

definition op_forms_ok :: "DropDiffOp \<Rightarrow> bool" where
  "op_forms_ok p \<longleftrightarrow>
     \<not> (has_legacy p \<and> the (op_end p) < the (op_start p)) \<and> (has_legacy p \<or> op_native p \<noteq> None)"

definition DropDiffOpSchema :: "DropDiffOp schema" where
  "DropDiffOpSchema v = do {
     kvs \<leftarrow> z_strict [js ''type'', js ''start'', js ''end'', js ''text'', js ''native''] v;
     t \<leftarrow> z_optional (js ''type'') (z_enum op_type_table) kvs;
     s \<leftarrow> z_optional (js ''start'') nonnegativeSchema kvs;
     e \<leftarrow> z_optional (js ''end'') nonnegativeSchema kvs;
     txt \<leftarrow> z_optional (js ''text'') (refine (bounded 0 DIFF_TEXT_MAX_LENGTH) z_string) kvs;
     n \<leftarrow> z_optional (js ''native'') DropDiffNativeOpSchema kvs;
     let p = \<lparr>op_type = t, op_start = s, op_end = e, op_text = txt, op_native = n\<rparr>
     in if op_forms_ok p then Some p else None }"

definition isDropDiffOpV1 :: "json \<Rightarrow> bool" where
  "isDropDiffOpV1 v \<longleftrightarrow> DropDiffOpSchema v \<noteq> None"

section \<open>Event schemas\<close>

definition kind_table :: "(jstring \<times> DropDiffEventKind) list" where
  "kind_table = [(js ''user.edit'', User_Edit), (js ''agent.edit'', Agent_Edit),
     (js ''nullplug.invoke'', Nullplug_Invoke), (js ''nullplug.result'', Nullplug_Result),
     (js ''ui.response'', Ui_Response), (js ''policy.decision'', Policy_Decision)]"

definition DropDiffEventMetadataSchema :: "DropDiffEventMetadata schema" where
  "DropDiffEventMetadataSchema v = do {
     kvs \<leftarrow> z_strict [js ''kind'', js ''intent'', js ''pluginId'', js ''args'', js ''batchId'',
        js ''batchIndex'', js ''parentEventId'', js ''followsSeq'', js ''labels'', js ''confidence'',
        js ''resultRef'', js ''policyDecisionRef''] v;
     k \<leftarrow> z_optional (js ''kind'') (z_enum kind_table) kvs;
     i \<leftarrow> z_optional (js ''intent'') metadataStringSchema kvs;
     pl \<leftarrow> z_optional (js ''pluginId'') tokenSchema kvs;
     a \<leftarrow> z_optional (js ''args'') argsSchema kvs;
     b \<leftarrow> z_optional (js ''batchId'') tokenSchema kvs;
     bi \<leftarrow> z_optional (js ''batchIndex'') nonnegativeSchema kvs;
     pe \<leftarrow> z_optional (js ''parentEventId'') tokenSchema kvs;
     f \<leftarrow> z_optional (js ''followsSeq'') sequenceNumberSchema kvs;
     l \<leftarrow> z_optional (js ''labels'') (refine (bounded 0 DIFF_METADATA_MAX_LABELS) (z_array tokenSchema)) kvs;
     c \<leftarrow> z_optional (js ''confidence'') (refine (\<lambda>r. 0 \<le> r \<and> r \<le> 1) z_number) kvs;
     rr \<leftarrow> z_optional (js ''resultRef'') tokenSchema kvs;
     pd \<leftarrow> z_optional (js ''policyDecisionRef'') tokenSchema kvs;
     Some \<lparr>meta_kind = k, meta_intent = i, meta_pluginId = pl, meta_args = a, meta_batchId = b,
           meta_batchIndex = bi, meta_parentEventId = pe, meta_followsSeq = f, meta_labels = l,
           meta_confidence = c, meta_resultRef = rr, meta_policyDecisionRef = pd\<rparr> }"

definition isDropDiffEventMetadataV1 :: "json \<Rightarrow> bool" where
  "isDropDiffEventMetadataV1 v \<longleftrightarrow> DropDiffEventMetadataSchema v \<noteq> None"

definition DropDiffEventSchema :: "DropDiffEvent schema" where
  "DropDiffEventSchema v = do {
     kvs \<leftarrow> z_strict [js ''eventId'', js ''seq'', js ''dropId'', js ''sourceClientId'', js ''createdAt'',
        js ''snapshotId'', js ''ops'', js ''metadata''] v;
     i \<leftarrow> z_field (js ''eventId'') DropDiffEventIdSchema kvs;
     s \<leftarrow> z_field (js ''seq'') sequenceNumberSchema kvs;
     d \<leftarrow> z_field (js ''dropId'') tokenSchema kvs;
     c \<leftarrow> z_field (js ''sourceClientId'') tokenSchema kvs;
     t \<leftarrow> z_field (js ''createdAt'') nonnegativeSchema kvs;
     sn \<leftarrow> z_optional (js ''snapshotId'') nonnegativeSchema kvs;
     os \<leftarrow> z_field (js ''ops'') (refine (bounded 1 DIFF_EVENT_MAX_OPS) (z_array DropDiffOpSchema)) kvs;
     mt \<leftarrow> z_optional (js ''metadata'') DropDiffEventMetadataSchema kvs;
     Some \<lparr>eventId = i, event_seq = s, dropId = d, sourceClientId = c, event_createdAt = t,
           event_snapshotId = sn, event_ops = os, event_metadata = mt\<rparr> }"

definition isDropDiffEventV1 :: "json \<Rightarrow> bool" where
  "isDropDiffEventV1 v \<longleftrightarrow> DropDiffEventSchema v \<noteq> None"

definition DropDiffEnvelopeSchema :: "DropDiffEvent list schema" where
  "DropDiffEnvelopeSchema v = do {
     kvs \<leftarrow> z_strict [js ''version'', js ''events''] v;
     one \<leftarrow> z_field (js ''version'') (refine (\<lambda>n. n = 1) z_integer) kvs;
     z_field (js ''events'')
       (refine (bounded 0 DIFF_ENVELOPE_MAX_EVENTS) (z_array DropDiffEventSchema)) kvs }"

definition isDropDiffEnvelopeV1 :: "json \<Rightarrow> bool" where
  "isDropDiffEnvelopeV1 v \<longleftrightarrow> DropDiffEnvelopeSchema v \<noteq> None"

text \<open>New appends must also have safe integers everywhere.\<close>

definition opt_all :: "('a \<Rightarrow> bool) \<Rightarrow> 'a option \<Rightarrow> bool" where
  "opt_all p x = (case x of None \<Rightarrow> True | Some y \<Rightarrow> p y)"

definition op_integers_safe :: "DropDiffOp \<Rightarrow> bool" where
  "op_integers_safe p \<longleftrightarrow>
     opt_all is_safe_integer (op_start p) \<and> opt_all is_safe_integer (op_end p) \<and>
     opt_all (\<lambda>n. opt_all (\<lambda>r. is_safe_integer (range_start r) \<and> is_safe_integer (range_end r))
        (native_range n)) (op_native p)"

definition event_integers_safe :: "DropDiffEvent \<Rightarrow> bool" where
  "event_integers_safe e \<longleftrightarrow>
     is_safe_integer (event_seq e) \<and> is_safe_integer (event_createdAt e) \<and>
     opt_all is_safe_integer (event_snapshotId e) \<and>
     opt_all (\<lambda>m. opt_all is_safe_integer (meta_batchIndex m) \<and>
        opt_all is_safe_integer (meta_followsSeq m)) (event_metadata e) \<and>
     list_all op_integers_safe (event_ops e)"

definition DropDiffAppendEnvelopeSchema :: "DropDiffEvent list schema" where
  "DropDiffAppendEnvelopeSchema = refine (list_all event_integers_safe) DropDiffEnvelopeSchema"

section \<open>JSON of the records\<close>

definition range_json :: "DiffRange \<Rightarrow> json" where
  "range_json r = JObj [(js ''start'', j_int (range_start r)), (js ''end'', j_int (range_end r))]"

definition native_json :: "DropDiffNativeOp \<Rightarrow> json" where
  "native_json n = JObj ([(js ''op'', j_int (diff_op_code (native_op n))), (js ''data'', JStr (native_data n))]
     @ opt_entry ''range'' range_json (native_range n))"

definition op_type_json :: "DropDiffOpType \<Rightarrow> json" where
  "op_type_json t = JStr (case t of Legacy_Insert \<Rightarrow> js ''insert'' | Legacy_Delete \<Rightarrow> js ''delete'')"

definition op_json :: "DropDiffOp \<Rightarrow> json" where
  "op_json p = JObj (opt_entry ''type'' op_type_json (op_type p) @ opt_entry ''start'' j_int (op_start p) @
     opt_entry ''end'' j_int (op_end p) @ opt_entry ''text'' JStr (op_text p) @
     opt_entry ''native'' native_json (op_native p))"

definition kind_json :: "DropDiffEventKind \<Rightarrow> json" where
  "kind_json k = JStr (case k of User_Edit \<Rightarrow> js ''user.edit'' | Agent_Edit \<Rightarrow> js ''agent.edit''
     | Nullplug_Invoke \<Rightarrow> js ''nullplug.invoke'' | Nullplug_Result \<Rightarrow> js ''nullplug.result''
     | Ui_Response \<Rightarrow> js ''ui.response'' | Policy_Decision \<Rightarrow> js ''policy.decision'')"

definition metadata_json :: "DropDiffEventMetadata \<Rightarrow> json" where
  "metadata_json m = JObj (opt_entry ''kind'' kind_json (meta_kind m) @
     opt_entry ''intent'' JStr (meta_intent m) @ opt_entry ''pluginId'' JStr (meta_pluginId m) @
     opt_entry ''args'' JObj (meta_args m) @ opt_entry ''batchId'' JStr (meta_batchId m) @
     opt_entry ''batchIndex'' j_int (meta_batchIndex m) @
     opt_entry ''parentEventId'' JStr (meta_parentEventId m) @
     opt_entry ''followsSeq'' j_int (meta_followsSeq m) @
     opt_entry ''labels'' (\<lambda>ls. JArr (map JStr ls)) (meta_labels m) @
     opt_entry ''confidence'' JNum (meta_confidence m) @ opt_entry ''resultRef'' JStr (meta_resultRef m) @
     opt_entry ''policyDecisionRef'' JStr (meta_policyDecisionRef m))"

definition event_json :: "DropDiffEvent \<Rightarrow> json" where
  "event_json e = JObj ([(js ''eventId'', JStr (eventId e)), (js ''seq'', j_int (event_seq e)),
     (js ''dropId'', JStr (dropId e)), (js ''sourceClientId'', JStr (sourceClientId e)),
     (js ''createdAt'', j_int (event_createdAt e))] @
     opt_entry ''snapshotId'' j_int (event_snapshotId e) @
     [(js ''ops'', JArr (map op_json (event_ops e)))] @
     opt_entry ''metadata'' metadata_json (event_metadata e))"

definition envelope_json :: "DropDiffEvent list \<Rightarrow> json" where
  "envelope_json es = JObj [(js ''version'', j_int 1), (js ''events'', JArr (map event_json es))]"

section \<open>Conversion between editor diffs and records\<close>

definition diffToDropDiffOpV1 :: "Diff \<Rightarrow> DropDiffOp" where
  "diffToDropDiffOpV1 d =
     (let range = (case diff_range d of None \<Rightarrow> \<lparr>range_start = 0, range_end = 0\<rparr> | Some r \<Rightarrow> r);
          text = decodeText (diff_data d)
      in \<lparr>op_type = Some (if diff_op d = DELETE then Legacy_Delete else Legacy_Insert),
          op_start = Some (range_start range), op_end = Some (range_end range), op_text = Some text,
          op_native = Some \<lparr>native_op = diff_op d, native_data = toBase64 (diff_data d),
                            native_range = Some range\<rparr>\<rparr>)"

datatype js_exception = Invalid_Character_Error | Type_Error | Zod_Error

text \<open>\<open>Inl\<close>: \<^verbatim>\<open>atob\<close> throws; \<open>Inr None\<close>: the null of an operation with neither form.\<close>

definition dropDiffOpV1ToDiff :: "DropDiffOp \<Rightarrow> js_exception + Diff option" where
  "dropDiffOpV1ToDiff p =
     (case op_native p of
        Some n \<Rightarrow>
          (case fromBase64 (native_data n) of
             None \<Rightarrow> Inl Invalid_Character_Error
           | Some bytes \<Rightarrow> Inr (Some \<lparr>diff_op = native_op n, diff_data = bytes,
                diff_range = Some (case native_range n of None \<Rightarrow> \<lparr>range_start = 0, range_end = 0\<rparr>
                                   | Some r \<Rightarrow> r)\<rparr>))
      | None \<Rightarrow>
          (case (op_type p, op_start p, op_end p, op_text p) of
             (Some t, Some s, Some e, Some txt) \<Rightarrow>
               Inr (Some \<lparr>diff_op = (if t = Legacy_Insert then INSERT else DELETE),
                    diff_data = encodeText txt, diff_range = Some \<lparr>range_start = s, range_end = e\<rparr>\<rparr>)
           | _ \<Rightarrow> Inr None))"

section \<open>The operation value\<close>

text \<open>\<^verbatim>\<open>DropDiffOperation\<close> holds a record; its copies are the record itself.\<close>

definition DropDiffOperation_fromDiff :: "Diff \<Rightarrow> js_exception + DropDiffOp" where
  "DropDiffOperation_fromDiff d =
     (if opt_all valid_range (diff_range d) then Inr (diffToDropDiffOpV1 d) else Inl Zod_Error)"

definition DropDiffOperation_fromRecord :: "json \<Rightarrow> js_exception + DropDiffOp" where
  "DropDiffOperation_fromRecord v =
     (case DropDiffOpSchema v of
        None \<Rightarrow> Inl Zod_Error
      | Some p \<Rightarrow> and_then (dropDiffOpV1ToDiff p) (\<lambda>d. if d = None then Inl Type_Error else Inr p))"

definition DropDiffOperation_toDiff :: "DropDiffOp \<Rightarrow> js_exception + Diff" where
  "DropDiffOperation_toDiff p =
     and_then (dropDiffOpV1ToDiff p) (\<lambda>d. case d of None \<Rightarrow> Inl Type_Error | Some x \<Rightarrow> Inr x)"

section \<open>What a parsed value satisfies\<close>

definition is_token :: "jstring \<Rightarrow> bool" where
  "is_token s \<longleftrightarrow> bounded 1 DIFF_TOKEN_MAX_LENGTH s \<and> is_trimmed s"

definition valid_native :: "DropDiffNativeOp \<Rightarrow> bool" where
  "valid_native n \<longleftrightarrow> base64_ok (native_data n) \<and> opt_all valid_range (native_range n)"

definition valid_op :: "DropDiffOp \<Rightarrow> bool" where
  "valid_op p \<longleftrightarrow> opt_all (\<lambda>n. 0 \<le> n) (op_start p) \<and> opt_all (\<lambda>n. 0 \<le> n) (op_end p) \<and>
     opt_all (bounded 0 DIFF_TEXT_MAX_LENGTH) (op_text p) \<and> opt_all valid_native (op_native p) \<and>
     op_forms_ok p"

definition valid_metadata :: "DropDiffEventMetadata \<Rightarrow> bool" where
  "valid_metadata m \<longleftrightarrow>
     opt_all (bounded 0 DIFF_METADATA_STRING_MAX_LENGTH) (meta_intent m) \<and>
     opt_all is_token (meta_pluginId m) \<and> opt_all (\<lambda>a. valid_metadata_json (JObj a)) (meta_args m) \<and>
     opt_all is_token (meta_batchId m) \<and> opt_all (\<lambda>n. 0 \<le> n) (meta_batchIndex m) \<and>
     opt_all is_token (meta_parentEventId m) \<and> opt_all (\<lambda>n. - 1 \<le> n) (meta_followsSeq m) \<and>
     opt_all (\<lambda>ls. bounded 0 DIFF_METADATA_MAX_LABELS ls \<and> list_all is_token ls) (meta_labels m) \<and>
     opt_all (\<lambda>r. 0 \<le> r \<and> r \<le> 1) (meta_confidence m) \<and> opt_all is_token (meta_resultRef m) \<and>
     opt_all is_token (meta_policyDecisionRef m)"

definition valid_event :: "DropDiffEvent \<Rightarrow> bool" where
  "valid_event e \<longleftrightarrow> is_token (eventId e) \<and> - 1 \<le> event_seq e \<and> is_token (dropId e) \<and>
     is_token (sourceClientId e) \<and> 0 \<le> event_createdAt e \<and> opt_all (\<lambda>n. 0 \<le> n) (event_snapshotId e) \<and>
     bounded 1 DIFF_EVENT_MAX_OPS (event_ops e) \<and> list_all valid_op (event_ops e) \<and>
     opt_all valid_metadata (event_metadata e)"

lemma opt_all_simps [simp]: "opt_all p None" "opt_all p (Some x) = p x"
  by (simp_all add: opt_all_def)

lemma opt_allI: "(\<And>y. x = Some y \<Longrightarrow> p y) \<Longrightarrow> opt_all p x"
  by (cases x) auto

lemma opt_allD: "opt_all p x \<Longrightarrow> x = Some y \<Longrightarrow> p y"
  by simp

lemma z_optional_all:
  assumes "z_optional k s kvs = Some x" "\<And>v y. s v = Some y \<Longrightarrow> p y"
  shows "opt_all p x"
  using assms by (cases x) (auto dest!: z_optional_SomeD)

lemma z_field_all:
  assumes "z_field k s kvs = Some x" "\<And>v y. s v = Some y \<Longrightarrow> p y"
  shows "p x"
  using assms by (auto simp: z_field_Some_iff)

lemma leaf_Some:
  "nonnegativeSchema v = Some n \<Longrightarrow> 0 \<le> n"
  "sequenceNumberSchema v = Some n \<Longrightarrow> - 1 \<le> n"
  "tokenSchema v = Some t \<Longrightarrow> is_token t"
  "DropDiffEventIdSchema v = Some t \<Longrightarrow> is_token t"
  "metadataStringSchema v = Some t \<Longrightarrow> bounded 0 DIFF_METADATA_STRING_MAX_LENGTH t"
  "base64Schema v = Some t \<Longrightarrow> base64_ok t"
  "argsSchema v = Some a \<Longrightarrow> valid_metadata_json (JObj a)"
  by (auto simp: nonnegativeSchema_def sequenceNumberSchema_def tokenSchema_def DropDiffEventIdSchema_def
      metadataStringSchema_def base64Schema_def argsSchema_def refine_Some_iff is_token_def
      split: json.splits if_splits)

lemma leaf_json [schema_simps]:
  "0 \<le> n \<Longrightarrow> nonnegativeSchema (j_int n) = Some n"
  "- 1 \<le> n \<Longrightarrow> sequenceNumberSchema (j_int n) = Some n"
  "is_token t \<Longrightarrow> tokenSchema (JStr t) = Some t"
  "is_token t \<Longrightarrow> DropDiffEventIdSchema (JStr t) = Some t"
  "bounded 0 DIFF_METADATA_STRING_MAX_LENGTH t \<Longrightarrow> metadataStringSchema (JStr t) = Some t"
  "base64_ok t \<Longrightarrow> base64Schema (JStr t) = Some t"
  "valid_metadata_json (JObj a) \<Longrightarrow> argsSchema (JObj a) = Some a"
  by (simp_all add: nonnegativeSchema_def sequenceNumberSchema_def tokenSchema_def
      DropDiffEventIdSchema_def metadataStringSchema_def base64Schema_def argsSchema_def refine_def
      z_integer_j_int is_token_def is_trimmed_def)

lemma enum_json [schema_simps]:
  "z_enum op_type_table (op_type_json t) = Some t" "z_enum kind_table (kind_json k) = Some k"
  by (simp add: z_enum_def op_type_table_def op_type_json_def split: DropDiffOpType.split)
    (simp add: z_enum_def kind_table_def kind_json_def split: DropDiffEventKind.split)

lemma diffOp_json [schema_simps]: "diffOpSchema (j_int (diff_op_code d)) = Some d"
  by (cases d) (simp_all add: diffOpSchema_def z_integer_j_int)

lemma opt_keys:
  "js k \<in> S \<Longrightarrow> fst ` set r \<subseteq> S \<Longrightarrow> fst ` set (opt_entry k f x @ r) \<subseteq> S"
  "js k \<in> S \<Longrightarrow> fst ` set (opt_entry k f x) \<subseteq> S"
  "key \<in> S \<Longrightarrow> fst ` set r \<subseteq> S \<Longrightarrow> fst ` set ((key, v) # r) \<subseteq> S"
  by (auto simp: opt_entry_def split: option.splits)

lemma map_of_opt_entry_last [schema_simps]:
  "map_of (opt_entry k f x) key = (if key = js k then map_option f x else None)"
  by (auto simp: opt_entry_def split: option.splits)

lemma map_of_opt_entry_same [simp]:
  "map_of r (js k) = None \<Longrightarrow> map_of (opt_entry k f x @ r) (js k) = map_option f x"
  by (cases x) (auto simp: opt_entry_def)

lemma map_of_opt_entry_other [simp]: "key \<noteq> js k \<Longrightarrow> map_of (opt_entry k f x @ r) key = map_of r key"
  by (auto simp: opt_entry_def split: option.splits)

declare map_of_append [simp del]

subsection \<open>Ranges and operations\<close>

lemma DiffRangeSchema_valid: "DiffRangeSchema v = Some r \<Longrightarrow> valid_range r"
  by (auto simp: DiffRangeSchema_def valid_range_def bind_eq_Some_conv
      split: if_splits dest!: z_field_all [OF _ leaf_Some(1)])

lemma DiffRangeSchema_json [schema_simps]: "valid_range r \<Longrightarrow> DiffRangeSchema (range_json r) = Some r"
  by (simp add: DiffRangeSchema_def range_json_def valid_range_def z_field_def leaf_json)

lemma DropDiffNativeOpSchema_valid: "DropDiffNativeOpSchema v = Some n \<Longrightarrow> valid_native n"
  by (auto simp: DropDiffNativeOpSchema_def valid_native_def bind_eq_Some_conv
      dest: z_field_all [OF _ leaf_Some(6)] z_optional_all [OF _ DiffRangeSchema_valid])

lemma DropDiffNativeOpSchema_json [schema_simps]:
  "valid_native n \<Longrightarrow> DropDiffNativeOpSchema (native_json n) = Some n"
  by (cases "native_range n")
    (simp_all add: DropDiffNativeOpSchema_def native_json_def valid_native_def z_field_def z_optional_def
      opt_entry_def schema_simps)

lemma DropDiffOpSchema_valid: "DropDiffOpSchema v = Some p \<Longrightarrow> valid_op p"
  by (auto simp: DropDiffOpSchema_def valid_op_def bind_eq_Some_conv Let_def refine_Some_iff
      split: if_splits
      dest: z_optional_all [OF _ leaf_Some(1)] z_optional_all [OF _ DropDiffNativeOpSchema_valid]
        z_optional_all [where p = "bounded 0 DIFF_TEXT_MAX_LENGTH"])

lemma z_optional_json:
  "map_of kvs k = map_option f x \<Longrightarrow> opt_all p x \<Longrightarrow> (\<And>y. p y \<Longrightarrow> s (f y) = Some y) \<Longrightarrow>
     z_optional k s kvs = Some x"
  by (cases x) (auto simp: z_optional_def)

lemma z_optional_json_all:
  "map_of kvs k = map_option f x \<Longrightarrow> (\<And>y. s (f y) = Some y) \<Longrightarrow> z_optional k s kvs = Some x"
  by (cases x) (auto simp: z_optional_def)

lemma string_json: "bounded 0 n t \<Longrightarrow> refine (bounded 0 n) z_string (JStr t) = Some t"
  by (simp add: refine_def)

lemma op_eta:
  "\<lparr>op_type = op_type p, op_start = op_start p, op_end = op_end p, op_text = op_text p,
    op_native = op_native p\<rparr> = (p :: DropDiffOp)"
  by simp

lemma DropDiffOpSchema_json [schema_simps]:
  assumes "valid_op p"
  shows "DropDiffOpSchema (op_json p) = Some p"
proof -
  let ?kvs = "opt_entry ''type'' op_type_json (op_type p) @ opt_entry ''start'' j_int (op_start p) @
     opt_entry ''end'' j_int (op_end p) @ opt_entry ''text'' JStr (op_text p) @
     opt_entry ''native'' native_json (op_native p)"
  note v = assms [unfolded valid_op_def]
  have "z_strict [js ''type'', js ''start'', js ''end'', js ''text'', js ''native''] (op_json p) = Some ?kvs"
    unfolding op_json_def z_strict.simps by (intro if_P opt_keys) simp_all
  moreover have "z_optional (js ''type'') (z_enum op_type_table) ?kvs = Some (op_type p)"
    by (rule z_optional_json_all [where f = op_type_json]) (simp_all add: schema_simps)
  moreover have "z_optional (js ''start'') nonnegativeSchema ?kvs = Some (op_start p)"
    by (rule z_optional_json [where f = j_int and p = "\<lambda>n. 0 \<le> n"]) (use v in \<open>simp_all add: schema_simps\<close>)
  moreover have "z_optional (js ''end'') nonnegativeSchema ?kvs = Some (op_end p)"
    by (rule z_optional_json [where f = j_int and p = "\<lambda>n. 0 \<le> n"]) (use v in \<open>simp_all add: schema_simps\<close>)
  moreover have "z_optional (js ''text'') (refine (bounded 0 DIFF_TEXT_MAX_LENGTH) z_string) ?kvs = Some (op_text p)"
    by (rule z_optional_json [where f = JStr and p = "bounded 0 DIFF_TEXT_MAX_LENGTH"])
      (use v in \<open>simp_all add: schema_simps string_json\<close>)
  moreover have "z_optional (js ''native'') DropDiffNativeOpSchema ?kvs = Some (op_native p)"
    by (rule z_optional_json [where f = native_json and p = valid_native]) (use v in \<open>simp_all add: schema_simps\<close>)
  ultimately show ?thesis using v by (simp add: DropDiffOpSchema_def Let_def op_eta)
qed

subsection \<open>Metadata and events\<close>

lemma labels_valid:
  "refine (bounded 0 n) (z_array tokenSchema) v = Some ls \<Longrightarrow> bounded 0 n ls \<and> list_all is_token ls"
  by (auto simp: refine_Some_iff list_all_iff dest!: z_array_memD leaf_Some(3))

lemma labels_json:
  "bounded 0 n ls \<and> list_all is_token ls \<Longrightarrow>
     refine (bounded 0 n) (z_array tokenSchema) (JArr (map JStr ls)) = Some ls"
  using z_array_map [of ls tokenSchema JStr "\<lambda>x. x"]
  by (auto simp: refine_def list_all_iff leaf_json simp del: z_array.simps)

lemma confidence_Some: "refine (\<lambda>r. 0 \<le> r \<and> r \<le> 1) z_number v = Some c \<Longrightarrow> 0 \<le> c \<and> c \<le> 1"
  by (simp add: refine_Some_iff)

lemma confidence_json: "0 \<le> c \<and> c \<le> 1 \<Longrightarrow> refine (\<lambda>r. 0 \<le> r \<and> r \<le> 1) z_number (JNum c) = Some c"
  by (simp add: refine_def)

text \<open>Reading off a do-block field by field: what a schema guarantees of its results.\<close>

definition yields :: "'a schema \<Rightarrow> ('a \<Rightarrow> bool) \<Rightarrow> bool" where
  "yields s p \<longleftrightarrow> (\<forall>v y. s v = Some y \<longrightarrow> p y)"

lemma yieldsI: "(\<And>v y. s v = Some y \<Longrightarrow> p y) \<Longrightarrow> yields s p"
  by (simp add: yields_def)

lemma bind_optionalE:
  assumes "Option.bind (z_optional k s kvs) f = Some m" "yields s p"
  obtains x where "opt_all p x" "f x = Some m"
proof -
  from assms(1) obtain x where x: "z_optional k s kvs = Some x" "f x = Some m"
    unfolding bind_eq_Some_conv by blast
  from x(1) assms(2) have "opt_all p x" unfolding yields_def by (metis z_optional_all)
  with x(2) that show thesis by blast
qed

lemma bind_fieldE:
  assumes "Option.bind (z_field k s kvs) f = Some m" "yields s p"
  obtains x where "p x" "f x = Some m"
proof -
  from assms(1) obtain x where x: "z_field k s kvs = Some x" "f x = Some m"
    unfolding bind_eq_Some_conv by blast
  from x(1) assms(2) have "p x" unfolding yields_def by (metis z_field_all)
  with x(2) that show thesis by blast
qed

lemma bind_strictE:
  assumes "Option.bind (z_strict ks v) f = Some m"
  obtains kvs where "f kvs = Some m"
  using assms unfolding bind_eq_Some_conv by blast

lemma leaf_yields:
  "yields nonnegativeSchema (\<lambda>n. 0 \<le> n)" "yields sequenceNumberSchema (\<lambda>n. - 1 \<le> n)"
  "yields tokenSchema is_token" "yields DropDiffEventIdSchema is_token"
  "yields metadataStringSchema (bounded 0 DIFF_METADATA_STRING_MAX_LENGTH)"
  "yields argsSchema (\<lambda>a. valid_metadata_json (JObj a))"
  "yields (z_enum kind_table) (\<lambda>_. True)"
  by (rule yieldsI, erule leaf_Some | simp add: yieldsI)+

lemma metadata_yields:
  "yields (refine (bounded 0 n) (z_array tokenSchema)) (\<lambda>ls. bounded 0 n ls \<and> list_all is_token ls)"
  "yields (refine (\<lambda>r. 0 \<le> r \<and> r \<le> 1) z_number) (\<lambda>c. 0 \<le> c \<and> c \<le> 1)"
  "yields (refine (bounded 1 n) (z_array DropDiffOpSchema)) (\<lambda>ps. bounded 1 n ps \<and> list_all valid_op ps)"
  by (rule yieldsI, erule labels_valid)
    (rule yieldsI, erule confidence_Some,
     auto simp: yields_def refine_Some_iff list_all_iff dest!: z_array_memD DropDiffOpSchema_valid)

lemma DropDiffEventMetadataSchema_valid:
  "DropDiffEventMetadataSchema v = Some m \<Longrightarrow> valid_metadata m"
  unfolding DropDiffEventMetadataSchema_def
  by (elim bind_strictE bind_optionalE [OF _ leaf_yields(1)] bind_optionalE [OF _ leaf_yields(2)]
      bind_optionalE [OF _ leaf_yields(3)] bind_optionalE [OF _ leaf_yields(5)]
      bind_optionalE [OF _ leaf_yields(6)] bind_optionalE [OF _ leaf_yields(7)]
      bind_optionalE [OF _ metadata_yields(1)] bind_optionalE [OF _ metadata_yields(2)])
    (auto simp: valid_metadata_def simp del: valid_metadata_json.simps)

lemma DropDiffEventMetadataSchema_json [schema_simps]:
  assumes "valid_metadata m"
  shows "DropDiffEventMetadataSchema (metadata_json m) = Some m"
proof -
  note v = assms [unfolded valid_metadata_def]
  obtain kvs where obj: "metadata_json m = JObj kvs" by (simp add: metadata_json_def)
  note kvs = obj [unfolded metadata_json_def json.inject, symmetric]
  have keys: "fst ` set kvs \<subseteq> set [js ''kind'', js ''intent'', js ''pluginId'', js ''args'', js ''batchId'',
        js ''batchIndex'', js ''parentEventId'', js ''followsSeq'', js ''labels'', js ''confidence'',
        js ''resultRef'', js ''policyDecisionRef'']"
    unfolding kvs by (intro opt_keys) simp_all
  note look = map_of_opt_entry_last
  have 1: "z_optional (js ''kind'') (z_enum kind_table) kvs = Some (meta_kind m)"
    by (rule z_optional_json_all [where f = kind_json]) (simp_all add: kvs look enum_json)
  have 2: "z_optional (js ''intent'') metadataStringSchema kvs = Some (meta_intent m)"
    by (rule z_optional_json [where f = JStr, OF _ _ leaf_json(5)]) (simp_all add: kvs look v)
  have 3: "z_optional (js ''pluginId'') tokenSchema kvs = Some (meta_pluginId m)"
    by (rule z_optional_json [where f = JStr, OF _ _ leaf_json(3)]) (simp_all add: kvs look v)
  have 4: "z_optional (js ''args'') argsSchema kvs = Some (meta_args m)"
    by (rule z_optional_json [where f = JObj, OF _ _ leaf_json(7)])
      (simp_all add: kvs look v del: valid_metadata_json.simps)
  have 5: "z_optional (js ''batchId'') tokenSchema kvs = Some (meta_batchId m)"
    by (rule z_optional_json [where f = JStr, OF _ _ leaf_json(3)]) (simp_all add: kvs look v)
  have 6: "z_optional (js ''batchIndex'') nonnegativeSchema kvs = Some (meta_batchIndex m)"
    by (rule z_optional_json [where f = j_int, OF _ _ leaf_json(1)]) (simp_all add: kvs look v)
  have 7: "z_optional (js ''parentEventId'') tokenSchema kvs = Some (meta_parentEventId m)"
    by (rule z_optional_json [where f = JStr, OF _ _ leaf_json(3)]) (simp_all add: kvs look v)
  have 8: "z_optional (js ''followsSeq'') sequenceNumberSchema kvs = Some (meta_followsSeq m)"
    by (rule z_optional_json [where f = j_int, OF _ _ leaf_json(2)]) (simp_all add: kvs look v)
  have 9: "z_optional (js ''labels'') (refine (bounded 0 DIFF_METADATA_MAX_LABELS) (z_array tokenSchema)) kvs
      = Some (meta_labels m)"
    by (rule z_optional_json [where f = "\<lambda>ls. JArr (map JStr ls)", OF _ _ labels_json])
      (simp_all add: kvs look v)
  have 10: "z_optional (js ''confidence'') (refine (\<lambda>r. 0 \<le> r \<and> r \<le> 1) z_number) kvs = Some (meta_confidence m)"
    by (rule z_optional_json [where f = JNum, OF _ _ confidence_json]) (simp_all add: kvs look v)
  have 11: "z_optional (js ''resultRef'') tokenSchema kvs = Some (meta_resultRef m)"
    by (rule z_optional_json [where f = JStr, OF _ _ leaf_json(3)]) (simp_all add: kvs look v)
  have 12: "z_optional (js ''policyDecisionRef'') tokenSchema kvs = Some (meta_policyDecisionRef m)"
    by (rule z_optional_json [where f = JStr, OF _ _ leaf_json(3)]) (simp_all add: kvs look v)
  show ?thesis
    unfolding DropDiffEventMetadataSchema_def obj z_strict.simps
    by (simp only: keys if_True Option.bind.simps 1 2 3 4 5 6 7 8 9 10 11 12) simp
qed

lemma DropDiffEventSchema_valid: "DropDiffEventSchema v = Some e \<Longrightarrow> valid_event e"
proof -
  have y: "yields DropDiffEventMetadataSchema valid_metadata"
    by (rule yieldsI, erule DropDiffEventMetadataSchema_valid)
  show "DropDiffEventSchema v = Some e \<Longrightarrow> valid_event e"
    unfolding DropDiffEventSchema_def
    by (elim bind_strictE bind_fieldE [OF _ leaf_yields(1)] bind_fieldE [OF _ leaf_yields(2)]
        bind_fieldE [OF _ leaf_yields(3)] bind_fieldE [OF _ leaf_yields(4)]
        bind_optionalE [OF _ leaf_yields(1)] bind_fieldE [OF _ metadata_yields(3)]
        bind_optionalE [OF _ y])
      (auto simp: valid_event_def)
qed

lemma ops_json:
  "bounded 1 n ps \<Longrightarrow> list_all valid_op ps \<Longrightarrow>
     refine (bounded 1 n) (z_array DropDiffOpSchema) (JArr (map op_json ps)) = Some ps"
  using z_array_map [of ps DropDiffOpSchema op_json "\<lambda>x. x"]
  by (auto simp: refine_def list_all_iff DropDiffOpSchema_json simp del: z_array.simps)

lemma DropDiffEventSchema_json [schema_simps]:
  assumes "valid_event e"
  shows "DropDiffEventSchema (event_json e) = Some e"
proof -
  note v = assms [unfolded valid_event_def]
  obtain kvs where obj: "event_json e = JObj kvs" by (simp add: event_json_def)
  note kvs = obj [unfolded event_json_def json.inject, symmetric]
  have keys: "fst ` set kvs \<subseteq> set [js ''eventId'', js ''seq'', js ''dropId'', js ''sourceClientId'', js ''createdAt'',
        js ''snapshotId'', js ''ops'', js ''metadata'']"
    unfolding kvs append_Cons append_Nil by (intro opt_keys) simp_all
  note look = map_of_opt_entry_last z_field_def
  have 1: "z_field (js ''eventId'') DropDiffEventIdSchema kvs = Some (eventId e)"
    "z_field (js ''seq'') sequenceNumberSchema kvs = Some (event_seq e)"
    "z_field (js ''dropId'') tokenSchema kvs = Some (dropId e)"
    "z_field (js ''sourceClientId'') tokenSchema kvs = Some (sourceClientId e)"
    "z_field (js ''createdAt'') nonnegativeSchema kvs = Some (event_createdAt e)"
    by (simp_all add: kvs look leaf_json v)
  have 2: "z_field (js ''ops'') (refine (bounded 1 DIFF_EVENT_MAX_OPS) (z_array DropDiffOpSchema)) kvs
      = Some (event_ops e)"
    using v by (simp add: kvs look ops_json del: z_array.simps One_nat_def)
  have 3: "z_optional (js ''snapshotId'') nonnegativeSchema kvs = Some (event_snapshotId e)"
    by (rule z_optional_json [where f = j_int, OF _ _ leaf_json(1)]) (simp_all add: kvs look v)
  have 4: "z_optional (js ''metadata'') DropDiffEventMetadataSchema kvs = Some (event_metadata e)"
    by (rule z_optional_json [where f = metadata_json, OF _ _ DropDiffEventMetadataSchema_json])
      (simp_all add: kvs look v)
  show ?thesis
    unfolding DropDiffEventSchema_def obj z_strict.simps
    by (simp only: keys if_True Option.bind.simps 1 2 3 4) simp
qed

subsection \<open>Envelopes\<close>

lemma events_json:
  "bounded 0 n es \<Longrightarrow> list_all valid_event es \<Longrightarrow>
     refine (bounded 0 n) (z_array DropDiffEventSchema) (JArr (map event_json es)) = Some es"
  using z_array_map [of es DropDiffEventSchema event_json "\<lambda>x. x"]
  by (auto simp: refine_def list_all_iff DropDiffEventSchema_json simp del: z_array.simps)

lemma events_valid:
  "yields (refine (bounded 0 n) (z_array DropDiffEventSchema)) (\<lambda>es. bounded 0 n es \<and> list_all valid_event es)"
  by (rule yieldsI) (auto simp: refine_Some_iff list_all_iff dest!: z_array_memD DropDiffEventSchema_valid)

lemma DropDiffEnvelopeSchema_valid:
  assumes "DropDiffEnvelopeSchema v = Some es"
  shows "bounded 0 DIFF_ENVELOPE_MAX_EVENTS es \<and> list_all valid_event es"
proof -
  from assms obtain kvs where "z_field (js ''events'')
      (refine (bounded 0 DIFF_ENVELOPE_MAX_EVENTS) (z_array DropDiffEventSchema)) kvs = Some es"
    by (auto simp: DropDiffEnvelopeSchema_def bind_eq_Some_conv)
  then show ?thesis
    using events_valid [of DIFF_ENVELOPE_MAX_EVENTS] unfolding z_field_Some_iff yields_def by blast
qed

lemma DropDiffEnvelopeSchema_json:
  assumes "bounded 0 DIFF_ENVELOPE_MAX_EVENTS es" "list_all valid_event es"
  shows "DropDiffEnvelopeSchema (envelope_json es) = Some es"
proof -
  have "refine (\<lambda>n. n = 1) z_integer (j_int 1) = Some 1"
    by (simp add: refine_def z_integer_j_int)
  with events_json [OF assms] show ?thesis
    by (simp add: DropDiffEnvelopeSchema_def envelope_json_def z_field_def del: z_array.simps)
qed

lemma DropDiffAppendEnvelopeSchema_valid:
  "DropDiffAppendEnvelopeSchema v = Some es \<Longrightarrow>
     bounded 0 DIFF_ENVELOPE_MAX_EVENTS es \<and> list_all valid_event es \<and> list_all event_integers_safe es"
  using DropDiffEnvelopeSchema_valid by (auto simp: DropDiffAppendEnvelopeSchema_def refine_Some_iff)

lemma DropDiffAppendEnvelopeSchema_json:
  assumes "bounded 0 DIFF_ENVELOPE_MAX_EVENTS es" "list_all valid_event es" "list_all event_integers_safe es"
  shows "DropDiffAppendEnvelopeSchema (envelope_json es) = Some es"
  using assms by (simp add: DropDiffAppendEnvelopeSchema_def refine_def DropDiffEnvelopeSchema_json)

section \<open>Editor diffs survive the record form\<close>

lemma base64_char_in: "n < 64 \<Longrightarrow> base64_char n \<in> set base64_alphabet"
  by (simp add: base64_char_def)

lemma is_base64_text_toBase64: "is_base64_text (toBase64 bs)"
proof -
  let ?ns = "map unat bs"
  have "dropWhile (\<lambda>u. u \<in> set base64_alphabet) (base64_encode ?ns) = base64_padding ?ns"
  proof -
    have "\<forall>u \<in> set (map base64_char (base64_digits ?ns)). u \<in> set base64_alphabet"
      using base64_digits_bound [of ?ns] by (auto intro!: base64_char_in)
    moreover have "dropWhile (\<lambda>u. u \<in> set base64_alphabet) (base64_padding ?ns) = base64_padding ?ns"
      using base64_alphabet_plain by (auto simp: base64_padding_def list_all_iff)
    ultimately show ?thesis unfolding base64_encode_digits by (subst dropWhile_append2) auto
  qed
  moreover have "base64_padding ?ns \<in> {[], [61], [61, 61]}"
  proof -
    have "(3 - length ?ns mod 3) mod 3 \<in> {0, 1, 2}" by auto
    then show ?thesis unfolding base64_padding_def by (auto simp: numeral_2_eq_2)
  qed
  ultimately show ?thesis
    using length_base64_encode_mod [of ?ns] by (simp add: is_base64_text_def toBase64_def)
qed

text \<open>A diff whose record the transport accepts.\<close>

definition transportable :: "Diff \<Rightarrow> bool" where
  "transportable d \<longleftrightarrow> opt_all valid_range (diff_range d) \<and> diff_data d \<noteq> [] \<and>
     length (toBase64 (diff_data d)) \<le> DIFF_NATIVE_DATA_MAX_LENGTH \<and>
     length (decodeText (diff_data d)) \<le> DIFF_TEXT_MAX_LENGTH"

definition with_range :: "Diff \<Rightarrow> Diff" where
  "with_range d = d \<lparr>diff_range := Some (case diff_range d of None \<Rightarrow> \<lparr>range_start = 0, range_end = 0\<rparr>
     | Some r \<Rightarrow> r)\<rparr>"

lemma toBase64_nonempty: "bs \<noteq> [] \<Longrightarrow> toBase64 bs \<noteq> []"
  using fromBase64_toBase64 [of bs] fromBase64_toBase64 [of "[]"]
  by (metis base64_encode.simps(1) list.simps(8) option.inject toBase64_def)

lemma toDiff_record: "dropDiffOpV1ToDiff (diffToDropDiffOpV1 d) = Inr (Some (with_range d))"
  by (simp add: dropDiffOpV1ToDiff_def diffToDropDiffOpV1_def with_range_def Let_def)

lemma valid_op_record: "transportable d \<Longrightarrow> valid_op (diffToDropDiffOpV1 d)"
  using toBase64_nonempty [of "diff_data d"]
  by (auto simp: transportable_def valid_op_def diffToDropDiffOpV1_def Let_def bounded_def op_forms_ok_def
      has_legacy_def valid_native_def base64_ok_def is_base64_text_toBase64 valid_range_def Suc_le_eq
      split: option.splits)

lemma fromRecord_valid:
  "DropDiffOperation_fromRecord v = Inr p \<Longrightarrow> valid_op p \<and> (\<exists>d. DropDiffOperation_toDiff p = Inr d)"
proof -
  assume a: "DropDiffOperation_fromRecord v = Inr p"
  then obtain d where "DropDiffOpSchema v = Some p" "dropDiffOpV1ToDiff p = Inr (Some d)"
    by (auto simp: DropDiffOperation_fromRecord_def and_then_Inr_iff split: option.splits if_splits)
  then show ?thesis by (simp add: DropDiffOperation_toDiff_def DropDiffOpSchema_valid)
qed

lemma fromRecord_json:
  "valid_op p \<Longrightarrow> dropDiffOpV1ToDiff p = Inr (Some d) \<Longrightarrow> DropDiffOperation_fromRecord (op_json p) = Inr p"
  by (simp add: DropDiffOperation_fromRecord_def DropDiffOpSchema_json)

lemma fromRecord_again:
  "DropDiffOperation_fromRecord v = Inr p \<Longrightarrow> DropDiffOperation_fromRecord (op_json p) = Inr p"
  by (auto simp: DropDiffOperation_fromRecord_def DropDiffOpSchema_json result_simps
      dest: DropDiffOpSchema_valid split: option.splits if_splits)

section \<open>Properties\<close>

text \<open>
  Parsing a persisted or transported event is stable. Whatever JSON value the event schema
  accepts, writing the parsed event back as JSON and parsing it again gives the same event (the
  trimming of its tokens included), and the event respects every limit of the schema.
\<close>

theorem event_schema_stable:
  assumes "DropDiffEventSchema v = Some e"
  shows "DropDiffEventSchema (event_json e) = Some e \<and> valid_event e"
  using DropDiffEventSchema_json [OF DropDiffEventSchema_valid [OF assms]]
    DropDiffEventSchema_valid [OF assms] by blast

definition example_event :: DropDiffEvent where
  "example_event = \<lparr>eventId = js ''e1'', event_seq = -1, dropId = js ''d'', sourceClientId = js ''c'',
     event_createdAt = 5, event_snapshotId = None,
     event_ops = [\<lparr>op_type = Some Legacy_Insert, op_start = Some 0, op_end = Some 0,
        op_text = Some (js ''hi''), op_native = None\<rparr>], event_metadata = None\<rparr>"

lemma example_event_valid: "valid_event example_event"
  by (simp add: example_event_def valid_event_def is_token_def bounded_def DIFF_TOKEN_MAX_LENGTH_def
      DIFF_EVENT_MAX_OPS_def DIFF_TEXT_MAX_LENGTH_def valid_op_def op_forms_ok_def has_legacy_def
      is_trimmed_def js_trim_def js_def js_whitespace_def)

theorem event_schema_stable_witness:
  "DropDiffEventSchema (event_json example_event) = Some example_event \<and> valid_event example_event"
  using event_schema_stable [of "event_json example_event" example_event]
    DropDiffEventSchema_json [OF example_event_valid] by blast

text \<open>
  An editor diff survives the transport. Converting a transportable diff (a valid range and a
  non-empty payload within the limits) to a record, reading the record back with full validation
  and converting it to a diff gives the original operation, payload bytes and range (a missing
  range as the default one), whatever bytes the payload has.
\<close>

theorem diff_record_roundtrip:
  assumes "transportable d"
  shows "and_then (DropDiffOperation_fromDiff d)
      (\<lambda>p. and_then (DropDiffOperation_fromRecord (op_json p)) DropDiffOperation_toDiff)
    = Inr (with_range d)"
proof -
  have "DropDiffOperation_fromDiff d = Inr (diffToDropDiffOpV1 d)"
    using assms by (simp add: DropDiffOperation_fromDiff_def transportable_def)
  then show ?thesis
    using fromRecord_json [OF valid_op_record [OF assms] toDiff_record]
    by (simp add: DropDiffOperation_toDiff_def toDiff_record)
qed

definition example_diff :: Diff where
  "example_diff = \<lparr>diff_op = DELETE, diff_data = [104], diff_range = Some \<lparr>range_start = 0, range_end = 1\<rparr>\<rparr>"

lemma example_diff_transportable: "transportable example_diff"
proof -
  have "encodeText [104] = [104]"
    by (simp add: encodeText_def scalar_or_replacement_def is_surrogate_def utf8_bytes_def)
  then have "decodeText [104] = [104]"
    using decode_encode_text_id [of "[104]"] by (simp add: plain_text_survives plain_text_def is_surrogate_def)
  then show ?thesis
    by (simp add: transportable_def example_diff_def valid_range_def toBase64_def
        DIFF_NATIVE_DATA_MAX_LENGTH_def DIFF_TEXT_MAX_LENGTH_def)
qed

theorem diff_record_roundtrip_witness:
  "and_then (DropDiffOperation_fromDiff example_diff)
      (\<lambda>p. and_then (DropDiffOperation_fromRecord (op_json p)) DropDiffOperation_toDiff)
    = Inr (with_range example_diff)"
  by (rule diff_record_roundtrip [OF example_diff_transportable])

end
