(* ===== verification/Branch_State.thy ===== *)
theory Branch_State
  imports Diff_Codec
begin

text \<open>
  The branch-state vocabulary: \<^verbatim>\<open>shared/drop/branch-state.ts\<close> (queries, versions, receipts, the error
  table, the append command), \<^verbatim>\<open>shared/drop/branch.ts\<close> with \<^verbatim>\<open>codecs/branch-v1.ts\<close> (branch and
  snapshot records), \<^verbatim>\<open>shared/drop/branch-identity.ts\<close> and \<^verbatim>\<open>shared/drop/resolved/hash.ts\<close>.

  A record that extends \<^verbatim>\<open>BranchHeadQuery\<close> in the source extends the record \<open>BranchHeadQuery\<close> here.
  What the platform provides and the source only calls is the fields of a \<open>platform\<close>, an argument of
  every definition that needs them: the SHA-256 digest, the printing of numbers, Unicode lower
  casing, locale collation and the rounding of a sum to a double. \<open>platform_ok\<close> states what is
  documented of the first two; the others have their laws where they are used.

  The lemmas show what a captured query satisfies, that cache keys and event identities are
  injective up to the digest, and where the content hash is not.
\<close>

section \<open>Platform\<close>

record platform =
  sha256 :: "byte list \<Rightarrow> byte list"
  number_text :: "rat \<Rightarrow> jstring"
  to_lower_case :: "jstring \<Rightarrow> jstring"
  locale_compare :: "jstring \<Rightarrow> jstring \<Rightarrow> int"
  round_double :: "rat \<Rightarrow> rat"

definition platform_ok :: "platform \<Rightarrow> bool" where
  "platform_ok pf \<longleftrightarrow> number_printer (number_text pf) \<and> (\<forall>bs. length (sha256 pf bs) = 32)"

section \<open>Source hashes\<close>

definition toBase64Url :: "byte list \<Rightarrow> jstring" where
  "toBase64Url bytes =
     rev (dropWhile (\<lambda>u. u = 61) (rev
       (map (\<lambda>u. if u = 43 then 45 else if u = 47 then 95 else u) (toBase64 bytes))))"

definition is_base64url_char :: "code_unit \<Rightarrow> bool" where
  "is_base64url_char u \<longleftrightarrow>
     u \<in> set (js ''ABCDEFGHIJKLMNOPQRSTUVWXYZabcdefghijklmnopqrstuvwxyz0123456789_-'')"

definition isNulldownSourceHash :: "jstring \<Rightarrow> bool" where
  "isNulldownSourceHash s \<longleftrightarrow>
     take 7 s = js ''sha256:'' \<and> length (drop 7 s) = 43 \<and> list_all is_base64url_char (drop 7 s)"

definition hash_preimage :: "jstring \<Rightarrow> byte list" where
  "hash_preimage content = encodeText (js ''nulldown.source-content.v1'' @ [10] @ content)"

definition hashNulldownSourceContent :: "platform \<Rightarrow> jstring \<Rightarrow> jstring" where
  "hashNulldownSourceContent pf content = js ''sha256:'' @ toBase64Url (sha256 pf (hash_preimage content))"

section \<open>Branch and snapshot records\<close>

datatype DropBranchMode = Owner | Clone
datatype DropBranchStatus = Active | Promoted | Archived

record DropBranchRecord =
  br_branchId :: jstring
  br_rootDropId :: jstring
  br_baseDropId :: jstring
  br_mode :: DropBranchMode
  br_status :: DropBranchStatus
  br_ownerAccountId :: "jstring option"
  br_writerAccountId :: "jstring option"
  br_writerClientId :: "jstring option"
  br_headSnapshotId :: int
  br_snapshotHeapVersion :: "int option"
  br_headEventSeq :: "int option"
  br_checkpointInterval :: "int option"
  br_createdAt :: int
  br_updatedAt :: int

record DropSnapshotRecord =
  sn_snapshotId :: int
  sn_rootDropId :: jstring
  sn_branchId :: jstring
  sn_parentSnapshotId :: "int option"
  sn_seq :: int
  sn_eventIds :: "jstring list"
  sn_checkpointed :: bool
  sn_patchStartSeq :: "int option"
  sn_patchEndSeq :: "int option"
  sn_textLength :: int
  sn_sourceContentHash :: "jstring option"
  sn_createdAt :: int

fun mode_text :: "DropBranchMode \<Rightarrow> jstring" where
  "mode_text Owner = js ''owner''"
| "mode_text Clone = js ''clone''"

fun status_text :: "DropBranchStatus \<Rightarrow> jstring" where
  "status_text Active = js ''active''"
| "status_text Promoted = js ''promoted''"
| "status_text Archived = js ''archived''"

definition branch_json :: "DropBranchRecord \<Rightarrow> json" where
  "branch_json b = JObj ([(js ''version'', j_int 1), (js ''branchId'', JStr (br_branchId b)),
     (js ''rootDropId'', JStr (br_rootDropId b)), (js ''baseDropId'', JStr (br_baseDropId b)),
     (js ''mode'', JStr (mode_text (br_mode b))), (js ''status'', JStr (status_text (br_status b))),
     (js ''ownerAccountId'', j_nullable JStr (br_ownerAccountId b)),
     (js ''writerAccountId'', j_nullable JStr (br_writerAccountId b)),
     (js ''writerClientId'', j_nullable JStr (br_writerClientId b)),
     (js ''headSnapshotId'', j_int (br_headSnapshotId b))] @
     opt_entry ''snapshotHeapVersion'' j_int (br_snapshotHeapVersion b) @
     opt_entry ''headEventSeq'' j_int (br_headEventSeq b) @
     opt_entry ''checkpointInterval'' j_int (br_checkpointInterval b) @
     [(js ''createdAt'', j_int (br_createdAt b)), (js ''updatedAt'', j_int (br_updatedAt b))])"

text \<open>The record guards. \<^verbatim>\<open>value.k\<close> is \<open>None\<close> for a missing property.\<close>

definition is_string :: "json option \<Rightarrow> bool" where
  "is_string v \<longleftrightarrow> (case v of Some (JStr s) \<Rightarrow> True | _ \<Rightarrow> False)"

definition is_number :: "json option \<Rightarrow> bool" where
  "is_number v \<longleftrightarrow> (case v of Some (JNum r) \<Rightarrow> True | _ \<Rightarrow> False)"

definition is_nullable_string :: "json option \<Rightarrow> bool" where
  "is_nullable_string v \<longleftrightarrow> v = Some JNull \<or> is_string v"

definition isDropBranchRecordV1 :: "json \<Rightarrow> bool" where
  "isDropBranchRecordV1 value = (case value of
     JObj kvs \<Rightarrow>
       (let get = (\<lambda>k. map_of kvs (js k)) in
        get ''version'' = Some (JNum 1) \<and>
        is_string (get ''branchId'') \<and> is_string (get ''rootDropId'') \<and> is_string (get ''baseDropId'') \<and>
        (get ''mode'' = Some (JStr (js ''owner'')) \<or> get ''mode'' = Some (JStr (js ''clone''))) \<and>
        (get ''status'' = Some (JStr (js ''active'')) \<or> get ''status'' = Some (JStr (js ''promoted'')) \<or>
         get ''status'' = Some (JStr (js ''archived''))) \<and>
        is_nullable_string (get ''ownerAccountId'') \<and> is_nullable_string (get ''writerAccountId'') \<and>
        is_nullable_string (get ''writerClientId'') \<and>
        is_number (get ''headSnapshotId'') \<and>
        (get ''snapshotHeapVersion'' = None \<or> is_number (get ''snapshotHeapVersion'')) \<and>
        (get ''headEventSeq'' = None \<or> get ''headEventSeq'' = Some JNull \<or> is_number (get ''headEventSeq'')) \<and>
        (get ''checkpointInterval'' = None \<or> is_number (get ''checkpointInterval'')) \<and>
        is_number (get ''createdAt'') \<and> is_number (get ''updatedAt''))
   | _ \<Rightarrow> False)"

definition isDropSnapshotRecordV1 :: "json \<Rightarrow> bool" where
  "isDropSnapshotRecordV1 value = (case value of
     JObj kvs \<Rightarrow>
       (let get = (\<lambda>k. map_of kvs (js k)) in
        get ''version'' = Some (JNum 1) \<and> is_number (get ''snapshotId'') \<and>
        is_string (get ''rootDropId'') \<and> is_string (get ''branchId'') \<and>
        (get ''parentSnapshotId'' = Some JNull \<or> is_number (get ''parentSnapshotId'')) \<and>
        is_number (get ''seq'') \<and>
        (case get ''eventIds'' of Some (JArr es) \<Rightarrow> list_all (\<lambda>e. is_string (Some e)) es | _ \<Rightarrow> False) \<and>
        (case get ''checkpointed'' of Some (JBool b) \<Rightarrow> True | _ \<Rightarrow> False) \<and>
        (get ''patchStartSeq'' = None \<or> get ''patchStartSeq'' = Some JNull \<or> is_number (get ''patchStartSeq'')) \<and>
        (get ''patchEndSeq'' = None \<or> get ''patchEndSeq'' = Some JNull \<or> is_number (get ''patchEndSeq'')) \<and>
        (get ''checkpointKey'' = None \<or> is_string (get ''checkpointKey'')) \<and>
        (case get ''sourceContentHash'' of
           None \<Rightarrow> True | Some (JStr h) \<Rightarrow> isNulldownSourceHash h | Some _ \<Rightarrow> False) \<and>
        is_number (get ''textLength'') \<and> is_number (get ''createdAt''))
   | _ \<Rightarrow> False)"

definition MAX_BRANCH_ID_LENGTH :: nat where "MAX_BRANCH_ID_LENGTH = 134"

definition is_branch_id_char :: "code_unit \<Rightarrow> bool" where
  "is_branch_id_char u \<longleftrightarrow>
     u \<in> set (js ''ABCDEFGHIJKLMNOPQRSTUVWXYZabcdefghijklmnopqrstuvwxyz0123456789._:-'')"

definition sanitizeBranchId :: "json \<Rightarrow> jstring option" where
  "sanitizeBranchId value = (case value of
     JStr s \<Rightarrow>
       (let i = js_trim s
        in if length i \<le> MAX_BRANCH_ID_LENGTH \<and> i \<noteq> [] \<and> list_all is_branch_id_char i then Some i else None)
   | _ \<Rightarrow> None)"

section \<open>Queries, versions and receipts\<close>

record BranchStateTarget =
  rootDropId :: jstring
  branchId :: jstring

record BranchStatePlacement =
  routingVersion :: int
  generation :: int

record BranchStateVersion =
  snapshotId :: int
  eventSeq :: int
  sourceContentHash :: jstring

record BranchHeadQuery =
  target :: BranchStateTarget
  placement :: BranchStatePlacement

record BranchContentQuery = BranchHeadQuery +
  cq_version :: BranchStateVersion

record BranchEventRangeQuery = BranchContentQuery +
  startSeq :: int
  endSeq :: int

record BranchAppendRecord = BranchHeadQuery +
  expected :: BranchStateVersion
  event :: DropDiffEvent
  payloadHash :: jstring

record BranchCommitReceipt = BranchHeadQuery +
  rc_eventId :: jstring
  rc_payloadHash :: jstring
  rc_eventSeq :: "int option"
  rc_version :: BranchStateVersion

record BranchBatchAppendRecord = BranchHeadQuery +
  events :: "DropDiffEvent list"

record BranchStateHead = BranchHeadQuery +
  hd_branch :: DropBranchRecord
  hd_version :: BranchStateVersion

record BranchStateContent = BranchContentQuery +
  content :: jstring

datatype ack_status = Accepted | Duplicate

record BranchAppendOutcome =
  ao_status :: ack_status
  ao_receipt :: BranchCommitReceipt

record DropDiffEventAcknowledgement =
  ack_eventId :: jstring
  ack_seq :: int
  ack_snapshotId :: int
  ack_status :: ack_status

record BranchCommitOutboxRecord =
  co_id :: jstring
  co_receipt :: BranchCommitReceipt

record BranchBatchCommitOutboxRecord = BranchContentQuery +
  bo_id :: jstring
  bo_parentSnapshotId :: int
  bo_eventIds :: "jstring list"
  bo_receipts :: "BranchCommitReceipt list"
  bo_deduplicated :: int
  bo_totalStored :: int

record BranchPreparedCommit =
  pc_branch :: DropBranchRecord
  pc_snapshot :: DropSnapshotRecord
  pc_event :: DropDiffEvent
  pc_content :: jstring
  pc_receipt :: BranchCommitReceipt
  pc_outbox :: BranchCommitOutboxRecord

section \<open>Errors\<close>

datatype BranchStateError =
    Forbidden | Branch_Not_Active | Source_Hash_Required | Stale_Source | Idempotency_Key_Reused
  | Runtime_Fact_Sequence_Exhausted | Invalid_Command | Branch_Not_Found | Snapshot_Not_Found
  | Branch_Initialization_Pending | Branch_Initialization_Conflict | Routing_Placement_Mismatch
  | Routing_Generation_Mismatch | Routing_Version_Unsupported | Diff_Predecessor_Mismatch
  | Diff_Event_Id_Reused | Snapshot_Version_Mismatch | Diff_Sequence_Exhausted | State_Corrupt
  | Capability_Unsupported | State_Unavailable

datatype error_outcome = Not_Committed | Outcome_Unknown
datatype error_retry = Never | Refresh | Same_Command

fun BRANCH_STATE_ERRORS :: "BranchStateError \<Rightarrow> int \<times> error_outcome \<times> error_retry" where
  "BRANCH_STATE_ERRORS Forbidden = (403, Not_Committed, Never)"
| "BRANCH_STATE_ERRORS Branch_Not_Active = (409, Not_Committed, Never)"
| "BRANCH_STATE_ERRORS Source_Hash_Required = (400, Not_Committed, Never)"
| "BRANCH_STATE_ERRORS Stale_Source = (409, Not_Committed, Refresh)"
| "BRANCH_STATE_ERRORS Idempotency_Key_Reused = (409, Not_Committed, Never)"
| "BRANCH_STATE_ERRORS Runtime_Fact_Sequence_Exhausted = (409, Not_Committed, Never)"
| "BRANCH_STATE_ERRORS Invalid_Command = (400, Not_Committed, Never)"
| "BRANCH_STATE_ERRORS Branch_Not_Found = (404, Not_Committed, Never)"
| "BRANCH_STATE_ERRORS Snapshot_Not_Found = (404, Not_Committed, Never)"
| "BRANCH_STATE_ERRORS Branch_Initialization_Pending = (409, Not_Committed, Refresh)"
| "BRANCH_STATE_ERRORS Branch_Initialization_Conflict = (409, Not_Committed, Never)"
| "BRANCH_STATE_ERRORS Routing_Placement_Mismatch = (409, Not_Committed, Refresh)"
| "BRANCH_STATE_ERRORS Routing_Generation_Mismatch = (409, Not_Committed, Refresh)"
| "BRANCH_STATE_ERRORS Routing_Version_Unsupported = (409, Not_Committed, Never)"
| "BRANCH_STATE_ERRORS Diff_Predecessor_Mismatch = (409, Not_Committed, Refresh)"
| "BRANCH_STATE_ERRORS Diff_Event_Id_Reused = (409, Not_Committed, Never)"
| "BRANCH_STATE_ERRORS Snapshot_Version_Mismatch = (409, Not_Committed, Refresh)"
| "BRANCH_STATE_ERRORS Diff_Sequence_Exhausted = (409, Not_Committed, Never)"
| "BRANCH_STATE_ERRORS State_Corrupt = (500, Outcome_Unknown, Never)"
| "BRANCH_STATE_ERRORS Capability_Unsupported = (501, Not_Committed, Never)"
| "BRANCH_STATE_ERRORS State_Unavailable = (503, Outcome_Unknown, Same_Command)"

type_synonym 'a branch_result = "BranchStateError + 'a"

definition requireBranchCommitCapability :: "jstring \<Rightarrow> unit branch_result" where
  "requireBranchCommitCapability capability =
     require_that (capability \<in> set [js ''append'', js ''head'', js ''content'', js ''event-range''])
       Capability_Unsupported"

section \<open>Captured queries\<close>

definition valid_token :: "nat \<Rightarrow> jstring \<Rightarrow> bool" where
  "valid_token n s \<longleftrightarrow> bounded 1 n s \<and> is_trimmed s"

definition valid_target :: "BranchStateTarget \<Rightarrow> bool" where
  "valid_target t \<longleftrightarrow> valid_token 120 (rootDropId t) \<and> valid_token MAX_BRANCH_ID_LENGTH (branchId t)"

definition valid_placement :: "BranchStatePlacement \<Rightarrow> bool" where
  "valid_placement p \<longleftrightarrow> is_safe_integer (routingVersion p) \<and> 1 \<le> routingVersion p \<and>
     is_safe_integer (generation p) \<and> 0 \<le> generation p"

definition valid_version :: "BranchStateVersion \<Rightarrow> bool" where
  "valid_version v \<longleftrightarrow> is_safe_integer (snapshotId v) \<and> 0 \<le> snapshotId v \<and>
     is_safe_integer (eventSeq v) \<and> - 1 \<le> eventSeq v \<and> isNulldownSourceHash (sourceContentHash v)"

definition query_of :: "'a BranchHeadQuery_scheme \<Rightarrow> BranchHeadQuery" where
  "query_of q = \<lparr>target = target q, placement = placement q\<rparr>"

definition BranchStateQuery_head :: "'a BranchHeadQuery_scheme \<Rightarrow> BranchHeadQuery branch_result" where
  "BranchStateQuery_head q =
     (if valid_target (target q) \<and> valid_placement (placement q) then Inr (query_of q) else Inl Invalid_Command)"

definition BranchStateQuery_content :: "BranchContentQuery \<Rightarrow> BranchContentQuery branch_result" where
  "BranchStateQuery_content q =
     (if valid_target (target q) \<and> valid_placement (placement q) \<and> valid_version (cq_version q)
      then Inr q else Inl Invalid_Command)"

definition BranchStateQuery_range :: "BranchEventRangeQuery \<Rightarrow> BranchEventRangeQuery branch_result" where
  "BranchStateQuery_range q =
     (if valid_target (target q) \<and> valid_placement (placement q) \<and> valid_version (cq_version q) \<and>
         is_safe_integer (startSeq q) \<and> 0 \<le> startSeq q \<and> is_safe_integer (endSeq q) \<and> 0 \<le> endSeq q \<and>
         startSeq q \<le> endSeq q \<and> endSeq q - startSeq q < 200 \<and> endSeq q \<le> eventSeq (cq_version q)
      then Inr q else Inl Invalid_Command)"

definition target_json :: "BranchStateTarget \<Rightarrow> json" where
  "target_json t = JObj [(js ''rootDropId'', JStr (rootDropId t)), (js ''branchId'', JStr (branchId t))]"

definition placement_json :: "BranchStatePlacement \<Rightarrow> json" where
  "placement_json p = JObj [(js ''routingVersion'', j_int (routingVersion p)),
     (js ''generation'', j_int (generation p))]"

definition version_json :: "BranchStateVersion \<Rightarrow> json" where
  "version_json v = JObj [(js ''snapshotId'', j_int (snapshotId v)), (js ''eventSeq'', j_int (eventSeq v)),
     (js ''sourceContentHash'', JStr (sourceContentHash v))]"

datatype branch_query =
    Head_Query BranchHeadQuery
  | Content_Query BranchContentQuery
  | Events_Query BranchEventRangeQuery

fun query_json :: "branch_query \<Rightarrow> json" where
  "query_json (Head_Query q) = JObj [(js ''target'', target_json (target q)),
     (js ''placement'', placement_json (placement q))]"
| "query_json (Content_Query q) = JObj [(js ''target'', target_json (target q)),
     (js ''placement'', placement_json (placement q)), (js ''version'', version_json (cq_version q))]"
| "query_json (Events_Query q) = JObj [(js ''target'', target_json (target q)),
     (js ''placement'', placement_json (placement q)), (js ''version'', version_json (cq_version q)),
     (js ''startSeq'', j_int (startSeq q)), (js ''endSeq'', j_int (endSeq q))]"

fun capture_query :: "branch_query \<Rightarrow> branch_query branch_result" where
  "capture_query (Head_Query q) = and_then (BranchStateQuery_head q) (\<lambda>r. Inr (Head_Query r))"
| "capture_query (Content_Query q) = and_then (BranchStateQuery_content q) (\<lambda>r. Inr (Content_Query r))"
| "capture_query (Events_Query q) = and_then (BranchStateQuery_range q) (\<lambda>r. Inr (Events_Query r))"

fun query_kind :: "branch_query \<Rightarrow> jstring" where
  "query_kind (Head_Query q) = js ''head''"
| "query_kind (Content_Query q) = js ''content''"
| "query_kind (Events_Query q) = js ''events''"

definition BranchStateQuery_key :: "platform \<Rightarrow> branch_query \<Rightarrow> jstring branch_result" where
  "BranchStateQuery_key pf input = and_then (capture_query input) (\<lambda>query.
     Inr (serializeCanonicalJson (number_text pf)
       (JObj [(js ''kind'', JStr (query_kind query)), (js ''query'', query_json query)])))"

section \<open>The append command\<close>

text \<open>The identity of an event: everything but the sequence and snapshot the server assigns.\<close>

definition identity_json :: "DropDiffEvent \<Rightarrow> json" where
  "identity_json e = JObj ([(js ''eventId'', JStr (eventId e)), (js ''dropId'', JStr (dropId e)),
     (js ''sourceClientId'', JStr (sourceClientId e)), (js ''createdAt'', j_int (event_createdAt e)),
     (js ''ops'', JArr (map op_json (event_ops e)))] @
     opt_entry ''metadata'' metadata_json (event_metadata e))"

definition event_identity_text :: "platform \<Rightarrow> DropDiffEvent \<Rightarrow> jstring" where
  "event_identity_text pf e =
     js ''nulldown.branch-event.v1'' @ [10] @ serializeCanonicalJson (number_text pf) (identity_json e)"

definition event_payload_hash :: "platform \<Rightarrow> DropDiffEvent \<Rightarrow> jstring" where
  "event_payload_hash pf e = hashNulldownSourceContent pf (event_identity_text pf e)"

text \<open>Rich operation validation of every operation of an event; any exception is an invalid command.\<close>

definition captured_ops :: "DropDiffOp list \<Rightarrow> DropDiffOp list branch_result" where
  "captured_ops ps = map_result (\<lambda>p. case DropDiffOperation_fromRecord (op_json p) of
     Inl _ \<Rightarrow> Inl Invalid_Command | Inr r \<Rightarrow> Inr r) ps"

definition BranchAppendCommand_create :: "platform \<Rightarrow> BranchAppendRecord \<Rightarrow> BranchAppendRecord branch_result" where
  "BranchAppendCommand_create pf input =
     and_then (BranchStateQuery_head input) (\<lambda>query.
     if \<not> valid_version (expected input) then Inl Invalid_Command
     else case DropDiffAppendEnvelopeSchema (envelope_json [event input]) of
       Some [parsed] \<Rightarrow>
         if dropId parsed \<noteq> rootDropId (target query) \<or>
            Option.bind (event_metadata parsed) meta_followsSeq \<noteq> Some (eventSeq (expected input))
         then Inl Invalid_Command
         else and_then (captured_ops (event_ops parsed)) (\<lambda>ops.
           let ev = parsed \<lparr>event_ops := ops, event_seq := - 1, event_snapshotId := None\<rparr>
           in Inr \<lparr>target = target query, placement = placement query, expected = expected input,
                   event = ev, payloadHash = event_payload_hash pf ev\<rparr>)
     | _ \<Rightarrow> Inl Invalid_Command)"

definition BranchAppendCommand_fromRecord :: "platform \<Rightarrow> BranchAppendRecord \<Rightarrow> BranchAppendRecord branch_result" where
  "BranchAppendCommand_fromRecord pf input =
     and_then (BranchAppendCommand_create pf input) (\<lambda>command.
       if payloadHash command \<noteq> payloadHash input then Inl Invalid_Command else Inr command)"

definition sameBranchStateVersion :: "BranchStateVersion \<Rightarrow> BranchStateVersion \<Rightarrow> bool" where
  "sameBranchStateVersion a b \<longleftrightarrow>
     snapshotId a = snapshotId b \<and> eventSeq a = eventSeq b \<and> sourceContentHash a = sourceContentHash b"

section \<open>The shape of a source hash\<close>

definition url_digit :: "nat \<Rightarrow> code_unit" where
  "url_digit d = (let u = base64_char d in if u = 43 then 45 else if u = 47 then 95 else u)"

lemma length_digits_of_bytes: "length (base64_digits bs) = (4 * length bs + 2) div 3"
proof (induction bs rule: base64_digits.induct)
  case (4 a b c r)
  have "(4 * (n + 3) + 2) div 3 = (4 * n + 2) div 3 + 4" for n :: nat by presburger
  moreover have "length (a # b # c # r) = length r + 3"
    "length (base64_digits (a # b # c # r)) = length (base64_digits r) + 4" by simp_all
  ultimately show ?case using 4 by metis
qed simp_all

lemma js_append: "js (a @ b) = js a @ js b"
  by (simp add: js_def)

lemma url_alphabet:
  assumes "u \<in> set base64_alphabet"
  shows "is_base64url_char (if u = 43 then 45 else if u = 47 then 95 else u)"
proof -
  let ?alnum = "''ABCDEFGHIJKLMNOPQRSTUVWXYZabcdefghijklmnopqrstuvwxyz0123456789''"
  have "base64_alphabet = js (?alnum @ ''+/'')" by (simp add: base64_alphabet_def)
  then have b: "base64_alphabet = js ?alnum @ [43, 47]" unfolding js_append by (simp add: js_def)
  have "is_base64url_char c \<longleftrightarrow> c \<in> set (js (?alnum @ ''_-''))" for c
    unfolding is_base64url_char_def by simp
  then have "is_base64url_char c \<longleftrightarrow> c \<in> set (js ?alnum) \<or> c = 95 \<or> c = 45" for c
    unfolding js_append by (auto simp: js_def)
  then show ?thesis using assms unfolding b by auto
qed

lemma url_digit_char: "d < 64 \<Longrightarrow> is_base64url_char (url_digit d) \<and> url_digit d \<noteq> 61"
  using url_alphabet [OF base64_char_in [of d]] base64_char_plain [of d]
  by (auto simp: url_digit_def Let_def)

lemma base64_char_not_url: "d < 64 \<Longrightarrow> base64_char d \<noteq> 45 \<and> base64_char d \<noteq> 95"
proof -
  have "list_all (\<lambda>u. u \<noteq> 45 \<and> u \<noteq> (95 :: code_unit)) base64_alphabet"
    by code_simp
  then show "d < 64 \<Longrightarrow> base64_char d \<noteq> 45 \<and> base64_char d \<noteq> 95"
    using base64_char_in [of d] by (auto simp: list_all_iff)
qed

lemma base64_char_inj: "d < 64 \<Longrightarrow> e < 64 \<Longrightarrow> base64_char d = base64_char e \<longleftrightarrow> d = e"
  using base64_value_char by (metis option.inject)

lemma url_digit_inj: "d < 64 \<Longrightarrow> e < 64 \<Longrightarrow> url_digit d = url_digit e \<longleftrightarrow> d = e"
  using base64_char_not_url [of d] base64_char_not_url [of e] base64_char_inj [of d e]
  by (auto simp: url_digit_def Let_def split: if_splits)

lemma toBase64Url_digits: "toBase64Url bs = map url_digit (base64_digits (map unat bs))"
proof -
  let ?d = "base64_digits (map unat bs)" and ?p = "base64_padding (map unat bs)"
  have b: "\<forall>d \<in> set ?d. d < 64" using base64_digits_bound [of "map unat bs"] by auto
  have m: "map (\<lambda>u. if u = 43 then 45 else if u = 47 then 95 else u) (toBase64 bs) = map url_digit ?d @ ?p"
    by (simp add: toBase64_def base64_encode_digits base64_padding_def url_digit_def Let_def)
  have "dropWhile (\<lambda>u. u = 61) (rev ?p @ rev (map url_digit ?d)) = rev (map url_digit ?d)"
  proof -
    have "dropWhile (\<lambda>u. u = 61) (rev (map url_digit ?d)) = rev (map url_digit ?d)"
    proof (rule dropWhile_prefix_id)
      fix x xs assume "rev (map url_digit ?d) = x # xs"
      then have "x \<in> set (map url_digit ?d)" by (metis list.set_intros(1) set_rev)
      then show "\<not> x = 61" using b url_digit_char by auto
    qed
    then show ?thesis by (subst dropWhile_append2) (auto simp: base64_padding_def)
  qed
  then show ?thesis by (simp add: toBase64Url_def m)
qed

lemma toBase64Url_inj: "toBase64Url bs = toBase64Url cs \<longleftrightarrow> bs = cs"
proof
  let ?d = "\<lambda>xs. base64_digits (map unat (xs :: byte list))"
  have b: "\<forall>d \<in> set (?d xs). d < 64" for xs :: "byte list"
    using base64_digits_bound [of "map unat xs"] by auto
  have g: "base64_groups (?d xs) = map unat xs" for xs :: "byte list"
    by (rule base64_groups_digits) auto
  assume "toBase64Url bs = toBase64Url cs"
  then have m: "map url_digit (?d bs) = map url_digit (?d cs)" by (simp add: toBase64Url_digits)
  have "?d bs = ?d cs"
    by (rule map_inj_on [OF m]) (use b url_digit_inj in \<open>auto simp: inj_on_def\<close>)
  then have "map unat bs = map unat cs" using g by metis
  then show "bs = cs" by (simp add: inj_map_eq_map word_unat_eq_iff inj_def)
qed simp

lemma hash_is_source_hash:
  assumes "length (sha256 pf (hash_preimage c)) = 32"
  shows "isNulldownSourceHash (hashNulldownSourceContent pf c)"
proof -
  let ?bs = "sha256 pf (hash_preimage c)"
  have "list_all is_base64url_char (toBase64Url ?bs)"
    using base64_digits_bound [of "map unat ?bs"] url_digit_char by (auto simp: toBase64Url_digits list_all_iff)
  moreover have "length (toBase64Url ?bs) = 43"
    using assms by (simp add: toBase64Url_digits length_digits_of_bytes)
  moreover have "length (js ''sha256:'') = 7" by simp
  ultimately show ?thesis
    unfolding isNulldownSourceHash_def hashNulldownSourceContent_def by simp
qed

section \<open>Text under the digest\<close>

lemma well_formed_append: "well_formed a \<Longrightarrow> well_formed b \<Longrightarrow> well_formed (a @ b)"
proof (induction a rule: well_formed.induct)
  case (2 u)
  then show ?case by (cases b) (auto simp: is_surrogate_def is_high_surrogate_def)
qed (auto split: if_splits)

lemma well_formed_plain: "list_all (\<lambda>u. \<not> is_surrogate u) s \<Longrightarrow> well_formed s"
  by (induction s rule: well_formed.induct) (auto simp: is_surrogate_def is_high_surrogate_def)

lemma quote_unit_plain: "\<not> is_surrogate v" if "v \<in> set (quote_unit u)"
proof -
  have h: "\<not> is_surrogate (hex_digit n)" if "n < 16" for n
    using that by (auto simp: hex_digit_def is_surrogate_def unat_word_of_nat_16 simp del: of_nat_add)
  have "unat u div 4096 < 16" using unat_code_unit_less [of u] by linarith
  with h have "\<forall>c \<in> set (hex4 u). \<not> is_surrogate c" by (auto simp: hex4_def)
  with that show ?thesis by (auto simp: quote_unit_def is_surrogate_def split: if_splits)
qed

lemma well_formed_quote_body: "well_formed (quote_body s)"
proof (induction s rule: quote_body.induct)
  case (2 u)
  then show ?case by (auto simp: list_all_iff quote_unit_plain intro!: well_formed_plain)
next
  case (3 u v us)
  have "well_formed (quote_unit u)" by (auto simp: list_all_iff quote_unit_plain intro!: well_formed_plain)
  with 3 show ?case by (auto intro!: well_formed_append)
qed simp

lemma well_formed_Cons: "\<not> is_surrogate u \<Longrightarrow> well_formed s \<Longrightarrow> well_formed (u # s)"
  using well_formed_append [of "[u]" s] by simp

lemma ascii_not_surrogate: "unat u < 128 \<Longrightarrow> \<not> is_surrogate u"
  by (simp add: is_surrogate_def)

lemma well_formed_quote_json: "well_formed (quote_json s)"
  unfolding quote_json_def
  by (intro well_formed_Cons well_formed_append well_formed_quote_body) (simp_all add: is_surrogate_def)

lemma well_formed_join: "\<forall>t \<in> set ts. well_formed t \<Longrightarrow> well_formed (join_comma ts)"
proof (induction ts rule: join_comma.induct)
  case (3 s t ts)
  then show ?case by (auto simp: is_surrogate_def intro!: well_formed_append well_formed_Cons)
qed simp_all

lemma well_formed_js: "well_formed (js t)"
proof (rule well_formed_plain)
  have "\<not> is_surrogate (word_of_nat (of_char c))" for c :: char
  proof -
    have l: "(of_char c :: nat) < 256" by (rule nat_of_char_less_256)
    then have "unat (word_of_nat (of_char c) :: code_unit) = of_char c"
      by (intro unat_word_of_nat_16) linarith
    with l show ?thesis unfolding is_surrogate_def by linarith
  qed
  then show "list_all (\<lambda>u. \<not> is_surrogate u) (js t)" by (auto simp: js_def list_all_iff)
qed

lemma scalars_plain_Cons: "\<not> is_surrogate u \<Longrightarrow> scalars (u # r) = unat u # scalars r"
  by (cases r) (auto simp: scalar_or_replacement_def is_surrogate_def is_high_surrogate_def)

lemma scalars_js: "scalars (js t @ r) = map unat (js t) @ scalars r"
proof (induction t)
  case (Cons c t)
  have "\<not> is_surrogate (word_of_nat (of_char c))"
    using well_formed_js [of "[c]"] by (simp add: js_def)
  then show ?case using Cons by (simp add: js_def scalars_plain_Cons)
qed simp

lemma well_formed_stringify:
  assumes "number_printer num"
  shows "well_formed (stringify num v)"
proof (induction v)
  case (JNum r)
  have "list_all is_number_char (num r)" using assms by (simp add: number_printer_def)
  moreover have "is_number_char u \<Longrightarrow> \<not> is_surrogate u" for u
    by (auto simp: is_number_char_def is_surrogate_def word_le_nat_alt)
  ultimately show ?case by (auto simp: list_all_iff intro!: well_formed_plain)
next
  case (JArr vs)
  then have "well_formed (join_comma (map (stringify num) vs))" by (intro well_formed_join) auto
  then show ?case by (auto simp: is_surrogate_def intro!: well_formed_append well_formed_Cons)
next
  case (JObj kvs)
  have "\<forall>t \<in> set (map (\<lambda>(k, v). quote_json k @ 58 # stringify num v) kvs). well_formed t"
    using JObj by (force simp: is_surrogate_def intro!: well_formed_append well_formed_Cons well_formed_quote_json)
  then have "well_formed (join_comma (map (\<lambda>(k, v). quote_json k @ 58 # stringify num v) kvs))"
    by (rule well_formed_join)
  then show ?case by (auto simp: is_surrogate_def intro!: well_formed_append well_formed_Cons)
qed (auto simp: well_formed_js well_formed_quote_json)

lemma hash_preimage_inj:
  assumes "well_formed a" "well_formed b"
  shows "hash_preimage a = hash_preimage b \<longleftrightarrow> a = b"
proof -
  have s: "text_survives (js ''nulldown.source-content.v1'' @ [10] @ c)" if "well_formed c" for c
  proof -
    have "well_formed (js ''nulldown.source-content.v1'' @ [10] @ c)"
      using that by (intro well_formed_append well_formed_js) (auto simp: is_surrogate_def intro!: well_formed_Cons)
    then show ?thesis by (simp add: text_survives_def starts_with_bom_def js_def)
  qed
  show ?thesis
    unfolding hash_preimage_def
    using decode_encode_text_id [OF s [OF assms(1)]] decode_encode_text_id [OF s [OF assms(2)]]
    by (metis append_same_eq same_append_eq)
qed

lemma hash_eq_iff: "hashNulldownSourceContent pf a = hashNulldownSourceContent pf b \<longleftrightarrow>
    sha256 pf (hash_preimage a) = sha256 pf (hash_preimage b)"
  by (simp add: hashNulldownSourceContent_def toBase64Url_inj)

lemma well_formed_identity:
  "number_printer (number_text pf) \<Longrightarrow> well_formed (event_identity_text pf e)"
  unfolding event_identity_text_def serializeCanonicalJson_def
  by (intro well_formed_append well_formed_js well_formed_stringify) (simp_all add: is_surrogate_def)

section \<open>Captured commands\<close>

lemma query_of_simps [simp]: "target (query_of q) = target q" "placement (query_of q) = placement q"
  by (simp_all add: query_of_def)

lemma head_Inr_iff [result_simps]:
  "BranchStateQuery_head q = Inr r \<longleftrightarrow> valid_target (target q) \<and> valid_placement (placement q) \<and> r = query_of q"
  by (auto simp: BranchStateQuery_head_def)

lemma same_version_iff [simp]: "sameBranchStateVersion a b \<longleftrightarrow> a = (b :: BranchStateVersion)"
  by (cases a; cases b) (simp add: sameBranchStateVersion_def)

definition decodable :: "DropDiffOp \<Rightarrow> bool" where
  "decodable p \<longleftrightarrow> DropDiffOperation_fromRecord (op_json p) = Inr p"

lemma decodableI: "DropDiffOperation_fromRecord v = Inr p \<Longrightarrow> decodable p"
  by (simp add: decodable_def fromRecord_again)

lemma captured_ops_Inr: "captured_ops ps = Inr qs \<Longrightarrow> list_all valid_op ps \<Longrightarrow> qs = ps \<and> list_all decodable ps"
  unfolding captured_ops_def map_result_Inr_iff
proof (induction ps qs rule: list_all2_induct)
  case (Cons p ps q qs)
  then have "DropDiffOperation_fromRecord (op_json p) = Inr q" by (auto split: sum.splits)
  moreover have "DropDiffOpSchema (op_json p) = Some p" using Cons.prems by (simp add: DropDiffOpSchema_json)
  ultimately have "q = p" by (auto simp: DropDiffOperation_fromRecord_def and_then_Inr_iff split: if_splits)
  with Cons \<open>DropDiffOperation_fromRecord (op_json p) = Inr q\<close> show ?case by (simp add: decodable_def)
qed simp

lemma captured_ops_decodable: "list_all decodable ps \<Longrightarrow> captured_ops ps = Inr ps"
  unfolding captured_ops_def decodable_def by (induction ps) auto

text \<open>What a captured event satisfies.\<close>

definition captured_event :: "DropDiffEvent \<Rightarrow> bool" where
  "captured_event e \<longleftrightarrow> valid_event e \<and> event_integers_safe e \<and> event_seq e = - 1 \<and>
     event_snapshotId e = None \<and> list_all decodable (event_ops e)"

definition captured_command :: "platform \<Rightarrow> BranchAppendRecord \<Rightarrow> bool" where
  "captured_command pf c \<longleftrightarrow> valid_target (target c) \<and> valid_placement (placement c) \<and>
     valid_version (expected c) \<and> captured_event (event c) \<and> dropId (event c) = rootDropId (target c) \<and>
     Option.bind (event_metadata (event c)) meta_followsSeq = Some (eventSeq (expected c)) \<and>
     payloadHash c = event_payload_hash pf (event c)"

lemma captured_eventI:
  assumes "valid_event p" "event_integers_safe p" "captured_ops (event_ops p) = Inr ops"
  shows "captured_event (p \<lparr>event_ops := ops, event_seq := - 1, event_snapshotId := None\<rparr>)"
proof -
  have "ops = event_ops p \<and> list_all decodable (event_ops p)"
    using captured_ops_Inr [OF assms(3)] assms(1) by (simp add: valid_event_def)
  then show ?thesis
    using assms(1,2)
    by (simp add: captured_event_def valid_event_def event_integers_safe_def is_safe_integer_def max_safe_integer_def)
qed

lemma create_captured:
  assumes "BranchAppendCommand_create pf i = Inr c"
  shows "captured_command pf c"
proof -
  from assms obtain p ops where
    q: "valid_target (target i)" "valid_placement (placement i)" "valid_version (expected i)"
    and s: "DropDiffAppendEnvelopeSchema (envelope_json [event i]) = Some [p]"
    and d: "dropId p = rootDropId (target i)"
      "Option.bind (event_metadata p) meta_followsSeq = Some (eventSeq (expected i))"
    and o: "captured_ops (event_ops p) = Inr ops"
    and c: "c = \<lparr>target = target i, placement = placement i, expected = expected i,
       event = p \<lparr>event_ops := ops, event_seq := - 1, event_snapshotId := None\<rparr>,
       payloadHash = event_payload_hash pf (p \<lparr>event_ops := ops, event_seq := - 1, event_snapshotId := None\<rparr>)\<rparr>"
    unfolding BranchAppendCommand_create_def and_then_Inr_iff head_Inr_iff
    by (auto simp: Let_def and_then_Inr_iff split: if_splits option.splits list.splits)
  from DropDiffAppendEnvelopeSchema_valid [OF s] have "valid_event p" "event_integers_safe p" by simp_all
  from captured_eventI [OF this o] q d show ?thesis by (simp add: captured_command_def c)
qed

lemma captured_event_fixed:
  "captured_event e \<Longrightarrow> e \<lparr>event_ops := event_ops e, event_seq := - 1, event_snapshotId := None\<rparr> = e"
  by (cases e) (simp add: captured_event_def)

lemma create_fixed:
  assumes "captured_command pf c"
  shows "BranchAppendCommand_create pf c = Inr c"
proof -
  note c = assms [unfolded captured_command_def]
  have e: "captured_event (event c)" using c by simp
  have "DropDiffAppendEnvelopeSchema (envelope_json [event c]) = Some [event c]"
    using e by (intro DropDiffAppendEnvelopeSchema_json)
      (simp_all add: captured_event_def bounded_def DIFF_ENVELOPE_MAX_EVENTS_def)
  moreover have "captured_ops (event_ops (event c)) = Inr (event_ops (event c))"
    using e by (simp add: captured_event_def captured_ops_decodable)
  ultimately show ?thesis
    using c captured_event_fixed [OF e] unfolding BranchAppendCommand_create_def
    by (simp add: BranchStateQuery_head_def Let_def)
qed

lemma fromRecord_Inr_iff:
  "BranchAppendCommand_fromRecord pf i = Inr c \<longleftrightarrow>
     BranchAppendCommand_create pf i = Inr c \<and> payloadHash c = payloadHash i"
  by (auto simp: BranchAppendCommand_fromRecord_def and_then_Inr_iff)

lemma fromRecord_captured: "BranchAppendCommand_fromRecord pf i = Inr c \<Longrightarrow> captured_command pf c"
  using create_captured by (auto simp: fromRecord_Inr_iff)

lemma fromRecord_target:
  "BranchAppendCommand_fromRecord pf i = Inr c \<Longrightarrow> target c = target i \<and> placement c = placement i \<and> expected c = expected i"
  by (auto simp: fromRecord_Inr_iff BranchAppendCommand_create_def Let_def result_simps
      split: if_splits option.splits list.splits)

section \<open>Cache keys\<close>

inductive_simps json_same_iff: "json_same (JStr a) (JStr b)" "json_same (JNum p) (JNum q)"

inductive_cases json_same_objE: "json_same (JObj kvs) (JObj kws)"

lemma json_same_objD:
  assumes "json_same (JObj kvs) (JObj kws)" "k \<in> dom (map_of kvs)"
  shows "json_same (the (map_of kvs k)) (the (map_of kws k))"
  using assms(1)
proof (rule json_same_objE)
  assume "dom (map_of kvs) = dom (map_of kws)"
    and "\<And>k v w. map_of kvs k = Some v \<Longrightarrow> map_of kws k = Some w \<Longrightarrow> json_same v w"
  with assms(2) show ?thesis by (metis domD option.sel)
qed

lemma json_same_j_int [simp]: "json_same (j_int a) (j_int b) \<longleftrightarrow> a = b"
  by (auto simp: j_int_def json_same_iff)

lemma target_json_same: "json_same (target_json a) (target_json b) \<Longrightarrow> a = b"
proof -
  assume s: "json_same (target_json a) (target_json b)"
  note d = json_same_objD [OF s [unfolded target_json_def]]
  from d [of "js ''rootDropId''"] d [of "js ''branchId''"] show "a = b"
    by (simp add: json_same_iff)
qed

lemma placement_json_same: "json_same (placement_json a) (placement_json b) \<Longrightarrow> a = b"
proof -
  assume s: "json_same (placement_json a) (placement_json b)"
  note d = json_same_objD [OF s [unfolded placement_json_def]]
  from d [of "js ''routingVersion''"] d [of "js ''generation''"] show "a = b" by simp
qed

lemma version_json_same: "json_same (version_json a) (version_json b) \<Longrightarrow> a = b"
proof -
  assume s: "json_same (version_json a) (version_json b)"
  note d = json_same_objD [OF s [unfolded version_json_def]]
  from d [of "js ''snapshotId''"] d [of "js ''eventSeq''"] d [of "js ''sourceContentHash''"]
  show "a = b" by (simp add: json_same_iff)
qed

lemma query_json_same:
  assumes "query_kind a = query_kind b" "json_same (query_json a) (query_json b)"
  shows "a = b"
proof (cases a)
  case (Head_Query q)
  with assms(1) obtain r where b: "b = Head_Query r" by (cases b) auto
  note d = json_same_objD [OF assms(2) [unfolded Head_Query b query_json.simps]]
  from d [of "js ''target''"] d [of "js ''placement''"] show ?thesis
    by (simp add: Head_Query b target_json_same placement_json_same)
next
  case (Content_Query q)
  with assms(1) obtain r where b: "b = Content_Query r" by (cases b) auto
  note d = json_same_objD [OF assms(2) [unfolded Content_Query b query_json.simps]]
  from d [of "js ''target''"] d [of "js ''placement''"] d [of "js ''version''"] show ?thesis
    by (simp add: Content_Query b target_json_same placement_json_same version_json_same)
next
  case (Events_Query q)
  with assms(1) obtain r where b: "b = Events_Query r" by (cases b) auto
  note d = json_same_objD [OF assms(2) [unfolded Events_Query b query_json.simps]]
  from d [of "js ''target''"] d [of "js ''placement''"] d [of "js ''version''"]
    d [of "js ''startSeq''"] d [of "js ''endSeq''"] show ?thesis
    by (simp add: Events_Query b target_json_same placement_json_same version_json_same)
qed

lemma clean_j_int [simp]: "clean_json (j_int n)"
  by (simp add: j_int_def)

lemma clean_query_json: "clean_json (JObj [(js ''kind'', JStr (query_kind a)), (js ''query'', query_json a)])"
  by (cases a) (simp_all add: target_json_def placement_json_def version_json_def)

lemma capture_query_fixed: "capture_query a = Inr b \<Longrightarrow> b = a"
  by (cases a) (auto simp: result_simps BranchStateQuery_content_def BranchStateQuery_range_def
      query_of_def split: if_splits)

lemma query_key_inj:
  assumes "number_printer (number_text pf)"
    and "BranchStateQuery_key pf a = Inr k" "BranchStateQuery_key pf b = Inr k"
  shows "a = b"
proof -
  have k: "capture_query q = Inr q \<and> k = serializeCanonicalJson (number_text pf)
       (JObj [(js ''kind'', JStr (query_kind q)), (js ''query'', query_json q)])"
    if "BranchStateQuery_key pf q = Inr k" for q
    using that capture_query_fixed [of q] by (auto simp: BranchStateQuery_key_def and_then_Inr_iff)
  from k [OF assms(2)] k [OF assms(3)] have "serializeCanonicalJson (number_text pf)
       (JObj [(js ''kind'', JStr (query_kind a)), (js ''query'', query_json a)])
     = serializeCanonicalJson (number_text pf)
       (JObj [(js ''kind'', JStr (query_kind b)), (js ''query'', query_json b)])" by metis
  then have s: "json_same (JObj [(js ''kind'', JStr (query_kind a)), (js ''query'', query_json a)])
     (JObj [(js ''kind'', JStr (query_kind b)), (js ''query'', query_json b)])"
    using number_printer.canonical_iff [OF assms(1) clean_query_json clean_query_json] by blast
  from json_same_objD [OF s, of "js ''kind''"] json_same_objD [OF s, of "js ''query''"]
  show ?thesis by (intro query_json_same) (simp_all add: json_same_iff)
qed

section \<open>Properties\<close>

text \<open>
  A captured append command is a fixed point of validation: whatever record \<open>create\<close> was given,
  the command it returns carries a payload hash computed from its own event identity, its
  predecessor and root agree with its event, the server-assigned fields are cleared, and sending it
  over RPC and re-validating it (hash comparison included) returns it unchanged.
\<close>

theorem append_command_revalidates:
  assumes "BranchAppendCommand_create pf i = Inr c"
  shows "captured_command pf c \<and> BranchAppendCommand_fromRecord pf c = Inr c"
  using create_captured [OF assms] create_fixed [OF create_captured [OF assms]]
  by (simp add: fromRecord_Inr_iff)

definition example_platform :: platform where
  "example_platform = \<lparr>sha256 = (\<lambda>bs. replicate 32 0), number_text = print_number,
     to_lower_case = map (\<lambda>u. if 65 \<le> u \<and> u \<le> 90 then u + 32 else u),
     locale_compare = (\<lambda>a b. if a < b then -1 else if b < a then 1 else 0), round_double = (\<lambda>r. r)\<rparr>"

definition example_target :: BranchStateTarget where
  "example_target = \<lparr>rootDropId = js ''d'', branchId = js ''owner''\<rparr>"

definition example_placement :: BranchStatePlacement where
  "example_placement = \<lparr>routingVersion = 1, generation = 0\<rparr>"

definition example_command :: BranchAppendRecord where
  "example_command =
     (let v = \<lparr>snapshotId = 0, eventSeq = -1,
                sourceContentHash = hashNulldownSourceContent example_platform []\<rparr>;
          e = example_event \<lparr>event_metadata := Some \<lparr>meta_kind = None, meta_intent = None, meta_pluginId = None,
            meta_args = None, meta_batchId = None, meta_batchIndex = None, meta_parentEventId = None,
            meta_followsSeq = Some (-1), meta_labels = None, meta_confidence = None, meta_resultRef = None,
            meta_policyDecisionRef = None\<rparr>\<rparr>
      in \<lparr>target = example_target, placement = example_placement, expected = v, event = e,
          payloadHash = event_payload_hash example_platform e\<rparr>)"

lemma example_platform_ok: "platform_ok example_platform"
  by (simp add: platform_ok_def example_platform_def plain_printer.number_printer_axioms)

lemma example_hash: "isNulldownSourceHash (hashNulldownSourceContent example_platform c)"
  using example_platform_ok by (intro hash_is_source_hash) (simp add: platform_ok_def)

lemma example_query_valid: "valid_target example_target" "valid_placement example_placement"
  by (simp_all add: example_target_def example_placement_def valid_target_def valid_placement_def valid_token_def
      bounded_def MAX_BRANCH_ID_LENGTH_def is_safe_integer_def max_safe_integer_def is_trimmed_def js_trim_def
      js_def js_whitespace_def)

lemma example_command_captured: "captured_command example_platform example_command"
proof -
  have "list_all decodable (event_ops example_event)"
    using fromRecord_json [of "hd (event_ops example_event)"] example_event_valid
    by (simp add: example_event_def decodable_def dropDiffOpV1ToDiff_def valid_event_def)
  then show ?thesis
    using example_event_valid example_query_valid example_hash
    by (simp add: captured_command_def example_command_def Let_def captured_event_def valid_event_def
        valid_metadata_def event_integers_safe_def op_integers_safe_def valid_version_def example_event_def
        is_safe_integer_def max_safe_integer_def example_target_def)
qed

theorem append_command_revalidates_witness:
  "captured_command example_platform example_command \<and>
   BranchAppendCommand_fromRecord example_platform example_command = Inr example_command"
  using append_command_revalidates [OF create_fixed [OF example_command_captured]] .



text \<open>
  Cache keys are exact: two validated queries (head, content or event range) have the same key
  only when they are the same query, placement and every version field included.
\<close>

theorem query_key_exact:
  assumes "platform_ok pf" "BranchStateQuery_key pf a = Inr k" "BranchStateQuery_key pf b = Inr k"
  shows "a = b"
  using assms by (auto simp: platform_ok_def intro: query_key_inj)

theorem query_key_exact_witness:
  "Head_Query (query_of example_command) = Head_Query \<lparr>target = example_target, placement = example_placement\<rparr>"
proof (rule query_key_exact [OF example_platform_ok])
  let ?q = "\<lparr>target = example_target, placement = example_placement\<rparr>"
  have q: "query_of example_command = ?q" by (simp add: query_of_def example_command_def Let_def)
  show "BranchStateQuery_key example_platform (Head_Query ?q) = Inr (serializeCanonicalJson (number_text example_platform)
       (JObj [(js ''kind'', JStr (js ''head'')), (js ''query'', query_json (Head_Query ?q))]))"
    using example_query_valid by (simp add: BranchStateQuery_key_def BranchStateQuery_head_def query_of_def)
  then show "BranchStateQuery_key example_platform (Head_Query (query_of example_command))
      = Inr (serializeCanonicalJson (number_text example_platform)
       (JObj [(js ''kind'', JStr (js ''head'')), (js ''query'', query_json (Head_Query ?q))]))"
    unfolding q .
qed

text \<open>
  The source-content hash identifies content only up to the UTF-8 encoding: a lone surrogate and
  U+FFFD have the same hash whatever the digest, so two contents that differ have one version
  identity.
\<close>

theorem source_hash_not_exact:
  "hashNulldownSourceContent pf [0xD800] = hashNulldownSourceContent pf [0xFFFD]"
proof -
  have "scalars (js ''nulldown.source-content.v1'' @ [10] @ [0xD800])
      = scalars (js ''nulldown.source-content.v1'' @ [10] @ [0xFFFD])"
    by (simp add: scalars_js scalars_plain_Cons scalar_or_replacement_def is_surrogate_def
        is_high_surrogate_def)
  then show ?thesis by (simp only: hashNulldownSourceContent_def hash_preimage_def encodeText_def)
qed

end
