(* ===== verification/Branch_Commit.thy ===== *)
theory Branch_Commit
  imports Branch_State
begin

text \<open>
  Preparing commits: \<^verbatim>\<open>shared/drop/branch-commit.ts\<close> (one event) and \<^verbatim>\<open>shared/drop/branch-batch.ts\<close>
  (one envelope). Preparation is pure: from a command, the head and content it was captured against
  and the commit time to the rows a plane publishes atomically.

  A failure is one of the portable \<open>BranchStateError\<close> codes or an exception of the operation codec;
  for captured commands the latter is shown impossible. The lemmas say what a prepared commit is:
  the next version, contiguous sequence numbers, content equal to the replay of the accepted
  operations, one receipt per accepted event, and for a batch which events are accepted.
\<close>

section \<open>Failures\<close>

datatype failure = Failed BranchStateError | Thrown js_exception

type_synonym 'a outcome = "failure + 'a"

fun lift_branch :: "'a branch_result \<Rightarrow> 'a outcome" where
  "lift_branch (Inl e) = Inl (Failed e)"
| "lift_branch (Inr x) = Inr x"

fun lift_js :: "js_exception + 'a \<Rightarrow> 'a outcome" where
  "lift_js (Inl e) = Inl (Thrown e)"
| "lift_js (Inr x) = Inr x"

section \<open>Replaying operations\<close>

definition apply_op :: "DropDiffOp \<Rightarrow> jstring \<Rightarrow> js_exception + jstring" where
  "apply_op p text =
     and_then (DropDiffOperation_fromRecord (op_json p)) (\<lambda>r.
     and_then (DropDiffOperation_toDiff r) (\<lambda>diff.
       Inr (if diff_op diff = INSERT \<or> diff_op diff = DELETE then applyDiff text diff else text)))"

fun apply_ops :: "DropDiffOp list \<Rightarrow> jstring \<Rightarrow> js_exception + jstring" where
  "apply_ops [] text = Inr text"
| "apply_ops (p # ps) text = and_then (apply_op p text) (apply_ops ps)"

fun apply_events :: "DropDiffEvent list \<Rightarrow> jstring \<Rightarrow> js_exception + jstring" where
  "apply_events [] text = Inr text"
| "apply_events (e # es) text = and_then (apply_ops (event_ops e) text) (apply_events es)"

section \<open>One event\<close>

definition head_corrupt :: "BranchStateTarget \<Rightarrow> BranchStateHead \<Rightarrow> bool" where
  "head_corrupt t head \<longleftrightarrow>
     rootDropId t \<noteq> rootDropId (target head) \<or> branchId t \<noteq> branchId (target head) \<or>
     br_rootDropId (hd_branch head) \<noteq> rootDropId (target head) \<or>
     br_branchId (hd_branch head) \<noteq> branchId (target head) \<or>
     br_headSnapshotId (hd_branch head) \<noteq> snapshotId (hd_version head) \<or>
     br_headEventSeq (hd_branch head) \<noteq> Some (eventSeq (hd_version head))"

definition prepareBranchCommit ::
  "platform \<Rightarrow> BranchAppendRecord \<Rightarrow> BranchStateHead \<Rightarrow> jstring \<Rightarrow> int \<Rightarrow> BranchPreparedCommit outcome" where
  "prepareBranchCommit pf command head text committedAt =
     (if head_corrupt (target command) head then Inl (Failed State_Corrupt)
      else if routingVersion (placement command) \<noteq> routingVersion (placement head)
        then Inl (Failed Routing_Version_Unsupported)
      else if generation (placement command) \<noteq> generation (placement head)
        then Inl (Failed Routing_Generation_Mismatch)
      else if \<not> sameBranchStateVersion (expected command) (hd_version head)
        then Inl (Failed Diff_Predecessor_Mismatch)
      else if hashNulldownSourceContent pf text \<noteq> sourceContentHash (hd_version head)
        then Inl (Failed State_Corrupt)
      else if \<not> is_safe_integer committedAt \<or> committedAt < 0 then Inl (Failed Invalid_Command)
      else
        let snap = snapshotId (hd_version head) + 1;
            sq = eventSeq (hd_version head) + 1
        in if \<not> is_safe_integer snap \<or> \<not> is_safe_integer (sq + 1)
           then Inl (Failed Diff_Sequence_Exhausted)
           else and_then (lift_js (apply_ops (event_ops (event command)) text)) (\<lambda>nextContent.
             let h = hashNulldownSourceContent pf nextContent;
                 ev = (event command) \<lparr>event_seq := sq, event_snapshotId := Some snap\<rparr>;
                 ver = \<lparr>snapshotId = snap, eventSeq = sq, sourceContentHash = h\<rparr>;
                 receipt = \<lparr>target = target command, placement = placement command,
                   rc_eventId = eventId ev, rc_payloadHash = payloadHash command,
                   rc_eventSeq = None, rc_version = ver\<rparr>
             in Inr \<lparr>pc_branch = (hd_branch head) \<lparr>br_headSnapshotId := snap, br_headEventSeq := Some sq,
                        br_updatedAt := committedAt\<rparr>,
                     pc_snapshot = \<lparr>sn_snapshotId = snap, sn_rootDropId = rootDropId (target command),
                        sn_branchId = branchId (target command),
                        sn_parentSnapshotId = Some (snapshotId (hd_version head)), sn_seq = snap,
                        sn_eventIds = [eventId ev], sn_checkpointed = True, sn_patchStartSeq = Some sq,
                        sn_patchEndSeq = Some sq, sn_textLength = int (length nextContent),
                        sn_sourceContentHash = Some h, sn_createdAt = committedAt\<rparr>,
                     pc_event = ev, pc_content = nextContent, pc_receipt = receipt,
                     pc_outbox = \<lparr>co_id = json_key [js ''branch.commit.v1'', rootDropId (target command),
                          branchId (target command), eventId ev], co_receipt = receipt\<rparr>\<rparr>))"

section \<open>One envelope\<close>

definition capture_batch_event :: "BranchHeadQuery \<Rightarrow> DropDiffEvent \<Rightarrow> DropDiffEvent branch_result" where
  "capture_batch_event query e =
     (if dropId e \<noteq> rootDropId (target query) then Inl Invalid_Command
      else and_then (captured_ops (event_ops e)) (\<lambda>ops.
        Inr (e \<lparr>event_seq := - 1, event_ops := ops, event_snapshotId := None\<rparr>)))"

definition captureBranchBatchAppend :: "BranchBatchAppendRecord \<Rightarrow> BranchBatchAppendRecord branch_result" where
  "captureBranchBatchAppend input =
     and_then (BranchStateQuery_head input) (\<lambda>query.
     case DropDiffAppendEnvelopeSchema (envelope_json (events input)) of
       None \<Rightarrow> Inl Invalid_Command
     | Some parsed \<Rightarrow> and_then (map_result (capture_batch_event query) parsed) (\<lambda>es.
         Inr \<lparr>target = target query, placement = placement query, events = es\<rparr>))"

record BranchBatchEventIdentity =
  bi_event :: DropDiffEvent
  bi_payloadHash :: jstring

definition hashBranchBatchEvents :: "platform \<Rightarrow> DropDiffEvent list \<Rightarrow> BranchBatchEventIdentity list" where
  "hashBranchBatchEvents pf es = map (\<lambda>e. \<lparr>bi_event = e, bi_payloadHash = event_payload_hash pf e\<rparr>) es"

record BranchBatchAppendResult =
  ba_branch :: DropBranchRecord
  ba_snapshot :: "DropSnapshotRecord option"
  ba_content :: jstring
  ba_acceptedEvents :: "DropDiffEvent list"
  ba_deduplicatedCount :: int
  ba_totalStored :: int
  ba_acknowledgements :: "DropDiffEventAcknowledgement list"

record PreparedBranchBatch =
  pb_result :: BranchBatchAppendResult
  pb_version :: BranchStateVersion
  pb_receipts :: "BranchCommitReceipt list"
  pb_outbox :: "BranchBatchCommitOutboxRecord option"

type_synonym receipt_map = "(jstring \<times> BranchCommitReceipt) list"

text \<open>The classification loop: the distinct identities in order, and those without a receipt.\<close>

fun batch_classify ::
  "receipt_map \<Rightarrow> BranchBatchEventIdentity list \<Rightarrow> (jstring \<times> BranchBatchEventIdentity) list \<Rightarrow>
   BranchBatchEventIdentity list \<Rightarrow>
   ((jstring \<times> BranchBatchEventIdentity) list \<times> BranchBatchEventIdentity list) branch_result" where
  "batch_classify existing [] unique accepted = Inr (unique, accepted)"
| "batch_classify existing (i # is) unique accepted =
     (let k = eventId (bi_event i) in
      case map_of unique k of
        Some prior \<Rightarrow>
          if bi_payloadHash prior \<noteq> bi_payloadHash i then Inl Diff_Event_Id_Reused
          else batch_classify existing is unique accepted
      | None \<Rightarrow>
          (let unique' = unique @ [(k, i)] in
           case map_of existing k of
             Some receipt \<Rightarrow>
               if rc_payloadHash receipt \<noteq> bi_payloadHash i then Inl Diff_Event_Id_Reused
               else batch_classify existing is unique' accepted
           | None \<Rightarrow> batch_classify existing is unique' (accepted @ [i])))"

fun batch_follows :: "int \<Rightarrow> BranchBatchEventIdentity list \<Rightarrow> bool" where
  "batch_follows expectedSeq [] = True"
| "batch_follows expectedSeq (i # is) =
     (opt_all (\<lambda>n. n = expectedSeq) (Option.bind (event_metadata (bi_event i)) meta_followsSeq) \<and>
      batch_follows (expectedSeq + 1) is)"

fun number_events :: "int \<Rightarrow> int \<Rightarrow> DropDiffEvent list \<Rightarrow> DropDiffEvent list" where
  "number_events sq snap [] = []"
| "number_events sq snap (e # es) =
     e \<lparr>event_seq := sq, event_snapshotId := Some snap\<rparr> # number_events (sq + 1) snap es"

definition batch_receipt ::
  "BranchBatchAppendRecord \<Rightarrow> BranchStateVersion \<Rightarrow> DropDiffEvent \<times> BranchBatchEventIdentity \<Rightarrow> BranchCommitReceipt" where
  "batch_receipt command ver = (\<lambda>(e, i).
     \<lparr>target = target command, placement = placement command, rc_eventId = eventId e,
      rc_payloadHash = bi_payloadHash i, rc_eventSeq = Some (event_seq e), rc_version = ver\<rparr>)"

definition batch_acknowledgement ::
  "receipt_map \<Rightarrow> receipt_map \<Rightarrow> jstring \<Rightarrow> DropDiffEventAcknowledgement" where
  "batch_acknowledgement existing newly k =
     (let dup = map_of existing k;
          receipt = (case dup of Some r \<Rightarrow> r | None \<Rightarrow> the (map_of newly k))
      in \<lparr>ack_eventId = k,
          ack_seq = (case rc_eventSeq receipt of Some n \<Rightarrow> n | None \<Rightarrow> eventSeq (rc_version receipt)),
          ack_snapshotId = snapshotId (rc_version receipt),
          ack_status = (if dup \<noteq> None then Duplicate else Accepted)\<rparr>)"

definition batch_sequence_exhausted :: "BranchStateHead \<Rightarrow> bool" where
  "batch_sequence_exhausted head \<longleftrightarrow>
     (let headSeq = eventSeq (hd_version head)
      in \<not> is_safe_integer headSeq \<or> headSeq < - 1 \<or> headSeq \<ge> max_safe_integer \<or>
         \<not> is_safe_integer (snapshotId (hd_version head)) \<or> snapshotId (hd_version head) < 0)"

text \<open>The publication of a non-empty list of accepted events.\<close>

definition batch_publication ::
  "platform \<Rightarrow> BranchBatchAppendRecord \<Rightarrow> BranchBatchEventIdentity list \<Rightarrow> BranchStateHead \<Rightarrow> jstring \<Rightarrow> int
   \<Rightarrow> PreparedBranchBatch outcome" where
  "batch_publication pf command accepted head text committedAt =
     (let headSeq = eventSeq (hd_version head);
          snap = snapshotId (hd_version head) + 1;
          terminalSeq = headSeq + int (length accepted)
      in if \<not> is_safe_integer snap \<or> \<not> is_safe_integer (terminalSeq + 1)
         then Inl (Failed Diff_Sequence_Exhausted)
         else
           let acceptedEvents = number_events (headSeq + 1) snap (map bi_event accepted)
           in and_then (lift_js (apply_events acceptedEvents text)) (\<lambda>nextContent.
             let ver = \<lparr>snapshotId = snap, eventSeq = terminalSeq,
                   sourceContentHash = hashNulldownSourceContent pf nextContent\<rparr>;
                 dedup = int (length (events command)) - int (length accepted);
                 receipts = map (batch_receipt command ver) (zip acceptedEvents accepted);
                 ids = map eventId acceptedEvents
             in Inr \<lparr>pb_result =
                  \<lparr>ba_branch = (hd_branch head) \<lparr>br_headSnapshotId := snap,
                      br_headEventSeq := Some terminalSeq, br_updatedAt := committedAt\<rparr>,
                   ba_snapshot = Some \<lparr>sn_snapshotId = snap, sn_rootDropId = rootDropId (target command),
                      sn_branchId = branchId (target command),
                      sn_parentSnapshotId = Some (snapshotId (hd_version head)), sn_seq = snap,
                      sn_eventIds = ids, sn_checkpointed = True, sn_patchStartSeq = Some (headSeq + 1),
                      sn_patchEndSeq = Some terminalSeq, sn_textLength = int (length nextContent),
                      sn_sourceContentHash = Some (sourceContentHash ver), sn_createdAt = committedAt\<rparr>,
                   ba_content = nextContent, ba_acceptedEvents = acceptedEvents,
                   ba_deduplicatedCount = dedup, ba_totalStored = terminalSeq + 1,
                   ba_acknowledgements = []\<rparr>,
                 pb_version = ver, pb_receipts = receipts,
                 pb_outbox = Some \<lparr>target = target command, placement = placement command, cq_version = ver,
                   bo_id = stringify (number_text pf) (JArr [JStr (js ''branch.batch-commit.v1''),
                     JStr (rootDropId (target command)), JStr (branchId (target command)), j_int snap]),
                   bo_parentSnapshotId = snapshotId (hd_version head), bo_eventIds = ids,
                   bo_receipts = receipts, bo_deduplicated = dedup, bo_totalStored = terminalSeq + 1\<rparr>\<rparr>))"

definition batch_nothing_new ::
  "BranchBatchAppendRecord \<Rightarrow> BranchStateHead \<Rightarrow> jstring \<Rightarrow> PreparedBranchBatch" where
  "batch_nothing_new command head text =
     \<lparr>pb_result = \<lparr>ba_branch = hd_branch head, ba_snapshot = None, ba_content = text,
        ba_acceptedEvents = [], ba_deduplicatedCount = int (length (events command)),
        ba_totalStored = eventSeq (hd_version head) + 1, ba_acknowledgements = []\<rparr>,
      pb_version = hd_version head, pb_receipts = [], pb_outbox = None\<rparr>"

definition prepareBranchBatch ::
  "platform \<Rightarrow> BranchBatchAppendRecord \<Rightarrow> BranchBatchEventIdentity list \<Rightarrow> BranchStateHead \<Rightarrow> jstring \<Rightarrow>
   receipt_map \<Rightarrow> int \<Rightarrow> PreparedBranchBatch outcome" where
  "prepareBranchBatch pf command identities head text existing committedAt =
     (if head_corrupt (target command) head then Inl (Failed State_Corrupt)
      else if routingVersion (placement head) \<noteq> routingVersion (placement command)
        then Inl (Failed Routing_Version_Unsupported)
      else if generation (placement head) \<noteq> generation (placement command)
        then Inl (Failed Routing_Generation_Mismatch)
      else if batch_sequence_exhausted head then Inl (Failed Diff_Sequence_Exhausted)
      else if \<not> is_safe_integer committedAt \<or> committedAt < 0 then Inl (Failed Invalid_Command)
      else and_then (lift_branch (batch_classify existing identities [] [])) (\<lambda>(unique, accepted).
        if \<not> batch_follows (eventSeq (hd_version head)) accepted
          then Inl (Failed Diff_Predecessor_Mismatch)
        else if hashNulldownSourceContent pf text \<noteq> sourceContentHash (hd_version head)
          then Inl (Failed State_Corrupt)
        else and_then
          (if accepted = [] then Inr (batch_nothing_new command head text)
           else batch_publication pf command accepted head text committedAt) (\<lambda>prepared.
          let newly = map (\<lambda>r. (rc_eventId r, r)) (pb_receipts prepared)
          in Inr (prepared \<lparr>pb_result := (pb_result prepared)
               \<lparr>ba_acknowledgements := map (batch_acknowledgement existing newly) (map fst unique)\<rparr>\<rparr>))))"

section \<open>Lemmas on replay\<close>

lemma lift_js_Inr_iff [result_simps]: "lift_js m = Inr x \<longleftrightarrow> m = Inr x"
  by (cases m) auto

lemma lift_branch_Inr_iff [result_simps]: "lift_branch m = Inr x \<longleftrightarrow> m = Inr x"
  by (cases m) auto

lemma apply_op_total: "decodable p \<Longrightarrow> \<exists>t. apply_op p c = Inr t"
  using fromRecord_valid [of "op_json p" p] by (auto simp: decodable_def apply_op_def)

lemma apply_ops_total: "list_all decodable ps \<Longrightarrow> \<exists>t. apply_ops ps c = Inr t"
proof (induction ps arbitrary: c)
  case (Cons p ps)
  from Cons.prems apply_op_total obtain t where "apply_op p c = Inr t" by fastforce
  with Cons show ?case by simp
qed simp

lemma apply_events_total: "\<forall>e \<in> set es. list_all decodable (event_ops e) \<Longrightarrow> \<exists>t. apply_events es c = Inr t"
proof (induction es arbitrary: c)
  case (Cons e es)
  from Cons.prems apply_ops_total obtain t where "apply_ops (event_ops e) c = Inr t" by fastforce
  with Cons show ?case by simp
qed simp

lemma apply_events_append:
  "apply_events (es @ fs) c = and_then (apply_events es c) (apply_events fs)"
proof (induction es arbitrary: c)
  case (Cons e es)
  then show ?case by (cases "apply_ops (event_ops e) c") simp_all
qed simp

text \<open>Replay looks at the operations only.\<close>

lemma apply_events_cong:
  "map event_ops es = map event_ops fs \<Longrightarrow> apply_events es c = apply_events fs c"
proof (induction es arbitrary: fs c)
  case (Cons e es)
  then obtain f fs' where fs: "fs = f # fs'" by auto
  with Cons.prems have "event_ops e = event_ops f" "map event_ops es = map event_ops fs'" by simp_all
  with Cons.IH have "\<And>t. apply_events es t = apply_events fs' t" by blast
  then have "apply_events es = apply_events fs'" by blast
  with \<open>event_ops e = event_ops f\<close> show ?case by (simp add: fs)
qed simp

section \<open>Lemmas on one event\<close>

definition next_version :: "platform \<Rightarrow> BranchStateVersion \<Rightarrow> int \<Rightarrow> jstring \<Rightarrow> BranchStateVersion" where
  "next_version pf v n text = \<lparr>snapshotId = snapshotId v + 1, eventSeq = eventSeq v + n,
     sourceContentHash = hashNulldownSourceContent pf text\<rparr>"

lemma prepareBranchCommit_Inr:
  assumes "prepareBranchCommit pf c h t now = Inr pc"
  shows "\<not> head_corrupt (target c) h" "placement c = placement h" "expected c = hd_version h"
    and "hashNulldownSourceContent pf t = sourceContentHash (hd_version h)"
    and "is_safe_integer now" "0 \<le> now" "is_safe_integer (snapshotId (hd_version h) + 1)"
      "is_safe_integer (eventSeq (hd_version h) + 2)"
    and "apply_ops (event_ops (event c)) t = Inr (pc_content pc)"
    and "rc_version (pc_receipt pc) = next_version pf (hd_version h) 1 (pc_content pc)"
    and "pc_event pc = (event c) \<lparr>event_seq := eventSeq (hd_version h) + 1,
           event_snapshotId := Some (snapshotId (hd_version h) + 1)\<rparr>"
    and "pc_receipt pc = \<lparr>target = target c, placement = placement c, rc_eventId = eventId (event c),
           rc_payloadHash = payloadHash c, rc_eventSeq = None,
           rc_version = next_version pf (hd_version h) 1 (pc_content pc)\<rparr>"
    and "pc_branch pc = (hd_branch h) \<lparr>br_headSnapshotId := snapshotId (hd_version h) + 1,
           br_headEventSeq := Some (eventSeq (hd_version h) + 1), br_updatedAt := now\<rparr>"
    and "pc_snapshot pc = \<lparr>sn_snapshotId = snapshotId (hd_version h) + 1,
           sn_rootDropId = rootDropId (target c), sn_branchId = branchId (target c),
           sn_parentSnapshotId = Some (snapshotId (hd_version h)), sn_seq = snapshotId (hd_version h) + 1,
           sn_eventIds = [eventId (event c)], sn_checkpointed = True,
           sn_patchStartSeq = Some (eventSeq (hd_version h) + 1),
           sn_patchEndSeq = Some (eventSeq (hd_version h) + 1),
           sn_textLength = int (length (pc_content pc)),
           sn_sourceContentHash = Some (hashNulldownSourceContent pf (pc_content pc)), sn_createdAt = now\<rparr>"
    and "pc_outbox pc = \<lparr>co_id = json_key [js ''branch.commit.v1'', rootDropId (target c),
           branchId (target c), eventId (event c)], co_receipt = pc_receipt pc\<rparr>"
  using assms
  by (auto simp: prepareBranchCommit_def Let_def result_simps next_version_def add.commute add.left_commute
      split: if_splits)

lemma prepareBranchCommit_total:
  assumes "captured_command pf c" "\<not> head_corrupt (target c) h" "placement c = placement h"
    and "expected c = hd_version h" "hashNulldownSourceContent pf t = sourceContentHash (hd_version h)"
    and "is_safe_integer now" "0 \<le> now"
    and "is_safe_integer (snapshotId (hd_version h) + 1)" "is_safe_integer (eventSeq (hd_version h) + 2)"
  shows "\<exists>pc. prepareBranchCommit pf c h t now = Inr pc"
proof -
  obtain n where "apply_ops (event_ops (event c)) t = Inr n"
    using assms(1) apply_ops_total by (auto simp: captured_command_def captured_event_def)
  with assms show ?thesis
    by (simp add: prepareBranchCommit_def Let_def add.commute add.left_commute)
qed

section \<open>Lemmas on one envelope\<close>

definition identity_ok :: "platform \<Rightarrow> BranchBatchEventIdentity \<Rightarrow> bool" where
  "identity_ok pf i \<longleftrightarrow> captured_event (bi_event i) \<and> bi_payloadHash i = event_payload_hash pf (bi_event i)"

definition fresh_identities :: "receipt_map \<Rightarrow> (jstring \<times> BranchBatchEventIdentity) list \<Rightarrow> BranchBatchEventIdentity list" where
  "fresh_identities existing u = map snd (filter (\<lambda>(k, i). map_of existing k = None) u)"

definition identity_id :: "BranchBatchEventIdentity \<Rightarrow> jstring" where
  "identity_id i = eventId (bi_event i)"

text \<open>
  What classification establishes: the distinct identities in request order, keyed by their event
  id; every request event agrees with the first of its id; those with a receipt agree with it; the
  others are accepted.
\<close>

lemma batch_classify_spec:
  assumes "batch_classify existing is u a = Inr (u', a')"
  shows "\<exists>v. u' = u @ v \<and> a' = a @ fresh_identities existing v \<and>
     (\<forall>(k, i) \<in> set v. k = identity_id i \<and> i \<in> set is) \<and>
     (jsmap_wf u \<longrightarrow> jsmap_wf u') \<and> fst ` set u' = fst ` set u \<union> identity_id ` set is \<and>
     (\<forall>i \<in> set is. bi_payloadHash (the (map_of u' (identity_id i))) = bi_payloadHash i) \<and>
     (\<forall>(k, i) \<in> set v. \<forall>r. map_of existing k = Some r \<longrightarrow> rc_payloadHash r = bi_payloadHash i)"
  using assms
proof (induction "is" arbitrary: u a)
  case Nil
  then show ?case by (simp add: fresh_identities_def)
next
  case (Cons i "is")
  let ?k = "eventId (bi_event i)"
  have id: "identity_id i = ?k" by (simp add: identity_id_def)
  show ?case
  proof (cases "map_of u ?k")
    case (Some prior)
    with Cons.prems have same: "bi_payloadHash prior = bi_payloadHash i"
      and rec: "batch_classify existing is u a = Inr (u', a')"
      by (auto simp: Let_def split: if_splits)
    from Cons.IH [OF rec] obtain v where v: "u' = u @ v" "a' = a @ fresh_identities existing v"
      "\<forall>(k, i) \<in> set v. k = identity_id i \<and> i \<in> set is" "jsmap_wf u \<longrightarrow> jsmap_wf u'"
      "fst ` set u' = fst ` set u \<union> identity_id ` set is"
      "\<forall>i \<in> set is. bi_payloadHash (the (map_of u' (identity_id i))) = bi_payloadHash i"
      "\<forall>(k, i) \<in> set v. \<forall>r. map_of existing k = Some r \<longrightarrow> rc_payloadHash r = bi_payloadHash i" by blast
    have "?k \<in> fst ` set u" using Some by (metis map_of_SomeD fst_conv image_eqI)
    moreover have "map_of u' ?k = Some prior" using Some by (simp add: v(1) map_of_append map_add_def)
    ultimately show ?thesis using v same id by (intro exI [of _ v]) auto
  next
    case None
    let ?u = "u @ [(?k, i)]"
    from Cons.prems None obtain a1 where
      rec: "batch_classify existing is ?u a1 = Inr (u', a')"
      and a1: "a1 = a @ fresh_identities existing [(?k, i)]"
      and ok: "\<forall>r. map_of existing ?k = Some r \<longrightarrow> rc_payloadHash r = bi_payloadHash i"
      by (auto simp: Let_def fresh_identities_def split: if_splits option.splits)
    from Cons.IH [OF rec] obtain v where v: "u' = ?u @ v" "a' = a1 @ fresh_identities existing v"
      "\<forall>(k, i) \<in> set v. k = identity_id i \<and> i \<in> set is" "jsmap_wf ?u \<longrightarrow> jsmap_wf u'"
      "fst ` set u' = fst ` set ?u \<union> identity_id ` set is"
      "\<forall>i \<in> set is. bi_payloadHash (the (map_of u' (identity_id i))) = bi_payloadHash i"
      "\<forall>(k, i) \<in> set v. \<forall>r. map_of existing k = Some r \<longrightarrow> rc_payloadHash r = bi_payloadHash i" by blast
    have wf: "jsmap_wf u \<Longrightarrow> jsmap_wf ?u" using None by (auto simp: jsmap_wf_def map_of_eq_None_iff)
    have look: "map_of u' ?k = Some i" using None by (simp add: v(1) map_of_append map_add_def)
    show ?thesis
      by (intro exI [of _ "(?k, i) # v"])
        (use v wf look ok id a1 in \<open>auto simp: fresh_identities_def\<close>)
  qed
qed

lemma batch_classify_accepted:
  assumes "batch_classify existing is [] [] = Inr (unique, accepted)"
  shows "accepted = fresh_identities existing unique" "jsmap_wf unique"
    "fst ` set unique = identity_id ` set is"
    "\<forall>(k, i) \<in> set unique. k = identity_id i \<and> i \<in> set is"
    "set accepted \<subseteq> set is" "distinct (map identity_id accepted)"
    "\<forall>i \<in> set accepted. map_of existing (identity_id i) = None"
proof -
  from batch_classify_spec [OF assms] have
    a: "accepted = fresh_identities existing unique" and w: "jsmap_wf unique"
    and k: "fst ` set unique = identity_id ` set is"
    and m: "\<forall>(k, i) \<in> set unique. k = identity_id i \<and> i \<in> set is" by auto
  show "accepted = fresh_identities existing unique" "jsmap_wf unique"
    "fst ` set unique = identity_id ` set is"
    "\<forall>(k, i) \<in> set unique. k = identity_id i \<and> i \<in> set is" by (fact a w k m)+
  show "set accepted \<subseteq> set is" using m by (auto simp: a fresh_identities_def)
  have "map identity_id (map snd us) = map fst us" if "set us \<subseteq> set unique" for us
    using that m by (induction us) auto
  then have "map identity_id accepted = map fst (filter (\<lambda>(k, i). map_of existing k = None) unique)"
    unfolding a fresh_identities_def by (metis filter_is_subset)
  with w show "distinct (map identity_id accepted)" by (simp add: jsmap_wf_def distinct_map_filter)
  show "\<forall>i \<in> set accepted. map_of existing (identity_id i) = None"
    using m by (auto simp: a fresh_identities_def)
qed

lemma length_number_events [simp]: "length (number_events sq snap es) = length es"
  by (induction es arbitrary: sq) simp_all

lemma number_events_nth:
  "i < length es \<Longrightarrow> number_events sq snap es ! i = (es ! i) \<lparr>event_seq := sq + int i, event_snapshotId := Some snap\<rparr>"
proof (induction es arbitrary: sq i)
  case (Cons e es)
  then show ?case by (cases i) (auto simp: algebra_simps)
qed simp

lemma number_events_ops [simp]: "map event_ops (number_events sq snap es) = map event_ops es"
  "map eventId (number_events sq snap es) = map eventId es"
  by (induction es arbitrary: sq) simp_all

lemma number_events_seqs: "map event_seq (number_events sq snap es) = map (\<lambda>i. sq + int i) [0..<length es]"
  by (rule nth_equalityI) (simp_all add: number_events_nth)

lemma batch_publication_Inr:
  assumes "batch_publication pf c acc h t now = Inr pb"
  shows "is_safe_integer (snapshotId (hd_version h) + 1)"
    "is_safe_integer (eventSeq (hd_version h) + int (length acc) + 1)"
    and "ba_acceptedEvents (pb_result pb) =
       number_events (eventSeq (hd_version h) + 1) (snapshotId (hd_version h) + 1) (map bi_event acc)"
    and "apply_events (map bi_event acc) t = Inr (ba_content (pb_result pb))"
    and "pb_version pb = next_version pf (hd_version h) (int (length acc)) (ba_content (pb_result pb))"
    and "pb_receipts pb = map (batch_receipt c (pb_version pb)) (zip (ba_acceptedEvents (pb_result pb)) acc)"
    and "ba_branch (pb_result pb) = (hd_branch h) \<lparr>br_headSnapshotId := snapshotId (hd_version h) + 1,
       br_headEventSeq := Some (eventSeq (hd_version h) + int (length acc)), br_updatedAt := now\<rparr>"
    and "ba_snapshot (pb_result pb) = Some \<lparr>sn_snapshotId = snapshotId (hd_version h) + 1,
       sn_rootDropId = rootDropId (target c), sn_branchId = branchId (target c),
       sn_parentSnapshotId = Some (snapshotId (hd_version h)), sn_seq = snapshotId (hd_version h) + 1,
       sn_eventIds = map identity_id acc, sn_checkpointed = True,
       sn_patchStartSeq = Some (eventSeq (hd_version h) + 1),
       sn_patchEndSeq = Some (eventSeq (hd_version h) + int (length acc)),
       sn_textLength = int (length (ba_content (pb_result pb))),
       sn_sourceContentHash = Some (sourceContentHash (pb_version pb)), sn_createdAt = now\<rparr>"
    and "\<exists>ob. pb_outbox pb = Some ob \<and> target ob = target c \<and> placement ob = placement c \<and>
       cq_version ob = pb_version pb \<and> bo_receipts ob = pb_receipts pb \<and>
       bo_id ob = stringify (number_text pf) (JArr [JStr (js ''branch.batch-commit.v1''),
         JStr (rootDropId (target c)), JStr (branchId (target c)), j_int (snapshotId (hd_version h) + 1)])"
    and "ba_totalStored (pb_result pb) = eventSeq (hd_version h) + int (length acc) + 1"
    and "ba_deduplicatedCount (pb_result pb) = int (length (events c)) - int (length acc)"
proof -
  have e: "apply_events (number_events sq snap es) u = apply_events es u" for sq snap es u
    by (rule apply_events_cong) simp
  have i: "map identity_id acc = map eventId (map bi_event acc)" by (simp add: identity_id_def)
  show "is_safe_integer (snapshotId (hd_version h) + 1)"
    "is_safe_integer (eventSeq (hd_version h) + int (length acc) + 1)"
    using assms by (auto simp: batch_publication_def Let_def split: if_splits)
  with assms obtain n where n: "apply_events (map bi_event acc) t = Inr n"
    by (auto simp: batch_publication_def Let_def result_simps e split: if_splits)
  note p = assms [unfolded batch_publication_def Let_def, simplified e n, simplified]
  show "ba_acceptedEvents (pb_result pb) =
       number_events (eventSeq (hd_version h) + 1) (snapshotId (hd_version h) + 1) (map bi_event acc)"
    "apply_events (map bi_event acc) t = Inr (ba_content (pb_result pb))"
    "pb_version pb = next_version pf (hd_version h) (int (length acc)) (ba_content (pb_result pb))"
    "pb_receipts pb = map (batch_receipt c (pb_version pb)) (zip (ba_acceptedEvents (pb_result pb)) acc)"
    "ba_branch (pb_result pb) = (hd_branch h) \<lparr>br_headSnapshotId := snapshotId (hd_version h) + 1,
       br_headEventSeq := Some (eventSeq (hd_version h) + int (length acc)), br_updatedAt := now\<rparr>"
    "ba_snapshot (pb_result pb) = Some \<lparr>sn_snapshotId = snapshotId (hd_version h) + 1,
       sn_rootDropId = rootDropId (target c), sn_branchId = branchId (target c),
       sn_parentSnapshotId = Some (snapshotId (hd_version h)), sn_seq = snapshotId (hd_version h) + 1,
       sn_eventIds = map identity_id acc, sn_checkpointed = True,
       sn_patchStartSeq = Some (eventSeq (hd_version h) + 1),
       sn_patchEndSeq = Some (eventSeq (hd_version h) + int (length acc)),
       sn_textLength = int (length (ba_content (pb_result pb))),
       sn_sourceContentHash = Some (sourceContentHash (pb_version pb)), sn_createdAt = now\<rparr>"
    "\<exists>ob. pb_outbox pb = Some ob \<and> target ob = target c \<and> placement ob = placement c \<and>
       cq_version ob = pb_version pb \<and> bo_receipts ob = pb_receipts pb \<and>
       bo_id ob = stringify (number_text pf) (JArr [JStr (js ''branch.batch-commit.v1''),
         JStr (rootDropId (target c)), JStr (branchId (target c)), j_int (snapshotId (hd_version h) + 1)])"
    "ba_totalStored (pb_result pb) = eventSeq (hd_version h) + int (length acc) + 1"
    "ba_deduplicatedCount (pb_result pb) = int (length (events c)) - int (length acc)"
    using p by (auto simp: next_version_def i n split: if_splits)
qed

definition with_acknowledgements :: "receipt_map \<Rightarrow> jstring list \<Rightarrow> PreparedBranchBatch \<Rightarrow> PreparedBranchBatch" where
  "with_acknowledgements existing ids pb = pb \<lparr>pb_result := (pb_result pb) \<lparr>ba_acknowledgements :=
     map (batch_acknowledgement existing (map (\<lambda>r. (rc_eventId r, r)) (pb_receipts pb))) ids\<rparr>\<rparr>"

lemma with_acknowledgements_simps [simp]:
  "pb_version (with_acknowledgements ex ids pb) = pb_version pb"
  "pb_receipts (with_acknowledgements ex ids pb) = pb_receipts pb"
  "pb_outbox (with_acknowledgements ex ids pb) = pb_outbox pb"
  "ba_content (pb_result (with_acknowledgements ex ids pb)) = ba_content (pb_result pb)"
  "ba_branch (pb_result (with_acknowledgements ex ids pb)) = ba_branch (pb_result pb)"
  "ba_snapshot (pb_result (with_acknowledgements ex ids pb)) = ba_snapshot (pb_result pb)"
  "ba_acceptedEvents (pb_result (with_acknowledgements ex ids pb)) = ba_acceptedEvents (pb_result pb)"
  "ba_deduplicatedCount (pb_result (with_acknowledgements ex ids pb)) = ba_deduplicatedCount (pb_result pb)"
  "ba_totalStored (pb_result (with_acknowledgements ex ids pb)) = ba_totalStored (pb_result pb)"
  by (simp_all add: with_acknowledgements_def)

lemma prepareBranchBatch_Inr:
  assumes "prepareBranchBatch pf c is h t existing now = Inr pb"
  obtains unique accepted pb0 where
    "\<not> head_corrupt (target c) h" "placement c = placement h" "\<not> batch_sequence_exhausted h"
    "is_safe_integer now" "0 \<le> now" "batch_classify existing is [] [] = Inr (unique, accepted)"
    "batch_follows (eventSeq (hd_version h)) accepted"
    "hashNulldownSourceContent pf t = sourceContentHash (hd_version h)"
    "(if accepted = [] then Inr (batch_nothing_new c h t) else batch_publication pf c accepted h t now) = Inr pb0"
    "pb = with_acknowledgements existing (map fst unique) pb0"
proof -
  from assms obtain unique accepted where cl: "batch_classify existing is [] [] = Inr (unique, accepted)"
    unfolding prepareBranchBatch_def by (auto simp: result_simps split: if_splits)
  from assms obtain pb0 where p: "(if accepted = [] then Inr (batch_nothing_new c h t)
      else batch_publication pf c accepted h t now) = Inr pb0"
    unfolding prepareBranchBatch_def by (auto simp: cl and_then_Inr_iff Let_def split: if_splits)
  show ?thesis
    by (rule that [OF _ _ _ _ _ cl _ _ p])
      (use assms in \<open>auto simp: prepareBranchBatch_def cl p Let_def with_acknowledgements_def split: if_splits\<close>)
qed

lemma list_all2_memD: "list_all2 P xs ys \<Longrightarrow> y \<in> set ys \<Longrightarrow> \<exists>x \<in> set xs. P x y"
  by (induction rule: list_all2_induct) auto

lemma captured_batch_events:
  assumes "captureBranchBatchAppend input = Inr c"
  shows "valid_target (target c)" "valid_placement (placement c)" "target c = target input"
    "placement c = placement input" "length (events c) \<le> 100"
    "\<forall>e \<in> set (events c). captured_event e \<and> dropId e = rootDropId (target c)"
proof -
  from assms obtain es fs where q: "valid_target (target input)" "valid_placement (placement input)"
    and s: "DropDiffAppendEnvelopeSchema (envelope_json (events input)) = Some es"
    and m: "map_result (capture_batch_event (query_of input)) es = Inr fs"
    and c: "c = \<lparr>target = target input, placement = placement input, events = fs\<rparr>"
    by (auto simp: captureBranchBatchAppend_def result_simps split: option.splits)
  show "valid_target (target c)" "valid_placement (placement c)" "target c = target input"
    "placement c = placement input" using q c by simp_all
  note v = DropDiffAppendEnvelopeSchema_valid [OF s]
  note l = m [unfolded map_result_Inr_iff]
  have "length fs = length es" using l by (metis list_all2_lengthD)
  with v show "length (events c) \<le> 100" by (simp add: c bounded_def DIFF_ENVELOPE_MAX_EVENTS_def)
  show "\<forall>e \<in> set (events c). captured_event e \<and> dropId e = rootDropId (target c)"
  proof
    fix f assume "f \<in> set (events c)"
    then have "f \<in> set fs" by (simp add: c)
    with list_all2_memD [OF l] obtain e where e: "e \<in> set es" "capture_batch_event (query_of input) e = Inr f"
      by blast
    from e(1) v have ve: "valid_event e" "event_integers_safe e" by (auto simp: list_all_iff)
    from e(2) obtain ops where o: "captured_ops (event_ops e) = Inr ops" "dropId e = rootDropId (target input)"
      and f: "f = e \<lparr>event_seq := - 1, event_ops := ops, event_snapshotId := None\<rparr>"
      by (auto simp: capture_batch_event_def result_simps split: if_splits)
    have "f = e \<lparr>event_ops := ops, event_seq := - 1, event_snapshotId := None\<rparr>" by (simp add: f)
    with captured_eventI [OF ve o(1)] o(2) show "captured_event f \<and> dropId f = rootDropId (target c)"
      by (simp add: c)
  qed
qed

section \<open>A head for examples\<close>

definition example_version :: BranchStateVersion where
  "example_version = \<lparr>snapshotId = 0, eventSeq = -1, sourceContentHash = hashNulldownSourceContent example_platform []\<rparr>"

definition example_branch :: DropBranchRecord where
  "example_branch = \<lparr>br_branchId = js ''owner'', br_rootDropId = js ''d'', br_baseDropId = js ''d'',
     br_mode = Owner, br_status = Active, br_ownerAccountId = Some (js ''a''),
     br_writerAccountId = Some (js ''a''), br_writerClientId = None, br_headSnapshotId = 0,
     br_snapshotHeapVersion = Some 2, br_headEventSeq = Some (-1), br_checkpointInterval = Some 24,
     br_createdAt = 1, br_updatedAt = 1\<rparr>"

definition example_head :: BranchStateHead where
  "example_head = \<lparr>target = example_target, placement = example_placement, hd_branch = example_branch,
     hd_version = example_version\<rparr>"

lemma example_head_ok: "\<not> head_corrupt example_target example_head" "\<not> batch_sequence_exhausted example_head"
  by (simp_all add: head_corrupt_def example_head_def example_branch_def example_version_def example_target_def
      batch_sequence_exhausted_def is_safe_integer_def max_safe_integer_def)

lemma example_event_decodable: "list_all decodable (event_ops example_event)"
  using fromRecord_json [of "hd (event_ops example_event)"] example_event_valid
  by (simp add: example_event_def decodable_def dropDiffOpV1ToDiff_def valid_event_def)

end
