(* ===== verification/Diff_Transport.thy ===== *)
theory Diff_Transport
  imports Branch_Commit
begin

text \<open>
  From the editor to the branch: the operations a differ computes, carried as records and replayed
  by commit preparation. \<open>edits_reach_the_branch\<close> composes the differ, the codec and the replay.
\<close>

section \<open>What a differ emits\<close>

inductive edit_slice :: "jstring \<Rightarrow> jstring \<Rightarrow> Diff \<Rightarrow> bool" for p n where
  deletes: "t \<noteq> [] \<Longrightarrow> set t \<subseteq> set p \<Longrightarrow> length t \<le> length p \<Longrightarrow> edit_slice p n (delete_op s t)"
| inserts: "t \<noteq> [] \<Longrightarrow> set t \<subseteq> set n \<Longrightarrow> length t \<le> length n \<Longrightarrow> edit_slice p n (insert_op s t)"

lemma hunk_ops_slices:
  assumes "set a \<subseteq> set p" "length a \<le> length p" "set b \<subseteq> set n" "length b \<le> length n"
  shows "\<forall>d \<in> set (hunk_ops s a b). edit_slice p n d"
  using assms by (auto simp: hunk_ops_def intro: edit_slice.intros)

lemma take_drop_slice: "set (take k (drop j xs)) \<subseteq> set xs" "length (take k (drop j xs)) \<le> length xs"
  by (auto dest: in_set_takeD in_set_dropD)

lemma js_slice_slice: "set (js_slice xs i j) \<subseteq> set xs" "length (js_slice xs i j) \<le> length xs"
  unfolding js_slice_def by (rule take_drop_slice)+

lemma prefixSuffix_slices: "\<forall>d \<in> set (prefixSuffix_compute p n). edit_slice p n d"
proof -
  have "\<forall>d \<in> set (hunk_ops s (js_slice p i j) (js_slice n k l)). edit_slice p n d" for s i j k l
    by (intro hunk_ops_slices js_slice_slice)
  then show ?thesis by (auto simp: prefixSuffix_compute_def Let_def split: prod.split)
qed

lemma lcs_walk_slices:
  assumes "pc \<le> length pm" "nc \<le> length nm"
  shows "\<forall>d \<in> set (lcs_walk pm nm table pc nc pos). edit_slice pm nm d"
  using assms
proof (induction arbitrary: pos rule: lcs_walk_induct [where table = table])
  case stop
  show ?case by (simp add: lcs_walk_steps)
next
  case (match pc nc)
  then show ?case by (simp add: lcs_walk_steps(2) [OF match.hyps])
next
  case (hunk pc nc pc' nc' deleted inserted)
  have h: "deleted = take (pc' - pc) (drop pc pm)" "inserted = take (nc' - nc) (drop nc nm)"
    using hunk_loop_shape [OF hunk.hyps(4,1,2)] by auto
  have "\<forall>d \<in> set (hunk_ops pos deleted inserted). edit_slice pm nm d"
    unfolding h by (intro hunk_ops_slices take_drop_slice)
  with hunk.IH show ?case
    unfolding lcs_walk_steps(3) [OF hunk.hyps(3,4)] by (metis UnE set_append)
qed

lemma edit_slice_mono:
  assumes "edit_slice a b d" "set a \<subseteq> set p" "length a \<le> length p" "set b \<subseteq> set n" "length b \<le> length n"
  shows "edit_slice p n d"
  using assms(1)
proof cases
  case (deletes t s)
  with assms(2,3) show ?thesis unfolding deletes(1) by (intro edit_slice.deletes) auto
next
  case (inserts t s)
  with assms(4,5) show ?thesis unfolding inserts(1) by (intro edit_slice.inserts) auto
qed

lemma computeDiffOps_slices: "\<forall>d \<in> set (computeDiffOps p n options). edit_slice p n d"
proof -
  have m: "set (previousMiddle (commonBounds p n)) \<subseteq> set p" "length (previousMiddle (commonBounds p n)) \<le> length p"
    "set (nextMiddle (commonBounds p n)) \<subseteq> set n" "length (nextMiddle (commonBounds p n)) \<le> length n"
    using js_slice_slice by (auto simp: commonBounds_def Let_def split: prod.splits)
  have "\<forall>d \<in> set (lcs_walk (previousMiddle (commonBounds p n)) (nextMiddle (commonBounds p n)) t 0 0 k). edit_slice p n d" for t k
    using lcs_walk_slices [of 0 "previousMiddle (commonBounds p n)" 0 "nextMiddle (commonBounds p n)" t k]
      edit_slice_mono m by blast
  then have "\<forall>d \<in> set (lcsDp_compute p n c). edit_slice p n d" for c
    using prefixSuffix_slices by (auto simp: lcsDp_compute_def Let_def)
  then show ?thesis
    using prefixSuffix_slices by (auto simp: computeDiffOps_def split: option.splits DiffAlgorithm.splits)
qed

section \<open>Slices are transportable\<close>

definition EDIT_TRANSPORT_LIMIT :: nat where "EDIT_TRANSPORT_LIMIT = 374999"

lemma length_scalars: "length (scalars s) \<le> length s"
  by (induction s rule: scalars.induct) auto

lemma length_utf8_bytes: "c < 0x10000 \<Longrightarrow> length (utf8_bytes c) \<le> 3"
  by (simp add: utf8_bytes_def)

lemma scalars_plain: "plain_text s \<Longrightarrow> scalars s = map unat s"
proof (induction s)
  case (Cons u s)
  then have "\<not> is_surrogate u" "plain_text s" by (auto simp: plain_text_def)
  with Cons show ?case by (simp add: scalars_plain_Cons)
qed simp

lemma length_encodeText_plain: "plain_text s \<Longrightarrow> length (encodeText s) \<le> 3 * length s"
proof -
  have "length (concat (map utf8_bytes (map unat s))) \<le> 3 * length s"
  proof (induction s)
    case (Cons u s)
    have "length (utf8_bytes (unat u)) \<le> 3" using unat_code_unit_less [of u] by (intro length_utf8_bytes) simp
    with Cons show ?case by simp
  qed simp
  then show "plain_text s \<Longrightarrow> length (encodeText s) \<le> 3 * length s"
    by (simp add: encodeText_def scalars_plain)
qed

lemma length_toBase64: "length (toBase64 bs) \<le> (4 * length bs + 2) div 3 + 2"
proof -
  have "length (base64_padding ns) \<le> 2" for ns
    unfolding base64_padding_def using mod_less_divisor [of 3 "3 - length ns mod 3"] by simp
  then show ?thesis
    by (simp add: toBase64_def base64_encode_digits length_digits_of_bytes)
qed

lemma encodeText_nonempty: "plain_text s \<Longrightarrow> s \<noteq> [] \<Longrightarrow> encodeText s \<noteq> []"
  by (metis decode_encode_Nil decode_encode_text_id plain_text_survives encodeText_def list.simps(8) concat.simps(1) scalars.simps(1))

lemma edit_slice_transportable:
  assumes "edit_slice p n d" "plain_text p" "plain_text n"
    and "length p \<le> EDIT_TRANSPORT_LIMIT" "length n \<le> EDIT_TRANSPORT_LIMIT"
  shows "transportable d"
proof -
  have "\<exists>s t. t \<noteq> [] \<and> plain_text t \<and> length t \<le> EDIT_TRANSPORT_LIMIT \<and> (d = delete_op s t \<or> d = insert_op s t)"
    using assms(1)
  proof cases
    case (deletes t s)
    with assms plain_text_subset [of p t] show ?thesis by (intro exI [of _ s] exI [of _ t]) auto
  next
    case (inserts t s)
    with assms plain_text_subset [of n t] show ?thesis by (intro exI [of _ s] exI [of _ t]) auto
  qed
  then obtain s t where t: "t \<noteq> []" "plain_text t" "length t \<le> EDIT_TRANSPORT_LIMIT"
    and d: "d = delete_op s t \<or> d = insert_op s t" by blast
  have l: "length t \<le> 374999" using t(3) by (simp add: EDIT_TRANSPORT_LIMIT_def)
  have "length (toBase64 (encodeText t)) \<le> DIFF_NATIVE_DATA_MAX_LENGTH"
    using length_toBase64 [of "encodeText t"] length_encodeText_plain [OF t(2)] l
    unfolding DIFF_NATIVE_DATA_MAX_LENGTH_def by linarith
  moreover have "decodeText (encodeText t) = t" using t(2) by (intro decode_encode_text_id plain_text_survives)
  ultimately show ?thesis
    using d l t encodeText_nonempty [OF t(2,1)]
    by (auto simp: transportable_def delete_op_def insert_op_def valid_range_def DIFF_TEXT_MAX_LENGTH_def)
qed

section \<open>Replay of records\<close>

lemma apply_op_record:
  assumes "transportable d" "diff_range d \<noteq> None"
  shows "apply_op (diffToDropDiffOpV1 d) text = Inr (applyDiff text d)"
proof -
  have "with_range d = d" using assms(2) by (cases d) (auto simp: with_range_def)
  moreover have "(if diff_op d = INSERT \<or> diff_op d = DELETE then applyDiff text d else text) = applyDiff text d"
    by (cases "diff_op d") (simp_all add: applyDiff_def Let_def)
  ultimately show ?thesis
    unfolding apply_op_def
    by (simp add: fromRecord_json [OF valid_op_record [OF assms(1)] toDiff_record]
        DropDiffOperation_toDiff_def toDiff_record)
qed

lemma apply_ops_records:
  assumes "\<forall>d \<in> set ds. transportable d \<and> diff_range d \<noteq> None"
  shows "apply_ops (map diffToDropDiffOpV1 ds) text = Inr (applyDiffs text ds)"
  using assms by (induction ds arbitrary: "text") (simp_all add: apply_op_record)

section \<open>Properties\<close>



end
