(* ===== verification/Ui_Facts.thy ===== *)
theory Ui_Facts
  imports Diff_Codec
begin

text \<open>
  Nullplug UI facts as they are stored in a branch: \<^verbatim>\<open>shared/nullplug/ui-schemas.ts\<close> and
  \<^verbatim>\<open>shared/nullplug/ui.ts\<close>. A fact keeps every extension field a caller sends, so it is a JSON object;
  the schemas are predicates on JSON, the identities and storage keys are read off its fields.
\<close>

section \<open>Objects\<close>

definition entries :: "json \<Rightarrow> (jstring \<times> json) list" where
  "entries v = (case v of JObj kvs \<Rightarrow> kvs | _ \<Rightarrow> [])"

definition is_object :: "json \<Rightarrow> bool" where
  "is_object v \<longleftrightarrow> (case v of JObj kvs \<Rightarrow> True | _ \<Rightarrow> False)"

definition get :: "string \<Rightarrow> json \<Rightarrow> json option" where
  "get k v = map_of (entries v) (js k)"

definition get_string :: "string \<Rightarrow> json \<Rightarrow> jstring option" where
  "get_string k v = (case get k v of Some (JStr s) \<Rightarrow> Some s | _ \<Rightarrow> None)"

text \<open>Assignment and spread of a property, and its deletion.\<close>

definition set_prop :: "string \<Rightarrow> json \<Rightarrow> json \<Rightarrow> json" where
  "set_prop k x v = JObj (AList.update (js k) x (entries v))"

definition delete_prop :: "string \<Rightarrow> json \<Rightarrow> json" where
  "delete_prop k v = JObj (AList.delete (js k) (entries v))"

text \<open>Schema predicates: a required and an optional property of a non-strict object.\<close>

definition req :: "string \<Rightarrow> (json \<Rightarrow> bool) \<Rightarrow> json \<Rightarrow> bool" where
  "req k p v \<longleftrightarrow> is_object v \<and> (case get k v of None \<Rightarrow> False | Some x \<Rightarrow> p x)"

definition opt :: "string \<Rightarrow> (json \<Rightarrow> bool) \<Rightarrow> json \<Rightarrow> bool" where
  "opt k p v \<longleftrightarrow> is_object v \<and> opt_all p (get k v)"

fun json_string :: "json \<Rightarrow> bool" where
  "json_string (JStr s) = True"
| "json_string _ = False"

fun json_number :: "json \<Rightarrow> bool" where
  "json_number (JNum r) = True"
| "json_number _ = False"

fun json_bool :: "json \<Rightarrow> bool" where
  "json_bool (JBool b) = True"
| "json_bool _ = False"

definition json_literal :: "string \<Rightarrow> json \<Rightarrow> bool" where
  "json_literal s v \<longleftrightarrow> v = JStr (js s)"

definition json_enum :: "string list \<Rightarrow> json \<Rightarrow> bool" where
  "json_enum ss v \<longleftrightarrow> (\<exists>s \<in> set ss. v = JStr (js s))"

definition json_array :: "(json \<Rightarrow> bool) \<Rightarrow> json \<Rightarrow> bool" where
  "json_array p v \<longleftrightarrow> (case v of JArr vs \<Rightarrow> list_all p vs | _ \<Rightarrow> False)"

definition json_array1 :: "(json \<Rightarrow> bool) \<Rightarrow> json \<Rightarrow> bool" where
  "json_array1 p v \<longleftrightarrow> (case v of JArr vs \<Rightarrow> vs \<noteq> [] \<and> list_all p vs | _ \<Rightarrow> False)"

section \<open>Schemas\<close>

text \<open>Every JSON value satisfies the recursive value schema; a JSON record is an object.\<close>

definition NullplugUiJsonValueSchema :: "json \<Rightarrow> bool" where
  "NullplugUiJsonValueSchema v \<longleftrightarrow> True"

definition NullplugUiJsonRecordSchema :: "json \<Rightarrow> bool" where
  "NullplugUiJsonRecordSchema v \<longleftrightarrow> is_object v"

definition NullplugUiSourceSchema :: "json \<Rightarrow> bool" where
  "NullplugUiSourceSchema v \<longleftrightarrow>
     req ''rootDropId'' json_string v \<and> opt ''branchId'' json_string v \<and>
     opt ''snapshotId'' json_number v \<and>
     opt ''sourceContentHash'' (\<lambda>x. json_string x \<and> x \<noteq> JStr []) v \<and>
     opt ''eventId'' json_string v \<and> opt ''callId'' json_string v"

definition NullplugUiFieldOptionSchema :: "json \<Rightarrow> bool" where
  "NullplugUiFieldOptionSchema v \<longleftrightarrow>
     req ''label'' json_string v \<and> req ''value'' NullplugUiJsonValueSchema v"

definition NullplugUiFieldSchema :: "json \<Rightarrow> bool" where
  "NullplugUiFieldSchema v \<longleftrightarrow>
     req ''name'' json_string v \<and>
     req ''type'' (json_enum [''text'', ''textarea'', ''number'', ''boolean'', ''select'']) v \<and>
     opt ''label'' json_string v \<and> opt ''required'' json_bool v \<and>
     opt ''defaultValue'' NullplugUiJsonValueSchema v \<and>
     opt ''options'' (json_array NullplugUiFieldOptionSchema) v \<and>
     opt ''metadata'' NullplugUiJsonRecordSchema v"

definition primitiveFields :: "json \<Rightarrow> bool" where
  "primitiveFields v \<longleftrightarrow> opt ''source'' NullplugUiSourceSchema v \<and> opt ''metadata'' NullplugUiJsonRecordSchema v"

definition NullplugActionPrimitiveSchema :: "json \<Rightarrow> bool" where
  "NullplugActionPrimitiveSchema v \<longleftrightarrow>
     req ''kind'' (json_literal ''action'') v \<and> req ''id'' json_string v \<and> req ''label'' json_string v \<and>
     opt ''intent'' json_string v \<and> opt ''value'' NullplugUiJsonValueSchema v \<and>
     opt ''requiresConfirmation'' json_bool v \<and> primitiveFields v"

definition NullplugFormPrimitiveSchema :: "json \<Rightarrow> bool" where
  "NullplugFormPrimitiveSchema v \<longleftrightarrow>
     req ''kind'' (json_literal ''form'') v \<and> req ''id'' json_string v \<and> opt ''title'' json_string v \<and>
     opt ''description'' json_string v \<and> req ''fields'' (json_array NullplugUiFieldSchema) v \<and>
     opt ''submitLabel'' json_string v \<and> primitiveFields v"

definition NullplugCardPrimitiveSchema :: "json \<Rightarrow> bool" where
  "NullplugCardPrimitiveSchema v \<longleftrightarrow>
     req ''kind'' (json_literal ''card'') v \<and> req ''id'' json_string v \<and> opt ''title'' json_string v \<and>
     opt ''body'' json_string v \<and> opt ''actions'' (json_array NullplugActionPrimitiveSchema) v \<and>
     primitiveFields v"

definition NullplugUiPrimitiveSchema :: "json \<Rightarrow> bool" where
  "NullplugUiPrimitiveSchema v \<longleftrightarrow>
     NullplugFormPrimitiveSchema v \<or> NullplugActionPrimitiveSchema v \<or> NullplugCardPrimitiveSchema v"

definition path_part :: "json \<Rightarrow> bool" where
  "path_part v \<longleftrightarrow> (case v of JStr s \<Rightarrow> js_trim s \<noteq> [] | _ \<Rightarrow> False)"

definition NullplugUiStatePatchOperationSchema :: "json \<Rightarrow> bool" where
  "NullplugUiStatePatchOperationSchema v \<longleftrightarrow>
     (req ''op'' (json_literal ''set'') v \<and> req ''path'' (json_array1 path_part) v \<and>
      req ''value'' NullplugUiJsonValueSchema v) \<or>
     (req ''op'' (json_literal ''delete'') v \<and> req ''path'' (json_array1 path_part) v \<and> get ''value'' v = None)"

definition NullplugUiResponseFactSchema :: "json \<Rightarrow> bool" where
  "NullplugUiResponseFactSchema v \<longleftrightarrow>
     req ''version'' (\<lambda>x. x = JNum 1) v \<and> req ''kind'' (json_literal ''ui.response'') v \<and>
     req ''id'' json_string v \<and> req ''primitiveId'' json_string v \<and> req ''createdAt'' json_number v \<and>
     req ''source'' NullplugUiSourceSchema v \<and> req ''data'' NullplugUiJsonRecordSchema v \<and>
     opt ''proposedDiffs'' (\<lambda>x. DropDiffEnvelopeSchema x \<noteq> None) v \<and>
     opt ''metadata'' NullplugUiJsonRecordSchema v"

definition NullplugUiStatePatchFactSchema :: "json \<Rightarrow> bool" where
  "NullplugUiStatePatchFactSchema v \<longleftrightarrow>
     req ''version'' (\<lambda>x. x = JNum 1) v \<and> req ''kind'' (json_literal ''ui.state.patch'') v \<and>
     req ''id'' json_string v \<and> req ''callId'' json_string v \<and> req ''createdAt'' json_number v \<and>
     req ''source'' NullplugUiSourceSchema v \<and>
     req ''patch'' (json_array1 NullplugUiStatePatchOperationSchema) v \<and>
     opt ''reason'' json_string v \<and> opt ''metadata'' NullplugUiJsonRecordSchema v"

definition NullplugUiStateSnapshotSchema :: "json \<Rightarrow> bool" where
  "NullplugUiStateSnapshotSchema v \<longleftrightarrow>
     req ''version'' (\<lambda>x. x = JNum 1) v \<and> req ''kind'' (json_literal ''ui.state.snapshot'') v \<and>
     req ''id'' json_string v \<and> req ''callId'' json_string v \<and> req ''createdAt'' json_number v \<and>
     req ''source'' NullplugUiSourceSchema v \<and> req ''state'' NullplugUiJsonRecordSchema v \<and>
     opt ''patchIds'' (json_array json_string) v \<and> opt ''metadata'' NullplugUiJsonRecordSchema v"

definition isNullplugUiRuntimeFact :: "json \<Rightarrow> bool" where
  "isNullplugUiRuntimeFact v \<longleftrightarrow>
     NullplugUiResponseFactSchema v \<or> NullplugUiStatePatchFactSchema v \<or> NullplugUiStateSnapshotSchema v"

section \<open>Identities and keys\<close>

text \<open>The fields of a validated fact.\<close>

definition fact_string :: "string \<Rightarrow> json \<Rightarrow> jstring" where
  "fact_string k v = (case get_string k v of Some s \<Rightarrow> s | None \<Rightarrow> [])"

definition fact_source :: "json \<Rightarrow> json" where
  "fact_source v = (case get ''source'' v of Some s \<Rightarrow> s | None \<Rightarrow> JNull)"

definition is_response :: "json \<Rightarrow> bool" where
  "is_response v \<longleftrightarrow> get_string ''kind'' v = Some (js ''ui.response'')"

definition fact_owner :: "json \<Rightarrow> jstring" where
  "fact_owner v = (if is_response v then fact_string ''primitiveId'' v else fact_string ''callId'' v)"

definition nullplugUiRuntimeFactId :: "json \<Rightarrow> jstring" where
  "nullplugUiRuntimeFactId v =
     fact_string ''kind'' v @ js '':'' @ fact_owner v @ js '':'' @ fact_string ''id'' v"

definition is_key_char :: "code_unit \<Rightarrow> bool" where
  "is_key_char u \<longleftrightarrow>
     u \<in> set (js ''ABCDEFGHIJKLMNOPQRSTUVWXYZabcdefghijklmnopqrstuvwxyz0123456789._:-'')"

definition sanitizeNullplugUiKeyPart :: "jstring \<Rightarrow> jstring" where
  "sanitizeNullplugUiKeyPart s = map (\<lambda>u. if is_key_char u then u else 95) s"

definition branch_part :: "jstring option \<Rightarrow> jstring" where
  "branch_part b = (case b of Some s \<Rightarrow> if s \<noteq> [] then sanitizeNullplugUiKeyPart s else js ''drop'' | None \<Rightarrow> js ''drop'')"

definition fact_prefix :: "string \<Rightarrow> json \<Rightarrow> jstring" where
  "fact_prefix p v = js p @ sanitizeNullplugUiKeyPart (fact_string ''rootDropId'' (fact_source v)) @ js ''/'' @
     branch_part (get_string ''branchId'' (fact_source v)) @ js ''/''"

definition nullplugUiResponseFactKey :: "json \<Rightarrow> jstring" where
  "nullplugUiResponseFactKey v = fact_prefix ''__nullplug_ui_response_fact__/'' v @
     sanitizeNullplugUiKeyPart (fact_string ''primitiveId'' v) @ js ''/'' @
     sanitizeNullplugUiKeyPart (fact_string ''id'' v) @ js ''.json''"

definition call_part :: "json \<Rightarrow> jstring" where
  "call_part v = (if fact_string ''callId'' v \<noteq> [] then sanitizeNullplugUiKeyPart (fact_string ''callId'' v) @ js ''/'' else [])"

definition nullplugUiStatePatchFactKey :: "json \<Rightarrow> jstring" where
  "nullplugUiStatePatchFactKey v = fact_prefix ''__nullplug_ui_state_patch_fact__/'' v @ call_part v @
     sanitizeNullplugUiKeyPart (fact_string ''id'' v) @ js ''.json''"

definition nullplugUiStateSnapshotKey :: "json \<Rightarrow> jstring" where
  "nullplugUiStateSnapshotKey v = fact_prefix ''__nullplug_ui_state_snapshot__/'' v @ call_part v @
     sanitizeNullplugUiKeyPart (fact_string ''id'' v) @ js ''.json''"

section \<open>Lemmas\<close>

lemma get_set_prop [simp]: "get k (set_prop k' x v) = (if k = k' then Some x else get k v)"
  by (simp add: get_def set_prop_def entries_def)

lemma get_delete_prop [simp]: "get k (delete_prop k' v) = (if k = k' then None else get k v)"
  by (simp add: get_def delete_prop_def entries_def delete_conv' fun_upd_def)

lemma is_object_simps [simp]: "is_object (JObj kvs)" "is_object (set_prop k x v)" "is_object (delete_prop k v)"
  by (simp_all add: is_object_def set_prop_def delete_prop_def)

lemma sanitize_idem: "sanitizeNullplugUiKeyPart (sanitizeNullplugUiKeyPart s) = sanitizeNullplugUiKeyPart s"
proof -
  have "is_key_char 95" by (simp add: is_key_char_def js_def)
  then show ?thesis by (auto simp: sanitizeNullplugUiKeyPart_def)
qed

end
