(* ===== verification/Runtime_Facts.thy ===== *)
theory Runtime_Facts
  imports Ui_Facts Branch_Commit
begin

text \<open>
  Branch-local runtime facts: \<^verbatim>\<open>shared/drop/branch-runtime-facts.ts\<close>. A fact is captured with the
  authenticated actor, has an exact identity and an intent (everything but the two fields the server
  assigns), and is acknowledged by an immutable receipt. \<open>prepared_fact_receipt_valid\<close> shows that
  what preparation produces is what the validators at persistence and RPC boundaries accept.
\<close>

section \<open>Canonical JSON\<close>

text \<open>
  The inputs are JSON values, so none of the rejections of non-JSON inputs (cycles, symbols,
  accessors, exotic prototypes) applies. Keys are sorted; nothing is dropped.
\<close>

fun sort_json :: "json \<Rightarrow> json" where
  "sort_json (JArr vs) = JArr (map sort_json vs)"
| "sort_json (JObj kvs) = JObj (sort_key fst (map (\<lambda>(k, v). (k, sort_json v)) kvs))"
| "sort_json v = v"

definition canonicalRuntimeFactJson :: "platform \<Rightarrow> json \<Rightarrow> jstring" where
  "canonicalRuntimeFactJson pf v = stringify (number_text pf) (sort_json v)"

text \<open>\<^verbatim>\<open>JSON.parse\<close> of the canonical text: the same data, properties in the order parsing gives them.\<close>

fun reparse :: "json \<Rightarrow> json" where
  "reparse (JArr vs) = JArr (map reparse vs)"
| "reparse (JObj kvs) = JObj (property_order (sort_key fst (map (\<lambda>(k, v). (k, reparse v)) kvs)))"
| "reparse v = v"

section \<open>Records\<close>

record BranchRuntimeFactAppendCommand = BranchHeadQuery +
  rf_actorAccountId :: jstring
  rf_fact :: json

record DropBranchRuntimeFact =
  fe_rootDropId :: jstring
  fe_branchId :: jstring
  fe_seq :: int
  fe_factId :: jstring
  fe_createdAt :: int
  fe_fact :: json

record BranchRuntimeFactReceipt =
  fr_identity :: jstring
  fr_payloadHash :: jstring
  fr_key :: jstring
  fr_event :: DropBranchRuntimeFact

record BranchRuntimeFactAppendResult = BranchHeadQuery +
  fa_appended :: bool
  fa_receipt :: BranchRuntimeFactReceipt

record BranchRuntimeFactHead = BranchHeadQuery +
  fh_headSeq :: int

record BranchRuntimeFactPageQuery = BranchRuntimeFactHead +
  fq_afterSeq :: int
  fq_limit :: int

record BranchRuntimeFactPage = BranchRuntimeFactHead +
  fp_facts :: "DropBranchRuntimeFact list"
  fp_nextCursor :: "int option"

record BranchRuntimeFactOutbox = BranchHeadQuery +
  fo_id :: jstring
  fo_receipt :: BranchRuntimeFactReceipt

section \<open>Operations\<close>

definition runtimeFactIdentity :: "platform \<Rightarrow> json \<Rightarrow> jstring" where
  "runtimeFactIdentity pf v = canonicalRuntimeFactJson pf
     (JArr [JStr (fact_string ''kind'' v), JStr (fact_owner v), JStr (fact_string ''id'' v)])"

definition runtimeFactKey :: "json \<Rightarrow> jstring" where
  "runtimeFactKey v =
     (if is_response v then nullplugUiResponseFactKey v
      else if get_string ''kind'' v = Some (js ''ui.state.patch'') then nullplugUiStatePatchFactKey v
      else nullplugUiStateSnapshotKey v)"

definition metadata_of :: "json \<Rightarrow> json" where
  "metadata_of v = (case get ''metadata'' v of Some m \<Rightarrow> m | None \<Rightarrow> JObj [])"

definition captureRuntimeFactAppend ::
  "BranchRuntimeFactAppendCommand \<Rightarrow> BranchRuntimeFactAppendCommand branch_result" where
  "captureRuntimeFactAppend input =
     (if rf_actorAccountId input = [] then Inl Invalid_Command
      else and_then (BranchStateQuery_head input) (\<lambda>query.
        let f = reparse (rf_fact input)
        in if \<not> isNullplugUiRuntimeFact f \<or>
              get_string ''rootDropId'' (fact_source f) \<noteq> Some (rootDropId (target query)) \<or>
              get_string ''branchId'' (fact_source f) \<noteq> Some (branchId (target query))
           then Inl Invalid_Command
           else Inr \<lparr>target = target query, placement = placement query,
                     rf_actorAccountId = rf_actorAccountId input,
                     rf_fact = set_prop ''metadata''
                       (set_prop ''actorAccountId'' (JStr (rf_actorAccountId input)) (metadata_of f)) f\<rparr>))"

definition runtimeFactIntent :: "platform \<Rightarrow> json \<Rightarrow> jstring" where
  "runtimeFactIntent pf v =
     (let i = delete_prop ''createdAt'' (reparse v)
      in canonicalRuntimeFactJson pf (set_prop ''source'' (delete_prop ''snapshotId'' (fact_source i)) i))"

definition hashRuntimeFactIntent :: "platform \<Rightarrow> jstring \<Rightarrow> jstring" where
  "hashRuntimeFactIntent pf intent = hashNulldownSourceContent pf (js ''nulldown.branch-runtime-fact.v1'' @ [10] @ intent)"

definition captureRuntimeFactPage :: "BranchRuntimeFactPageQuery \<Rightarrow> BranchRuntimeFactPageQuery branch_result" where
  "captureRuntimeFactPage input =
     and_then (BranchStateQuery_head input) (\<lambda>query.
       if \<not> is_safe_integer (fh_headSeq input) \<or> fh_headSeq input < - 1 \<or>
          \<not> is_safe_integer (fq_afterSeq input) \<or> fq_afterSeq input < - 1 \<or>
          \<not> is_safe_integer (fq_limit input) \<or> fq_limit input < 1 \<or> fq_limit input > 200
       then Inl Invalid_Command
       else Inr \<lparr>target = target query, placement = placement query, fh_headSeq = fh_headSeq input,
                 fq_afterSeq = fq_afterSeq input, fq_limit = fq_limit input\<rparr>)"

text \<open>\<^verbatim>\<open>isDropBranchRuntimeFact\<close> on the typed event.\<close>

definition isDropBranchRuntimeFact :: "DropBranchRuntimeFact \<Rightarrow> bool" where
  "isDropBranchRuntimeFact e \<longleftrightarrow> 0 \<le> fe_seq e \<and> isNullplugUiRuntimeFact (fe_fact e) \<and>
     get_string ''rootDropId'' (fact_source (fe_fact e)) = Some (fe_rootDropId e) \<and>
     get_string ''branchId'' (fact_source (fe_fact e)) = Some (fe_branchId e)"

definition has_actor :: "json \<Rightarrow> bool" where
  "has_actor v \<longleftrightarrow> (case get ''metadata'' v of
     Some m \<Rightarrow> (case get_string ''actorAccountId'' m of Some a \<Rightarrow> a \<noteq> [] | None \<Rightarrow> False)
   | None \<Rightarrow> False)"

definition source_snapshot :: "json \<Rightarrow> int option" where
  "source_snapshot v = Option.bind (get ''snapshotId'' (fact_source v)) z_integer"

definition validateRuntimeFactEvent ::
  "DropBranchRuntimeFact \<Rightarrow> 'a BranchHeadQuery_scheme \<Rightarrow> bool \<Rightarrow> unit branch_result" where
  "validateRuntimeFactEvent e query allowMissingActor =
     (if \<not> isDropBranchRuntimeFact e \<or>
         fe_rootDropId e \<noteq> rootDropId (target query) \<or> fe_branchId e \<noteq> branchId (target query) \<or>
         get_string ''rootDropId'' (fact_source (fe_fact e)) \<noteq> Some (rootDropId (target query)) \<or>
         get_string ''branchId'' (fact_source (fe_fact e)) \<noteq> Some (branchId (target query)) \<or>
         \<not> is_safe_integer (fe_seq e) \<or> fe_seq e < 0 \<or>
         \<not> is_safe_integer (fe_createdAt e) \<or> fe_createdAt e < 0 \<or>
         get ''createdAt'' (fe_fact e) \<noteq> Some (j_int (fe_createdAt e)) \<or>
         (case source_snapshot (fe_fact e) of None \<Rightarrow> True | Some n \<Rightarrow> \<not> is_safe_integer n \<or> n < 0) \<or>
         (case get_string ''sourceContentHash'' (fact_source (fe_fact e)) of
            None \<Rightarrow> True | Some h \<Rightarrow> \<not> isNulldownSourceHash h) \<or>
         (\<not> allowMissingActor \<and> \<not> has_actor (fe_fact e)) \<or>
         fe_factId e \<noteq> nullplugUiRuntimeFactId (fe_fact e)
      then Inl State_Corrupt else Inr ())"

definition validateRuntimeFactReceipt ::
  "platform \<Rightarrow> BranchRuntimeFactReceipt \<Rightarrow> 'a BranchHeadQuery_scheme \<Rightarrow> bool \<Rightarrow> unit branch_result" where
  "validateRuntimeFactReceipt pf r query allowMissingActor =
     and_then (validateRuntimeFactEvent (fr_event r) query allowMissingActor) (\<lambda>_.
       if fr_identity r \<noteq> runtimeFactIdentity pf (fe_fact (fr_event r)) \<or>
          fr_key r \<noteq> runtimeFactKey (fe_fact (fr_event r)) \<or> \<not> isNulldownSourceHash (fr_payloadHash r)
       then Inl State_Corrupt else Inr ())"

definition authorize :: "jstring \<Rightarrow> BranchStateHead \<Rightarrow> unit branch_result" where
  "authorize actor head =
     (if Some actor \<noteq> br_ownerAccountId (hd_branch head) \<and> Some actor \<noteq> br_writerAccountId (hd_branch head)
      then Inl Forbidden else Inr ())"

definition authorizeRuntimeFact :: "BranchRuntimeFactAppendCommand \<Rightarrow> BranchStateHead \<Rightarrow> unit branch_result" where
  "authorizeRuntimeFact command head = authorize (rf_actorAccountId command) head"

definition assigned_fact :: "json \<Rightarrow> int \<Rightarrow> int \<Rightarrow> json" where
  "assigned_fact f now snap =
     set_prop ''source'' (set_prop ''snapshotId'' (j_int snap) (fact_source f)) (set_prop ''createdAt'' (j_int now) f)"

definition prepareRuntimeFactReceipt ::
  "platform \<Rightarrow> BranchRuntimeFactAppendCommand \<Rightarrow> BranchStateHead \<Rightarrow> int \<Rightarrow> jstring \<Rightarrow> int
   \<Rightarrow> BranchRuntimeFactReceipt branch_result" where
  "prepareRuntimeFactReceipt pf command head headSeq payload now =
     (let src = get_string ''sourceContentHash'' (fact_source (rf_fact command)) in
      if br_status (hd_branch head) \<noteq> Active then Inl Branch_Not_Active
      else if src = None \<or> src = Some [] then Inl Source_Hash_Required
      else if src \<noteq> Some (sourceContentHash (hd_version head)) then Inl Stale_Source
      else if \<not> is_safe_integer now \<or> now < 0 then Inl Invalid_Command
      else if \<not> is_safe_integer (headSeq + 1) \<or> headSeq < - 1 then Inl Runtime_Fact_Sequence_Exhausted
      else
        let f = assigned_fact (rf_fact command) now (snapshotId (hd_version head))
        in Inr \<lparr>fr_identity = runtimeFactIdentity pf f, fr_payloadHash = payload, fr_key = runtimeFactKey f,
                fr_event = \<lparr>fe_rootDropId = rootDropId (target command), fe_branchId = branchId (target command),
                  fe_seq = headSeq + 1, fe_factId = nullplugUiRuntimeFactId f, fe_createdAt = now, fe_fact = f\<rparr>\<rparr>)"

definition runtimeFactOutbox ::
  "platform \<Rightarrow> 'a BranchHeadQuery_scheme \<Rightarrow> BranchRuntimeFactReceipt \<Rightarrow> BranchRuntimeFactOutbox" where
  "runtimeFactOutbox pf query receipt =
     \<lparr>target = target query, placement = placement query,
      fo_id = canonicalRuntimeFactJson pf (JArr [JStr (js ''branch.runtime-fact.v1''),
        JStr (rootDropId (target query)), JStr (branchId (target query)),
        j_int (routingVersion (placement query)), j_int (generation (placement query)), JStr (fr_identity receipt)]),
      fo_receipt = receipt\<rparr>"

section \<open>Lemmas\<close>

lemma req_set_prop: "req k p (set_prop k' x v) \<longleftrightarrow> (if k = k' then p x else is_object (set_prop k' x v) \<and> opt_all p (get k v) \<and> get k v \<noteq> None)"
  by (auto simp: req_def split: option.splits)

lemma req_other: "k \<noteq> k' \<Longrightarrow> req k p v \<Longrightarrow> req k p (set_prop k' x v)"
  by (simp add: req_def)

lemma opt_other: "k \<noteq> k' \<Longrightarrow> opt k p v \<Longrightarrow> opt k p (set_prop k' x v)"
  by (simp add: opt_def)

lemma get_string_set_prop [simp]: "k \<noteq> k' \<Longrightarrow> get_string k (set_prop k' x v) = get_string k v"
  by (simp add: get_string_def)

lemma fact_string_set_prop [simp]: "k \<noteq> k' \<Longrightarrow> fact_string k (set_prop k' x v) = fact_string k v"
  by (simp add: fact_string_def)

lemma fact_source_set_prop [simp]:
  "fact_source (set_prop k x v) = (if k = ''source'' then x else fact_source v)"
  by (simp add: fact_source_def)

lemma source_schema_assigned:
  "NullplugUiSourceSchema v \<Longrightarrow> NullplugUiSourceSchema (set_prop ''snapshotId'' (j_int n) v)"
  by (auto simp: NullplugUiSourceSchema_def opt_def req_def j_int_def)

lemma fact_schema_source: "isNullplugUiRuntimeFact f \<Longrightarrow> NullplugUiSourceSchema (fact_source f)"
  by (auto simp: isNullplugUiRuntimeFact_def NullplugUiResponseFactSchema_def NullplugUiStatePatchFactSchema_def
      NullplugUiStateSnapshotSchema_def req_def fact_source_def split: option.splits)

lemma fact_schema_set:
  assumes "isNullplugUiRuntimeFact f"
  shows "isNullplugUiRuntimeFact (set_prop ''createdAt'' (j_int n) f)"
    and "NullplugUiSourceSchema s \<Longrightarrow> isNullplugUiRuntimeFact (set_prop ''source'' s f)"
    and "is_object m \<Longrightarrow> isNullplugUiRuntimeFact (set_prop ''metadata'' m f)"
  using assms
  by (auto simp: isNullplugUiRuntimeFact_def NullplugUiResponseFactSchema_def NullplugUiStatePatchFactSchema_def
      NullplugUiStateSnapshotSchema_def NullplugUiJsonRecordSchema_def req_def opt_def j_int_def)

text \<open>Reparsing keeps every property.\<close>

lemma map_of_reorder:
  assumes "jsmap_wf (kvs :: (jstring \<times> json) list)"
  shows "map_of (property_order (sort_key fst kvs)) = map_of kvs"
proof -
  have m: "mset (property_order (sort_key fst kvs)) = mset kvs" by simp
  then have "mset (map fst (property_order (sort_key fst kvs))) = mset (map fst kvs)"
    by (metis mset_map)
  then have "jsmap_wf (property_order (sort_key fst kvs))"
    using assms unfolding jsmap_wf_def by (metis mset_eq_imp_distinct_iff)
  with m mset_eq_map_of_iff assms show ?thesis by blast
qed

lemma get_reparse:
  assumes "jsmap_wf kvs"
  shows "get k (reparse (JObj kvs)) = map_option reparse (map_of kvs (js k))"
proof -
  have "jsmap_wf (map (\<lambda>(k, v). (k, reparse v)) kvs)"
    using assms by (simp add: jsmap_wf_def comp_def case_prod_beta)
  from map_of_reorder [OF this] show ?thesis by (simp add: get_def entries_def map_of_map)
qed

lemma is_object_reparse [simp]: "is_object (reparse (JObj kvs))"
  by simp

text \<open>What a captured fact satisfies.\<close>

definition captured_fact :: "BranchRuntimeFactAppendCommand \<Rightarrow> bool" where
  "captured_fact c \<longleftrightarrow> valid_target (target c) \<and> valid_placement (placement c) \<and> rf_actorAccountId c \<noteq> [] \<and>
     isNullplugUiRuntimeFact (rf_fact c) \<and>
     get_string ''rootDropId'' (fact_source (rf_fact c)) = Some (rootDropId (target c)) \<and>
     get_string ''branchId'' (fact_source (rf_fact c)) = Some (branchId (target c)) \<and>
     Option.bind (get ''metadata'' (rf_fact c)) (get_string ''actorAccountId'') = Some (rf_actorAccountId c)"

lemma capture_fact: "captureRuntimeFactAppend i = Inr c \<Longrightarrow> captured_fact c"
  by (auto simp: captureRuntimeFactAppend_def captured_fact_def Let_def result_simps fact_schema_set
      get_string_def split: if_splits)

lemma capture_fact_query:
  "captureRuntimeFactAppend i = Inr c \<Longrightarrow> target c = target i \<and> placement c = placement i \<and>
     rf_actorAccountId c = rf_actorAccountId i"
  by (auto simp: captureRuntimeFactAppend_def Let_def result_simps split: if_splits)

lemma assigned_fact_reads [simp]:
  "k \<noteq> ''source'' \<Longrightarrow> k \<noteq> ''createdAt'' \<Longrightarrow> get k (assigned_fact f now snap) = get k f"
  "k \<noteq> ''source'' \<Longrightarrow> k \<noteq> ''createdAt'' \<Longrightarrow> get_string k (assigned_fact f now snap) = get_string k f"
  "k \<noteq> ''source'' \<Longrightarrow> k \<noteq> ''createdAt'' \<Longrightarrow> fact_string k (assigned_fact f now snap) = fact_string k f"
  "k \<noteq> ''snapshotId'' \<Longrightarrow> get_string k (fact_source (assigned_fact f now snap)) = get_string k (fact_source f)"
  "k \<noteq> ''snapshotId'' \<Longrightarrow> fact_string k (fact_source (assigned_fact f now snap)) = fact_string k (fact_source f)"
  "get ''createdAt'' (assigned_fact f now snap) = Some (j_int now)"
  "source_snapshot (assigned_fact f now snap) = Some snap"
  by (simp_all add: assigned_fact_def source_snapshot_def z_integer_j_int)

lemma assigned_fact_same [simp]:
  "runtimeFactIdentity pf (assigned_fact f now snap) = runtimeFactIdentity pf f"
  "nullplugUiRuntimeFactId (assigned_fact f now snap) = nullplugUiRuntimeFactId f"
  "runtimeFactKey (assigned_fact f now snap) = runtimeFactKey f"
  by (simp_all add: runtimeFactIdentity_def nullplugUiRuntimeFactId_def runtimeFactKey_def fact_owner_def
      is_response_def nullplugUiResponseFactKey_def nullplugUiStatePatchFactKey_def
      nullplugUiStateSnapshotKey_def fact_prefix_def call_part_def)

lemma assigned_fact_schema:
  "isNullplugUiRuntimeFact f \<Longrightarrow> isNullplugUiRuntimeFact (assigned_fact f now snap)"
  unfolding assigned_fact_def by (intro fact_schema_set source_schema_assigned fact_schema_source)

lemma prepareRuntimeFactReceipt_Inr:
  assumes "prepareRuntimeFactReceipt pf c h n p now = Inr r"
  shows "br_status (hd_branch h) = Active"
    "get_string ''sourceContentHash'' (fact_source (rf_fact c)) = Some (sourceContentHash (hd_version h))"
    "is_safe_integer now" "0 \<le> now" "is_safe_integer (n + 1)" "- 1 \<le> n"
    "fr_identity r = runtimeFactIdentity pf (rf_fact c)" "fr_payloadHash r = p" "fr_key r = runtimeFactKey (rf_fact c)"
    "fr_event r = \<lparr>fe_rootDropId = rootDropId (target c), fe_branchId = branchId (target c), fe_seq = n + 1,
       fe_factId = nullplugUiRuntimeFactId (rf_fact c), fe_createdAt = now,
       fe_fact = assigned_fact (rf_fact c) now (snapshotId (hd_version h))\<rparr>"
  using assms by (auto simp: prepareRuntimeFactReceipt_def Let_def split: if_splits)

lemma prepared_fact_receipt_validates:
  assumes p: "prepareRuntimeFactReceipt pf c h n p now = Inr r" and c: "captured_fact c"
    and t: "target q = target c" and h: "valid_version (hd_version h)" and hash: "isNulldownSourceHash p"
  shows "validateRuntimeFactReceipt pf r q False = Inr ()"
proof -
  note r = prepareRuntimeFactReceipt_Inr [OF p]
  note f = c [unfolded captured_fact_def]
  obtain m where m: "get ''metadata'' (rf_fact c) = Some m" "get_string ''actorAccountId'' m = Some (rf_actorAccountId c)"
    using f by (cases "get ''metadata'' (rf_fact c)") auto
  have "has_actor (fe_fact (fr_event r))" using m f by (simp add: r(10) has_actor_def)
  moreover have "isDropBranchRuntimeFact (fr_event r)"
    using f r(6) assigned_fact_schema by (simp add: isDropBranchRuntimeFact_def r(10))
  ultimately have "validateRuntimeFactEvent (fr_event r) q False = Inr ()"
    using f h r(3-6) t by (simp add: validateRuntimeFactEvent_def r(10) r(2) valid_version_def)
  then show ?thesis using hash by (simp add: validateRuntimeFactReceipt_def r)
qed

section \<open>Properties\<close>

text \<open>
  C26: Runtime-fact receipts are valid by construction: whatever fact a caller submits, once captured
  and prepared against a head with a well-formed version, the receipt passes the validation that the
  persistence and RPC boundaries apply (exact scope, assigned time and snapshot, source hash, actor,
  fact id, identity, storage key and payload hash).
\<close>

theorem prepared_fact_receipt_valid:
  assumes "captureRuntimeFactAppend i = Inr c" "platform_ok pf" "valid_version (hd_version h)"
    and "prepareRuntimeFactReceipt pf c h n (hashRuntimeFactIntent pf (runtimeFactIntent pf (rf_fact c))) now = Inr r"
  shows "validateRuntimeFactReceipt pf r c False = Inr ()"
proof (rule prepared_fact_receipt_validates [OF assms(4) capture_fact [OF assms(1)] refl assms(3)])
  show "isNulldownSourceHash (hashRuntimeFactIntent pf (runtimeFactIntent pf (rf_fact c)))"
    unfolding hashRuntimeFactIntent_def using assms(2) by (intro hash_is_source_hash) (simp add: platform_ok_def)
qed

definition example_source_entries :: "(jstring \<times> json) list" where
  "example_source_entries = [(js ''branchId'', JStr (js ''owner'')), (js ''rootDropId'', JStr (js ''d'')),
     (js ''sourceContentHash'', JStr (hashNulldownSourceContent example_platform []))]"

definition example_fact_entries :: "(jstring \<times> json) list" where
  "example_fact_entries = [(js ''createdAt'', JNum 0), (js ''data'', JObj []), (js ''id'', JStr (js ''r1'')),
     (js ''kind'', JStr (js ''ui.response'')), (js ''primitiveId'', JStr (js ''p'')),
     (js ''source'', JObj example_source_entries), (js ''version'', JNum 1)]"

definition example_fact_command :: BranchRuntimeFactAppendCommand where
  "example_fact_command = \<lparr>target = example_target, placement = example_placement,
     rf_actorAccountId = js ''a'', rf_fact = JObj example_fact_entries\<rparr>"

lemma example_fact_get:
  "get k (reparse (JObj example_fact_entries)) = map_option reparse (map_of example_fact_entries (js k))"
  "get k (reparse (JObj example_source_entries)) = map_option reparse (map_of example_source_entries (js k))"
  by (rule get_reparse, simp add: example_fact_entries_def example_source_entries_def)+

lemma example_fact_source: "fact_source (reparse (JObj example_fact_entries)) = reparse (JObj example_source_entries)"
  unfolding fact_source_def example_fact_get by (simp add: example_fact_entries_def)

lemma example_fact_schema: "isNullplugUiRuntimeFact (reparse (JObj example_fact_entries))"
proof -
  have ne: "hashNulldownSourceContent example_platform [] \<noteq> []"
    by (simp add: hashNulldownSourceContent_def js_def)
  have "NullplugUiSourceSchema (reparse (JObj example_source_entries))"
    unfolding NullplugUiSourceSchema_def req_def opt_def example_fact_get
    using ne by (simp add: example_source_entries_def del: reparse.simps(2))
  then have "NullplugUiResponseFactSchema (reparse (JObj example_fact_entries))"
    unfolding NullplugUiResponseFactSchema_def req_def opt_def example_fact_get
    by (simp add: example_fact_entries_def json_literal_def NullplugUiJsonRecordSchema_def del: reparse.simps(2))
  then show ?thesis by (simp add: isNullplugUiRuntimeFact_def)
qed

lemma example_fact_captured: "\<exists>c. captureRuntimeFactAppend example_fact_command = Inr c \<and>
    get_string ''sourceContentHash'' (fact_source (rf_fact c)) = Some (hashNulldownSourceContent example_platform [])"
proof -
  have "get_string ''rootDropId'' (reparse (JObj example_source_entries)) = Some (js ''d'')"
    "get_string ''branchId'' (reparse (JObj example_source_entries)) = Some (js ''owner'')"
    "get_string ''sourceContentHash'' (reparse (JObj example_source_entries)) = Some (hashNulldownSourceContent example_platform [])"
    unfolding get_string_def example_fact_get by (simp_all add: example_source_entries_def)
  then show ?thesis
    using example_fact_schema example_query_valid
    by (simp add: captureRuntimeFactAppend_def example_fact_command_def BranchStateQuery_head_def Let_def
        example_fact_source example_target_def js_def del: reparse.simps)
qed

theorem prepared_fact_receipt_valid_witness:
  "\<exists>r. validateRuntimeFactReceipt example_platform r example_fact_command False = Inr ()"
proof -
  obtain c where c: "captureRuntimeFactAppend example_fact_command = Inr c"
    and s: "get_string ''sourceContentHash'' (fact_source (rf_fact c)) = Some (hashNulldownSourceContent example_platform [])"
    using example_fact_captured by blast
  have ne: "hashNulldownSourceContent example_platform [] \<noteq> []"
    by (simp add: hashNulldownSourceContent_def js_def)
  have v: "valid_version (hd_version example_head)"
    using example_hash by (simp add: example_head_def example_version_def valid_version_def is_safe_integer_def max_safe_integer_def)
  obtain r where "prepareRuntimeFactReceipt example_platform c example_head (-1)
      (hashRuntimeFactIntent example_platform (runtimeFactIntent example_platform (rf_fact c))) 7 = Inr r"
    using s ne by (simp add: prepareRuntimeFactReceipt_def Let_def example_head_def example_version_def
        example_branch_def is_safe_integer_def max_safe_integer_def)
  from prepared_fact_receipt_valid [OF c example_platform_ok v this]
  have "validateRuntimeFactReceipt example_platform r c False = Inr ()" .
  moreover have "target c = target example_fact_command" using capture_fact_query [OF c] by simp
  ultimately have "validateRuntimeFactReceipt example_platform r example_fact_command False = Inr ()"
    by (simp add: validateRuntimeFactReceipt_def validateRuntimeFactEvent_def)
  then show ?thesis by (rule exI [of _ r])
qed

end
