(* ===== verification/Nullmem.thy ===== *)
theory Nullmem
  imports Runtime_Facts
begin

text \<open>
  Branch-local memory records: the record schemas of \<^verbatim>\<open>shared/nullmem/validation.ts\<close> and
  \<^verbatim>\<open>source-reference.ts\<close>, the searchable text of \<^verbatim>\<open>shared/nullmem/capsule.ts\<close>, and
  \<^verbatim>\<open>shared/drop/branch-nullmem.ts\<close>: selection, mutation and the validation that rebuilds the current
  records from every revision ever published.

  \<open>nullmem_query_best\<close> shows that the streaming selection returns the best records of the scope;
  the mutation lemmas are used by the memory plane to show that its integrity check never fails.
\<close>

section \<open>Record schemas\<close>

definition NullMemSourceRefSchema :: "json \<Rightarrow> bool" where
  "NullMemSourceRefSchema v \<longleftrightarrow>
     (let root = req ''rootDropId'' json_string v; br = req ''branchId'' json_string v;
          kind = (\<lambda>k. req ''kind'' (json_literal k) v)
      in (kind ''drop'' \<and> root) \<or> (kind ''branch'' \<and> root \<and> br) \<or>
         (kind ''snapshot'' \<and> root \<and> br \<and> req ''snapshotId'' json_number v) \<or>
         (kind ''diff'' \<and> root \<and> br \<and> req ''eventId'' json_string v \<and> opt ''seq'' json_number v) \<or>
         (kind ''node'' \<and> root \<and> br \<and> req ''resolverId'' json_string v \<and> req ''nodeId'' json_string v) \<or>
         (kind ''heap'' \<and> root \<and> br \<and> req ''resolverId'' json_string v \<and> req ''snapshotId'' json_number v) \<or>
         (kind ''nullplug'' \<and> req ''pluginId'' json_string v \<and> opt ''version'' json_string v) \<or>
         (kind ''tool'' \<and> req ''toolId'' json_string v) \<or> (kind ''theme'' \<and> req ''themeId'' json_string v) \<or>
         (kind ''mcp'' \<and> req ''toolId'' json_string v))"

definition NullMemProcedureCallHintSchema :: "json \<Rightarrow> bool" where
  "NullMemProcedureCallHintSchema v \<longleftrightarrow>
     req ''target'' (json_enum [''tool'', ''mcp'', ''cli'', ''nullplug'']) v \<and> req ''name'' json_string v \<and>
     opt ''args'' is_object v \<and> opt ''argsSummary'' json_string v"

definition NullMemCapabilityExampleSchema :: "json \<Rightarrow> bool" where
  "NullMemCapabilityExampleSchema v \<longleftrightarrow> opt ''title'' json_string v \<and> opt ''summary'' json_string v"

definition NullMemCapabilityRecordSchema :: "json \<Rightarrow> bool" where
  "NullMemCapabilityRecordSchema v \<longleftrightarrow>
     req ''version'' (\<lambda>x. x = JNum 1) v \<and> req ''kind'' (json_literal ''capability'') v \<and>
     req ''recordId'' json_string v \<and>
     req ''capabilityKind'' (json_enum [''nullplug'', ''tool'', ''theme'', ''mcp'']) v \<and>
     req ''capabilityId'' json_string v \<and> opt ''capabilityVersion'' json_string v \<and> opt ''title'' json_string v \<and>
     req ''description'' json_string v \<and> opt ''permissions'' (json_array (\<lambda>x. True)) v \<and>
     opt ''whenToUse'' (json_array json_string) v \<and> opt ''whenNotToUse'' (json_array json_string) v \<and>
     opt ''examples'' (json_array NullMemCapabilityExampleSchema) v \<and> opt ''labels'' (json_array json_string) v \<and>
     opt ''priority'' json_number v \<and> opt ''confidence'' json_number v \<and>
     opt ''sourceRefs'' (json_array NullMemSourceRefSchema) v \<and> req ''createdAt'' json_number v \<and>
     opt ''updatedAt'' json_number v \<and> opt ''metadata'' is_object v"

definition NullMemProcedureStepSchema :: "json \<Rightarrow> bool" where
  "NullMemProcedureStepSchema v \<longleftrightarrow>
     req ''index'' json_number v \<and>
     req ''kind'' (json_enum [''tool.call'', ''nullplug.call'', ''mcp.call'', ''diff.apply'', ''query'', ''deploy'',
       ''test'', ''note'']) v \<and>
     req ''name'' json_string v \<and> opt ''description'' json_string v \<and> opt ''argsSummary'' json_string v \<and>
     opt ''callHint'' NullMemProcedureCallHintSchema v \<and> opt ''exitCondition'' json_string v \<and>
     opt ''minStep'' json_bool v \<and> opt ''resultSummary'' json_string v \<and>
     req ''status'' (json_enum [''success'', ''failed'', ''skipped'', ''partial'']) v \<and>
     opt ''refs'' (json_array NullMemSourceRefSchema) v"

definition NullMemProcedureRecordSchema :: "json \<Rightarrow> bool" where
  "NullMemProcedureRecordSchema v \<longleftrightarrow>
     req ''version'' (\<lambda>x. x = JNum 1) v \<and> req ''kind'' (json_literal ''procedure'') v \<and>
     req ''recordId'' json_string v \<and> opt ''rootDropId'' json_string v \<and> opt ''branchId'' json_string v \<and>
     req ''goal'' json_string v \<and> req ''summary'' json_string v \<and>
     req ''steps'' (json_array NullMemProcedureStepSchema) v \<and>
     req ''outcome'' (json_enum [''success'', ''partial'', ''failed'']) v \<and> opt ''reusableAs'' json_string v \<and>
     opt ''labels'' (json_array json_string) v \<and> opt ''priority'' json_number v \<and> opt ''confidence'' json_number v \<and>
     opt ''sourceRefs'' (json_array NullMemSourceRefSchema) v \<and> req ''createdAt'' json_number v \<and>
     opt ''updatedAt'' json_number v \<and> opt ''metadata'' is_object v"

definition NullMemFactRecordSchema :: "json \<Rightarrow> bool" where
  "NullMemFactRecordSchema v \<longleftrightarrow>
     req ''version'' (\<lambda>x. x = JNum 1) v \<and> req ''kind'' (json_literal ''fact'') v \<and>
     req ''recordId'' json_string v \<and> opt ''rootDropId'' json_string v \<and> opt ''branchId'' json_string v \<and>
     opt ''targetKind'' (json_enum [''drop'', ''branch'', ''snapshot'', ''diff'', ''node'', ''heap'', ''nullplug'',
       ''tool'', ''theme'', ''mcp'', ''custom'']) v \<and>
     opt ''targetId'' json_string v \<and> opt ''title'' json_string v \<and> req ''text'' json_string v \<and>
     opt ''labels'' (json_array json_string) v \<and> opt ''priority'' json_number v \<and> opt ''confidence'' json_number v \<and>
     opt ''sourceRefs'' (json_array NullMemSourceRefSchema) v \<and> req ''createdAt'' json_number v \<and>
     opt ''updatedAt'' json_number v \<and> opt ''metadata'' is_object v"

definition isNullMemRecord :: "json \<Rightarrow> bool" where
  "isNullMemRecord v \<longleftrightarrow>
     NullMemCapabilityRecordSchema v \<or> NullMemProcedureRecordSchema v \<or> NullMemFactRecordSchema v"

section \<open>Searchable text\<close>

definition string_items :: "string \<Rightarrow> json \<Rightarrow> jstring list" where
  "string_items k v = (case get k v of
     Some (JArr vs) \<Rightarrow> List.map_filter (\<lambda>x. case x of JStr s \<Rightarrow> Some s | _ \<Rightarrow> None) vs | _ \<Rightarrow> [])"

definition object_items :: "string \<Rightarrow> json \<Rightarrow> json list" where
  "object_items k v = (case get k v of Some (JArr vs) \<Rightarrow> vs | _ \<Rightarrow> [])"

text \<open>\<^verbatim>\<open>filter(Boolean).join(" ")\<close>: undefined and empty strings are left out.\<close>

fun join_space :: "jstring list \<Rightarrow> jstring" where
  "join_space [] = []"
| "join_space [s] = s"
| "join_space (s # t # ts) = s @ 32 # join_space (t # ts)"

definition join_present :: "jstring list \<Rightarrow> jstring" where
  "join_present ss = join_space (filter (\<lambda>s. s \<noteq> []) ss)"

definition step_text :: "json \<Rightarrow> jstring" where
  "step_text st =
     (let hint = (case get ''callHint'' st of Some h \<Rightarrow> h | None \<Rightarrow> JNull)
      in join_present [fact_string ''kind'' st, fact_string ''name'' st, fact_string ''description'' st,
           fact_string ''argsSummary'' st, fact_string ''target'' hint, fact_string ''name'' hint,
           fact_string ''argsSummary'' hint, fact_string ''exitCondition'' st,
           (if get ''minStep'' st = Some (JBool True) then js ''min-step'' else []),
           fact_string ''resultSummary'' st, fact_string ''status'' st])"

definition nullMemRecordText :: "json \<Rightarrow> jstring" where
  "nullMemRecordText v =
     (if get_string ''kind'' v = Some (js ''capability'') then
        join_present ([fact_string ''title'' v, fact_string ''capabilityKind'' v, fact_string ''capabilityId'' v,
          fact_string ''description'' v] @ string_items ''whenToUse'' v @ string_items ''whenNotToUse'' v @
          map (\<lambda>e. join_present [fact_string ''title'' e, fact_string ''summary'' e]) (object_items ''examples'' v) @
          string_items ''labels'' v)
      else if get_string ''kind'' v = Some (js ''procedure'') then
        join_present ([fact_string ''goal'' v, fact_string ''summary'' v, fact_string ''reusableAs'' v] @
          map step_text (object_items ''steps'' v) @ string_items ''labels'' v)
      else
        join_present ([fact_string ''title'' v, fact_string ''text'' v, fact_string ''targetKind'' v,
          fact_string ''targetId'' v] @ string_items ''labels'' v))"

section \<open>Records of the memory authority\<close>

datatype NullMemKind = Fact_Kind | Procedure_Kind | Capability_Kind

fun nullmem_kind_text :: "NullMemKind \<Rightarrow> jstring" where
  "nullmem_kind_text Fact_Kind = js ''fact''"
| "nullmem_kind_text Procedure_Kind = js ''procedure''"
| "nullmem_kind_text Capability_Kind = js ''capability''"

record BranchNullMemSelection =
  sel_kind :: "NullMemKind option"
  sel_q :: "jstring option"
  sel_labels :: "jstring list option"
  sel_procedureId :: "jstring option"
  sel_limit :: int

record BranchNullMemQuery = BranchHeadQuery +
  nq_selection :: BranchNullMemSelection

record BranchNullMemPutCommand = BranchHeadQuery +
  np_actorAccountId :: jstring
  np_record :: json

record BranchNullMemDeleteCommand = BranchHeadQuery +
  nd_actorAccountId :: jstring
  nd_recordId :: jstring

record BranchNullMemResult = BranchHeadQuery +
  nr_head :: BranchStateHead
  nr_memoryRevision :: int

datatype nullmem_mutation = Put_Record json | Delete_Record jstring

record BranchNullMemOutbox =
  no_id :: jstring
  no_actorAccountId :: jstring
  no_createdAt :: int
  no_intent :: jstring
  no_result :: BranchNullMemResult
  no_mutation :: nullmem_mutation

record BranchNullMemQueryResult = BranchNullMemResult +
  nr_records :: "json list"

section \<open>Capture\<close>

definition captureNullMemSelection :: "BranchNullMemSelection \<Rightarrow> BranchNullMemSelection branch_result" where
  "captureNullMemSelection input =
     (if \<not> is_safe_integer (sel_limit input) \<or> sel_limit input < 1 \<or> sel_limit input > 100
      then Inl Invalid_Command else Inr input)"

definition captureNullMemQuery :: "BranchNullMemQuery \<Rightarrow> BranchNullMemQuery branch_result" where
  "captureNullMemQuery input =
     and_then (BranchStateQuery_head input) (\<lambda>query.
     and_then (captureNullMemSelection (nq_selection input)) (\<lambda>sel.
       Inr \<lparr>target = target query, placement = placement query, nq_selection = sel\<rparr>))"

definition validateNullMemRecord :: "json \<Rightarrow> 'a BranchHeadQuery_scheme \<Rightarrow> unit branch_result" where
  "validateNullMemRecord v query =
     (if \<not> isNullMemRecord v \<or> get_string ''kind'' v = Some (js ''capability'') \<or>
         get_string ''rootDropId'' v \<noteq> Some (rootDropId (target query)) \<or>
         get_string ''branchId'' v \<noteq> Some (branchId (target query))
      then Inl Invalid_Command else Inr ())"

definition captureNullMemPut :: "BranchNullMemPutCommand \<Rightarrow> BranchNullMemPutCommand branch_result" where
  "captureNullMemPut input =
     and_then (BranchStateQuery_head input) (\<lambda>query.
       if np_actorAccountId input = [] then Inl Invalid_Command
       else let r = reparse (np_record input)
            in and_then (validateNullMemRecord r query) (\<lambda>_.
                 Inr \<lparr>target = target query, placement = placement query,
                      np_actorAccountId = np_actorAccountId input, np_record = r\<rparr>))"

definition captureNullMemDelete :: "BranchNullMemDeleteCommand \<Rightarrow> BranchNullMemDeleteCommand branch_result" where
  "captureNullMemDelete input =
     and_then (BranchStateQuery_head input) (\<lambda>query.
       if nd_actorAccountId input = [] then Inl Invalid_Command
       else Inr \<lparr>target = target query, placement = placement query,
                 nd_actorAccountId = nd_actorAccountId input, nd_recordId = nd_recordId input\<rparr>)"

definition authorizeNullMem :: "jstring \<Rightarrow> BranchStateHead \<Rightarrow> unit branch_result" where
  "authorizeNullMem actor head =
     (if Some actor \<noteq> br_ownerAccountId (hd_branch head) \<and> Some actor \<noteq> br_writerAccountId (hd_branch head)
      then Inl Forbidden else Inr ())"

definition record_id :: "json \<Rightarrow> jstring" where
  "record_id v = fact_string ''recordId'' v"

definition nullMemRecordIdentity :: "json \<Rightarrow> jstring" where
  "nullMemRecordIdentity v = json_key [fact_string ''kind'' v, record_id v]"

definition nullMemRecordIntent :: "platform \<Rightarrow> json \<Rightarrow> jstring" where
  "nullMemRecordIntent pf v = canonicalRuntimeFactJson pf (delete_prop ''createdAt'' (reparse v))"

section \<open>Selection\<close>

definition is_token_char :: "code_unit \<Rightarrow> bool" where
  "is_token_char u \<longleftrightarrow> u \<in> set (js ''abcdefghijklmnopqrstuvwxyz0123456789'')"

text \<open>The maximal runs of token characters, \<^verbatim>\<open>match(/[a-z0-9]+/g)\<close>.\<close>

function token_runs :: "jstring \<Rightarrow> jstring list" where
  "token_runs s =
     (case dropWhile (\<lambda>u. \<not> is_token_char u) s of
        [] \<Rightarrow> []
      | u # r \<Rightarrow> takeWhile is_token_char (u # r) # token_runs (dropWhile is_token_char (u # r)))"
  by pat_completeness auto
termination
proof (relation "measure length", simp)
  fix s x u r
  assume d: "dropWhile (\<lambda>u. \<not> is_token_char u) s = u # r"
  have "is_token_char u" using d by (metis dropWhile_eq_Cons_conv)
  then have "dropWhile is_token_char (u # r) = dropWhile is_token_char r" by simp
  moreover have "length (dropWhile is_token_char r) \<le> length r" by (rule length_dropWhile_le)
  moreover have "length (u # r) \<le> length s" unfolding d [symmetric] by (rule length_dropWhile_le)
  ultimately show "(dropWhile is_token_char (u # r), s) \<in> measure length" by simp
qed

declare token_runs.simps [simp del]

definition query_tokens :: "platform \<Rightarrow> jstring option \<Rightarrow> jstring list" where
  "query_tokens pf q = (case q of None \<Rightarrow> []
     | Some s \<Rightarrow> filter (\<lambda>t. 1 < length t) (token_runs (to_lower_case pf s)))"

fun js_includes :: "jstring \<Rightarrow> jstring \<Rightarrow> bool" where
  "js_includes [] t = (t = [])"
| "js_includes (u # s) t = (take (length t) (u # s) = t \<or> js_includes s t)"

definition rat_field :: "string \<Rightarrow> json \<Rightarrow> rat" where
  "rat_field k v = (case get k v of Some (JNum r) \<Rightarrow> r | _ \<Rightarrow> 0)"

text \<open>
  The comparator: scores are double sums of the number of tokens and the priority, so priorities
  that round away tie; then newer first; then the locale order of ids. Negative: before.
\<close>

definition nullmem_compare :: "platform \<Rightarrow> nat \<Rightarrow> json \<Rightarrow> json \<Rightarrow> int" where
  "nullmem_compare pf n a b =
     (let sa = round_double pf (of_nat n + rat_field ''priority'' a);
          sb = round_double pf (of_nat n + rat_field ''priority'' b);
          ca = rat_field ''createdAt'' a; cb = rat_field ''createdAt'' b
      in if sb < sa then - 1 else if sa < sb then 1
         else if cb < ca then - 1 else if ca < cb then 1
         else locale_compare pf (record_id a) (record_id b))"

definition nullmem_matches :: "platform \<Rightarrow> BranchNullMemSelection \<Rightarrow> jstring list \<Rightarrow> json \<Rightarrow> bool" where
  "nullmem_matches pf sel tokens r \<longleftrightarrow>
     opt_all (\<lambda>k. get_string ''kind'' r = Some (nullmem_kind_text k)) (sel_kind sel) \<and>
     opt_all (\<lambda>p. get_string ''kind'' r = Some (js ''procedure'') \<and> record_id r = p) (sel_procedureId sel) \<and>
     list_all (\<lambda>l. l \<in> set (string_items ''labels'' r)) (case sel_labels sel of None \<Rightarrow> [] | Some ls \<Rightarrow> ls) \<and>
     list_all (js_includes (to_lower_case pf (nullMemRecordText r))) tokens"

text \<open>Inserting before the first record that the new one precedes; the list is kept within the limit.\<close>

fun insert_before :: "('a \<Rightarrow> 'a \<Rightarrow> bool) \<Rightarrow> 'a \<Rightarrow> 'a list \<Rightarrow> 'a list option" where
  "insert_before lt x [] = None"
| "insert_before lt x (y # ys) =
     (if lt x y then Some (x # y # ys) else map_option ((#) y) (insert_before lt x ys))"

definition select_step :: "('a \<Rightarrow> 'a \<Rightarrow> bool) \<Rightarrow> nat \<Rightarrow> 'a list \<Rightarrow> 'a \<Rightarrow> 'a list" where
  "select_step lt limit selected x =
     (case insert_before lt x selected of
        None \<Rightarrow> if length selected < limit then selected @ [x] else selected
      | Some ys \<Rightarrow> if length ys > limit then butlast ys else ys)"

definition queryNullMemRecords ::
  "platform \<Rightarrow> json list \<Rightarrow> BranchNullMemSelection \<Rightarrow> json list branch_result" where
  "queryNullMemRecords pf records input =
     and_then (captureNullMemSelection input) (\<lambda>sel.
       let tokens = query_tokens pf (sel_q sel);
           lt = (\<lambda>a b. nullmem_compare pf (length tokens) a b < 0)
       in Inr (foldl (select_step lt (nat (sel_limit sel))) []
            (filter (nullmem_matches pf sel tokens) records)))"

section \<open>Mutations\<close>

definition nullmem_outbox_id :: "platform \<Rightarrow> 'a BranchNullMemResult_scheme \<Rightarrow> jstring" where
  "nullmem_outbox_id pf r = stringify (number_text pf) (JArr [JStr (js ''branch.nullmem.v1''),
     JStr (rootDropId (target r)), JStr (branchId (target r)), j_int (routingVersion (placement r)),
     j_int (generation (placement r)), j_int (nr_memoryRevision r)])"

definition makeOutbox ::
  "platform \<Rightarrow> jstring \<Rightarrow> int \<Rightarrow> BranchNullMemResult \<Rightarrow> nullmem_mutation \<Rightarrow> BranchNullMemOutbox branch_result" where
  "makeOutbox pf actor created result mutation =
     (if \<not> is_safe_integer created \<or> created < 0 \<or> \<not> is_safe_integer (nr_memoryRevision result) \<or>
         nr_memoryRevision result < 1
      then Inl Invalid_Command
      else Inr \<lparr>no_id = nullmem_outbox_id pf result, no_actorAccountId = actor, no_createdAt = created,
                no_intent = (case mutation of Put_Record r \<Rightarrow> nullMemRecordIntent pf r
                             | Delete_Record i \<Rightarrow> quote_json i),
                no_result = result, no_mutation = mutation\<rparr>)"

definition prepareNullMemPut ::
  "platform \<Rightarrow> BranchNullMemPutCommand \<Rightarrow> BranchStateHead \<Rightarrow> int \<Rightarrow> int \<Rightarrow> BranchNullMemOutbox branch_result" where
  "prepareNullMemPut pf command head revision now =
     makeOutbox pf (np_actorAccountId command) now
       \<lparr>target = target command, placement = placement command, nr_head = head, nr_memoryRevision = revision + 1\<rparr>
       (Put_Record (set_prop ''createdAt'' (j_int now) (np_record command)))"

definition prepareNullMemDelete ::
  "platform \<Rightarrow> BranchNullMemDeleteCommand \<Rightarrow> BranchStateHead \<Rightarrow> int \<Rightarrow> int \<Rightarrow> BranchNullMemOutbox branch_result" where
  "prepareNullMemDelete pf command head revision now =
     makeOutbox pf (nd_actorAccountId command) now
       \<lparr>target = target command, placement = placement command, nr_head = head, nr_memoryRevision = revision + 1\<rparr>
       (Delete_Record (nd_recordId command))"

section \<open>Validation\<close>

definition same_scope :: "platform \<Rightarrow> 'a BranchHeadQuery_scheme \<Rightarrow> 'b BranchHeadQuery_scheme \<Rightarrow> bool" where
  "same_scope pf actual query \<longleftrightarrow>
     canonicalRuntimeFactJson pf (target_json (target actual)) = canonicalRuntimeFactJson pf (target_json (target query)) \<and>
     canonicalRuntimeFactJson pf (placement_json (placement actual))
       = canonicalRuntimeFactJson pf (placement_json (placement query))"

definition head_consistent :: "BranchStateHead \<Rightarrow> 'a BranchHeadQuery_scheme \<Rightarrow> bool" where
  "head_consistent head query \<longleftrightarrow>
     br_rootDropId (hd_branch head) = rootDropId (target query) \<and>
     br_branchId (hd_branch head) = branchId (target query) \<and>
     br_headSnapshotId (hd_branch head) = snapshotId (hd_version head) \<and>
     br_headEventSeq (hd_branch head) = Some (eventSeq (hd_version head)) \<and>
     (if snapshotId (hd_version head) = 0 then eventSeq (hd_version head) = - 1
      else \<not> eventSeq (hd_version head) < snapshotId (hd_version head) - 1)"

definition validateNullMemResult ::
  "platform \<Rightarrow> 'b BranchNullMemResult_scheme \<Rightarrow> 'a BranchHeadQuery_scheme \<Rightarrow> unit branch_result" where
  "validateNullMemResult pf value query =
     (if \<not> same_scope pf value query \<or> \<not> same_scope pf (nr_head value) query \<or>
         \<not> is_safe_integer (nr_memoryRevision value) \<or> nr_memoryRevision value < 0 \<or>
         \<not> isDropBranchRecordV1 (branch_json (hd_branch (nr_head value))) \<or>
         \<not> valid_target (target (nr_head value)) \<or> \<not> valid_placement (placement (nr_head value)) \<or>
         \<not> valid_version (hd_version (nr_head value)) \<or> \<not> head_consistent (nr_head value) query
      then Inl State_Corrupt else Inr ())"

type_synonym record_map = "(jstring \<times> json) list"

definition apply_mutation :: "nullmem_mutation \<Rightarrow> record_map \<Rightarrow> record_map" where
  "apply_mutation mut m = (case mut of
     Put_Record r \<Rightarrow> AList.update (nullMemRecordIdentity r) r m
   | Delete_Record i \<Rightarrow> filter (\<lambda>(k, r). record_id r \<noteq> i) m)"

definition outbox_entry_ok ::
  "platform \<Rightarrow> BranchStateHead \<Rightarrow> int \<Rightarrow> int \<Rightarrow> int \<Rightarrow> BranchNullMemOutbox \<Rightarrow> bool" where
  "outbox_entry_ok pf head revision previousSnapshot previousEvent entry \<longleftrightarrow>
     (let r = no_result entry; v = hd_version (nr_head r) in
      validateNullMemResult pf r head = Inr () \<and> nr_memoryRevision r = revision \<and>
      no_id entry = nullmem_outbox_id pf r \<and> is_safe_integer (no_createdAt entry) \<and> 0 \<le> no_createdAt entry \<and>
      no_actorAccountId entry \<noteq> [] \<and> snapshotId v \<le> snapshotId (hd_version head) \<and>
      eventSeq v \<le> eventSeq (hd_version head) \<and> previousSnapshot \<le> snapshotId v \<and> previousEvent \<le> eventSeq v \<and>
      authorizeNullMem (no_actorAccountId entry) (nr_head r) = Inr () \<and>
      (case no_mutation entry of
         Put_Record rec \<Rightarrow>
           validateNullMemRecord rec head = Inr () \<and>
           get ''createdAt'' rec = Some (j_int (no_createdAt entry)) \<and> no_intent entry = nullMemRecordIntent pf rec
       | Delete_Record i \<Rightarrow> no_intent entry = quote_json i))"

fun replay_outbox ::
  "platform \<Rightarrow> BranchStateHead \<Rightarrow> int \<Rightarrow> int \<Rightarrow> int \<Rightarrow> BranchNullMemOutbox list \<Rightarrow> record_map \<Rightarrow> record_map branch_result" where
  "replay_outbox pf head revision ps pe [] expectedMap = Inr expectedMap"
| "replay_outbox pf head revision ps pe (entry # es) expectedMap =
     (if outbox_entry_ok pf head revision ps pe entry
      then replay_outbox pf head (revision + 1) (snapshotId (hd_version (nr_head (no_result entry))))
             (eventSeq (hd_version (nr_head (no_result entry)))) es (apply_mutation (no_mutation entry) expectedMap)
      else Inl State_Corrupt)"

fun match_records :: "platform \<Rightarrow> BranchStateHead \<Rightarrow> json list \<Rightarrow> record_map \<Rightarrow> bool" where
  "match_records pf head [] expectedMap = True"
| "match_records pf head (r # rs) expectedMap =
     (validateNullMemRecord r head = Inr () \<and>
      (case map_of expectedMap (nullMemRecordIdentity r) of
         None \<Rightarrow> False
       | Some e \<Rightarrow> canonicalRuntimeFactJson pf e = canonicalRuntimeFactJson pf r \<and>
           match_records pf head rs (AList.delete (nullMemRecordIdentity r) expectedMap)))"

text \<open>An imported branch starts from a baseline of records; a native one from the empty baseline.\<close>

fun baseline_map :: "json list \<Rightarrow> BranchStateHead \<Rightarrow> record_map \<Rightarrow> record_map branch_result" where
  "baseline_map [] head m = Inr m"
| "baseline_map (r # rs) head m =
     (if validateNullMemRecord r head \<noteq> Inr () \<or> jsmap_has m (nullMemRecordIdentity r) then Inl State_Corrupt
      else baseline_map rs head (AList.update (nullMemRecordIdentity r) r m))"

definition validateNullMemState ::
  "platform \<Rightarrow> BranchStateHead \<Rightarrow> int \<Rightarrow> json list \<Rightarrow> BranchNullMemOutbox list \<Rightarrow> int \<times> json list \<Rightarrow> unit branch_result" where
  "validateNullMemState pf head revision records outbox = (\<lambda>(baseRevision, baseRecords).
     and_then (validateNullMemResult pf \<lparr>target = target head, placement = placement head, nr_head = head,
        nr_memoryRevision = revision\<rparr> head) (\<lambda>_.
     if \<not> is_safe_integer baseRevision \<or> baseRevision < 0 \<or> revision < baseRevision \<or>
        int (length outbox) \<noteq> revision - baseRevision then Inl State_Corrupt
     else and_then (baseline_map baseRecords head []) (\<lambda>start.
     and_then (replay_outbox pf head (baseRevision + 1) 0 (- 1) outbox start) (\<lambda>expectedMap.
       if length expectedMap \<noteq> length records \<or> \<not> match_records pf head records expectedMap
       then Inl State_Corrupt else Inr ()))))"

section \<open>Selection is the head of a stable sort\<close>

definition stable_insert :: "('a \<Rightarrow> 'a \<Rightarrow> bool) \<Rightarrow> 'a list \<Rightarrow> 'a \<Rightarrow> 'a list" where
  "stable_insert lt ys x = (case insert_before lt x ys of None \<Rightarrow> ys @ [x] | Some zs \<Rightarrow> zs)"

definition stable_sort :: "('a \<Rightarrow> 'a \<Rightarrow> bool) \<Rightarrow> 'a list \<Rightarrow> 'a list" where
  "stable_sort lt xs = foldl (stable_insert lt) [] xs"

lemma length_insert_before: "insert_before lt x ys = Some zs \<Longrightarrow> length zs = Suc (length ys)"
  by (induction ys arbitrary: zs) (auto split: if_splits)

lemma insert_before_take:
  "insert_before lt x (take n ys) = None \<Longrightarrow> n \<le> length ys \<Longrightarrow> take n (stable_insert lt ys x) = take n ys"
  "insert_before lt x (take n ys) = Some zs \<Longrightarrow> take n (stable_insert lt ys x) = take n zs"
proof (induction ys arbitrary: n zs)
  case Nil
  {
    case 1
    then show ?case by simp
  next
    case 2
    then show ?case by simp
  }
next
  case (Cons y ys)
  {
    case 1
    then show ?case
      using Cons.IH(1) by (cases n) (auto simp: stable_insert_def split: if_splits option.splits)
  next
    case 2
    then obtain m where n: "n = Suc m" by (cases n) auto
    show ?case
    proof (cases "lt x y")
      case True
      with 2 n have "zs = x # y # take m ys" by auto
      with True show ?thesis by (simp add: n stable_insert_def take_Cons' )
    next
      case False
      with 2 n obtain ws where ws: "insert_before lt x (take m ys) = Some ws" "zs = y # ws" by auto
      with Cons.IH(2) [OF ws(1)] False show ?thesis
        by (auto simp: n stable_insert_def split: option.splits)
    qed
  }
qed

lemma select_step_take:
  assumes "0 < n"
  shows "select_step lt n (take n ys) x = take n (stable_insert lt ys x)"
proof (cases "insert_before lt x (take n ys)")
  case None
  show ?thesis
  proof (cases "length ys < n")
    case True
    with None show ?thesis by (simp add: select_step_def stable_insert_def)
  next
    case False
    with None insert_before_take(1) [OF None] show ?thesis by (simp add: select_step_def)
  qed
next
  case (Some zs)
  have l: "length zs = Suc (min n (length ys))" using length_insert_before [OF Some] by simp
  have "select_step lt n (take n ys) x = take n zs"
    using Some l by (auto simp: select_step_def butlast_conv_take)
  with insert_before_take(2) [OF Some] show ?thesis by simp
qed

lemma select_fold_take:
  "0 < n \<Longrightarrow> foldl (select_step lt n) (take n ys) xs = take n (foldl (stable_insert lt) ys xs)"
  by (induction xs arbitrary: ys) (simp_all add: select_step_take)

lemma select_is_take_sort: "0 < n \<Longrightarrow> foldl (select_step lt n) [] xs = take n (stable_sort lt xs)"
  using select_fold_take [of n lt "[]" xs] by (simp add: stable_sort_def)

lemma stable_insert_split: "\<exists>as bs. ys = as @ bs \<and> stable_insert lt ys x = as @ x # bs \<and>
    (\<forall>a \<in> set as. \<not> lt x a) \<and> (bs = [] \<or> lt x (hd bs))"
proof (induction ys)
  case Nil
  show ?case by (simp add: stable_insert_def)
next
  case (Cons y ys)
  show ?case
  proof (cases "lt x y")
    case True
    then show ?thesis by (intro exI [of _ "[]"] exI [of _ "y # ys"]) (simp add: stable_insert_def)
  next
    case False
    from Cons obtain as bs where "ys = as @ bs" "stable_insert lt ys x = as @ x # bs"
      "\<forall>a \<in> set as. \<not> lt x a" "bs = [] \<or> lt x (hd bs)" by blast
    with False show ?thesis
      by (intro exI [of _ "y # as"] exI [of _ bs]) (auto simp: stable_insert_def split: option.splits)
  qed
qed

lemma mset_stable_insert: "mset (stable_insert lt ys x) = add_mset x (mset ys)"
  using stable_insert_split [of ys lt x] by auto

lemma mset_stable_sort: "mset (stable_sort lt xs) = mset xs"
proof -
  have "mset (foldl (stable_insert lt) ys xs) = mset ys + mset xs" for ys
    by (induction xs arbitrary: ys) (simp_all add: mset_stable_insert)
  then show ?thesis by (simp add: stable_sort_def)
qed

text \<open>A strict weak order: what a consistent comparator gives.\<close>

definition strict_weak_order :: "('a \<Rightarrow> 'a \<Rightarrow> bool) \<Rightarrow> bool" where
  "strict_weak_order lt \<longleftrightarrow> (\<forall>a b. lt a b \<longrightarrow> \<not> lt b a) \<and> (\<forall>a b c. \<not> lt b a \<longrightarrow> \<not> lt c b \<longrightarrow> \<not> lt c a)"

lemma strict_weak_orderD:
  "strict_weak_order lt \<Longrightarrow> lt a b \<Longrightarrow> \<not> lt b a"
  "strict_weak_order lt \<Longrightarrow> \<not> lt b a \<Longrightarrow> \<not> lt c b \<Longrightarrow> \<not> lt c a"
  unfolding strict_weak_order_def by iprover+

lemma sorted_stable_insert:
  assumes "strict_weak_order lt" "sorted_wrt (\<lambda>a b. \<not> lt b a) ys"
  shows "sorted_wrt (\<lambda>a b. \<not> lt b a) (stable_insert lt ys x)"
proof -
  obtain as bs where s: "ys = as @ bs" "stable_insert lt ys x = as @ x # bs" "\<forall>a \<in> set as. \<not> lt x a"
    "bs = [] \<or> lt x (hd bs)" using stable_insert_split [of ys lt x] by (elim exE conjE) (rule that)
  have "\<not> lt b x" if "b \<in> set bs" for b
  proof -
    from that s(4) obtain c cs where bs: "bs = c # cs" and c: "lt x c" by (cases bs) auto
    have asym: "\<not> lt c x" using assms(1) c by (rule strict_weak_orderD)
    have "b = c \<or> \<not> lt b c" using assms(2) that by (auto simp: s(1) bs sorted_wrt_append)
    then show ?thesis using asym strict_weak_orderD(2) [OF assms(1) asym] by blast
  qed
  with assms(2) s show ?thesis by (auto simp: sorted_wrt_append)
qed

lemma sorted_stable_sort:
  assumes "strict_weak_order lt"
  shows "sorted_wrt (\<lambda>a b. \<not> lt b a) (stable_sort lt xs)"
proof -
  have "sorted_wrt (\<lambda>a b. \<not> lt b a) ys \<Longrightarrow> sorted_wrt (\<lambda>a b. \<not> lt b a) (foldl (stable_insert lt) ys xs)" for ys
    using sorted_stable_insert [OF assms] by (induction xs arbitrary: ys) auto
  then show ?thesis by (simp add: stable_sort_def)
qed

text \<open>Documented of locale collation: the comparison is antisymmetric and transitive.\<close>

definition collation_ok :: "platform \<Rightarrow> bool" where
  "collation_ok pf \<longleftrightarrow>
     (\<forall>a b. locale_compare pf a b < 0 \<longleftrightarrow> 0 < locale_compare pf b a) \<and>
     (\<forall>a b c. locale_compare pf a b \<le> 0 \<longrightarrow> locale_compare pf b c \<le> 0 \<longrightarrow> locale_compare pf a c \<le> 0)"

lemma compare_nonneg_iff:
  assumes "collation_ok pf"
  shows "\<not> nullmem_compare pf n b a < 0 \<longleftrightarrow>
     (let s = \<lambda>x. round_double pf (of_nat n + rat_field ''priority'' x); c = rat_field ''createdAt'' in
      s b < s a \<or> s a = s b \<and> (c b < c a \<or> c a = c b \<and> locale_compare pf (record_id a) (record_id b) \<le> 0))"
proof -
  have "\<not> locale_compare pf y x < 0 \<longleftrightarrow> locale_compare pf x y \<le> 0" for x y
    using assms unfolding collation_ok_def by (metis not_le)
  then show ?thesis by (auto simp: nullmem_compare_def Let_def)
qed

lemma compare_strict_weak:
  assumes "collation_ok pf"
  shows "strict_weak_order (\<lambda>a b. nullmem_compare pf n a b < 0)"
proof -
  note iff = compare_nonneg_iff [OF assms, unfolded Let_def]
  have asym: "\<not> nullmem_compare pf n b a < 0" if "nullmem_compare pf n a b < 0" for a b
  proof -
    have "locale_compare pf x y < 0 \<Longrightarrow> locale_compare pf x y \<le> 0" for x y by simp
    with that show ?thesis unfolding iff by (auto simp: nullmem_compare_def Let_def split: if_splits)
  qed
  have trans: "locale_compare pf x y \<le> 0 \<Longrightarrow> locale_compare pf y z \<le> 0 \<Longrightarrow> locale_compare pf x z \<le> 0" for x y z
    using assms unfolding collation_ok_def by blast
  have "\<not> nullmem_compare pf n c a < 0" if "\<not> nullmem_compare pf n b a < 0" "\<not> nullmem_compare pf n c b < 0" for a b c
    using that trans [of "record_id a" "record_id b" "record_id c"] unfolding iff by auto
  with asym show ?thesis unfolding strict_weak_order_def by blast
qed

lemma query_Inr_iff:
  "queryNullMemRecords pf records sel = Inr rs \<longleftrightarrow>
     is_safe_integer (sel_limit sel) \<and> 1 \<le> sel_limit sel \<and> sel_limit sel \<le> 100 \<and>
     rs = take (nat (sel_limit sel))
       (stable_sort (\<lambda>a b. nullmem_compare pf (length (query_tokens pf (sel_q sel))) a b < 0)
         (filter (nullmem_matches pf sel (query_tokens pf (sel_q sel))) records))"
  by (auto simp: queryNullMemRecords_def captureNullMemSelection_def Let_def select_is_take_sort)

section \<open>The integrity check\<close>

lemma same_scope_refl: "target a = target q \<Longrightarrow> placement a = placement q \<Longrightarrow> same_scope pf a q"
  by (simp add: same_scope_def)

lemma guard_eval:
  "is_number (Some (j_int n))" "is_string (Some (JStr s))" "is_nullable_string (Some (j_nullable JStr x))"
  "is_number (map_option j_int y) \<longleftrightarrow> y \<noteq> None" "map_option j_int y = None \<longleftrightarrow> y = None"
  by (auto simp: is_number_def is_string_def is_nullable_string_def j_int_def j_nullable_def split: option.splits)

lemma branch_json_valid: "isDropBranchRecordV1 (branch_json b)"
proof -
  have one: "j_int 1 = JNum 1" by (simp add: j_int_def)
  have mode: "mode_text (br_mode b) = js ''owner'' \<or> mode_text (br_mode b) = js ''clone''"
    by (cases "br_mode b") simp_all
  have status: "status_text (br_status b) = js ''active'' \<or> status_text (br_status b) = js ''promoted'' \<or>
      status_text (br_status b) = js ''archived''"
    by (cases "br_status b") simp_all
  show ?thesis
    unfolding isDropBranchRecordV1_def branch_json_def json.case Let_def
    by (intro conjI) (auto simp: guard_eval one mode status)
qed

definition coherent_head :: "BranchStateHead \<Rightarrow> bool" where
  "coherent_head h \<longleftrightarrow> valid_target (target h) \<and> valid_placement (placement h) \<and> valid_version (hd_version h) \<and>
     head_consistent h h"

lemma validateNullMemResult_ok:
  assumes "coherent_head (nr_head r)" "target r = target q" "placement r = placement q"
    "target (nr_head r) = target q" "placement (nr_head r) = placement q"
    "is_safe_integer (nr_memoryRevision r)" "0 \<le> nr_memoryRevision r"
  shows "validateNullMemResult pf r q = Inr ()"
proof -
  have "same_scope pf r q" "same_scope pf (nr_head r) q" using assms by (simp_all add: same_scope_refl)
  moreover have "head_consistent (nr_head r) q" using assms by (simp add: coherent_head_def head_consistent_def)
  ultimately show ?thesis
    using assms by (simp add: validateNullMemResult_def coherent_head_def branch_json_valid)
qed

definition records_ok :: "BranchStateHead \<Rightarrow> record_map \<Rightarrow> bool" where
  "records_ok head m \<longleftrightarrow> jsmap_wf m \<and>
     (\<forall>(k, r) \<in> set m. k = nullMemRecordIdentity r \<and> validateNullMemRecord r head = Inr ())"

lemma match_records_self:
  assumes "records_ok head m"
  shows "match_records pf head (map snd m) m"
  using assms
proof (induction m)
  case (Cons p m)
  obtain k r where p: "p = (k, r)" by fastforce
  have k: "k = nullMemRecordIdentity r" and v: "validateNullMemRecord r head = Inr ()"
    and m: "records_ok head m" "map_of m k = None"
    using Cons.prems by (auto simp: p records_ok_def)
  have "AList.delete k m = m" using m(2) by (force simp: AList.delete_eq filter_id_conv map_of_eq_None_iff)
  then have "AList.delete k ((k, r) # m) = m" by (simp add: AList.delete_eq)
  with Cons.IH [OF m(1)] k v show ?case by (simp add: p)
qed simp

lemma records_ok_apply:
  assumes "records_ok head m" "\<And>r. mut = Put_Record r \<Longrightarrow> validateNullMemRecord r head = Inr ()"
  shows "records_ok head (apply_mutation mut m)"
proof (cases mut)
  case (Put_Record r)
  have "set (AList.update (nullMemRecordIdentity r) r m) \<subseteq> insert (nullMemRecordIdentity r, r) (set m)"
    by (induction m) auto
  with assms Put_Record show ?thesis by (auto simp: apply_mutation_def records_ok_def)
next
  case (Delete_Record i)
  with assms(1) show ?thesis
    by (auto simp: apply_mutation_def records_ok_def jsmap_wf_def distinct_map_filter)
qed

definition nullmem_ok :: "platform \<Rightarrow> BranchStateHead \<Rightarrow> int \<Rightarrow> record_map \<Rightarrow> BranchNullMemOutbox list \<Rightarrow> bool" where
  "nullmem_ok pf head revision m outbox \<longleftrightarrow>
     int (length outbox) = revision \<and> is_safe_integer revision \<and>
     replay_outbox pf head 1 0 (- 1) outbox [] = Inr m \<and> records_ok head m"

lemma nullmem_ok_validates:
  assumes "nullmem_ok pf head revision m outbox" "coherent_head head"
  shows "validateNullMemState pf head revision (map snd m) outbox (0, []) = Inr ()"
proof -
  note n = assms(1) [unfolded nullmem_ok_def]
  have "0 \<le> revision" using n by linarith
  then have "validateNullMemResult pf \<lparr>target = target head, placement = placement head, nr_head = head,
      nr_memoryRevision = revision\<rparr> head = Inr ()"
    using n assms(2) by (intro validateNullMemResult_ok) simp_all
  then show ?thesis
    using n match_records_self [of head m pf]
    by (simp add: validateNullMemState_def is_safe_integer_def max_safe_integer_def)
qed

lemma replay_outbox_snoc:
  assumes "replay_outbox pf head n ps pe es m = Inr m'"
    and "ps \<le> snapshotId (hd_version head)" "pe \<le> eventSeq (hd_version head)"
    and e: "\<And>ps pe. ps \<le> snapshotId (hd_version head) \<Longrightarrow> pe \<le> eventSeq (hd_version head) \<Longrightarrow>
       outbox_entry_ok pf head (n + int (length es)) ps pe e"
  shows "replay_outbox pf head n ps pe (es @ [e]) m = Inr (apply_mutation (no_mutation e) m')"
  using assms
proof (induction es arbitrary: n ps pe m)
  case (Cons x es)
  from Cons.prems have x: "outbox_entry_ok pf head n ps pe x" by (simp split: if_splits)
  then have b: "snapshotId (hd_version (nr_head (no_result x))) \<le> snapshotId (hd_version head)"
    "eventSeq (hd_version (nr_head (no_result x))) \<le> eventSeq (hd_version head)"
    by (simp_all add: outbox_entry_ok_def Let_def)
  have "n + 1 + int (length es) = n + int (length (x # es))" by simp
  with Cons.prems x Cons.IH [OF _ b, of "n + 1"] show ?case by (simp add: algebra_simps)
qed simp

text \<open>Old entries stay valid when the head advances.\<close>

lemma outbox_entry_ok_advance:
  assumes "outbox_entry_ok pf head n ps pe e" "target head' = target head" "placement head' = placement head"
    "snapshotId (hd_version head) \<le> snapshotId (hd_version head')" "eventSeq (hd_version head) \<le> eventSeq (hd_version head')"
  shows "outbox_entry_ok pf head' n ps pe e"
proof -
  have "validateNullMemResult pf r head' = validateNullMemResult pf r head" for r :: BranchNullMemResult
    using assms(2,3) by (simp add: validateNullMemResult_def same_scope_def head_consistent_def)
  moreover have "validateNullMemRecord v head' = validateNullMemRecord v head" for v
    using assms(2,3) by (simp add: validateNullMemRecord_def)
  ultimately show ?thesis using assms by (auto simp: outbox_entry_ok_def Let_def split: nullmem_mutation.splits)
qed

lemma replay_outbox_advance:
  assumes "target head' = target head" "placement head' = placement head"
    "snapshotId (hd_version head) \<le> snapshotId (hd_version head')" "eventSeq (hd_version head) \<le> eventSeq (hd_version head')"
  shows "replay_outbox pf head n ps pe es m = Inr m' \<Longrightarrow> replay_outbox pf head' n ps pe es m = Inr m'"
proof (induction es arbitrary: n ps pe m)
  case (Cons e es)
  then show ?case using outbox_entry_ok_advance [OF _ assms] by (simp split: if_splits)
qed simp

lemma nullmem_ok_advance:
  assumes "nullmem_ok pf head revision m outbox" "target head' = target head" "placement head' = placement head"
    "snapshotId (hd_version head) \<le> snapshotId (hd_version head')" "eventSeq (hd_version head) \<le> eventSeq (hd_version head')"
  shows "nullmem_ok pf head' revision m outbox"
proof -
  have "validateNullMemRecord v head' = validateNullMemRecord v head" for v
    using assms(2,3) by (simp add: validateNullMemRecord_def)
  then show ?thesis
    using assms(1) replay_outbox_advance [OF assms(2-5)] by (simp add: nullmem_ok_def records_ok_def)
qed

lemma makeOutbox_Inr:
  assumes "makeOutbox pf actor created result mut = Inr e"
  shows "no_result e = result" "no_mutation e = mut" "no_createdAt e = created" "no_actorAccountId e = actor"
    "is_safe_integer created" "0 \<le> created" "is_safe_integer (nr_memoryRevision result)" "1 \<le> nr_memoryRevision result"
    "no_id e = nullmem_outbox_id pf result"
    "no_intent e = (case mut of Put_Record r \<Rightarrow> nullMemRecordIntent pf r | Delete_Record i \<Rightarrow> quote_json i)"
  using assms by (auto simp: makeOutbox_def split: if_splits)

lemma nullmem_ok_publish:
  assumes ok: "nullmem_ok pf head revision m outbox" and h: "coherent_head head"
    and made: "makeOutbox pf actor created \<lparr>target = target head, placement = placement head, nr_head = head,
        nr_memoryRevision = revision + 1\<rparr> mut = Inr e"
    and actor: "actor \<noteq> []" "authorizeNullMem actor head = Inr ()"
    and put: "\<And>r. mut = Put_Record r \<Longrightarrow> validateNullMemRecord r head = Inr () \<and> get ''createdAt'' r = Some (j_int created)"
  shows "nullmem_ok pf head (revision + 1) (apply_mutation mut m) (outbox @ [e])"
proof -
  note n = ok [unfolded nullmem_ok_def] and mk = makeOutbox_Inr [OF made]
  have v: "validateNullMemResult pf (no_result e) head = Inr ()"
    using h mk by (intro validateNullMemResult_ok) simp_all
  have "outbox_entry_ok pf head (1 + int (length outbox)) ps pe e"
    if "ps \<le> snapshotId (hd_version head)" "pe \<le> eventSeq (hd_version head)" for ps pe
    using that v n actor put
    by (auto simp: outbox_entry_ok_def Let_def mk(1-6) mk(9,10) split: nullmem_mutation.splits)
  moreover have "0 \<le> snapshotId (hd_version head)" "- 1 \<le> eventSeq (hd_version head)"
    using h by (simp_all add: coherent_head_def valid_version_def)
  ultimately have "replay_outbox pf head 1 0 (- 1) (outbox @ [e]) [] = Inr (apply_mutation mut m)"
    using n replay_outbox_snoc [of pf head 1 0 "- 1" outbox "[]" m e] by (simp add: mk)
  moreover have "records_ok head (apply_mutation mut m)" using n put by (intro records_ok_apply) simp_all
  ultimately show ?thesis using n mk by (simp add: nullmem_ok_def)
qed

section \<open>Properties\<close>

text \<open>
  C27: A memory query answers with the best matching records: what it returns and what it leaves out
  together are exactly the matching records of the scope, in the order of the documented ranking (score,
  then newest, then id), the answer being the first \<open>limit\<close> of them. The selection keeps a list of at
  most \<open>limit\<close> records while it scans, and nothing that should have been kept is dropped on the way.
\<close>

theorem nullmem_query_best:
  assumes "collation_ok pf" "queryNullMemRecords pf records sel = Inr rs"
  shows "\<exists>rest. mset (rs @ rest) = mset (filter (nullmem_matches pf sel (query_tokens pf (sel_q sel))) records) \<and>
      sorted_wrt (\<lambda>a b. \<not> nullmem_compare pf (length (query_tokens pf (sel_q sel))) b a < 0) (rs @ rest) \<and>
      (rest = [] \<or> int (length rs) = sel_limit sel) \<and> int (length rs) \<le> sel_limit sel"
proof -
  let ?lt = "\<lambda>a b. nullmem_compare pf (length (query_tokens pf (sel_q sel))) a b < 0"
  let ?all = "stable_sort ?lt (filter (nullmem_matches pf sel (query_tokens pf (sel_q sel))) records)"
  let ?n = "nat (sel_limit sel)"
  from assms(2) have rs: "rs = take ?n ?all" and n: "1 \<le> sel_limit sel" by (simp_all add: query_Inr_iff)
  have "rs @ drop ?n ?all = ?all" by (simp add: rs)
  moreover have "sorted_wrt (\<lambda>a b. \<not> ?lt b a) ?all"
    by (rule sorted_stable_sort [OF compare_strict_weak [OF assms(1)]])
  ultimately show ?thesis
    using n by (intro exI [of _ "drop ?n ?all"]) (auto simp: mset_stable_sort rs)
qed

definition example_memory :: "int \<Rightarrow> json" where
  "example_memory p = JObj [(js ''kind'', JStr (js ''fact'')), (js ''recordId'', JStr (js ''m'')),
     (js ''priority'', j_int p), (js ''createdAt'', j_int 0)]"

definition example_selection :: BranchNullMemSelection where
  "example_selection = \<lparr>sel_kind = Some Fact_Kind, sel_q = None, sel_labels = None, sel_procedureId = None,
     sel_limit = 1\<rparr>"

lemma example_collation: "collation_ok example_platform"
  by (auto simp: collation_ok_def example_platform_def split: if_splits)

theorem nullmem_query_best_witness:
  "queryNullMemRecords example_platform [example_memory 1, example_memory 5] example_selection = Inr [example_memory 5] \<and>
   (\<exists>rest. mset ([example_memory 5] @ rest) = {#example_memory 1, example_memory 5#})"
proof -
  have match: "nullmem_matches example_platform example_selection [] (example_memory p)" for p
    by (simp add: nullmem_matches_def example_selection_def example_memory_def get_string_def get_def entries_def)
  have tokens: "query_tokens example_platform (sel_q example_selection) = []"
    by (simp add: query_tokens_def example_selection_def)
  have cmp: "nullmem_compare example_platform 0 (example_memory 5) (example_memory 1) = - 1"
    by (simp add: nullmem_compare_def Let_def rat_field_def get_def entries_def example_memory_def j_int_def example_platform_def)
  have q: "queryNullMemRecords example_platform [example_memory 1, example_memory 5] example_selection = Inr [example_memory 5]"
    by (simp add: queryNullMemRecords_def captureNullMemSelection_def example_selection_def [THEN arg_cong, of sel_limit]
        is_safe_integer_def max_safe_integer_def Let_def tokens match select_step_def cmp)
  from nullmem_query_best [OF example_collation q] q show ?thesis by (auto simp: tokens match)
qed

end
