(* ===== verification/Outbox_Delivery.thy ===== *)
theory Outbox_Delivery
  imports Nullmem
begin

text \<open>
  Delivery of committed work: the records of \<^verbatim>\<open>shared/drop/branch-outbox-delivery.ts\<close> and the checks
  of \<^verbatim>\<open>src/server/state-plane/outbox-delivery.ts\<close> that the persistent planes share: claim validation,
  lease tokens, the retry schedule and the placement an outbox record was captured under.

  The lemmas give the two identities delivery rests on: a lease token determines the lease, the
  outbox record and the attempt it was issued for (\<open>lease_token_inj\<close>), and retry delays are bounded
  and grow with the attempt.
\<close>

section \<open>Records\<close>

datatype BranchCanonicalOutbox =
    Commit_Outbox BranchCommitOutboxRecord
  | Batch_Outbox BranchBatchCommitOutboxRecord
  | Fact_Outbox BranchRuntimeFactOutbox
  | Memory_Outbox BranchNullMemOutbox

fun outbox_id :: "BranchCanonicalOutbox \<Rightarrow> jstring" where
  "outbox_id (Commit_Outbox x) = co_id x"
| "outbox_id (Batch_Outbox x) = bo_id x"
| "outbox_id (Fact_Outbox x) = fo_id x"
| "outbox_id (Memory_Outbox x) = no_id x"

fun outbox_kind :: "BranchCanonicalOutbox \<Rightarrow> jstring" where
  "outbox_kind (Commit_Outbox x) = js ''branch.commit.v1''"
| "outbox_kind (Batch_Outbox x) = js ''branch.batch-commit.v1''"
| "outbox_kind (Fact_Outbox x) = js ''branch.runtime-fact.v1''"
| "outbox_kind (Memory_Outbox x) = js ''branch.nullmem.v1''"

record BranchClaimedOutbox = BranchHeadQuery +
  cl_outbox :: BranchCanonicalOutbox
  cl_attempt :: int
  cl_leaseUntil :: int

record BranchOutboxDeliveryItem = BranchHeadQuery +
  di_outboxId :: jstring
  di_leaseToken :: jstring

record BranchOutboxDeliveryClaim =
  dc_leaseId :: jstring
  dc_leaseUntil :: int
  dc_items :: "BranchOutboxDeliveryItem list"

record BranchOutboxClaimCommand =
  oc_leaseId :: jstring
  oc_now :: int
  oc_leaseMs :: int
  oc_limit :: int

record BranchOutboxClaimResultCommand =
  or_leaseId :: jstring
  or_now :: int
  or_items :: "BranchOutboxDeliveryItem list"

section \<open>Validation\<close>

definition MAX_OUTBOX_LEASE_MS :: int where
  "MAX_OUTBOX_LEASE_MS = 15 * 60 * 1000"

definition valid_lease_id :: "jstring \<Rightarrow> bool" where
  "valid_lease_id s \<longleftrightarrow> \<not> length s < 1 \<and> \<not> length s > 128 \<and> js_trim s = s"

definition validateOutboxClaim :: "BranchOutboxClaimCommand \<Rightarrow> unit branch_result" where
  "validateOutboxClaim command =
     (if \<not> valid_lease_id (oc_leaseId command) \<or>
         \<not> is_safe_integer (oc_now command) \<or> oc_now command < 0 \<or>
         \<not> is_safe_integer (oc_leaseMs command) \<or> oc_leaseMs command < 1 \<or>
         oc_leaseMs command > MAX_OUTBOX_LEASE_MS \<or>
         \<not> is_safe_integer (oc_limit command) \<or> oc_limit command < 1 \<or> oc_limit command > 256 \<or>
         \<not> is_safe_integer (oc_now command + oc_leaseMs command)
      then Inl Invalid_Command else Inr ())"

definition invalid_item :: "BranchOutboxDeliveryItem \<Rightarrow> bool" where
  "invalid_item item \<longleftrightarrow>
     di_outboxId item = [] \<or> length (di_outboxId item) > 1024 \<or>
     di_leaseToken item = [] \<or> length (di_leaseToken item) > 32768 \<or>
     (case BranchStateQuery_head item of Inl _ \<Rightarrow> True | Inr _ \<Rightarrow> False)"

definition validateOutboxClaimResult :: "BranchOutboxClaimResultCommand \<Rightarrow> unit branch_result" where
  "validateOutboxClaimResult command =
     (if \<not> valid_lease_id (or_leaseId command) \<or>
         \<not> is_safe_integer (or_now command) \<or> or_now command < 0 \<or>
         length (or_items command) > 256 \<or> list_ex invalid_item (or_items command) \<or>
         length (remdups (map di_outboxId (or_items command))) \<noteq> length (or_items command)
      then Inl Invalid_Command else Inr ())"

section \<open>Lease tokens and the retry schedule\<close>

definition lease_tuple :: "platform \<Rightarrow> jstring \<Rightarrow> jstring \<Rightarrow> int \<Rightarrow> jstring" where
  "lease_tuple pf leaseId outboxId attempt = stringify (number_text pf)
     (JArr [JStr (js ''nulldown.outbox-lease.v1''), JStr leaseId, JStr outboxId, j_int attempt])"

definition outboxLeaseToken :: "platform \<Rightarrow> jstring \<Rightarrow> jstring \<Rightarrow> int \<Rightarrow> jstring branch_result" where
  "outboxLeaseToken pf leaseId outboxId attempt =
     (if length leaseId < 1 \<or> length leaseId > 128 \<or> length outboxId < 1 \<or> length outboxId > 1024 \<or>
         \<not> is_safe_integer attempt \<or> attempt < 1
      then Inl State_Corrupt
      else let token = js ''v1_'' @ concat (map hex4 (lease_tuple pf leaseId outboxId attempt))
           in if length token > 32768 then Inl State_Corrupt else Inr token)"

definition outboxRetryAt :: "int \<Rightarrow> int \<Rightarrow> int branch_result" where
  "outboxRetryAt now attempt =
     (if \<not> is_safe_integer now \<or> now < 0 \<or> \<not> is_safe_integer attempt \<or> attempt < 1 then Inl Invalid_Command
      else let delay = min (60000 * 2 ^ nat (min (attempt - 1) 10)) (24 * 60 * 60 * 1000);
               nxt = now + delay
           in if \<not> is_safe_integer nxt then Inl Invalid_Command else Inr nxt)"

section \<open>The captured placement\<close>

fun captured_query :: "BranchCanonicalOutbox \<Rightarrow> BranchHeadQuery" where
  "captured_query (Commit_Outbox x) = query_of (co_receipt x)"
| "captured_query (Batch_Outbox x) = query_of x"
| "captured_query (Fact_Outbox x) = query_of x"
| "captured_query (Memory_Outbox x) = query_of (nr_head (no_result x))"

definition canonicalOutboxPlacement :: "BranchCanonicalOutbox \<Rightarrow> BranchHeadQuery branch_result" where
  "canonicalOutboxPlacement outbox =
     (case BranchStateQuery_head (captured_query outbox) of
        Inl _ \<Rightarrow> Inl State_Corrupt | Inr query \<Rightarrow> Inr query)"

section \<open>Lemmas\<close>

lemma valid_lease_id_iff: "valid_lease_id s \<longleftrightarrow> 1 \<le> length s \<and> length s \<le> 128 \<and> is_trimmed s"
  by (auto simp: valid_lease_id_def is_trimmed_def Suc_le_eq not_less)

lemma hex4_inj [simp]: "hex4 u = hex4 v \<longleftrightarrow> u = v"
proof
  assume "hex4 u = hex4 v"
  then have "unquote (92 # 117 # hex4 u @ [34]) = unquote (92 # 117 # hex4 v @ [34])" by simp
  then show "u = v" unfolding unquote_hex4 by (simp add: unquote_end)
qed simp

lemma length_hex4 [simp]: "length (hex4 u) = 4"
  by (simp add: hex4_def)

lemma concat_hex4_inj: "concat (map hex4 s) = concat (map hex4 t) \<longleftrightarrow> s = t"
proof (induction s arbitrary: t)
  case Nil
  show ?case by (cases t) (auto simp: hex4_def)
next
  case (Cons u s)
  show ?case
  proof (cases t)
    case (Cons v t')
    have "hex4 u @ a = hex4 v @ b \<longleftrightarrow> hex4 u = hex4 v \<and> a = b" for a b
      by (rule append_eq_append_conv) simp
    with Cons.IH [of t'] show ?thesis by (simp add: Cons)
  qed (simp add: hex4_def)
qed

lemma length_concat_hex4: "length (concat (map hex4 s)) = 4 * length s"
  by (induction s) simp_all

lemma lease_token_Inr:
  assumes "outboxLeaseToken pf l i a = Inr t"
  shows "t = js ''v1_'' @ concat (map hex4 (lease_tuple pf l i a))" "length l \<le> 128" "length i \<le> 1024" "1 \<le> a"
  using assms by (auto simp: outboxLeaseToken_def Let_def split: if_splits)

lemma lease_token_inj:
  assumes "number_printer (number_text pf)" "outboxLeaseToken pf l i a = Inr t" "outboxLeaseToken pf m j b = Inr t"
  shows "l = m \<and> i = j \<and> a = b"
proof -
  have "lease_tuple pf l i a = lease_tuple pf m j b"
    using lease_token_Inr(1) [OF assms(2)] lease_token_Inr(1) [OF assms(3)] by (simp add: concat_hex4_inj)
  then show ?thesis
    unfolding lease_tuple_def number_printer.stringify_inj [OF assms(1)] by (simp add: j_int_def)
qed

text \<open>Quoting expands a code unit to at most six, so every admissible tuple fits the token limit.\<close>

lemma length_quote_unit: "length (quote_unit u) \<le> 6"
  by (simp add: quote_unit_def)

lemma length_quote_json: "length (quote_json s) \<le> 6 * length s + 2"
proof -
  have "length (quote_body s) \<le> 6 * length s"
  proof (induction s rule: quote_body.induct)
    case (2 u)
    show ?case using length_quote_unit [of u] by simp
  next
    case (3 u v us)
    then show ?case using length_quote_unit [of u] by auto
  qed simp
  then show ?thesis by (simp add: quote_json_def)
qed

lemma lease_token_total:
  assumes "1 \<le> length l" "length l \<le> 128" "1 \<le> length i" "length i \<le> 1024" "1 \<le> a" "is_safe_integer a"
    and n: "length (number_text pf (of_int a)) \<le> 24"
  shows "\<exists>t. outboxLeaseToken pf l i a = Inr t"
proof -
  have "lease_tuple pf l i a = [91] @ quote_json (js ''nulldown.outbox-lease.v1'') @ [44] @ quote_json l @ [44] @
      quote_json i @ [44] @ number_text pf (of_int a) @ [93]"
    by (simp add: lease_tuple_def j_int_def)
  then have "length (lease_tuple pf l i a) \<le> 7500"
    using length_quote_json [of "js ''nulldown.outbox-lease.v1''"] length_quote_json [of l]
      length_quote_json [of i] n assms(2,4) by simp
  with assms show ?thesis
    by (auto simp: outboxLeaseToken_def Let_def length_concat_hex4)
qed

lemma retry_delay_bounds:
  "60000 \<le> min (60000 * 2 ^ nat (min k 10)) (86400000 :: int)"
  "min (60000 * 2 ^ nat (min k 10)) (86400000 :: int) \<le> 61440000"
proof -
  let ?n = "nat (min k 10)"
  have "(1 :: int) \<le> 2 ^ ?n" by simp
  then have "(60000 :: int) \<le> 60000 * 2 ^ ?n" by linarith
  then show "60000 \<le> min (60000 * 2 ^ ?n) (86400000 :: int)" by simp
  have "?n \<le> 10" by simp
  then have "(2 :: int) ^ ?n \<le> 2 ^ 10" by (rule power_increasing) simp
  then show "min (60000 * 2 ^ ?n) (86400000 :: int) \<le> 61440000" by simp
qed

lemma retry_Inr:
  assumes "outboxRetryAt now a = Inr t"
  shows "t = now + min (60000 * 2 ^ nat (min (a - 1) 10)) 86400000" "0 \<le> now" "1 \<le> a" "is_safe_integer t"
  using assms by (auto simp: outboxRetryAt_def Let_def split: if_splits)

lemma retry_monotone: "a \<le> b \<Longrightarrow> min (60000 * 2 ^ nat (min (a - 1) 10)) (86400000 :: int)
    \<le> min (60000 * 2 ^ nat (min (b - 1) 10)) 86400000"
proof -
  assume "a \<le> b"
  then have "nat (min (a - 1) 10) \<le> nat (min (b - 1) 10)" by (intro nat_mono min.mono) simp_all
  then have "(2 :: int) ^ nat (min (a - 1) 10) \<le> 2 ^ nat (min (b - 1) 10)" by (intro power_increasing) simp_all
  then show ?thesis by (intro min.mono mult_left_mono) simp_all
qed

lemma canonical_placement_Inr_iff [result_simps]:
  "canonicalOutboxPlacement x = Inr q \<longleftrightarrow> q = captured_query x \<and> valid_target (target q) \<and> valid_placement (placement q)"
proof -
  have "query_of (captured_query x) = captured_query x" by (cases x) (simp_all add: query_of_def)
  then show ?thesis by (auto simp: canonicalOutboxPlacement_def BranchStateQuery_head_def)
qed

section \<open>Properties\<close>

text \<open>
  C30: A lease token belongs to one claim: whenever two successful calls produce the same token they
  were made for the same lease, the same outbox record and the same attempt; and a token exists for
  every lease id and outbox id within the documented lengths, so the size check on the result never
  fires (a printed number is at most 24 code units long).
\<close>

theorem lease_token_identifies_claim:
  assumes "platform_ok pf" "\<And>n. is_safe_integer n \<Longrightarrow> length (number_text pf (of_int n)) \<le> 24"
    and "1 \<le> length l" "length l \<le> 128" "1 \<le> length i" "length i \<le> 1024" "1 \<le> a" "is_safe_integer a"
  shows "\<exists>t. outboxLeaseToken pf l i a = Inr t \<and>
     (\<forall>m j b. outboxLeaseToken pf m j b = Inr t \<longrightarrow> m = l \<and> j = i \<and> b = a)"
proof -
  from lease_token_total [OF assms(3-8) assms(2) [OF assms(8)]]
  obtain t where t: "outboxLeaseToken pf l i a = Inr t" by blast
  moreover have "m = l \<and> j = i \<and> b = a" if "outboxLeaseToken pf m j b = Inr t" for m j b
    using lease_token_inj [OF _ that t] assms(1) by (simp add: platform_ok_def)
  ultimately show ?thesis by blast
qed

lemma digits_nat_short: "n < 10 ^ Suc k \<Longrightarrow> length (digits_nat n) \<le> Suc k"
proof (induction k arbitrary: n)
  case (Suc k)
  show ?case
  proof (cases "n < 10")
    case False
    have "n div 10 < 10 ^ Suc k" using Suc.prems by (simp add: less_mult_imp_div_less mult.commute)
    then have "length (digits_nat (n div 10)) \<le> Suc k" by (rule Suc.IH)
    with False show ?thesis by (subst digits_nat.simps) simp
  qed (simp add: digits_nat.simps)
qed (simp add: digits_nat.simps)

lemma example_numbers_short: "is_safe_integer n \<Longrightarrow> length (number_text example_platform (of_int n)) \<le> 24"
proof -
  assume "is_safe_integer n"
  then have "nat \<bar>n\<bar> < 10 ^ Suc 15" by (simp add: is_safe_integer_def max_safe_integer_def)
  then have l: "length (digits_nat (nat \<bar>n\<bar>)) \<le> 16" using digits_nat_short [of "nat \<bar>n\<bar>" 15] by simp
  have "length (digits_int n) \<le> 17" using l by (cases "n < 0") (simp_all add: digits_int_def)
  then show ?thesis by (simp add: example_platform_def print_number_def)
qed

theorem lease_token_identifies_claim_witness:
  "\<exists>t. outboxLeaseToken example_platform (js ''lease'') (js ''outbox'') 1 = Inr t \<and>
     (\<forall>m j b. outboxLeaseToken example_platform m j b = Inr t \<longrightarrow> m = js ''lease'' \<and> j = js ''outbox'' \<and> b = 1)"
  by (rule lease_token_identifies_claim [OF example_platform_ok example_numbers_short])
    (simp_all add: is_safe_integer_def max_safe_integer_def)

text \<open>
  Retries back off within bounds: a failed delivery is due again no sooner than one minute and no
  later than 1024 minutes after the failure (the exponent is capped first, so the one-day cap of the
  source is never reached), and a later attempt never waits less than an earlier one.
\<close>

theorem retry_backoff_bounded:
  assumes "outboxRetryAt now a = Inr t" "outboxRetryAt now b = Inr u" "a \<le> b"
  shows "now + 60000 \<le> t \<and> t \<le> u \<and> u \<le> now + 61440000 \<and> is_safe_integer u"
  using retry_delay_bounds [of "a - 1"] retry_delay_bounds [of "b - 1"]
    retry_monotone [OF assms(3)] retry_Inr [OF assms(1)] retry_Inr [OF assms(2)] by linarith

theorem retry_backoff_bounded_witness:
  "outboxRetryAt 1000 1 = Inr 61000 \<and> outboxRetryAt 1000 12 = Inr 61441000 \<and> (61000 :: int) \<le> 61441000"
proof -
  have a: "outboxRetryAt 1000 1 = Inr 61000" and b: "outboxRetryAt 1000 12 = Inr 61441000"
    by (simp_all add: outboxRetryAt_def Let_def is_safe_integer_def max_safe_integer_def)
  with retry_backoff_bounded [OF a b] show ?thesis by simp
qed

end
