(* ===== verification/Branch_Lifecycle.thy ===== *)
theory Branch_Lifecycle
  imports Branch_Commit
begin

text \<open>
  Creating branches: \<^verbatim>\<open>shared/drop/branch-lifecycle.ts\<close>. A branch is reserved (ownership and source
  revision, before any root content is read) and then initialized (snapshot zero). Every input is
  captured by the functions \<open>BranchLifecycleQuery_*\<close>; \<open>prepareBranchInitialization\<close> builds the rows of
  snapshot zero and the canonical intent that makes retries comparable.
\<close>

section \<open>Records\<close>

record BranchInitializationIdentity =
  id_baseDropId :: jstring
  id_mode :: DropBranchMode
  id_ownerAccountId :: "jstring option"
  id_writerAccountId :: "jstring option"
  id_writerClientId :: "jstring option"

record BranchInitializationReservation =
  rv_reservationId :: jstring
  rv_identity :: BranchInitializationIdentity
  rv_rootRevision :: jstring
  rv_createdAt :: int

datatype authority_state = Pending_Authority | Active_Authority

record BranchAuthorityRecord = BranchHeadQuery +
  au_state :: authority_state
  au_reservation :: BranchInitializationReservation

record BranchReserveRecord = BranchHeadQuery +
  rs_reservationId :: jstring
  rs_identity :: BranchInitializationIdentity
  rs_rootRevision :: jstring

datatype reserve_status = Reserved | Existing_Reservation

record BranchReserveOutcome =
  ro_status :: reserve_status
  ro_authority :: BranchAuthorityRecord

record BranchInitializeRecord = BranchHeadQuery +
  in_reservationId :: jstring
  in_rootRevision :: jstring
  in_content :: jstring

record BranchInitializationReceipt = BranchHeadQuery +
  ir_reservationId :: jstring
  ir_rootRevision :: jstring
  ir_payloadHash :: jstring
  ir_initialHead :: BranchStateHead

datatype initialize_status = Created | Initialize_Duplicate

record BranchInitializeOutcome =
  io_status :: initialize_status
  io_receipt :: BranchInitializationReceipt

record BranchSnapshotQuery = BranchHeadQuery +
  sq_snapshotId :: int

record BranchSnapshotState = BranchContentQuery +
  ss_snapshot :: DropSnapshotRecord

record BranchSnapshotPageQuery = BranchContentQuery +
  pq_afterSnapshotId :: int
  pq_limit :: int

record BranchSnapshotPage =
  sp_snapshots :: "BranchSnapshotState list"
  sp_nextAfterSnapshotId :: "int option"

section \<open>Captured inputs\<close>

definition lifecycle_token :: "jstring \<Rightarrow> bool" where
  "lifecycle_token = valid_token 256"

definition valid_identity :: "BranchInitializationIdentity \<Rightarrow> bool" where
  "valid_identity i \<longleftrightarrow> lifecycle_token (id_baseDropId i) \<and> opt_all lifecycle_token (id_ownerAccountId i) \<and>
     opt_all lifecycle_token (id_writerAccountId i) \<and> opt_all lifecycle_token (id_writerClientId i)"

definition valid_reservation :: "BranchInitializationReservation \<Rightarrow> bool" where
  "valid_reservation r \<longleftrightarrow> lifecycle_token (rv_reservationId r) \<and> valid_identity (rv_identity r) \<and>
     lifecycle_token (rv_rootRevision r) \<and> is_safe_integer (rv_createdAt r) \<and> 0 \<le> rv_createdAt r"

definition BranchLifecycleQuery_authority :: "BranchAuthorityRecord \<Rightarrow> BranchAuthorityRecord branch_result" where
  "BranchLifecycleQuery_authority a =
     (if \<not> valid_reservation (au_reservation a) then Inl Invalid_Command
      else and_then (BranchStateQuery_head a) (\<lambda>query.
        if routingVersion (placement query) \<noteq> 1 then Inl Invalid_Command
        else Inr \<lparr>target = target query, placement = placement query, au_state = au_state a,
                  au_reservation = au_reservation a\<rparr>))"

definition BranchLifecycleQuery_placement :: "BranchStateTarget \<Rightarrow> BranchStateTarget branch_result" where
  "BranchLifecycleQuery_placement t =
     and_then (BranchStateQuery_head \<lparr>target = t, placement = \<lparr>routingVersion = 1, generation = 0\<rparr>\<rparr>)
       (\<lambda>q. Inr (target q))"

definition BranchLifecycleQuery_reserve :: "BranchReserveRecord \<Rightarrow> BranchReserveRecord branch_result" where
  "BranchLifecycleQuery_reserve i =
     and_then (BranchStateQuery_head i) (\<lambda>query.
       if lifecycle_token (rs_reservationId i) \<and> valid_identity (rs_identity i) \<and> lifecycle_token (rs_rootRevision i)
       then Inr \<lparr>target = target query, placement = placement query, rs_reservationId = rs_reservationId i,
                 rs_identity = rs_identity i, rs_rootRevision = rs_rootRevision i\<rparr>
       else Inl Invalid_Command)"

definition BranchLifecycleQuery_initialize :: "BranchInitializeRecord \<Rightarrow> BranchInitializeRecord branch_result" where
  "BranchLifecycleQuery_initialize i =
     and_then (BranchStateQuery_head i) (\<lambda>query.
       if lifecycle_token (in_reservationId i) \<and> lifecycle_token (in_rootRevision i)
       then Inr \<lparr>target = target query, placement = placement query, in_reservationId = in_reservationId i,
                 in_rootRevision = in_rootRevision i, in_content = in_content i\<rparr>
       else Inl Invalid_Command)"

definition BranchLifecycleQuery_snapshot :: "BranchSnapshotQuery \<Rightarrow> BranchSnapshotQuery branch_result" where
  "BranchLifecycleQuery_snapshot i =
     and_then (BranchStateQuery_head i) (\<lambda>query.
       if is_safe_integer (sq_snapshotId i) \<and> 0 \<le> sq_snapshotId i
       then Inr \<lparr>target = target query, placement = placement query, sq_snapshotId = sq_snapshotId i\<rparr>
       else Inl Invalid_Command)"

definition BranchLifecycleQuery_page :: "BranchSnapshotPageQuery \<Rightarrow> BranchSnapshotPageQuery branch_result" where
  "BranchLifecycleQuery_page i =
     and_then (BranchStateQuery_content \<lparr>target = target i, placement = placement i, cq_version = cq_version i\<rparr>) (\<lambda>query.
       if \<not> (is_safe_integer (pq_afterSnapshotId i) \<and> - 1 \<le> pq_afterSnapshotId i) then Inl Invalid_Command
       else if \<not> (is_safe_integer (pq_limit i) \<and> 1 \<le> pq_limit i \<and> pq_limit i \<le> 200) then Inl Invalid_Command
       else if pq_afterSnapshotId i > snapshotId (cq_version query) then Inl Invalid_Command
       else Inr \<lparr>target = target query, placement = placement query, cq_version = cq_version query,
                 pq_afterSnapshotId = pq_afterSnapshotId i, pq_limit = pq_limit i\<rparr>)"

text \<open>An account's client id is incidental; without an account it is the principal.\<close>

definition sameBranchInitializationIdentity ::
  "BranchInitializationIdentity \<Rightarrow> BranchInitializationIdentity \<Rightarrow> bool" where
  "sameBranchInitializationIdentity a b \<longleftrightarrow>
     id_baseDropId a = id_baseDropId b \<and> id_mode a = id_mode b \<and>
     id_ownerAccountId a = id_ownerAccountId b \<and> id_writerAccountId a = id_writerAccountId b \<and>
     (id_writerAccountId a \<noteq> None \<or> id_writerClientId a = id_writerClientId b)"

section \<open>Snapshot zero\<close>

definition initialBranchSnapshot :: "BranchStateHead \<Rightarrow> jstring \<Rightarrow> DropSnapshotRecord" where
  "initialBranchSnapshot head text =
     \<lparr>sn_snapshotId = 0, sn_rootDropId = rootDropId (target head), sn_branchId = branchId (target head),
      sn_parentSnapshotId = None, sn_seq = 0, sn_eventIds = [], sn_checkpointed = True,
      sn_patchStartSeq = None, sn_patchEndSeq = None, sn_textLength = int (length text),
      sn_sourceContentHash = Some (sourceContentHash (hd_version head)),
      sn_createdAt = br_createdAt (hd_branch head)\<rparr>"

record PreparedBranchInitialization =
  pi_head :: BranchStateHead
  pi_snapshot :: DropSnapshotRecord
  pi_receipt :: BranchInitializationReceipt
  pi_intent :: jstring

definition initialize_json :: "BranchInitializeRecord \<Rightarrow> json" where
  "initialize_json i = JObj [(js ''target'', target_json (target i)), (js ''placement'', placement_json (placement i)),
     (js ''reservationId'', JStr (in_reservationId i)), (js ''rootRevision'', JStr (in_rootRevision i)),
     (js ''content'', JStr (in_content i))]"

definition initial_head :: "platform \<Rightarrow> BranchAuthorityRecord \<Rightarrow> BranchInitializeRecord \<Rightarrow> BranchStateHead" where
  "initial_head pf authority command =
     (let i = rv_identity (au_reservation authority); created = rv_createdAt (au_reservation authority)
      in \<lparr>target = target command, placement = placement command,
          hd_branch = \<lparr>br_branchId = branchId (target command), br_rootDropId = rootDropId (target command),
            br_baseDropId = id_baseDropId i, br_mode = id_mode i, br_status = Active,
            br_ownerAccountId = id_ownerAccountId i, br_writerAccountId = id_writerAccountId i,
            br_writerClientId = id_writerClientId i, br_headSnapshotId = 0, br_snapshotHeapVersion = Some 2,
            br_headEventSeq = Some (- 1), br_checkpointInterval = Some 24, br_createdAt = created, br_updatedAt = created\<rparr>,
          hd_version = \<lparr>snapshotId = 0, eventSeq = - 1,
            sourceContentHash = hashNulldownSourceContent pf (in_content command)\<rparr>\<rparr>)"

definition prepareBranchInitialization ::
  "platform \<Rightarrow> BranchAuthorityRecord \<Rightarrow> BranchInitializeRecord \<Rightarrow> PreparedBranchInitialization branch_result" where
  "prepareBranchInitialization pf authority0 input =
     and_then (BranchLifecycleQuery_authority authority0) (\<lambda>authority.
     and_then (BranchLifecycleQuery_initialize input) (\<lambda>command.
       if serializeCanonicalJson (number_text pf) (target_json (target authority))
          \<noteq> serializeCanonicalJson (number_text pf) (target_json (target command))
         then Inl Branch_Initialization_Conflict
       else if routingVersion (placement authority) \<noteq> routingVersion (placement command)
         then Inl Routing_Version_Unsupported
       else if generation (placement authority) \<noteq> generation (placement command)
         then Inl Routing_Generation_Mismatch
       else if rv_reservationId (au_reservation authority) \<noteq> in_reservationId command \<or>
               rv_rootRevision (au_reservation authority) \<noteq> in_rootRevision command
         then Inl Branch_Initialization_Conflict
       else
         let intent = serializeCanonicalJson (number_text pf) (initialize_json command);
             head = initial_head pf authority command;
             payload = hashNulldownSourceContent pf (js ''nulldown.branch-initialization.v1'' @ [10] @ intent)
         in Inr \<lparr>pi_head = head, pi_snapshot = initialBranchSnapshot head (in_content command),
                 pi_receipt = \<lparr>target = target command, placement = placement command,
                   ir_reservationId = in_reservationId command, ir_rootRevision = in_rootRevision command,
                   ir_payloadHash = payload, ir_initialHead = head\<rparr>,
                 pi_intent = intent\<rparr>))"

section \<open>Lemmas\<close>

lemma same_identity_refl [simp]: "sameBranchInitializationIdentity i i"
  by (simp add: sameBranchInitializationIdentity_def)

lemma same_identity_equivalence:
  "sameBranchInitializationIdentity a b \<Longrightarrow> sameBranchInitializationIdentity b a"
  "sameBranchInitializationIdentity a b \<Longrightarrow> sameBranchInitializationIdentity b c \<Longrightarrow> sameBranchInitializationIdentity a c"
  unfolding sameBranchInitializationIdentity_def by metis+

lemma authority_Inr: "BranchLifecycleQuery_authority a = Inr b \<Longrightarrow> b = a \<and> valid_target (target a) \<and>
    valid_placement (placement a) \<and> routingVersion (placement a) = 1 \<and> valid_reservation (au_reservation a)"
  by (auto simp: BranchLifecycleQuery_authority_def result_simps split: if_splits)

lemma initialize_Inr: "BranchLifecycleQuery_initialize i = Inr c \<Longrightarrow> c = i \<and> valid_target (target i) \<and>
    valid_placement (placement i) \<and> lifecycle_token (in_reservationId i) \<and> lifecycle_token (in_rootRevision i)"
  by (auto simp: BranchLifecycleQuery_initialize_def result_simps split: if_splits)

lemma reserve_Inr: "BranchLifecycleQuery_reserve i = Inr c \<Longrightarrow> c = i \<and> valid_target (target i) \<and>
    valid_placement (placement i) \<and> lifecycle_token (rs_reservationId i) \<and> valid_identity (rs_identity i) \<and>
    lifecycle_token (rs_rootRevision i)"
  by (auto simp: BranchLifecycleQuery_reserve_def result_simps split: if_splits)

lemma clean_initialize: "clean_json (initialize_json i)"
  by (simp add: initialize_json_def target_json_def placement_json_def)

lemma initialize_json_same: "json_same (initialize_json a) (initialize_json b) \<Longrightarrow> a = b"
proof -
  assume s: "json_same (initialize_json a) (initialize_json b)"
  note d = json_same_objD [OF s [unfolded initialize_json_def]]
  from d [of "js ''target''"] d [of "js ''placement''"] d [of "js ''reservationId''"]
    d [of "js ''rootRevision''"] d [of "js ''content''"]
  show "a = b" by (simp add: json_same_iff target_json_same placement_json_same)
qed

text \<open>The stored intent decides whether a retry is the same initialization, lone surrogates included.\<close>

lemma initialize_intent_inj:
  assumes "number_printer (number_text pf)"
  shows "serializeCanonicalJson (number_text pf) (initialize_json a)
      = serializeCanonicalJson (number_text pf) (initialize_json b) \<longleftrightarrow> a = b"
  using number_printer.canonical_iff [OF assms clean_initialize clean_initialize] initialize_json_same by metis

lemma prepareBranchInitialization_Inr:
  assumes "prepareBranchInitialization pf a i = Inr p"
  shows "valid_target (target i)" "valid_placement (placement i)" "placement a = placement i"
    "rv_reservationId (au_reservation a) = in_reservationId i" "rv_rootRevision (au_reservation a) = in_rootRevision i"
    "valid_reservation (au_reservation a)"
    "pi_head p = initial_head pf a i" "pi_snapshot p = initialBranchSnapshot (initial_head pf a i) (in_content i)"
    "pi_intent p = serializeCanonicalJson (number_text pf) (initialize_json i)"
    "ir_initialHead (pi_receipt p) = initial_head pf a i" "target (pi_receipt p) = target i"
    "placement (pi_receipt p) = placement i"
proof -
  from assms obtain a' i' where *: "BranchLifecycleQuery_authority a = Inr a'" "BranchLifecycleQuery_initialize i = Inr i'"
    unfolding prepareBranchInitialization_def and_then_Inr_iff by blast
  with authority_Inr [OF *(1)] initialize_Inr [OF *(2)] assms
  show "valid_target (target i)" "valid_placement (placement i)" "placement a = placement i"
    "rv_reservationId (au_reservation a) = in_reservationId i" "rv_rootRevision (au_reservation a) = in_rootRevision i"
    "valid_reservation (au_reservation a)"
    "pi_head p = initial_head pf a i" "pi_snapshot p = initialBranchSnapshot (initial_head pf a i) (in_content i)"
    "pi_intent p = serializeCanonicalJson (number_text pf) (initialize_json i)"
    "ir_initialHead (pi_receipt p) = initial_head pf a i" "target (pi_receipt p) = target i"
    "placement (pi_receipt p) = placement i"
    by (auto simp: prepareBranchInitialization_def Let_def split: if_splits)
qed

end
