(* ===== verification/Memory_Plane.thy ===== *)
theory Memory_Plane
  imports Outbox_Delivery Branch_Lifecycle
begin

text \<open>
  The state plane \<^verbatim>\<open>MemoryBranchCommitStatePlane\<close> (\<^verbatim>\<open>src/server/state-plane/memory-commits.ts\<close>), the
  reference every persistent plane is tested against. Its maps are the fields of \<open>MemoryPlane\<close>; one
  branch is a \<open>State\<close>. A method is a function from the plane to an error or a result with the new
  plane: every method of the source throws before its first assignment or not at all.

  Methods that wait for a digest between reading and publishing are split where they wait, into a
  \<open>_begin\<close> and a \<open>_finish\<close> part; other calls may run in between (theory \<open>Plane_Steps\<close>). The method
  itself is the composition.
\<close>

section \<open>State\<close>

record nullmem_state =
  mem_revision :: int
  mem_records :: record_map
  mem_outbox :: "BranchNullMemOutbox list"

record State =
  nullmem :: nullmem_state
  runtimeFacts :: "(jstring \<times> jstring \<times> BranchRuntimeFactReceipt) list"
  runtimeOutbox :: "(jstring \<times> BranchRuntimeFactOutbox) list"
  head :: BranchStateHead
  snapshots :: "(int \<times> BranchStateContent) list"
  snapshotMetadata :: "(int \<times> DropSnapshotRecord) list"
  st_events :: "(int \<times> DropDiffEvent) list"
  receipts :: receipt_map
  st_outbox :: "(jstring \<times> BranchCanonicalOutbox) list"

datatype delivery_status = Pending | Claimed | Completed | Fenced

record OutboxDeliveryState =
  ds_kind :: jstring
  ds_target :: BranchStateTarget
  ds_generation :: int
  ds_status :: delivery_status
  ds_attempt :: int
  ds_nextAttemptAt :: int
  ds_lastErrorCode :: "jstring option"
  ds_leaseId :: "jstring option"
  ds_leaseToken :: "jstring option"
  ds_leaseUntil :: "int option"
  ds_completedAt :: "int option"

type_synonym delivery_map = "(jstring \<times> OutboxDeliveryState) list"

record MemoryPlane =
  states :: "(jstring \<times> State) list"
  authorities :: "(jstring \<times> BranchAuthorityRecord) list"
  initializations :: "(jstring \<times> jstring \<times> BranchInitializationReceipt) list"
  delivery :: delivery_map

definition key :: "BranchStateTarget \<Rightarrow> jstring" where
  "key t = json_key [rootDropId t, branchId t]"

definition registerOutbox :: "MemoryPlane \<Rightarrow> BranchCanonicalOutbox \<Rightarrow> delivery_map branch_result" where
  "registerOutbox plane outbox =
     and_then (canonicalOutboxPlacement outbox) (\<lambda>captured.
       case map_of (delivery plane) (outbox_id outbox) of
         Some current \<Rightarrow>
           if ds_kind current \<noteq> outbox_kind outbox \<or> key (ds_target current) \<noteq> key (target captured) \<or>
              ds_generation current \<noteq> generation (placement captured)
           then Inl State_Corrupt else Inr (delivery plane)
       | None \<Rightarrow> Inr (AList.update (outbox_id outbox)
           \<lparr>ds_kind = outbox_kind outbox, ds_target = target captured,
            ds_generation = generation (placement captured), ds_status = Pending, ds_attempt = 0,
            ds_nextAttemptAt = 0, ds_lastErrorCode = None, ds_leaseId = None, ds_leaseToken = None,
            ds_leaseUntil = None, ds_completedAt = None\<rparr> (delivery plane)))"

section \<open>Seeds\<close>

record MemoryBranchStateSeed =
  seed_branch :: DropBranchRecord
  seed_content :: jstring
  seed_placement :: BranchStatePlacement

definition capture_seed :: "MemoryBranchStateSeed \<Rightarrow> BranchHeadQuery branch_result" where
  "capture_seed seed =
     (let branch = seed_branch seed in
      if \<not> isDropBranchRecordV1 (branch_json branch) \<or> br_headSnapshotId branch \<noteq> 0 \<or>
         br_headEventSeq branch \<noteq> Some (- 1)
      then Inl Invalid_Command
      else and_then (BranchStateQuery_head
          \<lparr>target = \<lparr>rootDropId = br_rootDropId branch, branchId = br_branchId branch\<rparr>,
           placement = seed_placement seed\<rparr>) (\<lambda>query.
        if routingVersion (placement query) \<noteq> 1 then Inl Routing_Version_Unsupported else Inr query))"

fun capture_seeds :: "jstring list \<Rightarrow> MemoryBranchStateSeed list
    \<Rightarrow> (MemoryBranchStateSeed \<times> BranchHeadQuery) list branch_result" where
  "capture_seeds targets [] = Inr []"
| "capture_seeds targets (seed # seeds) =
     and_then (capture_seed seed) (\<lambda>query.
       if key (target query) \<in> set targets then Inl Invalid_Command
       else and_then (capture_seeds (key (target query) # targets) seeds) (\<lambda>rest. Inr ((seed, query) # rest)))"

definition initial_state :: "BranchStateHead \<Rightarrow> DropSnapshotRecord \<Rightarrow> jstring \<Rightarrow> State" where
  "initial_state h metadata text =
     \<lparr>nullmem = \<lparr>mem_revision = 0, mem_records = [], mem_outbox = []\<rparr>,
      runtimeFacts = [], runtimeOutbox = [], head = h,
      snapshots = [(0, \<lparr>target = target h, placement = placement h, cq_version = hd_version h, content = text\<rparr>)],
      snapshotMetadata = [(0, metadata)], st_events = [], receipts = [], st_outbox = []\<rparr>"

definition seed_head :: "platform \<Rightarrow> MemoryBranchStateSeed \<Rightarrow> BranchHeadQuery \<Rightarrow> BranchStateHead" where
  "seed_head pf seed query =
     \<lparr>target = target query, placement = placement query, hd_branch = seed_branch seed,
      hd_version = \<lparr>snapshotId = 0, eventSeq = - 1,
        sourceContentHash = hashNulldownSourceContent pf (seed_content seed)\<rparr>\<rparr>"

definition create :: "platform \<Rightarrow> MemoryBranchStateSeed list \<Rightarrow> MemoryPlane branch_result" where
  "create pf seeds =
     and_then (capture_seeds [] seeds) (\<lambda>captured.
       Inr \<lparr>states = jsmap_set_all (map (\<lambda>(seed, query).
              (key (target query),
               initial_state (seed_head pf seed query)
                 (initialBranchSnapshot (seed_head pf seed query) (seed_content seed)) (seed_content seed))) captured) [],
            authorities = [], initializations = [], delivery = []\<rparr>)"

definition state :: "MemoryPlane \<Rightarrow> 'a BranchHeadQuery_scheme \<Rightarrow> State branch_result" where
  "state plane query =
     (if routingVersion (placement query) \<noteq> 1 then Inl Routing_Version_Unsupported
      else case map_of (states plane) (key (target query)) of
        None \<Rightarrow>
          (case map_of (authorities plane) (key (target query)) of
             None \<Rightarrow> Inl Branch_Not_Found
           | Some authority \<Rightarrow>
               if generation (placement authority) \<noteq> generation (placement query)
               then Inl Routing_Generation_Mismatch
               else if au_state authority = Pending_Authority then Inl Branch_Initialization_Pending
               else Inl State_Corrupt)
      | Some s \<Rightarrow>
          if generation (placement (head s)) \<noteq> generation (placement query)
          then Inl Routing_Generation_Mismatch else Inr s)"

section \<open>Lifecycle\<close>

definition readPlacement :: "MemoryPlane \<Rightarrow> BranchStateTarget \<Rightarrow> BranchAuthorityRecord option branch_result" where
  "readPlacement plane input =
     and_then (BranchLifecycleQuery_placement input) (\<lambda>t.
       let authority = map_of (authorities plane) (key t) in
       if authority = None \<and> jsmap_has (states plane) (key t) then Inl State_Corrupt else Inr authority)"

definition reserve ::
  "MemoryPlane \<Rightarrow> int \<Rightarrow> BranchReserveRecord \<Rightarrow> (BranchReserveOutcome \<times> MemoryPlane) branch_result" where
  "reserve plane now input =
     and_then (BranchLifecycleQuery_reserve input) (\<lambda>command.
       if routingVersion (placement command) \<noteq> 1 then Inl Routing_Version_Unsupported
       else let id = key (target command) in
         case map_of (authorities plane) id of
           Some existing \<Rightarrow>
             if generation (placement existing) \<noteq> generation (placement command)
             then Inl Routing_Generation_Mismatch
             else if \<not> sameBranchInitializationIdentity (rv_identity (au_reservation existing)) (rs_identity command)
             then Inl Branch_Initialization_Conflict
             else Inr (\<lparr>ro_status = Existing_Reservation, ro_authority = existing\<rparr>, plane)
         | None \<Rightarrow>
             if jsmap_has (states plane) id then Inl Branch_Initialization_Conflict
             else if \<not> is_safe_integer now \<or> now < 0 then Inl Invalid_Command
             else let authority =
                    \<lparr>target = target command, placement = placement command, au_state = Pending_Authority,
                     au_reservation = \<lparr>rv_reservationId = rs_reservationId command, rv_identity = rs_identity command,
                       rv_rootRevision = rs_rootRevision command, rv_createdAt = now\<rparr>\<rparr>
                  in Inr (\<lparr>ro_status = Reserved, ro_authority = authority\<rparr>,
                          plane \<lparr>authorities := AList.update id authority (authorities plane)\<rparr>))"

definition initialize_begin ::
  "platform \<Rightarrow> MemoryPlane \<Rightarrow> BranchInitializeRecord
   \<Rightarrow> (BranchInitializeRecord \<times> PreparedBranchInitialization) branch_result" where
  "initialize_begin pf plane input =
     and_then (BranchLifecycleQuery_initialize input) (\<lambda>command.
       if routingVersion (placement command) \<noteq> 1 then Inl Routing_Version_Unsupported
       else case map_of (authorities plane) (key (target command)) of
         None \<Rightarrow> Inl Branch_Not_Found
       | Some authority \<Rightarrow>
           if generation (placement authority) \<noteq> generation (placement command)
           then Inl Routing_Generation_Mismatch
           else and_then (prepareBranchInitialization pf authority command) (\<lambda>prepared. Inr (command, prepared)))"

definition initialize_finish ::
  "MemoryPlane \<Rightarrow> BranchInitializeRecord \<Rightarrow> PreparedBranchInitialization
   \<Rightarrow> (BranchInitializeOutcome \<times> MemoryPlane) branch_result" where
  "initialize_finish plane command prepared =
     (let id = key (target command) in
      case map_of (authorities plane) id of
        None \<Rightarrow> Inl State_Corrupt
      | Some latest \<Rightarrow>
          if generation (placement latest) \<noteq> generation (placement command) then Inl Routing_Generation_Mismatch
          else if au_state latest = Active_Authority then
            (case map_of (initializations plane) id of
               None \<Rightarrow> Inl State_Corrupt
             | Some (intent, receipt) \<Rightarrow>
                 if \<not> jsmap_has (states plane) id then Inl State_Corrupt
                 else if intent \<noteq> pi_intent prepared then Inl Branch_Initialization_Conflict
                 else Inr (\<lparr>io_status = Initialize_Duplicate, io_receipt = receipt\<rparr>, plane))
          else if jsmap_has (states plane) id \<or> jsmap_has (initializations plane) id then Inl State_Corrupt
          else Inr (\<lparr>io_status = Created, io_receipt = pi_receipt prepared\<rparr>,
            plane \<lparr>states := AList.update id
                 (initial_state (pi_head prepared) (pi_snapshot prepared) (in_content command)
                    \<lparr>snapshots := [(0, \<lparr>target = target command, placement = placement command,
                       cq_version = hd_version (pi_head prepared), content = in_content command\<rparr>)]\<rparr>) (states plane),
               initializations := AList.update id (pi_intent prepared, pi_receipt prepared) (initializations plane),
               authorities := AList.update id (latest \<lparr>au_state := Active_Authority\<rparr>) (authorities plane)\<rparr>))"

definition initialize ::
  "platform \<Rightarrow> MemoryPlane \<Rightarrow> BranchInitializeRecord \<Rightarrow> (BranchInitializeOutcome \<times> MemoryPlane) branch_result" where
  "initialize pf plane input =
     and_then (initialize_begin pf plane input) (\<lambda>(command, prepared). initialize_finish plane command prepared)"

section \<open>Appending one event\<close>

definition duplicate :: "State \<Rightarrow> BranchAppendRecord \<Rightarrow> BranchAppendOutcome option branch_result" where
  "duplicate s command = (case map_of (receipts s) (eventId (event command)) of
     None \<Rightarrow> Inr None
   | Some receipt \<Rightarrow>
       if rc_payloadHash receipt \<noteq> payloadHash command then Inl Diff_Event_Id_Reused
       else Inr (Some \<lparr>ao_status = Duplicate, ao_receipt = receipt\<rparr>))"

datatype append_progress =
    Append_Done BranchAppendOutcome
  | Append_Prepared BranchAppendRecord BranchPreparedCommit

definition append_begin :: "platform \<Rightarrow> MemoryPlane \<Rightarrow> int \<Rightarrow> BranchAppendRecord \<Rightarrow> append_progress outcome" where
  "append_begin pf plane now input =
     and_then (lift_branch (BranchAppendCommand_fromRecord pf input)) (\<lambda>command.
     and_then (lift_branch (state plane command)) (\<lambda>s.
     and_then (lift_branch (duplicate s command)) (\<lambda>dup.
       case dup of Some found \<Rightarrow> Inr (Append_Done found)
       | None \<Rightarrow>
           (case map_of (snapshots s) (snapshotId (hd_version (head s))) of
              None \<Rightarrow> Inl (Failed State_Corrupt)
            | Some current \<Rightarrow>
                and_then (prepareBranchCommit pf command (head s) (content current) now) (\<lambda>prepared.
                  Inr (Append_Prepared command prepared))))))"

definition append_state :: "State \<Rightarrow> BranchAppendRecord \<Rightarrow> BranchPreparedCommit \<Rightarrow> State" where
  "append_state latest command prepared =
     latest \<lparr>head := \<lparr>target = target command, placement = placement command, hd_branch = pc_branch prepared,
        hd_version = rc_version (pc_receipt prepared)\<rparr>,
      snapshots := AList.update (sn_snapshotId (pc_snapshot prepared))
        \<lparr>target = target command, placement = placement command, cq_version = rc_version (pc_receipt prepared),
         content = pc_content prepared\<rparr> (snapshots latest),
      st_events := AList.update (event_seq (pc_event prepared)) (pc_event prepared) (st_events latest),
      snapshotMetadata := AList.update (sn_snapshotId (pc_snapshot prepared)) (pc_snapshot prepared)
        (snapshotMetadata latest),
      receipts := AList.update (eventId (pc_event prepared)) (pc_receipt prepared) (receipts latest),
      st_outbox := AList.update (co_id (pc_outbox prepared)) (Commit_Outbox (pc_outbox prepared)) (st_outbox latest)\<rparr>"

definition append_finish ::
  "MemoryPlane \<Rightarrow> BranchAppendRecord \<Rightarrow> BranchPreparedCommit \<Rightarrow> (BranchAppendOutcome \<times> MemoryPlane) branch_result" where
  "append_finish plane command prepared =
     and_then (state plane command) (\<lambda>latest.
     and_then (duplicate latest command) (\<lambda>replay.
       case replay of Some found \<Rightarrow> Inr (found, plane)
       | None \<Rightarrow>
           if \<not> sameBranchStateVersion (hd_version (head latest)) (expected command)
           then Inl Diff_Predecessor_Mismatch
           else and_then (registerOutbox plane (Commit_Outbox (pc_outbox prepared))) (\<lambda>rows.
             Inr (\<lparr>ao_status = Accepted, ao_receipt = pc_receipt prepared\<rparr>,
                  plane \<lparr>states := AList.update (key (target command)) (append_state latest command prepared) (states plane),
                         delivery := rows\<rparr>))))"

definition append ::
  "platform \<Rightarrow> MemoryPlane \<Rightarrow> int \<Rightarrow> BranchAppendRecord \<Rightarrow> (BranchAppendOutcome \<times> MemoryPlane) outcome" where
  "append pf plane now input =
     and_then (append_begin pf plane now input) (\<lambda>progress. case progress of
       Append_Done found \<Rightarrow> Inr (found, plane)
     | Append_Prepared command prepared \<Rightarrow> lift_branch (append_finish plane command prepared))"

section \<open>Appending an envelope\<close>

definition batch_begin ::
  "platform \<Rightarrow> MemoryPlane \<Rightarrow> int \<Rightarrow> BranchBatchAppendRecord \<Rightarrow> (State \<times> PreparedBranchBatch) outcome" where
  "batch_begin pf plane now command =
     and_then (lift_branch (state plane command)) (\<lambda>s.
       case map_of (snapshots s) (snapshotId (hd_version (head s))) of
         None \<Rightarrow> Inl (Failed State_Corrupt)
       | Some current \<Rightarrow>
           and_then (prepareBranchBatch pf command (hashBranchBatchEvents pf (events command)) (head s)
               (content current) (receipts s) now) (\<lambda>prepared. Inr (s, prepared)))"

definition batch_state ::
  "State \<Rightarrow> BranchBatchAppendRecord \<Rightarrow> PreparedBranchBatch \<Rightarrow> DropSnapshotRecord \<Rightarrow> BranchBatchCommitOutboxRecord \<Rightarrow> State" where
  "batch_state s command prepared snap outbox =
     s \<lparr>head := \<lparr>target = target command, placement = placement command, hd_branch = ba_branch (pb_result prepared),
        hd_version = pb_version prepared\<rparr>,
      snapshots := AList.update (snapshotId (pb_version prepared))
        \<lparr>target = target command, placement = placement command, cq_version = pb_version prepared,
         content = ba_content (pb_result prepared)\<rparr> (snapshots s),
      st_events := jsmap_set_all (map (\<lambda>e. (event_seq e, e)) (ba_acceptedEvents (pb_result prepared))) (st_events s),
      snapshotMetadata := AList.update (snapshotId (pb_version prepared)) snap (snapshotMetadata s),
      receipts := jsmap_set_all (map (\<lambda>r. (rc_eventId r, r)) (pb_receipts prepared)) (receipts s),
      st_outbox := AList.update (bo_id outbox) (Batch_Outbox outbox) (st_outbox s)\<rparr>"

datatype batch_progress = Batch_Retry | Batch_Done BranchBatchAppendResult MemoryPlane

text \<open>
  \<^verbatim>\<open>latest !== state\<close> compares object identity. States are never mutated and every publication
  strictly increases one of three counters of the state (\<open>progress\<close> in theory \<open>Plane_State\<close>), so a
  state that was replaced is never equal to its replacements and equality is identity here.
  Preparation sets the snapshot and the outbox record together or neither.
\<close>

definition batch_finish ::
  "MemoryPlane \<Rightarrow> BranchBatchAppendRecord \<Rightarrow> State \<Rightarrow> PreparedBranchBatch \<Rightarrow> batch_progress branch_result" where
  "batch_finish plane command s prepared =
     and_then (state plane command) (\<lambda>latest.
       if latest \<noteq> s then Inr Batch_Retry
       else case (ba_snapshot (pb_result prepared), pb_outbox prepared) of
         (Some snap, Some outbox) \<Rightarrow>
           and_then (registerOutbox plane (Batch_Outbox outbox)) (\<lambda>rows.
             Inr (Batch_Done (pb_result prepared)
               (plane \<lparr>states := AList.update (key (target command)) (batch_state s command prepared snap outbox)
                          (states plane), delivery := rows\<rparr>)))
       | _ \<Rightarrow> Inr (Batch_Done (pb_result prepared) plane))"

text \<open>
  The whole method when the plane takes the values \<open>planes\<close> at the successive ends of its waits: at
  most 32 attempts. The head of the list is the plane at the call.
\<close>

fun appendBatch_loop ::
  "platform \<Rightarrow> nat \<Rightarrow> BranchBatchAppendRecord \<Rightarrow> (MemoryPlane \<times> int) list
   \<Rightarrow> (BranchBatchAppendResult \<times> MemoryPlane) outcome option" where
  "appendBatch_loop pf 0 command planes = Some (Inl (Failed State_Unavailable))"
| "appendBatch_loop pf (Suc n) command ((before, now) # (later, t) # planes) =
     (case batch_begin pf before now command of
        Inl e \<Rightarrow> Some (Inl e)
      | Inr (s, prepared) \<Rightarrow>
          (case batch_finish later command s prepared of
             Inl e \<Rightarrow> Some (Inl (Failed e))
           | Inr Batch_Retry \<Rightarrow> appendBatch_loop pf n command ((later, t) # planes)
           | Inr (Batch_Done r plane) \<Rightarrow> Some (Inr (r, plane))))"
| "appendBatch_loop pf (Suc n) command _ = None"

definition appendBatch ::
  "platform \<Rightarrow> (MemoryPlane \<times> int) list \<Rightarrow> BranchBatchAppendRecord \<Rightarrow> (BranchBatchAppendResult \<times> MemoryPlane) outcome option" where
  "appendBatch pf planes input =
     (case captureBranchBatchAppend input of
        Inl e \<Rightarrow> Some (Inl (Failed e))
      | Inr command \<Rightarrow> appendBatch_loop pf 32 command planes)"

section \<open>Reads\<close>

definition readHead :: "MemoryPlane \<Rightarrow> BranchHeadQuery \<Rightarrow> BranchStateHead branch_result" where
  "readHead plane input =
     and_then (BranchStateQuery_head input) (\<lambda>query. and_then (state plane query) (\<lambda>s. Inr (head s)))"

definition plane_content :: "MemoryPlane \<Rightarrow> 'a BranchContentQuery_scheme \<Rightarrow> BranchStateContent branch_result" where
  "plane_content plane query =
     and_then (state plane query) (\<lambda>s.
       case map_of (snapshots s) (snapshotId (cq_version query)) of
         None \<Rightarrow> Inl Snapshot_Not_Found
       | Some snap \<Rightarrow>
           if \<not> sameBranchStateVersion (cq_version snap) (cq_version query) then Inl Snapshot_Version_Mismatch
           else Inr snap)"

definition readContent :: "MemoryPlane \<Rightarrow> BranchContentQuery \<Rightarrow> BranchStateContent branch_result" where
  "readContent plane input = and_then (BranchStateQuery_content input) (plane_content plane)"

definition plane_snapshot :: "MemoryPlane \<Rightarrow> BranchSnapshotQuery \<Rightarrow> BranchSnapshotState option branch_result" where
  "plane_snapshot plane query =
     and_then (state plane query) (\<lambda>s.
       let i = sq_snapshotId query; headId = snapshotId (hd_version (head s)) in
       case (map_of (snapshots s) i, map_of (snapshotMetadata s) i) of
         (None, None) \<Rightarrow> if i \<le> headId then Inl State_Corrupt else Inr None
       | (Some c, Some m) \<Rightarrow>
           if i > headId then Inl State_Corrupt
           else Inr (Some \<lparr>target = target query, placement = placement query, cq_version = cq_version c, ss_snapshot = m\<rparr>)
       | _ \<Rightarrow> Inl State_Corrupt)"

definition readSnapshot :: "MemoryPlane \<Rightarrow> BranchSnapshotQuery \<Rightarrow> BranchSnapshotState option branch_result" where
  "readSnapshot plane input = and_then (BranchLifecycleQuery_snapshot input) (plane_snapshot plane)"

definition listSnapshots :: "MemoryPlane \<Rightarrow> BranchSnapshotPageQuery \<Rightarrow> BranchSnapshotPage branch_result" where
  "listSnapshots plane input =
     and_then (BranchLifecycleQuery_page input) (\<lambda>query.
     and_then (plane_content plane query) (\<lambda>_.
       let stop = min (snapshotId (cq_version query)) (pq_afterSnapshotId query + pq_limit query) in
       and_then (map_result (\<lambda>i.
           and_then (plane_snapshot plane \<lparr>target = target query, placement = placement query, sq_snapshotId = i\<rparr>)
             (\<lambda>found. case found of None \<Rightarrow> Inl State_Corrupt | Some snap \<Rightarrow> Inr snap))
           [pq_afterSnapshotId query + 1..stop]) (\<lambda>snaps.
         Inr \<lparr>sp_snapshots = snaps,
              sp_nextAfterSnapshotId = (if stop < snapshotId (cq_version query) then Some stop else None)\<rparr>)))"

definition readEvents :: "MemoryPlane \<Rightarrow> BranchEventRangeQuery \<Rightarrow> DropDiffEvent list branch_result" where
  "readEvents plane input =
     and_then (BranchStateQuery_range input) (\<lambda>query.
     and_then (plane_content plane query) (\<lambda>_.
     and_then (state plane query) (\<lambda>s.
       map_result (\<lambda>i. case map_of (st_events s) i of None \<Rightarrow> Inl State_Corrupt | Some e \<Rightarrow> Inr e)
         [startSeq query..endSeq query])))"

section \<open>Branch memory\<close>

definition nullMemState :: "platform \<Rightarrow> MemoryPlane \<Rightarrow> 'a BranchHeadQuery_scheme \<Rightarrow> State branch_result" where
  "nullMemState pf plane query =
     and_then (state plane query) (\<lambda>s.
     and_then (plane_content plane
         \<lparr>target = target query, placement = placement query, cq_version = hd_version (head s)\<rparr>) (\<lambda>_.
     and_then (validateNullMemState pf (head s) (mem_revision (nullmem s)) (map snd (mem_records (nullmem s)))
         (mem_outbox (nullmem s)) (0, [])) (\<lambda>_.
       if list_all (\<lambda>entry. case map_of (snapshots s) (snapshotId (hd_version (nr_head (no_result entry)))) of
              None \<Rightarrow> False
            | Some stored \<Rightarrow> sameBranchStateVersion (cq_version stored) (hd_version (nr_head (no_result entry))))
            (mem_outbox (nullmem s))
       then Inr s else Inl State_Corrupt)))"

definition queryNullMem :: "platform \<Rightarrow> MemoryPlane \<Rightarrow> BranchNullMemQuery \<Rightarrow> BranchNullMemQueryResult branch_result" where
  "queryNullMem pf plane input =
     and_then (captureNullMemQuery input) (\<lambda>query.
     and_then (nullMemState pf plane query) (\<lambda>s.
     and_then (queryNullMemRecords pf (map snd (mem_records (nullmem s))) (nq_selection query)) (\<lambda>rs.
       Inr \<lparr>target = target query, placement = placement query, nr_head = head s,
            nr_memoryRevision = mem_revision (nullmem s), nr_records = rs\<rparr>)))"

definition memory_state :: "State \<Rightarrow> BranchNullMemOutbox \<Rightarrow> record_map \<Rightarrow> State" where
  "memory_state s entry records =
     s \<lparr>nullmem := \<lparr>mem_revision = nr_memoryRevision (no_result entry), mem_records = records,
        mem_outbox = mem_outbox (nullmem s) @ [entry]\<rparr>\<rparr>"

definition putNullMem ::
  "platform \<Rightarrow> MemoryPlane \<Rightarrow> int \<Rightarrow> BranchNullMemPutCommand \<Rightarrow> (BranchNullMemOutbox \<times> MemoryPlane) branch_result" where
  "putNullMem pf plane now input =
     and_then (captureNullMemPut input) (\<lambda>command.
     and_then (nullMemState pf plane command) (\<lambda>s.
     and_then (authorizeNullMem (np_actorAccountId command) (head s)) (\<lambda>_.
     and_then (prepareNullMemPut pf command (head s) (mem_revision (nullmem s)) now) (\<lambda>entry.
     and_then (registerOutbox plane (Memory_Outbox entry)) (\<lambda>rows.
       let records = (case no_mutation entry of
             Put_Record r \<Rightarrow> AList.update (nullMemRecordIdentity r) r (mem_records (nullmem s))
           | Delete_Record _ \<Rightarrow> mem_records (nullmem s))
       in Inr (entry, plane \<lparr>states := AList.update (key (target command)) (memory_state s entry records) (states plane),
                            delivery := rows\<rparr>))))))"

definition deleteNullMem ::
  "platform \<Rightarrow> MemoryPlane \<Rightarrow> int \<Rightarrow> BranchNullMemDeleteCommand \<Rightarrow> (BranchNullMemOutbox \<times> MemoryPlane) branch_result" where
  "deleteNullMem pf plane now input =
     and_then (captureNullMemDelete input) (\<lambda>command.
     and_then (nullMemState pf plane command) (\<lambda>s.
     and_then (authorizeNullMem (nd_actorAccountId command) (head s)) (\<lambda>_.
     and_then (prepareNullMemDelete pf command (head s) (mem_revision (nullmem s)) now) (\<lambda>entry.
     and_then (registerOutbox plane (Memory_Outbox entry)) (\<lambda>rows.
       let records = filter (\<lambda>(_, r). record_id r \<noteq> nd_recordId command) (mem_records (nullmem s))
       in Inr (entry, plane \<lparr>states := AList.update (key (target command)) (memory_state s entry records) (states plane),
                            delivery := rows\<rparr>))))))"

definition inspectNullMemOutbox :: "platform \<Rightarrow> MemoryPlane \<Rightarrow> BranchHeadQuery \<Rightarrow> BranchNullMemOutbox list branch_result" where
  "inspectNullMemOutbox pf plane input =
     and_then (BranchStateQuery_head input) (\<lambda>query.
     and_then (nullMemState pf plane query) (\<lambda>s. Inr (mem_outbox (nullmem s))))"

section \<open>Runtime facts\<close>

definition fact_state :: "State \<Rightarrow> jstring \<Rightarrow> jstring \<Rightarrow> BranchRuntimeFactReceipt \<Rightarrow> BranchRuntimeFactOutbox \<Rightarrow> State" where
  "fact_state s identity intent receipt outbox =
     s \<lparr>runtimeFacts := AList.update identity (intent, receipt) (runtimeFacts s),
        runtimeOutbox := AList.update (fo_id outbox) outbox (runtimeOutbox s)\<rparr>"

definition appendRuntimeFact ::
  "platform \<Rightarrow> MemoryPlane \<Rightarrow> int \<Rightarrow> BranchRuntimeFactAppendCommand
   \<Rightarrow> (BranchRuntimeFactAppendResult \<times> MemoryPlane) branch_result" where
  "appendRuntimeFact pf plane now input =
     and_then (captureRuntimeFactAppend input) (\<lambda>command.
     let intent = runtimeFactIntent pf (rf_fact command);
         payload = hashRuntimeFactIntent pf intent;
         identity = runtimeFactIdentity pf (rf_fact command);
         query = \<lparr>target = target command, placement = placement command\<rparr> in
     and_then (state plane command) (\<lambda>s.
     and_then (authorizeRuntimeFact command (head s)) (\<lambda>_.
       case map_of (runtimeFacts s) identity of
         Some (known, receipt) \<Rightarrow>
           if known \<noteq> intent then Inl Idempotency_Key_Reused
           else Inr (\<lparr>target = target command, placement = placement command, fa_appended = False, fa_receipt = receipt\<rparr>, plane)
       | None \<Rightarrow>
           if list_ex (\<lambda>(_, _, receipt). fe_factId (fr_event receipt) = nullplugUiRuntimeFactId (rf_fact command) \<or>
                fr_key receipt = runtimeFactKey (rf_fact command)) (runtimeFacts s)
           then Inl Idempotency_Key_Reused
           else
             and_then (plane_content plane
                 \<lparr>target = target command, placement = placement command, cq_version = hd_version (head s)\<rparr>) (\<lambda>_.
             and_then (prepareRuntimeFactReceipt pf command (head s) (int (length (runtimeFacts s)) - 1) payload now)
               (\<lambda>receipt.
             let outbox = runtimeFactOutbox pf query receipt in
             and_then (registerOutbox plane (Fact_Outbox outbox)) (\<lambda>rows.
               Inr (\<lparr>target = target command, placement = placement command, fa_appended = True, fa_receipt = receipt\<rparr>,
                    plane \<lparr>states := AList.update (key (target command)) (fact_state s identity intent receipt outbox)
                              (states plane), delivery := rows\<rparr>)))))))"

definition readRuntimeFactHead :: "MemoryPlane \<Rightarrow> BranchHeadQuery \<Rightarrow> BranchRuntimeFactHead branch_result" where
  "readRuntimeFactHead plane input =
     and_then (BranchStateQuery_head input) (\<lambda>query.
     and_then (state plane query) (\<lambda>s.
       Inr \<lparr>target = target query, placement = placement query, fh_headSeq = int (length (runtimeFacts s)) - 1\<rparr>))"

definition readRuntimeFacts :: "MemoryPlane \<Rightarrow> BranchRuntimeFactPageQuery \<Rightarrow> BranchRuntimeFactPage branch_result" where
  "readRuntimeFacts plane input =
     and_then (captureRuntimeFactPage input) (\<lambda>query.
     and_then (state plane query) (\<lambda>s.
       if fh_headSeq query > int (length (runtimeFacts s)) - 1 then Inl Invalid_Command
       else let facts = take (nat (fq_limit query))
                  (filter (\<lambda>e. fe_seq e > fq_afterSeq query \<and> fe_seq e \<le> fh_headSeq query)
                    (map (\<lambda>(_, _, receipt). fr_event receipt) (runtimeFacts s)))
            in Inr \<lparr>target = target query, placement = placement query, fh_headSeq = fh_headSeq query, fp_facts = facts,
                    fp_nextCursor = (if facts = [] then None else Some (fe_seq (last facts)))\<rparr>))"

definition inspectRuntimeFactOutbox :: "MemoryPlane \<Rightarrow> BranchHeadQuery \<Rightarrow> BranchRuntimeFactOutbox list branch_result" where
  "inspectRuntimeFactOutbox plane input =
     and_then (BranchStateQuery_head input) (\<lambda>query.
     and_then (state plane query) (\<lambda>s. Inr (map snd (runtimeOutbox s))))"

definition inspectOutbox :: "MemoryPlane \<Rightarrow> BranchHeadQuery \<Rightarrow> BranchCommitOutboxRecord list branch_result" where
  "inspectOutbox plane input =
     and_then (BranchStateQuery_head input) (\<lambda>query.
     and_then (state plane query) (\<lambda>s.
       Inr (List.map_filter (\<lambda>(_, intent). case intent of Commit_Outbox c \<Rightarrow> Some c | _ \<Rightarrow> None) (st_outbox s))))"

definition inspectBatchOutbox :: "MemoryPlane \<Rightarrow> BranchHeadQuery \<Rightarrow> BranchBatchCommitOutboxRecord list branch_result" where
  "inspectBatchOutbox plane input =
     and_then (BranchStateQuery_head input) (\<lambda>query.
     and_then (state plane query) (\<lambda>s.
       Inr (List.map_filter (\<lambda>(_, intent). case intent of Batch_Outbox b \<Rightarrow> Some b | _ \<Rightarrow> None) (st_outbox s))))"

end
