(* ===== verification/Plane_Delivery.thy ===== *)
theory Plane_Delivery
  imports Memory_Plane
begin

text \<open>
  The delivery half of \<^verbatim>\<open>memory-commits.ts\<close>: claiming due outbox work under a lease, reading it through
  the lease, completing it, releasing it with a retry time, and pruning completed bookkeeping.

  Each loop of the source only reads the plane, so its effect on a row is a function of the row and
  the command (\<open>ack_disposition\<close>, \<open>retry_live\<close>); the rows are written at the end of the call.
\<close>

section \<open>Operations\<close>

definition canonicalOutboxById :: "MemoryPlane \<Rightarrow> BranchStateTarget \<Rightarrow> jstring \<Rightarrow> BranchCanonicalOutbox option" where
  "canonicalOutboxById plane t i =
     (case map_of (states plane) (key t) of
        None \<Rightarrow> None
      | Some s \<Rightarrow>
          (case map_of (st_outbox s) i of
             Some x \<Rightarrow> Some x
           | None \<Rightarrow>
               (case map_of (runtimeOutbox s) i of
                  Some x \<Rightarrow> Some (Fact_Outbox x)
                | None \<Rightarrow> map_option Memory_Outbox (find (\<lambda>entry. no_id entry = i) (mem_outbox (nullmem s))))))"

record claim_selection =
  cs_id :: jstring
  cs_item :: BranchOutboxDeliveryItem
  cs_attempt :: int

text \<open>What the loop does with one due row: fence it, or select it under a new token.\<close>

datatype claim_choice = Skip_Row | Fence_Row | Select_Row claim_selection

definition claim_row ::
  "platform \<Rightarrow> MemoryPlane \<Rightarrow> BranchOutboxClaimCommand \<Rightarrow> jstring \<times> OutboxDeliveryState \<Rightarrow> claim_choice branch_result" where
  "claim_row pf plane command = (\<lambda>(i, row).
     if ds_status row = Completed \<or> ds_status row = Fenced then Inr Skip_Row
     else if ds_status row = Claimed \<and> ds_leaseUntil row \<noteq> Some (ds_nextAttemptAt row) then Inl State_Corrupt
     else if ds_nextAttemptAt row > oc_now command then Inr Skip_Row
     else case canonicalOutboxById plane (ds_target row) i of
       None \<Rightarrow> Inl State_Corrupt
     | Some outbox \<Rightarrow>
         if outbox_kind outbox \<noteq> ds_kind row then Inl State_Corrupt
         else and_then (canonicalOutboxPlacement outbox) (\<lambda>witness.
           if rootDropId (target witness) \<noteq> rootDropId (ds_target row) \<or>
              branchId (target witness) \<noteq> branchId (ds_target row) \<or>
              generation (placement witness) \<noteq> ds_generation row
           then Inl State_Corrupt
           else case map_of (states plane) (key (ds_target row)) of
             None \<Rightarrow> Inr Fence_Row
           | Some live \<Rightarrow>
               if generation (placement (head live)) \<noteq> ds_generation row then Inr Fence_Row
               else and_then (outboxLeaseToken pf (oc_leaseId command) i (ds_attempt row + 1)) (\<lambda>token.
                 Inr (Select_Row \<lparr>cs_id = i,
                   cs_item = \<lparr>target = ds_target row, placement = \<lparr>routingVersion = 1, generation = ds_generation row\<rparr>,
                     di_outboxId = i, di_leaseToken = token\<rparr>,
                   cs_attempt = ds_attempt row + 1\<rparr>))))"

fun claim_loop ::
  "platform \<Rightarrow> MemoryPlane \<Rightarrow> BranchOutboxClaimCommand \<Rightarrow> delivery_map \<Rightarrow> claim_selection list \<Rightarrow> jstring list
   \<Rightarrow> (claim_selection list \<times> jstring list) branch_result" where
  "claim_loop pf plane command [] selected fenced = Inr (selected, fenced)"
| "claim_loop pf plane command (row # rows) selected fenced =
     (if int (length selected) \<ge> oc_limit command then Inr (selected, fenced)
      else and_then (claim_row pf plane command row) (\<lambda>choice. case choice of
        Skip_Row \<Rightarrow> claim_loop pf plane command rows selected fenced
      | Fence_Row \<Rightarrow> claim_loop pf plane command rows selected (fenced @ [fst row])
      | Select_Row c \<Rightarrow> claim_loop pf plane command rows (selected @ [c]) fenced))"

text \<open>Rewriting the rows of the given ids; an id without a row cannot occur.\<close>

definition update_row :: "(OutboxDeliveryState \<Rightarrow> OutboxDeliveryState) \<Rightarrow> jstring \<Rightarrow> delivery_map \<Rightarrow> delivery_map" where
  "update_row f i rows = (case map_of rows i of None \<Rightarrow> rows | Some row \<Rightarrow> AList.update i (f row) rows)"

definition claimed_row :: "jstring \<Rightarrow> int \<Rightarrow> claim_selection \<Rightarrow> OutboxDeliveryState \<Rightarrow> OutboxDeliveryState" where
  "claimed_row lease leaseUntil c row =
     row \<lparr>ds_status := Claimed, ds_attempt := cs_attempt c, ds_nextAttemptAt := leaseUntil,
          ds_leaseId := Some lease, ds_leaseToken := Some (di_leaseToken (cs_item c)), ds_leaseUntil := Some leaseUntil\<rparr>"

definition fenced_row :: "OutboxDeliveryState \<Rightarrow> OutboxDeliveryState" where
  "fenced_row row = row \<lparr>ds_status := Fenced, ds_leaseId := None, ds_leaseToken := None, ds_leaseUntil := None\<rparr>"

definition claimOutbox ::
  "platform \<Rightarrow> MemoryPlane \<Rightarrow> BranchOutboxClaimCommand \<Rightarrow> (BranchOutboxDeliveryClaim \<times> MemoryPlane) branch_result" where
  "claimOutbox pf plane command =
     and_then (validateOutboxClaim command) (\<lambda>_.
     let leaseUntil = oc_now command + oc_leaseMs command;
         sorted = stable_sort (\<lambda>a b. locale_compare pf (fst a) (fst b) < 0) (delivery plane) in
     and_then (claim_loop pf plane command sorted [] []) (\<lambda>(selected, fenced).
       let claimed = foldl (\<lambda>rows c. update_row (claimed_row (oc_leaseId command) leaseUntil c) (cs_id c) rows)
             (delivery plane) selected;
           rows = foldl (\<lambda>rows i. update_row fenced_row i rows) claimed fenced
       in Inr (\<lparr>dc_leaseId = oc_leaseId command, dc_leaseUntil = leaseUntil, dc_items = map cs_item selected\<rparr>,
               plane \<lparr>delivery := rows\<rparr>)))"

text \<open>The lease an item names is the one the row holds, and it has not expired.\<close>

definition lease_live :: "BranchOutboxClaimResultCommand \<Rightarrow> BranchOutboxDeliveryItem \<Rightarrow> OutboxDeliveryState \<Rightarrow> bool" where
  "lease_live command item row \<longleftrightarrow>
     ds_status row = Claimed \<and> ds_leaseId row = Some (or_leaseId command) \<and>
     ds_leaseToken row = Some (di_leaseToken item) \<and>
     \<not> (case ds_leaseUntil row of None \<Rightarrow> 0 | Some t \<Rightarrow> t) \<le> or_now command \<and>
     ds_leaseUntil row = Some (ds_nextAttemptAt row)"

definition placed_here :: "MemoryPlane \<Rightarrow> BranchOutboxDeliveryItem \<Rightarrow> bool" where
  "placed_here plane item \<longleftrightarrow> (case map_of (states plane) (key (target item)) of
     None \<Rightarrow> False | Some s \<Rightarrow> generation (placement (head s)) = generation (placement item))"

definition read_claimed ::
  "MemoryPlane \<Rightarrow> BranchOutboxClaimResultCommand \<Rightarrow> BranchOutboxDeliveryItem \<Rightarrow> BranchClaimedOutbox list branch_result" where
  "read_claimed plane command item =
     (case map_of (delivery plane) (di_outboxId item) of
        None \<Rightarrow> Inr []
      | Some row \<Rightarrow>
          if key (ds_target row) \<noteq> key (target item) \<or> \<not> lease_live command item row \<or> \<not> placed_here plane item
          then Inr []
          else case canonicalOutboxById plane (target item) (di_outboxId item) of
            None \<Rightarrow> Inr []
          | Some outbox \<Rightarrow> and_then (canonicalOutboxPlacement outbox) (\<lambda>witness.
              if rootDropId (target witness) \<noteq> rootDropId (target item) \<or>
                 branchId (target witness) \<noteq> branchId (target item) \<or>
                 generation (placement witness) \<noteq> generation (placement item)
              then Inl State_Corrupt
              else Inr [\<lparr>target = target item, placement = placement item, cl_outbox = outbox,
                        cl_attempt = ds_attempt row, cl_leaseUntil = the (ds_leaseUntil row)\<rparr>]))"

definition readClaimedOutbox ::
  "MemoryPlane \<Rightarrow> BranchOutboxClaimResultCommand \<Rightarrow> BranchClaimedOutbox list branch_result" where
  "readClaimedOutbox plane command =
     and_then (validateOutboxClaimResult command) (\<lambda>_.
     and_then (map_result (read_claimed plane command) (or_items command)) (\<lambda>found. Inr (concat found)))"

datatype disposition = Acknowledged | Already_Done | Stale

definition ack_disposition :: "MemoryPlane \<Rightarrow> BranchOutboxClaimResultCommand \<Rightarrow> BranchOutboxDeliveryItem \<Rightarrow> disposition" where
  "ack_disposition plane command item =
     (case map_of (delivery plane) (di_outboxId item) of
        None \<Rightarrow> Stale
      | Some row \<Rightarrow>
          if key (ds_target row) \<noteq> key (target item) \<or> ds_generation row \<noteq> generation (placement item) \<or>
             \<not> placed_here plane item then Stale
          else if ds_status row = Completed then Already_Done
          else if \<not> lease_live command item row then Stale else Acknowledged)"

definition completed_row :: "int \<Rightarrow> OutboxDeliveryState \<Rightarrow> OutboxDeliveryState" where
  "completed_row now row = row \<lparr>ds_status := Completed, ds_completedAt := Some now, ds_leaseId := None,
     ds_leaseToken := None, ds_leaseUntil := None\<rparr>"

record ack_counts =
  acknowledged :: nat
  duplicates :: nat
  stale :: nat

definition acknowledgeOutbox ::
  "MemoryPlane \<Rightarrow> BranchOutboxClaimResultCommand \<Rightarrow> (ack_counts \<times> MemoryPlane) branch_result" where
  "acknowledgeOutbox plane command =
     and_then (validateOutboxClaimResult command) (\<lambda>_.
     let ds = map (ack_disposition plane command) (or_items command);
         completed = map di_outboxId (filter (\<lambda>item. ack_disposition plane command item = Acknowledged) (or_items command))
     in Inr (\<lparr>acknowledged = count_list ds Acknowledged, duplicates = count_list ds Already_Done,
              stale = count_list ds Stale\<rparr>,
             plane \<lparr>delivery := foldl (\<lambda>rows i. update_row (completed_row (or_now command)) i rows) (delivery plane) completed\<rparr>))"

definition is_error_code :: "jstring \<Rightarrow> bool" where
  "is_error_code s \<longleftrightarrow> 1 \<le> length s \<and> length s \<le> 80 \<and>
     list_all (\<lambda>u. u \<in> set (js ''abcdefghijklmnopqrstuvwxyz0123456789_.-'')) s"

definition retry_live :: "MemoryPlane \<Rightarrow> BranchOutboxClaimResultCommand \<Rightarrow> BranchOutboxDeliveryItem \<Rightarrow> OutboxDeliveryState option" where
  "retry_live plane command item =
     (case map_of (delivery plane) (di_outboxId item) of
        None \<Rightarrow> None
      | Some row \<Rightarrow>
          if key (ds_target row) \<noteq> key (target item) \<or> ds_generation row \<noteq> generation (placement item) \<or>
             \<not> lease_live command item row \<or> \<not> placed_here plane item
          then None else Some row)"

definition retried_row :: "jstring \<Rightarrow> int \<Rightarrow> OutboxDeliveryState \<Rightarrow> OutboxDeliveryState" where
  "retried_row errorCode at_time row =
     row \<lparr>ds_status := Pending, ds_nextAttemptAt := at_time, ds_lastErrorCode := Some errorCode,
          ds_leaseId := None, ds_leaseToken := None, ds_leaseUntil := None\<rparr>"

definition retryOutbox ::
  "MemoryPlane \<Rightarrow> BranchOutboxClaimResultCommand \<Rightarrow> jstring \<Rightarrow> ((nat \<times> nat) \<times> MemoryPlane) branch_result" where
  "retryOutbox plane command errorCode =
     and_then (validateOutboxClaimResult command) (\<lambda>_.
     if \<not> is_error_code errorCode then Inl Invalid_Command
     else
       let live = List.map_filter (\<lambda>item. map_option (\<lambda>row. (di_outboxId item, row)) (retry_live plane command item))
             (or_items command) in
       and_then (map_result (\<lambda>(i, row). and_then (outboxRetryAt (or_now command) (ds_attempt row)) (\<lambda>t. Inr (i, t))) live)
         (\<lambda>retryAt.
           Inr ((length live, length (or_items command) - length live),
                plane \<lparr>delivery := foldl (\<lambda>rows (i, t). update_row (retried_row errorCode t) i rows)
                         (delivery plane) retryAt\<rparr>)))"

definition pruned_row :: "OutboxDeliveryState \<Rightarrow> OutboxDeliveryState" where
  "pruned_row row = row \<lparr>ds_completedAt := None, ds_attempt := 0, ds_nextAttemptAt := 0, ds_lastErrorCode := None\<rparr>"

fun prune_loop :: "int \<Rightarrow> nat \<Rightarrow> delivery_map \<Rightarrow> delivery_map \<times> nat" where
  "prune_loop before 0 rows = (rows, 0)"
| "prune_loop before (Suc n) [] = ([], 0)"
| "prune_loop before (Suc n) ((i, row) # rows) =
     (if ds_status row = Completed \<and> (case ds_completedAt row of None \<Rightarrow> False | Some t \<Rightarrow> t \<le> before)
      then let (rest, k) = prune_loop before n rows in ((i, pruned_row row) # rest, Suc k)
      else let (rest, k) = prune_loop before (Suc n) rows in ((i, row) # rest, k))"

definition pruneCompletedOutbox :: "MemoryPlane \<Rightarrow> int \<Rightarrow> int \<Rightarrow> (nat \<times> MemoryPlane) branch_result" where
  "pruneCompletedOutbox plane before limit =
     (if \<not> is_safe_integer before \<or> before < 0 \<or> \<not> is_safe_integer limit \<or> limit < 1 \<or> limit > 256
      then Inl Invalid_Command
      else let (rows, pruned) = prune_loop before (nat limit) (delivery plane)
           in Inr (pruned, plane \<lparr>delivery := rows\<rparr>))"

end
