(* ===== verification/Diff_Receipts.thy ===== *)
theory Diff_Receipts
  imports Branch_Commit
begin

text \<open>
  The append response and its check by clients: \<^verbatim>\<open>shared/drop/diff.ts\<close> (\<open>isDropDiffAppendResponse\<close>,
  \<open>hasConfirmedDropDiffAppendReceipt\<close>, diff references) and the response the diff route builds from
  a batch result (\<^verbatim>\<open>functions/api/_lib/diffs/transport/service.ts\<close>).

  \<open>server_response_confirmed\<close> closes the loop: what a batch preparation answers is what the
  client's outbox accepts as durable.
\<close>

section \<open>The response and its validation\<close>

record DropDiffAppendResponse =
  dr_accepted :: int
  dr_deduplicated :: int
  dr_branchId :: jstring
  dr_snapshotId :: int
  dr_totalStored :: int
  dr_acknowledgements :: "DropDiffEventAcknowledgement list"

definition isNonNegativeSafeInteger :: "int \<Rightarrow> bool" where
  "isNonNegativeSafeInteger n \<longleftrightarrow> is_safe_integer n \<and> 0 \<le> n"

definition isAcknowledgement :: "DropDiffEventAcknowledgement \<Rightarrow> bool" where
  "isAcknowledgement a \<longleftrightarrow> isNonNegativeSafeInteger (ack_seq a) \<and> isNonNegativeSafeInteger (ack_snapshotId a)"

definition isDropDiffAppendResponse :: "DropDiffAppendResponse \<Rightarrow> bool" where
  "isDropDiffAppendResponse v \<longleftrightarrow>
     isNonNegativeSafeInteger (dr_accepted v) \<and> isNonNegativeSafeInteger (dr_deduplicated v) \<and>
     isNonNegativeSafeInteger (dr_snapshotId v) \<and> isNonNegativeSafeInteger (dr_totalStored v) \<and>
     list_all isAcknowledgement (dr_acknowledgements v)"

text \<open>The loop over acknowledgements: the ids seen and the two counters, or \<open>None\<close> for its early return.\<close>

fun confirm_loop ::
  "jstring set \<Rightarrow> DropDiffEventAcknowledgement list \<Rightarrow> jstring set \<Rightarrow> int \<Rightarrow> int \<Rightarrow> (jstring set \<times> int \<times> int) option" where
  "confirm_loop expectedIds [] seen acc dup = Some (seen, acc, dup)"
| "confirm_loop expectedIds (a # as) seen acc dup =
     (if ack_eventId a \<notin> expectedIds \<or> ack_eventId a \<in> seen then None
      else confirm_loop expectedIds as (insert (ack_eventId a) seen)
        (if ack_status a = Accepted then acc + 1 else acc)
        (if ack_status a = Accepted then dup else dup + 1))"

definition hasConfirmedDropDiffAppendReceipt ::
  "DropDiffAppendResponse \<Rightarrow> jstring option \<Rightarrow> jstring list \<Rightarrow> bool" where
  "hasConfirmedDropDiffAppendReceipt v expectedBranch eventIds =
     (if \<not> isDropDiffAppendResponse v then False
      else if \<not> opt_all (\<lambda>b. dr_branchId v = b) expectedBranch then False
      else if dr_accepted v + dr_deduplicated v \<noteq> int (length eventIds) then False
      else case confirm_loop (set eventIds) (dr_acknowledgements v) {} 0 0 of
        None \<Rightarrow> False
      | Some (seen, acc, dup) \<Rightarrow>
          set eventIds \<subseteq> seen \<and> acc \<le> dr_accepted v \<and> dup \<le> dr_deduplicated v)"

text \<open>The body the diff route answers with.\<close>

definition diff_append_response :: "jstring \<Rightarrow> BranchBatchAppendResult \<Rightarrow> DropDiffAppendResponse" where
  "diff_append_response branch appended =
     \<lparr>dr_accepted = int (length (ba_acceptedEvents appended)),
      dr_deduplicated = ba_deduplicatedCount appended, dr_branchId = branch,
      dr_snapshotId = (case ba_snapshot appended of Some s \<Rightarrow> sn_snapshotId s
                       | None \<Rightarrow> br_headSnapshotId (ba_branch appended)),
      dr_totalStored = ba_totalStored appended,
      dr_acknowledgements = ba_acknowledgements appended\<rparr>"

section \<open>Diff references\<close>

record DropDiffRef =
  ref_rootDropId :: jstring
  ref_branchId :: jstring
  ref_seq :: int
  ref_eventId :: jstring
  ref_ref :: jstring
  ref_snapshotId :: "int option"

definition createDropDiffRenderableRef :: "jstring \<Rightarrow> jstring" where
  "createDropDiffRenderableRef i = js ''<diff:'' @ i @ js ''>''"

definition createDropDiffRef :: "jstring \<Rightarrow> jstring \<Rightarrow> int \<Rightarrow> jstring \<Rightarrow> int option \<Rightarrow> DropDiffRef" where
  "createDropDiffRef rid branch sq i snap =
     \<lparr>ref_rootDropId = rid, ref_branchId = branch, ref_seq = sq, ref_eventId = i,
      ref_ref = createDropDiffRenderableRef i, ref_snapshotId = snap\<rparr>"

definition isDropDiffRenderableRef :: "jstring \<Rightarrow> bool" where
  "isDropDiffRenderableRef s \<longleftrightarrow>
     take 6 s = js ''<diff:'' \<and> 7 < length s \<and> last s = 62 \<and> 62 \<notin> set (butlast (drop 6 s))"

definition isDropDiffRef :: "DropDiffRef \<Rightarrow> bool" where
  "isDropDiffRef r \<longleftrightarrow> 0 \<le> ref_seq r \<and> isDropDiffRenderableRef (ref_ref r) \<and>
     ref_ref r = createDropDiffRenderableRef (ref_eventId r)"

lemma isDropDiffRef_create:
  "isDropDiffRef (createDropDiffRef rid branch sq i snap) \<longleftrightarrow> 0 \<le> sq \<and> i \<noteq> [] \<and> 62 \<notin> set i"
proof -
  have "take 6 (createDropDiffRenderableRef i) = js ''<diff:''" "drop 6 (createDropDiffRenderableRef i) = i @ [62]"
    "last (createDropDiffRenderableRef i) = 62" "length (createDropDiffRenderableRef i) = 7 + length i"
    by (simp_all add: createDropDiffRenderableRef_def js_def)
  then show ?thesis
    by (auto simp: isDropDiffRef_def createDropDiffRef_def isDropDiffRenderableRef_def)
qed

section \<open>Lemmas\<close>

lemma confirm_loop_spec:
  "confirm_loop ids as seen acc dup =
     (if set (map ack_eventId as) \<subseteq> ids \<and> distinct (map ack_eventId as) \<and> set (map ack_eventId as) \<inter> seen = {}
      then Some (seen \<union> set (map ack_eventId as),
             acc + int (length (filter (\<lambda>a. ack_status a = Accepted) as)),
             dup + int (length (filter (\<lambda>a. ack_status a = Duplicate) as)))
      else None)"
proof (induction "as" arbitrary: seen acc dup)
  case (Cons a "as")
  have "ack_status a = Accepted \<or> ack_status a = Duplicate" by (cases "ack_status a") auto
  then show ?case by (auto simp: Cons.IH)
qed simp

text \<open>What a client may conclude from a confirmed response.\<close>

lemma confirmed_iff:
  "hasConfirmedDropDiffAppendReceipt v expectedBranch ids \<longleftrightarrow>
     isDropDiffAppendResponse v \<and> opt_all (\<lambda>b. dr_branchId v = b) expectedBranch \<and>
     dr_accepted v + dr_deduplicated v = int (length ids) \<and>
     set (map ack_eventId (dr_acknowledgements v)) = set ids \<and>
     distinct (map ack_eventId (dr_acknowledgements v)) \<and>
     int (length (filter (\<lambda>a. ack_status a = Accepted) (dr_acknowledgements v))) \<le> dr_accepted v \<and>
     int (length (filter (\<lambda>a. ack_status a = Duplicate) (dr_acknowledgements v))) \<le> dr_deduplicated v"
  unfolding hasConfirmedDropDiffAppendReceipt_def confirm_loop_spec by auto

definition receipts_sound :: "receipt_map \<Rightarrow> bool" where
  "receipts_sound m \<longleftrightarrow> (\<forall>(k, r) \<in> set m. isNonNegativeSafeInteger (snapshotId (rc_version r)) \<and>
     isNonNegativeSafeInteger (case rc_eventSeq r of Some n \<Rightarrow> n | None \<Rightarrow> eventSeq (rc_version r)))"

lemma fresh_length:
  "length (fresh_identities ex u) = length (filter (\<lambda>k. map_of ex k = None) (map fst u))"
  by (induction u) (auto simp: fresh_identities_def)

lemma unique_length_le:
  assumes "batch_classify ex is [] [] = Inr (u, a)"
  shows "length u \<le> length is"
proof -
  note c = batch_classify_accepted [OF assms]
  have "length u = card (fst ` set u)" using c(2) distinct_card [of "map fst u"] by (simp add: jsmap_wf_def)
  also have "\<dots> \<le> card (set is)" unfolding c(3) by (rule card_image_le) simp
  also have "\<dots> \<le> length is" by (rule card_length)
  finally show ?thesis .
qed

lemma batch_events_keys:
  assumes "batch_classify ex is [] [] = Inr (u, a)" "map bi_event is = es"
  shows "set (map fst u) = set (map eventId es)"
proof -
  have "identity_id ` set is = eventId ` (bi_event ` set is)" by (simp add: image_image identity_id_def)
  also have "bi_event ` set is = set es" using assms(2) by auto
  finally show ?thesis using batch_classify_accepted(3) [OF assms(1)] by simp
qed

lemma fresh_receipt:
  assumes cl: "batch_classify ex is [] [] = Inr (u, a)"
    and pub: "batch_publication pf c a h t now = Inr pb"
    and k: "k \<in> set (map fst u)" "map_of ex k = None"
  shows "\<exists>r. map_of (map (\<lambda>r. (rc_eventId r, r)) (pb_receipts pb)) k = Some r \<and>
     r \<in> set (pb_receipts pb) \<and> rc_eventId r = k"
proof -
  note p = batch_publication_Inr [OF pub]
  from k obtain i where i: "(k, i) \<in> set u" by auto
  with batch_classify_accepted(4) [OF cl] have "k = identity_id i" by auto
  moreover have "i \<in> set a" using i k(2) unfolding batch_classify_accepted(1) [OF cl]
    by (force simp: fresh_identities_def)
  ultimately obtain j where j: "j < length a" "identity_id (a ! j) = k" by (auto simp: in_set_conv_nth)
  let ?es = "ba_acceptedEvents (pb_result pb)"
  have "eventId (?es ! j) = k" using j by (simp add: p(3) number_events_nth identity_id_def)
  then have "rc_eventId (pb_receipts pb ! j) = k" and "j < length (pb_receipts pb)"
    using j by (simp_all add: p(6) p(3) batch_receipt_def)
  then have "k \<in> fst ` set (map (\<lambda>r. (rc_eventId r, r)) (pb_receipts pb))"
    by (force simp: in_set_conv_nth)
  then obtain r where r: "map_of (map (\<lambda>r. (rc_eventId r, r)) (pb_receipts pb)) k = Some r"
    by (cases "map_of (map (\<lambda>r. (rc_eventId r, r)) (pb_receipts pb)) k") (auto simp: map_of_eq_None_iff)
  from map_of_SomeD [OF r] r show ?thesis by auto
qed

lemma publication_receipt_bounds:
  assumes pub: "batch_publication pf c a h t now = Inr pb" and r: "r \<in> set (pb_receipts pb)"
    and h: "\<not> batch_sequence_exhausted h"
  shows "isNonNegativeSafeInteger (snapshotId (rc_version r)) \<and>
    (\<exists>n. rc_eventSeq r = Some n \<and> isNonNegativeSafeInteger n)"
proof -
  note p = batch_publication_Inr [OF pub]
  let ?es = "ba_acceptedEvents (pb_result pb)"
  from r obtain j where j: "j < length a" "r = batch_receipt c (pb_version pb) (?es ! j, a ! j)"
    by (auto simp: p(6) p(3) in_set_conv_nth)
  have n: "rc_eventSeq r = Some (eventSeq (hd_version h) + 1 + int j)"
    using j by (simp add: batch_receipt_def p(3) number_events_nth)
  have "snapshotId (rc_version r) = snapshotId (hd_version h) + 1"
    using j by (simp add: batch_receipt_def p(5) next_version_def)
  with n p(1,2) h j(1) show ?thesis
    by (auto simp: isNonNegativeSafeInteger_def is_safe_integer_def batch_sequence_exhausted_def Let_def)
qed

lemma batch_ack_sound:
  assumes cl: "batch_classify ex is [] [] = Inr (u, a)" and ex: "receipts_sound ex"
    and h: "\<not> batch_sequence_exhausted h"
    and pb: "(if a = [] then Inr (batch_nothing_new c h t) else batch_publication pf c a h t now) = Inr pb"
    and k: "k \<in> set (map fst u)"
  shows "isAcknowledgement (batch_acknowledgement ex (map (\<lambda>r. (rc_eventId r, r)) (pb_receipts pb)) k)"
proof (cases "map_of ex k")
  case (Some r)
  from map_of_SomeD [OF this] ex have "isNonNegativeSafeInteger (snapshotId (rc_version r))"
    "isNonNegativeSafeInteger (case rc_eventSeq r of Some n \<Rightarrow> n | None \<Rightarrow> eventSeq (rc_version r))"
    by (auto simp: receipts_sound_def)
  with Some show ?thesis by (simp add: isAcknowledgement_def batch_acknowledgement_def)
next
  case None
  from k obtain i where i: "(k, i) \<in> set u" by auto
  have "i \<in> set a" using i None unfolding batch_classify_accepted(1) [OF cl]
    by (force simp: fresh_identities_def)
  then have "a \<noteq> []" by auto
  with pb have pub: "batch_publication pf c a h t now = Inr pb" by simp
  from fresh_receipt [OF cl pub k None] obtain r where
    "map_of (map (\<lambda>r. (rc_eventId r, r)) (pb_receipts pb)) k = Some r" "r \<in> set (pb_receipts pb)" by blast
  with publication_receipt_bounds [OF pub _ h] None show ?thesis
    by (fastforce simp: isAcknowledgement_def batch_acknowledgement_def Let_def)
qed

lemma ack_id [simp]: "ack_eventId (batch_acknowledgement ex m k) = k"
  by (simp add: batch_acknowledgement_def Let_def)

lemma ack_status_iff [simp]:
  "ack_status (batch_acknowledgement ex m k) = Accepted \<longleftrightarrow> map_of ex k = None"
  "ack_status (batch_acknowledgement ex m k) = Duplicate \<longleftrightarrow> map_of ex k \<noteq> None"
  by (auto simp: batch_acknowledgement_def Let_def)

lemma batch_response_counts:
  assumes cl: "batch_classify ex is [] [] = Inr (u, a)" and es: "map bi_event is = events c"
    and pb: "(if a = [] then Inr (batch_nothing_new c h t) else batch_publication pf c a h t now) = Inr pb"
  shows "length (ba_acceptedEvents (pb_result pb)) = length a"
    "ba_deduplicatedCount (pb_result pb) = int (length (events c)) - int (length a)"
    "length a \<le> length u" "length u \<le> length (events c)"
proof -
  have "length (ba_acceptedEvents (pb_result pb)) = length a \<and>
    ba_deduplicatedCount (pb_result pb) = int (length (events c)) - int (length a)"
  proof (cases "a = []")
    case True
    with pb show ?thesis by (auto simp: batch_nothing_new_def)
  next
    case False
    with pb have "batch_publication pf c a h t now = Inr pb" by simp
    note p = batch_publication_Inr [OF this]
    show ?thesis by (simp only: p(3) p(11) length_number_events length_map simp_thms)
  qed
  then show "length (ba_acceptedEvents (pb_result pb)) = length a"
    "ba_deduplicatedCount (pb_result pb) = int (length (events c)) - int (length a)" by simp_all
  show "length a \<le> length u" unfolding batch_classify_accepted(1) [OF cl] by (simp add: fresh_identities_def)
  have "length is = length (events c)" using es by (metis length_map)
  with unique_length_le [OF cl] show "length u \<le> length (events c)" by simp
qed

lemma batch_response_snapshot:
  assumes pb: "(if a = [] then Inr (batch_nothing_new c h t) else batch_publication pf c a h t now) = Inr pb"
    and hc: "\<not> head_corrupt (target c) h" and hs: "\<not> batch_sequence_exhausted h"
  shows "isNonNegativeSafeInteger (case ba_snapshot (pb_result pb) of Some s \<Rightarrow> sn_snapshotId s
      | None \<Rightarrow> br_headSnapshotId (ba_branch (pb_result pb)))"
    and "isNonNegativeSafeInteger (ba_totalStored (pb_result pb))"
proof -
  have b: "is_safe_integer (eventSeq (hd_version h) + 1)" "0 \<le> eventSeq (hd_version h) + 1"
    "isNonNegativeSafeInteger (snapshotId (hd_version h))" "br_headSnapshotId (hd_branch h) = snapshotId (hd_version h)"
    using hc hs by (auto simp: head_corrupt_def batch_sequence_exhausted_def Let_def is_safe_integer_def
        isNonNegativeSafeInteger_def)
  show "isNonNegativeSafeInteger (case ba_snapshot (pb_result pb) of Some s \<Rightarrow> sn_snapshotId s
      | None \<Rightarrow> br_headSnapshotId (ba_branch (pb_result pb)))"
  proof (cases "a = []")
    case True
    with pb b show ?thesis by (auto simp: batch_nothing_new_def)
  next
    case False
    with pb have pub: "batch_publication pf c a h t now = Inr pb" by simp
    show ?thesis using batch_publication_Inr(1,8) [OF pub] b by (simp add: isNonNegativeSafeInteger_def)
  qed
  show "isNonNegativeSafeInteger (ba_totalStored (pb_result pb))"
  proof (cases "a = []")
    case True
    with pb b show ?thesis by (auto simp: batch_nothing_new_def isNonNegativeSafeInteger_def)
  next
    case False
    with pb have pub: "batch_publication pf c a h t now = Inr pb" by simp
    show ?thesis using batch_publication_Inr(2,10) [OF pub] b by (simp add: isNonNegativeSafeInteger_def)
  qed
qed

lemma server_response_confirmed_lemma:
  assumes prep: "prepareBranchBatch pf c (hashBranchBatchEvents pf (events c)) h t ex now = Inr pb"
    and ex: "receipts_sound ex" and len: "int (length (events c)) \<le> max_safe_integer"
  shows "hasConfirmedDropDiffAppendReceipt (diff_append_response b (pb_result pb)) (Some b) (map eventId (events c))"
proof -
  let ?is = "hashBranchBatchEvents pf (events c)"
  have es: "map bi_event ?is = events c" by (simp add: hashBranchBatchEvents_def comp_def)
  from prep obtain u a pb0 where hc: "\<not> head_corrupt (target c) h" and hs: "\<not> batch_sequence_exhausted h"
    and cl: "batch_classify ex ?is [] [] = Inr (u, a)"
    and pb0: "(if a = [] then Inr (batch_nothing_new c h t) else batch_publication pf c a h t now) = Inr pb0"
    and pb: "pb = with_acknowledgements ex (map fst u) pb0"
    by (rule prepareBranchBatch_Inr)
  let ?m = "map (\<lambda>r. (rc_eventId r, r)) (pb_receipts pb0)"
  let ?v = "diff_append_response b (pb_result pb)"
  have acks: "dr_acknowledgements ?v = map (batch_acknowledgement ex ?m) (map fst u)"
    by (simp add: diff_append_response_def pb with_acknowledgements_def)
  have ids: "map ack_eventId (dr_acknowledgements ?v) = map fst u" unfolding acks by (simp add: comp_def)
  note counts = batch_response_counts [OF cl es pb0]
  have nums: "dr_accepted ?v = int (length a)" "dr_deduplicated ?v = int (length (events c)) - int (length a)"
    using counts(1,2) by (simp_all add: diff_append_response_def pb)
  have accs: "length (filter (\<lambda>k. ack_status k = Accepted) (dr_acknowledgements ?v)) = length a"
    unfolding acks batch_classify_accepted(1) [OF cl] by (simp add: filter_map comp_def fresh_length)
  have "length (filter (\<lambda>k. ack_status k = Duplicate) (dr_acknowledgements ?v)) = length u - length a"
  proof -
    have "length (filter (\<lambda>k. map_of ex k = None) (map fst u)) + length (filter (\<lambda>k. \<not> map_of ex k = None) (map fst u)) = length u"
      using sum_length_filter_compl [of "\<lambda>k. map_of ex k = None" "map fst u"] by simp
    moreover have "length (filter (\<lambda>k. map_of ex k = None) (map fst u)) = length a"
      unfolding batch_classify_accepted(1) [OF cl] by (simp add: fresh_length)
    moreover have "length (filter (\<lambda>k. ack_status k = Duplicate) (dr_acknowledgements ?v))
        = length (filter (\<lambda>k. \<not> map_of ex k = None) (map fst u))"
      unfolding acks by (simp add: filter_map comp_def)
    ultimately show ?thesis by linarith
  qed
  moreover have "isDropDiffAppendResponse ?v"
  proof -
    have "dr_snapshotId ?v = (case ba_snapshot (pb_result pb0) of Some s \<Rightarrow> sn_snapshotId s
        | None \<Rightarrow> br_headSnapshotId (ba_branch (pb_result pb0)))"
      by (simp add: diff_append_response_def pb cong: option.case_cong)
    then have "isNonNegativeSafeInteger (dr_snapshotId ?v)"
      using batch_response_snapshot(1) [OF pb0 hc hs] by simp
    moreover have "isNonNegativeSafeInteger (dr_totalStored ?v)"
      using batch_response_snapshot(2) [OF pb0 hc hs] by (simp add: diff_append_response_def pb)
    moreover have "isNonNegativeSafeInteger (dr_accepted ?v)" "isNonNegativeSafeInteger (dr_deduplicated ?v)"
      using nums counts(3,4) len by (auto simp: isNonNegativeSafeInteger_def is_safe_integer_def)
    moreover have "list_all isAcknowledgement (dr_acknowledgements ?v)"
      unfolding acks using batch_ack_sound [OF cl ex hs pb0] by (auto simp: list_all_iff)
    ultimately show ?thesis by (simp add: isDropDiffAppendResponse_def)
  qed
  ultimately show ?thesis
    unfolding confirmed_iff ids
    using accs nums counts(3,4) batch_classify_accepted(2) [OF cl] batch_events_keys [OF cl es]
    by (simp add: jsmap_wf_def diff_append_response_def)
qed

section \<open>Properties\<close>

text \<open>
  What the server answers is what the client confirms. For every envelope, whatever part of it
  is new, repeated within the envelope or already stored (with receipts whose numbers are safe), the
  response built from a successful batch preparation passes the client's receipt check for exactly
  the submitted event ids on that branch: each distinct id is acknowledged once and the counts agree.
\<close>

theorem server_response_confirmed:
  assumes "prepareBranchBatch pf c (hashBranchBatchEvents pf (events c)) h t ex now = Inr pb"
    and "receipts_sound ex" "int (length (events c)) \<le> max_safe_integer"
  shows "hasConfirmedDropDiffAppendReceipt (diff_append_response b (pb_result pb)) (Some b) (map eventId (events c))"
  using assms by (rule server_response_confirmed_lemma)

definition example_batch :: BranchBatchAppendRecord where
  "example_batch = \<lparr>target = example_target, placement = example_placement, events = [example_event, example_event]\<rparr>"

lemma example_batch_prepared:
  "\<exists>pb. prepareBranchBatch example_platform example_batch
     (hashBranchBatchEvents example_platform (events example_batch)) example_head [] [] 7 = Inr pb"
proof -
  let ?i = "\<lparr>bi_event = example_event, bi_payloadHash = event_payload_hash example_platform example_event\<rparr>"
  obtain t where t: "apply_events (number_events 0 1 [example_event]) [] = Inr t"
    using apply_events_total [of "number_events 0 1 [example_event]" "[]"] example_event_decodable by auto
  have m: "event_metadata example_event = None" by (simp add: example_event_def)
  have cl: "batch_classify [] (hashBranchBatchEvents example_platform (events example_batch)) [] []
      = Inr ([(eventId example_event, ?i)], [?i])"
    by (simp add: hashBranchBatchEvents_def example_batch_def)
  have v: "hd_version example_head = example_version" "eventSeq example_version = -1" "snapshotId example_version = 0"
    by (simp_all add: example_head_def example_version_def)
  obtain p where p: "batch_publication example_platform example_batch [?i] example_head [] 7 = Inr p"
    using t by (simp add: batch_publication_def v is_safe_integer_def max_safe_integer_def Let_def)
  have c: "target example_batch = example_target" "placement example_batch = placement example_head"
    "sourceContentHash (hd_version example_head) = hashNulldownSourceContent example_platform []"
    "is_safe_integer 7"
    by (simp_all add: example_batch_def example_head_def example_version_def is_safe_integer_def max_safe_integer_def)
  show ?thesis
    unfolding prepareBranchBatch_def cl using example_head_ok p by (simp add: c m Let_def)
qed

theorem server_response_confirmed_witness:
  "\<exists>pb :: PreparedBranchBatch. hasConfirmedDropDiffAppendReceipt (diff_append_response (js ''owner'') (pb_result pb))
     (Some (js ''owner'')) (map eventId [example_event, example_event])"
proof -
  obtain pb where "prepareBranchBatch example_platform example_batch
     (hashBranchBatchEvents example_platform (events example_batch)) example_head [] [] 7 = Inr pb"
    using example_batch_prepared by blast
  from server_response_confirmed [OF this, of "js ''owner''"]
  have "hasConfirmedDropDiffAppendReceipt (diff_append_response (js ''owner'') (pb_result pb))
     (Some (js ''owner'')) (map eventId [example_event, example_event])"
    by (simp add: receipts_sound_def example_batch_def max_safe_integer_def)
  then show ?thesis by (rule exI [of _ pb])
qed

text \<open>
  A diff reference made for an event is recognised as one exactly when its sequence number is
  not negative and the event id is non-empty and has no \<^verbatim>\<open>>\<close>. (The event schema allows such ids, so a
  stored event can have a reference its own validator rejects.)
\<close>

theorem diff_ref_recognised_iff:
  "isDropDiffRef (createDropDiffRef rid branch sq i snap) \<longleftrightarrow> 0 \<le> sq \<and> i \<noteq> [] \<and> 62 \<notin> set i"
  by (rule isDropDiffRef_create)

end
