(* ===== verification/Branch_Log.thy ===== *)
theory Branch_Log
  imports Plane_Delivery Diff_Receipts
begin

text \<open>
  The invariant of one branch of the memory plane and its preservation by the two publications of
  text (one event, one envelope). Both are instances of \<open>publish\<close>, which appends events, a snapshot,
  receipts and an outbox record; \<open>branch_ok\<close> says that the history is complete: contiguous events
  and snapshots, every snapshot the replay of the events up to it from snapshot zero, one receipt per
  event. \<open>log_of\<close> reads a branch as its abstract log, which publication extends.
\<close>

named_theorems branch_simps \<open>fields of published states\<close>

section \<open>Vocabulary\<close>

abbreviation ver :: "State \<Rightarrow> BranchStateVersion" where
  "ver s \<equiv> hd_version (head s)"

definition stored_events :: "State \<Rightarrow> int \<Rightarrow> DropDiffEvent list" where
  "stored_events s n = map (\<lambda>i. the (map_of (st_events s) i)) [0..n]"

definition text_at :: "State \<Rightarrow> int \<Rightarrow> jstring" where
  "text_at s i = content (the (map_of (snapshots s) i))"

definition version_at :: "State \<Rightarrow> int \<Rightarrow> BranchStateVersion" where
  "version_at s i = cq_version (the (map_of (snapshots s) i))"

definition receipt_seq :: "BranchCommitReceipt \<Rightarrow> int" where
  "receipt_seq r = (case rc_eventSeq r of Some n \<Rightarrow> n | None \<Rightarrow> eventSeq (rc_version r))"

text \<open>The abstract value of a branch: its events in order and its text.\<close>

definition log_of :: "State \<Rightarrow> DropDiffEvent list \<times> jstring" where
  "log_of s = (stored_events s (eventSeq (ver s)), text_at s (snapshotId (ver s)))"

section \<open>The invariant\<close>

definition events_ok :: "State \<Rightarrow> bool" where
  "events_ok s \<longleftrightarrow> dom (map_of (st_events s)) = {0..eventSeq (ver s)} \<and>
     (\<forall>i e. map_of (st_events s) i = Some e \<longrightarrow> event_seq e = i)"

definition snapshots_ok :: "platform \<Rightarrow> State \<Rightarrow> bool" where
  "snapshots_ok pf s \<longleftrightarrow>
     dom (map_of (snapshots s)) = {0..snapshotId (ver s)} \<and>
     (\<forall>i c. map_of (snapshots s) i = Some c \<longrightarrow>
        target c = target (head s) \<and> placement c = placement (head s) \<and> snapshotId (cq_version c) = i \<and>
        valid_version (cq_version c) \<and> hashNulldownSourceContent pf (content c) = sourceContentHash (cq_version c) \<and>
        eventSeq (cq_version c) \<le> eventSeq (ver s) \<and>
        apply_events (stored_events s (eventSeq (cq_version c))) (text_at s 0) = Inr (content c)) \<and>
     version_at s (snapshotId (ver s)) = ver s"

definition metadata_ok :: "State \<Rightarrow> bool" where
  "metadata_ok s \<longleftrightarrow>
     dom (map_of (snapshotMetadata s)) = {0..snapshotId (ver s)} \<and>
     (\<forall>i m. map_of (snapshotMetadata s) i = Some m \<longrightarrow>
        sn_snapshotId m = i \<and> sn_sourceContentHash m = Some (sourceContentHash (version_at s i)) \<and>
        sn_textLength m = int (length (text_at s i)) \<and>
        (if i = 0 then sn_parentSnapshotId m = None
         else sn_parentSnapshotId m = Some (i - 1) \<and>
              sn_patchStartSeq m = Some (eventSeq (version_at s (i - 1)) + 1) \<and>
              sn_patchEndSeq m = Some (eventSeq (version_at s i))))"

definition receipt_ok :: "platform \<Rightarrow> State \<Rightarrow> jstring \<Rightarrow> BranchCommitReceipt \<Rightarrow> bool" where
  "receipt_ok pf s k r \<longleftrightarrow> rc_eventId r = k \<and> target r = target (head s) \<and> placement r = placement (head s) \<and>
     (\<exists>e. map_of (st_events s) (receipt_seq r) = Some e \<and> eventId e = k \<and>
        rc_payloadHash r = event_payload_hash pf e \<and> event_snapshotId e = Some (snapshotId (rc_version r))) \<and>
     (\<exists>c. map_of (snapshots s) (snapshotId (rc_version r)) = Some c \<and> cq_version c = rc_version r)"

definition receipts_ok :: "platform \<Rightarrow> State \<Rightarrow> bool" where
  "receipts_ok pf s \<longleftrightarrow> jsmap_wf (receipts s) \<and>
     (\<forall>k r. map_of (receipts s) k = Some r \<longrightarrow> receipt_ok pf s k r) \<and>
     (\<forall>i e. map_of (st_events s) i = Some e \<longrightarrow>
        (\<exists>r. map_of (receipts s) (eventId e) = Some r \<and> receipt_seq r = i))"

definition outbox_ok :: "platform \<Rightarrow> State \<Rightarrow> bool" where
  "outbox_ok pf s \<longleftrightarrow> (\<forall>k x. map_of (st_outbox s) k = Some x \<longrightarrow>
     outbox_id x = k \<and> captured_query x = query_of (head s) \<and>
     (case x of
        Commit_Outbox c \<Rightarrow>
          k = json_key [js ''branch.commit.v1'', rootDropId (target (head s)), branchId (target (head s)),
            rc_eventId (co_receipt c)] \<and> map_of (receipts s) (rc_eventId (co_receipt c)) = Some (co_receipt c)
      | Batch_Outbox b \<Rightarrow>
          k = stringify (number_text pf) (JArr [JStr (js ''branch.batch-commit.v1''),
            JStr (rootDropId (target (head s))), JStr (branchId (target (head s))), j_int (snapshotId (cq_version b))]) \<and>
          snapshotId (cq_version b) \<le> snapshotId (ver s)
      | _ \<Rightarrow> False))"

definition head_ok :: "State \<Rightarrow> bool" where
  "head_ok s \<longleftrightarrow> coherent_head (head s) \<and> routingVersion (placement (head s)) = 1"

text \<open>What a reader of a branch relies on for every stored event and every snapshot record.\<close>

definition wire_event :: "BranchStateHead \<Rightarrow> DropDiffEvent \<Rightarrow> bool" where
  "wire_event h e \<longleftrightarrow> valid_event e \<and> dropId e = rootDropId (target h) \<and>
     opt_all (\<lambda>n. n = event_seq e - 1) (Option.bind (event_metadata e) meta_followsSeq)"

definition wire_snapshot :: "BranchStateHead \<Rightarrow> DropSnapshotRecord \<Rightarrow> bool" where
  "wire_snapshot h m \<longleftrightarrow> sn_rootDropId m = rootDropId (target h) \<and> sn_branchId m = branchId (target h) \<and>
     sn_seq m = sn_snapshotId m \<and> sn_checkpointed m"

text \<open>Snapshot \<open>n\<close> holds the events after those of snapshot \<open>n - 1\<close>, at least one.\<close>

definition placed_event :: "State \<Rightarrow> int \<Rightarrow> DropDiffEvent \<Rightarrow> bool" where
  "placed_event s i e \<longleftrightarrow> (\<exists>n. event_snapshotId e = Some n \<and> 1 \<le> n \<and> n \<le> snapshotId (ver s) \<and>
     eventSeq (version_at s (n - 1)) < i \<and> i \<le> eventSeq (version_at s n))"

definition patched_snapshot :: "State \<Rightarrow> int \<Rightarrow> DropSnapshotRecord \<Rightarrow> bool" where
  "patched_snapshot s i m \<longleftrightarrow>
     (if i = 0 then sn_patchStartSeq m = None \<and> sn_patchEndSeq m = None \<and> sn_eventIds m = []
      else sn_eventIds m = map (\<lambda>j. eventId (the (map_of (st_events s) j)))
        [eventSeq (version_at s (i - 1)) + 1..eventSeq (version_at s i)])"

definition stream_ok :: "State \<Rightarrow> bool" where
  "stream_ok s \<longleftrightarrow> eventSeq (version_at s 0) = - 1 \<and>
     (\<forall>i. 0 \<le> i \<longrightarrow> i < snapshotId (ver s) \<longrightarrow> eventSeq (version_at s i) < eventSeq (version_at s (i + 1))) \<and>
     (\<forall>i e. map_of (st_events s) i = Some e \<longrightarrow> wire_event (head s) e \<and> placed_event s i e) \<and>
     (\<forall>i m. map_of (snapshotMetadata s) i = Some m \<longrightarrow> wire_snapshot (head s) m \<and> patched_snapshot s i m)"

definition branch_ok :: "platform \<Rightarrow> State \<Rightarrow> bool" where
  "branch_ok pf s \<longleftrightarrow> head_ok s \<and> events_ok s \<and> snapshots_ok pf s \<and> metadata_ok s \<and> receipts_ok pf s \<and> outbox_ok pf s \<and>
     stream_ok s"

section \<open>Publication\<close>

definition publish ::
  "State \<Rightarrow> BranchStateHead \<Rightarrow> jstring \<Rightarrow> DropSnapshotRecord \<Rightarrow> DropDiffEvent list \<Rightarrow> BranchCommitReceipt list
   \<Rightarrow> BranchCanonicalOutbox \<Rightarrow> State" where
  "publish s h text meta es rs x =
     s \<lparr>head := h,
        snapshots := AList.update (snapshotId (hd_version h))
          \<lparr>target = target h, placement = placement h, cq_version = hd_version h, content = text\<rparr> (snapshots s),
        st_events := jsmap_set_all (map (\<lambda>e. (event_seq e, e)) es) (st_events s),
        snapshotMetadata := AList.update (snapshotId (hd_version h)) meta (snapshotMetadata s),
        receipts := jsmap_set_all (map (\<lambda>r. (rc_eventId r, r)) rs) (receipts s),
        st_outbox := AList.update (outbox_id x) x (st_outbox s)\<rparr>"

lemma publish_fields [branch_simps, simp]:
  "head (publish s h t meta es rs x) = h"
  "nullmem (publish s h t meta es rs x) = nullmem s"
  "runtimeFacts (publish s h t meta es rs x) = runtimeFacts s"
  "runtimeOutbox (publish s h t meta es rs x) = runtimeOutbox s"
  "map_of (snapshots (publish s h t meta es rs x)) = (map_of (snapshots s))(snapshotId (hd_version h) \<mapsto>
     \<lparr>target = target h, placement = placement h, cq_version = hd_version h, content = t\<rparr>)"
  "map_of (snapshotMetadata (publish s h t meta es rs x)) = (map_of (snapshotMetadata s))(snapshotId (hd_version h) \<mapsto> meta)"
  "map_of (st_outbox (publish s h t meta es rs x)) = (map_of (st_outbox s))(outbox_id x \<mapsto> x)"
  by (simp_all add: publish_def)

text \<open>What a prepared commit provides, whichever way it was prepared.\<close>

definition wire_publication :: "BranchStateHead \<Rightarrow> DropSnapshotRecord \<Rightarrow> DropDiffEvent list \<Rightarrow> bool" where
  "wire_publication h meta es \<longleftrightarrow> list_all (wire_event h) es \<and> wire_snapshot h meta \<and> sn_eventIds meta = map eventId es"

definition publishable ::
  "platform \<Rightarrow> State \<Rightarrow> BranchStateHead \<Rightarrow> jstring \<Rightarrow> DropSnapshotRecord \<Rightarrow> DropDiffEvent list \<Rightarrow> BranchCommitReceipt list
   \<Rightarrow> BranchCanonicalOutbox \<Rightarrow> bool" where
  "publishable pf s h text meta es rs x \<longleftrightarrow>
     es \<noteq> [] \<and> map event_seq es = map (\<lambda>i. eventSeq (ver s) + 1 + int i) [0..<length es] \<and>
     target h = target (head s) \<and> placement h = placement (head s) \<and>
     hd_version h = next_version pf (ver s) (int (length es)) text \<and>
     (\<exists>now. hd_branch h = (hd_branch (head s)) \<lparr>br_headSnapshotId := snapshotId (ver s) + 1,
        br_headEventSeq := Some (eventSeq (ver s) + int (length es)), br_updatedAt := now\<rparr>) \<and>
     is_safe_integer (snapshotId (ver s) + 1) \<and> is_safe_integer (eventSeq (ver s) + int (length es) + 1) \<and>
     apply_events es (text_at s (snapshotId (ver s))) = Inr text \<and>
     sn_snapshotId meta = snapshotId (ver s) + 1 \<and>
     sn_sourceContentHash meta = Some (sourceContentHash (hd_version h)) \<and> sn_textLength meta = int (length text) \<and>
     sn_parentSnapshotId meta = Some (snapshotId (ver s)) \<and> sn_patchStartSeq meta = Some (eventSeq (ver s) + 1) \<and>
     sn_patchEndSeq meta = Some (eventSeq (ver s) + int (length es)) \<and>
     list_all2 (\<lambda>e r. rc_eventId r = eventId e \<and> receipt_seq r = event_seq e \<and> rc_version r = hd_version h \<and>
       target r = target (head s) \<and> placement r = placement (head s) \<and>
       rc_payloadHash r = event_payload_hash pf e \<and> event_snapshotId e = Some (snapshotId (hd_version h))) es rs \<and>
     distinct (map eventId es) \<and> (\<forall>e \<in> set es. map_of (receipts s) (eventId e) = None) \<and>
     captured_query x = query_of h \<and>
     (case x of
        Commit_Outbox c \<Rightarrow>
          co_id c = json_key [js ''branch.commit.v1'', rootDropId (target h), branchId (target h),
            rc_eventId (co_receipt c)] \<and> rs = [co_receipt c]
      | Batch_Outbox b \<Rightarrow>
          bo_id b = stringify (number_text pf) (JArr [JStr (js ''branch.batch-commit.v1''),
            JStr (rootDropId (target h)), JStr (branchId (target h)), j_int (snapshotId (hd_version h))]) \<and>
          cq_version b = hd_version h
      | _ \<Rightarrow> False) \<and>
     wire_publication h meta es"

section \<open>Looking up numbered events\<close>

lemma list_all2_mem_left: "list_all2 P xs ys \<Longrightarrow> x \<in> set xs \<Longrightarrow> \<exists>y. P x y"
  by (induction rule: list_all2_induct) auto

lemma map_of_numbered:
  assumes "map event_seq es = map (\<lambda>i. a + int i) [0..<length es]"
  shows "map_of (jsmap_set_all (map (\<lambda>e. (event_seq e, e)) es) m) i =
    (if a \<le> i \<and> i < a + int (length es) then Some (es ! nat (i - a)) else map_of m i)"
  using assms
proof (induction es arbitrary: a m)
  case (Cons e es)
  have e: "event_seq e = a" using Cons.prems by (simp add: upt_conv_Cons del: upt_Suc)
  have "map event_seq es = map (\<lambda>i. a + 1 + int i) [0..<length es]"
    using Cons.prems by (simp add: upt_conv_Cons map_Suc_upt [symmetric] comp_def algebra_simps del: upt_Suc)
  note IH = Cons.IH [OF this]
  consider "i = a" | "a < i" | "i < a" by linarith
  then show ?case
  proof cases
    case 1
    then have "a = i" by simp
    with IH e show ?thesis by simp
  next
    case 2
    then have "nat (i - a) = Suc (nat (i - (a + 1)))" by (simp add: nat_diff_distrib Suc_nat_eq_nat_zadd1)
    with 2 show ?thesis by (simp add: IH e)
  qed (simp_all add: IH e)
qed auto

lemma numbered_nth:
  assumes "map event_seq es = map (\<lambda>i. a + int i) [0..<length es]" "k < length es"
  shows "event_seq (es ! k) = a + int k"
proof -
  have "map event_seq es ! k = map (\<lambda>i. a + int i) [0..<length es] ! k" using assms(1) by simp
  with assms(2) show ?thesis by simp
qed

lemma numbered_map: "map (\<lambda>i. es ! nat (i - a)) [a..a + int (length es) - 1] = es"
  by (rule nth_equalityI) simp_all

lemma upto_extend: "- 1 \<le> n \<Longrightarrow> 0 \<le> k \<Longrightarrow> [0..n + k] = [0..n] @ [n + 1..n + k]" for n k :: int
  by (cases "n = - 1") (simp_all add: upto_split2 [of 0 n "n + k"])

lemma map_of_receipts_fresh:
  assumes "distinct (map rc_eventId rs)"
  shows "map_of (jsmap_set_all (map (\<lambda>r. (rc_eventId r, r)) rs) m) k =
    (case find (\<lambda>r. rc_eventId r = k) rs of Some r \<Rightarrow> Some r | None \<Rightarrow> map_of m k)"
  using assms
proof (induction rs arbitrary: m)
  case (Cons r rs)
  have "\<forall>q \<in> set rs. rc_eventId q \<noteq> rc_eventId r" using Cons.prems by (metis distinct.simps(2) image_eqI list.set_map list.simps(9))
  then have "find (\<lambda>q. rc_eventId q = rc_eventId r) rs = None" by (simp add: find_None_iff)
  with Cons show ?case by (auto split: option.splits)
qed simp

section \<open>Publication keeps the invariant\<close>

lemma version_at_cases: "map_of (snapshots s) i = Some c \<Longrightarrow> version_at s i = cq_version c \<and> text_at s i = content c"
  by (simp add: version_at_def text_at_def)

lemma text_at_publish:
  "text_at (publish s h t meta es rs x) i = (if i = snapshotId (hd_version h) then t else text_at s i)"
  "version_at (publish s h t meta es rs x) i = (if i = snapshotId (hd_version h) then hd_version h else version_at s i)"
  by (simp_all add: text_at_def version_at_def)

lemma head_ok_versions:
  assumes "head_ok s"
  shows "valid_version (ver s)" "0 \<le> snapshotId (ver s)" "- 1 \<le> eventSeq (ver s)"
    "snapshotId (ver s) = 0 \<longleftrightarrow> eventSeq (ver s) = - 1" "snapshotId (ver s) - 1 \<le> eventSeq (ver s)"
  using assms by (auto simp: head_ok_def coherent_head_def head_consistent_def valid_version_def split: if_splits)

lemma publishableD:
  assumes "publishable pf s h text meta es rs x"
  shows "es \<noteq> []" "map event_seq es = map (\<lambda>i. eventSeq (ver s) + 1 + int i) [0..<length es]"
    "target h = target (head s)" "placement h = placement (head s)"
    "snapshotId (hd_version h) = snapshotId (ver s) + 1" "eventSeq (hd_version h) = eventSeq (ver s) + int (length es)"
    "sourceContentHash (hd_version h) = hashNulldownSourceContent pf text"
    "apply_events es (text_at s (snapshotId (ver s))) = Inr text"
    "length rs = length es"
  using assms by (auto simp: publishable_def next_version_def dest: list_all2_lengthD)

lemma events_of_publish:
  assumes "publishable pf s h text meta es rs x"
  shows "map_of (st_events (publish s h text meta es rs x)) i =
    (if eventSeq (ver s) < i \<and> i \<le> eventSeq (ver s) + int (length es) then Some (es ! nat (i - (eventSeq (ver s) + 1)))
     else map_of (st_events s) i)"
  using map_of_numbered [OF publishableD(2) [OF assms], of "st_events s" i] by (auto simp: publish_def)

lemma events_ok_publish:
  assumes "events_ok s" "head_ok s" "publishable pf s h text meta es rs x"
  shows "events_ok (publish s h text meta es rs x)"
proof -
  note p = publishableD [OF assms(3)]
  have nth: "event_seq (es ! nat (i - (eventSeq (ver s) + 1))) = i"
    if "eventSeq (ver s) < i" "i \<le> eventSeq (ver s) + int (length es)" for i
  proof -
    have "nat (i - (eventSeq (ver s) + 1)) < length es" using that by simp
    from numbered_nth [OF p(2) this] that show ?thesis by simp
  qed
  note look = events_of_publish [OF assms(3)] and old = assms(1) [unfolded events_ok_def] and v = head_ok_versions(3) [OF assms(2)]
  have d: "i \<in> dom (map_of (st_events (publish s h text meta es rs x))) \<longleftrightarrow>
      eventSeq (ver s) < i \<and> i \<le> eventSeq (ver s) + int (length es) \<or> i \<in> dom (map_of (st_events s))" for i
    unfolding dom_def look by auto
  have "dom (map_of (st_events (publish s h text meta es rs x))) = {0..eventSeq (ver s) + int (length es)}"
    using v unfolding set_eq_iff d conjunct1 [OF old] atLeastAtMost_iff by linarith
  moreover have "event_seq e = i" if "map_of (st_events (publish s h text meta es rs x)) i = Some e" for i e
    using that nth [of i] old unfolding look by (metis option.inject)
  ultimately show ?thesis unfolding events_ok_def publish_fields(1) p(6) by blast
qed

lemma stored_events_publish:
  assumes "events_ok s" "head_ok s" "publishable pf s h text meta es rs x"
  shows "n \<le> eventSeq (ver s) \<Longrightarrow> stored_events (publish s h text meta es rs x) n = stored_events s n"
    and "stored_events (publish s h text meta es rs x) (eventSeq (hd_version h)) = stored_events s (eventSeq (ver s)) @ es"
proof -
  note p = publishableD [OF assms(3)]
  show old: "stored_events (publish s h text meta es rs x) n = stored_events s n" if "n \<le> eventSeq (ver s)" for n
    unfolding stored_events_def using that by (intro map_cong refl arg_cong [where f = the]) (simp add: events_of_publish [OF assms(3)])
  have split: "[0..eventSeq (hd_version h)] = [0..eventSeq (ver s)] @ [eventSeq (ver s) + 1..eventSeq (ver s) + int (length es)]"
    unfolding p(6) by (rule upto_extend) (use head_ok_versions(3) [OF assms(2)] in simp_all)
  have "map (\<lambda>i. the (map_of (st_events (publish s h text meta es rs x)) i)) [eventSeq (ver s) + 1..eventSeq (ver s) + int (length es)]
      = map (\<lambda>i. es ! nat (i - (eventSeq (ver s) + 1))) [eventSeq (ver s) + 1..eventSeq (ver s) + int (length es)]"
    by (rule map_cong [OF refl]) (simp add: events_of_publish [OF assms(3)])
  also have "\<dots> = es" using numbered_map [of es "eventSeq (ver s) + 1"] by (simp add: add.assoc add.commute)
  finally show "stored_events (publish s h text meta es rs x) (eventSeq (hd_version h)) = stored_events s (eventSeq (ver s)) @ es"
    using old [OF order_refl] unfolding stored_events_def split map_append by simp
qed

lemma head_ok_publish:
  assumes "head_ok s" "publishable pf s h text meta es rs x" "platform_ok pf"
  shows "head_ok (publish s h text meta es rs x)"
proof -
  note p = publishableD [OF assms(2)] and v = head_ok_versions [OF assms(1)]
  have h: "isNulldownSourceHash (sourceContentHash (hd_version h))"
    unfolding p(7) using assms(3) by (intro hash_is_source_hash) (simp add: platform_ok_def)
  have n: "1 \<le> int (length es)" using p(1) by (cases es) simp_all
  have "is_safe_integer (snapshotId (ver s) + 1)" "is_safe_integer (eventSeq (ver s) + int (length es))"
    using assms(2) v(3) n by (auto simp: publishable_def is_safe_integer_def)
  with h v n have "valid_version (hd_version h)" by (simp add: valid_version_def p(5,6))
  moreover have "head_consistent h h"
  proof -
    obtain now where "hd_branch h = (hd_branch (head s)) \<lparr>br_headSnapshotId := snapshotId (ver s) + 1,
        br_headEventSeq := Some (eventSeq (ver s) + int (length es)), br_updatedAt := now\<rparr>"
      using assms(2) unfolding publishable_def by blast
    with assms(1) v n show ?thesis by (simp add: head_consistent_def p(3,5,6) head_ok_def coherent_head_def)
  qed
  ultimately show ?thesis using assms(1) by (simp add: head_ok_def coherent_head_def p(3,4))
qed

lemma snapshots_okD:
  assumes "snapshots_ok pf s" "map_of (snapshots s) i = Some c"
  shows "target c = target (head s)" "placement c = placement (head s)" "snapshotId (cq_version c) = i"
    "valid_version (cq_version c)" "hashNulldownSourceContent pf (content c) = sourceContentHash (cq_version c)"
    "eventSeq (cq_version c) \<le> eventSeq (ver s)"
    "apply_events (stored_events s (eventSeq (cq_version c))) (text_at s 0) = Inr (content c)"
    "0 \<le> i" "i \<le> snapshotId (ver s)"
proof -
  have "i \<in> dom (map_of (snapshots s))" using assms(2) by blast
  with assms(1) show "0 \<le> i" "i \<le> snapshotId (ver s)" unfolding snapshots_ok_def by simp_all
qed (use assms in \<open>simp_all add: snapshots_ok_def\<close>)

lemma version_at_upto:
  assumes "branch_ok pf s" "0 \<le> i" "i \<le> snapshotId (ver s)"
  shows "eventSeq (version_at s i) \<le> eventSeq (ver s)"
proof -
  from assms have o: "snapshots_ok pf s" and "i \<in> dom (map_of (snapshots s))" by (auto simp: branch_ok_def snapshots_ok_def)
  then obtain c where "map_of (snapshots s) i = Some c" by blast
  with o show ?thesis by (auto simp: snapshots_ok_def version_at_def)
qed

lemma snapshot_at_head:
  assumes "snapshots_ok pf s" "head_ok s"
  obtains c where "map_of (snapshots s) (snapshotId (ver s)) = Some c" "cq_version c = ver s"
proof -
  have "snapshotId (ver s) \<in> dom (map_of (snapshots s))"
    using assms head_ok_versions(2) [OF assms(2)] by (simp add: snapshots_ok_def)
  then obtain c where c: "map_of (snapshots s) (snapshotId (ver s)) = Some c" by blast
  moreover have "cq_version c = ver s" using assms(1) c by (simp add: snapshots_ok_def version_at_def)
  ultimately show ?thesis by (rule that)
qed

lemma replay_head:
  assumes "snapshots_ok pf s" "head_ok s"
  shows "apply_events (stored_events s (eventSeq (ver s))) (text_at s 0) = Inr (text_at s (snapshotId (ver s)))"
    "hashNulldownSourceContent pf (text_at s (snapshotId (ver s))) = sourceContentHash (ver s)"
proof -
  obtain c where c: "map_of (snapshots s) (snapshotId (ver s)) = Some c" "cq_version c = ver s"
    using assms by (rule snapshot_at_head)
  from snapshots_okD(5,7) [OF assms(1) c(1)] show
    "apply_events (stored_events s (eventSeq (ver s))) (text_at s 0) = Inr (text_at s (snapshotId (ver s)))"
    "hashNulldownSourceContent pf (text_at s (snapshotId (ver s))) = sourceContentHash (ver s)"
    by (simp_all add: text_at_def c)
qed

lemma snapshots_ok_publish:
  assumes "branch_ok pf s" "publishable pf s h text meta es rs x" "platform_ok pf"
  shows "snapshots_ok pf (publish s h text meta es rs x)"
proof -
  let ?s = "publish s h text meta es rs x"
  from assms(1) have h: "head_ok s" and e: "events_ok s" and o: "snapshots_ok pf s" by (simp_all add: branch_ok_def)
  note p = publishableD [OF assms(2)] and v = head_ok_versions [OF h] and st = stored_events_publish [OF e h assms(2)]
  have base: "text_at ?s 0 = text_at s 0" using v(2) by (simp add: text_at_publish p(5))
  have new: "apply_events (stored_events ?s (eventSeq (hd_version h))) (text_at ?s 0) = Inr text"
    using replay_head [OF o h] p(8) by (simp add: st(2) apply_events_append base)
  have valid: "valid_version (hd_version h)"
    using head_ok_publish [OF h assms(2,3)] by (simp add: head_ok_def coherent_head_def)
  have "dom (map_of (snapshots ?s)) = insert (snapshotId (ver s) + 1) {0..snapshotId (ver s)}"
    using o by (simp add: snapshots_ok_def p(5))
  also have "\<dots> = {0..snapshotId (ver ?s)}" using v(2) by (auto simp: p(5))
  finally have dom: "dom (map_of (snapshots ?s)) = {0..snapshotId (ver ?s)}" .
  have keep: "target c = target h \<and> placement c = placement h \<and> snapshotId (cq_version c) = i \<and> valid_version (cq_version c) \<and>
      hashNulldownSourceContent pf (content c) = sourceContentHash (cq_version c) \<and> eventSeq (cq_version c) \<le> eventSeq (hd_version h) \<and>
      apply_events (stored_events ?s (eventSeq (cq_version c))) (text_at ?s 0) = Inr (content c)"
    if c: "map_of (snapshots ?s) i = Some c" for i c
  proof (cases "i = snapshotId (hd_version h)")
    case True
    then have "c = \<lparr>target = target h, placement = placement h, cq_version = hd_version h, content = text\<rparr>" using c by simp
    with True new valid p(7) show ?thesis by simp
  next
    case False
    then have "map_of (snapshots s) i = Some c" using c by simp
    note d = snapshots_okD [OF o this]
    from d(6) show ?thesis unfolding base st(1) [OF d(6)] p(3,4,6) using d by simp
  qed
  show ?thesis
    unfolding snapshots_ok_def dom using keep by (simp add: text_at_publish)
qed

lemma metadata_ok_publish:
  assumes "branch_ok pf s" "publishable pf s h text meta es rs x"
  shows "metadata_ok (publish s h text meta es rs x)"
proof -
  let ?s = "publish s h text meta es rs x"
  from assms(1) have h: "head_ok s" and o: "metadata_ok s" and vs: "version_at s (snapshotId (ver s)) = ver s"
    by (simp_all add: branch_ok_def snapshots_ok_def)
  note p = publishableD [OF assms(2)] and v = head_ok_versions [OF h]
  have meta: "sn_snapshotId meta = snapshotId (ver s) + 1" "sn_sourceContentHash meta = Some (sourceContentHash (hd_version h))"
    "sn_textLength meta = int (length text)" "sn_parentSnapshotId meta = Some (snapshotId (ver s))"
    "sn_patchStartSeq meta = Some (eventSeq (ver s) + 1)" "sn_patchEndSeq meta = Some (eventSeq (ver s) + int (length es))"
    using assms(2) unfolding publishable_def by blast+
  have "dom (map_of (snapshotMetadata ?s)) = insert (snapshotId (ver s) + 1) {0..snapshotId (ver s)}"
    using o by (simp add: metadata_ok_def p(5))
  also have "\<dots> = {0..snapshotId (ver ?s)}" using v(2) by (auto simp: p(5))
  finally have dom: "dom (map_of (snapshotMetadata ?s)) = {0..snapshotId (ver ?s)}" .
  have "sn_snapshotId m = i \<and> sn_sourceContentHash m = Some (sourceContentHash (version_at ?s i)) \<and>
      sn_textLength m = int (length (text_at ?s i)) \<and>
      (if i = 0 then sn_parentSnapshotId m = None
       else sn_parentSnapshotId m = Some (i - 1) \<and> sn_patchStartSeq m = Some (eventSeq (version_at ?s (i - 1)) + 1) \<and>
            sn_patchEndSeq m = Some (eventSeq (version_at ?s i)))"
    if m: "map_of (snapshotMetadata ?s) i = Some m" for i m
  proof (cases "i = snapshotId (ver s) + 1")
    case True
    then have "m = meta" using m by (simp add: p(5))
    with True v(2) show ?thesis by (simp add: text_at_publish p(5,6) meta vs)
  next
    case False
    then have m': "map_of (snapshotMetadata s) i = Some m" using m by (simp add: p(5))
    then have "i \<in> dom (map_of (snapshotMetadata s))" by blast
    then have i: "i \<le> snapshotId (ver s)" using o by (simp add: metadata_ok_def)
    have same: "version_at ?s i = version_at s i" "version_at ?s (i - 1) = version_at s (i - 1)" "text_at ?s i = text_at s i"
      using i by (simp_all add: text_at_publish p(5))
    show ?thesis unfolding same using o m' by (simp add: metadata_ok_def)
  qed
  with dom show ?thesis unfolding metadata_ok_def by blast
qed

lemma list_all2_find:
  assumes "list_all2 P xs ys" "find Q ys = Some y"
  shows "\<exists>x \<in> set xs. P x y \<and> Q y"
proof -
  have "y \<in> set ys" "Q y" using assms(2) by (auto simp: find_Some_iff)
  with list_all2_memD [OF assms(1)] show ?thesis by blast
qed

lemma list_all2_map_eq: "list_all2 (\<lambda>x y. f x = g y) xs ys \<Longrightarrow> map f xs = map g ys"
  by (induction rule: list_all2_induct) simp_all

lemma publishable_receipts:
  assumes "publishable pf s h text meta es rs x"
  shows "map eventId es = map rc_eventId rs" "distinct (map rc_eventId rs)"
    "r \<in> set rs \<Longrightarrow> map_of (receipts s) (rc_eventId r) = None"
    "r \<in> set rs \<Longrightarrow> \<exists>e \<in> set es. rc_eventId r = eventId e \<and> receipt_seq r = event_seq e \<and> rc_version r = hd_version h \<and>
       target r = target (head s) \<and> placement r = placement (head s) \<and>
       rc_payloadHash r = event_payload_hash pf e \<and> event_snapshotId e = Some (snapshotId (hd_version h))"
    "k < length es \<Longrightarrow> rc_eventId (rs ! k) = eventId (es ! k) \<and> receipt_seq (rs ! k) = event_seq (es ! k)"
proof -
  have l: "list_all2 (\<lambda>e r. rc_eventId r = eventId e \<and> receipt_seq r = event_seq e \<and> rc_version r = hd_version h \<and>
       target r = target (head s) \<and> placement r = placement (head s) \<and>
       rc_payloadHash r = event_payload_hash pf e \<and> event_snapshotId e = Some (snapshotId (hd_version h))) es rs"
    and d: "distinct (map eventId es)" and f: "\<forall>e \<in> set es. map_of (receipts s) (eventId e) = None"
    using assms unfolding publishable_def by blast+
  show m: "map eventId es = map rc_eventId rs"
    by (rule list_all2_map_eq) (use l in \<open>auto elim: list_all2_mono\<close>)
  show "distinct (map rc_eventId rs)" using d by (simp only: m)
  show "r \<in> set rs \<Longrightarrow> \<exists>e \<in> set es. rc_eventId r = eventId e \<and> receipt_seq r = event_seq e \<and> rc_version r = hd_version h \<and>
       target r = target (head s) \<and> placement r = placement (head s) \<and>
       rc_payloadHash r = event_payload_hash pf e \<and> event_snapshotId e = Some (snapshotId (hd_version h))"
    by (rule list_all2_memD [OF l])
  then show "r \<in> set rs \<Longrightarrow> map_of (receipts s) (rc_eventId r) = None" using f by fastforce
  show "k < length es \<Longrightarrow> rc_eventId (rs ! k) = eventId (es ! k) \<and> receipt_seq (rs ! k) = event_seq (es ! k)"
    using list_all2_nthD [OF l] by blast
qed

lemma receipts_of_publish:
  assumes "publishable pf s h text meta es rs x"
  shows "map_of (receipts (publish s h text meta es rs x)) k =
    (case find (\<lambda>r. rc_eventId r = k) rs of Some r \<Rightarrow> Some r | None \<Rightarrow> map_of (receipts s) k)"
  using map_of_receipts_fresh [OF publishable_receipts(2) [OF assms]] by (simp add: publish_def)

lemma receipts_of_publish_old:
  assumes "publishable pf s h text meta es rs x" "map_of (receipts s) k = Some r"
  shows "map_of (receipts (publish s h text meta es rs x)) k = Some r"
proof -
  have "find (\<lambda>r. rc_eventId r = k) rs = None"
    using publishable_receipts(3) [OF assms(1)] assms(2) by (auto simp: find_None_iff)
  then show ?thesis by (simp add: receipts_of_publish [OF assms(1)] assms(2))
qed

lemma receipts_of_publish_new:
  assumes "publishable pf s h text meta es rs x" "r \<in> set rs"
  shows "map_of (receipts (publish s h text meta es rs x)) (rc_eventId r) = Some r"
proof -
  have "r' = r" if "r' \<in> set rs" "rc_eventId r' = rc_eventId r" for r'
    using publishable_receipts(2) [OF assms(1)] assms(2) that by (metis distinct_map inj_onD)
  then have "find (\<lambda>q. rc_eventId q = rc_eventId r) rs = Some r"
    using assms(2) by (metis (mono_tags, lifting) find_None_iff find_Some_iff nth_mem option.exhaust)
  then show ?thesis by (simp add: receipts_of_publish [OF assms(1)])
qed

text \<open>History only grows: what was stored stays.\<close>

lemma publish_keeps:
  assumes "branch_ok pf s" "publishable pf s h text meta es rs x"
  shows "map_of (st_events s) i = Some e \<Longrightarrow> map_of (st_events (publish s h text meta es rs x)) i = Some e"
    and "map_of (snapshots s) j = Some c \<Longrightarrow> map_of (snapshots (publish s h text meta es rs x)) j = Some c"
proof -
  from assms(1) have e: "events_ok s" and o: "snapshots_ok pf s" by (simp_all add: branch_ok_def)
  show "map_of (st_events (publish s h text meta es rs x)) i = Some e" if "map_of (st_events s) i = Some e"
  proof -
    have "i \<in> dom (map_of (st_events s))" using that by blast
    then have "i \<le> eventSeq (ver s)" using e by (simp add: events_ok_def)
    with that show ?thesis by (simp add: events_of_publish [OF assms(2)])
  qed
  show "map_of (snapshots (publish s h text meta es rs x)) j = Some c" if "map_of (snapshots s) j = Some c"
    using that snapshots_okD(9) [OF o that] by (simp add: publishableD(5) [OF assms(2)])
qed

lemma new_event_stored:
  assumes "publishable pf s h text meta es rs x" "e \<in> set es"
  shows "map_of (st_events (publish s h text meta es rs x)) (event_seq e) = Some e"
proof -
  obtain k where k: "k < length es" "e = es ! k" using assms(2) by (auto simp: in_set_conv_nth)
  from numbered_nth [OF publishableD(2) [OF assms(1)] k(1)] k show ?thesis
    by (simp add: events_of_publish [OF assms(1)])
qed

lemma receipts_ok_publish:
  assumes "branch_ok pf s" "publishable pf s h text meta es rs x"
  shows "receipts_ok pf (publish s h text meta es rs x)"
proof -
  let ?s = "publish s h text meta es rs x"
  from assms(1) have o: "receipts_ok pf s" and ev: "events_ok s" by (simp_all add: branch_ok_def)
  note p = publishableD [OF assms(2)] and keep = publish_keeps [OF assms]
  have "jsmap_wf (receipts ?s)" using o by (simp add: publish_def receipts_ok_def)
  moreover have "receipt_ok pf ?s k r" if r: "map_of (receipts ?s) k = Some r" for k r
  proof (cases "find (\<lambda>r. rc_eventId r = k) rs")
    case None
    with r have "map_of (receipts s) k = Some r" by (simp add: receipts_of_publish [OF assms(2)])
    then have "receipt_ok pf s k r" using o by (simp add: receipts_ok_def)
    then show ?thesis unfolding receipt_ok_def publish_fields(1) p(3,4) using keep by blast
  next
    case (Some q)
    with r have q: "q = r" "r \<in> set rs" "rc_eventId r = k"
      by (auto simp: receipts_of_publish [OF assms(2)] find_Some_iff)
    from publishable_receipts(4) [OF assms(2) q(2)] obtain e where e: "e \<in> set es"
      "rc_eventId r = eventId e" "receipt_seq r = event_seq e" "rc_version r = hd_version h" "target r = target (head s)"
      "placement r = placement (head s)" "rc_payloadHash r = event_payload_hash pf e"
      "event_snapshotId e = Some (snapshotId (hd_version h))" by blast
    with new_event_stored [OF assms(2) e(1)] q show ?thesis by (simp add: receipt_ok_def p(3,4))
  qed
  moreover have "\<exists>r. map_of (receipts ?s) (eventId e) = Some r \<and> receipt_seq r = i" if e: "map_of (st_events ?s) i = Some e" for i e
  proof (cases "eventSeq (ver s) < i \<and> i \<le> eventSeq (ver s) + int (length es)")
    case True
    let ?k = "nat (i - (eventSeq (ver s) + 1))"
    from True have "eventSeq (ver s) < i" "i \<le> eventSeq (ver s) + int (length es)" by simp_all
    then have k: "?k < length es" "e = es ! ?k" using e by (simp_all add: events_of_publish [OF assms(2)])
    have "rs ! ?k \<in> set rs" using k p(9) by simp
    from publishable_receipts(4) [OF assms(2) this] receipts_of_publish_new [OF assms(2) this]
    have "map_of (receipts ?s) (rc_eventId (rs ! ?k)) = Some (rs ! ?k)" by blast
    moreover have "rc_eventId (rs ! ?k) = eventId e \<and> receipt_seq (rs ! ?k) = event_seq e"
      using publishable_receipts(5) [OF assms(2) k(1)] k(2) by simp
    moreover have "event_seq e = i" using numbered_nth [OF p(2) k(1)] True k(2) by simp
    ultimately show ?thesis by force
  next
    case False
    then have "map_of (st_events s) i = Some e" using e unfolding events_of_publish [OF assms(2)] by (simp only: if_False)
    then obtain r where "map_of (receipts s) (eventId e) = Some r" "receipt_seq r = i" using o unfolding receipts_ok_def by blast
    with receipts_of_publish_old [OF assms(2)] show ?thesis by blast
  qed
  ultimately show ?thesis unfolding receipts_ok_def by blast
qed

lemma outbox_ok_publish:
  assumes "branch_ok pf s" "publishable pf s h text meta es rs x"
  shows "outbox_ok pf (publish s h text meta es rs x)"
proof -
  let ?s = "publish s h text meta es rs x"
  from assms(1) have o: "outbox_ok pf s" by (simp add: branch_ok_def)
  note p = publishableD [OF assms(2)]
  have q: "query_of h = query_of (head s)" by (simp add: query_of_def p(3,4))
  have x: "captured_query x = query_of h" and shape: "case x of
        Commit_Outbox c \<Rightarrow> co_id c = json_key [js ''branch.commit.v1'', rootDropId (target h), branchId (target h),
            rc_eventId (co_receipt c)] \<and> rs = [co_receipt c]
      | Batch_Outbox b \<Rightarrow> bo_id b = stringify (number_text pf) (JArr [JStr (js ''branch.batch-commit.v1''),
            JStr (rootDropId (target h)), JStr (branchId (target h)), j_int (snapshotId (hd_version h))]) \<and>
          cq_version b = hd_version h
      | _ \<Rightarrow> False"
    using assms(2) unfolding publishable_def by blast+
  have single: "map_of (receipts ?s) (rc_eventId r) = Some r" if "rs = [r]" for r
    by (rule receipts_of_publish_new [OF assms(2)]) (simp add: that)
  show ?thesis
    unfolding outbox_ok_def
  proof (intro allI impI)
    fix k y assume y: "map_of (st_outbox ?s) k = Some y"
    show "outbox_id y = k \<and> captured_query y = query_of (head ?s) \<and> (case y of
        Commit_Outbox c \<Rightarrow>
          k = json_key [js ''branch.commit.v1'', rootDropId (target (head ?s)), branchId (target (head ?s)),
            rc_eventId (co_receipt c)] \<and> map_of (receipts ?s) (rc_eventId (co_receipt c)) = Some (co_receipt c)
      | Batch_Outbox b \<Rightarrow>
          k = stringify (number_text pf) (JArr [JStr (js ''branch.batch-commit.v1''),
            JStr (rootDropId (target (head ?s))), JStr (branchId (target (head ?s))), j_int (snapshotId (cq_version b))]) \<and>
          snapshotId (cq_version b) \<le> snapshotId (ver ?s)
      | _ \<Rightarrow> False)"
    proof (cases "k = outbox_id x")
      case True
      then have "y = x" using y by simp
      with True x shape single show ?thesis by (cases x) simp_all
    next
      case False
      then have "map_of (st_outbox s) k = Some y" using y by simp
      with o have "outbox_id y = k" "captured_query y = query_of (head s)" and sh: "case y of
        Commit_Outbox c \<Rightarrow>
          k = json_key [js ''branch.commit.v1'', rootDropId (target (head s)), branchId (target (head s)),
            rc_eventId (co_receipt c)] \<and> map_of (receipts s) (rc_eventId (co_receipt c)) = Some (co_receipt c)
      | Batch_Outbox b \<Rightarrow>
          k = stringify (number_text pf) (JArr [JStr (js ''branch.batch-commit.v1''),
            JStr (rootDropId (target (head s))), JStr (branchId (target (head s))), j_int (snapshotId (cq_version b))]) \<and>
          snapshotId (cq_version b) \<le> snapshotId (ver s)
      | _ \<Rightarrow> False" unfolding outbox_ok_def by blast+
      then show ?thesis
        by (cases y) (simp_all add: q p(3-5) receipts_of_publish_old [OF assms(2)])
    qed
  qed
qed

text \<open>Publication keeps the whole invariant and extends the abstract log.\<close>

lemma stream_ok_publish:
  assumes ok: "branch_ok pf s" and pub: "publishable pf s h text meta es rs x"
  shows "stream_ok (publish s h text meta es rs x)"
proof -
  let ?s = "publish s h text meta es rs x"
  let ?n = "snapshotId (ver s)" and ?q = "eventSeq (ver s)"
  from ok have h: "head_ok s" and e: "events_ok s" and m: "metadata_ok s" and st: "stream_ok s"
    and vs: "version_at s ?n = ver s" by (simp_all add: branch_ok_def snapshots_ok_def)
  note p = publishableD [OF pub] and v = head_ok_versions [OF h] and look = events_of_publish [OF pub]
  have wire: "list_all (wire_event h) es" "wire_snapshot h meta" "sn_eventIds meta = map eventId es"
    "\<forall>e \<in> set es. event_snapshotId e = Some (?n + 1)"
    using pub p(5) unfolding publishable_def wire_publication_def by (auto dest: list_all2_mem_left)
  have ver: "version_at ?s i = (if i = ?n + 1 then hd_version h else version_at s i)" for i
    by (simp add: text_at_publish p(5))
  have tg: "wire_event h = wire_event (head s)" "wire_snapshot h = wire_snapshot (head s)"
    by (simp_all add: fun_eq_iff wire_event_def wire_snapshot_def p(3))
  have len: "0 < length es" using p(1) by simp
  have upto: "eventSeq (version_at s i) \<le> ?q" if "0 \<le> i" "i \<le> ?n" for i
    using ok that by (intro version_at_upto) auto
  have mono: "eventSeq (version_at ?s i) < eventSeq (version_at ?s (i + 1))" if "0 \<le> i" "i < snapshotId (ver ?s)" for i
  proof (cases "i = ?n")
    case True
    then show ?thesis using len by (simp add: ver vs p(6))
  next
    case False
    with that have "i < ?n" by (simp add: p(5))
    with that st show ?thesis by (simp add: ver stream_ok_def)
  qed
  have events: "wire_event h ev \<and> placed_event ?s i ev" if "map_of (st_events ?s) i = Some ev" for i ev
  proof (cases "?q < i \<and> i \<le> ?q + int (length es)")
    case True
    with that have ev: "ev \<in> set es" by (auto simp: look)
    then have "placed_event ?s i ev"
      using wire(4) True v(2) unfolding placed_event_def by (intro exI [of _ "?n + 1"]) (simp add: ver vs p(5,6))
    with wire(1) ev show ?thesis by (auto simp: list_all_iff)
  next
    case False
    with that have "map_of (st_events s) i = Some ev" by (auto simp: look)
    with st have "wire_event (head s) ev" "placed_event s i ev" by (auto simp: stream_ok_def)
    then obtain n where n: "event_snapshotId ev = Some n" "1 \<le> n" "n \<le> ?n" "eventSeq (version_at s (n - 1)) < i"
      "i \<le> eventSeq (version_at s n)" by (auto simp: placed_event_def)
    then have "placed_event ?s i ev" unfolding placed_event_def by (intro exI [of _ n]) (simp add: ver p(5))
    with \<open>wire_event (head s) ev\<close> show ?thesis by (simp add: tg)
  qed
  have snaps: "wire_snapshot h sm \<and> patched_snapshot ?s i sm" if "map_of (snapshotMetadata ?s) i = Some sm" for i sm
  proof (cases "i = ?n + 1")
    case True
    with that have sm: "sm = meta" by (simp add: p(5))
    have "map (\<lambda>j. the (map_of (st_events ?s) j)) [?q + 1..?q + int (length es)] = es"
    proof -
      have "map (\<lambda>j. the (map_of (st_events ?s) j)) [?q + 1..?q + int (length es)]
          = map (\<lambda>j. es ! nat (j - (?q + 1))) [?q + 1..?q + int (length es)]"
        by (rule map_cong [OF refl]) (simp add: look)
      also have "\<dots> = es" using numbered_map [of es "?q + 1"] by (simp add: add.assoc add.commute)
      finally show ?thesis .
    qed
    from arg_cong [OF this, of "map eventId"]
    have "map (\<lambda>j. eventId (the (map_of (st_events ?s) j))) [?q + 1..?q + int (length es)] = map eventId es"
      by (simp add: comp_def)
    with sm show ?thesis using wire(2,3) True v(2) by (simp add: patched_snapshot_def ver vs p(6))
  next
    case False
    with that have sm: "map_of (snapshotMetadata s) i = Some sm" by (simp add: p(5))
    then have i: "0 \<le> i" "i \<le> ?n" using m unfolding metadata_ok_def by (metis atLeastAtMost_iff domI)+
    have "map (\<lambda>j. eventId (the (map_of (st_events ?s) j))) [a..eventSeq (version_at s i)] =
        map (\<lambda>j. eventId (the (map_of (st_events s) j))) [a..eventSeq (version_at s i)]" for a
      using upto [OF i] by (intro map_cong refl) (simp add: look)
    with st sm i show ?thesis by (auto simp: stream_ok_def patched_snapshot_def ver tg)
  qed
  show ?thesis using mono events snaps st v(2) unfolding stream_ok_def by (simp add: ver)
qed

lemma branch_ok_publish:
  assumes "branch_ok pf s" "publishable pf s h text meta es rs x" "platform_ok pf"
  shows "branch_ok pf (publish s h text meta es rs x)"
    and "log_of (publish s h text meta es rs x) = (fst (log_of s) @ es, text)"
proof -
  from assms(1) have h: "head_ok s" and e: "events_ok s" by (simp_all add: branch_ok_def)
  show "branch_ok pf (publish s h text meta es rs x)"
    unfolding branch_ok_def
    using head_ok_publish [OF h assms(2,3)] events_ok_publish [OF e h assms(2)] snapshots_ok_publish [OF assms]
      metadata_ok_publish [OF assms(1,2)] receipts_ok_publish [OF assms(1,2)] outbox_ok_publish [OF assms(1,2)]
      stream_ok_publish [OF assms(1,2)] by blast
  show "log_of (publish s h text meta es rs x) = (fst (log_of s) @ es, text)"
    by (simp add: log_of_def stored_events_publish(2) [OF e h assms(2)] text_at_publish)
qed

section \<open>Prepared commits are publications\<close>

lemma payload_hash_placed [simp]:
  "event_payload_hash pf (e \<lparr>event_seq := n, event_snapshotId := m\<rparr>) = event_payload_hash pf e"
  by (simp add: event_payload_hash_def event_identity_text_def identity_json_def)

lemma head_not_corrupt:
  assumes "\<not> head_corrupt t h"
  shows "t = target h"
  using assms by (auto simp: head_corrupt_def intro: BranchStateTarget.equality)

definition append_head :: "BranchAppendRecord \<Rightarrow> BranchPreparedCommit \<Rightarrow> BranchStateHead" where
  "append_head c pc = \<lparr>target = target c, placement = placement c, hd_branch = pc_branch pc,
     hd_version = rc_version (pc_receipt pc)\<rparr>"

lemma append_is_publish:
  assumes "prepareBranchCommit pf c (head s) (text_at s (snapshotId (ver s))) now = Inr pc"
    and c: "captured_command pf c" and fresh: "map_of (receipts s) (eventId (event c)) = None"
  shows "append_state s c pc = publish s (append_head c pc) (pc_content pc) (pc_snapshot pc) [pc_event pc] [pc_receipt pc]
      (Commit_Outbox (pc_outbox pc))"
    and "publishable pf s (append_head c pc) (pc_content pc) (pc_snapshot pc) [pc_event pc] [pc_receipt pc]
      (Commit_Outbox (pc_outbox pc))"
proof -
  note p = prepareBranchCommit_Inr [OF assms(1)]
  have t: "target c = target (head s)" using p(1) by (rule head_not_corrupt)
  have receipt: "rc_eventId (pc_receipt pc) = eventId (event c)" "target (pc_receipt pc) = target c"
    "placement (pc_receipt pc) = placement c" "rc_payloadHash (pc_receipt pc) = payloadHash c" "rc_eventSeq (pc_receipt pc) = None"
    by (subst p(12), simp)+
  have snap: "sn_snapshotId (pc_snapshot pc) = snapshotId (ver s) + 1" "sn_sourceContentHash (pc_snapshot pc) = Some (hashNulldownSourceContent pf (pc_content pc))"
    "sn_textLength (pc_snapshot pc) = int (length (pc_content pc))" "sn_parentSnapshotId (pc_snapshot pc) = Some (snapshotId (ver s))"
    "sn_patchStartSeq (pc_snapshot pc) = Some (eventSeq (ver s) + 1)" "sn_patchEndSeq (pc_snapshot pc) = Some (eventSeq (ver s) + 1)"
    by (subst p(14), simp)+
  have out: "co_id (pc_outbox pc) = json_key [js ''branch.commit.v1'', rootDropId (target c), branchId (target c), eventId (event c)]"
    "co_receipt (pc_outbox pc) = pc_receipt pc" by (subst p(15), simp)+
  have v: "snapshotId (rc_version (pc_receipt pc)) = snapshotId (ver s) + 1" "eventSeq (rc_version (pc_receipt pc)) = eventSeq (ver s) + 1"
    "sourceContentHash (rc_version (pc_receipt pc)) = hashNulldownSourceContent pf (pc_content pc)"
    by (simp_all add: p(10) next_version_def)
  have safe: "is_safe_integer (1 + snapshotId (ver s))" "is_safe_integer (2 + eventSeq (ver s))"
    using p(7,8) by (simp_all add: add.commute)
  have pay: "payloadHash c = event_payload_hash pf (event c)" using c by (simp add: captured_command_def)
  have wire: "wire_event (append_head c pc) (pc_event pc)"
  proof -
    from c p(3) have "0 \<le> snapshotId (ver s)" "- 1 \<le> eventSeq (ver s)" by (auto simp: captured_command_def valid_version_def)
    with c p(3) show ?thesis
      by (auto simp: wire_event_def p(11) append_head_def captured_command_def captured_event_def valid_event_def)
  qed
  have "wire_snapshot (append_head c pc) (pc_snapshot pc)" "sn_eventIds (pc_snapshot pc) = [eventId (pc_event pc)]"
    unfolding wire_snapshot_def by (simp_all add: p(11,14) append_head_def)
  with wire have wire': "wire_publication (append_head c pc) (pc_snapshot pc) [pc_event pc]" by (simp add: wire_publication_def)
  show "append_state s c pc = publish s (append_head c pc) (pc_content pc) (pc_snapshot pc) [pc_event pc] [pc_receipt pc]
      (Commit_Outbox (pc_outbox pc))"
    by (simp add: append_state_def publish_def append_head_def snap v receipt p(11))
  show "publishable pf s (append_head c pc) (pc_content pc) (pc_snapshot pc) [pc_event pc] [pc_receipt pc]
      (Commit_Outbox (pc_outbox pc))"
    unfolding publishable_def
    using wire'
    by (simp add: append_head_def t p(2) safe p(9) p(10,11,13) snap v receipt out pay fresh receipt_seq_def
        query_of_def next_version_def algebra_simps) (rule exI [of _ now], rule refl)
qed

text \<open>An envelope with something new is a publication as well.\<close>

definition batch_head :: "BranchBatchAppendRecord \<Rightarrow> PreparedBranchBatch \<Rightarrow> BranchStateHead" where
  "batch_head c pb = \<lparr>target = target c, placement = placement c, hd_branch = ba_branch (pb_result pb),
     hd_version = pb_version pb\<rparr>"

lemma batch_receipts_pair:
  "list_all2 (\<lambda>e r. rc_eventId r = eventId e \<and> receipt_seq r = event_seq e \<and> rc_version r = v \<and>
       target r = target c \<and> placement r = placement c \<and> rc_payloadHash r = event_payload_hash pf e \<and>
       event_snapshotId e = Some snap)
     (number_events n snap (map bi_event is)) (map (batch_receipt c v) (zip (number_events n snap (map bi_event is)) is))"
  if "\<forall>i \<in> set is. bi_payloadHash i = event_payload_hash pf (bi_event i)"
  using that by (induction "is" arbitrary: n) (simp_all add: batch_receipt_def receipt_seq_def)

text \<open>The events of a captured envelope, numbered as they are stored.\<close>

definition captured_batch :: "BranchBatchAppendRecord \<Rightarrow> bool" where
  "captured_batch c \<longleftrightarrow> (\<exists>i. captureBranchBatchAppend i = Inr c)"

lemma captured_batch_wire:
  assumes "captured_batch c"
  shows "\<forall>e \<in> set (events c). captured_event e \<and> dropId e = rootDropId (target c)"
  using assms captured_batch_events(6) unfolding captured_batch_def by blast

lemma numbered_wire:
  assumes "\<forall>i \<in> set is. captured_event (bi_event i) \<and> dropId (bi_event i) = rootDropId (target h)"
    and "batch_follows (n - 1) is" "0 \<le> n" "0 \<le> snap"
  shows "list_all (wire_event h) (number_events n snap (map bi_event is))"
  using assms
proof (induction "is" arbitrary: n)
  case (Cons i "is")
  from Cons.prems have "captured_event (bi_event i)" "dropId (bi_event i) = rootDropId (target h)" "0 \<le> n" "0 \<le> snap"
    "opt_all (\<lambda>m. m = n - 1) (Option.bind (event_metadata (bi_event i)) meta_followsSeq)" by simp_all
  then have "wire_event h ((bi_event i) \<lparr>event_seq := n, event_snapshotId := Some snap\<rparr>)"
    by (auto simp: wire_event_def captured_event_def valid_event_def)
  with Cons show ?case by simp
qed simp

lemma batch_is_publish:
  assumes prep: "prepareBranchBatch pf c (hashBranchBatchEvents pf (events c)) (head s) (text_at s (snapshotId (ver s)))
      (receipts s) now = Inr pb"
    and snap: "ba_snapshot (pb_result pb) = Some meta" and ob: "pb_outbox pb = Some x"
    and cap: "captured_batch c"
  shows "batch_state s c pb meta x = publish s (batch_head c pb) (ba_content (pb_result pb)) meta
      (ba_acceptedEvents (pb_result pb)) (pb_receipts pb) (Batch_Outbox x)"
    and "publishable pf s (batch_head c pb) (ba_content (pb_result pb)) meta (ba_acceptedEvents (pb_result pb))
      (pb_receipts pb) (Batch_Outbox x)"
proof -
  show "batch_state s c pb meta x = publish s (batch_head c pb) (ba_content (pb_result pb)) meta
      (ba_acceptedEvents (pb_result pb)) (pb_receipts pb) (Batch_Outbox x)"
    by (simp add: batch_state_def publish_def batch_head_def)
  let ?is = "hashBranchBatchEvents pf (events c)"
  from prep obtain u a pb0 where hc: "\<not> head_corrupt (target c) (head s)" and pl: "placement c = placement (head s)"
    and ex: "\<not> batch_sequence_exhausted (head s)" and fo: "batch_follows (eventSeq (ver s)) a"
    and cl: "batch_classify (receipts s) ?is [] [] = Inr (u, a)"
    and pb0: "(if a = [] then Inr (batch_nothing_new c (head s) (text_at s (snapshotId (ver s))))
        else batch_publication pf c a (head s) (text_at s (snapshotId (ver s))) now) = Inr pb0"
    and pb: "pb = with_acknowledgements (receipts s) (map fst u) pb0"
    by (rule prepareBranchBatch_Inr)
  have a: "a \<noteq> []" using snap pb0 by (auto simp: pb batch_nothing_new_def)
  with pb0 have b: "batch_publication pf c a (head s) (text_at s (snapshotId (ver s))) now = Inr pb0" by simp
  note q = batch_publication_Inr [OF b] and acc = batch_classify_accepted [OF cl]
  have t: "target c = target (head s)" using hc by (rule head_not_corrupt)
  have hash: "\<forall>i \<in> set a. bi_payloadHash i = event_payload_hash pf (bi_event i)"
    using acc(5) by (auto simp: hashBranchBatchEvents_def)
  let ?es = "number_events (eventSeq (ver s) + 1) (snapshotId (ver s) + 1) (map bi_event a)"
  have meta: "meta = the (ba_snapshot (pb_result pb0))" "ba_snapshot (pb_result pb0) = Some meta" using snap by (simp_all add: pb)
  have x: "target x = target c" "placement x = placement c" "cq_version x = pb_version pb0"
    "bo_id x = stringify (number_text pf) (JArr [JStr (js ''branch.batch-commit.v1''),
         JStr (rootDropId (target c)), JStr (branchId (target c)), j_int (snapshotId (ver s) + 1)])"
    using q(9) ob by (auto simp: pb)
  have v: "snapshotId (pb_version pb0) = snapshotId (ver s) + 1"
    "eventSeq (pb_version pb0) = eventSeq (ver s) + int (length a)" by (simp_all add: q(5) next_version_def)
  have l: "list_all2 (\<lambda>e r. rc_eventId r = eventId e \<and> receipt_seq r = event_seq e \<and> rc_version r = pb_version pb0 \<and>
       target r = target (head s) \<and> placement r = placement (head s) \<and> rc_payloadHash r = event_payload_hash pf e \<and>
       event_snapshotId e = Some (snapshotId (ver s) + 1)) ?es (pb_receipts pb0)"
    using batch_receipts_pair [OF hash, of "pb_version pb0" c] by (simp add: q(3,6) t pl)
  have ids: "map eventId ?es = map identity_id a" by (simp add: identity_id_def)
  have "\<forall>e \<in> set ?es. map_of (receipts s) (eventId e) = None"
  proof
    fix e assume "e \<in> set ?es"
    then have "eventId e \<in> set (map eventId ?es)" unfolding set_map by (rule imageI)
    then have "eventId e \<in> identity_id ` set a" unfolding ids by simp
    with acc(7) show "map_of (receipts s) (eventId e) = None" by auto
  qed
  moreover have "apply_events ?es (text_at s (snapshotId (ver s))) = Inr (ba_content (pb_result pb0))"
    using q(4) apply_events_cong [of ?es "map bi_event a"] by simp
  moreover have "map event_seq ?es = map (\<lambda>i. eventSeq (ver s) + 1 + int i) [0..<length ?es]" by (simp add: number_events_seqs)
  moreover have "wire_publication (batch_head c pb) meta (ba_acceptedEvents (pb_result pb))"
  proof -
    have "list_all (wire_event (batch_head c pb)) ?es"
    proof (rule numbered_wire)
      show "\<forall>i \<in> set a. captured_event (bi_event i) \<and> dropId (bi_event i) = rootDropId (target (batch_head c pb))"
        using acc(5) captured_batch_wire [OF cap] by (auto simp: hashBranchBatchEvents_def batch_head_def)
    qed (use ex fo in \<open>auto simp: batch_sequence_exhausted_def Let_def\<close>)
    moreover have "wire_snapshot (batch_head c pb) meta" "sn_eventIds meta = map identity_id a"
      using meta(2) by (auto simp: wire_snapshot_def q(8) batch_head_def)
    ultimately show ?thesis using ids by (simp add: wire_publication_def pb q(3) del: number_events_ops)
  qed
  ultimately show "publishable pf s (batch_head c pb) (ba_content (pb_result pb)) meta (ba_acceptedEvents (pb_result pb))
      (pb_receipts pb) (Batch_Outbox x)"
    unfolding publishable_def
    using q(1,2) q(8) meta(2) l acc(6) a
    by (auto simp: batch_head_def pb t pl q(3) v x q(7) ids query_of_def q(5) [symmetric] simp del: number_events_ops)
qed

end
