(* ===== verification/Plane_State.thy ===== *)
theory Plane_State
  imports Branch_Log
begin

text \<open>
  The full invariant of one branch (\<open>state_ok\<close>: text history, memory and runtime facts), the order in
  which its states evolve (\<open>extends\<close>), and for each of the three publications (text, memory, fact) that
  it keeps the one and moves up in the other. \<open>progress\<close> strictly grows with every publication, so a
  branch never returns to an earlier state; this justifies reading the identity test of
  \<^verbatim>\<open>appendBatch\<close> as equality.
\<close>

section \<open>Memory and facts\<close>

definition memory_entry_ok :: "platform \<Rightarrow> State \<Rightarrow> BranchNullMemOutbox \<Rightarrow> bool" where
  "memory_entry_ok pf s e \<longleftrightarrow>
     (let r = no_result e in
      no_id e = nullmem_outbox_id pf r \<and> query_of r = query_of (head s) \<and> query_of (nr_head r) = query_of (head s) \<and>
      1 \<le> nr_memoryRevision r \<and> nr_memoryRevision r \<le> mem_revision (nullmem s) \<and>
      (\<exists>c. map_of (snapshots s) (snapshotId (hd_version (nr_head r))) = Some c \<and> cq_version c = hd_version (nr_head r)))"

definition memory_ok :: "platform \<Rightarrow> State \<Rightarrow> bool" where
  "memory_ok pf s \<longleftrightarrow>
     nullmem_ok pf (head s) (mem_revision (nullmem s)) (mem_records (nullmem s)) (mem_outbox (nullmem s)) \<and>
     (\<forall>e \<in> set (mem_outbox (nullmem s)). memory_entry_ok pf s e)"

definition fact_entry_ok :: "platform \<Rightarrow> State \<Rightarrow> nat \<Rightarrow> jstring \<times> jstring \<times> BranchRuntimeFactReceipt \<Rightarrow> bool" where
  "fact_entry_ok pf s i = (\<lambda>(k, intent, r).
     fe_seq (fr_event r) = int i \<and> k = fr_identity r \<and> fr_payloadHash r = hashRuntimeFactIntent pf intent \<and>
     validateRuntimeFactReceipt pf r (head s) False = Inr ())"

definition facts_ok :: "platform \<Rightarrow> State \<Rightarrow> bool" where
  "facts_ok pf s \<longleftrightarrow> jsmap_wf (runtimeFacts s) \<and>
     (\<forall>i < length (runtimeFacts s). fact_entry_ok pf s i (runtimeFacts s ! i)) \<and>
     distinct (map (\<lambda>(_, _, r). fe_factId (fr_event r)) (runtimeFacts s)) \<and>
     distinct (map (\<lambda>(_, _, r). fr_key r) (runtimeFacts s)) \<and>
     (\<forall>k x. map_of (runtimeOutbox s) k = Some x \<longrightarrow>
        fo_id x = k \<and> x = runtimeFactOutbox pf (head s) (fo_receipt x) \<and>
        map_of (runtimeFacts s) (fr_identity (fo_receipt x)) \<noteq> None)"

definition state_ok :: "platform \<Rightarrow> State \<Rightarrow> bool" where
  "state_ok pf s \<longleftrightarrow> branch_ok pf s \<and> memory_ok pf s \<and> facts_ok pf s"

section \<open>Canonical outbox records of a state\<close>

definition state_outbox :: "State \<Rightarrow> jstring \<Rightarrow> BranchCanonicalOutbox option" where
  "state_outbox s i = (case map_of (st_outbox s) i of
     Some x \<Rightarrow> Some x
   | None \<Rightarrow> (case map_of (runtimeOutbox s) i of
       Some x \<Rightarrow> Some (Fact_Outbox x)
     | None \<Rightarrow> map_option Memory_Outbox (find (\<lambda>entry. no_id entry = i) (mem_outbox (nullmem s)))))"

lemma canonicalOutboxById_bind:
  "canonicalOutboxById p t i = Option.bind (map_of (states p) (key t)) (\<lambda>s. state_outbox s i)"
  by (simp add: canonicalOutboxById_def state_outbox_def split: option.split)

text \<open>The id of a canonical record names its kind and its branch.\<close>

definition names_outbox :: "platform \<Rightarrow> BranchStateTarget \<Rightarrow> BranchCanonicalOutbox \<Rightarrow> json list \<Rightarrow> bool" where
  "names_outbox pf t x rest \<longleftrightarrow> outbox_id x = stringify (number_text pf)
     (JArr (JStr (outbox_kind x) # JStr (rootDropId t) # JStr (branchId t) # rest))"

lemma names_outbox_inj:
  assumes "platform_ok pf" "names_outbox pf t x r" "names_outbox pf u y q" "outbox_id x = outbox_id y"
  shows "outbox_kind x = outbox_kind y \<and> t = u \<and> r = q"
proof -
  have n: "number_printer (number_text pf)" using assms(1) by (simp add: platform_ok_def)
  from assms(2-4) have "stringify (number_text pf) (JArr (JStr (outbox_kind x) # JStr (rootDropId t) # JStr (branchId t) # r))
      = stringify (number_text pf) (JArr (JStr (outbox_kind y) # JStr (rootDropId u) # JStr (branchId u) # q))"
    unfolding names_outbox_def by metis
  then show ?thesis unfolding number_printer.stringify_inj [OF n] by (simp add: BranchStateTarget.equality)
qed

definition outbox_rest :: "BranchCanonicalOutbox \<Rightarrow> json list" where
  "outbox_rest x = (case x of
     Commit_Outbox c \<Rightarrow> [JStr (rc_eventId (co_receipt c))]
   | Batch_Outbox b \<Rightarrow> [j_int (snapshotId (cq_version b))]
   | Fact_Outbox f \<Rightarrow> [j_int (routingVersion (placement f)), j_int (generation (placement f)), JStr (fr_identity (fo_receipt f))]
   | Memory_Outbox e \<Rightarrow> [j_int (routingVersion (placement (no_result e))), j_int (generation (placement (no_result e))),
       j_int (nr_memoryRevision (no_result e))])"

lemma json_key_stringify: "json_key ks = stringify num (JArr (map JStr ks))"
  by (rule stringify_strings [symmetric])

lemma runtimeFactOutbox_names:
  "names_outbox pf (target q) (Fact_Outbox (runtimeFactOutbox pf q r)) (outbox_rest (Fact_Outbox (runtimeFactOutbox pf q r)))"
  by (simp add: names_outbox_def outbox_rest_def runtimeFactOutbox_def canonicalRuntimeFactJson_def j_int_def)

lemma state_outbox_cases:
  assumes "state_outbox s i = Some x"
  obtains "map_of (st_outbox s) i = Some x"
  | f where "x = Fact_Outbox f" "map_of (runtimeOutbox s) i = Some f"
  | e where "x = Memory_Outbox e" "e \<in> set (mem_outbox (nullmem s))" "no_id e = i"
  using assms unfolding state_outbox_def
  by (auto split: option.splits simp: find_Some_iff)

lemma state_outbox_ok:
  assumes "state_ok pf s" "state_outbox s i = Some x"
  shows "outbox_id x = i" "captured_query x = query_of (head s)" "names_outbox pf (target (head s)) x (outbox_rest x)"
proof -
  have o: "outbox_ok pf s" and f: "facts_ok pf s" and m: "memory_ok pf s"
    using assms(1) by (simp_all add: state_ok_def branch_ok_def)
  from assms(2) have "outbox_id x = i \<and> captured_query x = query_of (head s) \<and> names_outbox pf (target (head s)) x (outbox_rest x)"
  proof (cases rule: state_outbox_cases)
    case 1
    with o have "outbox_id x = i" "captured_query x = query_of (head s)" and c: "case x of
        Commit_Outbox c \<Rightarrow>
          i = json_key [js ''branch.commit.v1'', rootDropId (target (head s)), branchId (target (head s)),
            rc_eventId (co_receipt c)] \<and> map_of (receipts s) (rc_eventId (co_receipt c)) = Some (co_receipt c)
      | Batch_Outbox b \<Rightarrow>
          i = stringify (number_text pf) (JArr [JStr (js ''branch.batch-commit.v1''),
            JStr (rootDropId (target (head s))), JStr (branchId (target (head s))), j_int (snapshotId (cq_version b))]) \<and>
          snapshotId (cq_version b) \<le> snapshotId (ver s)
      | _ \<Rightarrow> False" unfolding outbox_ok_def by blast+
    then show ?thesis
      by (cases x) (simp_all add: names_outbox_def outbox_rest_def json_key_stringify [of _ "number_text pf"])
  next
    case (2 y)
    with f have "fo_id y = i" and y: "y = runtimeFactOutbox pf (head s) (fo_receipt y)" unfolding facts_ok_def by blast+
    moreover have "query_of y = query_of (head s)" by (subst y) (simp add: runtimeFactOutbox_def query_of_def)
    ultimately show ?thesis using 2(1) runtimeFactOutbox_names [of pf "head s" "fo_receipt y"] by simp
  next
    case (3 e)
    with m have "memory_entry_ok pf s e" unfolding memory_ok_def by blast
    then have "query_of (no_result e) = query_of (head s)" "query_of (nr_head (no_result e)) = query_of (head s)"
      "no_id e = nullmem_outbox_id pf (no_result e)" by (simp_all add: memory_entry_ok_def Let_def)
    then show ?thesis using 3
      by (simp add: names_outbox_def outbox_rest_def nullmem_outbox_id_def query_of_def)
  qed
  then show "outbox_id x = i" "captured_query x = query_of (head s)" "names_outbox pf (target (head s)) x (outbox_rest x)" by blast+
qed

section \<open>The order of states\<close>

definition extends :: "State \<Rightarrow> State \<Rightarrow> bool" where
  "extends s s' \<longleftrightarrow>
     query_of (head s') = query_of (head s) \<and> eventSeq (ver s) \<le> eventSeq (ver s') \<and>
     (head s' = head s \<or> snapshotId (ver s) < snapshotId (ver s')) \<and>
     map_of (st_events s) \<subseteq>\<^sub>m map_of (st_events s') \<and> map_of (snapshots s) \<subseteq>\<^sub>m map_of (snapshots s') \<and>
     map_of (snapshotMetadata s) \<subseteq>\<^sub>m map_of (snapshotMetadata s') \<and>
     map_of (receipts s) \<subseteq>\<^sub>m map_of (receipts s') \<and> state_outbox s \<subseteq>\<^sub>m state_outbox s' \<and>
     map_of (runtimeFacts s) \<subseteq>\<^sub>m map_of (runtimeFacts s')"

text \<open>What every publication increases.\<close>

definition progress :: "State \<Rightarrow> int" where
  "progress s = snapshotId (ver s) + mem_revision (nullmem s) + int (length (runtimeFacts s))"

lemma extends_refl [simp, intro]: "extends s s"
  by (simp add: extends_def)

lemma extends_trans: "extends a b \<Longrightarrow> extends b c \<Longrightarrow> extends a c"
  unfolding extends_def by (auto intro: map_le_trans)

lemma extends_head: "extends s s' \<Longrightarrow> target (head s') = target (head s) \<and> placement (head s') = placement (head s)"
  by (simp add: extends_def query_of_def)

section \<open>Initial states\<close>

lemma initial_state_ok:
  assumes "coherent_head h" "routingVersion (placement h) = 1" "snapshotId (hd_version h) = 0"
    and "sourceContentHash (hd_version h) = hashNulldownSourceContent pf t"
  shows "state_ok pf (initial_state h (initialBranchSnapshot h t) t)"
proof -
  let ?s = "initial_state h (initialBranchSnapshot h t) t"
  have v: "eventSeq (hd_version h) = - 1" "valid_version (hd_version h)"
    using assms(1,3) by (simp_all add: coherent_head_def head_consistent_def)
  have f: "head ?s = h" "snapshots ?s = [(0, \<lparr>target = target h, placement = placement h, cq_version = hd_version h, content = t\<rparr>)]"
    "snapshotMetadata ?s = [(0, initialBranchSnapshot h t)]" "st_events ?s = []" "receipts ?s = []" "st_outbox ?s = []"
    "runtimeFacts ?s = []" "runtimeOutbox ?s = []" "nullmem ?s = \<lparr>mem_revision = 0, mem_records = [], mem_outbox = []\<rparr>"
    by (simp_all add: initial_state_def)
  have look: "map_of [(0 :: int, a)] i = Some b \<longleftrightarrow> i = 0 \<and> b = a" for a b :: 'x and i by auto
  have "head_ok ?s" using assms(1,2) by (simp add: head_ok_def f)
  moreover have "events_ok ?s" by (simp add: events_ok_def f v)
  moreover have "snapshots_ok pf ?s"
    using assms(3,4) v unfolding snapshots_ok_def text_at_def version_at_def stored_events_def f look by simp
  moreover have "metadata_ok ?s"
    using assms(3) unfolding metadata_ok_def text_at_def version_at_def f look by (simp add: initialBranchSnapshot_def)
  moreover have "receipts_ok pf ?s" "outbox_ok pf ?s" by (simp_all add: receipts_ok_def outbox_ok_def f)
  moreover have "stream_ok ?s"
    using assms(3) v(1) unfolding stream_ok_def wire_snapshot_def patched_snapshot_def version_at_def f look
    by (simp add: initialBranchSnapshot_def)
  moreover have "memory_ok pf ?s"
    by (simp add: memory_ok_def nullmem_ok_def records_ok_def f is_safe_integer_def max_safe_integer_def)
  moreover have "facts_ok pf ?s" by (simp add: facts_ok_def f)
  ultimately show ?thesis by (simp add: state_ok_def branch_ok_def)
qed

section \<open>Publishing text\<close>

lemma find_append_Some: "find P xs = Some y \<Longrightarrow> find P (xs @ ys) = Some y"
  by (induction xs) (auto split: if_splits)

lemma fresh_outbox:
  assumes "state_ok pf s" "platform_ok pf" "names_outbox pf (target (head s)) x (outbox_rest x)"
    and "\<And>y. outbox_kind y = outbox_kind x \<Longrightarrow> outbox_rest y = outbox_rest x \<Longrightarrow> state_outbox s (outbox_id x) \<noteq> Some y"
  shows "state_outbox s (outbox_id x) = None"
proof (rule ccontr)
  assume "state_outbox s (outbox_id x) \<noteq> None"
  then obtain y where y: "state_outbox s (outbox_id x) = Some y" by blast
  note k = state_outbox_ok [OF assms(1) y]
  from names_outbox_inj [OF assms(2) k(3) assms(3) k(1)] assms(4) [of y] y show False by simp
qed

lemma publish_outbox_fresh:
  assumes "state_ok pf s" "platform_ok pf" "publishable pf s h text meta es rs x"
  shows "state_outbox s (outbox_id x) = None"
proof (rule fresh_outbox [OF assms(1,2)])
  note p = publishableD [OF assms(3)] and r = publishable_receipts [OF assms(3)]
  have o: "outbox_ok pf s" using assms(1) by (simp add: state_ok_def branch_ok_def)
  have shape: "case x of
        Commit_Outbox c \<Rightarrow> co_id c = json_key [js ''branch.commit.v1'', rootDropId (target h), branchId (target h),
            rc_eventId (co_receipt c)] \<and> rs = [co_receipt c]
      | Batch_Outbox b \<Rightarrow> bo_id b = stringify (number_text pf) (JArr [JStr (js ''branch.batch-commit.v1''),
            JStr (rootDropId (target h)), JStr (branchId (target h)), j_int (snapshotId (hd_version h))]) \<and>
          cq_version b = hd_version h
      | _ \<Rightarrow> False"
    using assms(3) unfolding publishable_def by blast
  then show "names_outbox pf (target (head s)) x (outbox_rest x)"
    by (cases x) (simp_all add: names_outbox_def outbox_rest_def p(3) json_key_stringify [of _ "number_text pf"])
  fix y assume y: "outbox_kind y = outbox_kind x" "outbox_rest y = outbox_rest x"
  show "state_outbox s (outbox_id x) \<noteq> Some y"
  proof
    assume "state_outbox s (outbox_id x) = Some y"
    then show False
    proof (cases rule: state_outbox_cases)
      case 1
      with o have oy: "case y of
        Commit_Outbox c \<Rightarrow>
          outbox_id x = json_key [js ''branch.commit.v1'', rootDropId (target (head s)), branchId (target (head s)),
            rc_eventId (co_receipt c)] \<and> map_of (receipts s) (rc_eventId (co_receipt c)) = Some (co_receipt c)
      | Batch_Outbox b \<Rightarrow>
          outbox_id x = stringify (number_text pf) (JArr [JStr (js ''branch.batch-commit.v1''),
            JStr (rootDropId (target (head s))), JStr (branchId (target (head s))), j_int (snapshotId (cq_version b))]) \<and>
          snapshotId (cq_version b) \<le> snapshotId (ver s)
      | _ \<Rightarrow> False" unfolding outbox_ok_def by blast
      show False
      proof (cases x)
        case (Commit_Outbox c)
        with y oy obtain c' where c': "y = Commit_Outbox c'" by (cases y) auto
        with y Commit_Outbox have "rc_eventId (co_receipt c') = rc_eventId (co_receipt c)" by (simp add: outbox_rest_def)
        with oy c' r(3) [of "co_receipt c"] shape Commit_Outbox show False by simp
      next
        case (Batch_Outbox b)
        with y oy obtain b' where b': "y = Batch_Outbox b'" by (cases y) auto
        with y Batch_Outbox have "snapshotId (cq_version b') = snapshotId (cq_version b)" by (simp add: outbox_rest_def j_int_def)
        with oy b' shape Batch_Outbox p(5) show False by simp
      qed (use shape in simp_all)
    next
      case (2 f)
      with y(1) shape show False by (cases x) auto
    next
      case (3 e)
      with y(1) shape show False by (cases x) auto
    qed
  qed
qed

lemma state_outbox_publish:
  "state_outbox (publish s h text meta es rs x) i = (if i = outbox_id x then Some x else state_outbox s i)"
  unfolding state_outbox_def publish_fields by simp

lemma extends_publish:
  assumes "state_ok pf s" "platform_ok pf" "publishable pf s h text meta es rs x"
  shows "extends s (publish s h text meta es rs x)"
proof -
  let ?s = "publish s h text meta es rs x"
  have b: "branch_ok pf s" using assms(1) by (simp add: state_ok_def)
  note p = publishableD [OF assms(3)] and keep = publish_keeps [OF b assms(3)]
  have "map_of (st_events s) \<subseteq>\<^sub>m map_of (st_events ?s)" "map_of (snapshots s) \<subseteq>\<^sub>m map_of (snapshots ?s)"
    using keep by (force simp: map_le_def)+
  moreover have "map_of (snapshotMetadata s) \<subseteq>\<^sub>m map_of (snapshotMetadata ?s)"
  proof -
    have "snapshotId (hd_version h) \<notin> dom (map_of (snapshotMetadata s))"
      using b unfolding branch_ok_def metadata_ok_def by (simp add: p(5))
    then show ?thesis by (auto simp: map_le_def)
  qed
  moreover have "map_of (receipts s) \<subseteq>\<^sub>m map_of (receipts ?s)"
    using receipts_of_publish_old [OF assms(3)] by (force simp: map_le_def)
  moreover have "state_outbox s \<subseteq>\<^sub>m state_outbox ?s"
    using publish_outbox_fresh [OF assms] by (auto simp: map_le_def state_outbox_publish)
  ultimately show ?thesis by (simp add: extends_def query_of_def p(3-6))
qed

lemma state_ok_publish:
  assumes "state_ok pf s" "platform_ok pf" "publishable pf s h text meta es rs x"
  shows "state_ok pf (publish s h text meta es rs x)"
proof -
  let ?s = "publish s h text meta es rs x"
  have b: "branch_ok pf s" and m: "memory_ok pf s" and f: "facts_ok pf s" using assms(1) by (simp_all add: state_ok_def)
  note p = publishableD [OF assms(3)]
  have q: "query_of h = query_of (head s)" by (simp add: query_of_def p(3,4))
  have "nullmem_ok pf h (mem_revision (nullmem s)) (mem_records (nullmem s)) (mem_outbox (nullmem s))"
    by (rule nullmem_ok_advance [where head = "head s"]) (use m in \<open>simp_all add: memory_ok_def p(3-6)\<close>)
  moreover have "memory_entry_ok pf ?s e" if "memory_entry_ok pf s e" for e
    using that publish_keeps(2) [OF b assms(3)] unfolding memory_entry_ok_def Let_def publish_fields(1,2) q by blast
  ultimately have "memory_ok pf ?s" using m by (simp add: memory_ok_def)
  moreover have "facts_ok pf ?s"
  proof -
    have same: "validateRuntimeFactReceipt pf r h False = validateRuntimeFactReceipt pf r (head s) False"
      "runtimeFactOutbox pf h r = runtimeFactOutbox pf (head s) r" for r
      by (simp_all add: validateRuntimeFactReceipt_def validateRuntimeFactEvent_def runtimeFactOutbox_def p(3,4))
    show ?thesis using f unfolding facts_ok_def fact_entry_ok_def publish_fields same .
  qed
  ultimately show ?thesis using branch_ok_publish(1) [OF b assms(3,2)] by (simp add: state_ok_def)
qed

lemma progress_publish: "publishable pf s h text meta es rs x \<Longrightarrow> progress s < progress (publish s h text meta es rs x)"
  by (simp add: progress_def publishableD(5))

section \<open>Publishing memory\<close>

lemma memory_state_fields [branch_simps, simp]:
  "head (memory_state s e m) = head s" "snapshots (memory_state s e m) = snapshots s"
  "snapshotMetadata (memory_state s e m) = snapshotMetadata s" "st_events (memory_state s e m) = st_events s"
  "receipts (memory_state s e m) = receipts s" "st_outbox (memory_state s e m) = st_outbox s"
  "runtimeFacts (memory_state s e m) = runtimeFacts s" "runtimeOutbox (memory_state s e m) = runtimeOutbox s"
  "nullmem (memory_state s e m) = \<lparr>mem_revision = nr_memoryRevision (no_result e), mem_records = m,
     mem_outbox = mem_outbox (nullmem s) @ [e]\<rparr>"
  by (simp_all add: memory_state_def)

text \<open>The parts of the invariant only look at the fields they are about.\<close>

lemma branch_ok_cong:
  assumes "head s' = head s" "snapshots s' = snapshots s" "snapshotMetadata s' = snapshotMetadata s"
    "st_events s' = st_events s" "receipts s' = receipts s" "st_outbox s' = st_outbox s"
  shows "branch_ok pf s' = branch_ok pf s" "log_of s' = log_of s"
proof -
  have t: "text_at s' = text_at s" "version_at s' = version_at s" "stored_events s' = stored_events s"
    by (simp_all add: fun_eq_iff text_at_def version_at_def stored_events_def assms)
  show "branch_ok pf s' = branch_ok pf s"
    unfolding branch_ok_def head_ok_def events_ok_def snapshots_ok_def metadata_ok_def receipts_ok_def receipt_ok_def
      outbox_ok_def stream_ok_def placed_event_def patched_snapshot_def t assms ..
  show "log_of s' = log_of s" by (simp add: log_of_def t assms)
qed

text \<open>What an accepted memory mutation provides.\<close>

definition memorable :: "platform \<Rightarrow> State \<Rightarrow> nullmem_mutation \<Rightarrow> BranchNullMemOutbox \<Rightarrow> bool" where
  "memorable pf s mut e \<longleftrightarrow> (\<exists>actor now.
     makeOutbox pf actor now \<lparr>target = target (head s), placement = placement (head s), nr_head = head s,
        nr_memoryRevision = mem_revision (nullmem s) + 1\<rparr> mut = Inr e \<and>
     actor \<noteq> [] \<and> authorizeNullMem actor (head s) = Inr () \<and>
     (\<forall>r. mut = Put_Record r \<longrightarrow> validateNullMemRecord r (head s) = Inr () \<and> get ''createdAt'' r = Some (j_int now)))"

lemma memorableD:
  assumes "memorable pf s mut e"
  shows "no_result e = \<lparr>target = target (head s), placement = placement (head s), nr_head = head s,
      nr_memoryRevision = mem_revision (nullmem s) + 1\<rparr>" "no_id e = nullmem_outbox_id pf (no_result e)"
    "nullmem_ok pf (head s) n m out \<Longrightarrow> coherent_head (head s) \<Longrightarrow> n = mem_revision (nullmem s) \<Longrightarrow>
       nullmem_ok pf (head s) (mem_revision (nullmem s) + 1) (apply_mutation mut m) (out @ [e])"
proof -
  from assms obtain actor now where mk: "makeOutbox pf actor now \<lparr>target = target (head s), placement = placement (head s),
      nr_head = head s, nr_memoryRevision = mem_revision (nullmem s) + 1\<rparr> mut = Inr e"
    and a: "actor \<noteq> []" "authorizeNullMem actor (head s) = Inr ()"
    and put: "\<And>r. mut = Put_Record r \<Longrightarrow> validateNullMemRecord r (head s) = Inr () \<and> get ''createdAt'' r = Some (j_int now)"
    unfolding memorable_def by blast
  note r = makeOutbox_Inr [OF mk]
  show "no_result e = \<lparr>target = target (head s), placement = placement (head s), nr_head = head s,
      nr_memoryRevision = mem_revision (nullmem s) + 1\<rparr>" "no_id e = nullmem_outbox_id pf (no_result e)"
    by (simp_all add: r)
  show "nullmem_ok pf (head s) (mem_revision (nullmem s) + 1) (apply_mutation mut m) (out @ [e])"
    if "nullmem_ok pf (head s) n m out" "coherent_head (head s)" "n = mem_revision (nullmem s)"
    using nullmem_ok_publish [OF that(1,2) _ a put, of mut e] mk that(3) by simp
qed

lemma memory_names:
  assumes "memorable pf s mut e"
  shows "names_outbox pf (target (head s)) (Memory_Outbox e) (outbox_rest (Memory_Outbox e))"
  using memorableD(1,2) [OF assms] by (simp add: names_outbox_def outbox_rest_def nullmem_outbox_id_def)

lemma memory_outbox_fresh:
  assumes "state_ok pf s" "platform_ok pf" "memorable pf s mut e"
  shows "state_outbox s (no_id e) = None"
proof -
  have "state_outbox s (outbox_id (Memory_Outbox e)) = None"
  proof (rule fresh_outbox [OF assms(1,2) memory_names [OF assms(3)]])
    fix y assume y: "outbox_kind y = outbox_kind (Memory_Outbox e)" "outbox_rest y = outbox_rest (Memory_Outbox e)"
    then obtain e' where e': "y = Memory_Outbox e'" by (cases y) auto
    with y memorableD(1) [OF assms(3)] have rev: "nr_memoryRevision (no_result e') = mem_revision (nullmem s) + 1"
      by (simp add: outbox_rest_def j_int_def)
    show "state_outbox s (outbox_id (Memory_Outbox e)) \<noteq> Some y"
    proof
      assume "state_outbox s (outbox_id (Memory_Outbox e)) = Some y"
      then show False
      proof (cases rule: state_outbox_cases)
        case 1
        with assms(1) show False unfolding state_ok_def branch_ok_def outbox_ok_def e' by fastforce
      next
        case (3 d)
        with e' have "e' \<in> set (mem_outbox (nullmem s))" by simp
        with assms(1) have "memory_entry_ok pf s e'" by (simp add: state_ok_def memory_ok_def)
        with rev show False by (simp add: memory_entry_ok_def Let_def)
      qed (simp add: e')
    qed
  qed
  then show ?thesis by simp
qed

lemma state_outbox_memory:
  assumes "state_outbox s (no_id e) = None"
  shows "state_outbox (memory_state s e m) i = (if i = no_id e then Some (Memory_Outbox e) else state_outbox s i)"
proof -
  have none: "map_of (st_outbox s) (no_id e) = None" "map_of (runtimeOutbox s) (no_id e) = None"
    "find (\<lambda>x. no_id x = no_id e) (mem_outbox (nullmem s)) = None"
    using assms by (auto simp: state_outbox_def split: option.splits)
  have "find P (xs @ [e]) = (case find P xs of Some y \<Rightarrow> Some y | None \<Rightarrow> if P e then Some e else None)" for P xs
    by (induction xs) auto
  then show ?thesis
    unfolding state_outbox_def memory_state_fields using none by (auto split: option.splits)
qed

lemma state_ok_memory:
  assumes "state_ok pf s" "platform_ok pf" "memorable pf s mut e"
  shows "state_ok pf (memory_state s e (apply_mutation mut (mem_records (nullmem s))))"
    "extends s (memory_state s e (apply_mutation mut (mem_records (nullmem s))))"
    "progress s < progress (memory_state s e (apply_mutation mut (mem_records (nullmem s))))"
proof -
  let ?s = "memory_state s e (apply_mutation mut (mem_records (nullmem s)))"
  have b: "branch_ok pf s" and m: "memory_ok pf s" and f: "facts_ok pf s" using assms(1) by (simp_all add: state_ok_def)
  note d = memorableD [OF assms(3)]
  have h: "coherent_head (head s)" "head_ok s" using b by (simp_all add: branch_ok_def head_ok_def)
  have rev: "nr_memoryRevision (no_result e) = mem_revision (nullmem s) + 1" by (simp add: d(1))
  have len: "0 \<le> mem_revision (nullmem s)" using m by (auto simp: memory_ok_def nullmem_ok_def)
  have "nullmem_ok pf (head s) (mem_revision (nullmem s)) (mem_records (nullmem s)) (mem_outbox (nullmem s))"
    using m by (simp add: memory_ok_def)
  from d(3) [OF this h(1) refl]
  have n: "nullmem_ok pf (head ?s) (mem_revision (nullmem ?s)) (mem_records (nullmem ?s)) (mem_outbox (nullmem ?s))"
    by (simp add: rev)
  obtain c where "map_of (snapshots s) (snapshotId (ver s)) = Some c" "cq_version c = ver s"
    using b h(2) by (auto simp: branch_ok_def elim: snapshot_at_head)
  then have "memory_entry_ok pf ?s e" using len by (simp add: memory_entry_ok_def Let_def d(2)) (simp add: d(1) query_of_def)
  moreover have "memory_entry_ok pf ?s x" if "x \<in> set (mem_outbox (nullmem s))" for x
    using that m by (auto simp: memory_ok_def memory_entry_ok_def Let_def rev)
  ultimately have "memory_ok pf ?s" using n by (auto simp: memory_ok_def)
  moreover have "facts_ok pf ?s" using f unfolding facts_ok_def fact_entry_ok_def memory_state_fields .
  moreover have "branch_ok pf ?s" using b branch_ok_cong(1) [of ?s s pf] by simp
  ultimately show "state_ok pf ?s" by (simp add: state_ok_def)
  show "extends s ?s"
    using memory_outbox_fresh [OF assms] by (auto simp: extends_def map_le_def state_outbox_memory)
  show "progress s < progress ?s" by (simp add: progress_def rev)
qed

section \<open>Publishing a fact\<close>

definition factual ::
  "platform \<Rightarrow> State \<Rightarrow> jstring \<Rightarrow> jstring \<Rightarrow> BranchRuntimeFactReceipt \<Rightarrow> BranchRuntimeFactOutbox \<Rightarrow> bool" where
  "factual pf s k intent r x \<longleftrightarrow>
     map_of (runtimeFacts s) k = None \<and> fact_entry_ok pf s (length (runtimeFacts s)) (k, intent, r) \<and>
     list_all (\<lambda>(_, _, q). fe_factId (fr_event q) \<noteq> fe_factId (fr_event r) \<and> fr_key q \<noteq> fr_key r) (runtimeFacts s) \<and>
     x = runtimeFactOutbox pf (head s) r"

lemma fact_state_fields [branch_simps, simp]:
  "head (fact_state s k i r x) = head s" "snapshots (fact_state s k i r x) = snapshots s"
  "snapshotMetadata (fact_state s k i r x) = snapshotMetadata s" "st_events (fact_state s k i r x) = st_events s"
  "receipts (fact_state s k i r x) = receipts s" "st_outbox (fact_state s k i r x) = st_outbox s"
  "nullmem (fact_state s k i r x) = nullmem s"
  "runtimeFacts (fact_state s k i r x) = AList.update k (i, r) (runtimeFacts s)"
  "runtimeOutbox (fact_state s k i r x) = AList.update (fo_id x) x (runtimeOutbox s)"
  by (simp_all add: fact_state_def)

lemma fact_outbox_fresh:
  assumes "state_ok pf s" "platform_ok pf" "factual pf s k intent r x"
  shows "state_outbox s (fo_id x) = None"
proof -
  have x: "x = runtimeFactOutbox pf (head s) r" and k: "map_of (runtimeFacts s) (fr_identity r) = None"
    using assms(3) by (auto simp: factual_def fact_entry_ok_def)
  have n: "names_outbox pf (target (head s)) (Fact_Outbox x) (outbox_rest (Fact_Outbox x))"
    unfolding x by (rule runtimeFactOutbox_names)
  have "state_outbox s (outbox_id (Fact_Outbox x)) = None"
  proof (rule fresh_outbox [OF assms(1,2) n])
    fix y assume y: "outbox_kind y = outbox_kind (Fact_Outbox x)" "outbox_rest y = outbox_rest (Fact_Outbox x)"
    then obtain f where f: "y = Fact_Outbox f" by (cases y) auto
    with y have id: "fr_identity (fo_receipt f) = fr_identity r" by (simp add: outbox_rest_def x runtimeFactOutbox_def)
    show "state_outbox s (outbox_id (Fact_Outbox x)) \<noteq> Some y"
    proof
      assume "state_outbox s (outbox_id (Fact_Outbox x)) = Some y"
      then show False
      proof (cases rule: state_outbox_cases)
        case 1
        with assms(1) show False unfolding state_ok_def branch_ok_def outbox_ok_def f by fastforce
      next
        case (2 g)
        with assms(1) f have "map_of (runtimeFacts s) (fr_identity (fo_receipt f)) \<noteq> None"
          unfolding state_ok_def facts_ok_def by blast
        with id k show False by simp
      qed (simp add: f)
    qed
  qed
  then show ?thesis by simp
qed

lemma state_outbox_fact:
  assumes "state_outbox s (fo_id x) = None"
  shows "state_outbox (fact_state s k intent r x) i = (if i = fo_id x then Some (Fact_Outbox x) else state_outbox s i)"
proof -
  have "map_of (st_outbox s) (fo_id x) = None" using assms by (auto simp: state_outbox_def split: option.splits)
  then show ?thesis unfolding state_outbox_def fact_state_fields by (auto split: option.splits)
qed

lemma state_ok_fact:
  assumes "state_ok pf s" "platform_ok pf" "factual pf s k intent r x"
  shows "state_ok pf (fact_state s k intent r x)" "extends s (fact_state s k intent r x)"
    "progress s < progress (fact_state s k intent r x)"
proof -
  let ?s = "fact_state s k intent r x"
  have b: "branch_ok pf s" and m: "memory_ok pf s" and f: "facts_ok pf s" using assms(1) by (simp_all add: state_ok_def)
  have none: "map_of (runtimeFacts s) k = None" and e: "fact_entry_ok pf s (length (runtimeFacts s)) (k, intent, r)"
    and new: "list_all (\<lambda>(_, _, q). fe_factId (fr_event q) \<noteq> fe_factId (fr_event r) \<and> fr_key q \<noteq> fr_key r) (runtimeFacts s)"
    and x: "x = runtimeFactOutbox pf (head s) r" using assms(3) unfolding factual_def by blast+
  have fs: "runtimeFacts ?s = runtimeFacts s @ [(k, intent, r)]" by (simp add: length_update_fresh [OF none])
  have entry: "fact_entry_ok pf ?s i y = fact_entry_ok pf s i y" for i y by (simp add: fact_entry_ok_def)
  have kr: "k = fr_identity r" using e by (simp add: fact_entry_ok_def)
  have "jsmap_wf (runtimeFacts ?s)" using f by (simp add: facts_ok_def)
  moreover have "\<forall>i < length (runtimeFacts ?s). fact_entry_ok pf ?s i (runtimeFacts ?s ! i)"
    using f e unfolding fs entry by (auto simp: facts_ok_def nth_append less_Suc_eq)
  moreover have "distinct (map (\<lambda>(_, _, r). fe_factId (fr_event r)) (runtimeFacts ?s))"
    "distinct (map (\<lambda>(_, _, r). fr_key r) (runtimeFacts ?s))"
    using f new unfolding fs by (auto simp: facts_ok_def list_all_iff)
  moreover have "fo_id y = i \<and> y = runtimeFactOutbox pf (head ?s) (fo_receipt y) \<and>
      map_of (runtimeFacts ?s) (fr_identity (fo_receipt y)) \<noteq> None" if y: "map_of (runtimeOutbox ?s) i = Some y" for i y
  proof (cases "i = fo_id x")
    case True
    with y have "y = x" by simp
    moreover have "fo_receipt x = r" by (simp add: x runtimeFactOutbox_def)
    ultimately show ?thesis using True x kr by simp
  next
    case False
    with y have "map_of (runtimeOutbox s) i = Some y" by simp
    with f have "fo_id y = i" "y = runtimeFactOutbox pf (head s) (fo_receipt y)"
      "map_of (runtimeFacts s) (fr_identity (fo_receipt y)) \<noteq> None" unfolding facts_ok_def by blast+
    then show ?thesis by simp
  qed
  ultimately have "facts_ok pf ?s" unfolding facts_ok_def by blast
  moreover have "memory_ok pf ?s" using m unfolding memory_ok_def memory_entry_ok_def fact_state_fields .
  moreover have "branch_ok pf ?s" using b branch_ok_cong(1) [of ?s s pf] by simp
  ultimately show "state_ok pf ?s" by (simp add: state_ok_def)
  show "extends s ?s"
    using fact_outbox_fresh [OF assms] none by (auto simp: extends_def map_le_def state_outbox_fact)
  show "progress s < progress ?s" unfolding progress_def fs by simp
qed

end
