(* ===== verification/Plane_Steps.thy ===== *)
theory Plane_Steps
  imports Plane_State
begin

text \<open>
  Concurrent use of the memory plane. JavaScript runs one call at a time up to its next wait, so a
  run of the plane is a sequence of atomic parts of calls: \<open>plane_step\<close> has one rule per part, and a
  call that waits for a digest is kept among the calls in flight with everything it captured.

  Two interfaces carry the proofs. \<open>invariant_system\<close> turns an invariant kept by every step into one of
  every reachable system; \<open>growing_system\<close> adds an order that every step moves up in, and gives what
  holds between any two moments of a run. Both are interpreted on the plane in theory \<open>Plane_Runs\<close>.
\<close>

section \<open>Interfaces\<close>

inductive reachable :: "('s \<Rightarrow> bool) \<Rightarrow> ('s \<Rightarrow> 's \<Rightarrow> bool) \<Rightarrow> 's \<Rightarrow> bool" for init step where
  start: "init s \<Longrightarrow> reachable init step s"
| move: "reachable init step s \<Longrightarrow> step s t \<Longrightarrow> reachable init step t"

locale invariant_system =
  fixes init :: "'s \<Rightarrow> bool" and step :: "'s \<Rightarrow> 's \<Rightarrow> bool" and inv :: "'s \<Rightarrow> bool"
  assumes init_inv: "init s \<Longrightarrow> inv s"
    and step_inv: "inv s \<Longrightarrow> step s t \<Longrightarrow> inv t"
begin

lemma reachable_inv: "reachable init step s \<Longrightarrow> inv s"
  by (induction rule: reachable.induct) (blast intro: init_inv step_inv)+

lemma steps_inv: "step\<^sup>*\<^sup>* s t \<Longrightarrow> inv s \<Longrightarrow> inv t"
  by (induction rule: rtranclp_induct) (blast intro: step_inv)+

end

locale growing_system = invariant_system +
  fixes grows :: "'s \<Rightarrow> 's \<Rightarrow> bool"
  assumes grows_refl: "grows s s"
    and grows_trans: "grows s t \<Longrightarrow> grows t u \<Longrightarrow> grows s u"
    and step_grows: "inv s \<Longrightarrow> step s t \<Longrightarrow> grows s t"
begin

lemma run_grows: "step\<^sup>*\<^sup>* s t \<Longrightarrow> inv s \<Longrightarrow> grows s t"
proof (induction rule: rtranclp_induct)
  case base
  show ?case by (rule grows_refl)
next
  case (step t u)
  from steps_inv [OF step.hyps(1) step.prems] step.hyps(2) have "grows t u" by (rule step_grows)
  with step.IH [OF step.prems] show ?case by (rule grows_trans)
qed

end

section \<open>Systems\<close>

datatype in_flight =
    Initializing BranchInitializeRecord PreparedBranchInitialization
  | Appending BranchAppendRecord BranchPreparedCommit
  | Batching BranchBatchAppendRecord nat State PreparedBranchBatch

type_synonym system = "MemoryPlane \<times> in_flight list"

inductive plane_init :: "platform \<Rightarrow> system \<Rightarrow> bool" where
  created: "platform_ok pf \<Longrightarrow> create pf seeds = Inr p \<Longrightarrow> plane_init pf (p, [])"

inductive plane_step :: "platform \<Rightarrow> system \<Rightarrow> system \<Rightarrow> bool" for pf where
  reserves: "reserve p now i = Inr (r, p') \<Longrightarrow> plane_step pf (p, fs) (p', fs)"
| starts_initialize: "initialize_begin pf p i = Inr (c, pr) \<Longrightarrow> plane_step pf (p, fs) (p, Initializing c pr # fs)"
| ends_initialize: "initialize_finish p c pr = Inr (r, p') \<Longrightarrow>
    plane_step pf (p, fs @ Initializing c pr # gs) (p', fs @ gs)"
| starts_append: "append_begin pf p now i = Inr (Append_Prepared c pc) \<Longrightarrow>
    plane_step pf (p, fs) (p, Appending c pc # fs)"
| ends_append: "append_finish p c pc = Inr (r, p') \<Longrightarrow> plane_step pf (p, fs @ Appending c pc # gs) (p', fs @ gs)"
| starts_batch: "captureBranchBatchAppend i = Inr c \<Longrightarrow> batch_begin pf p now c = Inr (s, pb) \<Longrightarrow>
    plane_step pf (p, fs) (p, Batching c 0 s pb # fs)"
| ends_batch: "batch_finish p c s pb = Inr (Batch_Done r p') \<Longrightarrow>
    plane_step pf (p, fs @ Batching c n s pb # gs) (p', fs @ gs)"
| retries_batch: "batch_finish p c s pb = Inr Batch_Retry \<Longrightarrow> n < 31 \<Longrightarrow> batch_begin pf p now c = Inr (s', pb') \<Longrightarrow>
    plane_step pf (p, fs @ Batching c n s pb # gs) (p, fs @ Batching c (Suc n) s' pb' # gs)"
| rejects: "plane_step pf (p, fs @ f # gs) (p, fs @ gs)"
| puts: "putNullMem pf p now i = Inr (e, p') \<Longrightarrow> plane_step pf (p, fs) (p', fs)"
| deletes: "deleteNullMem pf p now j = Inr (e, p') \<Longrightarrow> plane_step pf (p, fs) (p', fs)"
| facts: "appendRuntimeFact pf p now k = Inr (a, p') \<Longrightarrow> plane_step pf (p, fs) (p', fs)"
| claims: "claimOutbox pf p oc = Inr (dc, p') \<Longrightarrow> plane_step pf (p, fs) (p', fs)"
| acknowledges: "acknowledgeOutbox p orc = Inr (ac, p') \<Longrightarrow> plane_step pf (p, fs) (p', fs)"
| reschedules: "retryOutbox p orc code = Inr (rc, p') \<Longrightarrow> plane_step pf (p, fs) (p', fs)"
| prunes: "pruneCompletedOutbox p before limit = Inr (n', p') \<Longrightarrow> plane_step pf (p, fs) (p', fs)"

section \<open>The invariant of a plane\<close>

definition states_ok :: "platform \<Rightarrow> MemoryPlane \<Rightarrow> bool" where
  "states_ok pf p \<longleftrightarrow> (\<forall>k s. map_of (states p) k = Some s \<longrightarrow> k = key (target (head s)) \<and> state_ok pf s)"

definition authority_ok :: "platform \<Rightarrow> MemoryPlane \<Rightarrow> jstring \<Rightarrow> BranchAuthorityRecord \<Rightarrow> bool" where
  "authority_ok pf p k a \<longleftrightarrow> k = key (target a) \<and> BranchLifecycleQuery_authority a = Inr a \<and>
     (case au_state a of
        Pending_Authority \<Rightarrow> map_of (states p) k = None \<and> map_of (initializations p) k = None
      | Active_Authority \<Rightarrow>
          (\<exists>s c pr. map_of (states p) k = Some s \<and> placement (head s) = placement a \<and>
             prepareBranchInitialization pf a c = Inr pr \<and> target c = target a \<and>
             map_of (initializations p) k = Some (pi_intent pr, pi_receipt pr) \<and> text_at s 0 = in_content c))"

definition authorities_ok :: "platform \<Rightarrow> MemoryPlane \<Rightarrow> bool" where
  "authorities_ok pf p \<longleftrightarrow> (\<forall>k a. map_of (authorities p) k = Some a \<longrightarrow> authority_ok pf p k a) \<and>
     (\<forall>k. map_of (initializations p) k \<noteq> None \<longrightarrow> map_of (authorities p) k \<noteq> None)"

text \<open>Every row is about a canonical record of a branch at its generation, and a lease is complete.\<close>

definition lease_ok :: "platform \<Rightarrow> jstring \<Rightarrow> OutboxDeliveryState \<Rightarrow> bool" where
  "lease_ok pf i row \<longleftrightarrow> 0 \<le> ds_attempt row \<and>
     (if ds_status row = Claimed
      then \<exists>l t. ds_leaseId row = Some l \<and> ds_leaseToken row = Some t \<and> ds_leaseUntil row = Some (ds_nextAttemptAt row) \<and>
             outboxLeaseToken pf l i (ds_attempt row) = Inr t
      else ds_leaseId row = None \<and> ds_leaseToken row = None \<and> ds_leaseUntil row = None)"

definition row_ok :: "platform \<Rightarrow> MemoryPlane \<Rightarrow> jstring \<Rightarrow> OutboxDeliveryState \<Rightarrow> bool" where
  "row_ok pf p i row \<longleftrightarrow> lease_ok pf i row \<and>
     (\<exists>s x. map_of (states p) (key (ds_target row)) = Some s \<and> target (head s) = ds_target row \<and>
        generation (placement (head s)) = ds_generation row \<and> state_outbox s i = Some x \<and> outbox_kind x = ds_kind row)"

definition delivery_ok :: "platform \<Rightarrow> MemoryPlane \<Rightarrow> bool" where
  "delivery_ok pf p \<longleftrightarrow> jsmap_wf (delivery p) \<and>
     (\<forall>i row. map_of (delivery p) i = Some row \<longrightarrow> row_ok pf p i row) \<and>
     (\<forall>k s i x. map_of (states p) k = Some s \<longrightarrow> state_outbox s i = Some x \<longrightarrow>
        (\<exists>row. map_of (delivery p) i = Some row \<and> ds_kind row = outbox_kind x \<and> ds_target row = target (head s)))"

definition plane_ok :: "platform \<Rightarrow> MemoryPlane \<Rightarrow> bool" where
  "plane_ok pf p \<longleftrightarrow> states_ok pf p \<and> authorities_ok pf p \<and> delivery_ok pf p"

definition flight_ok :: "platform \<Rightarrow> MemoryPlane \<Rightarrow> in_flight \<Rightarrow> bool" where
  "flight_ok pf p f = (case f of
     Initializing c pr \<Rightarrow>
       (\<exists>a. map_of (authorities p) (key (target c)) = Some a \<and> prepareBranchInitialization pf a c = Inr pr)
   | Appending c pc \<Rightarrow>
       captured_command pf c \<and>
       (\<exists>s h t now. map_of (states p) (key (target c)) = Some s \<and> prepareBranchCommit pf c h t now = Inr pc \<and>
          snapshotId (hd_version h) \<le> snapshotId (ver s) \<and>
          (hd_version h = ver s \<longrightarrow> h = head s \<and> t = text_at s (snapshotId (ver s))))
   | Batching c n s pb \<Rightarrow>
       captured_batch c \<and> (\<exists>now. prepareBranchBatch pf c (hashBranchBatchEvents pf (events c)) (head s) (text_at s (snapshotId (ver s)))
         (receipts s) now = Inr pb))"

definition system_ok :: "platform \<Rightarrow> system \<Rightarrow> bool" where
  "system_ok pf sys \<longleftrightarrow> platform_ok pf \<and> plane_ok pf (fst sys) \<and> list_all (flight_ok pf (fst sys)) (snd sys)"

text \<open>
  Between two moments of a run every branch has only grown, reservations are kept, and a delivery row
  is kept: once completed it stays completed, and until then its attempts only go up.
\<close>

definition row_le :: "OutboxDeliveryState \<Rightarrow> OutboxDeliveryState \<Rightarrow> bool" where
  "row_le row row' \<longleftrightarrow> (ds_status row = Completed \<longrightarrow> ds_status row' = Completed) \<and>
     (ds_status row' \<noteq> Completed \<longrightarrow> ds_attempt row \<le> ds_attempt row')"

definition plane_grows :: "MemoryPlane \<Rightarrow> MemoryPlane \<Rightarrow> bool" where
  "plane_grows p p' \<longleftrightarrow>
     (\<forall>k s. map_of (states p) k = Some s \<longrightarrow>
        (\<exists>s'. map_of (states p') k = Some s' \<and> extends s s' \<and> (s' = s \<or> progress s < progress s'))) \<and>
     (\<forall>k a. map_of (authorities p) k = Some a \<longrightarrow>
        (\<exists>a'. map_of (authorities p') k = Some a' \<and> target a' = target a \<and> placement a' = placement a \<and>
           au_reservation a' = au_reservation a \<and> (au_state a = Active_Authority \<longrightarrow> a' = a))) \<and>
     map_of (initializations p) \<subseteq>\<^sub>m map_of (initializations p') \<and>
     (\<forall>i row. map_of (delivery p) i = Some row \<longrightarrow> (\<exists>row'. map_of (delivery p') i = Some row' \<and> row_le row row'))"

section \<open>Growth\<close>

lemma row_le_refl [simp]: "row_le row row"
  by (simp add: row_le_def)

lemma row_le_trans: "row_le a b \<Longrightarrow> row_le b c \<Longrightarrow> row_le a c"
  by (auto simp: row_le_def)

lemma plane_grows_refl: "plane_grows p p"
  by (auto simp: plane_grows_def)

lemma plane_grows_trans:
  assumes "plane_grows p q" "plane_grows q r"
  shows "plane_grows p r"
  unfolding plane_grows_def
proof (intro conjI allI impI)
  show "map_of (initializations p) \<subseteq>\<^sub>m map_of (initializations r)"
    using assms by (auto simp: plane_grows_def intro: map_le_trans)
next
  fix i row assume "map_of (delivery p) i = Some row"
  with assms(1) obtain row' where r': "map_of (delivery q) i = Some row'" "row_le row row'" unfolding plane_grows_def by blast
  with assms(2) obtain row'' where "map_of (delivery r) i = Some row''" "row_le row' row''" unfolding plane_grows_def by blast
  with r'(2) row_le_trans show "\<exists>row'. map_of (delivery r) i = Some row' \<and> row_le row row'" by blast
next
  fix k s assume "map_of (states p) k = Some s"
  with assms(1) obtain s' where s': "map_of (states q) k = Some s'" "extends s s'" "s' = s \<or> progress s < progress s'"
    unfolding plane_grows_def by blast
  with assms(2) obtain s'' where s'': "map_of (states r) k = Some s''" "extends s' s''" "s'' = s' \<or> progress s' < progress s''"
    unfolding plane_grows_def by blast
  have "s'' = s \<or> progress s < progress s''" using s'(3) s''(3) by auto
  with s''(1) extends_trans [OF s'(2) s''(2)]
  show "\<exists>s'. map_of (states r) k = Some s' \<and> extends s s' \<and> (s' = s \<or> progress s < progress s')" by blast
next
  fix k a assume "map_of (authorities p) k = Some a"
  with assms(1) obtain a' where a': "map_of (authorities q) k = Some a'" "target a' = target a" "placement a' = placement a"
    "au_reservation a' = au_reservation a" "au_state a = Active_Authority \<longrightarrow> a' = a" unfolding plane_grows_def by blast
  with assms(2) obtain a'' where a'': "map_of (authorities r) k = Some a''" "target a'' = target a'" "placement a'' = placement a'"
    "au_reservation a'' = au_reservation a'" "au_state a' = Active_Authority \<longrightarrow> a'' = a'" unfolding plane_grows_def by blast
  with a' have "target a'' = target a" "placement a'' = placement a" "au_reservation a'' = au_reservation a"
    "au_state a = Active_Authority \<longrightarrow> a'' = a" by auto
  with a''(1) show "\<exists>a'. map_of (authorities r) k = Some a' \<and> target a' = target a \<and> placement a' = placement a \<and>
      au_reservation a' = au_reservation a \<and> (au_state a = Active_Authority \<longrightarrow> a' = a)" by blast
qed

lemma prepare_init_cong:
  assumes "target a' = target a" "placement a' = placement a" "au_reservation a' = au_reservation a"
  shows "prepareBranchInitialization pf a' c = prepareBranchInitialization pf a c"
proof -
  have a: "BranchLifecycleQuery_authority b = (if valid_reservation (au_reservation b) \<and> valid_target (target b) \<and>
      valid_placement (placement b) \<and> routingVersion (placement b) = 1 then Inr b else Inl Invalid_Command)" for b
    by (simp add: BranchLifecycleQuery_authority_def BranchStateQuery_head_def)
  have h: "initial_head pf a' d = initial_head pf a d" for d by (simp add: initial_head_def assms)
  show ?thesis
  proof (cases "BranchLifecycleQuery_authority a = Inr a")
    case True
    then have b: "BranchLifecycleQuery_authority a' = Inr a'" by (simp add: a assms split: if_splits)
    show ?thesis unfolding prepareBranchInitialization_def True b and_then_simps assms h ..
  next
    case False
    then have n: "BranchLifecycleQuery_authority a = Inl Invalid_Command" "BranchLifecycleQuery_authority a' = Inl Invalid_Command"
      by (simp_all add: a assms split: if_splits)
    show ?thesis unfolding prepareBranchInitialization_def n and_then_simps ..
  qed
qed

lemma extends_text:
  assumes "extends s s'" "state_ok pf s" "0 \<le> i" "i \<le> snapshotId (ver s)"
  shows "text_at s' i = text_at s i" "version_at s' i = version_at s i"
proof -
  have "i \<in> dom (map_of (snapshots s))"
    using assms(2-4) by (simp add: state_ok_def branch_ok_def snapshots_ok_def)
  with assms(1) have "map_of (snapshots s') i = map_of (snapshots s) i"
    unfolding extends_def map_le_def by (metis (no_types))
  then show "text_at s' i = text_at s i" "version_at s' i = version_at s i" by (simp_all add: text_at_def version_at_def)
qed

lemma state_ok_head: "state_ok pf s \<Longrightarrow> head_ok s \<and> 0 \<le> snapshotId (ver s)"
  using head_ok_versions(2) by (auto simp: state_ok_def branch_ok_def)

lemma flight_ok_grows:
  assumes "plane_ok pf p" "plane_grows p p'" "flight_ok pf p f"
  shows "flight_ok pf p' f"
proof (cases f)
  case (Initializing c pr)
  with assms(3) obtain a where a: "map_of (authorities p) (key (target c)) = Some a" "prepareBranchInitialization pf a c = Inr pr"
    by (auto simp: flight_ok_def)
  with assms(2) obtain a' where a': "map_of (authorities p') (key (target c)) = Some a'" "target a' = target a"
    "placement a' = placement a" "au_reservation a' = au_reservation a" unfolding plane_grows_def by blast
  from a(2) prepare_init_cong [OF a'(2-4)] a'(1) Initializing show ?thesis by (simp add: flight_ok_def)
next
  case (Appending c pc)
  with assms(3) obtain s h t now where s: "map_of (states p) (key (target c)) = Some s"
    and h: "prepareBranchCommit pf c h t now = Inr pc" "snapshotId (hd_version h) \<le> snapshotId (ver s)"
      "hd_version h = ver s \<longrightarrow> h = head s \<and> t = text_at s (snapshotId (ver s))"
    and e: "captured_command pf c"
    by (auto simp: flight_ok_def)
  from s assms(2) obtain s' where s': "map_of (states p') (key (target c)) = Some s'" "extends s s'"
    unfolding plane_grows_def by blast
  have ok: "state_ok pf s" using assms(1) s by (auto simp: plane_ok_def states_ok_def)
  have "snapshotId (hd_version h) \<le> snapshotId (ver s') \<and> (hd_version h = ver s' \<longrightarrow> h = head s' \<and> t = text_at s' (snapshotId (ver s')))"
  proof (cases "head s' = head s")
    case True
    with h state_ok_head [OF ok] extends_text(1) [OF s'(2) ok, of "snapshotId (ver s)"] show ?thesis by simp
  next
    case False
    with s'(2) h(2) show ?thesis by (auto simp: extends_def)
  qed
  with s'(1) h(1) e show ?thesis unfolding Appending flight_ok_def in_flight.case by blast
next
  case (Batching c n s pb)
  with assms(3) show ?thesis by (simp add: flight_ok_def)
qed

section \<open>Publication in a plane\<close>

lemma key_inj [simp]: "key t = key u \<longleftrightarrow> t = u"
  by (auto simp: key_def intro: BranchStateTarget.equality)

lemma state_lookup:
  assumes "states_ok pf p" "map_of (states p) k = Some s"
  shows "k = key (target (head s))" "state_ok pf s"
  using assms by (auto simp: states_ok_def)

lemma state_Inr:
  assumes "state p q = Inr s" "states_ok pf p"
  shows "map_of (states p) (key (target q)) = Some s" "target (head s) = target q" "placement (head s) = placement q"
    "state_ok pf s"
proof -
  show l: "map_of (states p) (key (target q)) = Some s"
    using assms(1) by (auto simp: state_def split: if_splits option.splits)
  note s = state_lookup [OF assms(2) l]
  show "state_ok pf s" by (rule s)
  show "target (head s) = target q" using s(1) by simp
  have "routingVersion (placement q) = 1" "generation (placement (head s)) = generation (placement q)"
    using assms(1) l by (auto simp: state_def split: if_splits)
  moreover have "routingVersion (placement (head s)) = 1" using state_ok_head [OF s(2)] by (simp add: head_ok_def)
  ultimately show "placement (head s) = placement q" by (auto intro: BranchStatePlacement.equality)
qed

definition new_row :: "BranchCanonicalOutbox \<Rightarrow> OutboxDeliveryState" where
  "new_row x = \<lparr>ds_kind = outbox_kind x, ds_target = target (captured_query x),
     ds_generation = generation (placement (captured_query x)), ds_status = Pending, ds_attempt = 0,
     ds_nextAttemptAt = 0, ds_lastErrorCode = None, ds_leaseId = None, ds_leaseToken = None,
     ds_leaseUntil = None, ds_completedAt = None\<rparr>"

text \<open>A new record of a branch always gets a pending row of its own.\<close>

lemma register_fresh:
  assumes ok: "plane_ok pf p" "platform_ok pf" and s: "map_of (states p) (key (target (head s))) = Some s"
    and fresh: "state_outbox s (outbox_id x) = None" and n: "names_outbox pf (target (head s)) x r"
    and q: "captured_query x = query_of (head s)"
  shows "map_of (delivery p) (outbox_id x) = None"
    "registerOutbox p x = Inr (AList.update (outbox_id x) (new_row x) (delivery p))"
proof -
  have sts: "states_ok pf p" using ok(1) by (simp add: plane_ok_def)
  show none: "map_of (delivery p) (outbox_id x) = None"
  proof (rule ccontr)
    assume "map_of (delivery p) (outbox_id x) \<noteq> None"
    then obtain row where "map_of (delivery p) (outbox_id x) = Some row" by blast
    with ok(1) have "row_ok pf p (outbox_id x) row" by (auto simp: plane_ok_def delivery_ok_def)
    then obtain s2 y where s2: "map_of (states p) (key (ds_target row)) = Some s2" "target (head s2) = ds_target row"
      "state_outbox s2 (outbox_id x) = Some y" by (auto simp: row_ok_def)
    note y = state_outbox_ok [OF state_lookup(2) [OF sts s2(1)] s2(3)]
    from names_outbox_inj [OF ok(2) y(3) n y(1)] have "target (head s2) = target (head s)" by simp
    with s2 s have "s2 = s" by simp
    with s2(3) fresh show False by simp
  qed
  have "coherent_head (head s)" using state_ok_head [OF state_lookup(2) [OF sts s]] by (simp add: head_ok_def)
  then have "canonicalOutboxPlacement x = Inr (captured_query x)"
    by (simp add: canonical_placement_Inr_iff q coherent_head_def)
  then show "registerOutbox p x = Inr (AList.update (outbox_id x) (new_row x) (delivery p))"
    by (simp add: registerOutbox_def none new_row_def)
qed

lemma publication_ok:
  assumes ok: "plane_ok pf p" "platform_ok pf" and s: "map_of (states p) k = Some s"
    and s': "state_ok pf s'" "extends s s'" "progress s < progress s'"
    and x: "state_outbox s (outbox_id x) = None" "state_outbox s' = (state_outbox s)(outbox_id x \<mapsto> x)"
      "names_outbox pf (target (head s)) x r" "captured_query x = query_of (head s)"
  shows "plane_ok pf (p \<lparr>states := AList.update k s' (states p), delivery := AList.update (outbox_id x) (new_row x) (delivery p)\<rparr>)"
    "plane_grows p (p \<lparr>states := AList.update k s' (states p), delivery := AList.update (outbox_id x) (new_row x) (delivery p)\<rparr>)"
proof -
  let ?p = "p \<lparr>states := AList.update k s' (states p), delivery := AList.update (outbox_id x) (new_row x) (delivery p)\<rparr>"
  have sts: "states_ok pf p" and au: "authorities_ok pf p" and de: "delivery_ok pf p" using ok(1) by (simp_all add: plane_ok_def)
  note sk = state_lookup [OF sts s] and eh = extends_head [OF s'(2)]
  have s0: "map_of (states p) (key (target (head s))) = Some s" using s sk(1) by simp
  note none = register_fresh(1) [OF ok s0 x(1,3,4)]
  have "states_ok pf ?p" using sts s'(1) sk(1) eh by (simp add: states_ok_def)
  moreover have "authorities_ok pf ?p"
    unfolding authorities_ok_def
  proof (intro conjI allI impI)
    fix k' a assume "map_of (authorities ?p) k' = Some a"
    then have a: "map_of (authorities p) k' = Some a" by simp
    with au have aok: "authority_ok pf p k' a" by (simp add: authorities_ok_def)
    show "authority_ok pf ?p k' a"
    proof (cases "k' = k")
      case False
      with aok show ?thesis by (cases "au_state a") (auto simp: authority_ok_def)
    next
      case True
      have t0: "text_at s' 0 = text_at s 0" using extends_text(1) [OF s'(2) sk(2)] state_ok_head [OF sk(2)] by simp
      from aok True s obtain c pr where "au_state a = Active_Authority" "placement (head s) = placement a"
        "prepareBranchInitialization pf a c = Inr pr" "target c = target a"
        "map_of (initializations p) k' = Some (pi_intent pr, pi_receipt pr)" "text_at s 0 = in_content c"
        by (auto simp: authority_ok_def split: authority_state.splits)
      with aok True eh t0 show ?thesis by (auto simp: authority_ok_def)
    qed
  qed (use au in \<open>simp add: authorities_ok_def\<close>)
  moreover have "delivery_ok pf ?p"
    unfolding delivery_ok_def
  proof (intro conjI allI impI)
    show "jsmap_wf (delivery ?p)" using de by (simp add: delivery_ok_def)
  next
    fix i row assume row: "map_of (delivery ?p) i = Some row"
    show "row_ok pf ?p i row"
    proof (cases "i = outbox_id x")
      case True
      with row have "row = new_row x" by simp
      with True x(2,4) eh sk(1) show ?thesis
        by (simp add: row_ok_def lease_ok_def new_row_def query_of_def)
    next
      case False
      with row de have "row_ok pf p i row" by (simp add: delivery_ok_def)
      then obtain s2 y where r: "lease_ok pf i row" "map_of (states p) (key (ds_target row)) = Some s2"
        "target (head s2) = ds_target row" "generation (placement (head s2)) = ds_generation row"
        "state_outbox s2 i = Some y" "outbox_kind y = ds_kind row" by (auto simp: row_ok_def)
      show ?thesis
      proof (cases "key (ds_target row) = k")
        case True
        with r(2) s have "s2 = s" by simp
        with r True False eh x(2) show ?thesis by (auto simp: row_ok_def)
      next
        case False
        with r show ?thesis by (auto simp: row_ok_def)
      qed
    qed
  next
    fix k' s2 i y assume a: "map_of (states ?p) k' = Some s2" "state_outbox s2 i = Some y"
    have old: "\<exists>row. map_of (delivery ?p) i = Some row \<and> ds_kind row = outbox_kind y \<and> ds_target row = target (head s2)"
      if "map_of (states p) k2 = Some s3" "state_outbox s3 i = Some y" "target (head s3) = target (head s2)" for k2 s3
    proof -
      from de that obtain row where "map_of (delivery p) i = Some row" "ds_kind row = outbox_kind y" "ds_target row = target (head s3)"
        unfolding delivery_ok_def by blast
      with none that(3) show ?thesis by auto
    qed
    show "\<exists>row. map_of (delivery ?p) i = Some row \<and> ds_kind row = outbox_kind y \<and> ds_target row = target (head s2)"
    proof (cases "k' = k")
      case True
      with a have "s2 = s'" by simp
      show ?thesis
      proof (cases "i = outbox_id x")
        case True
        with a(2) \<open>s2 = s'\<close> x(2,4) eh show ?thesis by (simp add: new_row_def query_of_def)
      next
        case False
        with a(2) \<open>s2 = s'\<close> x(2) have "state_outbox s i = Some y" by simp
        with old [OF s this] eh \<open>s2 = s'\<close> show ?thesis by simp
      qed
    next
      case False
      with a(1) have "map_of (states p) k' = Some s2" by simp
      from old [OF this a(2) refl] show ?thesis .
    qed
  qed
  ultimately show "plane_ok pf ?p" by (simp add: plane_ok_def)
  show "plane_grows p ?p"
    using s'(2,3) s none by (auto simp: plane_grows_def)
qed

end
