(* ===== verification/Plane_Invariant.thy ===== *)
theory Plane_Invariant
  imports Plane_Steps
begin

text \<open>
  The operations on branches keep the invariant of the plane and let it grow (\<open>keeps\<close>): publishing
  text, memory and facts, reserving and initializing. Delivery follows in \<open>Plane_Leases\<close>; the
  interfaces are interpreted on the whole plane in \<open>Plane_Runs\<close>.
\<close>

named_theorems step_ok \<open>an operation keeps the invariant and lets the plane grow\<close>

definition keeps :: "platform \<Rightarrow> MemoryPlane \<Rightarrow> MemoryPlane \<Rightarrow> bool" where
  "keeps pf p p' \<longleftrightarrow> plane_ok pf p' \<and> plane_grows p p'"

lemma keeps_refl: "plane_ok pf p \<Longrightarrow> keeps pf p p"
  by (simp add: keeps_def plane_grows_refl)

section \<open>Text\<close>

lemma prepared_recheck:
  assumes "prepareBranchCommit pf c h t now = Inr pc"
  shows "expected c = hd_version h"
  using prepareBranchCommit_Inr(3) [OF assms] .

lemma append_finish_cases:
  assumes ok: "plane_ok pf p" "platform_ok pf" and fl: "flight_ok pf p (Appending c pc)"
    and fin: "append_finish p c pc = Inr (r, p')"
  obtains (dup) s receipt where "p' = p" "r = \<lparr>ao_status = Duplicate, ao_receipt = receipt\<rparr>"
      "map_of (states p) (key (target c)) = Some s" "map_of (receipts s) (eventId (event c)) = Some receipt"
      "rc_payloadHash receipt = payloadHash c"
  | (new) s now where "map_of (states p) (key (target c)) = Some s" "target (head s) = target c" "ver s = expected c"
      "prepareBranchCommit pf c (head s) (text_at s (snapshotId (ver s))) now = Inr pc"
      "publishable pf s (append_head c pc) (pc_content pc) (pc_snapshot pc) [pc_event pc] [pc_receipt pc] (Commit_Outbox (pc_outbox pc))"
      "r = \<lparr>ao_status = Accepted, ao_receipt = pc_receipt pc\<rparr>"
      "p' = p \<lparr>states := AList.update (key (target c)) (publish s (append_head c pc) (pc_content pc) (pc_snapshot pc)
           [pc_event pc] [pc_receipt pc] (Commit_Outbox (pc_outbox pc))) (states p),
         delivery := AList.update (outbox_id (Commit_Outbox (pc_outbox pc))) (new_row (Commit_Outbox (pc_outbox pc))) (delivery p)\<rparr>"
proof -
  have sts: "states_ok pf p" using ok(1) by (simp add: plane_ok_def)
  from fin obtain s where st: "state p c = Inr s" by (auto simp: append_finish_def and_then_Inr_iff)
  note s = state_Inr [OF st sts]
  show ?thesis
  proof (cases "map_of (receipts s) (eventId (event c))")
    case (Some receipt)
    with fin st have "p' = p" "r = \<lparr>ao_status = Duplicate, ao_receipt = receipt\<rparr>" "rc_payloadHash receipt = payloadHash c"
      by (auto simp: append_finish_def duplicate_def split: if_splits)
    with s Some show ?thesis by (intro dup)
  next
    case None
    with fin st have v: "ver s = expected c" and reg: "and_then (registerOutbox p (Commit_Outbox (pc_outbox pc))) (\<lambda>rows.
             Inr (\<lparr>ao_status = Accepted, ao_receipt = pc_receipt pc\<rparr>,
                  p \<lparr>states := AList.update (key (target c)) (append_state s c pc) (states p), delivery := rows\<rparr>)) = Inr (r, p')"
      by (auto simp: append_finish_def duplicate_def split: if_splits)
    from fl obtain h t now where prep: "prepareBranchCommit pf c h t now = Inr pc"
      and hs: "hd_version h = ver s \<longrightarrow> h = head s \<and> t = text_at s (snapshotId (ver s))"
      and pay: "captured_command pf c" using s(1) by (auto simp: flight_ok_def)
    have "hd_version h = ver s" using prepared_recheck [OF prep] v by simp
    with hs prep have prep': "prepareBranchCommit pf c (head s) (text_at s (snapshotId (ver s))) now = Inr pc" by simp
    note pub = append_is_publish [OF prep' pay None]
    have x: "state_outbox s (outbox_id (Commit_Outbox (pc_outbox pc))) = None"
      by (rule publish_outbox_fresh [OF s(4) ok(2) pub(2)])
    have names: "names_outbox pf (target (head s)) (Commit_Outbox (pc_outbox pc)) (outbox_rest (Commit_Outbox (pc_outbox pc)))"
      and cq: "captured_query (Commit_Outbox (pc_outbox pc)) = query_of (head s)"
      using pub(2) by (auto simp: publishable_def names_outbox_def outbox_rest_def json_key_stringify [of _ "number_text pf"]
          query_of_def)
    have s0: "map_of (states p) (key (target (head s))) = Some s" using s(1,2) by simp
    note reg' = register_fresh(2) [OF ok s0 x names cq]
    show ?thesis
      by (rule new [OF s(1,2) v prep' pub(2)]) (use reg in \<open>simp_all add: reg' pub(1)\<close>)
  qed
qed

lemma publish_keeps_plane:
  assumes ok: "plane_ok pf p" "platform_ok pf" and s: "map_of (states p) k = Some s"
    and pub: "publishable pf s h text meta es rs x"
  shows "keeps pf p (p \<lparr>states := AList.update k (publish s h text meta es rs x) (states p),
      delivery := AList.update (outbox_id x) (new_row x) (delivery p)\<rparr>)"
proof -
  have st: "state_ok pf s" using ok(1) s by (auto simp: plane_ok_def states_ok_def)
  note p = publishableD [OF pub]
  have q: "captured_query x = query_of (head s)" using pub p(3,4) by (simp add: publishable_def query_of_def)
  have names: "names_outbox pf (target (head s)) x (outbox_rest x)"
    using pub p(3) by (cases x) (auto simp: publishable_def names_outbox_def outbox_rest_def json_key_stringify [of _ "number_text pf"])
  have "state_outbox (publish s h text meta es rs x) = (state_outbox s)(outbox_id x \<mapsto> x)"
    by (simp add: fun_eq_iff state_outbox_publish)
  from publication_ok [OF ok s state_ok_publish [OF st ok(2) pub] extends_publish [OF st ok(2) pub] progress_publish [OF pub]
      publish_outbox_fresh [OF st ok(2) pub] this names q]
  show ?thesis by (simp add: keeps_def)
qed

lemma append_finish_ok [step_ok]:
  assumes "plane_ok pf p" "platform_ok pf" "flight_ok pf p (Appending c pc)" "append_finish p c pc = Inr (r, p')"
  shows "keeps pf p p'"
  using assms
proof (cases rule: append_finish_cases)
  case (dup s receipt)
  with assms(1) show ?thesis by (simp add: keeps_refl)
next
  case (new s now)
  from publish_keeps_plane [OF assms(1,2) new(1,5)] show ?thesis by (simp only: new(7))
qed

lemma append_begin_flight:
  assumes ok: "plane_ok pf p" and b: "append_begin pf p now i = Inr (Append_Prepared c pc)"
  shows "flight_ok pf p (Appending c pc)"
proof -
  have sts: "states_ok pf p" using ok by (simp add: plane_ok_def)
  from b obtain s cur where fr: "BranchAppendCommand_fromRecord pf i = Inr c" and st: "state p c = Inr s"
    and cur: "map_of (snapshots s) (snapshotId (ver s)) = Some cur"
    and prep: "prepareBranchCommit pf c (head s) (content cur) now = Inr pc"
    unfolding append_begin_def by (auto simp: result_simps split: option.splits)
  note s = state_Inr [OF st sts]
  have "captured_command pf c" using fr by (rule fromRecord_captured)
  moreover have "content cur = text_at s (snapshotId (ver s))" using cur by (simp add: text_at_def)
  ultimately show ?thesis using s(1) prep unfolding flight_ok_def in_flight.case by blast
qed

lemma batch_begin_flight:
  assumes "batch_begin pf p now c = Inr (s, pb)" and c: "captured_batch c"
  shows "flight_ok pf p (Batching c n s pb)"
proof -
  from assms obtain cur where "map_of (snapshots s) (snapshotId (ver s)) = Some cur"
    "prepareBranchBatch pf c (hashBranchBatchEvents pf (events c)) (head s) (content cur) (receipts s) now = Inr pb"
    by (auto simp: batch_begin_def result_simps split: option.splits)
  with c show ?thesis by (auto simp: flight_ok_def text_at_def)
qed

lemma batch_finish_cases:
  assumes ok: "plane_ok pf p" "platform_ok pf" and fl: "flight_ok pf p (Batching c n s pb)"
    and fin: "batch_finish p c s pb = Inr (Batch_Done r p')"
  obtains (nothing) "p' = p" "r = pb_result pb" "map_of (states p) (key (target c)) = Some s"
      "ba_snapshot (pb_result pb) = None \<or> pb_outbox pb = None"
  | (new) meta x where "map_of (states p) (key (target c)) = Some s" "r = pb_result pb"
      "publishable pf s (batch_head c pb) (ba_content (pb_result pb)) meta (ba_acceptedEvents (pb_result pb))
         (pb_receipts pb) (Batch_Outbox x)"
      "p' = p \<lparr>states := AList.update (key (target c)) (publish s (batch_head c pb) (ba_content (pb_result pb)) meta
           (ba_acceptedEvents (pb_result pb)) (pb_receipts pb) (Batch_Outbox x)) (states p),
         delivery := AList.update (outbox_id (Batch_Outbox x)) (new_row (Batch_Outbox x)) (delivery p)\<rparr>"
proof -
  have sts: "states_ok pf p" using ok(1) by (simp add: plane_ok_def)
  from fin have st: "state p c = Inr s" by (auto simp: batch_finish_def and_then_Inr_iff split: if_splits)
  note s = state_Inr [OF st sts]
  show ?thesis
  proof (cases "ba_snapshot (pb_result pb) = None \<or> pb_outbox pb = None")
    case True
    with fin st have same: "p' = p" "r = pb_result pb" by (auto simp: batch_finish_def split: option.splits)
    show ?thesis using same s(1) True by (rule nothing)
  next
    case False
    then obtain meta x where mx: "ba_snapshot (pb_result pb) = Some meta" "pb_outbox pb = Some x" by auto
    from fl obtain now where prep: "prepareBranchBatch pf c (hashBranchBatchEvents pf (events c)) (head s)
        (text_at s (snapshotId (ver s))) (receipts s) now = Inr pb" and cap: "captured_batch c" by (auto simp: flight_ok_def)
    note pub = batch_is_publish [OF prep mx cap]
    have x: "state_outbox s (outbox_id (Batch_Outbox x)) = None"
      by (rule publish_outbox_fresh [OF s(4) ok(2) pub(2)])
    have names: "names_outbox pf (target (head s)) (Batch_Outbox x) (outbox_rest (Batch_Outbox x))"
      and cq: "captured_query (Batch_Outbox x) = query_of (head s)"
      using pub(2) publishableD(3,4) [OF pub(2)] by (auto simp: publishable_def names_outbox_def outbox_rest_def query_of_def)
    have s0: "map_of (states p) (key (target (head s))) = Some s" using s(1,2) by simp
    note reg = register_fresh(2) [OF ok s0 x names cq]
    show ?thesis
      by (rule new [OF s(1) _ pub(2)]) (use fin st mx in \<open>auto simp: batch_finish_def reg pub(1)\<close>)
  qed
qed

lemma batch_finish_ok [step_ok]:
  assumes "plane_ok pf p" "platform_ok pf" "flight_ok pf p (Batching c n s pb)" "batch_finish p c s pb = Inr (Batch_Done r p')"
  shows "keeps pf p p'"
  using assms
proof (cases rule: batch_finish_cases)
  case nothing
  with assms(1) show ?thesis by (simp add: keeps_refl)
next
  case (new meta x)
  from publish_keeps_plane [OF assms(1,2) new(1,3)] show ?thesis by (simp only: new(4))
qed

section \<open>Memory\<close>

lemma nullMemState_Inr:
  assumes "nullMemState pf p q = Inr s"
  shows "state p q = Inr s"
  using assms by (auto simp: nullMemState_def result_simps split: if_splits)

lemma memory_keeps_plane:
  assumes ok: "plane_ok pf p" "platform_ok pf" and s: "map_of (states p) (key t) = Some s" and m: "memorable pf s mut e"
    and reg: "registerOutbox p (Memory_Outbox e) = Inr rows"
  shows "keeps pf p (p \<lparr>states := AList.update (key t) (memory_state s e (apply_mutation mut (mem_records (nullmem s)))) (states p),
      delivery := rows\<rparr>)"
proof -
  have sts: "states_ok pf p" using ok(1) by (simp add: plane_ok_def)
  note st = state_lookup [OF sts s] and d = memorableD [OF m]
  note n = memory_names [OF m] and fr = memory_outbox_fresh [OF st(2) ok(2) m] and k = state_ok_memory [OF st(2) ok(2) m]
  have q: "captured_query (Memory_Outbox e) = query_of (head s)" by (simp add: d(1))
  have fr': "state_outbox s (outbox_id (Memory_Outbox e)) = None" using fr by simp
  have o: "state_outbox (memory_state s e (apply_mutation mut (mem_records (nullmem s))))
      = (state_outbox s)(outbox_id (Memory_Outbox e) \<mapsto> Memory_Outbox e)"
    by (simp add: fun_eq_iff state_outbox_memory [OF fr])
  have s0: "map_of (states p) (key (target (head s))) = Some s" using s st(1) by simp
  from register_fresh(2) [OF ok s0 fr' n q] reg
  have rows: "rows = AList.update (outbox_id (Memory_Outbox e)) (new_row (Memory_Outbox e)) (delivery p)" by simp
  from publication_ok [OF ok s k fr' o n q] show ?thesis by (simp add: keeps_def rows)
qed

lemma nullmem_schema_set:
  assumes "isNullMemRecord v"
  shows "isNullMemRecord (set_prop ''createdAt'' (j_int n) v)"
  using assms
  by (auto simp: isNullMemRecord_def NullMemCapabilityRecordSchema_def NullMemProcedureRecordSchema_def
      NullMemFactRecordSchema_def req_def opt_def j_int_def)

lemma capturePut_Inr:
  assumes "captureNullMemPut i = Inr c"
  shows "np_actorAccountId c \<noteq> []" "validateNullMemRecord (np_record c) c = Inr ()"
  using assms by (auto simp: captureNullMemPut_def Let_def result_simps validateNullMemRecord_def split: if_splits)

lemma put_memorable:
  assumes c: "captureNullMemPut i = Inr c" and h: "target (head s) = target c" "placement (head s) = placement c"
    and au: "authorizeNullMem (np_actorAccountId c) (head s) = Inr ()"
    and e: "prepareNullMemPut pf c (head s) (mem_revision (nullmem s)) now = Inr e"
  shows "memorable pf s (Put_Record (set_prop ''createdAt'' (j_int now) (np_record c))) e"
    "no_mutation e = Put_Record (set_prop ''createdAt'' (j_int now) (np_record c))"
proof -
  note r = capturePut_Inr [OF c]
  have v: "validateNullMemRecord (set_prop ''createdAt'' (j_int now) (np_record c)) (head s) = Inr ()"
    using r(2) by (simp add: validateNullMemRecord_def nullmem_schema_set h split: if_splits)
  show "memorable pf s (Put_Record (set_prop ''createdAt'' (j_int now) (np_record c))) e"
    unfolding memorable_def
    by (rule exI [of _ "np_actorAccountId c"], rule exI [of _ now]) (use e r(1) au v in \<open>simp add: prepareNullMemPut_def h\<close>)
  show "no_mutation e = Put_Record (set_prop ''createdAt'' (j_int now) (np_record c))"
    using makeOutbox_Inr(2) [OF e [unfolded prepareNullMemPut_def]] .
qed

lemma putNullMem_ok [step_ok]:
  assumes ok: "plane_ok pf p" "platform_ok pf" and put: "putNullMem pf p now i = Inr (e, p')"
  shows "keeps pf p p'"
proof -
  from put obtain c s rows where c: "captureNullMemPut i = Inr c" and st: "nullMemState pf p c = Inr s"
    and au: "authorizeNullMem (np_actorAccountId c) (head s) = Inr ()"
    and e: "prepareNullMemPut pf c (head s) (mem_revision (nullmem s)) now = Inr e"
    and reg: "registerOutbox p (Memory_Outbox e) = Inr rows"
    and p': "p' = p \<lparr>states := AList.update (key (target c)) (memory_state s e (case no_mutation e of
             Put_Record r \<Rightarrow> AList.update (nullMemRecordIdentity r) r (mem_records (nullmem s))
           | Delete_Record _ \<Rightarrow> mem_records (nullmem s))) (states p), delivery := rows\<rparr>"
    unfolding putNullMem_def Let_def by (auto simp: result_simps)
  have sts: "states_ok pf p" using ok(1) by (simp add: plane_ok_def)
  note s = state_Inr [OF nullMemState_Inr [OF st] sts]
  note m = put_memorable [OF c s(2,3) au e]
  from memory_keeps_plane [OF ok s(1) m(1) reg] show ?thesis by (simp add: p' m(2) apply_mutation_def)
qed

lemma deleteNullMem_ok [step_ok]:
  assumes ok: "plane_ok pf p" "platform_ok pf" and del: "deleteNullMem pf p now i = Inr (e, p')"
  shows "keeps pf p p'"
proof -
  from del obtain c s rows where c: "captureNullMemDelete i = Inr c" and st: "nullMemState pf p c = Inr s"
    and au: "authorizeNullMem (nd_actorAccountId c) (head s) = Inr ()"
    and e: "prepareNullMemDelete pf c (head s) (mem_revision (nullmem s)) now = Inr e"
    and reg: "registerOutbox p (Memory_Outbox e) = Inr rows"
    and p': "p' = p \<lparr>states := AList.update (key (target c)) (memory_state s e
        (filter (\<lambda>(_, r). record_id r \<noteq> nd_recordId c) (mem_records (nullmem s)))) (states p), delivery := rows\<rparr>"
    unfolding deleteNullMem_def Let_def by (auto simp: result_simps)
  have sts: "states_ok pf p" using ok(1) by (simp add: plane_ok_def)
  note s = state_Inr [OF nullMemState_Inr [OF st] sts]
  have "nd_actorAccountId c \<noteq> []" using c by (auto simp: captureNullMemDelete_def result_simps split: if_splits)
  then have "memorable pf s (Delete_Record (nd_recordId c)) e"
    unfolding memorable_def
    by (intro exI [of _ "nd_actorAccountId c"] exI [of _ now]) (use e au in \<open>simp add: prepareNullMemDelete_def s(2,3)\<close>)
  from memory_keeps_plane [OF ok s(1) this reg] show ?thesis by (simp add: p' apply_mutation_def)
qed

section \<open>Facts\<close>

lemma fact_factual:
  assumes s: "state_ok pf s" and pl: "platform_ok pf" and c: "captureRuntimeFactAppend i = Inr c"
    and h: "target (head s) = target c" "placement (head s) = placement c"
    and none: "map_of (runtimeFacts s) (runtimeFactIdentity pf (rf_fact c)) = None"
    and new: "\<not> list_ex (\<lambda>(_, _, receipt). fe_factId (fr_event receipt) = nullplugUiRuntimeFactId (rf_fact c) \<or>
                fr_key receipt = runtimeFactKey (rf_fact c)) (runtimeFacts s)"
    and prep: "prepareRuntimeFactReceipt pf c (head s) (int (length (runtimeFacts s)) - 1)
       (hashRuntimeFactIntent pf (runtimeFactIntent pf (rf_fact c))) now = Inr r"
  shows "factual pf s (runtimeFactIdentity pf (rf_fact c)) (runtimeFactIntent pf (rf_fact c)) r (runtimeFactOutbox pf c r)"
proof -
  note q = prepareRuntimeFactReceipt_Inr [OF prep]
  have v: "valid_version (ver s)" using state_ok_head [OF s] head_ok_versions(1) by blast
  have hash: "isNulldownSourceHash (hashRuntimeFactIntent pf (runtimeFactIntent pf (rf_fact c)))"
    unfolding hashRuntimeFactIntent_def using pl by (intro hash_is_source_hash) (simp add: platform_ok_def)
  have "validateRuntimeFactReceipt pf r (head s) False = Inr ()"
    by (rule prepared_fact_receipt_validates [OF prep capture_fact [OF c] _ v hash]) (simp add: h)
  then have "fact_entry_ok pf s (length (runtimeFacts s)) (runtimeFactIdentity pf (rf_fact c), runtimeFactIntent pf (rf_fact c), r)"
    by (simp add: fact_entry_ok_def q)
  moreover have "runtimeFactOutbox pf c r = runtimeFactOutbox pf (head s) r" by (simp add: runtimeFactOutbox_def h)
  moreover have "list_all (\<lambda>(_, _, x). fe_factId (fr_event x) \<noteq> fe_factId (fr_event r) \<and> fr_key x \<noteq> fr_key r) (runtimeFacts s)"
    using new by (auto simp: list_all_iff list_ex_iff q)
  ultimately show ?thesis using none by (simp add: factual_def)
qed

lemma appendRuntimeFact_cases:
  assumes "appendRuntimeFact pf p now i = Inr (a, p')"
  obtains (known) c s intent r where "captureRuntimeFactAppend i = Inr c" "state p c = Inr s" "p' = p"
      "map_of (runtimeFacts s) (runtimeFactIdentity pf (rf_fact c)) = Some (intent, r)" "intent = runtimeFactIntent pf (rf_fact c)"
      "fa_receipt a = r" "\<not> fa_appended a"
  | (new) c s r rows where "captureRuntimeFactAppend i = Inr c" "state p c = Inr s"
      "map_of (runtimeFacts s) (runtimeFactIdentity pf (rf_fact c)) = None"
      "\<not> list_ex (\<lambda>(_, _, receipt). fe_factId (fr_event receipt) = nullplugUiRuntimeFactId (rf_fact c) \<or>
                fr_key receipt = runtimeFactKey (rf_fact c)) (runtimeFacts s)"
      "prepareRuntimeFactReceipt pf c (head s) (int (length (runtimeFacts s)) - 1)
         (hashRuntimeFactIntent pf (runtimeFactIntent pf (rf_fact c))) now = Inr r"
      "registerOutbox p (Fact_Outbox (runtimeFactOutbox pf c r)) = Inr rows" "fa_receipt a = r" "fa_appended a"
      "p' = p \<lparr>states := AList.update (key (target c)) (fact_state s (runtimeFactIdentity pf (rf_fact c))
          (runtimeFactIntent pf (rf_fact c)) r (runtimeFactOutbox pf c r)) (states p), delivery := rows\<rparr>"
proof -
  have same: "runtimeFactOutbox pf \<lparr>target = target c, placement = placement c\<rparr> r = runtimeFactOutbox pf c r" for c r
    by (simp add: runtimeFactOutbox_def)
  from assms obtain c s where c: "captureRuntimeFactAppend i = Inr c" and s: "state p c = Inr s"
    unfolding appendRuntimeFact_def by (auto simp: result_simps Let_def)
  show ?thesis
  proof (cases "map_of (runtimeFacts s) (runtimeFactIdentity pf (rf_fact c))")
    case (Some k)
    then obtain intent r where "map_of (runtimeFacts s) (runtimeFactIdentity pf (rf_fact c)) = Some (intent, r)" by (cases k) auto
    with assms c s show ?thesis
      unfolding appendRuntimeFact_def by (intro known [of c s intent r]) (auto simp: result_simps Let_def split: if_splits)
  next
    case None
    with assms c s obtain r rows where
      "prepareRuntimeFactReceipt pf c (head s) (int (length (runtimeFacts s)) - 1)
         (hashRuntimeFactIntent pf (runtimeFactIntent pf (rf_fact c))) now = Inr r"
      "registerOutbox p (Fact_Outbox (runtimeFactOutbox pf c r)) = Inr rows"
      "p' = p \<lparr>states := AList.update (key (target c)) (fact_state s (runtimeFactIdentity pf (rf_fact c))
          (runtimeFactIntent pf (rf_fact c)) r (runtimeFactOutbox pf c r)) (states p), delivery := rows\<rparr>"
      "a = \<lparr>target = target c, placement = placement c, fa_appended = True, fa_receipt = r\<rparr>"
      "\<not> list_ex (\<lambda>(_, _, receipt). fe_factId (fr_event receipt) = nullplugUiRuntimeFactId (rf_fact c) \<or>
                fr_key receipt = runtimeFactKey (rf_fact c)) (runtimeFacts s)"
      unfolding appendRuntimeFact_def by (auto simp: result_simps Let_def same split: if_splits)
    with c s None show ?thesis by (intro new [of c s r rows]) simp_all
  qed
qed

lemma appendRuntimeFact_ok [step_ok]:
  assumes ok: "plane_ok pf p" "platform_ok pf" and app: "appendRuntimeFact pf p now i = Inr (a, p')"
  shows "keeps pf p p'"
  using app
proof (cases rule: appendRuntimeFact_cases)
  case (known c s intent r)
  with ok(1) show ?thesis by (simp add: keeps_refl)
next
  case (new c s r rows)
  let ?k = "runtimeFactIdentity pf (rf_fact c)" and ?i = "runtimeFactIntent pf (rf_fact c)" and ?x = "runtimeFactOutbox pf c r"
  have sts: "states_ok pf p" using ok(1) by (simp add: plane_ok_def)
  note s = state_Inr [OF new(2) sts]
  note f = fact_factual [OF s(4) ok(2) new(1) s(2,3) new(3,4,5)]
  note fr = fact_outbox_fresh [OF s(4) ok(2) f] and k = state_ok_fact [OF s(4) ok(2) f]
  have x: "?x = runtimeFactOutbox pf (head s) r" using f by (simp add: factual_def)
  have n: "names_outbox pf (target (head s)) (Fact_Outbox ?x) (outbox_rest (Fact_Outbox ?x))"
    unfolding x by (rule runtimeFactOutbox_names)
  have q: "captured_query (Fact_Outbox ?x) = query_of (head s)" unfolding x by (simp add: runtimeFactOutbox_def query_of_def)
  have fr': "state_outbox s (outbox_id (Fact_Outbox ?x)) = None" using fr by simp
  have o: "state_outbox (fact_state s ?k ?i r ?x) = (state_outbox s)(outbox_id (Fact_Outbox ?x) \<mapsto> Fact_Outbox ?x)"
    by (simp add: fun_eq_iff state_outbox_fact [OF fr])
  have s0: "map_of (states p) (key (target (head s))) = Some s" using s(1,2) by simp
  from register_fresh(2) [OF ok s0 fr' n q] new(6)
  have rows: "rows = AList.update (outbox_id (Fact_Outbox ?x)) (new_row (Fact_Outbox ?x)) (delivery p)" by simp
  from publication_ok [OF ok s(1) k fr' o n q] show ?thesis by (simp add: keeps_def new(9) rows)
qed

section \<open>Lifecycle\<close>

text \<open>Changing what is reserved for a branch that has no state yet.\<close>

lemma authority_keeps_plane:
  assumes ok: "plane_ok pf p" and a: "authority_ok pf p k a" "map_of (authorities p) k = None"
  shows "keeps pf p (p \<lparr>authorities := AList.update k a (authorities p)\<rparr>)"
proof -
  let ?p = "p \<lparr>authorities := AList.update k a (authorities p)\<rparr>"
  have au: "authorities_ok pf p" and st: "states_ok pf p" and de: "delivery_ok pf p" using ok by (simp_all add: plane_ok_def)
  have "authority_ok pf ?p k' a' = authority_ok pf p k' a'" for k' a'
    by (cases "au_state a'") (simp_all add: authority_ok_def)
  with au a have "authorities_ok pf ?p" by (simp add: authorities_ok_def)
  moreover have "states_ok pf ?p" using st by (simp add: states_ok_def)
  moreover have "delivery_ok pf ?p" using de by (simp add: delivery_ok_def row_ok_def)
  moreover have "plane_grows p ?p" using a(2) by (auto simp: plane_grows_def)
  ultimately show ?thesis by (simp add: keeps_def plane_ok_def)
qed

lemma reserve_cases:
  assumes "reserve p now i = Inr (r, p')"
  obtains (existing) a where "BranchLifecycleQuery_reserve i = Inr i" "map_of (authorities p) (key (target i)) = Some a"
      "p' = p" "r = \<lparr>ro_status = Existing_Reservation, ro_authority = a\<rparr>"
      "generation (placement a) = generation (placement i)"
      "sameBranchInitializationIdentity (rv_identity (au_reservation a)) (rs_identity i)"
  | (reserved) a where "BranchLifecycleQuery_reserve i = Inr i" "map_of (authorities p) (key (target i)) = None"
      "map_of (states p) (key (target i)) = None" "is_safe_integer now" "0 \<le> now" "routingVersion (placement i) = 1"
      "a = \<lparr>target = target i, placement = placement i, au_state = Pending_Authority,
         au_reservation = \<lparr>rv_reservationId = rs_reservationId i, rv_identity = rs_identity i,
           rv_rootRevision = rs_rootRevision i, rv_createdAt = now\<rparr>\<rparr>"
      "r = \<lparr>ro_status = Reserved, ro_authority = a\<rparr>"
      "p' = p \<lparr>authorities := AList.update (key (target i)) a (authorities p)\<rparr>"
proof -
  from assms obtain c where "BranchLifecycleQuery_reserve i = Inr c" by (auto simp: reserve_def and_then_Inr_iff)
  with reserve_Inr [OF this] have c: "BranchLifecycleQuery_reserve i = Inr i" by simp
  show ?thesis
  proof (cases "map_of (authorities p) (key (target i))")
    case None
    with assms c show ?thesis
      by (intro reserved) (auto simp: reserve_def Let_def split: if_splits)
  next
    case (Some a)
    with assms c show ?thesis by (intro existing [of a]) (auto simp: reserve_def Let_def split: if_splits)
  qed
qed

lemma reserve_ok [step_ok]:
  assumes ok: "plane_ok pf p" and r: "reserve p now i = Inr (r, p')"
  shows "keeps pf p p'"
  using r
proof (cases rule: reserve_cases)
  case (existing a)
  with ok show ?thesis by (simp add: keeps_refl)
next
  case (reserved a)
  have "map_of (initializations p) (key (target i)) = None"
    using ok reserved(2) unfolding plane_ok_def authorities_ok_def by blast
  with reserved reserve_Inr [OF reserved(1)] have "authority_ok pf p (key (target i)) a"
    by (auto simp: authority_ok_def BranchLifecycleQuery_authority_def BranchStateQuery_head_def valid_reservation_def)
  from authority_keeps_plane [OF ok this reserved(2)] show ?thesis by (simp add: reserved(9))
qed

lemma initialize_begin_flight:
  assumes "initialize_begin pf p i = Inr (c, pr)"
  shows "flight_ok pf p (Initializing c pr)"
  using assms by (auto simp: initialize_begin_def flight_ok_def result_simps split: if_splits option.splits)

lemma initial_head_fields:
  "target (initial_head pf a c) = target c" "placement (initial_head pf a c) = placement c"
  "hd_version (initial_head pf a c) = \<lparr>snapshotId = 0, eventSeq = - 1,
     sourceContentHash = hashNulldownSourceContent pf (in_content c)\<rparr>"
  by (simp_all add: initial_head_def Let_def)

lemma hash_valid_version:
  assumes "platform_ok pf"
  shows "valid_version \<lparr>snapshotId = 0, eventSeq = - 1, sourceContentHash = hashNulldownSourceContent pf t\<rparr>"
  using hash_is_source_hash [of pf t] assms
  by (simp add: valid_version_def platform_ok_def is_safe_integer_def max_safe_integer_def)

lemma initialize_finish_cases:
  assumes ok: "plane_ok pf p" and fl: "flight_ok pf p (Initializing c pr)" and fin: "initialize_finish p c pr = Inr (r, p')"
  obtains (dup) a receipt where "map_of (authorities p) (key (target c)) = Some a" "prepareBranchInitialization pf a c = Inr pr"
      "map_of (initializations p) (key (target c)) = Some (pi_intent pr, receipt)" "au_state a = Active_Authority"
      "p' = p" "r = \<lparr>io_status = Initialize_Duplicate, io_receipt = receipt\<rparr>"
  | (new) a where "map_of (authorities p) (key (target c)) = Some a" "prepareBranchInitialization pf a c = Inr pr"
      "map_of (states p) (key (target c)) = None" "map_of (initializations p) (key (target c)) = None"
      "au_state a = Pending_Authority" "r = \<lparr>io_status = Created, io_receipt = pi_receipt pr\<rparr>"
      "p' = p \<lparr>states := AList.update (key (target c)) (initial_state (initial_head pf a c)
           (initialBranchSnapshot (initial_head pf a c) (in_content c)) (in_content c)) (states p),
         initializations := AList.update (key (target c)) (pi_intent pr, pi_receipt pr) (initializations p),
         authorities := AList.update (key (target c)) (a \<lparr>au_state := Active_Authority\<rparr>) (authorities p)\<rparr>"
proof -
  from fl obtain a where a: "map_of (authorities p) (key (target c)) = Some a" and prep: "prepareBranchInitialization pf a c = Inr pr"
    by (auto simp: flight_ok_def)
  note q = prepareBranchInitialization_Inr [OF prep]
  have snap: "initial_state (initial_head pf a c) m t \<lparr>snapshots := [(0, \<lparr>target = target c, placement = placement c,
      cq_version = hd_version (initial_head pf a c), content = t\<rparr>)]\<rparr> = initial_state (initial_head pf a c) m t" for m t
    by (simp add: initial_state_def initial_head_fields)
  show ?thesis
  proof (cases "au_state a")
    case Active_Authority
    with fin a obtain receipt where "map_of (initializations p) (key (target c)) = Some (pi_intent pr, receipt)"
      "p' = p" "r = \<lparr>io_status = Initialize_Duplicate, io_receipt = receipt\<rparr>"
      by (auto simp: initialize_finish_def Let_def split: if_splits option.splits prod.splits)
    with a prep Active_Authority show ?thesis by (intro dup)
  next
    case Pending_Authority
    with fin a show ?thesis
      by (intro new [OF a prep]) (auto simp: initialize_finish_def Let_def q(7,8) snap simp del: not_None_eq split: if_splits)
  qed
qed

lemma initialize_finish_ok [step_ok]:
  assumes ok: "plane_ok pf p" "platform_ok pf" and fl: "flight_ok pf p (Initializing c pr)"
    and fin: "initialize_finish p c pr = Inr (r, p')"
  shows "keeps pf p p'"
  using ok(1) fl fin
proof (cases rule: initialize_finish_cases)
  case (dup a receipt)
  with ok show ?thesis by (simp add: keeps_refl)
next
  case (new a)
  let ?k = "key (target c)"
  let ?s = "initial_state (initial_head pf a c) (initialBranchSnapshot (initial_head pf a c) (in_content c)) (in_content c)"
  let ?a = "a \<lparr>au_state := Active_Authority\<rparr>"
  have au: "authorities_ok pf p" and st: "states_ok pf p" and de: "delivery_ok pf p" using ok(1) by (simp_all add: plane_ok_def)
  note q = prepareBranchInitialization_Inr [OF new(2)]
  have aok: "authority_ok pf p ?k a" using au new(1) by (simp add: authorities_ok_def)
  then have t: "target a = target c" by (simp add: authority_ok_def)
  have rv: "routingVersion (placement c) = 1" using aok authority_Inr [of a a] q(3) by (simp add: authority_ok_def)
  have sok: "state_ok pf ?s"
  proof (rule initial_state_ok)
    show "coherent_head (initial_head pf a c)"
      using q(1,2) hash_valid_version [OF ok(2)]
      by (simp add: coherent_head_def head_consistent_def initial_head_fields) (simp add: initial_head_def Let_def)
  qed (simp_all add: initial_head_fields rv)
  have hd: "head ?s = initial_head pf a c" "text_at ?s 0 = in_content c" "state_outbox ?s = Map.empty"
    by (simp_all add: initial_state_def text_at_def state_outbox_def fun_eq_iff)
  have "states_ok pf p'" using st sok by (auto simp: states_ok_def new(7) hd(1) initial_head_fields)
  moreover have "authorities_ok pf p'"
    unfolding authorities_ok_def
  proof (intro conjI allI impI)
    fix k b assume b: "map_of (authorities p') k = Some b"
    show "authority_ok pf p' k b"
    proof (cases "k = ?k")
      case True
      with b have "b = ?a" by (simp add: new(7))
      moreover have "prepareBranchInitialization pf ?a c = Inr pr"
        using prepare_init_cong [of ?a a pf c] new(2) by simp
      moreover have "BranchLifecycleQuery_authority ?a = Inr ?a"
        using aok by (auto simp: authority_ok_def BranchLifecycleQuery_authority_def BranchStateQuery_head_def split: if_splits)
      ultimately show ?thesis using True t q(3) hd by (auto simp: authority_ok_def new(7) initial_head_fields)
    next
      case False
      with b au have "authority_ok pf p k b" by (simp add: new(7) authorities_ok_def)
      with False show ?thesis by (cases "au_state b") (auto simp: authority_ok_def new(7))
    qed
  qed (use au in \<open>auto simp: authorities_ok_def new(7)\<close>)
  moreover have "delivery_ok pf p'"
  proof -
    have "row_ok pf p' i row" if "row_ok pf p i row" for i row
      using that new(3) by (auto simp: row_ok_def new(7))
    with de show ?thesis unfolding delivery_ok_def new(7) by (auto simp: hd split: if_splits)
  qed
  moreover have "plane_grows p p'"
    using new(1,3,4,5) by (auto simp: plane_grows_def new(7) map_le_def)
  ultimately show ?thesis by (simp add: keeps_def plane_ok_def)
qed

end
