(* ===== verification/Plane_Leases.thy ===== *)
theory Plane_Leases
  imports Plane_Invariant
begin

text \<open>
  Delivery in a plane: claiming, completing, releasing and pruning only rewrite rows, never lose one,
  and keep every lease complete. \<open>claim_result\<close> describes exactly what a claim hands out: the due rows
  in the order of their ids up to the limit, each under the token of its next attempt.
\<close>

section \<open>Rewriting rows\<close>

definition record_of :: "OutboxDeliveryState \<Rightarrow> jstring \<times> BranchStateTarget \<times> int" where
  "record_of row = (ds_kind row, ds_target row, ds_generation row)"

lemma record_of_rows [simp]:
  "record_of (claimed_row l t c row) = record_of row" "record_of (fenced_row row) = record_of row"
  "record_of (completed_row n row) = record_of row" "record_of (retried_row e t row) = record_of row"
  "record_of (pruned_row row) = record_of row"
  by (simp_all add: record_of_def claimed_row_def fenced_row_def completed_row_def retried_row_def pruned_row_def)

definition rows_evolve :: "platform \<Rightarrow> delivery_map \<Rightarrow> delivery_map \<Rightarrow> bool" where
  "rows_evolve pf rows rows' \<longleftrightarrow> jsmap_wf rows' \<and> dom (map_of rows') = dom (map_of rows) \<and>
     (\<forall>i row'. map_of rows' i = Some row' \<longrightarrow>
        lease_ok pf i row' \<and> (\<exists>row. map_of rows i = Some row \<and> record_of row' = record_of row \<and> row_le row row'))"

lemma rows_keep_plane:
  assumes ok: "plane_ok pf p" and r: "rows_evolve pf (delivery p) rows"
  shows "keeps pf p (p \<lparr>delivery := rows\<rparr>)"
proof -
  let ?p = "p \<lparr>delivery := rows\<rparr>"
  have au: "authorities_ok pf p" and st: "states_ok pf p" and de: "delivery_ok pf p" using ok by (simp_all add: plane_ok_def)
  have "authority_ok pf ?p k a = authority_ok pf p k a" for k a by (cases "au_state a") (simp_all add: authority_ok_def)
  with au have "authorities_ok pf ?p" by (simp add: authorities_ok_def)
  moreover have "states_ok pf ?p" using st by (simp add: states_ok_def)
  moreover have "delivery_ok pf ?p"
    unfolding delivery_ok_def
  proof (intro conjI allI impI)
    show "jsmap_wf (delivery ?p)" using r by (simp add: rows_evolve_def)
  next
    fix i row' assume "map_of (delivery ?p) i = Some row'"
    then have "map_of rows i = Some row'" by simp
    with r obtain row where "lease_ok pf i row'" "map_of (delivery p) i = Some row" "record_of row' = record_of row"
      unfolding rows_evolve_def by blast
    with de show "row_ok pf ?p i row'" by (auto simp: delivery_ok_def row_ok_def record_of_def)
  next
    fix k s i x assume "map_of (states ?p) k = Some s" and x: "state_outbox s i = Some x"
    then have "map_of (states p) k = Some s" by simp
    with de x obtain row where row: "map_of (delivery p) i = Some row" "ds_kind row = outbox_kind x" "ds_target row = target (head s)"
      unfolding delivery_ok_def by blast
    with r have "i \<in> dom (map_of rows)" by (auto simp: rows_evolve_def)
    with r row obtain row' where "map_of rows i = Some row'" "record_of row' = record_of row"
      unfolding rows_evolve_def by fastforce
    with row show "\<exists>row. map_of (delivery ?p) i = Some row \<and> ds_kind row = outbox_kind x \<and> ds_target row = target (head s)"
      by (auto simp: record_of_def)
  qed
  moreover have "plane_grows p ?p"
  proof -
    have "\<exists>row'. map_of rows i = Some row' \<and> row_le row row'" if "map_of (delivery p) i = Some row" for i row
    proof -
      from that r have "i \<in> dom (map_of rows)" by (auto simp: rows_evolve_def)
      then obtain row' where "map_of rows i = Some row'" by blast
      with r that show ?thesis unfolding rows_evolve_def by fastforce
    qed
    then show ?thesis by (auto simp: plane_grows_def)
  qed
  ultimately show ?thesis by (simp add: keeps_def plane_ok_def)
qed

lemma map_of_update_row: "map_of (update_row f i rows) j = (if j = i then map_option f (map_of rows j) else map_of rows j)"
  by (simp add: update_row_def split: option.split)

lemma map_of_update_rows:
  assumes "distinct (map g xs)"
  shows "map_of (foldl (\<lambda>rows x. update_row (f x) (g x) rows) rows xs) i =
    (case find (\<lambda>x. g x = i) xs of None \<Rightarrow> map_of rows i | Some x \<Rightarrow> map_option (f x) (map_of rows i))"
  using assms
proof (induction xs arbitrary: rows)
  case (Cons x xs)
  show ?case
  proof (cases "g x = i")
    case True
    with Cons.prems have "find (\<lambda>y. g y = i) xs = None" by (auto simp: find_None_iff image_iff)
    with True Cons show ?thesis by (simp add: map_of_update_row)
  next
    case False
    with Cons have "distinct (map g xs)" by simp
    from Cons.IH [OF this] False show ?thesis by (simp add: map_of_update_row split: option.split)
  qed
qed simp

lemma jsmap_wf_update_row: "jsmap_wf rows \<Longrightarrow> jsmap_wf (update_row f i rows)"
  by (simp add: update_row_def split: option.split)

lemma jsmap_wf_update_rows: "jsmap_wf rows \<Longrightarrow> jsmap_wf (foldl (\<lambda>rows x. update_row (f x) (g x) rows) rows xs)"
  by (induction xs arbitrary: rows) (simp_all add: jsmap_wf_update_row)

lemma update_rows_evolve:
  assumes rows: "jsmap_wf rows" "\<And>i row. map_of rows i = Some row \<Longrightarrow> lease_ok pf i row" and d: "distinct (map g xs)"
    and f: "\<And>x row. x \<in> set xs \<Longrightarrow> map_of rows (g x) = Some row \<Longrightarrow>
        lease_ok pf (g x) (f x row) \<and> record_of (f x row) = record_of row \<and> row_le row (f x row)"
  shows "rows_evolve pf rows (foldl (\<lambda>rows x. update_row (f x) (g x) rows) rows xs)"
  unfolding rows_evolve_def
proof (intro conjI allI impI)
  show "jsmap_wf (foldl (\<lambda>rows x. update_row (f x) (g x) rows) rows xs)" by (rule jsmap_wf_update_rows [OF rows(1)])
  show "dom (map_of (foldl (\<lambda>rows x. update_row (f x) (g x) rows) rows xs)) = dom (map_of rows)"
    by (auto simp: dom_def map_of_update_rows [OF d] split: option.splits)
next
  fix i row' assume r: "map_of (foldl (\<lambda>rows x. update_row (f x) (g x) rows) rows xs) i = Some row'"
  show "lease_ok pf i row'" "\<exists>row. map_of rows i = Some row \<and> record_of row' = record_of row \<and> row_le row row'"
  proof (atomize (full), cases "find (\<lambda>x. g x = i) xs")
    case None
    with r rows(2) show "lease_ok pf i row' \<and> (\<exists>row. map_of rows i = Some row \<and> record_of row' = record_of row \<and> row_le row row')"
      by (simp add: map_of_update_rows [OF d])
  next
    case (Some x)
    with r obtain row where row: "map_of rows i = Some row" "row' = f x row" by (auto simp: map_of_update_rows [OF d])
    from Some have "x \<in> set xs" "g x = i" by (auto simp: find_Some_iff)
    with f [of x row] row show "lease_ok pf i row' \<and> (\<exists>row. map_of rows i = Some row \<and> record_of row' = record_of row \<and> row_le row row')" by auto
  qed
qed

lemma plane_rows:
  assumes "plane_ok pf p"
  shows "jsmap_wf (delivery p)" "\<And>i row. map_of (delivery p) i = Some row \<Longrightarrow> lease_ok pf i row"
  using assms by (auto simp: plane_ok_def delivery_ok_def row_ok_def)

section \<open>Claims\<close>

definition due :: "BranchOutboxClaimCommand \<Rightarrow> OutboxDeliveryState \<Rightarrow> bool" where
  "due command row \<longleftrightarrow> (ds_status row = Pending \<or> ds_status row = Claimed) \<and> ds_nextAttemptAt row \<le> oc_now command"

definition selection_of :: "jstring \<Rightarrow> OutboxDeliveryState \<Rightarrow> jstring \<Rightarrow> claim_selection" where
  "selection_of i row token = \<lparr>cs_id = i,
     cs_item = \<lparr>target = ds_target row, placement = \<lparr>routingVersion = 1, generation = ds_generation row\<rparr>,
       di_outboxId = i, di_leaseToken = token\<rparr>,
     cs_attempt = ds_attempt row + 1\<rparr>"

text \<open>In a plane that satisfies the invariant no row is fenced and only the token can fail.\<close>

lemma claim_row_ok:
  assumes ok: "plane_ok pf p" and row: "map_of (delivery p) i = Some row"
  shows "claim_row pf p command (i, row) =
    (if due command row
     then and_then (outboxLeaseToken pf (oc_leaseId command) i (ds_attempt row + 1)) (\<lambda>t. Inr (Select_Row (selection_of i row t)))
     else Inr Skip_Row)"
proof -
  have sts: "states_ok pf p" using ok by (simp add: plane_ok_def)
  have "row_ok pf p i row" using ok row by (auto simp: plane_ok_def delivery_ok_def)
  then obtain s x where l: "lease_ok pf i row" and s: "map_of (states p) (key (ds_target row)) = Some s"
    and t: "target (head s) = ds_target row" "generation (placement (head s)) = ds_generation row"
    and x: "state_outbox s i = Some x" "outbox_kind x = ds_kind row" by (auto simp: row_ok_def)
  note st = state_lookup(2) [OF sts s]
  have q: "captured_query x = query_of (head s)" by (rule state_outbox_ok(2) [OF st x(1)])
  have "coherent_head (head s)" using state_ok_head [OF st] by (simp add: head_ok_def)
  then have cp: "canonicalOutboxPlacement x = Inr (query_of (head s))"
    by (simp add: canonical_placement_Inr_iff q coherent_head_def)
  have by_id: "canonicalOutboxById p (ds_target row) i = Some x" by (simp add: canonicalOutboxById_bind s x(1))
  show ?thesis
  proof (cases "due command row")
    case True
    then have "\<not> (ds_status row = Completed \<or> ds_status row = Fenced)"
      "\<not> (ds_status row = Claimed \<and> ds_leaseUntil row \<noteq> Some (ds_nextAttemptAt row))"
      "\<not> ds_nextAttemptAt row > oc_now command"
      using l by (auto simp: due_def lease_ok_def)
    with True show ?thesis
      by (auto simp: claim_row_def by_id cp x(2) s t selection_of_def)
  next
    case False
    then have "ds_status row = Completed \<or> ds_status row = Fenced \<or> ds_nextAttemptAt row > oc_now command"
      by (cases "ds_status row") (auto simp: due_def)
    moreover have "\<not> (ds_status row = Claimed \<and> ds_leaseUntil row \<noteq> Some (ds_nextAttemptAt row))"
      using l by (auto simp: lease_ok_def)
    ultimately show ?thesis using False by (auto simp: claim_row_def)
  qed
qed

definition selects :: "platform \<Rightarrow> BranchOutboxClaimCommand \<Rightarrow> jstring \<times> OutboxDeliveryState \<Rightarrow> claim_selection \<Rightarrow> bool" where
  "selects pf command = (\<lambda>(i, row) c. \<exists>token.
     outboxLeaseToken pf (oc_leaseId command) i (ds_attempt row + 1) = Inr token \<and> c = selection_of i row token)"

lemma claim_loop_Inr:
  assumes ok: "plane_ok pf p" and rows: "\<And>i row. (i, row) \<in> set rows \<Longrightarrow> map_of (delivery p) i = Some row"
    and "claim_loop pf p command rows sel [] = Inr (sel', fe)"
  shows "fe = [] \<and> (\<exists>new. sel' = sel @ new \<and>
    list_all2 (selects pf command) (take (nat (oc_limit command) - length sel) (filter (\<lambda>(i, row). due command row) rows)) new)"
  using assms(2,3)
proof (induction rows arbitrary: sel)
  case (Cons r rows)
  obtain i row where r: "r = (i, row)" by fastforce
  note c = claim_row_ok [OF ok Cons.prems(1), of i row command]
  have IH: "\<And>sel. claim_loop pf p command rows sel [] = Inr (sel', fe) \<Longrightarrow> fe = [] \<and> (\<exists>new. sel' = sel @ new \<and>
    list_all2 (selects pf command) (take (nat (oc_limit command) - length sel) (filter (\<lambda>(i, row). due command row) rows)) new)"
    by (rule Cons.IH) (simp_all add: Cons.prems(1))
  show ?case
  proof (cases "int (length sel) \<ge> oc_limit command")
    case True
    with Cons.prems(2) show ?thesis by simp
  next
    case False
    show ?thesis
    proof (cases "due command row")
      case True
      with c False Cons.prems(2) obtain token where
        tk: "outboxLeaseToken pf (oc_leaseId command) i (ds_attempt row + 1) = Inr token"
        and l: "claim_loop pf p command rows (sel @ [selection_of i row token]) [] = Inr (sel', fe)"
        by (auto simp: r result_simps)
      from IH [OF l] obtain new where n: "fe = []" "sel' = sel @ selection_of i row token # new"
        "list_all2 (selects pf command) (take (nat (oc_limit command) - Suc (length sel)) (filter (\<lambda>(i, row). due command row) rows)) new"
        by auto
      have "nat (oc_limit command) - length sel = Suc (nat (oc_limit command) - Suc (length sel))" using False by linarith
      then have "list_all2 (selects pf command) (take (nat (oc_limit command) - length sel)
          (filter (\<lambda>(i, row). due command row) (r # rows))) (selection_of i row token # new)"
        using n(3) True tk by (simp add: r selects_def)
      with n(1,2) show ?thesis by blast
    next
      case False
      with c \<open>\<not> oc_limit command \<le> int (length sel)\<close> Cons.prems(2) have "claim_loop pf p command rows sel [] = Inr (sel', fe)"
        by (simp add: r)
      from IH [OF this] False show ?thesis by (simp add: r)
    qed
  qed
qed simp

lemma claimOutbox_Inr:
  assumes ok: "plane_ok pf p" and c: "claimOutbox pf p command = Inr (d, p')"
  obtains rows sel where "mset rows = mset (delivery p)" "rows = stable_sort (\<lambda>a b. locale_compare pf (fst a) (fst b) < 0) (delivery p)"
    "list_all2 (selects pf command) (take (nat (oc_limit command)) (filter (\<lambda>(i, row). due command row) rows)) sel"
    "distinct (map cs_id sel)"
    "d = \<lparr>dc_leaseId = oc_leaseId command, dc_leaseUntil = oc_now command + oc_leaseMs command, dc_items = map cs_item sel\<rparr>"
    "p' = p \<lparr>delivery := foldl (\<lambda>rows c. update_row (claimed_row (oc_leaseId command)
       (oc_now command + oc_leaseMs command) c) (cs_id c) rows) (delivery p) sel\<rparr>"
    "validateOutboxClaim command = Inr ()"
proof -
  let ?rows = "stable_sort (\<lambda>a b. locale_compare pf (fst a) (fst b) < 0) (delivery p)"
  note wf = plane_rows(1) [OF ok]
  have m: "mset ?rows = mset (delivery p)" by (rule mset_stable_sort)
  have mem: "map_of (delivery p) i = Some row" if "(i, row) \<in> set ?rows" for i row
    using that mset_eq_setD [OF m] by (simp add: map_of_mem_iff [OF wf])
  from c obtain sel fe where v: "validateOutboxClaim command = Inr ()" and l: "claim_loop pf p command ?rows [] [] = Inr (sel, fe)"
    and r: "d = \<lparr>dc_leaseId = oc_leaseId command, dc_leaseUntil = oc_now command + oc_leaseMs command, dc_items = map cs_item sel\<rparr>"
     "p' = p \<lparr>delivery := foldl (\<lambda>rows i. update_row fenced_row i rows) (foldl (\<lambda>rows c. update_row (claimed_row (oc_leaseId command)
       (oc_now command + oc_leaseMs command) c) (cs_id c) rows) (delivery p) sel) fe\<rparr>"
    unfolding claimOutbox_def Let_def by (auto simp: result_simps)
  from claim_loop_Inr [OF ok mem l] have fe: "fe = []" and
    s: "list_all2 (selects pf command) (take (nat (oc_limit command)) (filter (\<lambda>(i, row). due command row) ?rows)) sel"
    by auto
  have "mset (map fst ?rows) = mset (map fst (delivery p))" using m by simp
  from mset_eq_imp_distinct_iff [OF this] wf have "distinct (map fst ?rows)" by (simp add: jsmap_wf_def)
  then have "distinct (map fst (take (nat (oc_limit command)) (filter (\<lambda>(i, row). due command row) ?rows)))"
    by (simp add: distinct_map_filter distinct_take flip: take_map)
  moreover have "map cs_id sel = map fst (take (nat (oc_limit command)) (filter (\<lambda>(i, row). due command row) ?rows))"
    using s by (induction rule: list_all2_induct) (auto simp: selects_def selection_of_def)
  ultimately have "distinct (map cs_id sel)" by simp
  from that [OF m refl s this r(1) _ v] r(2) show ?thesis by (simp add: fe)
qed

lemma selected_row:
  assumes "list_all2 (selects pf command) (take n (filter (\<lambda>(i, row). due command row) rows)) sel" "c \<in> set sel"
  obtains i row token where "(i, row) \<in> set rows" "due command row" "c = selection_of i row token"
    "outboxLeaseToken pf (oc_leaseId command) i (ds_attempt row + 1) = Inr token"
proof -
  from list_all2_memD [OF assms] obtain r where
    "r \<in> set (take n (filter (\<lambda>(i, row). due command row) rows))" "selects pf command r c" by blast
  moreover from this(1) have "r \<in> set (filter (\<lambda>(i, row). due command row) rows)" by (rule in_set_takeD)
  ultimately show ?thesis using that by (auto simp: selects_def)
qed

lemma claimOutbox_ok [step_ok]:
  assumes ok: "plane_ok pf p" and c: "claimOutbox pf p command = Inr (d, p')"
  shows "keeps pf p p'"
  using ok c
proof (rule claimOutbox_Inr)
  fix rows sel
  assume m: "mset rows = mset (delivery p)"
    and sel: "list_all2 (selects pf command) (take (nat (oc_limit command)) (filter (\<lambda>(i, row). due command row) rows)) sel"
    and d: "distinct (map cs_id sel)"
    and p': "p' = p \<lparr>delivery := foldl (\<lambda>rows c. update_row (claimed_row (oc_leaseId command)
       (oc_now command + oc_leaseMs command) c) (cs_id c) rows) (delivery p) sel\<rparr>"
  have "lease_ok pf (cs_id c) (claimed_row (oc_leaseId command) t c row) \<and> row_le row (claimed_row (oc_leaseId command) t c row)"
    if c: "c \<in> set sel" and row: "map_of (delivery p) (cs_id c) = Some row" for c t row
    using sel c
  proof (rule selected_row)
    fix i row' token
    assume i: "(i, row') \<in> set rows" "due command row'" and c': "c = selection_of i row' token"
      and tk: "outboxLeaseToken pf (oc_leaseId command) i (ds_attempt row' + 1) = Inr token"
    have "(i, row') \<in> set (delivery p)" using i(1) mset_eq_setD [OF m] by simp
    then have "map_of (delivery p) i = Some row'" by (simp add: map_of_mem_iff [OF plane_rows(1) [OF ok]])
    with row c' have "row' = row" by (simp add: selection_of_def)
    with lease_token_Inr(4) [OF tk] tk i(2) c' show ?thesis
      by (auto simp: lease_ok_def claimed_row_def selection_of_def row_le_def due_def)
  qed
  then show ?thesis
    unfolding p' by (intro rows_keep_plane [OF ok] update_rows_evolve [OF plane_rows [OF ok] d]) simp_all
qed

section \<open>Completing, releasing and pruning\<close>

lemma completed_lease: "lease_ok pf i row \<Longrightarrow> lease_ok pf i (completed_row n row)"
  by (simp add: lease_ok_def completed_row_def)

lemma retried_lease: "lease_ok pf i row \<Longrightarrow> lease_ok pf i (retried_row e t row)"
  by (simp add: lease_ok_def retried_row_def)

lemma pruned_lease: "lease_ok pf i row \<Longrightarrow> ds_status row = Completed \<Longrightarrow> lease_ok pf i (pruned_row row)"
  by (simp add: lease_ok_def pruned_row_def)

lemma rows_le [simp]:
  "row_le row (completed_row n row)" "ds_status row = Completed \<Longrightarrow> row_le row (pruned_row row)"
  "ds_status row \<noteq> Completed \<Longrightarrow> row_le row (retried_row e t row)"
  by (simp_all add: row_le_def completed_row_def pruned_row_def retried_row_def)

lemma distinct_items: "validateOutboxClaimResult command = Inr () \<Longrightarrow> distinct (map di_outboxId (or_items command))"
  by (auto simp: validateOutboxClaimResult_def length_remdups_card_conv card_distinct split: if_splits)

lemma acknowledgeOutbox_ok [step_ok]:
  assumes ok: "plane_ok pf p" and c: "acknowledgeOutbox p command = Inr (n, p')"
  shows "keeps pf p p'"
proof -
  let ?done = "filter (\<lambda>item. ack_disposition p command item = Acknowledged) (or_items command)"
  from c have v: "validateOutboxClaimResult command = Inr ()"
    and p': "p' = p \<lparr>delivery := foldl (\<lambda>rows i. update_row (completed_row (or_now command)) i rows) (delivery p) (map di_outboxId ?done)\<rparr>"
    by (auto simp: acknowledgeOutbox_def Let_def result_simps)
  have d: "distinct (map (\<lambda>i. i) (map di_outboxId ?done))" using distinct_map_filter [OF distinct_items [OF v]] by simp
  show ?thesis unfolding p'
    by (intro rows_keep_plane [OF ok] update_rows_evolve [OF plane_rows [OF ok] d])
      (auto intro: completed_lease plane_rows(2) [OF ok])
qed

lemma retryOutbox_Inr:
  assumes "retryOutbox p command code = Inr (n, p')"
  obtains retryAt where "validateOutboxClaimResult command = Inr ()" "distinct (map fst retryAt)"
    "list_all2 (\<lambda>(i, row) y. \<exists>t. outboxRetryAt (or_now command) (ds_attempt row) = Inr t \<and> (i, t) = y)
       (List.map_filter (\<lambda>item. map_option (\<lambda>row. (di_outboxId item, row)) (retry_live p command item)) (or_items command)) retryAt"
    "p' = p \<lparr>delivery := foldl (\<lambda>rows x. update_row (retried_row code (snd x)) (fst x) rows) (delivery p) retryAt\<rparr>"
    "\<And>i t. (i, t) \<in> set retryAt \<Longrightarrow> \<exists>row. map_of (delivery p) i = Some row \<and> ds_status row = Claimed \<and>
       outboxRetryAt (or_now command) (ds_attempt row) = Inr t"
proof -
  let ?live = "List.map_filter (\<lambda>item. map_option (\<lambda>row. (di_outboxId item, row)) (retry_live p command item)) (or_items command)"
  from assms obtain retryAt where v: "validateOutboxClaimResult command = Inr ()"
    and m: "list_all2 (\<lambda>(i, row) y. \<exists>t. outboxRetryAt (or_now command) (ds_attempt row) = Inr t \<and> (i, t) = y) ?live retryAt"
    and p': "p' = p \<lparr>delivery := foldl (\<lambda>rows x. update_row (retried_row code (snd x)) (fst x) rows) (delivery p) retryAt\<rparr>"
    unfolding retryOutbox_def Let_def by (auto simp: result_simps case_prod_unfold)
  have "map fst retryAt = map fst ?live" using m by (induction rule: list_all2_induct) auto
  moreover have "map fst ?live = map di_outboxId (filter (\<lambda>item. retry_live p command item \<noteq> None) (or_items command))"
    by (induction "or_items command") (auto simp: List.map_filter_def)
  ultimately have "distinct (map fst retryAt)" using distinct_map_filter [OF distinct_items [OF v]] by simp
  moreover have "\<exists>row. map_of (delivery p) i = Some row \<and> ds_status row = Claimed \<and> outboxRetryAt (or_now command) (ds_attempt row) = Inr t"
    if it: "(i, t) \<in> set retryAt" for i t
  proof -
    from list_all2_memD [OF m it] obtain row where row: "(i, row) \<in> set ?live" "outboxRetryAt (or_now command) (ds_attempt row) = Inr t"
      by auto
    then obtain item where "retry_live p command item = Some row" "di_outboxId item = i"
      by (auto simp: List.map_filter_def)
    with row(2) show ?thesis by (auto simp: retry_live_def lease_live_def split: option.splits if_splits)
  qed
  ultimately show ?thesis using that [OF v _ m p'] by blast
qed

lemma retryOutbox_ok [step_ok]:
  assumes ok: "plane_ok pf p" and c: "retryOutbox p command code = Inr (n, p')"
  shows "keeps pf p p'"
  using c
proof (rule retryOutbox_Inr)
  fix retryAt :: "(jstring \<times> int) list"
  assume live: "\<And>i t. (i, t) \<in> set retryAt \<Longrightarrow> \<exists>row. map_of (delivery p) i = Some row \<and> ds_status row = Claimed \<and>
       outboxRetryAt (or_now command) (ds_attempt row) = Inr t"
    and d: "distinct (map fst retryAt)"
    and p': "p' = p \<lparr>delivery := foldl (\<lambda>rows x. update_row (retried_row code (snd x)) (fst x) rows) (delivery p) retryAt\<rparr>"
  have row: "lease_ok pf (fst x) (retried_row code (snd x) row) \<and>
      record_of (retried_row code (snd x) row) = record_of row \<and> row_le row (retried_row code (snd x) row)"
    if "x \<in> set retryAt" "map_of (delivery p) (fst x) = Some row" for x row
    using live [of "fst x" "snd x"] that retried_lease [OF plane_rows(2) [OF ok that(2)]] by simp
  show ?thesis unfolding p'
    by (intro rows_keep_plane [OF ok] update_rows_evolve [OF plane_rows [OF ok] d]) (assumption, rule row)
qed

lemma prune_loop_rows:
  assumes "prune_loop before n rows = (rows', k)"
  shows "map fst rows' = map fst rows"
    "map_of rows' i = Some row' \<Longrightarrow> \<exists>row. map_of rows i = Some row \<and> (row' = row \<or> ds_status row = Completed \<and> row' = pruned_row row)"
  using assms
  by (induction before n rows arbitrary: rows' k rule: prune_loop.induct) (auto split: if_splits prod.splits)

lemma pruneCompletedOutbox_ok [step_ok]:
  assumes ok: "plane_ok pf p" and c: "pruneCompletedOutbox p before limit = Inr (n, p')"
  shows "keeps pf p p'"
proof -
  from c obtain rows where l: "prune_loop before (nat limit) (delivery p) = (rows, n)" and p': "p' = p \<lparr>delivery := rows\<rparr>"
    by (auto simp: pruneCompletedOutbox_def split: if_splits prod.splits)
  note r = prune_loop_rows [OF l]
  have "rows_evolve pf (delivery p) rows"
    unfolding rows_evolve_def
  proof (intro conjI allI impI)
    show "jsmap_wf rows" using plane_rows(1) [OF ok] by (simp add: jsmap_wf_def r(1))
    show "dom (map_of rows) = dom (map_of (delivery p))" using r(1) by (metis dom_map_of_conv_image_fst list.set_map)
  next
    fix i row' assume "map_of rows i = Some row'"
    from r(2) [OF this] obtain row where row: "map_of (delivery p) i = Some row"
      "row' = row \<or> ds_status row = Completed \<and> row' = pruned_row row" by blast
    with plane_rows(2) [OF ok row(1)] show "lease_ok pf i row'" by (auto simp: pruned_lease)
    from row show "\<exists>row. map_of (delivery p) i = Some row \<and> record_of row' = record_of row \<and> row_le row row'" by auto
  qed
  from rows_keep_plane [OF ok this] show ?thesis by (simp add: p')
qed

end
