(* ===== verification/Plane_Runs.thy ===== *)
theory Plane_Runs
  imports Plane_Leases
begin

text \<open>
  Runs of the memory plane: a created plane satisfies the invariant, every step keeps it and lets the
  plane grow, and the interfaces \<open>invariant_system\<close> and \<open>growing_system\<close> are interpreted on
  \<open>plane_init\<close> and \<open>plane_step\<close>. The properties of the plane under interleaved calls follow.
\<close>

section \<open>Created planes\<close>

lemma capture_seeds_Inr:
  "capture_seeds ks seeds = Inr qs \<Longrightarrow> (seed, query) \<in> set qs \<Longrightarrow> capture_seed seed = Inr query"
  by (induction ks seeds arbitrary: qs rule: capture_seeds.induct) (auto simp: result_simps split: if_splits)

lemma seed_state_ok:
  assumes "platform_ok pf" "capture_seed seed = Inr query"
  shows "state_ok pf (initial_state (seed_head pf seed query)
      (initialBranchSnapshot (seed_head pf seed query) (seed_content seed)) (seed_content seed))"
proof -
  let ?h = "seed_head pf seed query"
  have f: "target ?h = target query" "placement ?h = placement query" "hd_branch ?h = seed_branch seed"
    "hd_version ?h = \<lparr>snapshotId = 0, eventSeq = - 1, sourceContentHash = hashNulldownSourceContent pf (seed_content seed)\<rparr>"
    by (simp_all add: seed_head_def)
  from assms(2) have b: "br_headSnapshotId (seed_branch seed) = 0" "br_headEventSeq (seed_branch seed) = Some (- 1)"
    "target query = \<lparr>rootDropId = br_rootDropId (seed_branch seed), branchId = br_branchId (seed_branch seed)\<rparr>"
    "valid_target (target query)" "valid_placement (placement query)" "routingVersion (placement query) = 1"
    by (auto simp: capture_seed_def Let_def result_simps split: if_splits)
  show "state_ok pf (initial_state ?h (initialBranchSnapshot ?h (seed_content seed)) (seed_content seed))"
    by (rule initial_state_ok)
      (use b hash_valid_version [OF assms(1)] in \<open>simp_all add: coherent_head_def head_consistent_def f\<close>)
qed

lemma initial_state_outbox [simp]: "state_outbox (initial_state h m t) i = None"
  by (simp add: state_outbox_def initial_state_def)

lemma created_ok:
  assumes "platform_ok pf" "create pf seeds = Inr p"
  shows "plane_ok pf p"
proof -
  let ?entry = "\<lambda>(seed, query). (key (target query), initial_state (seed_head pf seed query)
      (initialBranchSnapshot (seed_head pf seed query) (seed_content seed)) (seed_content seed))"
  from assms(2) obtain qs where qs: "capture_seeds [] seeds = Inr qs" and p: "states p = jsmap_set_all (map ?entry qs) []"
    "authorities p = []" "initializations p = []" "delivery p = []"
    by (auto simp: create_def result_simps)
  have look: "\<exists>seed query. (seed, query) \<in> set qs \<and> (k, s) = ?entry (seed, query)" if "map_of (states p) k = Some s" for k s
  proof -
    from that have "map_of (rev (map ?entry qs)) k = Some s" by (simp add: p(1) map_of_jsmap_set_all)
    from map_of_SomeD [OF this] show ?thesis by force
  qed
  have "states_ok pf p"
    unfolding states_ok_def
  proof (intro allI impI)
    fix k s assume "map_of (states p) k = Some s"
    from look [OF this] obtain seed query where e: "(seed, query) \<in> set qs" "(k, s) = ?entry (seed, query)" by blast
    from seed_state_ok [OF assms(1) capture_seeds_Inr [OF qs e(1)]] e(2)
    show "k = key (target (head s)) \<and> state_ok pf s" by (simp add: initial_state_def seed_head_def)
  qed
  moreover have "authorities_ok pf p" by (simp add: authorities_ok_def p)
  moreover have "delivery_ok pf p"
  proof -
    have "state_outbox s i = None" if "map_of (states p) k = Some s" for k s i using look [OF that] by auto
    then show ?thesis by (simp add: delivery_ok_def p)
  qed
  ultimately show ?thesis by (simp add: plane_ok_def)
qed

section \<open>Steps\<close>

lemma flights_keep:
  assumes "plane_ok pf p" "keeps pf p p'" "list_all (flight_ok pf p) fs"
  shows "list_all (flight_ok pf p') fs"
  using assms flight_ok_grows [of pf p p'] by (auto simp: keeps_def list_all_iff)

lemma plane_moves:
  assumes "system_ok pf (p, fs)" "keeps pf p p'" "set gs \<subseteq> set fs"
  shows "system_ok pf (p', gs) \<and> plane_grows p p'"
proof -
  have "list_all (flight_ok pf p) gs" using assms(1,3) by (auto simp: system_ok_def list_all_iff)
  with assms(1,2) show ?thesis using flights_keep [of pf p p' gs] by (simp add: system_ok_def keeps_def)
qed

lemma call_starts:
  assumes "system_ok pf (p, fs)" "flight_ok pf p f" "set gs \<subseteq> insert f (set fs)"
  shows "system_ok pf (p, gs) \<and> plane_grows p p"
  using assms by (auto simp: system_ok_def list_all_iff plane_grows_refl)

lemma step_keeps:
  assumes ok: "system_ok pf s" and st: "plane_step pf s t"
  shows "system_ok pf t \<and> plane_grows (fst s) (fst t)"
proof -
  have pl: "platform_ok pf" and p: "plane_ok pf (fst s)" and fl: "list_all (flight_ok pf (fst s)) (snd s)"
    using ok by (simp_all add: system_ok_def)
  from st show ?thesis
  proof cases
    case (reserves p now i r p' fs)
    with ok p plane_moves reserve_ok show ?thesis by (metis fst_conv order_refl)
  next
    case (starts_initialize p i c pr fs)
    with ok call_starts [of pf p fs "Initializing c pr" "Initializing c pr # fs"] initialize_begin_flight show ?thesis by simp
  next
    case (ends_initialize p c pr r p' fs gs)
    with pl p fl have "keeps pf p p'" by (intro initialize_finish_ok) simp_all
    with ends_initialize ok plane_moves [of pf p "fs @ Initializing c pr # gs" p' "fs @ gs"] show ?thesis by auto
  next
    case (starts_append p now i c pc fs)
    with ok p call_starts [of pf p fs "Appending c pc" "Appending c pc # fs"] append_begin_flight show ?thesis by simp
  next
    case (ends_append p c pc r p' fs gs)
    with pl p fl have "keeps pf p p'" by (intro append_finish_ok) simp_all
    with ends_append ok plane_moves [of pf p "fs @ Appending c pc # gs" p' "fs @ gs"] show ?thesis by auto
  next
    case (starts_batch i c p now s' pb fs)
    then have "captured_batch c" by (auto simp: captured_batch_def)
    with starts_batch ok call_starts [of pf p fs "Batching c 0 s' pb" "Batching c 0 s' pb # fs"] batch_begin_flight
    show ?thesis by simp
  next
    case (ends_batch p c s' pb r p' fs n gs)
    with pl p fl have "keeps pf p p'" by (intro batch_finish_ok [of pf p c n s' pb]) simp_all
    with ends_batch ok plane_moves [of pf p "fs @ Batching c n s' pb # gs" p' "fs @ gs"] show ?thesis by auto
  next
    case (retries_batch p c s0 pb n now s' pb' fs gs)
    with fl have "captured_batch c" by (simp add: flight_ok_def)
    with retries_batch ok call_starts [of pf p "fs @ Batching c n s0 pb # gs" "Batching c (Suc n) s' pb'" "fs @ Batching c (Suc n) s' pb' # gs"]
      batch_begin_flight show ?thesis by auto
  next
    case (rejects p fs f gs)
    with ok p plane_moves [of pf p "fs @ f # gs" p "fs @ gs"] keeps_refl show ?thesis by auto
  next
    case (puts p now i e p' fs)
    with ok p pl plane_moves putNullMem_ok show ?thesis by (metis fst_conv order_refl)
  next
    case (deletes p now j e p' fs)
    with ok p pl plane_moves deleteNullMem_ok show ?thesis by (metis fst_conv order_refl)
  next
    case (facts p now k a p' fs)
    with ok p pl plane_moves appendRuntimeFact_ok show ?thesis by (metis fst_conv order_refl)
  next
    case (claims p oc dc p' fs)
    with ok p plane_moves claimOutbox_ok show ?thesis by (metis fst_conv order_refl)
  next
    case (acknowledges p orc ac p' fs)
    with ok p plane_moves acknowledgeOutbox_ok show ?thesis by (metis fst_conv order_refl)
  next
    case (reschedules p orc code rc p' fs)
    with ok p plane_moves retryOutbox_ok show ?thesis by (metis fst_conv order_refl)
  next
    case (prunes p before limit n' p' fs)
    with ok p plane_moves pruneCompletedOutbox_ok show ?thesis by (metis fst_conv order_refl)
  qed
qed

interpretation plane_invariant: invariant_system "plane_init pf" "plane_step pf" "system_ok pf" for pf
proof
  fix s assume "plane_init pf s"
  then show "system_ok pf s" by cases (simp add: system_ok_def created_ok)
qed (use step_keeps in blast)

interpretation plane: growing_system "plane_init pf" "plane_step pf" "system_ok pf" "\<lambda>s t. plane_grows (fst s) (fst t)"
  for pf
proof
  fix s t assume "system_ok pf s" "plane_step pf s t"
  then show "plane_grows (fst s) (fst t)" using step_keeps by blast
next
  fix s t u :: system assume "plane_grows (fst s) (fst t)" "plane_grows (fst t) (fst u)"
  then show "plane_grows (fst s) (fst u)" by (rule plane_grows_trans)
qed (rule plane_grows_refl)

end
