(* ===== verification/Plane_Examples.thy ===== *)
theory Plane_Examples
  imports Plane_Runs
begin

text \<open>
  Concrete runs of the memory plane, the inputs at which its properties are applied: a plane seeded
  with one empty branch (for any branch id), the append of one event to it, a branch that is reserved
  and initialized, and a claim of the outbox record an append leaves behind.
\<close>

section \<open>One seeded branch and one append\<close>

definition demo_target :: "jstring \<Rightarrow> BranchStateTarget" where
  "demo_target b = \<lparr>rootDropId = js ''d'', branchId = b\<rparr>"

definition demo_seed :: "jstring \<Rightarrow> MemoryBranchStateSeed" where
  "demo_seed b = \<lparr>seed_branch = example_branch \<lparr>br_branchId := b\<rparr>, seed_content = [], seed_placement = example_placement\<rparr>"

definition demo_head :: "jstring \<Rightarrow> BranchStateHead" where
  "demo_head b = \<lparr>target = demo_target b, placement = example_placement, hd_branch = example_branch \<lparr>br_branchId := b\<rparr>,
     hd_version = example_version\<rparr>"

definition demo_state :: "jstring \<Rightarrow> State" where
  "demo_state b = initial_state (demo_head b) (initialBranchSnapshot (demo_head b) []) []"

definition demo_plane :: "jstring \<Rightarrow> MemoryPlane" where
  "demo_plane b = \<lparr>states = [(key (demo_target b), demo_state b)], authorities = [], initializations = [], delivery = []\<rparr>"

text \<open>The example event, with the branch's id as its own.\<close>

definition demo_event :: "jstring \<Rightarrow> DropDiffEvent" where
  "demo_event b = (event example_command) \<lparr>eventId := b\<rparr>"

definition demo_command :: "jstring \<Rightarrow> BranchAppendRecord" where
  "demo_command b = example_command \<lparr>target := demo_target b, event := demo_event b,
     payloadHash := event_payload_hash example_platform (demo_event b)\<rparr>"

definition demo_id :: "jstring \<Rightarrow> bool" where
  "demo_id b \<longleftrightarrow> valid_target (demo_target b) \<and> is_token b"

lemma demo_id_owner [simp]: "demo_id (js ''owner'')"
  using example_query_valid(1)
  by (simp add: demo_id_def demo_target_def example_target_def is_token_def bounded_def DIFF_TOKEN_MAX_LENGTH_def
      valid_target_def valid_token_def)

lemma demo_created: "demo_id b \<Longrightarrow> create example_platform [demo_seed b] = Inr (demo_plane b)"
proof -
  assume b: "demo_id b"
  have v: "isDropBranchRecordV1 (branch_json (example_branch \<lparr>br_branchId := b\<rparr>))"
    by (simp add: isDropBranchRecordV1_def branch_json_def example_branch_def Let_def opt_entry_def
        j_int_def is_string_def is_nullable_string_def is_number_def j_nullable_def)
  have c: "capture_seed (demo_seed b) = Inr \<lparr>target = demo_target b, placement = example_placement\<rparr>"
    using b v example_query_valid(2)
    by (simp add: capture_seed_def demo_seed_def demo_id_def demo_target_def)
      (simp add: example_branch_def demo_target_def example_placement_def BranchStateQuery_head_def query_of_def)
  have h: "seed_head example_platform (demo_seed b) \<lparr>target = demo_target b, placement = example_placement\<rparr> = demo_head b"
    by (simp add: seed_head_def demo_seed_def demo_head_def example_version_def)
  have "seed_content (demo_seed b) = []" by (simp add: demo_seed_def)
  then show ?thesis by (simp add: create_def c h demo_plane_def demo_state_def)
qed

lemma demo_start:
  assumes "demo_id b"
  shows "plane_init example_platform (demo_plane b, [])"
  using example_platform_ok demo_created [OF assms] by (rule created)

lemma demo_command_captured:
  assumes "demo_id b"
  shows "BranchAppendCommand_fromRecord example_platform (demo_command b) = Inr (demo_command b)"
proof -
  have "captured_command example_platform (demo_command b)"
    using example_command_captured assms
    by (simp add: captured_command_def demo_command_def demo_id_def demo_event_def captured_event_def valid_event_def
        event_integers_safe_def)
      (auto simp: example_command_def Let_def example_target_def demo_target_def)
  from create_fixed [OF this] show ?thesis by (simp add: fromRecord_Inr_iff)
qed

lemma demo_fields:
  "target (demo_command b) = demo_target b" "placement (demo_command b) = example_placement"
  "expected (demo_command b) = example_version" "event (demo_command b) = demo_event b"
  "target (demo_head b) = demo_target b" "placement (demo_head b) = example_placement" "hd_version (demo_head b) = example_version"
  "routingVersion example_placement = 1" "head (demo_state b) = demo_head b" "receipts (demo_state b) = []"
  by (simp_all add: demo_command_def demo_head_def demo_state_def initial_state_def example_command_def Let_def
      example_version_def example_placement_def)

lemma demo_lookup: "map_of (states (demo_plane b)) (key (demo_target b)) = Some (demo_state b)"
  by (simp add: demo_plane_def)

lemma demo_snapshot: "map_of (snapshots (demo_state b)) (snapshotId (ver (demo_state b)))
    = Some \<lparr>target = demo_target b, placement = example_placement, cq_version = example_version, content = []\<rparr>"
  by (simp add: demo_fields) (simp add: demo_state_def initial_state_def demo_fields example_version_def)

lemma demo_prepared:
  assumes "demo_id b"
  obtains pc where "append_begin example_platform (demo_plane b) 7 (demo_command b) = Inr (Append_Prepared (demo_command b) pc)"
proof -
  have "\<exists>pc. prepareBranchCommit example_platform (demo_command b) (demo_head b) [] 7 = Inr pc"
  proof (rule prepareBranchCommit_total)
    show "captured_command example_platform (demo_command b)"
      by (rule fromRecord_captured [OF demo_command_captured [OF assms]])
    show "\<not> head_corrupt (target (demo_command b)) (demo_head b)"
      by (simp add: head_corrupt_def demo_fields) (simp add: demo_head_def demo_target_def example_branch_def example_version_def)
  qed (simp_all add: demo_fields example_version_def is_safe_integer_def max_safe_integer_def)
  then obtain pc where pc: "prepareBranchCommit example_platform (demo_command b) (demo_head b) [] 7 = Inr pc" ..
  have "state (demo_plane b) (demo_command b) = Inr (demo_state b)"
    by (simp add: state_def demo_fields demo_lookup)
  with pc show ?thesis
    by (intro that [of pc]) (simp add: append_begin_def demo_command_captured [OF assms] duplicate_def demo_fields(10)
        demo_snapshot, simp add: demo_fields)
qed

lemma demo_reachable:
  "demo_id b \<Longrightarrow> reachable (plane_init example_platform) (plane_step example_platform) (demo_plane b, [])"
  by (rule reachable.start) (rule demo_start)

text \<open>The run: create the plane, start the append, publish it.\<close>

lemma demo_append:
  assumes "demo_id b"
  obtains pc p' where
    "reachable (plane_init example_platform) (plane_step example_platform) (demo_plane b, [Appending (demo_command b) pc])"
    "append_begin example_platform (demo_plane b) 7 (demo_command b) = Inr (Append_Prepared (demo_command b) pc)"
    "append_finish (demo_plane b) (demo_command b) pc = Inr (\<lparr>ao_status = Accepted, ao_receipt = pc_receipt pc\<rparr>, p')"
    "plane_step example_platform (demo_plane b, [Appending (demo_command b) pc]) (p', [])"
    "reachable (plane_init example_platform) (plane_step example_platform) (p', [])"
    "rc_eventId (pc_receipt pc) = eventId (event (demo_command b))"
    "delivery p' = [(co_id (pc_outbox pc), new_row (Commit_Outbox (pc_outbox pc)))]"
    "co_id (pc_outbox pc) = json_key [js ''branch.commit.v1'', js ''d'', b, b]"
proof -
  obtain pc where bg: "append_begin example_platform (demo_plane b) 7 (demo_command b) = Inr (Append_Prepared (demo_command b) pc)"
    using demo_prepared [OF assms] .
  have r1: "reachable (plane_init example_platform) (plane_step example_platform) (demo_plane b, [Appending (demo_command b) pc])"
    by (rule reachable.move [OF demo_reachable [OF assms] plane_step.starts_append [OF bg]])
  have st: "state (demo_plane b) (demo_command b) = Inr (demo_state b)" by (simp add: state_def demo_fields demo_lookup)
  from bg have prep: "prepareBranchCommit example_platform (demo_command b) (demo_head b) [] 7 = Inr pc"
    by (simp add: append_begin_def demo_command_captured [OF assms] st duplicate_def demo_fields(10) demo_snapshot result_simps)
      (simp add: demo_fields)
  note pc = prepareBranchCommit_Inr [OF prep]
  have q: "captured_query (Commit_Outbox (pc_outbox pc)) = \<lparr>target = demo_target b, placement = example_placement\<rparr>"
    by (simp add: pc(15) pc(12) demo_fields query_of_def)
  have "canonicalOutboxPlacement (Commit_Outbox (pc_outbox pc)) = Inr (captured_query (Commit_Outbox (pc_outbox pc)))"
    using assms example_query_valid(2) unfolding canonical_placement_Inr_iff q by (simp add: demo_id_def)
  then have reg: "registerOutbox (demo_plane b) (Commit_Outbox (pc_outbox pc))
      = Inr [(co_id (pc_outbox pc), new_row (Commit_Outbox (pc_outbox pc)))]"
    by (simp add: registerOutbox_def new_row_def) (simp add: demo_plane_def)
  define p' where "p' = (demo_plane b) \<lparr>states := AList.update (key (demo_target b)) (append_state (demo_state b) (demo_command b) pc)
      (states (demo_plane b)), delivery := [(co_id (pc_outbox pc), new_row (Commit_Outbox (pc_outbox pc)))]\<rparr>"
  have fin: "append_finish (demo_plane b) (demo_command b) pc = Inr (\<lparr>ao_status = Accepted, ao_receipt = pc_receipt pc\<rparr>, p')"
    by (simp add: append_finish_def st duplicate_def demo_fields reg p'_def)
  have step: "plane_step example_platform (demo_plane b, [Appending (demo_command b) pc]) (p', [])"
    using plane_step.ends_append [OF fin, of example_platform "[]" "[]"] by simp
  have id: "co_id (pc_outbox pc) = json_key [js ''branch.commit.v1'', js ''d'', b, b]"
    by (simp add: pc(15) demo_fields) (simp add: demo_target_def demo_event_def)
  show ?thesis
    by (rule that [OF r1 bg fin step reachable.move [OF r1 step] _ _ id]) (simp_all add: pc(12) p'_def)
qed

section \<open>One reserved and initialized branch\<close>

definition demo_reserve :: BranchReserveRecord where
  "demo_reserve = \<lparr>target = example_target, placement = example_placement, rs_reservationId = js ''r'',
     rs_identity = \<lparr>id_baseDropId = js ''d'', id_mode = Owner, id_ownerAccountId = None, id_writerAccountId = None,
       id_writerClientId = None\<rparr>, rs_rootRevision = js ''v''\<rparr>"

definition demo_initialize :: BranchInitializeRecord where
  "demo_initialize = \<lparr>target = example_target, placement = example_placement, in_reservationId = js ''r'',
     in_rootRevision = js ''v'', in_content = js ''text''\<rparr>"

lemma demo_tokens: "lifecycle_token (js ''r'')" "lifecycle_token (js ''v'')" "lifecycle_token (js ''d'')"
  by (simp_all add: lifecycle_token_def valid_token_def bounded_def is_trimmed_def js_trim_def js_def js_whitespace_def)

lemma demo_initialization:
  obtains p pr r p' where
    "reachable (plane_init example_platform) (plane_step example_platform) (p, [Initializing demo_initialize pr])"
    "initialize_finish p demo_initialize pr = Inr (r, p')"
proof -
  let ?p0 = "\<lparr>states = [], authorities = [], initializations = [], delivery = []\<rparr> :: MemoryPlane"
  define a :: BranchAuthorityRecord where "a = \<lparr>target = example_target, placement = example_placement, au_state = Pending_Authority,
    au_reservation = \<lparr>rv_reservationId = js ''r'', rv_identity = rs_identity demo_reserve, rv_rootRevision = js ''v'', rv_createdAt = 3\<rparr>\<rparr>"
  define p where "p = ?p0 \<lparr>authorities := [(key example_target, a)]\<rparr>"
  have "create example_platform [] = Inr ?p0" by (simp add: create_def)
  then have r0: "reachable (plane_init example_platform) (plane_step example_platform) (?p0, [])"
    by (intro reachable.start created example_platform_ok)
  have q: "BranchStateQuery_head demo_reserve = Inr \<lparr>target = example_target, placement = example_placement\<rparr>"
    "BranchStateQuery_head demo_initialize = Inr \<lparr>target = example_target, placement = example_placement\<rparr>"
    "BranchStateQuery_head a = Inr \<lparr>target = example_target, placement = example_placement\<rparr>"
    using example_query_valid
    by (simp_all add: BranchStateQuery_head_def query_of_def demo_reserve_def demo_initialize_def a_def)
  have "valid_identity (rs_identity demo_reserve)" by (simp add: valid_identity_def demo_reserve_def demo_tokens)
  then have v: "valid_reservation (au_reservation a)" "BranchLifecycleQuery_reserve demo_reserve = Inr demo_reserve"
    using demo_tokens q(1)
    by (simp_all add: valid_reservation_def a_def is_safe_integer_def max_safe_integer_def BranchLifecycleQuery_reserve_def)
      (simp_all add: demo_reserve_def)
  have rv: "routingVersion example_placement = 1" by (simp add: example_placement_def)
  have "reserve ?p0 3 demo_reserve = Inr (\<lparr>ro_status = Reserved, ro_authority = a\<rparr>, p)"
    by (simp add: reserve_def v(2) is_safe_integer_def max_safe_integer_def Let_def)
      (simp add: demo_reserve_def a_def p_def rv)
  from reachable.move [OF r0 plane_step.reserves [OF this]]
  have r1: "reachable (plane_init example_platform) (plane_step example_platform) (p, [])" .
  have au: "BranchLifecycleQuery_authority a = Inr a" using v(1) q(3) rv by (simp add: BranchLifecycleQuery_authority_def a_def)
  have it: "BranchLifecycleQuery_initialize demo_initialize = Inr demo_initialize"
    using demo_tokens q(2) by (simp add: BranchLifecycleQuery_initialize_def) (simp add: demo_initialize_def)
  have f: "target demo_initialize = target a" "placement demo_initialize = placement a" "in_reservationId demo_initialize = rv_reservationId (au_reservation a)"
    "in_rootRevision demo_initialize = rv_rootRevision (au_reservation a)" "placement a = example_placement" "target a = example_target"
    "au_state a = Pending_Authority"
    by (simp_all add: demo_initialize_def a_def)
  obtain pr where "prepareBranchInitialization example_platform a demo_initialize = Inr pr"
    by (simp add: prepareBranchInitialization_def au it f Let_def)
  then have "initialize_begin example_platform p demo_initialize = Inr (demo_initialize, pr)"
    by (simp add: initialize_begin_def it f rv p_def)
  from reachable.move [OF r1 plane_step.starts_initialize [OF this]]
  have r2: "reachable (plane_init example_platform) (plane_step example_platform) (p, [Initializing demo_initialize pr])" .
  have "\<exists>r p'. initialize_finish p demo_initialize pr = Inr (r, p')"
    by (simp add: initialize_finish_def p_def f Let_def)
  with r2 that show ?thesis by blast
qed

end
