(* ===== verification/Plane_History.thy ===== *)
theory Plane_History
  imports Plane_Examples
begin

text \<open>
  What the memory plane promises about the text of its branches under interleaved calls: the stored
  history is complete and replayable, every step refines an abstract log of events per branch
  (\<open>log_step\<close>), published history is never changed, and an event is stored once however often it is
  sent.
\<close>

section \<open>The abstract service\<close>

text \<open>A branch is an append-only list of events with distinct ids and the text they produce.\<close>

type_synonym branch_log = "DropDiffEvent list \<times> jstring"

inductive log_step :: "(jstring \<rightharpoonup> branch_log) \<Rightarrow> (jstring \<rightharpoonup> branch_log) \<Rightarrow> bool" where
  unchanged: "log_step m m"
| starts: "m k = None \<Longrightarrow> log_step m (m(k \<mapsto> ([], t)))"
| appends: "m k = Some (es, t) \<Longrightarrow> fs \<noteq> [] \<Longrightarrow> distinct (map eventId (es @ fs)) \<Longrightarrow> apply_events fs t = Inr t' \<Longrightarrow>
    log_step m (m(k \<mapsto> (es @ fs, t')))"

definition logs :: "MemoryPlane \<Rightarrow> jstring \<rightharpoonup> branch_log" where
  "logs p = (\<lambda>k. map_option log_of (map_of (states p) k))"

section \<open>Event ids\<close>

lemma stored_event_ids:
  assumes "state_ok pf s"
  shows "distinct (map eventId (fst (log_of s)))"
proof -
  let ?e = "\<lambda>i. the (map_of (st_events s) i)"
  have e: "events_ok s" and r: "receipts_ok pf s" using assms by (simp_all add: state_ok_def branch_ok_def)
  have "inj_on (\<lambda>i. eventId (?e i)) (set [0..eventSeq (ver s)])"
  proof (rule inj_onI)
    fix i j assume ij: "i \<in> set [0..eventSeq (ver s)]" "j \<in> set [0..eventSeq (ver s)]" "eventId (?e i) = eventId (?e j)"
    have "receipt_seq (the (map_of (receipts s) (eventId (?e k)))) = k" if "k \<in> set [0..eventSeq (ver s)]" for k
    proof -
      from that e have "k \<in> dom (map_of (st_events s))" by (simp add: events_ok_def)
      then obtain x where "map_of (st_events s) k = Some x" by blast
      with r show ?thesis unfolding receipts_ok_def by fastforce
    qed
    with ij show "i = j" by metis
  qed
  then show ?thesis by (simp add: log_of_def stored_events_def distinct_map comp_def)
qed

section \<open>What each operation does to the logs\<close>

lemma logs_update: "states p' = AList.update k s (states p) \<Longrightarrow> logs p' = (logs p)(k \<mapsto> log_of s)"
  by (simp add: logs_def fun_eq_iff)

lemma logs_same_state:
  assumes "states p' = AList.update k s' (states p)" "map_of (states p) k = Some s" "log_of s' = log_of s"
  shows "logs p' = logs p"
  using assms by (auto simp: logs_def fun_eq_iff)

lemma logs_publish:
  assumes ok: "plane_ok pf p" "platform_ok pf" and s: "map_of (states p) k = Some s"
    and pub: "publishable pf s h text meta es rs x"
    and p': "states p' = AList.update k (publish s h text meta es rs x) (states p)"
  shows "log_step (logs p) (logs p')"
proof -
  have st: "state_ok pf s" using ok(1) s by (auto simp: plane_ok_def states_ok_def)
  then have b: "branch_ok pf s" by (simp add: state_ok_def)
  have l: "log_of (publish s h text meta es rs x) = (fst (log_of s) @ es, text)"
    using branch_ok_publish(2) [OF b pub ok(2)] by simp
  have "logs p k = Some (fst (log_of s), snd (log_of s))" using s by (simp add: logs_def)
  moreover have "distinct (map eventId (fst (log_of s) @ es))"
    using stored_event_ids [OF state_ok_publish [OF st ok(2) pub]] by (simp add: l)
  moreover have "apply_events es (snd (log_of s)) = Inr text" using publishableD(8) [OF pub] by (simp add: log_of_def)
  ultimately show ?thesis unfolding logs_update [OF p'] l using publishableD(1) [OF pub] by (intro appends)
qed

lemma state_known: "state p q = Inr s \<Longrightarrow> map_of (states p) (key (target q)) = Some s"
  by (auto simp: state_def split: if_splits option.splits)

lemma memory_logs: "log_of (memory_state s e m) = log_of s"
  using branch_ok_cong(2) [of "memory_state s e m" s] by simp

lemma fact_logs: "log_of (fact_state s k i r x) = log_of s"
  using branch_ok_cong(2) [of "fact_state s k i r x" s] by simp

lemma put_logs: "putNullMem pf p now i = Inr (e, p') \<Longrightarrow> logs p' = logs p"
  unfolding putNullMem_def Let_def
  by (auto simp: result_simps dest!: nullMemState_Inr state_known intro!: logs_same_state memory_logs)

lemma delete_logs: "deleteNullMem pf p now i = Inr (e, p') \<Longrightarrow> logs p' = logs p"
  unfolding deleteNullMem_def Let_def
  by (auto simp: result_simps dest!: nullMemState_Inr state_known intro!: logs_same_state memory_logs)

lemma fact_append_logs: "appendRuntimeFact pf p now i = Inr (a, p') \<Longrightarrow> logs p' = logs p"
  by (erule appendRuntimeFact_cases) (auto dest!: state_known intro!: logs_same_state fact_logs)

lemma delivery_logs:
  "claimOutbox pf p oc = Inr (dc, p') \<Longrightarrow> logs p' = logs p"
  "acknowledgeOutbox p orc = Inr (ac, p') \<Longrightarrow> logs p' = logs p"
  "retryOutbox p orc code = Inr (rc, p') \<Longrightarrow> logs p' = logs p"
  "pruneCompletedOutbox p before limit = Inr (n, p') \<Longrightarrow> logs p' = logs p"
  by (auto simp: claimOutbox_def acknowledgeOutbox_def retryOutbox_def pruneCompletedOutbox_def Let_def result_simps logs_def
      split: if_splits prod.splits)

lemma reserve_logs: "reserve p now i = Inr (r, p') \<Longrightarrow> logs p' = logs p"
  by (erule reserve_cases) (simp_all add: logs_def)

lemma text_logs:
  assumes ok: "plane_ok pf p" "platform_ok pf"
  shows "flight_ok pf p (Appending c pc) \<Longrightarrow> append_finish p c pc = Inr (r, p') \<Longrightarrow> log_step (logs p) (logs p')"
    "flight_ok pf p (Batching b n s pb) \<Longrightarrow> batch_finish p b s pb = Inr (Batch_Done q p'') \<Longrightarrow> log_step (logs p) (logs p'')"
proof -
  show "log_step (logs p) (logs p')" if "flight_ok pf p (Appending c pc)" "append_finish p c pc = Inr (r, p')"
    using ok that
  proof (cases rule: append_finish_cases)
    case (dup s receipt)
    then show ?thesis by (simp add: log_step.unchanged)
  next
    case (new s now)
    show ?thesis by (rule logs_publish [OF ok new(1,5)]) (simp add: new(7))
  qed
  show "log_step (logs p) (logs p'')" if "flight_ok pf p (Batching b n s pb)" "batch_finish p b s pb = Inr (Batch_Done q p'')"
    using ok that
  proof (cases rule: batch_finish_cases)
    case nothing
    then show ?thesis by (simp add: log_step.unchanged)
  next
    case (new meta x)
    show ?thesis by (rule logs_publish [OF ok new(1,3)]) (simp add: new(4))
  qed
qed

lemma initialize_logs:
  assumes "plane_ok pf p" "flight_ok pf p (Initializing c pr)" "initialize_finish p c pr = Inr (r, p')"
  shows "log_step (logs p) (logs p')"
  using assms
proof (cases rule: initialize_finish_cases)
  case (dup a receipt)
  then show ?thesis by (simp add: log_step.unchanged)
next
  case (new a)
  have "log_of (initial_state (initial_head pf a c) m t) = ([], t)" for m t
    by (simp add: log_of_def stored_events_def text_at_def initial_state_def initial_head_fields)
  then have l: "logs p' = (logs p)(key (target c) \<mapsto> ([], in_content c))"
    using logs_update [of p' "key (target c)"] by (simp add: new(7))
  have "logs p (key (target c)) = None" using new(3) by (simp add: logs_def)
  then show ?thesis unfolding l by (rule log_step.starts)
qed

section \<open>Later states\<close>

lemma map_le_SomeD: "m \<subseteq>\<^sub>m m' \<Longrightarrow> m k = Some v \<Longrightarrow> m' k = Some v"
  by (metis domI map_le_def)

lemma grown_state:
  assumes "plane_grows p p'" "state p q = Inr s"
  obtains s' where "state p' q = Inr s'" "extends s s'"
proof -
  from state_known [OF assms(2)] assms(1) obtain s' where s': "map_of (states p') (key (target q)) = Some s'" "extends s s'"
    unfolding plane_grows_def by blast
  have "routingVersion (placement q) = 1" "generation (placement (head s)) = generation (placement q)"
    using assms(2) state_known [OF assms(2)] by (auto simp: state_def split: if_splits)
  with s'(1) extends_head [OF s'(2)] have "state p' q = Inr s'" by (simp add: state_def)
  with s'(2) that show ?thesis by blast
qed

lemma extends_ids: "extends s s' \<Longrightarrow> snapshotId (ver s) \<le> snapshotId (ver s')"
  by (auto simp: extends_def)

lemma grown_content:
  assumes "plane_grows p p'" "plane_content p q = Inr c"
  shows "plane_content p' q = Inr c"
proof -
  from assms(2) obtain s where s: "state p q = Inr s" and c: "map_of (snapshots s) (snapshotId (cq_version q)) = Some c"
    "sameBranchStateVersion (cq_version c) (cq_version q)"
    by (auto simp: plane_content_def result_simps split: option.splits if_splits)
  from grown_state [OF assms(1) s] obtain s' where s': "state p' q = Inr s'" "extends s s'" .
  then have "map_of (snapshots s') (snapshotId (cq_version q)) = Some c"
    using c(1) by (auto simp: extends_def intro: map_le_SomeD)
  with s'(1) c(2) show ?thesis by (simp add: plane_content_def)
qed

lemma grown_snapshot:
  assumes "plane_grows p p'" "plane_snapshot p q = Inr (Some x)"
  shows "plane_snapshot p' q = Inr (Some x)"
proof -
  from assms(2) obtain s c m where s: "state p q = Inr s" and c: "map_of (snapshots s) (sq_snapshotId q) = Some c"
    and m: "map_of (snapshotMetadata s) (sq_snapshotId q) = Some m" and i: "sq_snapshotId q \<le> snapshotId (ver s)"
    and x: "x = \<lparr>target = target q, placement = placement q, cq_version = cq_version c, ss_snapshot = m\<rparr>"
    by (auto simp: plane_snapshot_def Let_def result_simps split: option.splits if_splits)
  from grown_state [OF assms(1) s] obtain s' where s': "state p' q = Inr s'" "extends s s'" .
  then have "map_of (snapshots s') (sq_snapshotId q) = Some c" "map_of (snapshotMetadata s') (sq_snapshotId q) = Some m"
    using c m by (auto simp: extends_def intro: map_le_SomeD)
  with s'(1) i extends_ids [OF s'(2)] show ?thesis by (simp add: plane_snapshot_def x)
qed

lemma grown_events:
  assumes "plane_grows p p'" "readEvents p q = Inr es"
  shows "readEvents p' q = Inr es"
proof -
  from assms(2) obtain r c s where r: "BranchStateQuery_range q = Inr r" and c: "plane_content p r = Inr c" and s: "state p r = Inr s"
    and es: "list_all2 (\<lambda>i e. (case map_of (st_events s) i of None \<Rightarrow> Inl State_Corrupt | Some e \<Rightarrow> Inr e) = Inr e)
        [startSeq r..endSeq r] es"
    unfolding readEvents_def by (auto simp: result_simps)
  from grown_state [OF assms(1) s] obtain s' where s': "state p' r = Inr s'" "extends s s'" .
  have "map_result (\<lambda>i. case map_of (st_events s') i of None \<Rightarrow> Inl State_Corrupt | Some e \<Rightarrow> Inr e) [startSeq r..endSeq r] = Inr es"
    unfolding map_result_Inr_iff using es
  proof (rule list_all2_mono)
    fix i e assume "(case map_of (st_events s) i of None \<Rightarrow> Inl State_Corrupt | Some e \<Rightarrow> Inr e) = Inr e"
    then have "map_of (st_events s) i = Some e" by (simp split: option.splits)
    with s'(2) have "map_of (st_events s') i = Some e" by (auto simp: extends_def intro: map_le_SomeD)
    then show "(case map_of (st_events s') i of None \<Rightarrow> Inl State_Corrupt | Some e \<Rightarrow> Inr e) = Inr e" by simp
  qed
  then show ?thesis by (simp add: readEvents_def r grown_content [OF assms(1) c] s'(1))
qed

text \<open>What a completed append leaves behind for good.\<close>

lemma append_finish_receipt:
  assumes "plane_ok pf p" "platform_ok pf" "flight_ok pf p (Appending c pc)" "append_finish p c pc = Inr (r, p')"
  obtains s where "state p' c = Inr s" "map_of (receipts s) (eventId (event c)) = Some (ao_receipt r)"
    "rc_payloadHash (ao_receipt r) = payloadHash c"
proof -
  from assms(4) obtain s where st: "state p c = Inr s" by (auto simp: append_finish_def and_then_Inr_iff)
  from assms show ?thesis
  proof (cases rule: append_finish_cases)
    case (dup s2 receipt)
    with st state_known [OF st] show ?thesis by (intro that [of s]) simp_all
  next
    case (new s2 now)
    let ?s = "publish s2 (append_head c pc) (pc_content pc) (pc_snapshot pc) [pc_event pc] [pc_receipt pc] (Commit_Outbox (pc_outbox pc))"
    note pc = prepareBranchCommit_Inr [OF new(4)]
    have keep: "keeps pf p p'" by (rule append_finish_ok [OF assms])
    then have "plane_grows p p'" by (simp add: keeps_def)
    from grown_state [OF this st] obtain s' where s': "state p' c = Inr s'" "extends s s'" .
    have "s' = ?s" using state_known [OF s'(1)] by (simp add: new(7))
    moreover have "map_of (receipts ?s) (rc_eventId (pc_receipt pc)) = Some (pc_receipt pc)"
      by (rule receipts_of_publish_new [OF new(5)]) simp
    ultimately show ?thesis using s'(1) by (intro that [of s']) (simp_all add: new(6) pc(12))
  qed
qed

lemma initialize_finish_receipt:
  assumes ok: "plane_ok pf p" "platform_ok pf" and fl: "flight_ok pf p (Initializing c pr)" and fin: "initialize_finish p c pr = Inr (r, p')"
  obtains a s where "map_of (authorities p') (key (target c)) = Some a" "au_state a = Active_Authority"
    "prepareBranchInitialization pf a c = Inr pr" "map_of (states p') (key (target c)) = Some s"
    "map_of (initializations p') (key (target c)) = Some (pi_intent pr, io_receipt r)"
  using ok(1) fl fin
proof (cases rule: initialize_finish_cases)
  case (dup a receipt)
  then have "authority_ok pf p (key (target c)) a" using ok(1) by (simp add: plane_ok_def authorities_ok_def)
  with dup(4) obtain s where "map_of (states p) (key (target c)) = Some s" by (auto simp: authority_ok_def)
  with dup that show ?thesis by simp
next
  case (new a)
  let ?a = "a \<lparr>au_state := Active_Authority\<rparr>"
  have "prepareBranchInitialization pf ?a c = Inr pr" using prepare_init_cong [of ?a a pf c] new(2) by simp
  then show ?thesis using that [of ?a] by (simp add: new(6,7))
qed

section \<open>Properties\<close>

text \<open>
  C1: The plane implements an append-only log per branch, whatever calls are in flight: in every
  reachable system each step of any call either leaves all logs as they are, starts a new branch
  with no events, or extends the log of exactly one branch by the accepted events, whose ids are new
  and distinct and whose replay takes the old text to the new one. So no interleaving loses or
  overwrites an accepted event.
\<close>

theorem plane_refines_logs:
  assumes "reachable (plane_init pf) (plane_step pf) s" "plane_step pf s t"
  shows "log_step (logs (fst s)) (logs (fst t))"
proof -
  have ok: "platform_ok pf" "plane_ok pf (fst s)" "list_all (flight_ok pf (fst s)) (snd s)"
    using plane_invariant.reachable_inv [OF assms(1)] by (simp_all add: system_ok_def)
  have same: "logs p' = logs p \<Longrightarrow> log_step (logs p) (logs p')" for p p' by (simp add: log_step.unchanged)
  from assms(2) show ?thesis
  proof cases
    case (ends_initialize p c pr r p' fs gs)
    with ok initialize_logs [of pf p c pr r p'] show ?thesis by simp
  next
    case (ends_append p c pc r p' fs gs)
    with ok text_logs(1) [of pf p c pc r p'] show ?thesis by simp
  next
    case (ends_batch p c s' pb r p' fs n gs)
    with ok text_logs(2) [of pf p c n s' pb r p'] show ?thesis by simp
  qed (simp_all add: same reserve_logs put_logs delete_logs fact_append_logs delivery_logs log_step.unchanged)
qed

theorem plane_refines_logs_witness:
  "\<exists>s t. plane_step example_platform s t \<and> logs (fst t) \<noteq> logs (fst s) \<and> log_step (logs (fst s)) (logs (fst t))"
  using demo_id_owner
proof (rule demo_append)
  let ?b = "js ''owner''"
  fix pc p' assume r: "reachable (plane_init example_platform) (plane_step example_platform) (demo_plane ?b, [Appending (demo_command ?b) pc])"
    and fin: "append_finish (demo_plane ?b) (demo_command ?b) pc = Inr (\<lparr>ao_status = Accepted, ao_receipt = pc_receipt pc\<rparr>, p')"
    and st: "plane_step example_platform (demo_plane ?b, [Appending (demo_command ?b) pc]) (p', [])"
  have "log_step (logs (fst (demo_plane ?b, [Appending (demo_command ?b) pc]))) (logs (fst (p', [] :: in_flight list)))"
    by (rule plane_refines_logs [OF r st])
  moreover have "logs p' \<noteq> logs (demo_plane ?b)"
  proof -
    have ok: "platform_ok example_platform" "plane_ok example_platform (demo_plane ?b)"
      "flight_ok example_platform (demo_plane ?b) (Appending (demo_command ?b) pc)"
      using plane_invariant.reachable_inv [OF r] by (simp_all add: system_ok_def)
    from ok(2,1,3) fin show ?thesis
    proof (cases rule: append_finish_cases)
      case (new s now)
      have "branch_ok example_platform s" using ok(2) new(1) by (auto simp: plane_ok_def states_ok_def state_ok_def)
      from branch_ok_publish(2) [OF this new(5) ok(1)] logs_update [of p' "key (target (demo_command ?b))"] new(7)
      have "logs p' (key (target (demo_command ?b))) = Some (fst (log_of s) @ [pc_event pc], pc_content pc)" by simp
      moreover have "logs (demo_plane ?b) (key (target (demo_command ?b))) = Some (log_of s)" using new(1) by (simp add: logs_def)
      ultimately show ?thesis by (metis append_self_conv fst_conv not_Cons_self2 option.inject)
    qed simp
  qed
  ultimately show ?thesis using st by force
qed

text \<open>
  C2: The stored history of every branch is complete and self-verifying in every reachable system:
  the events are numbered without gaps from 0 to the head's sequence, the snapshots from 0 to the
  head's snapshot, each snapshot has the recorded hash and is the replay, from snapshot zero, of the
  events up to its sequence number, its metadata has its length, hash, parent and patch range, and
  every stored event has a receipt under its id.
\<close>

theorem stored_history_replays:
  assumes "reachable (plane_init pf) (plane_step pf) (p, fs)" "map_of (states p) k = Some s"
  shows "dom (map_of (st_events s)) = {0..eventSeq (ver s)} \<and> dom (map_of (snapshots s)) = {0..snapshotId (ver s)} \<and>
    (\<forall>i c. map_of (snapshots s) i = Some c \<longrightarrow>
       hashNulldownSourceContent pf (content c) = sourceContentHash (cq_version c) \<and> snapshotId (cq_version c) = i \<and>
       apply_events (stored_events s (eventSeq (cq_version c))) (text_at s 0) = Inr (content c)) \<and>
    metadata_ok s \<and>
    (\<forall>i e. map_of (st_events s) i = Some e \<longrightarrow> event_seq e = i \<and>
       (\<exists>r. map_of (receipts s) (eventId e) = Some r \<and> receipt_seq r = i))"
proof -
  have "plane_ok pf p" using plane_invariant.reachable_inv [OF assms(1)] by (simp add: system_ok_def)
  with assms(2) have b: "branch_ok pf s" by (auto simp: plane_ok_def states_ok_def state_ok_def)
  have e: "events_ok s" and sn: "snapshots_ok pf s" and m: "metadata_ok s" and r: "receipts_ok pf s"
    using b by (simp_all add: branch_ok_def)
  have "dom (map_of (st_events s)) = {0..eventSeq (ver s)}" "dom (map_of (snapshots s)) = {0..snapshotId (ver s)}"
    using e sn by (simp_all add: events_ok_def snapshots_ok_def)
  moreover have "hashNulldownSourceContent pf (content c) = sourceContentHash (cq_version c) \<and> snapshotId (cq_version c) = i \<and>
       apply_events (stored_events s (eventSeq (cq_version c))) (text_at s 0) = Inr (content c)"
    if "map_of (snapshots s) i = Some c" for i c using sn that unfolding snapshots_ok_def by blast
  moreover have "event_seq x = i \<and> (\<exists>r. map_of (receipts s) (eventId x) = Some r \<and> receipt_seq r = i)"
    if "map_of (st_events s) i = Some x" for i x using e r that unfolding events_ok_def receipts_ok_def by blast
  ultimately show ?thesis using m by blast
qed

theorem stored_history_replays_witness:
  "\<exists>(p :: MemoryPlane) s. map_of (states p) (key (demo_target (js ''owner''))) = Some s \<and>
     dom (map_of (st_events s)) = {0..eventSeq (ver s)} \<and> delivery p \<noteq> []"
  using demo_id_owner
proof (rule demo_append)
  let ?b = "js ''owner''"
  fix pc p' assume r: "reachable (plane_init example_platform) (plane_step example_platform) (demo_plane ?b, [Appending (demo_command ?b) pc])"
    and st: "plane_step example_platform (demo_plane ?b, [Appending (demo_command ?b) pc]) (p', [])"
    and r': "reachable (plane_init example_platform) (plane_step example_platform) (p', [])"
    and d: "delivery p' = [(co_id (pc_outbox pc), new_row (Commit_Outbox (pc_outbox pc)))]"
  have "plane_grows (demo_plane ?b) p'"
    using plane.step_grows [OF plane_invariant.reachable_inv [OF r] st] by simp
  then obtain s where s: "map_of (states p') (key (demo_target ?b)) = Some s"
    using demo_lookup [of ?b] unfolding plane_grows_def by blast
  from stored_history_replays [OF r' s] have "dom (map_of (st_events s)) = {0..eventSeq (ver s)}" by (rule conjunct1)
  with s d show ?thesis by (intro exI [of _ p'] exI [of _ s]) simp
qed

text \<open>
  C10: Published history is immutable: whatever happens after a read in any run of the plane, the same
  content, snapshot or event-range query answers with the same value.
\<close>

theorem reads_repeatable:
  assumes "reachable (plane_init pf) (plane_step pf) s" "(plane_step pf)\<^sup>*\<^sup>* s t"
  shows "(readContent (fst s) q = Inr c \<longrightarrow> readContent (fst t) q = Inr c) \<and>
    (readSnapshot (fst s) sq = Inr (Some x) \<longrightarrow> readSnapshot (fst t) sq = Inr (Some x)) \<and>
    (readEvents (fst s) rq = Inr es \<longrightarrow> readEvents (fst t) rq = Inr es)"
proof -
  have g: "plane_grows (fst s) (fst t)" by (rule plane.run_grows [OF assms(2) plane_invariant.reachable_inv [OF assms(1)]])
  show ?thesis
    using grown_content [OF g] grown_snapshot [OF g] grown_events [OF g]
    by (auto simp: readContent_def readSnapshot_def and_then_Inr_iff)
qed

lemma demo_read: "readContent (demo_plane (js ''owner'')) \<lparr>target = example_target, placement = example_placement, cq_version = example_version\<rparr>
    = Inr \<lparr>target = example_target, placement = example_placement, cq_version = example_version, content = []\<rparr>"
proof -
  have t: "example_target = demo_target (js ''owner'')" by (simp add: example_target_def demo_target_def)
  have "valid_version example_version" unfolding example_version_def by (rule hash_valid_version [OF example_platform_ok])
  then have q: "BranchStateQuery_content \<lparr>target = example_target, placement = example_placement, cq_version = example_version\<rparr>
      = Inr \<lparr>target = example_target, placement = example_placement, cq_version = example_version\<rparr>"
    using example_query_valid by (simp add: BranchStateQuery_content_def BranchStateQuery_head_def query_of_def)
  have "state (demo_plane (js ''owner'')) \<lparr>target = demo_target (js ''owner''), placement = example_placement, cq_version = example_version\<rparr>
      = Inr (demo_state (js ''owner''))"
    by (simp add: state_def demo_fields demo_lookup)
  then show ?thesis
    using demo_snapshot [of "js ''owner''"]
    by (simp add: readContent_def q) (simp add: plane_content_def t demo_fields sameBranchStateVersion_def)
qed

theorem reads_repeatable_witness:
  "\<exists>p' :: MemoryPlane. delivery p' \<noteq> [] \<and> readContent p' \<lparr>target = example_target, placement = example_placement, cq_version = example_version\<rparr>
    = Inr \<lparr>target = example_target, placement = example_placement, cq_version = example_version, content = []\<rparr>"
  using demo_id_owner
proof (rule demo_append)
  let ?b = "js ''owner''"
  fix pc p' assume r: "reachable (plane_init example_platform) (plane_step example_platform) (demo_plane ?b, [Appending (demo_command ?b) pc])"
    and st: "plane_step example_platform (demo_plane ?b, [Appending (demo_command ?b) pc]) (p', [])"
    and d: "delivery p' = [(co_id (pc_outbox pc), new_row (Commit_Outbox (pc_outbox pc)))]"
  from st have "(plane_step example_platform)\<^sup>*\<^sup>* (demo_plane ?b, [Appending (demo_command ?b) pc]) (p', [])" by blast
  from reads_repeatable [OF r this] demo_read d show ?thesis
    by (intro exI [of _ p']) simp
qed

text \<open>
  C3: An event is stored once. After an append of a command has completed in a reachable system, in
  every later system of the run sending the same record again succeeds without changing anything and
  returns the receipt of the first time, as a duplicate.
\<close>

theorem resent_append_same_receipt:
  assumes "reachable (plane_init pf) (plane_step pf) (p, fs @ Appending c pc # gs)"
    and "append_finish p c pc = Inr (r, p')" "(plane_step pf)\<^sup>*\<^sup>* (p', fs @ gs) (q, hs)"
    and "BranchAppendCommand_fromRecord pf i = Inr c"
  shows "append pf q now i = Inr (\<lparr>ao_status = Duplicate, ao_receipt = ao_receipt r\<rparr>, q)"
proof -
  note ok = plane_invariant.reachable_inv [OF assms(1)]
  have pok: "plane_ok pf p" "platform_ok pf" "flight_ok pf p (Appending c pc)" using ok by (simp_all add: system_ok_def)
  note st = plane_step.ends_append [OF assms(2), of pf fs gs]
  from append_finish_receipt [OF pok assms(2)] obtain s where s: "state p' c = Inr s"
    "map_of (receipts s) (eventId (event c)) = Some (ao_receipt r)" "rc_payloadHash (ao_receipt r) = payloadHash c" .
  have "plane_grows p' q"
    using plane.run_grows [OF assms(3) plane_invariant.step_inv [OF ok st]] by simp
  from grown_state [OF this s(1)] obtain s' where s': "state q c = Inr s'" "extends s s'" .
  then have "map_of (receipts s') (eventId (event c)) = Some (ao_receipt r)"
    using s(2) by (auto simp: extends_def intro: map_le_SomeD)
  then have "duplicate s' c = Inr (Some \<lparr>ao_status = Duplicate, ao_receipt = ao_receipt r\<rparr>)"
    using s(3) by (simp add: duplicate_def)
  then show ?thesis by (simp add: append_def append_begin_def assms(4) s'(1))
qed

theorem resent_append_same_receipt_witness:
  "\<exists>p' receipt. append example_platform p' 9 (demo_command (js ''owner'')) = Inr (\<lparr>ao_status = Duplicate, ao_receipt = receipt\<rparr>, p')"
  using demo_id_owner
proof (rule demo_append)
  let ?b = "js ''owner''"
  fix pc p' assume r: "reachable (plane_init example_platform) (plane_step example_platform) (demo_plane ?b, [Appending (demo_command ?b) pc])"
    and fin: "append_finish (demo_plane ?b) (demo_command ?b) pc = Inr (\<lparr>ao_status = Accepted, ao_receipt = pc_receipt pc\<rparr>, p')"
  have r': "reachable (plane_init example_platform) (plane_step example_platform) (demo_plane ?b, [] @ Appending (demo_command ?b) pc # [])"
    using r by simp
  from resent_append_same_receipt [OF r' fin rtranclp.rtrancl_refl demo_command_captured [OF demo_id_owner], of 9]
  show ?thesis by auto
qed

text \<open>
  C8: A branch is initialized once. After an initialization has completed in a reachable system, in
  every later system the same request succeeds as a duplicate with the first receipt, and a request
  for the same branch with any other content, reservation or root revision is refused.
\<close>

theorem initialization_is_final:
  assumes "reachable (plane_init pf) (plane_step pf) (p, fs @ Initializing c pr # gs)"
    and "initialize_finish p c pr = Inr (r, p')" "(plane_step pf)\<^sup>*\<^sup>* (p', fs @ gs) (q, hs)"
  shows "initialize pf q c = Inr (\<lparr>io_status = Initialize_Duplicate, io_receipt = io_receipt r\<rparr>, q) \<and>
    (\<forall>d. target d = target c \<longrightarrow> d \<noteq> c \<longrightarrow> (\<exists>e. initialize pf q d = Inl e))"
proof -
  note ok = plane_invariant.reachable_inv [OF assms(1)]
  have pok: "plane_ok pf p" "platform_ok pf" "flight_ok pf p (Initializing c pr)" using ok by (simp_all add: system_ok_def)
  note st = plane_step.ends_initialize [OF assms(2), of pf fs gs]
  note ok' = plane_invariant.step_inv [OF ok st]
  from initialize_finish_receipt [OF pok assms(2)] obtain a s where a: "map_of (authorities p') (key (target c)) = Some a"
    "au_state a = Active_Authority" "prepareBranchInitialization pf a c = Inr pr" "map_of (states p') (key (target c)) = Some s"
    "map_of (initializations p') (key (target c)) = Some (pi_intent pr, io_receipt r)" .
  have g: "plane_grows p' q" using plane.run_grows [OF assms(3) ok'] by simp
  with a(1,2,4) obtain s' where q: "map_of (authorities q) (key (target c)) = Some a" "map_of (states q) (key (target c)) = Some s'"
    unfolding plane_grows_def by blast
  have i: "map_of (initializations q) (key (target c)) = Some (pi_intent pr, io_receipt r)"
    using g a(5) by (auto simp: plane_grows_def intro: map_le_SomeD)
  note pr = prepareBranchInitialization_Inr [OF a(3)]
  have "plane_ok pf p'" using ok' by (simp add: system_ok_def)
  with a(1) have aok: "authority_ok pf p' (key (target c)) a" by (simp add: plane_ok_def authorities_ok_def)
  have rv: "routingVersion (placement c) = 1" using aok authority_Inr [of a a] pr(3) by (simp add: authority_ok_def)
  have "BranchLifecycleQuery_initialize c = Inr c"
    using a(3) initialize_Inr [of c] unfolding prepareBranchInitialization_def and_then_Inr_iff by metis
  then have b: "initialize_begin pf q c = Inr (c, pr)"
    by (simp add: initialize_begin_def rv q(1) pr(3) a(3))
  have f: "initialize_finish q c pr = Inr (\<lparr>io_status = Initialize_Duplicate, io_receipt = io_receipt r\<rparr>, q)"
    by (simp add: initialize_finish_def q i pr(3) a(2))
  have "\<exists>e. initialize pf q d = Inl e" if d: "target d = target c" "d \<noteq> c" for d
  proof (rule ccontr)
    assume "\<nexists>e. initialize pf q d = Inl e"
    then obtain o' q' where "initialize pf q d = Inr (o', q')" by (cases "initialize pf q d") auto
    then obtain d' pd where bd: "initialize_begin pf q d = Inr (d', pd)" and fd: "initialize_finish q d' pd = Inr (o', q')"
      by (auto simp: initialize_def and_then_Inr_iff)
    from bd have di: "BranchLifecycleQuery_initialize d = Inr d'" by (auto simp: initialize_begin_def and_then_Inr_iff split: option.splits if_splits)
    from initialize_Inr [OF this] have "d' = d" by simp
    with bd d q(1) di have pd: "prepareBranchInitialization pf a d = Inr pd"
      by (auto simp: initialize_begin_def and_then_Inr_iff split: if_splits)
    from fd \<open>d' = d\<close> d q i a(2) have "pi_intent pd = pi_intent pr"
      by (auto simp: initialize_finish_def Let_def split: if_splits)
    with prepareBranchInitialization_Inr(9) [OF pd] pr(9) initialize_intent_inj [of pf d c] pok(2) d(2)
    show False by (simp add: platform_ok_def)
  qed
  with b f show ?thesis by (auto simp: initialize_def)
qed

theorem initialization_is_final_witness:
  "\<exists>q receipt. initialize example_platform q demo_initialize = Inr (\<lparr>io_status = Initialize_Duplicate, io_receipt = receipt\<rparr>, q) \<and>
     (\<exists>e. initialize example_platform q (demo_initialize \<lparr>in_content := js ''other''\<rparr>) = Inl e)"
proof (rule demo_initialization)
  fix p pr r p'
  assume "reachable (plane_init example_platform) (plane_step example_platform) (p, [Initializing demo_initialize pr])"
    and fin: "initialize_finish p demo_initialize pr = Inr (r, p')"
  then have "reachable (plane_init example_platform) (plane_step example_platform) (p, [] @ Initializing demo_initialize pr # [])" by simp
  note f = initialization_is_final [OF this fin rtranclp.rtrancl_refl]
  have "demo_initialize \<lparr>in_content := js ''other''\<rparr> \<noteq> demo_initialize" by (simp add: demo_initialize_def js_def)
  with f show ?thesis by (intro exI [of _ p'] exI [of _ "io_receipt r"]) simp
qed

end
