(* ===== verification/Plane_Guarantees.thy ===== *)
theory Plane_Guarantees
  imports Plane_History
begin

text \<open>
  Further guarantees of the memory plane: routing fences, the memory integrity check, envelopes, and
  delivery of outbox work under leases.
\<close>

section \<open>Routing\<close>

text \<open>
  Every operation is fenced by the routing generation: a request that names another generation
  than the one the branch was created or reserved under is refused with that error, before and after
  its wait, and nothing is changed (an error carries no new plane).
\<close>

theorem stale_generation_refused:
  assumes "routingVersion (placement c) = 1"
    and "(case map_of (states p) (key (target c)) of Some s \<Rightarrow> Some (generation (placement (head s)))
      | None \<Rightarrow> map_option (\<lambda>a. generation (placement a)) (map_of (authorities p) (key (target c)))) = Some g"
    and "g \<noteq> generation (placement c)"
  shows "state p c = Inl Routing_Generation_Mismatch \<and> append_finish p c pc = Inl Routing_Generation_Mismatch \<and>
    (BranchAppendCommand_fromRecord pf i = Inr c \<longrightarrow> append pf p now i = Inl (Failed Routing_Generation_Mismatch))"
proof -
  have "state p c = Inl Routing_Generation_Mismatch"
    using assms by (auto simp: state_def split: option.splits)
  then show ?thesis by (simp add: append_finish_def append_def append_begin_def)
qed

theorem stale_generation_refused_witness:
  "append example_platform (demo_plane (js ''owner'')) 7 (demo_command (js ''owner'') \<lparr>placement := \<lparr>routingVersion = 1, generation = 3\<rparr>\<rparr>)
    = Inl (Failed Routing_Generation_Mismatch)"
proof -
  let ?c = "demo_command (js ''owner'') \<lparr>placement := \<lparr>routingVersion = 1, generation = 3\<rparr>\<rparr>"
  have "captured_command example_platform (demo_command (js ''owner''))"
    by (rule fromRecord_captured [OF demo_command_captured [OF demo_id_owner]])
  then have "captured_command example_platform ?c"
    by (simp add: captured_command_def valid_placement_def is_safe_integer_def max_safe_integer_def)
  then have "BranchAppendCommand_fromRecord example_platform ?c = Inr ?c"
    using create_fixed by (simp add: fromRecord_Inr_iff)
  with stale_generation_refused [of ?c "demo_plane (js ''owner'')" 0 undefined example_platform ?c 7]
  show ?thesis by (simp add: demo_fields demo_lookup example_placement_def)
qed

section \<open>Memory\<close>

lemma state_cong: "target q' = target q \<Longrightarrow> placement q' = placement q \<Longrightarrow> state p q' = state p q"
  by (simp only: state_def)

lemma memory_state_validates:
  assumes ok: "plane_ok pf p" and s: "state p q = Inr s"
  shows "nullMemState pf p q = Inr s"
proof -
  have "states_ok pf p" using ok by (simp add: plane_ok_def)
  note st = state_Inr [OF s this]
  have b: "branch_ok pf s" and m: "memory_ok pf s" using st(4) by (simp_all add: state_ok_def)
  have h: "head_ok s" "snapshots_ok pf s" using b by (simp_all add: branch_ok_def)
  obtain c where c: "map_of (snapshots s) (snapshotId (ver s)) = Some c" "cq_version c = ver s"
    using snapshot_at_head [OF h(2,1)] .
  let ?q = "\<lparr>target = target q, placement = placement q, cq_version = ver s\<rparr>"
  have "state p ?q = Inr s" using s state_cong [of ?q q p] by simp
  then have pc: "plane_content p ?q = Inr c" by (simp add: plane_content_def c sameBranchStateVersion_def)
  have v: "validateNullMemState pf (head s) (mem_revision (nullmem s)) (map snd (mem_records (nullmem s)))
      (mem_outbox (nullmem s)) (0, []) = Inr ()"
    using m h(1) by (intro nullmem_ok_validates) (simp_all add: memory_ok_def head_ok_def)
  have "list_all (\<lambda>entry. case map_of (snapshots s) (snapshotId (hd_version (nr_head (no_result entry)))) of
      None \<Rightarrow> False | Some stored \<Rightarrow> sameBranchStateVersion (cq_version stored) (hd_version (nr_head (no_result entry))))
      (mem_outbox (nullmem s))"
    using m by (fastforce simp: memory_ok_def memory_entry_ok_def Let_def list_all_iff sameBranchStateVersion_def)
  then show ?thesis by (simp add: nullMemState_def s pc v)
qed

text \<open>
  C21: The integrity check that every memory operation performs never fails: in every reachable
  system, for every branch the replay of the stored mutations from the empty memory reproduces the
  stored records and revision, so the state is handed to the operation. Corruption is reported only
  for states the plane did not write.
\<close>

theorem memory_always_verifies:
  assumes "reachable (plane_init pf) (plane_step pf) (p, fs)" "state p q = Inr s"
  shows "nullMemState pf p q = Inr s"
  using plane_invariant.reachable_inv [OF assms(1)] memory_state_validates [OF _ assms(2)] by (simp add: system_ok_def)

theorem memory_always_verifies_witness:
  "nullMemState example_platform (demo_plane (js ''owner'')) (demo_command (js ''owner'')) = Inr (demo_state (js ''owner''))"
  by (rule memory_always_verifies [OF demo_reachable [OF demo_id_owner]]) (simp add: state_def demo_fields demo_lookup)

section \<open>Envelopes\<close>

lemma appendBatch_loop_total: "n < length planes \<Longrightarrow> \<exists>r. appendBatch_loop pf n c planes = Some r"
proof (induction pf n c planes rule: appendBatch_loop.induct)
  case (2 pf n c before now later t planes)
  show ?case
  proof (cases "batch_begin pf before now c")
    case (Inr x)
    obtain s pb where x: "x = (s, pb)" by fastforce
    show ?thesis
    proof (cases "batch_finish later c s pb")
      case (Inr y)
      with 2 \<open>batch_begin pf before now c = Inr x\<close> x show ?thesis by (cases y) auto
    qed (simp add: x \<open>batch_begin pf before now c = Inr x\<close>)
  qed simp
qed auto



lemma stored_receipts_sound:
  assumes "state_ok pf s"
  shows "receipts_sound (receipts s)"
  unfolding receipts_sound_def
proof (intro ballI, clarify)
  fix k r assume "(k, r) \<in> set (receipts s)"
  moreover have ro: "receipts_ok pf s" and sn: "snapshots_ok pf s" and ev: "events_ok s" and h: "head_ok s"
    using assms by (simp_all add: state_ok_def branch_ok_def)
  ultimately have "receipt_ok pf s k r" by (auto simp: receipts_ok_def map_of_mem_iff)
  then obtain e c where e: "map_of (st_events s) (receipt_seq r) = Some e"
    and c: "map_of (snapshots s) (snapshotId (rc_version r)) = Some c" by (auto simp: receipt_ok_def)
  have "receipt_seq r \<in> {0..eventSeq (ver s)}" "snapshotId (rc_version r) \<in> {0..snapshotId (ver s)}"
    using e c ev sn by (auto simp: events_ok_def snapshots_ok_def)
  moreover have "is_safe_integer (eventSeq (ver s))" "is_safe_integer (snapshotId (ver s))"
    using head_ok_versions(1) [OF h] by (auto simp: valid_version_def)
  ultimately show "isNonNegativeSafeInteger (snapshotId (rc_version r)) \<and>
      isNonNegativeSafeInteger (case rc_eventSeq r of None \<Rightarrow> eventSeq (rc_version r) | Some n \<Rightarrow> n)"
    by (auto simp: isNonNegativeSafeInteger_def is_safe_integer_def receipt_seq_def max_safe_integer_def split: option.splits)
qed

text \<open>
  C11: In a running plane the client is never left in doubt: for every captured envelope that any
  reachable plane prepares, the answer passes the client's receipt check for exactly the submitted
  event ids. (The soundness of stored receipts, a hypothesis of the check in isolation, is an
  invariant of the plane.)
\<close>

theorem running_plane_confirms:
  assumes "reachable (plane_init pf) (plane_step pf) (p, fs)" "captureBranchBatchAppend input = Inr c"
    and "batch_begin pf p now c = Inr (s, pb)"
  shows "hasConfirmedDropDiffAppendReceipt (diff_append_response b (pb_result pb)) (Some b) (map eventId (events c))"
proof -
  have "states_ok pf p" using plane_invariant.reachable_inv [OF assms(1)] by (simp add: system_ok_def plane_ok_def)
  moreover from assms(3) obtain t where "state p c = Inr s"
    "prepareBranchBatch pf c (hashBranchBatchEvents pf (events c)) (head s) t (receipts s) now = Inr pb"
    by (auto simp: batch_begin_def result_simps split: option.splits)
  ultimately show ?thesis
    using server_response_confirmed_lemma [OF _ stored_receipts_sound [OF state_Inr(4)]] captured_batch_events(5) [OF assms(2)]
    by (fastforce simp: max_safe_integer_def)
qed

lemma demo_batch:
  obtains s pb where "captureBranchBatchAppend example_batch = Inr example_batch"
    "batch_begin example_platform (demo_plane (js ''owner'')) 7 example_batch = Inr (s, pb)"
proof -
  have "event_integers_safe example_event"
    by (simp add: event_integers_safe_def op_integers_safe_def example_event_def is_safe_integer_def max_safe_integer_def)
  then have j: "DropDiffAppendEnvelopeSchema (envelope_json (events example_batch)) = Some (events example_batch)"
    using example_event_valid by (intro DropDiffAppendEnvelopeSchema_json)
      (simp_all add: example_batch_def bounded_def DIFF_ENVELOPE_MAX_EVENTS_def)
  have "captured_ops (event_ops example_event) = Inr (event_ops example_event)"
    using example_event_decodable by (simp add: captured_ops_decodable)
  then have e: "capture_batch_event \<lparr>target = example_target, placement = example_placement\<rparr> example_event = Inr example_event"
    by (simp add: capture_batch_event_def) (simp add: example_event_def example_target_def)
  have "BranchStateQuery_head example_batch = Inr \<lparr>target = example_target, placement = example_placement\<rparr>"
    using example_query_valid by (simp add: BranchStateQuery_head_def query_of_def example_batch_def)
  then have c: "captureBranchBatchAppend example_batch = Inr example_batch"
    using j e by (simp add: captureBranchBatchAppend_def) (simp add: example_batch_def)
  have h: "demo_head (js ''owner'') = example_head"
    by (simp add: demo_head_def example_head_def demo_target_def example_target_def example_branch_def)
  have t: "target example_batch = demo_target (js ''owner'')" "placement example_batch = example_placement"
    by (simp_all add: example_batch_def example_target_def demo_target_def)
  have st: "state (demo_plane (js ''owner'')) example_batch = Inr (demo_state (js ''owner''))"
    by (simp add: state_def t demo_fields demo_lookup)
  obtain pb where "prepareBranchBatch example_platform example_batch
     (hashBranchBatchEvents example_platform (events example_batch)) example_head [] [] 7 = Inr pb"
    using example_batch_prepared by blast
  then have "batch_begin example_platform (demo_plane (js ''owner'')) 7 example_batch = Inr (demo_state (js ''owner''), pb)"
    using demo_snapshot [of "js ''owner''"] by (simp add: batch_begin_def st demo_fields(9,10) h)
  with c that show ?thesis by blast
qed

theorem running_plane_confirms_witness:
  "\<exists>pb :: PreparedBranchBatch. hasConfirmedDropDiffAppendReceipt (diff_append_response (js ''owner'') (pb_result pb)) (Some (js ''owner''))
     (map eventId [example_event, example_event])"
proof (rule demo_batch)
  fix s pb assume "captureBranchBatchAppend example_batch = Inr example_batch"
    and "batch_begin example_platform (demo_plane (js ''owner'')) 7 example_batch = Inr (s, pb)"
  from running_plane_confirms [OF demo_reachable [OF demo_id_owner] this, of "js ''owner''"]
  show ?thesis by (intro exI [of _ pb]) (simp add: example_batch_def)
qed

section \<open>Delivery\<close>

lemma claimed_item:
  assumes ok: "plane_ok pf p" and c: "claimOutbox pf p command = Inr (d, p')" and item: "item \<in> set (dc_items d)"
  obtains row where "map_of (delivery p) (di_outboxId item) = Some row" "due command row"
    "outboxLeaseToken pf (oc_leaseId command) (di_outboxId item) (ds_attempt row + 1) = Inr (di_leaseToken item)"
    "target item = ds_target row" "placement item = \<lparr>routingVersion = 1, generation = ds_generation row\<rparr>"
    "map_of (delivery p') (di_outboxId item) = Some (row \<lparr>ds_status := Claimed, ds_attempt := ds_attempt row + 1,
       ds_nextAttemptAt := dc_leaseUntil d, ds_leaseId := Some (oc_leaseId command), ds_leaseToken := Some (di_leaseToken item),
       ds_leaseUntil := Some (dc_leaseUntil d)\<rparr>)"
    "dc_leaseUntil d = oc_now command + oc_leaseMs command" "states p' = states p"
  using ok c
proof (rule claimOutbox_Inr)
  fix rows sel
  assume m: "mset rows = mset (delivery p)"
    and sel: "list_all2 (selects pf command) (take (nat (oc_limit command)) (filter (\<lambda>(i, row). due command row) rows)) sel"
    and dist: "distinct (map cs_id sel)"
    and d: "d = \<lparr>dc_leaseId = oc_leaseId command, dc_leaseUntil = oc_now command + oc_leaseMs command, dc_items = map cs_item sel\<rparr>"
    and p': "p' = p \<lparr>delivery := foldl (\<lambda>rows c. update_row (claimed_row (oc_leaseId command)
       (oc_now command + oc_leaseMs command) c) (cs_id c) rows) (delivery p) sel\<rparr>"
  from item d obtain s where s: "s \<in> set sel" "item = cs_item s" by auto
  from selected_row [OF sel s(1)] obtain i row token where i: "(i, row) \<in> set rows" "due command row"
    "s = selection_of i row token" "outboxLeaseToken pf (oc_leaseId command) i (ds_attempt row + 1) = Inr token" .
  have row: "map_of (delivery p) i = Some row"
    using i(1) mset_eq_setD [OF m] by (simp add: map_of_mem_iff [OF plane_rows(1) [OF ok], symmetric])
  have "find (\<lambda>x. cs_id x = cs_id s) sel = Some s"
  proof -
    have "\<exists>y. find (\<lambda>x. cs_id x = cs_id s) sel = Some y" using s(1) by (auto simp: find_None_iff simp flip: not_None_eq)
    then obtain y where y: "find (\<lambda>x. cs_id x = cs_id s) sel = Some y" ..
    then have "y \<in> set sel" "cs_id y = cs_id s" by (auto simp: find_Some_iff)
    with s(1) dist have "y = s" by (metis distinct_map inj_onD)
    with y show ?thesis by simp
  qed
  then have new: "map_of (delivery p') i = Some (claimed_row (oc_leaseId command) (oc_now command + oc_leaseMs command) s row)"
    using row i(3) by (simp add: p' map_of_update_rows [OF dist] selection_of_def)
  show thesis
    by (rule that [of row]) (use i row new in \<open>simp_all add: s(2) selection_of_def claimed_row_def d p'\<close>)
qed

lemma claimed_after:
  assumes "plane_ok pf p" "claimOutbox pf p command = Inr (d, p')" "item \<in> set (dc_items d)"
  shows "\<exists>row. map_of (delivery p') (di_outboxId item) = Some row \<and> ds_status row = Claimed \<and>
    ds_nextAttemptAt row = dc_leaseUntil d \<and> ds_leaseUntil row = Some (dc_leaseUntil d) \<and> ds_leaseId row = Some (oc_leaseId command) \<and>
    ds_leaseToken row = Some (di_leaseToken item) \<and> ds_target row = target item \<and>
    placement item = \<lparr>routingVersion = 1, generation = ds_generation row\<rparr> \<and>
    outboxLeaseToken pf (oc_leaseId command) (di_outboxId item) (ds_attempt row) = Inr (di_leaseToken item)"
  using assms by (rule claimed_item) simp

lemma claimed_before:
  assumes "plane_ok pf p" "claimOutbox pf p command = Inr (d, p')" "item \<in> set (dc_items d)"
  shows "\<exists>row. map_of (delivery p) (di_outboxId item) = Some row \<and> due command row \<and>
    outboxLeaseToken pf (oc_leaseId command) (di_outboxId item) (ds_attempt row + 1) = Inr (di_leaseToken item)"
  using assms by (rule claimed_item) simp

lemma demo_claim:
  assumes ok: "plane_ok example_platform p" and d: "delivery p = [(i, row)]" and v: "validateOutboxClaim c = Inr ()"
    and i: "1 \<le> length i" "length i \<le> 1024" and a: "0 \<le> ds_attempt row" "is_safe_integer (ds_attempt row + 1)"
  shows "\<exists>items p' row'. claimOutbox example_platform p c
      = Inr (\<lparr>dc_leaseId = oc_leaseId c, dc_leaseUntil = oc_now c + oc_leaseMs c, dc_items = items\<rparr>, p') \<and>
    map di_outboxId items = (if due c row then [i] else []) \<and> delivery p' = [(i, row')] \<and>
    (due c row \<longrightarrow> ds_status row' = Claimed \<and> ds_nextAttemptAt row' = oc_now c + oc_leaseMs c \<and> ds_attempt row' = ds_attempt row + 1)"
proof -
  have row: "map_of (delivery p) i = Some row" by (simp add: d)
  have srt: "stable_sort lt [r] = [r]" for lt and r :: "jstring \<times> OutboxDeliveryState" by (simp add: stable_sort_def stable_insert_def)
  have c: "valid_lease_id (oc_leaseId c)" "1 \<le> oc_limit c" using v by (auto simp: validateOutboxClaim_def split: if_splits)
  have "\<exists>t. outboxLeaseToken example_platform (oc_leaseId c) i (ds_attempt row + 1) = Inr t"
    using c(1) i a by (intro lease_token_total example_numbers_short) (simp_all add: valid_lease_id_iff)
  then obtain t where t: "outboxLeaseToken example_platform (oc_leaseId c) i (ds_attempt row + 1) = Inr t" ..
  show ?thesis
  proof (cases "due c row")
    case True
    with t have "claim_row example_platform p c (i, row) = Inr (Select_Row (selection_of i row t))"
      by (simp add: claim_row_ok [OF ok row])
    then have l: "claim_loop example_platform p c [(i, row)] [] [] = Inr ([selection_of i row t], [])" using c(2) by simp
    show ?thesis
      using True by (simp add: claimOutbox_def v d srt l Let_def del: claim_loop.simps) (simp add: update_row_def claimed_row_def selection_of_def)
  next
    case False
    then have "claim_loop example_platform p c [(i, row)] [] [] = Inr ([], [])" using c(2) by (simp add: claim_row_ok [OF ok row])
    with False show ?thesis by (simp add: claimOutbox_def v d srt Let_def del: claim_loop.simps)
  qed
qed

definition demo_claim_at :: "int \<Rightarrow> BranchOutboxClaimCommand" where
  "demo_claim_at now = \<lparr>oc_leaseId = js ''w'', oc_now = now, oc_leaseMs = 1000, oc_limit = 5\<rparr>"

lemma demo_claim_valid: "0 \<le> now \<Longrightarrow> now \<le> 10000 \<Longrightarrow> validateOutboxClaim (demo_claim_at now) = Inr ()"
  by (simp add: validateOutboxClaim_def demo_claim_at_def valid_lease_id_def js_trim_def js_def js_whitespace_def
      MAX_OUTBOX_LEASE_MS_def is_safe_integer_def max_safe_integer_def)

lemma demo_claim_fields: "oc_leaseId (demo_claim_at now) = js ''w''" "oc_now (demo_claim_at now) = now" "oc_leaseMs (demo_claim_at now) = 1000"
  by (simp_all add: demo_claim_at_def)

text \<open>The outbox record of the example append, claimed once.\<close>

lemma demo_claimed:
  obtains p items p1 i row where
    "reachable (plane_init example_platform) (plane_step example_platform) (p, [])"
    "claimOutbox example_platform p (demo_claim_at 10) = Inr (\<lparr>dc_leaseId = js ''w'', dc_leaseUntil = 1010, dc_items = items\<rparr>, p1)"
    "map di_outboxId items = [i]" "plane_ok example_platform p1" "delivery p1 = [(i, row)]"
    "ds_status row = Claimed" "ds_nextAttemptAt row = 1010" "ds_attempt row = 1" "1 \<le> length i" "length i \<le> 1024"
  using demo_id_owner
proof (rule demo_append)
  let ?b = "js ''owner''" and ?i = "json_key [js ''branch.commit.v1'', js ''d'', js ''owner'', js ''owner'']"
  fix pc p' assume r: "reachable (plane_init example_platform) (plane_step example_platform) (p', [])"
    and d: "delivery p' = [(co_id (pc_outbox pc), new_row (Commit_Outbox (pc_outbox pc)))]"
    and id: "co_id (pc_outbox pc) = json_key [js ''branch.commit.v1'', js ''d'', ?b, ?b]"
  have ok: "plane_ok example_platform p'" using plane_invariant.reachable_inv [OF r] by (simp add: system_ok_def)
  have len: "1 \<le> length ?i" "length ?i \<le> 1024"
    using length_quote_json [of "js ''branch.commit.v1''"] length_quote_json [of "js ''d''"] length_quote_json [of "js ''owner''"] by (simp_all add: json_key_def)
  let ?row = "new_row (Commit_Outbox (pc_outbox pc))"
  have fresh: "ds_attempt ?row = 0" by (simp add: new_row_def)
  have due: "due (demo_claim_at 10) ?row" by (simp add: due_def new_row_def demo_claim_at_def)
  have "\<exists>items p1 row'. claimOutbox example_platform p' (demo_claim_at 10) = Inr (\<lparr>dc_leaseId = js ''w'', dc_leaseUntil = 1010, dc_items = items\<rparr>, p1) \<and>
      map di_outboxId items = [?i] \<and> delivery p1 = [(?i, row')] \<and> ds_status row' = Claimed \<and> ds_nextAttemptAt row' = 1010 \<and> ds_attempt row' = 1"
    using demo_claim [OF ok d [unfolded id] demo_claim_valid [of 10] len]
    by (simp add: due demo_claim_fields fresh is_safe_integer_def max_safe_integer_def)
  then obtain items p1 row' where c: "claimOutbox example_platform p' (demo_claim_at 10)
        = Inr (\<lparr>dc_leaseId = js ''w'', dc_leaseUntil = 1010, dc_items = items\<rparr>, p1)"
    and m: "map di_outboxId items = [?i]" "delivery p1 = [(?i, row')]" "ds_status row' = Claimed" "ds_nextAttemptAt row' = 1010" "ds_attempt row' = 1"
    by (elim exE conjE) (rule that)
  have "plane_ok example_platform p1" using claimOutbox_ok [OF ok c] by (simp add: keeps_def)
  from that [OF r c m(1) this m(2-5) len] show thesis .
qed

text \<open>
  Leases are exclusive: in a reachable system, work handed out by one claim is not handed out by
  a second claim made before the first lease has run out, whoever asks.
\<close>

theorem claims_exclusive:
  assumes "reachable (plane_init pf) (plane_step pf) (p, fs)"
    and "claimOutbox pf p c1 = Inr (d1, p1)" "claimOutbox pf p1 c2 = Inr (d2, p2)" "oc_now c2 < dc_leaseUntil d1"
  shows "set (map di_outboxId (dc_items d1)) \<inter> set (map di_outboxId (dc_items d2)) = {}"
proof (rule ccontr)
  assume "set (map di_outboxId (dc_items d1)) \<inter> set (map di_outboxId (dc_items d2)) \<noteq> {}"
  then obtain x y where x: "x \<in> set (dc_items d1)" and y: "y \<in> set (dc_items d2)" and same: "di_outboxId x = di_outboxId y" by auto
  have ok: "plane_ok pf p" using plane_invariant.reachable_inv [OF assms(1)] by (simp add: system_ok_def)
  have ok1: "plane_ok pf p1" using claimOutbox_ok [OF ok assms(2)] by (simp add: keeps_def)
  from claimed_after [OF ok assms(2) x] claimed_before [OF ok1 assms(3) y] same assms(4)
  show False by (auto simp: due_def)
qed

theorem claims_exclusive_witness:
  "\<exists>(d1 :: BranchOutboxDeliveryClaim) (d2 :: BranchOutboxDeliveryClaim). map di_outboxId (dc_items d1) \<noteq> [] \<and> set (map di_outboxId (dc_items d1)) \<inter> set (map di_outboxId (dc_items d2)) = {}"
proof (rule demo_claimed)
  fix p items p1 i row
  assume r: "reachable (plane_init example_platform) (plane_step example_platform) (p, [])"
    and c: "claimOutbox example_platform p (demo_claim_at 10) = Inr (\<lparr>dc_leaseId = js ''w'', dc_leaseUntil = 1010, dc_items = items\<rparr>, p1)"
    and m: "map di_outboxId items = [i]" and ok: "plane_ok example_platform p1" "delivery p1 = [(i, row)]"
    and row: "ds_status row = Claimed" "ds_nextAttemptAt row = 1010" "ds_attempt row = 1" and len: "1 \<le> length i" "length i \<le> 1024"
  from demo_claim [OF ok demo_claim_valid [of 500] len] row obtain d2 p2 where
    c2: "claimOutbox example_platform p1 (demo_claim_at 500) = Inr (d2, p2)"
    by (auto simp: is_safe_integer_def max_safe_integer_def)
  have "oc_now (demo_claim_at 500) < dc_leaseUntil \<lparr>dc_leaseId = js ''w'', dc_leaseUntil = 1010, dc_items = items\<rparr>"
    by (simp add: demo_claim_at_def)
  from claims_exclusive [OF r c c2 this] m show ?thesis
    by (intro exI [of _ "\<lparr>dc_leaseId = js ''w'', dc_leaseUntil = 1010, dc_items = items\<rparr>"] exI [of _ d2]) simp
qed

text \<open>
  C9: A lease that was superseded is powerless for good: once work claimed by one claim has been
  claimed again (after expiry or release, at any later point of the run and under any lease id, even
  the same one), no acknowledgement or retry under the first claim's token is ever honoured again:
  at most the work is reported as already done.
\<close>

theorem superseded_lease_powerless:
  assumes "reachable (plane_init pf) (plane_step pf) (p, fs)"
    and "claimOutbox pf p c1 = Inr (d1, p1)" "(plane_step pf)\<^sup>*\<^sup>* (p1, fs) (q, gs)"
    and "claimOutbox pf q c2 = Inr (d2, q2)" "(plane_step pf)\<^sup>*\<^sup>* (q2, gs) (z, hs)"
    and "x \<in> set (dc_items d1)" "y \<in> set (dc_items d2)" "di_outboxId x = di_outboxId y"
  shows "ack_disposition z command x \<noteq> Acknowledged \<and> retry_live z command x = None"
proof -
  note sys = plane_invariant.reachable_inv [OF assms(1)]
  note sys1 = plane_invariant.step_inv [OF sys plane_step.claims [OF assms(2)]]
  note sysq = plane_invariant.steps_inv [OF assms(3) sys1]
  note sys2 = plane_invariant.step_inv [OF sysq plane_step.claims [OF assms(4)]]
  note sysz = plane_invariant.steps_inv [OF assms(5) sys2]
  have ok: "plane_ok pf p" "plane_ok pf q" "plane_ok pf z" "platform_ok pf" using sys sysq sysz by (simp_all add: system_ok_def)
  have g1: "plane_grows p1 q" and g2: "plane_grows q2 z"
    using plane.run_grows [OF assms(3) sys1] plane.run_grows [OF assms(5) sys2] by simp_all
  let ?i = "di_outboxId x"
  from claimed_after [OF ok(1) assms(2,6)] obtain r1 where r1: "map_of (delivery p1) ?i = Some r1"
    "outboxLeaseToken pf (oc_leaseId c1) ?i (ds_attempt r1) = Inr (di_leaseToken x)" by blast
  from claimed_before [OF ok(2) assms(4,7)] claimed_after [OF ok(2) assms(4,7)] assms(8)
  obtain rq r2 where rq: "map_of (delivery q) ?i = Some rq" "due c2 rq"
      "outboxLeaseToken pf (oc_leaseId c2) ?i (ds_attempt rq + 1) = Inr (di_leaseToken y)"
    and r2: "map_of (delivery q2) ?i = Some r2" "outboxLeaseToken pf (oc_leaseId c2) ?i (ds_attempt r2) = Inr (di_leaseToken y)"
    by auto
  have n: "number_printer (number_text pf)" using ok(4) by (simp add: platform_ok_def)
  have "ds_attempt r2 = ds_attempt rq + 1" using lease_token_inj [OF n r2(2) rq(3)] by simp
  moreover have "ds_attempt r1 \<le> ds_attempt rq"
    using g1 r1(1) rq(1,2) unfolding plane_grows_def by (fastforce simp: row_le_def due_def)
  moreover obtain rz where rz: "map_of (delivery z) ?i = Some rz" "row_le r2 rz" using g2 r2(1) unfolding plane_grows_def by blast
  ultimately have later: "ds_status rz \<noteq> Completed \<Longrightarrow> ds_attempt r1 < ds_attempt rz" by (simp add: row_le_def)
  have "\<not> lease_live command x rz"
  proof
    assume l: "lease_live command x rz"
    then have st: "ds_status rz = Claimed" "ds_leaseToken rz = Some (di_leaseToken x)" by (simp_all add: lease_live_def)
    with plane_rows(2) [OF ok(3) rz(1)] obtain m where "outboxLeaseToken pf m ?i (ds_attempt rz) = Inr (di_leaseToken x)"
      by (auto simp: lease_ok_def)
    from lease_token_inj [OF n this r1(2)] later st(1) show False by simp
  qed
  then show ?thesis by (simp add: ack_disposition_def retry_live_def rz(1))
qed

theorem superseded_lease_powerless_witness:
  "\<exists>(z :: MemoryPlane) x. \<forall>command. ack_disposition z command x \<noteq> Acknowledged \<and> retry_live z command x = None"
proof (rule demo_claimed)
  fix p items p1 i row
  assume r: "reachable (plane_init example_platform) (plane_step example_platform) (p, [])"
    and c: "claimOutbox example_platform p (demo_claim_at 10) = Inr (\<lparr>dc_leaseId = js ''w'', dc_leaseUntil = 1010, dc_items = items\<rparr>, p1)"
    and m: "map di_outboxId items = [i]" and ok: "plane_ok example_platform p1" "delivery p1 = [(i, row)]"
    and row: "ds_status row = Claimed" "ds_nextAttemptAt row = 1010" "ds_attempt row = 1" and len: "1 \<le> length i" "length i \<le> 1024"
  have "due (demo_claim_at 2000) row" using row by (simp add: due_def demo_claim_at_def)
  with demo_claim [OF ok demo_claim_valid [of 2000] len] row obtain l u ys p2 where
    c2: "claimOutbox example_platform p1 (demo_claim_at 2000) = Inr (\<lparr>dc_leaseId = l, dc_leaseUntil = u, dc_items = ys\<rparr>, p2)"
    and n: "map di_outboxId ys = [i]" by (auto simp: is_safe_integer_def max_safe_integer_def)
  obtain x y where xy: "items = [x]" "ys = [y]" "di_outboxId x = i" "di_outboxId y = i" using m n by auto
  have "ack_disposition p2 command x \<noteq> Acknowledged \<and> retry_live p2 command x = None" for command
    by (rule superseded_lease_powerless [OF r c rtranclp.rtrancl_refl c2 rtranclp.rtrancl_refl, of x y]) (simp_all add: xy)
  then show ?thesis by blast
qed

end
