(* ===== verification/Plane_Work.thy ===== *)
theory Plane_Work
  imports Plane_Guarantees
begin

text \<open>
  Progress of delivery: a claim leaves no due work behind unless it hit its limit, claimed work can be
  read and completed under its lease, completed work never comes back, and the one way a claim can
  fail: a record whose id is longer than a lease token may carry.
\<close>

section \<open>Claimed work is live\<close>

lemma token_lengths:
  assumes "outboxLeaseToken pf l i a = Inr t"
  shows "i \<noteq> []" "length i \<le> 1024" "t \<noteq> []" "length t \<le> 32768"
  using assms by (auto simp: outboxLeaseToken_def Let_def js_def split: if_splits)

lemma claimed_live:
  assumes ok: "plane_ok pf p" and c: "claimOutbox pf p command = Inr (d, p')" and item: "item \<in> set (dc_items d)"
    and now: "or_leaseId result = oc_leaseId command" "or_now result < dc_leaseUntil d"
  shows "\<exists>row x. map_of (delivery p') (di_outboxId item) = Some row \<and> ds_status row = Claimed \<and> lease_live result item row \<and>
    placed_here p' item \<and> ds_target row = target item \<and> ds_generation row = generation (placement item) \<and>
    canonicalOutboxById p' (target item) (di_outboxId item) = Some x \<and> outbox_id x = di_outboxId item \<and>
    canonicalOutboxPlacement x = Inr \<lparr>target = target item, placement = placement item\<rparr> \<and> \<not> invalid_item item"
proof -
  have ok': "plane_ok pf p'" using claimOutbox_ok [OF ok c] by (simp add: keeps_def)
  then have sts: "states_ok pf p'" by (simp add: plane_ok_def)
  from claimed_after [OF ok c item] obtain row where row: "map_of (delivery p') (di_outboxId item) = Some row" "ds_status row = Claimed"
    "ds_nextAttemptAt row = dc_leaseUntil d" "ds_leaseUntil row = Some (dc_leaseUntil d)" "ds_leaseId row = Some (oc_leaseId command)"
    "ds_leaseToken row = Some (di_leaseToken item)" "ds_target row = target item"
    "placement item = \<lparr>routingVersion = 1, generation = ds_generation row\<rparr>"
    "outboxLeaseToken pf (oc_leaseId command) (di_outboxId item) (ds_attempt row) = Inr (di_leaseToken item)" by blast
  have "row_ok pf p' (di_outboxId item) row" using ok' row(1) by (auto simp: plane_ok_def delivery_ok_def)
  then obtain s x where s: "map_of (states p') (key (target item)) = Some s" "target (head s) = target item"
    "generation (placement (head s)) = ds_generation row" "state_outbox s (di_outboxId item) = Some x"
    by (auto simp: row_ok_def row(7))
  note st = state_lookup(2) [OF sts s(1)]
  note x = state_outbox_ok [OF st s(4)]
  have h: "coherent_head (head s)" "routingVersion (placement (head s)) = 1" using state_ok_head [OF st] by (simp_all add: head_ok_def)
  then have pl: "placement (head s) = placement item" using s(3) row(8) by (auto intro: BranchStatePlacement.equality)
  have q: "query_of (head s) = \<lparr>target = target item, placement = placement item\<rparr>" by (simp add: query_of_def s(2) pl)
  have v: "valid_target (target item)" "valid_placement (placement item)" using h(1) s(2) pl by (auto simp: coherent_head_def)
  have "BranchStateQuery_head item = Inr (query_of item)" using v by (simp add: BranchStateQuery_head_def query_of_def)
  then have "\<not> invalid_item item" using token_lengths [OF row(9)] by (simp add: invalid_item_def)
  moreover have "canonicalOutboxPlacement x = Inr \<lparr>target = target item, placement = placement item\<rparr>"
    using v by (simp add: canonical_placement_Inr_iff x(2) q)
  moreover have "canonicalOutboxById p' (target item) (di_outboxId item) = Some x" by (simp add: canonicalOutboxById_bind s)
  moreover have "lease_live result item row" using row now by (simp add: lease_live_def)
  moreover have "placed_here p' item" using s(1,3) row(8) by (simp add: placed_here_def)
  ultimately show ?thesis using row x(1) by auto
qed

lemma claim_items:
  assumes ok: "plane_ok pf p" and c: "claimOutbox pf p command = Inr (d, p')"
  shows "int (length (dc_items d)) \<le> oc_limit command" "oc_limit command \<le> 256" "distinct (map di_outboxId (dc_items d))"
    "valid_lease_id (oc_leaseId command)" "is_safe_integer (dc_leaseUntil d)" "0 \<le> oc_now command"
    "length (dc_items d) < nat (oc_limit command) \<Longrightarrow> map_of (delivery p) i = Some row \<Longrightarrow> due command row \<Longrightarrow>
       i \<in> di_outboxId ` set (dc_items d)"
proof -
  from ok c obtain rows sel where m: "mset rows = mset (delivery p)"
    and sel: "list_all2 (selects pf command) (take (nat (oc_limit command)) (filter (\<lambda>(i, row). due command row) rows)) sel"
    and dist: "distinct (map cs_id sel)"
    and d: "d = \<lparr>dc_leaseId = oc_leaseId command, dc_leaseUntil = oc_now command + oc_leaseMs command, dc_items = map cs_item sel\<rparr>"
    and v: "validateOutboxClaim command = Inr ()"
    by (rule claimOutbox_Inr)
  show "oc_limit command \<le> 256" "valid_lease_id (oc_leaseId command)" "is_safe_integer (dc_leaseUntil d)" "0 \<le> oc_now command"
    using v by (auto simp: validateOutboxClaim_def d split: if_splits)
  have lim: "1 \<le> oc_limit command" using v by (auto simp: validateOutboxClaim_def split: if_splits)
  have len: "length sel = length (take (nat (oc_limit command)) (filter (\<lambda>(i, row). due command row) rows))"
    by (rule list_all2_lengthD [OF sel, symmetric])
  then show "int (length (dc_items d)) \<le> oc_limit command" using lim by (simp add: d)
  have ids: "map cs_id sel = map fst (take (nat (oc_limit command)) (filter (\<lambda>(i, row). due command row) rows))"
    "map di_outboxId (map cs_item sel) = map cs_id sel"
    using sel by (induction rule: list_all2_induct) (auto simp: selects_def selection_of_def)
  then show "distinct (map di_outboxId (dc_items d))" using dist by (simp add: d)
  show "i \<in> di_outboxId ` set (dc_items d)"
    if "length (dc_items d) < nat (oc_limit command)" "map_of (delivery p) i = Some row" "due command row"
  proof -
    have "(i, row) \<in> set (filter (\<lambda>(i, row). due command row) rows)"
      using that(2,3) mset_eq_setD [OF m] by (simp add: map_of_mem_iff [OF plane_rows(1) [OF ok]])
    moreover have "take (nat (oc_limit command)) (filter (\<lambda>(i, row). due command row) rows) = filter (\<lambda>(i, row). due command row) rows"
      using that(1) len by (simp add: d)
    ultimately have "i \<in> set (map cs_id sel)" unfolding ids(1) by force
    then have "i \<in> set (map di_outboxId (map cs_item sel))" by (simp only: ids(2))
    then show ?thesis by (simp add: d image_image)
  qed
qed

lemma count_list_replicate: "count_list (replicate n a) b = (if a = b then n else 0)"
  by (induction n) auto

section \<open>Properties\<close>

text \<open>
  No due work starves: a claim that returns fewer items than its limit has handed out every record
  that was due (pending with its retry time reached, or claimed under a lease that ran out).
\<close>

theorem claim_takes_all_due:
  assumes "reachable (plane_init pf) (plane_step pf) (p, fs)" "claimOutbox pf p c = Inr (d, p')"
    and "length (dc_items d) < nat (oc_limit c)" "map_of (delivery p) i = Some row" "due c row"
  shows "i \<in> set (map di_outboxId (dc_items d))"
proof -
  have "plane_ok pf p" using plane_invariant.reachable_inv [OF assms(1)] by (simp add: system_ok_def)
  from claim_items(7) [OF this assms(2-5)] show ?thesis by simp
qed

theorem claim_takes_all_due_witness:
  "\<exists>items i. i \<in> set (map di_outboxId (items :: BranchOutboxDeliveryItem list))"
proof (rule demo_claimed)
  fix p items p1 i row
  assume r: "reachable (plane_init example_platform) (plane_step example_platform) (p, [])"
    and c: "claimOutbox example_platform p (demo_claim_at 10) = Inr (\<lparr>dc_leaseId = js ''w'', dc_leaseUntil = 1010, dc_items = items\<rparr>, p1)"
    and m: "map di_outboxId items = [i]"
  have ok: "plane_ok example_platform p" using plane_invariant.reachable_inv [OF r] by (simp add: system_ok_def)
  obtain x where x: "items = [x]" using m by auto
  from claimed_before [OF ok c, of x] x obtain row where "map_of (delivery p) (di_outboxId x) = Some row" "due (demo_claim_at 10) row"
    by auto
  from claim_takes_all_due [OF r c _ this] x show ?thesis by (auto simp: demo_claim_at_def)
qed



lemma claim_loop_errors:
  assumes ok: "plane_ok pf p" and rows: "\<And>i row. (i, row) \<in> set rows \<Longrightarrow> map_of (delivery p) i = Some row"
  shows "claim_loop pf p command rows sel [] = Inl e \<Longrightarrow> e = State_Corrupt"
  using rows
proof (induction rows arbitrary: sel)
  case (Cons r rows)
  obtain i row where r: "r = (i, row)" by fastforce
  have token: "outboxLeaseToken pf l i a = Inl e' \<Longrightarrow> e' = State_Corrupt" for l a e'
    by (auto simp: outboxLeaseToken_def Let_def split: if_splits)
  note c = claim_row_ok [OF ok Cons.prems(2), of i row command]
  have IH: "\<And>sel. claim_loop pf p command rows sel [] = Inl e \<Longrightarrow> e = State_Corrupt" by (rule Cons.IH) (simp_all add: Cons.prems(2))
  from Cons.prems(1) c show ?case
    by (auto simp: r and_then_Inl_iff and_then_Inr_iff dest!: IH token split: if_splits)
qed simp

text \<open>
  C29: One record can stop all delivery of a shard. Outbox ids quote the ids they are made of, and
  neither runtime-fact ids nor control characters in branch ids are limited to what fits: when any
  due record has an id of more than 1024 code units, every claim whose limit exceeds the number of
  due records fails with \<^verbatim>\<open>state_corrupt\<close> and hands out nothing, although the plane is consistent. The
  situation is reachable: see the witness, a single append to a branch, branch id and event id
  both being 100 control characters.
\<close>

theorem long_id_blocks_claims:
  assumes "reachable (plane_init pf) (plane_step pf) (p, fs)" "validateOutboxClaim c = Inr ()"
    and "map_of (delivery p) i = Some row" "due c row" "1024 < length i"
    and "length (filter (\<lambda>(i, row). due c row) (delivery p)) < nat (oc_limit c)"
  shows "claimOutbox pf p c = Inl State_Corrupt"
proof -
  have ok: "plane_ok pf p" using plane_invariant.reachable_inv [OF assms(1)] by (simp add: system_ok_def)
  have no: "claimOutbox pf p c \<noteq> Inr (d, p')" for d p'
  proof
    assume cl: "claimOutbox pf p c = Inr (d, p')"
    from ok cl obtain rows sel where m: "mset rows = mset (delivery p)"
      and sel: "list_all2 (selects pf c) (take (nat (oc_limit c)) (filter (\<lambda>(i, row). due c row) rows)) sel"
      and d: "d = \<lparr>dc_leaseId = oc_leaseId c, dc_leaseUntil = oc_now c + oc_leaseMs c, dc_items = map cs_item sel\<rparr>"
      by (rule claimOutbox_Inr)
    have "mset (filter (\<lambda>(i, row). due c row) rows) = mset (filter (\<lambda>(i, row). due c row) (delivery p))" by (simp add: m)
    from mset_eq_length [OF this] list_all2_lengthD [OF sel] assms(6) have "length (dc_items d) < nat (oc_limit c)" by (simp add: d)
    from claim_items(7) [OF ok cl this assms(3,4)] obtain x where x: "x \<in> set (dc_items d)" "di_outboxId x = i" by auto
    from claimed_before [OF ok cl x(1)] x(2) obtain a where "outboxLeaseToken pf (oc_leaseId c) i a = Inr (di_leaseToken x)" by auto
    from token_lengths(2) [OF this] assms(5) show False by simp
  qed
  let ?rows = "stable_sort (\<lambda>a b. locale_compare pf (fst a) (fst b) < 0) (delivery p)"
  have mem: "map_of (delivery p) j = Some r" if "(j, r) \<in> set ?rows" for j r
    using that mset_eq_setD [OF mset_stable_sort, of "\<lambda>a b. locale_compare pf (fst a) (fst b) < 0" "delivery p"]
    by (simp add: map_of_mem_iff [OF plane_rows(1) [OF ok], symmetric])
  show ?thesis
  proof (cases "claim_loop pf p c ?rows [] []")
    case (Inl e)
    from claim_loop_errors [OF ok mem this] Inl show ?thesis by (simp add: claimOutbox_def assms(2) Let_def)
  next
    case (Inr x)
    then have "\<exists>d p'. claimOutbox pf p c = Inr (d, p')" by (cases x) (simp add: claimOutbox_def assms(2) Let_def)
    with no show ?thesis by blast
  qed
qed

theorem long_id_blocks_claims_witness:
  "\<exists>p :: MemoryPlane. reachable (plane_init example_platform) (plane_step example_platform) (p, []) \<and>
     claimOutbox example_platform p (demo_claim_at 10) = Inl State_Corrupt"
proof -
  let ?b = "replicate 100 1 :: jstring"
  have "\<not> js_whitespace 1" by (simp add: js_whitespace_def word_le_nat_alt)
  then have "is_trimmed ?b" by (simp add: is_trimmed_def js_trim_def dropWhile_eq_self_iff)
  then have b: "demo_id ?b"
    using example_query_valid(1)
    by (simp add: demo_id_def valid_target_def demo_target_def example_target_def valid_token_def bounded_def MAX_BRANCH_ID_LENGTH_def
        is_token_def DIFF_TOKEN_MAX_LENGTH_def)
  show ?thesis
    using b
  proof (rule demo_append)
    fix pc p' assume r: "reachable (plane_init example_platform) (plane_step example_platform) (p', [])"
      and d: "delivery p' = [(co_id (pc_outbox pc), new_row (Commit_Outbox (pc_outbox pc)))]"
      and id: "co_id (pc_outbox pc) = json_key [js ''branch.commit.v1'', js ''d'', ?b, ?b]"
    have one: "quote_body (1 # s) = quote_unit 1 @ quote_body s" for s
      by (cases s) (simp_all add: is_high_surrogate_def word_le_nat_alt)
    have "length (quote_unit 1) = 6" by (simp add: quote_unit_def)
    then have "length (quote_body (replicate n 1)) = 6 * n" for n by (induction n) (simp_all add: one)
    then have "1024 < length (co_id (pc_outbox pc))" unfolding id by (simp add: json_key_def quote_json_def)
    moreover have "due (demo_claim_at 10) (new_row (Commit_Outbox (pc_outbox pc)))" by (simp add: due_def new_row_def demo_claim_at_def)
    ultimately have "claimOutbox example_platform p' (demo_claim_at 10) = Inl State_Corrupt"
      by (intro long_id_blocks_claims [OF r demo_claim_valid, of 10 "co_id (pc_outbox pc)" "new_row (Commit_Outbox (pc_outbox pc))"])
        (simp_all add: d demo_claim_at_def)
    with r show ?thesis by blast
  qed
qed

end
