(* ===== verification/Content_Cache.thy ===== *)
theory Content_Cache
  imports Branch_State
begin

text \<open>
  The bounded cache of exact branch contents, \<^verbatim>\<open>src/server/state-plane/exact-content-cache.ts\<close>: least recently
  used first, with a budget of entries and bytes, and coalesced loads.

  A \<^verbatim>\<open>Map\<close> is an association list in insertion order. A load is split at its wait: \<open>load_begin\<close> is what runs
  before the loader's promise, \<open>load_finish\<close> what runs when it settles. A promise is a number.
\<close>

section \<open>The cache\<close>

record cache_entry =
  entry_value :: BranchStateContent
  entry_bytes :: int

record ExactContentCacheOptions =
  maxEntries :: int
  maxBytes :: int
  maxInFlight :: "int option"

record ExactContentCache =
  cached :: "(jstring \<times> cache_entry) list"
  pending :: "(jstring \<times> nat) list"
  usedBytes :: int
  cap_entries :: int
  cap_bytes :: int
  cap_flight :: int

definition default_options :: ExactContentCacheOptions where
  "default_options = \<lparr>maxEntries = 64, maxBytes = 4 * 1024 * 1024, maxInFlight = None\<rparr>"

text \<open>The constructor; \<open>None\<close> is the \<^verbatim>\<open>RangeError\<close>.\<close>

definition new_cache :: "ExactContentCacheOptions \<Rightarrow> ExactContentCache option" where
  "new_cache options =
     (let flight = (case maxInFlight options of None \<Rightarrow> 32 | Some n \<Rightarrow> n) in
      if list_all (\<lambda>n. is_safe_integer n \<and> n \<ge> 0) [maxEntries options, maxBytes options, flight]
      then Some \<lparr>cached = [], pending = [], usedBytes = 0, cap_entries = maxEntries options,
                 cap_bytes = maxBytes options, cap_flight = flight\<rparr>
      else None)"

definition content_key :: "platform \<Rightarrow> BranchContentQuery \<Rightarrow> jstring branch_result" where
  "content_key pf q = BranchStateQuery_key pf (Content_Query q)"

definition content_query :: "BranchStateContent \<Rightarrow> BranchContentQuery" where
  "content_query v = \<lparr>target = target v, placement = placement v, cq_version = cq_version v\<rparr>"

definition cache_get ::
    "platform \<Rightarrow> BranchContentQuery \<Rightarrow> ExactContentCache \<Rightarrow> (BranchStateContent option \<times> ExactContentCache) branch_result" where
  "cache_get pf q c =
     and_then (content_key pf q) (\<lambda>key.
     case map_of (cached c) key of
       None \<Rightarrow> Inr (None, c)
     | Some e \<Rightarrow> Inr (Some (entry_value e), c\<lparr>cached := AList.delete key (cached c) @ [(key, e)]\<rparr>))"

definition content_json :: "BranchStateContent \<Rightarrow> json" where
  "content_json v = JObj [(js ''target'', target_json (target v)), (js ''placement'', placement_json (placement v)),
     (js ''version'', version_json (cq_version v)), (js ''content'', JStr (content v))]"

definition cost :: "platform \<Rightarrow> jstring \<Rightarrow> BranchStateContent \<Rightarrow> int" where
  "cost pf key v = int (length (encodeText key)) + int (length (encodeText (stringify (number_text pf) (content_json v))))"

text \<open>The eviction loop: the oldest entries, until one more entry of \<open>size\<close> bytes fits.\<close>

fun make_room :: "int \<Rightarrow> int \<Rightarrow> int \<Rightarrow> (jstring \<times> cache_entry) list \<Rightarrow> int \<Rightarrow> (jstring \<times> cache_entry) list \<times> int" where
  "make_room maxE maxB sz [] used = ([], used)"
| "make_room maxE maxB sz (e # es) used =
     (if int (length (e # es)) \<ge> maxE \<or> used + sz > maxB
      then make_room maxE maxB sz es (used - entry_bytes (snd e))
      else (e # es, used))"

definition cache_set :: "platform \<Rightarrow> BranchStateContent \<Rightarrow> ExactContentCache \<Rightarrow> ExactContentCache branch_result" where
  "cache_set pf v c =
     and_then (BranchStateQuery_content (content_query v)) (\<lambda>query.
     and_then (content_key pf query) (\<lambda>key.
     let sz = cost pf key v;
         old = map_of (cached c) key;
         used = (case old of None \<Rightarrow> usedBytes c | Some e \<Rightarrow> usedBytes c - entry_bytes e);
         rest = (case old of None \<Rightarrow> cached c | Some e \<Rightarrow> AList.delete key (cached c))
     in if cap_entries c = 0 \<or> sz > cap_bytes c then Inr (c\<lparr>cached := rest, usedBytes := used\<rparr>)
        else let (kept, used') = make_room (cap_entries c) (cap_bytes c) sz rest used in
          Inr (c\<lparr>cached := kept @ [(key, \<lparr>entry_value = v, entry_bytes = sz\<rparr>)], usedBytes := used' + sz\<rparr>)))"

datatype load_start = Hit BranchStateContent | Joined nat | Started jstring bool

text \<open>\<open>load_begin\<close> is given the number of the promise it would create.\<close>

definition load_begin ::
    "platform \<Rightarrow> BranchContentQuery \<Rightarrow> nat \<Rightarrow> ExactContentCache \<Rightarrow> (load_start \<times> ExactContentCache) branch_result" where
  "load_begin pf q promise c =
     and_then (BranchStateQuery_content q) (\<lambda>captured.
     and_then (content_key pf captured) (\<lambda>key.
     and_then (cache_get pf captured c) (\<lambda>(hit, c').
     case hit of
       Some v \<Rightarrow> Inr (Hit v, c')
     | None \<Rightarrow>
         (case map_of (pending c') key of
            Some p \<Rightarrow> Inr (Joined p, c')
          | None \<Rightarrow>
              let tracked = int (length (pending c')) < cap_flight c' in
              Inr (Started key tracked, if tracked then c'\<lparr>pending := AList.update key promise (pending c')\<rparr> else c')))))"

text \<open>What the promise resolves to, and the entry it leaves; then the \<^verbatim>\<open>finally\<close> block.\<close>

definition settle ::
    "platform \<Rightarrow> jstring \<Rightarrow> BranchStateContent branch_result \<Rightarrow> ExactContentCache \<Rightarrow>
     BranchStateContent branch_result \<times> ExactContentCache" where
  "settle pf key loaded c =
     (case and_then loaded (\<lambda>v. and_then (content_key pf (content_query v)) (\<lambda>k.
        if k \<noteq> key then Inl State_Corrupt else and_then (cache_set pf v c) (\<lambda>c'. Inr (v, c')))) of
        Inl e \<Rightarrow> (Inl e, c)
      | Inr (v, c') \<Rightarrow> (Inr v, c'))"

definition load_finish ::
    "platform \<Rightarrow> jstring \<Rightarrow> nat \<Rightarrow> bool \<Rightarrow> BranchStateContent branch_result \<Rightarrow> ExactContentCache \<Rightarrow>
     BranchStateContent branch_result \<times> ExactContentCache" where
  "load_finish pf key promise tracked loaded c =
     (let (result, c') = settle pf key loaded c in
      (result,
       if tracked \<and> map_of (pending c') key = Some promise then c'\<lparr>pending := AList.delete key (pending c')\<rparr> else c'))"

definition cache_clear :: "ExactContentCache \<Rightarrow> ExactContentCache" where
  "cache_clear c = c\<lparr>cached := [], usedBytes := 0\<rparr>"

definition cache_stats :: "ExactContentCache \<Rightarrow> nat \<times> int \<times> nat" where
  "cache_stats c = (length (cached c), usedBytes c, length (pending c))"

section \<open>Budgets and exactness\<close>

definition bytes_of :: "(jstring \<times> cache_entry) list \<Rightarrow> int" where
  "bytes_of m = (\<Sum>e \<leftarrow> m. entry_bytes (snd e))"

definition within_budget :: "ExactContentCache \<Rightarrow> bool" where
  "within_budget c \<longleftrightarrow>
     jsmap_wf (cached c) \<and> usedBytes c = bytes_of (cached c) \<and> usedBytes c \<le> cap_bytes c \<and>
     int (length (cached c)) \<le> cap_entries c \<and> list_all (\<lambda>e. 0 \<le> entry_bytes (snd e)) (cached c) \<and>
     jsmap_wf (pending c) \<and> int (length (pending c)) \<le> cap_flight c \<and> 0 \<le> cap_bytes c \<and> 0 \<le> cap_flight c"

text \<open>Every entry holds a value that its source confirms and stands under the key of that value.\<close>

definition exact_entries :: "platform \<Rightarrow> (BranchContentQuery \<Rightarrow> BranchStateContent \<Rightarrow> bool) \<Rightarrow> ExactContentCache \<Rightarrow> bool" where
  "exact_entries pf confirmed c \<longleftrightarrow>
     (\<forall>key e. map_of (cached c) key = Some e \<longrightarrow>
        content_key pf (content_query (entry_value e)) = Inr key \<and> confirmed (content_query (entry_value e)) (entry_value e))"

lemma new_cache_budget: "new_cache options = Some c \<Longrightarrow> within_budget c"
  by (auto simp: new_cache_def within_budget_def bytes_of_def Let_def split: if_splits)

lemma bytes_of_simps [simp]:
  "bytes_of [] = 0" "bytes_of (e # m) = entry_bytes (snd e) + bytes_of m" "bytes_of (m @ n) = bytes_of m + bytes_of n"
  by (simp_all add: bytes_of_def)

lemma delete_absent: "map_of m k = None \<Longrightarrow> AList.delete k m = m"
  by (simp add: delete_idem map_of_eq_None_iff)

lemma bytes_of_delete: "jsmap_wf m \<Longrightarrow> map_of m k = Some e \<Longrightarrow> bytes_of (AList.delete k m) = bytes_of m - entry_bytes e"
  by (induction m) (auto simp: delete_absent)

lemma length_delete: "jsmap_wf m \<Longrightarrow> map_of m k = Some e \<Longrightarrow> length (AList.delete k m) + 1 = length m"
  by (induction m) (auto simp: delete_absent)

lemma make_room_spec:
  assumes "make_room maxE maxB sz m used = (m', used')" "used = bytes_of m" "0 < maxE" "sz \<le> maxB"
  shows "(\<exists>n. m' = drop n m) \<and> used' = bytes_of m' \<and> int (length m') < maxE \<and> used' + sz \<le> maxB"
  using assms
proof (induction maxE maxB sz m used rule: make_room.induct)
  case (2 maxE maxB sz e es used)
  show ?case
  proof (cases "int (length (e # es)) \<ge> maxE \<or> used + sz > maxB")
    case True
    with 2 have "(\<exists>n. m' = drop n es) \<and> used' = bytes_of m' \<and> int (length m') < maxE \<and> used' + sz \<le> maxB" by auto
    then show ?thesis by (metis drop_Suc_Cons)
  next
    case False
    with 2 show ?thesis by (intro conjI exI [of _ 0]) auto
  qed
qed (auto intro: exI [of _ 0])

lemma map_of_drop: "jsmap_wf m \<Longrightarrow> map_of (drop n m) k = Some v \<Longrightarrow> map_of m k = Some v"
  by (metis in_set_dropD jsmap_wf_def map_of_SomeD map_of_is_SomeI)

lemma delete_subset: "e \<in> set (AList.delete k m) \<Longrightarrow> e \<in> set m"
  by (auto simp: AList.delete_eq)

lemma delete_list_all: "list_all p m \<Longrightarrow> list_all p (AList.delete k m)"
  by (auto simp: list_all_iff dest: delete_subset)

lemma jsmap_wf_append: "jsmap_wf m \<Longrightarrow> map_of m k = None \<Longrightarrow> jsmap_wf (m @ [(k, v)])"
  by (auto simp: jsmap_wf_def map_of_eq_None_iff)

lemma map_of_snoc:
  "map_of (m @ [(k, v)]) j = (case map_of m j of None \<Rightarrow> if j = k then Some v else None | Some x \<Rightarrow> Some x)"
  by (induction m) auto

lemma map_of_move: "jsmap_wf m \<Longrightarrow> map_of m k = Some v \<Longrightarrow> map_of (AList.delete k m @ [(k, v)]) = map_of m"
  by (auto simp: fun_eq_iff map_of_snoc delete_conv' split: option.splits)

lemma jsmap_wf_drop: "jsmap_wf m \<Longrightarrow> jsmap_wf (drop n m)"
  by (simp add: jsmap_wf_def drop_map [symmetric] distinct_drop)

lemma cost_nonneg: "0 \<le> cost pf key v"
  by (simp add: cost_def)

text \<open>Reading: the hit is the entry of exactly this query, and only the order of entries changes.\<close>

lemma cache_get_Inr:
  assumes "cache_get pf q c = Inr (hit, c')" "within_budget c" "exact_entries pf confirmed c" "number_printer (number_text pf)"
  shows "within_budget c'" "exact_entries pf confirmed c'" "hit = Some v \<Longrightarrow> content_query v = q \<and> confirmed q v"
    "pending c' = pending c" "cap_flight c' = cap_flight c" "map_of (cached c') = map_of (cached c)"
proof -
  from assms(1) obtain key where key: "content_key pf q = Inr key" by (auto simp: cache_get_def and_then_Inr_iff)
  have r: "(hit, c') = (case map_of (cached c) key of None \<Rightarrow> (None, c)
      | Some e \<Rightarrow> (Some (entry_value e), c\<lparr>cached := AList.delete key (cached c) @ [(key, e)]\<rparr>))"
    using assms(1) key by (auto simp: cache_get_def split: option.splits)
  have "within_budget c' \<and> exact_entries pf confirmed c' \<and> (\<forall>v. hit = Some v \<longrightarrow> content_query v = q \<and> confirmed q v) \<and>
    pending c' = pending c \<and> cap_flight c' = cap_flight c \<and> map_of (cached c') = map_of (cached c)"
  proof (cases "map_of (cached c) key")
    case (Some e)
    with r have hit: "hit = Some (entry_value e)" and c': "c' = c\<lparr>cached := AList.delete key (cached c) @ [(key, e)]\<rparr>"
      by auto
    have wf: "jsmap_wf (cached c)" "usedBytes c = bytes_of (cached c)" "list_all (\<lambda>e. 0 \<le> entry_bytes (snd e)) (cached c)"
      using assms(2) by (auto simp: within_budget_def)
    have len: "length (AList.delete key (cached c)) + 1 = length (cached c)" by (rule length_delete [OF wf(1) Some])
    have mem: "0 \<le> entry_bytes e" using wf(3) map_of_SomeD [OF Some] by (auto simp: list_all_iff)
    have move: "map_of (cached c') = map_of (cached c)" using map_of_move [OF wf(1) Some] by (simp add: c')
    have "within_budget c'"
      using assms(2) wf mem len bytes_of_delete [OF wf(1) Some] delete_list_all [OF wf(3)]
      by (simp add: within_budget_def c' jsmap_wf_append delete_conv')
    moreover have "exact_entries pf confirmed c'" using assms(3) unfolding exact_entries_def move .
    moreover have exact: "content_key pf (content_query (entry_value e)) = Inr key"
        "confirmed (content_query (entry_value e)) (entry_value e)"
      using assms(3) Some by (auto simp: exact_entries_def)
    moreover have "content_query (entry_value e) = q"
      using query_key_inj [OF assms(4)] exact(1) key by (auto simp: content_key_def)
    ultimately show ?thesis using move hit by (auto simp: c')
  qed (use assms r in auto)
  then show "within_budget c'" "exact_entries pf confirmed c'" "hit = Some v \<Longrightarrow> content_query v = q \<and> confirmed q v"
      "pending c' = pending c" "cap_flight c' = cap_flight c" "map_of (cached c') = map_of (cached c)"
    by blast+
qed

text \<open>Writing: the budgets hold afterwards, and every entry was there before or is the new value.\<close>

lemma cache_set_Inr:
  assumes "cache_set pf v c = Inr c'" "within_budget c" "exact_entries pf confirmed c" "confirmed (content_query v) v"
  shows "within_budget c' \<and> exact_entries pf confirmed c' \<and> pending c' = pending c \<and> cap_flight c' = cap_flight c"
proof -
  from assms(1) obtain query key where query: "BranchStateQuery_content (content_query v) = Inr query"
    and key: "content_key pf query = Inr key" by (auto simp: cache_set_def and_then_Inr_iff)
  have q: "query = content_query v" using query by (auto simp: BranchStateQuery_content_def split: if_splits)
  define rest where "rest = AList.delete key (cached c)"
  define used where "used = bytes_of rest"
  have wf: "jsmap_wf (cached c)" "usedBytes c = bytes_of (cached c)" "list_all (\<lambda>e. 0 \<le> entry_bytes (snd e)) (cached c)"
    "usedBytes c \<le> cap_bytes c" "int (length (cached c)) \<le> cap_entries c"
    using assms(2) by (auto simp: within_budget_def)
  have old: "(case map_of (cached c) key of None \<Rightarrow> usedBytes c | Some e \<Rightarrow> usedBytes c - entry_bytes e) = used"
    "(case map_of (cached c) key of None \<Rightarrow> cached c | Some e \<Rightarrow> AList.delete key (cached c)) = rest"
    using wf by (auto simp: used_def rest_def bytes_of_delete delete_absent split: option.splits)
  have rest: "jsmap_wf rest" "list_all (\<lambda>e. 0 \<le> entry_bytes (snd e)) rest" "map_of rest key = None"
      "used \<le> cap_bytes c" "int (length rest) \<le> cap_entries c"
      "\<And>k e. map_of rest k = Some e \<Longrightarrow> map_of (cached c) k = Some e"
    using wf delete_list_all [OF wf(3), of key] length_delete [OF wf(1), of key] bytes_of_delete [OF wf(1), of key]
    by (auto simp: rest_def used_def delete_conv' list_all_iff delete_absent split: if_splits
        dest: map_of_SomeD intro: order_trans)
      (cases "map_of (cached c) key"; force simp: delete_absent dest: map_of_SomeD)+
  show ?thesis
  proof (cases "cap_entries c = 0 \<or> cost pf key v > cap_bytes c")
    case True
    then have "c' = c\<lparr>cached := rest, usedBytes := used\<rparr>"
      using assms(1) query key by (simp add: cache_set_def Let_def old)
    then show ?thesis using assms(2,3) rest by (auto simp: within_budget_def exact_entries_def used_def)
  next
    case False
    obtain kept used' where room: "make_room (cap_entries c) (cap_bytes c) (cost pf key v) rest used = (kept, used')"
      by fastforce
    have c': "c' = c\<lparr>cached := kept @ [(key, \<lparr>entry_value = v, entry_bytes = cost pf key v\<rparr>)], usedBytes := used' + cost pf key v\<rparr>"
      using assms(1) query key False room by (simp add: cache_set_def Let_def old)
    have "0 < cap_entries c" using False wf(5) by auto
    from make_room_spec [OF room used_def this] False obtain n where kept: "kept = drop n rest" "used' = bytes_of kept"
        "int (length kept) < cap_entries c" "used' + cost pf key v \<le> cap_bytes c" by auto
    have fresh: "map_of kept key = None"
      using rest(3) kept(1) map_of_drop [OF rest(1), of n key] by (cases "map_of kept key") auto
    have "list_all (\<lambda>e. 0 \<le> entry_bytes (snd e)) kept" using rest(2) kept(1) by (auto simp: list_all_iff dest: in_set_dropD)
    then have "within_budget c'"
      using assms(2) kept fresh rest(1) cost_nonneg [of pf key v]
      by (simp add: within_budget_def c' jsmap_wf_append jsmap_wf_drop)
    moreover have "exact_entries pf confirmed c'"
      unfolding exact_entries_def
    proof (intro allI impI)
      fix k e
      assume e: "map_of (cached c') k = Some e"
      show "content_key pf (content_query (entry_value e)) = Inr k \<and> confirmed (content_query (entry_value e)) (entry_value e)"
      proof (cases "k = key")
        case True
        with e fresh have "e = \<lparr>entry_value = v, entry_bytes = cost pf key v\<rparr>"
          by (auto simp: c' map_of_snoc split: option.splits)
        then show ?thesis using key q True assms(4) by simp
      next
        case False
        with e have "map_of kept k = Some e" by (auto simp: c' map_of_snoc split: option.splits if_splits)
        then have "map_of (cached c) k = Some e" using rest(6) map_of_drop [OF rest(1)] kept(1) by blast
        with assms(3) show ?thesis by (auto simp: exact_entries_def)
      qed
    qed
    ultimately show ?thesis by (simp add: c')
  qed
qed

text \<open>A value that fits the budgets is a hit right after it was stored.\<close>

lemma set_then_get:
  assumes "cache_set pf v c = Inr c'" "content_key pf (content_query v) = Inr key" "cost pf key v \<le> cap_bytes c"
    "cap_entries c \<noteq> 0" "within_budget c"
  shows "\<exists>c''. cache_get pf (content_query v) c' = Inr (Some v, c'')"
proof -
  have query: "BranchStateQuery_content (content_query v) = Inr (content_query v)"
    using assms(1) by (auto simp: cache_set_def and_then_Inr_iff BranchStateQuery_content_def split: if_splits)
  have wf: "jsmap_wf (cached c)" using assms(5) by (simp add: within_budget_def)
  define rest where "rest = (case map_of (cached c) key of None \<Rightarrow> cached c | Some e \<Rightarrow> AList.delete key (cached c))"
  define used where "used = (case map_of (cached c) key of None \<Rightarrow> usedBytes c | Some e \<Rightarrow> usedBytes c - entry_bytes e)"
  have rest: "map_of rest key = None" "jsmap_wf rest" "used = bytes_of rest"
    using assms(5) wf by (auto simp: rest_def used_def delete_conv' within_budget_def bytes_of_delete split: option.splits)
  obtain kept used' where room: "make_room (cap_entries c) (cap_bytes c) (cost pf key v) rest used = (kept, used')" by fastforce
  have "0 < cap_entries c" using assms(4,5) by (auto simp: within_budget_def)
  from make_room_spec [OF room rest(3) this assms(3)] obtain m where "kept = drop m rest" by blast
  then have "map_of kept key = None" using rest(1) map_of_drop [OF rest(2), of m key] by (cases "map_of kept key") auto
  moreover have "c' = c\<lparr>cached := kept @ [(key, \<lparr>entry_value = v, entry_bytes = cost pf key v\<rparr>)], usedBytes := used' + cost pf key v\<rparr>"
    using assms(1-4) query room by (simp add: cache_set_def Let_def rest_def [symmetric] used_def [symmetric])
  ultimately show ?thesis by (simp add: cache_get_def assms(2) map_of_snoc)
qed

definition caps :: "ExactContentCache \<Rightarrow> int \<times> int \<times> int" where
  "caps c = (cap_entries c, cap_bytes c, cap_flight c)"

lemma get_caps: "cache_get pf q c = Inr (hit, c') \<Longrightarrow> caps c' = caps c"
  by (auto simp: cache_get_def and_then_Inr_iff caps_def split: option.splits)

lemma set_caps: "cache_set pf v c = Inr c' \<Longrightarrow> caps c' = caps c"
  by (auto simp: cache_set_def and_then_Inr_iff caps_def Let_def split: if_splits prod.splits)

section \<open>Interleaved loads over a source\<close>

text \<open>
  A system: the source, the cache, the loads in flight (promise, query, key and whether it is tracked)
  and the next promise. The source moves by itself; a load in flight ends with what the source answers
  for its query at that moment, or with any error.
\<close>

type_synonym load_flight = "nat \<times> BranchContentQuery \<times> jstring \<times> bool"
type_synonym 's cache_system = "'s \<times> ExactContentCache \<times> load_flight list \<times> nat"

inductive cache_step ::
    "platform \<Rightarrow> ('s \<Rightarrow> BranchContentQuery \<Rightarrow> BranchStateContent branch_result) \<Rightarrow> ('s \<Rightarrow> 's \<Rightarrow> bool) \<Rightarrow>
     's cache_system \<Rightarrow> 's cache_system \<Rightarrow> bool"
  for pf read later where
  source_moves: "later s t \<Longrightarrow> cache_step pf read later (s, c, fl, n) (t, c, fl, n)"
| looked_up: "cache_get pf q c = Inr (hit, c') \<Longrightarrow> cache_step pf read later (s, c, fl, n) (s, c', fl, n)"
| load_started: "load_begin pf q n c = Inr (Started key tracked, c') \<Longrightarrow>
    cache_step pf read later (s, c, fl, n) (s, c', fl @ [(n, q, key, tracked)], Suc n)"
| load_answered: "load_begin pf q n c = Inr (r, c') \<Longrightarrow> \<forall>key tracked. r \<noteq> Started key tracked \<Longrightarrow>
    cache_step pf read later (s, c, fl, n) (s, c', fl, n)"
| load_ended: "loaded = read s q \<or> (\<exists>e. loaded = Inl e) \<Longrightarrow> load_finish pf key m tracked loaded c = (result, c') \<Longrightarrow>
    cache_step pf read later (s, c, fl @ (m, q, key, tracked) # gl, n) (s, c', fl @ gl, n)"
| dropped: "cache_step pf read later (s, c, fl, n) (s, cache_clear c, fl, n)"

inductive_cases cache_stepE: "cache_step pf read later (s, c, fl, n) (s', c', fl', n')"

lemma load_begin_cases:
  assumes "load_begin pf q n c = Inr (r, c')"
  obtains (hit) v where "r = Hit v" "cache_get pf q c = Inr (Some v, c')"
  | (joined) p key where "r = Joined p" "cache_get pf q c = Inr (None, c')" "content_key pf q = Inr key"
      "map_of (pending c') key = Some p"
  | (started) key tracked c1 where "r = Started key tracked" "cache_get pf q c = Inr (None, c1)" "content_key pf q = Inr key"
      "tracked = (int (length (pending c1)) < cap_flight c1)" "map_of (pending c1) key = None"
      "c' = (if tracked then c1\<lparr>pending := AList.update key n (pending c1)\<rparr> else c1)"
proof -
  from assms obtain key hit c1 where q: "BranchStateQuery_content q = Inr q" and key: "content_key pf q = Inr key"
      and get: "cache_get pf q c = Inr (hit, c1)"
      and r: "(case hit of Some v \<Rightarrow> Inr (Hit v, c1) | None \<Rightarrow> (case map_of (pending c1) key of Some p \<Rightarrow> Inr (Joined p, c1)
        | None \<Rightarrow> let tracked = int (length (pending c1)) < cap_flight c1 in
            Inr (Started key tracked, if tracked then c1\<lparr>pending := AList.update key n (pending c1)\<rparr> else c1)))
        = (Inr (r, c') :: (load_start \<times> ExactContentCache) branch_result)"
    by (auto simp: load_begin_def and_then_Inr_iff BranchStateQuery_content_def split: if_splits)
  show thesis
  proof (cases hit)
    case (Some v)
    with r get hit show thesis by auto
  next
    case None
    show thesis
    proof (cases "map_of (pending c1) key")
      case (Some p)
      with None r get key joined show thesis by auto
    next
      case None': None
      with None r get key started [of key _ c1] show thesis by (auto simp: Let_def)
    qed
  qed
qed

lemma settle_cases:
  assumes "settle pf key loaded c = (result, c')"
  obtains (failed) e where "result = Inl e" "c' = c"
  | (stored) v where "result = Inr v" "loaded = Inr v" "content_key pf (content_query v) = Inr key" "cache_set pf v c = Inr c'"
proof (cases "and_then loaded (\<lambda>v. and_then (content_key pf (content_query v)) (\<lambda>k.
        if k \<noteq> key then Inl State_Corrupt else and_then (cache_set pf v c) (\<lambda>c'. Inr (v, c'))))")
  case (Inl e)
  with assms failed [of e] show thesis by (auto simp: settle_def)
next
  case (Inr vc)
  then obtain v c1 where vc: "vc = (v, c1)" "loaded = Inr v" "content_key pf (content_query v) = Inr key" "cache_set pf v c = Inr c1"
    by (auto simp: and_then_Inr_iff split: if_splits)
  with Inr assms show thesis by (intro stored [of v]) (simp_all add: settle_def)
qed

lemma step_caps:
  assumes "cache_step pf read later (s, c, fl, n) (s', c', fl', n')"
  shows "caps c' = caps c"
proof -
  have started: "caps d' = caps d" if "load_begin pf q m d = Inr (r, d')" for q m r d d'
    using that by (cases rule: load_begin_cases) (auto simp: caps_def dest: get_caps [unfolded caps_def])
  have finish: "caps d' = caps d" if "load_finish pf key m tracked loaded d = (r, d')" for key m tracked loaded r d d'
  proof (cases "settle pf key loaded d")
    case (Pair r1 d1)
    then have "caps d1 = caps d" by (cases rule: settle_cases) (auto dest: set_caps)
    with that Pair show ?thesis by (auto simp: load_finish_def caps_def)
  qed
  have cleared: "caps (cache_clear c) = caps c" by (simp add: cache_clear_def caps_def)
  from assms show ?thesis
    by (cases rule: cache_step.cases) (auto intro: get_caps started finish cleared)
qed

lemma run_caps:
  "(cache_step pf read later)\<^sup>*\<^sup>* sys sys' \<Longrightarrow> caps (fst (snd sys')) = caps (fst (snd sys))"
proof (induction rule: rtranclp_induct)
  case (step t u)
  then show ?case by (cases t; cases u) (auto dest: step_caps)
qed simp

definition flights_ok :: "platform \<Rightarrow> ExactContentCache \<Rightarrow> load_flight list \<Rightarrow> nat \<Rightarrow> bool" where
  "flights_ok pf c fl n \<longleftrightarrow> distinct (map fst fl) \<and>
     (\<forall>(p, q, key, tracked) \<in> set fl. p < n \<and> content_key pf q = Inr key) \<and>
     (\<forall>key p. map_of (pending c) key = Some p \<longrightarrow> (\<exists>q. (p, q, key, True) \<in> set fl))"

lemma flight_pending:
  "flights_ok pf c fl n \<Longrightarrow> map_of (pending c) key = Some p \<Longrightarrow> \<exists>q. (p, q, key, True) \<in> set fl"
  by (simp add: flights_ok_def)

lemma flight_key: "flights_ok pf c fl n \<Longrightarrow> (p, q, key, tracked) \<in> set fl \<Longrightarrow> p < n \<and> content_key pf q = Inr key"
  by (auto simp: flights_ok_def)

text \<open>A source whose successful reads stay the same while it moves.\<close>

locale repeatable_source =
  fixes read :: "'s \<Rightarrow> BranchContentQuery \<Rightarrow> BranchStateContent branch_result"
    and later :: "'s \<Rightarrow> 's \<Rightarrow> bool"
    and valid :: "'s \<Rightarrow> bool"
  assumes valid_later: "valid s \<Longrightarrow> later s t \<Longrightarrow> valid t"
    and repeatable: "valid s \<Longrightarrow> later s t \<Longrightarrow> read s q = Inr v \<Longrightarrow> read t q = Inr v"
begin

definition system_ok :: "platform \<Rightarrow> 's cache_system \<Rightarrow> bool" where
  "system_ok pf sys = (case sys of (s, c, fl, n) \<Rightarrow>
     valid s \<and> within_budget c \<and> exact_entries pf (\<lambda>q v. read s q = Inr v) c \<and> flights_ok pf c fl n)"

lemma finish_ok:
  assumes printer: "number_printer (number_text pf)"
    and "system_ok pf (s, c, fl @ (m, q, key, tracked) # gl, n)"
    and "loaded = read s q \<or> (\<exists>e. loaded = Inl e)" "load_finish pf key m tracked loaded c = (result, c')"
  shows "system_ok pf (s, c', fl @ gl, n) \<and> (\<forall>v. result = Inr v \<longrightarrow> read s q = Inr v \<and> content_query v = q)"
proof -
  have ok: "valid s" "within_budget c" "exact_entries pf (\<lambda>q v. read s q = Inr v) c"
      "flights_ok pf c (fl @ (m, q, key, tracked) # gl) n"
    using assms(2) by (auto simp: system_ok_def)
  have key: "content_key pf q = Inr key" using ok(4) by (auto simp: flights_ok_def)
  obtain c1 where settle: "settle pf key loaded c = (result, c1)" and c': "c' = (if tracked \<and> map_of (pending c1) key = Some m
      then c1\<lparr>pending := AList.delete key (pending c1)\<rparr> else c1)"
    using assms(4) by (cases "settle pf key loaded c") (auto simp: load_finish_def)
  from settle have stored: "within_budget c1 \<and> exact_entries pf (\<lambda>q v. read s q = Inr v) c1 \<and> pending c1 = pending c \<and>
      (\<forall>v. result = Inr v \<longrightarrow> read s q = Inr v \<and> content_query v = q)"
  proof (cases rule: settle_cases)
    case failed
    with ok show ?thesis by simp
  next
    case (stored v)
    have query: "content_query v = q"
      using query_key_inj [OF printer] stored(3) key by (auto simp: content_key_def)
    have "read s q = Inr v" using assms(3) stored(2) by auto
    with cache_set_Inr [OF stored(4) ok(2,3)] query stored(1) show ?thesis by simp
  qed
  have budget: "within_budget c'"
    using stored by (auto simp: c' within_budget_def length_delete dest: length_delete)
  have "exact_entries pf (\<lambda>q v. read s q = Inr v) c'" using stored by (simp add: c' exact_entries_def)
  moreover have "flights_ok pf c' (fl @ gl) n"
  proof -
    have "\<exists>q'. (p, q', k, True) \<in> set (fl @ gl)" if k: "map_of (pending c') k = Some p" for k p
    proof -
      have pk: "map_of (pending c) k = Some p" "\<not> (tracked \<and> k = key \<and> p = m)"
        using k stored by (auto simp: c' delete_conv' split: if_splits)
      from flight_pending [OF ok(4) pk(1)] obtain q' where "(p, q', k, True) \<in> set (fl @ (m, q, key, tracked) # gl)" ..
      with pk(2) show ?thesis by auto
    qed
    with ok(4) show ?thesis by (auto simp: flights_ok_def)
  qed
  ultimately show ?thesis using budget stored ok(1) by (simp add: system_ok_def)
qed

lemma begin_ok:
  assumes printer: "number_printer (number_text pf)"
    and "system_ok pf (s, c, fl, n)" "load_begin pf q n c = Inr (r, c')"
  shows "(case r of
      Hit v \<Rightarrow> system_ok pf (s, c', fl, n) \<and> read s q = Inr v \<and> content_query v = q
    | Joined p \<Rightarrow> system_ok pf (s, c', fl, n) \<and> (\<exists>key. (p, q, key, True) \<in> set fl)
    | Started key tracked \<Rightarrow> system_ok pf (s, c', fl @ [(n, q, key, tracked)], Suc n))"
proof -
  have ok: "valid s" "within_budget c" "exact_entries pf (\<lambda>q v. read s q = Inr v) c" "flights_ok pf c fl n"
    using assms(2) by (auto simp: system_ok_def)
  note got = cache_get_Inr [OF _ ok(2,3) printer]
  from assms(3) show ?thesis
  proof (cases rule: load_begin_cases)
    case (hit v)
    with got [OF hit(2)] ok show ?thesis by (auto simp: system_ok_def flights_ok_def)
  next
    case (joined p key)
    have "map_of (pending c) key = Some p" using joined(4) got(4) [OF joined(2)] by simp
    from flight_pending [OF ok(4) this] obtain q' where q': "(p, q', key, True) \<in> set fl" ..
    then have "content_key pf q' = Inr key" using flight_key [OF ok(4)] by blast
    then have "q' = q" using query_key_inj [OF printer] joined(3) by (auto simp: content_key_def)
    with q' joined got [OF joined(2)] ok show ?thesis by (auto simp: system_ok_def flights_ok_def)
  next
    case (started key tracked c1)
    note c1 = got [OF started(2)]
    have fresh: "\<forall>(p, q, key, tracked) \<in> set fl. p < n" using ok(4) by (auto simp: flights_ok_def)
    have "flights_ok pf c' (fl @ [(n, q, key, tracked)]) (Suc n)"
      unfolding flights_ok_def
    proof (intro conjI)
      show "distinct (map fst (fl @ [(n, q, key, tracked)]))"
        using ok(4) fresh by (auto simp: flights_ok_def)
      show "\<forall>(p, q, key, tracked) \<in> set (fl @ [(n, q, key, tracked)]). p < Suc n \<and> content_key pf q = Inr key"
        using ok(4) started(3) by (auto simp: flights_ok_def)
      show "\<forall>k p. map_of (pending c') k = Some p \<longrightarrow> (\<exists>q'. (p, q', k, True) \<in> set (fl @ [(n, q, key, tracked)]))"
        using ok(4) started(6) c1(4) by (auto simp: flights_ok_def split: if_splits)
    qed
    moreover have "within_budget c'"
      using c1(1) started(4-6) by (auto simp: within_budget_def length_update_fresh jsmap_wf_append)
    moreover have "exact_entries pf (\<lambda>q v. read s q = Inr v) c'"
      using c1(2) started(6) by (auto simp: exact_entries_def split: if_splits)
    ultimately show ?thesis using ok(1) started(1) by (simp add: system_ok_def)
  qed
qed

lemma step_ok:
  assumes printer: "number_printer (number_text pf)"
    and "cache_step pf read later sys sys'" "system_ok pf sys"
  shows "system_ok pf sys'"
  using assms(2,3)
proof (induction rule: cache_step.induct)
  case (source_moves s t c fl n)
  then show ?case using valid_later repeatable by (auto simp: system_ok_def exact_entries_def)
next
  case (looked_up q c hit c' s fl n)
  then have ok: "valid s" "within_budget c" "exact_entries pf (\<lambda>q v. read s q = Inr v) c" "flights_ok pf c fl n"
    by (auto simp: system_ok_def)
  note g = cache_get_Inr [OF looked_up.hyps ok(2,3) printer]
  from g(1,2,4) ok(1,4) show ?case by (auto simp: system_ok_def flights_ok_def)
next
  case (load_started q n c key tracked c' s fl)
  from begin_ok [OF printer load_started.prems load_started.hyps] show ?case by simp
next
  case (load_answered q n c r c' s fl)
  from begin_ok [OF printer load_answered.prems load_answered.hyps(1)] load_answered.hyps(2) show ?case
    by (cases r) auto
next
  case (load_ended loaded s q key m tracked c result c' fl gl n)
  from finish_ok [OF printer load_ended.prems load_ended.hyps] show ?case by blast
next
  case (dropped s c fl n)
  then show ?case
    by (auto simp: system_ok_def cache_clear_def within_budget_def exact_entries_def flights_ok_def)
qed

lemma run_ok:
  assumes "(cache_step pf read later)\<^sup>*\<^sup>* sys sys'" "number_printer (number_text pf)" "system_ok pf sys"
  shows "system_ok pf sys'"
  using assms by (induction rule: rtranclp_induct) (blast intro: step_ok)+

lemma start_ok: "valid s \<Longrightarrow> new_cache options = Some c \<Longrightarrow> system_ok pf (s, c, [], 0)"
  using new_cache_budget [of options c]
  by (auto simp: system_ok_def exact_entries_def flights_ok_def new_cache_def Let_def split: if_splits)

end

end
