(* ===== verification/Plane_Cache.thy ===== *)
theory Plane_Cache
  imports Content_Cache Plane_History
begin

text \<open>
  The exact-content cache over a running state plane: any number of cached loads interleaved with the
  steps of any number of plane calls. The plane is a repeatable source, so everything the cache was
  shown to keep holds of it.
\<close>

definition plane_read :: "system \<Rightarrow> BranchContentQuery \<Rightarrow> BranchStateContent branch_result" where
  "plane_read s q = readContent (fst s) q"

interpretation plane_source: repeatable_source plane_read "plane_step pf" "reachable (plane_init pf) (plane_step pf)"
  for pf
proof unfold_locales
  fix s t
  assume r: "reachable (plane_init pf) (plane_step pf) s" and st: "plane_step pf s t"
  then show "reachable (plane_init pf) (plane_step pf) t" by (rule reachable.intros)
  have g: "plane_grows (fst s) (fst t)" by (rule plane.step_grows [OF plane_invariant.reachable_inv [OF r] st])
  show "plane_read t q = Inr v" if "plane_read s q = Inr v" for q v
    using that grown_content [OF g] by (auto simp: plane_read_def readContent_def and_then_Inr_iff)
qed

section \<open>Properties\<close>

text \<open>
  C39: over a running plane, after any interleaving of lookups, loads that start, join, end or fail, cache
  clears and plane steps, the cache stays within its budgets of entries, bytes and tracked loads. A hit
  is what the plane answers now for exactly that query; a load joins only a load of the same query; and
  a load that ends with a value returns the plane's current answer for its own query.
\<close>

theorem cached_reads_exact:
  assumes "platform_ok pf" "reachable (plane_init pf) (plane_step pf) s0" "new_cache options = Some c0"
    and "(cache_step pf plane_read (plane_step pf))\<^sup>*\<^sup>* (s0, c0, [], 0) (s, c, fl, n)"
  shows "int (length (cached c)) \<le> maxEntries options \<and> usedBytes c \<le> maxBytes options \<and>
    int (length (pending c)) \<le> (case maxInFlight options of None \<Rightarrow> 32 | Some m \<Rightarrow> m) \<and>
    (\<forall>q v c'. cache_get pf q c = Inr (Some v, c') \<longrightarrow> readContent (fst s) q = Inr v \<and> content_query v = q) \<and>
    (\<forall>q p c'. load_begin pf q n c = Inr (Joined p, c') \<longrightarrow> (\<exists>key. (p, q, key, True) \<in> set fl)) \<and>
    (\<forall>fl' gl m q key tracked loaded v c'. fl = fl' @ (m, q, key, tracked) # gl \<and>
       (loaded = readContent (fst s) q \<or> (\<exists>e. loaded = Inl e)) \<and>
       load_finish pf key m tracked loaded c = (Inr v, c') \<longrightarrow> readContent (fst s) q = Inr v \<and> content_query v = q)"
proof -
  have printer: "number_printer (number_text pf)" using assms(1) by (simp add: platform_ok_def)
  have ok: "plane_source.system_ok pf pf (s, c, fl, n)"
    by (rule plane_source.run_ok [OF assms(4) printer plane_source.start_ok [OF assms(2,3)]])
  then have c: "within_budget c" "exact_entries pf (\<lambda>q v. plane_read s q = Inr v) c"
    by (auto simp: plane_source.system_ok_def)
  have "caps c = caps c0" using run_caps [OF assms(4)] by simp
  then have caps: "cap_entries c = maxEntries options" "cap_bytes c = maxBytes options"
      "cap_flight c = (case maxInFlight options of None \<Rightarrow> 32 | Some m \<Rightarrow> m)"
    using assms(3) by (auto simp: caps_def new_cache_def Let_def split: if_splits)
  show ?thesis
  proof (intro conjI allI impI)
    show "int (length (cached c)) \<le> maxEntries options" "usedBytes c \<le> maxBytes options"
        "int (length (pending c)) \<le> (case maxInFlight options of None \<Rightarrow> 32 | Some m \<Rightarrow> m)"
      using c(1) caps by (simp_all add: within_budget_def)
  next
    fix q v c'
    assume get: "cache_get pf q c = Inr (Some v, c')"
    show "readContent (fst s) q = Inr v" "content_query v = q"
      using cache_get_Inr(3) [OF get c printer] by (auto simp: plane_read_def)
  next
    fix q p c'
    assume "load_begin pf q n c = Inr (Joined p, c')"
    from plane_source.begin_ok [OF printer ok this] show "\<exists>key. (p, q, key, True) \<in> set fl" by simp
  next
    fix fl' gl m q key tracked loaded v c'
    assume e: "fl = fl' @ (m, q, key, tracked) # gl \<and> (loaded = readContent (fst s) q \<or> (\<exists>e. loaded = Inl e)) \<and>
       load_finish pf key m tracked loaded c = (Inr v, c')"
    then have loaded: "loaded = plane_read s q \<or> (\<exists>e. loaded = Inl e)" by (simp add: plane_read_def)
    have sys: "plane_source.system_ok pf pf (s, c, fl' @ (m, q, key, tracked) # gl, n)" using ok e by simp
    from plane_source.finish_ok [OF printer sys loaded] e
    show "readContent (fst s) q = Inr v" "content_query v = q" by (auto simp: plane_read_def)
  qed
qed

definition demo_query :: BranchContentQuery where
  "demo_query = \<lparr>target = example_target, placement = example_placement, cq_version = example_version\<rparr>"

definition demo_cache :: "(jstring \<times> nat) list \<Rightarrow> ExactContentCache" where
  "demo_cache loads = \<lparr>cached = [], pending = loads, usedBytes = 0, cap_entries = 64, cap_bytes = 4194304, cap_flight = 32\<rparr>"

lemma demo_query_key:
  obtains k where "BranchStateQuery_content demo_query = Inr demo_query" "content_key example_platform demo_query = Inr k"
proof -
  have "valid_version example_version" unfolding example_version_def by (rule hash_valid_version [OF example_platform_ok])
  then have q: "BranchStateQuery_content demo_query = Inr demo_query"
    using example_query_valid by (simp add: demo_query_def BranchStateQuery_content_def BranchStateQuery_head_def query_of_def)
  then show thesis using that by (simp add: content_key_def BranchStateQuery_key_def)
qed

lemma demo_loads:
  assumes "BranchStateQuery_content demo_query = Inr demo_query" "content_key example_platform demo_query = Inr k"
  shows "load_begin example_platform demo_query 0 (demo_cache []) = Inr (Started k True, demo_cache [(k, 0)])"
    "load_begin example_platform demo_query 1 (demo_cache [(k, 0)]) = Inr (Joined 0, demo_cache [(k, 0)])"
  using assms by (simp_all add: load_begin_def cache_get_def demo_cache_def)

theorem cached_reads_exact_witness:
  "\<exists>k. (cache_step example_platform plane_read (plane_step example_platform))\<^sup>*\<^sup>*
       ((demo_plane (js ''owner''), []), demo_cache [], [], 0)
       ((demo_plane (js ''owner''), []), demo_cache [(k, 0)], [(0, demo_query, k, True)], 1) \<and>
     (\<exists>j. (0 :: nat, demo_query, j, True) \<in> set [(0, demo_query, k, True)])"
proof (rule demo_query_key)
  fix k
  assume q: "BranchStateQuery_content demo_query = Inr demo_query" "content_key example_platform demo_query = Inr k"
  have new: "new_cache default_options = Some (demo_cache [])"
    by (simp add: new_cache_def default_options_def demo_cache_def is_safe_integer_def max_safe_integer_def)
  have run: "(cache_step example_platform plane_read (plane_step example_platform))\<^sup>*\<^sup>*
       ((demo_plane (js ''owner''), []), demo_cache [], [], 0)
       ((demo_plane (js ''owner''), []), demo_cache [(k, 0)], [(0, demo_query, k, True)], 1)"
    using cache_step.load_started [OF demo_loads(1) [OF q], of plane_read "plane_step example_platform" "(demo_plane (js ''owner''), [])" "[]"]
    by (simp add: r_into_rtranclp)
  from cached_reads_exact [OF example_platform_ok demo_reachable [OF demo_id_owner] new run] demo_loads(2) [OF q]
  have "\<exists>j. (0 :: nat, demo_query, j, True) \<in> set [(0, demo_query, k, True)]" by blast
  with run show ?thesis by blast
qed

end
