(* ===== verification/Nullplug_Types.thy ===== *)
theory Nullplug_Types
  imports Ui_Facts
begin

text \<open>
  The wire values of plugin invocations: the guards of \<^verbatim>\<open>shared/nullplug/types.ts\<close>, as predicates on JSON
  values. A property that is \<^verbatim>\<open>undefined\<close> is absent. Envelopes, UI primitives and state patches are
  checked by the schemas of \<open>Diff_Codec\<close> and \<open>Ui_Facts\<close>.
\<close>

section \<open>JSON values of bounded depth\<close>

fun isJsonValue :: "nat \<Rightarrow> json \<Rightarrow> bool" where
  "isJsonValue depth JNull \<longleftrightarrow> depth \<le> 24"
| "isJsonValue depth (JBool b) \<longleftrightarrow> depth \<le> 24"
| "isJsonValue depth (JNum r) \<longleftrightarrow> depth \<le> 24"
| "isJsonValue depth (JStr s) \<longleftrightarrow> depth \<le> 24"
| "isJsonValue depth (JArr vs) \<longleftrightarrow> depth \<le> 24 \<and> (\<forall>v \<in> set vs. isJsonValue (Suc depth) v)"
| "isJsonValue depth (JObj kvs) \<longleftrightarrow> depth \<le> 24 \<and> (\<forall>e \<in> set kvs. isJsonValue (Suc depth) (snd e))"

definition isJsonRecord :: "json \<Rightarrow> bool" where
  "isJsonRecord v \<longleftrightarrow> is_object v \<and> (\<forall>e \<in> set (entries v). isJsonValue 0 (snd e))"

definition isStringArray :: "json \<Rightarrow> bool" where
  "isStringArray = json_array json_string"

section \<open>Calls, streams and mutations\<close>

definition isNullplugCaller :: "json \<Rightarrow> bool" where
  "isNullplugCaller v \<longleftrightarrow> is_object v \<and> opt ''dropId'' json_string v \<and> opt ''branchId'' json_string v \<and>
     opt ''snapshotId'' json_number v \<and> opt ''eventId'' json_string v"

definition isNullplugCall :: "json \<Rightarrow> bool" where
  "isNullplugCall v \<longleftrightarrow> is_object v \<and> req ''pluginId'' json_string v \<and> opt ''version'' json_string v \<and>
     req ''args'' isJsonRecord v \<and> opt ''body'' json_string v \<and> req ''caller'' isNullplugCaller v"

definition isNullplugStreamDescriptor :: "json \<Rightarrow> bool" where
  "isNullplugStreamDescriptor v \<longleftrightarrow> is_object v \<and> req ''id'' json_string v \<and> req ''kind'' json_string v \<and>
     opt ''status'' (json_enum [''pending'', ''running'', ''complete'', ''failed'']) v \<and>
     opt ''url'' json_string v \<and> opt ''metadata'' isJsonRecord v"

definition isNullplugMutation :: "json \<Rightarrow> bool" where
  "isNullplugMutation v \<longleftrightarrow> is_object v \<and>
     (let kind = get_string ''kind'' v in
      if kind = Some (js ''drop.diff.propose'')
      then req ''envelope'' isDropDiffEnvelopeV1 v \<and> opt ''reason'' json_string v
      else if kind = Some (js ''drop.diff.apply'')
      then req ''envelope'' isDropDiffEnvelopeV1 v \<and> req ''grantId'' json_string v
      else if kind = Some (js ''metadata.patch'')
      then req ''patch'' (isJsonValue 0) v \<and> opt ''reason'' json_string v
      else if kind = Some (js ''ui.state.patch'')
      then req ''callId'' json_string v \<and> req ''patch'' (json_array1 NullplugUiStatePatchOperationSchema) v \<and>
           opt ''reason'' json_string v
      else if kind = Some (js ''sidecar.write'')
      then req ''target'' json_string v \<and> req ''value'' (isJsonValue 0) v
      else False)"

definition isNullplugYieldKind :: "json \<Rightarrow> bool" where
  "isNullplugYieldKind = json_enum [''ui.response'', ''policy.decision'', ''stream.event'', ''agent.note'']"

definition isNullplugYield :: "json \<Rightarrow> bool" where
  "isNullplugYield v \<longleftrightarrow> is_object v \<and> opt ''id'' json_string v \<and> req ''kind'' isNullplugYieldKind v \<and>
     req ''value'' (isJsonValue 0) v \<and> opt ''createdAt'' json_number v \<and> opt ''metadata'' isJsonRecord v"

section \<open>Results and responses\<close>

definition nullplugResultKeys :: "jstring list" where
  "nullplugResultKeys = map js [''content'', ''uiPrimitives'', ''uiState'', ''metadata'', ''diffs'', ''mutations'',
     ''yields'', ''streams'', ''calls'']"

definition isNullplugResult :: "json \<Rightarrow> bool" where
  "isNullplugResult v \<longleftrightarrow> is_object v \<and> list_all (\<lambda>(k, _). k \<in> set nullplugResultKeys) (entries v) \<and>
     opt ''content'' json_string v \<and> opt ''uiPrimitives'' (json_array NullplugUiPrimitiveSchema) v \<and>
     opt ''uiState'' isJsonRecord v \<and> opt ''metadata'' isJsonRecord v \<and> opt ''diffs'' isDropDiffEnvelopeV1 v \<and>
     opt ''mutations'' (json_array isNullplugMutation) v \<and> opt ''yields'' (json_array isNullplugYield) v \<and>
     opt ''streams'' (json_array isNullplugStreamDescriptor) v \<and> opt ''calls'' (json_array isNullplugCall) v"

definition isNullplugInvokeContext :: "json \<Rightarrow> bool" where
  "isNullplugInvokeContext v \<longleftrightarrow> is_object v \<and> req ''providerId'' json_string v \<and> req ''baseUrl'' json_string v \<and>
     opt ''callerDropId'' json_string v \<and> opt ''branchId'' json_string v \<and> opt ''snapshotId'' json_number v \<and>
     req ''capabilities'' isStringArray v \<and> opt ''rootPolicyRef'' json_string v"

definition isNullplugInvokeRequest :: "json \<Rightarrow> bool" where
  "isNullplugInvokeRequest v \<longleftrightarrow> is_object v \<and> req ''call'' isNullplugCall v \<and> req ''context'' isNullplugInvokeContext v"

definition isNullplugDiagnostic :: "json \<Rightarrow> bool" where
  "isNullplugDiagnostic v \<longleftrightarrow> is_object v \<and> req ''level'' (json_enum [''info'', ''warn'', ''error'']) v \<and>
     req ''message'' json_string v \<and> opt ''code'' json_string v"

definition isNullplugRuntimeResolution :: "json \<Rightarrow> bool" where
  "isNullplugRuntimeResolution v \<longleftrightarrow> is_object v \<and> req ''pluginId'' json_string v \<and> opt ''version'' json_string v \<and>
     req ''providerId'' json_string v \<and> req ''baseUrl'' json_string v \<and> req ''scope'' (json_enum [''local'', ''remote'']) v"

definition isNullplugInvokeResponse :: "json \<Rightarrow> bool" where
  "isNullplugInvokeResponse v \<longleftrightarrow> is_object v \<and> req ''result'' isNullplugResult v \<and>
     opt ''diagnostics'' (json_array isNullplugDiagnostic) v \<and> opt ''resolution'' isNullplugRuntimeResolution v"

end
