(* ===== verification/Nullplug_Policy.thy ===== *)
theory Nullplug_Policy
  imports Nullplug_Types Branch_State
begin

text \<open>
  Runtime policy of a drop: \<^verbatim>\<open>shared/nullplug/policy.ts\<close> (grants, root policies, the order between a
  requested grant and a maximal one) and \<^verbatim>\<open>shared/nullplug/policy-evaluator.ts\<close> (the decision of a
  conditional grant).

  Policies, grants and decisions are JSON values that passed a guard, because the code keeps fields it
  does not know. The parser of \<^verbatim>\<open>URL\<close> is a parameter: it returns the protocol and the host name, or
  \<open>None\<close> where the constructor throws.
\<close>

type_synonym url_parser = "jstring \<Rightarrow> (jstring \<times> jstring) option"

section \<open>Reading properties\<close>

text \<open>\<^verbatim>\<open>x ?? d\<close>.\<close>

definition or_else :: "'a \<Rightarrow> 'a option \<Rightarrow> 'a" where
  "or_else d x = (case x of None \<Rightarrow> d | Some y \<Rightarrow> y)"

fun string_value :: "json \<Rightarrow> jstring option" where
  "string_value (JStr s) = Some s"
| "string_value _ = None"

fun array_values :: "json \<Rightarrow> json list" where
  "array_values (JArr vs) = vs"
| "array_values _ = []"

definition get_array :: "string \<Rightarrow> json \<Rightarrow> json list option" where
  "get_array k v = map_option array_values (get k v)"

definition strings_of :: "json \<Rightarrow> jstring list" where
  "strings_of v = List.map_filter string_value (array_values v)"

definition get_strings :: "string \<Rightarrow> json \<Rightarrow> jstring list option" where
  "get_strings k v = map_option strings_of (get k v)"

definition get_number :: "string \<Rightarrow> json \<Rightarrow> rat option" where
  "get_number k v = (case get k v of Some (JNum r) \<Rightarrow> Some r | _ \<Rightarrow> None)"

definition object :: "(string \<times> json) list \<Rightarrow> json" where
  "object kvs = JObj (map (\<lambda>(k, v). (js k, v)) kvs)"

definition has_string :: "string \<Rightarrow> string \<Rightarrow> json \<Rightarrow> bool" where
  "has_string k s v \<longleftrightarrow> get_string k v = Some (js s)"

section \<open>Network hosts\<close>

definition DEFAULT_RUNTIME_NETWORK_ALLOWLIST :: "jstring list" where
  "DEFAULT_RUNTIME_NETWORK_ALLOWLIST = map js [''www.youtube.com'', ''youtube.com'', ''www.youtube-nocookie.com'',
     ''youtu.be'', ''player.vimeo.com'', ''vimeo.com'']"

definition is_hostname_unit :: "code_unit \<Rightarrow> bool" where
  "is_hostname_unit u \<longleftrightarrow> (97 \<le> u \<and> u \<le> 122) \<or> (48 \<le> u \<and> u \<le> 57) \<or> u = 46 \<or> u = 45"

definition HOSTNAME_PATTERN :: "jstring \<Rightarrow> bool" where
  "HOSTNAME_PATTERN s \<longleftrightarrow> s \<noteq> [] \<and> list_all is_hostname_unit s"

definition starts_with :: "string \<Rightarrow> jstring \<Rightarrow> bool" where
  "starts_with p s \<longleftrightarrow> take (length p) s = js p"

definition nonempty_host :: "platform \<Rightarrow> jstring \<Rightarrow> jstring option" where
  "nonempty_host pf h = (let l = to_lower_case pf h in if l = [] then None else Some l)"

definition normalizeAllowedHostEntry :: "platform \<Rightarrow> url_parser \<Rightarrow> jstring \<Rightarrow> jstring option" where
  "normalizeAllowedHostEntry pf url value =
     (let trimmed = to_lower_case pf (js_trim value) in
      if trimmed = [] then None
      else if starts_with ''http://'' trimmed \<or> starts_with ''https://'' trimmed
      then (case url trimmed of None \<Rightarrow> None
            | Some (protocol, hostname) \<Rightarrow>
                if protocol \<noteq> js ''https:'' \<and> protocol \<noteq> js ''http:'' then None else nonempty_host pf hostname)
      else if starts_with ''//'' trimmed
      then Option.bind (url (js ''https:'' @ trimmed)) (\<lambda>(_, hostname). nonempty_host pf hostname)
      else Option.bind (url (js ''https://'' @ trimmed)) (\<lambda>(_, hostname). nonempty_host pf hostname))"

text \<open>The loop of \<^verbatim>\<open>normalizeAllowedHosts\<close>; the set \<^verbatim>\<open>seen\<close> holds exactly what was pushed.\<close>

fun collect_hosts :: "platform \<Rightarrow> url_parser \<Rightarrow> jstring list \<Rightarrow> jstring list \<Rightarrow> jstring list" where
  "collect_hosts pf url normalized [] = normalized"
| "collect_hosts pf url normalized (value # values) =
     (case normalizeAllowedHostEntry pf url value of
        None \<Rightarrow> collect_hosts pf url normalized values
      | Some host \<Rightarrow>
          if (\<not> HOSTNAME_PATTERN host \<and> host \<noteq> js ''localhost'') \<or> host \<in> set normalized
          then collect_hosts pf url normalized values
          else collect_hosts pf url (normalized @ [host]) values)"

definition normalizeAllowedHosts :: "platform \<Rightarrow> url_parser \<Rightarrow> jstring list \<Rightarrow> jstring list" where
  "normalizeAllowedHosts pf url values = collect_hosts pf url [] values"

section \<open>Guards\<close>

definition isDropReadPolicy :: "json \<Rightarrow> bool" where
  "isDropReadPolicy = json_enum [''none'', ''self'', ''linked'', ''explicit'']"

definition isDropWritePolicy :: "json \<Rightarrow> bool" where
  "isDropWritePolicy = json_enum [''none'', ''propose'', ''branch'']"

definition isRuntimeGrantKind :: "json \<Rightarrow> bool" where
  "isRuntimeGrantKind = json_enum [''network.fetch'', ''drop.read'', ''drop.diff.propose'', ''drop.diff.apply'',
     ''metadata.patch'', ''ui.state.write'', ''sidecar.write'', ''stream.open'', ''nullplug.invoke'',
     ''policy.evaluate'']"

definition isRuntimeGrantScope :: "json \<Rightarrow> bool" where
  "isRuntimeGrantScope = json_enum [''self'', ''linked'', ''explicit'', ''branch'', ''root'', ''network'']"

definition isRuntimeGrant :: "json \<Rightarrow> bool" where
  "isRuntimeGrant v \<longleftrightarrow> is_object v \<and> req ''kind'' isRuntimeGrantKind v \<and> opt ''scope'' isRuntimeGrantScope v \<and>
     opt ''target'' json_string v \<and> opt ''capabilities'' isStringArray v \<and> opt ''expiresAt'' json_number v"

definition isCallableRef :: "json \<Rightarrow> bool" where
  "isCallableRef v \<longleftrightarrow> is_object v \<and>
     (if has_string ''kind'' ''builtin.nullplug'' v then req ''id'' json_string v
      else if has_string ''kind'' ''remote.nullplug'' v then req ''id'' json_string v \<and> req ''endpoint'' json_string v
      else if has_string ''kind'' ''null.call'' v then req ''id'' json_string v
      else if has_string ''kind'' ''policy.handler'' v then req ''id'' json_string v
      else False)"

definition isGrantTrigger :: "json \<Rightarrow> bool" where
  "isGrantTrigger v \<longleftrightarrow> is_object v \<and>
     opt ''kind'' (json_enum [''ui.response'', ''nullplug.result'', ''event.metadata'', ''manual'']) v \<and>
     opt ''responseOf'' json_string v \<and> opt ''field'' json_string v \<and> opt ''eventKind'' json_string v"

definition isPolicyInputSelector :: "json \<Rightarrow> bool" where
  "isPolicyInputSelector v \<longleftrightarrow> is_object v \<and> opt ''responses'' isStringArray v \<and> opt ''metadata'' isStringArray v \<and>
     opt ''resolvedHeapRefs'' isStringArray v"

definition isConditionalGrant :: "json \<Rightarrow> bool" where
  "isConditionalGrant v \<longleftrightarrow> is_object v \<and> req ''id'' json_string v \<and> req ''trigger'' isGrantTrigger v \<and>
     req ''evaluator'' isCallableRef v \<and> req ''maxGrant'' isRuntimeGrant v \<and> opt ''input'' isPolicyInputSelector v \<and>
     opt ''onError'' (json_enum [''deny'', ''defer'']) v"

definition isNullplugPermissionPolicy :: "json \<Rightarrow> bool" where
  "isNullplugPermissionPolicy v \<longleftrightarrow> is_object v \<and> opt ''invoke'' (json_enum [''deny'', ''allow'', ''conditional'']) v \<and>
     opt ''capabilities'' isStringArray v \<and> opt ''maxGrants'' (json_array isRuntimeGrant) v"

definition isRootRuntimePolicy :: "json \<Rightarrow> bool" where
  "isRootRuntimePolicy v \<longleftrightarrow> is_object v \<and> req ''version'' (\<lambda>x. x = JNum 1) v \<and>
     opt ''network'' (\<lambda>n. is_object n \<and> req ''allowedHosts'' isStringArray n) v \<and>
     opt ''drops'' (\<lambda>d. is_object d \<and> opt ''read'' isDropReadPolicy d \<and> opt ''write'' isDropWritePolicy d) v \<and>
     opt ''nullplugs'' (\<lambda>n. is_object n \<and> list_all (\<lambda>e. isNullplugPermissionPolicy (snd e)) (entries n)) v \<and>
     opt ''conditionalGrants'' (json_array isConditionalGrant) v"

definition isPolicyDecisionValue :: "json \<Rightarrow> bool" where
  "isPolicyDecisionValue v \<longleftrightarrow> is_object v \<and> req ''decision'' (json_enum [''allow'', ''deny'', ''defer'']) v \<and>
     opt ''grant'' isRuntimeGrant v \<and> opt ''reason'' json_string v \<and> opt ''expiresAt'' json_number v \<and>
     opt ''metadata'' isJsonRecord v"

section \<open>Root policies\<close>

definition allowed_hosts_object :: "jstring list \<Rightarrow> json" where
  "allowed_hosts_object hosts = object [(''allowedHosts'', JArr (map JStr hosts))]"

definition normalizeRootRuntimePolicyCandidate :: "platform \<Rightarrow> url_parser \<Rightarrow> json option \<Rightarrow> json option" where
  "normalizeRootRuntimePolicyCandidate pf url value =
     (case value of None \<Rightarrow> None
      | Some v \<Rightarrow>
          if \<not> isRootRuntimePolicy v then None
          else Some (case get ''network'' v of
                 None \<Rightarrow> v
               | Some network \<Rightarrow> set_prop ''network'' (allowed_hosts_object
                   (normalizeAllowedHosts pf url (or_else [] (get_strings ''allowedHosts'' network)))) v))"

definition network_hosts :: "json \<Rightarrow> jstring list" where
  "network_hosts policy = or_else [] (Option.bind (get ''network'' policy) (get_strings ''allowedHosts''))"

text \<open>\<^verbatim>\<open>metadata\<close> is a JSON object, or \<open>None\<close> for \<^verbatim>\<open>null\<close> and \<^verbatim>\<open>undefined\<close>.\<close>

definition legacy_allowed_hosts :: "platform \<Rightarrow> url_parser \<Rightarrow> json option \<Rightarrow> jstring list \<Rightarrow> jstring list" where
  "legacy_allowed_hosts pf url metadata fallbackAllowedHosts =
     (case Option.bind metadata (get ''allowedUrls'') of
        Some (JArr vs) \<Rightarrow> normalizeAllowedHosts pf url (strings_of (JArr vs))
      | _ \<Rightarrow> normalizeAllowedHosts pf url fallbackAllowedHosts)"

definition resolveRootRuntimePolicy :: "platform \<Rightarrow> url_parser \<Rightarrow> json option \<Rightarrow> jstring list \<Rightarrow> json" where
  "resolveRootRuntimePolicy pf url metadata fallbackAllowedHosts =
     (let legacyAllowedHosts = legacy_allowed_hosts pf url metadata fallbackAllowedHosts in
      case normalizeRootRuntimePolicyCandidate pf url (Option.bind metadata (get ''runtimePolicy'')) of
        Some fromRuntimePolicy \<Rightarrow>
          set_prop ''network'' (allowed_hosts_object
            (let hosts = network_hosts fromRuntimePolicy in if hosts \<noteq> [] then hosts else legacyAllowedHosts))
            fromRuntimePolicy
      | None \<Rightarrow> object [(''version'', JNum 1), (''network'', allowed_hosts_object legacyAllowedHosts)])"

section \<open>The order on grants\<close>

definition includesAll :: "jstring list \<Rightarrow> jstring list \<Rightarrow> bool" where
  "includesAll requested allowed \<longleftrightarrow> list_all (\<lambda>c. c \<in> set allowed) requested"

definition isRuntimeGrantWithinMaxGrant :: "json \<Rightarrow> json \<Rightarrow> bool" where
  "isRuntimeGrantWithinMaxGrant requested maxGrant \<longleftrightarrow>
     get ''kind'' requested = get ''kind'' maxGrant \<and>
     (get ''scope'' maxGrant \<noteq> None \<longrightarrow> get ''scope'' requested = get ''scope'' maxGrant) \<and>
     (get ''target'' maxGrant \<noteq> None \<longrightarrow> get ''target'' requested = get ''target'' maxGrant) \<and>
     (case get_strings ''capabilities'' maxGrant of
        None \<Rightarrow> True
      | Some allowed \<Rightarrow> includesAll (or_else [] (get_strings ''capabilities'' requested)) allowed) \<and>
     (case get_number ''expiresAt'' maxGrant of
        None \<Rightarrow> True
      | Some limit \<Rightarrow> (case get_number ''expiresAt'' requested of None \<Rightarrow> False | Some t \<Rightarrow> t \<le> limit))"

section \<open>Evaluation of a conditional grant\<close>

definition diagnostic :: "string \<Rightarrow> jstring \<Rightarrow> json" where
  "diagnostic level message = object [(''level'', JStr (js level)), (''message'', JStr message)]"

definition fallbackDecision :: "json \<Rightarrow> jstring \<Rightarrow> json" where
  "fallbackDecision grant reason =
     object [(''decision'', JStr (js (if has_string ''onError'' ''defer'' grant then ''defer'' else ''deny''))),
             (''reason'', JStr reason)]"

definition decision_value :: "json \<Rightarrow> json option" where
  "decision_value entry =
     (if has_string ''kind'' ''policy.decision'' entry
      then Option.bind (get ''value'' entry) (\<lambda>v. if isPolicyDecisionValue v then Some v else None)
      else None)"

definition policyDecisionFromResult :: "json \<Rightarrow> json option" where
  "policyDecisionFromResult result =
     (case find (\<lambda>entry. decision_value entry \<noteq> None) (or_else [] (get_array ''yields'' result)) of
        None \<Rightarrow> None
      | Some entry \<Rightarrow> decision_value entry)"

record NormalizedPolicyEvaluatorReturn =
  decision :: "json option"
  diagnostics :: "json list"

record PolicyEvaluationOutcome =
  outcome_decision :: json
  outcome_diagnostics :: "json list"

text \<open>The evaluator's value; \<open>None\<close> is \<^verbatim>\<open>undefined\<close>.\<close>

definition normalizePolicyEvaluatorReturn :: "json option \<Rightarrow> NormalizedPolicyEvaluatorReturn" where
  "normalizePolicyEvaluatorReturn value =
     (case value of
        None \<Rightarrow> \<lparr>decision = None, diagnostics = []\<rparr>
      | Some v \<Rightarrow>
          if isPolicyDecisionValue v then \<lparr>decision = Some v, diagnostics = []\<rparr>
          else if isNullplugInvokeResponse v
          then \<lparr>decision = Option.bind (get ''result'' v) policyDecisionFromResult,
                diagnostics = or_else [] (get_array ''diagnostics'' v)\<rparr>
          else if isNullplugResult v then \<lparr>decision = policyDecisionFromResult v, diagnostics = []\<rparr>
          else \<lparr>decision = None, diagnostics = []\<rparr>)"

definition denied :: "string \<Rightarrow> json" where
  "denied reason = object [(''decision'', JStr (js ''deny'')), (''reason'', JStr (js reason))]"

definition property :: "string \<Rightarrow> json \<Rightarrow> json" where
  "property k v = or_else JNull (get k v)"

definition constrainAllowedDecision :: "json \<Rightarrow> json \<Rightarrow> json \<Rightarrow> json" where
  "constrainAllowedDecision grant request dec =
     (if \<not> has_string ''decision'' ''allow'' dec then dec
      else let effectiveGrant = or_else (property ''requested'' request) (get ''grant'' dec) in
        if \<not> isRuntimeGrantWithinMaxGrant effectiveGrant (property ''maxGrant'' grant)
        then denied ''Policy evaluator returned a grant outside maxGrant.''
        else if \<not> isRuntimeGrantWithinMaxGrant (property ''requested'' request) effectiveGrant
        then denied ''Requested grant exceeds policy evaluator decision.''
        else set_prop ''grant'' effectiveGrant dec)"

text \<open>The evaluator returns a value or throws an error with a message.\<close>

definition evaluateConditionalGrant :: "json \<Rightarrow> json \<Rightarrow> (json \<Rightarrow> jstring + json option) \<Rightarrow> PolicyEvaluationOutcome" where
  "evaluateConditionalGrant grant request evaluator =
     (if get ''grantId'' request \<noteq> get ''id'' grant
      then \<lparr>outcome_decision = fallbackDecision grant (js ''Grant request id does not match.''),
            outcome_diagnostics = [diagnostic ''error'' (js ''Grant request id does not match.'')]\<rparr>
      else case evaluator request of
        Inl message \<Rightarrow>
          \<lparr>outcome_decision = fallbackDecision grant (js ''Policy evaluator failed: '' @ message),
           outcome_diagnostics = [diagnostic ''error'' (js ''Policy evaluator failed: '' @ message)]\<rparr>
      | Inr returned \<Rightarrow>
          (let normalized = normalizePolicyEvaluatorReturn returned in
           case decision normalized of
             None \<Rightarrow>
               \<lparr>outcome_decision = fallbackDecision grant (js ''Policy evaluator did not return a decision.''),
                outcome_diagnostics = diagnostics normalized @
                  [diagnostic ''warn'' (js ''Policy evaluator did not return a decision.'')]\<rparr>
           | Some dec \<Rightarrow>
               \<lparr>outcome_decision = constrainAllowedDecision grant request dec,
                outcome_diagnostics = diagnostics normalized\<rparr>))"

section \<open>Objects and guards\<close>

lemma or_else_simps [simp]: "or_else d None = d" "or_else d (Some x) = x"
  by (simp_all add: or_else_def)

lemma get_object [simp]: "get k (object kvs) = map_of kvs k"
proof -
  have "map_of (map (\<lambda>(k, v). (js k, v)) kvs) (js k) = map_of kvs k"
    by (induction kvs) auto
  then show ?thesis by (simp add: get_def object_def entries_def)
qed

lemma is_object_object [simp]: "is_object (object kvs)"
  by (simp add: object_def)

lemma req_iff: "req k p v \<longleftrightarrow> is_object v \<and> (\<exists>x. get k v = Some x \<and> p x)"
  by (auto simp: req_def split: option.splits)

lemma opt_iff: "opt k p v \<longleftrightarrow> is_object v \<and> (\<forall>x. get k v = Some x \<longrightarrow> p x)"
  by (auto simp: opt_def opt_all_def split: option.splits)

lemmas guard_iffs = req_iff opt_iff

lemma json_array_iff: "json_array p v \<longleftrightarrow> (\<exists>vs. v = JArr vs \<and> list_all p vs)"
  by (cases v) (auto simp: json_array_def)

lemma isStringArray_iff: "isStringArray v \<longleftrightarrow> (\<exists>ss. v = JArr (map JStr ss))"
proof
  assume "isStringArray v"
  then obtain vs where vs: "v = JArr vs" "list_all json_string vs"
    by (auto simp: isStringArray_def json_array_iff)
  have "\<exists>ss. vs = map JStr ss" using vs(2)
  proof (induction vs)
    case (Cons x xs)
    then obtain s ss where "x = JStr s" "xs = map JStr ss" by (cases x) auto
    then show ?case by (intro exI [of _ "s # ss"]) simp
  qed simp
  then show "\<exists>ss. v = JArr (map JStr ss)" using vs(1) by auto
qed (auto simp: isStringArray_def json_array_iff list_all_iff)

lemma strings_of_map [simp]: "strings_of (JArr (map JStr ss)) = ss"
  by (induction ss) (simp_all add: strings_of_def List.map_filter_def)

section \<open>Hosts and resolved policies\<close>

definition host_ok :: "jstring \<Rightarrow> bool" where
  "host_ok host \<longleftrightarrow> HOSTNAME_PATTERN host \<or> host = js ''localhost''"

lemma collect_hosts_ok:
  assumes "distinct hs" "list_all host_ok hs"
  shows "distinct (collect_hosts pf url hs values) \<and> list_all host_ok (collect_hosts pf url hs values)"
  using assms by (induction hs "values" rule: collect_hosts.induct) (auto simp: host_ok_def split: option.splits)

lemma normalizeAllowedHosts_ok:
  "distinct (normalizeAllowedHosts pf url values)" "list_all host_ok (normalizeAllowedHosts pf url values)"
  using collect_hosts_ok [of "[]"] by (simp_all add: normalizeAllowedHosts_def)

lemma network_hosts_of [simp]:
  "network_hosts (set_prop ''network'' (allowed_hosts_object hs) v) = hs"
  "network_hosts (object [(''version'', x), (''network'', allowed_hosts_object hs)]) = hs"
  by (simp_all add: network_hosts_def allowed_hosts_object_def get_strings_def)

lemma set_network_valid:
  "isRootRuntimePolicy v \<Longrightarrow> isRootRuntimePolicy (set_prop ''network'' (allowed_hosts_object hs) v)"
  by (simp add: isRootRuntimePolicy_def guard_iffs allowed_hosts_object_def isStringArray_iff) blast

lemma candidate_valid:
  "normalizeRootRuntimePolicyCandidate pf url value = Some v \<Longrightarrow> isRootRuntimePolicy v"
  by (auto simp: normalizeRootRuntimePolicyCandidate_def set_network_valid split: option.splits if_splits)

lemma candidate_hosts:
  assumes "normalizeRootRuntimePolicyCandidate pf url value = Some v" "network_hosts v \<noteq> []"
  shows "distinct (network_hosts v) \<and> list_all host_ok (network_hosts v)"
  using assms by (auto simp: normalizeRootRuntimePolicyCandidate_def network_hosts_def normalizeAllowedHosts_ok
      allowed_hosts_object_def get_strings_def split: option.splits if_splits)

lemma legacy_hosts_ok:
  "distinct (legacy_allowed_hosts pf url m f)" "list_all host_ok (legacy_allowed_hosts pf url m f)"
  by (auto simp: legacy_allowed_hosts_def normalizeAllowedHosts_ok split: option.splits json.splits)

text \<open>Whatever the metadata of a drop holds, its resolved policy is valid and names each host once.\<close>

lemma resolved_policy_valid:
  fixes pf url metadata fallback
  defines "policy \<equiv> resolveRootRuntimePolicy pf url metadata fallback"
  shows "isRootRuntimePolicy policy" "distinct (network_hosts policy)" "list_all host_ok (network_hosts policy)"
proof -
  have base: "isRootRuntimePolicy (object [(''version'', JNum 1), (''network'', allowed_hosts_object hs)])" for hs
    by (simp add: isRootRuntimePolicy_def guard_iffs allowed_hosts_object_def isStringArray_iff) blast
  note parts = policy_def resolveRootRuntimePolicy_def Let_def
  show "isRootRuntimePolicy policy"
    by (auto simp: parts base set_network_valid candidate_valid split: option.splits)
  show "distinct (network_hosts policy)" "list_all host_ok (network_hosts policy)"
    using legacy_hosts_ok [of pf url metadata fallback]
    by (auto simp: parts candidate_hosts split: option.splits)
qed

section \<open>Grants and decisions\<close>

lemma includesAll_iff: "includesAll xs ys \<longleftrightarrow> set xs \<subseteq> set ys"
  by (auto simp: includesAll_def list_all_iff)

lemma within_refl: "isRuntimeGrantWithinMaxGrant g g"
  by (auto simp: isRuntimeGrantWithinMaxGrant_def includesAll_iff split: option.splits)

text \<open>The order is transitive unless the middle grant drops the list of capabilities.\<close>

lemma within_trans:
  assumes "isRuntimeGrantWithinMaxGrant a b" "isRuntimeGrantWithinMaxGrant b c"
    and "get ''capabilities'' c \<noteq> None \<Longrightarrow> get ''capabilities'' b \<noteq> None"
  shows "isRuntimeGrantWithinMaxGrant a c"
  using assms by (auto simp: isRuntimeGrantWithinMaxGrant_def includesAll_iff get_strings_def
      split: option.splits)

lemma has_string_iff: "has_string k s v \<longleftrightarrow> get k v = Some (JStr (js s))"
  by (auto simp: has_string_def get_string_def split: option.splits json.splits)

lemma fallback_valid: "isPolicyDecisionValue (fallbackDecision grant reason)"
  by (simp add: fallbackDecision_def isPolicyDecisionValue_def guard_iffs json_enum_def)

lemma fallback_decision:
  "get ''decision'' (fallbackDecision grant reason) =
     Some (JStr (js (if has_string ''onError'' ''defer'' grant then ''defer'' else ''deny'')))"
  by (simp add: fallbackDecision_def)

lemma denied_valid: "isPolicyDecisionValue (denied reason)" "\<not> has_string ''decision'' ''allow'' (denied reason)"
  by (simp_all add: denied_def isPolicyDecisionValue_def guard_iffs json_enum_def has_string_iff)

lemma decision_value_valid: "decision_value e = Some v \<Longrightarrow> isPolicyDecisionValue v"
  by (auto simp: decision_value_def Option.bind_eq_Some_conv split: if_splits)

lemma decision_from_result_valid: "policyDecisionFromResult r = Some v \<Longrightarrow> isPolicyDecisionValue v"
  by (auto simp: policyDecisionFromResult_def decision_value_valid split: option.splits)

lemma normalized_decision_valid:
  "decision (normalizePolicyEvaluatorReturn value) = Some dec \<Longrightarrow> isPolicyDecisionValue dec"
  by (auto simp: normalizePolicyEvaluatorReturn_def Option.bind_eq_Some_conv decision_from_result_valid
      split: option.splits if_splits)

lemma constrain_valid:
  assumes "isPolicyDecisionValue dec" "isRuntimeGrant (property ''requested'' request)"
  shows "isPolicyDecisionValue (constrainAllowedDecision grant request dec)"
proof -
  have "isRuntimeGrant (or_else (property ''requested'' request) (get ''grant'' dec))"
    using assms by (cases "get ''grant'' dec") (auto simp: isPolicyDecisionValue_def guard_iffs)
  then have "isPolicyDecisionValue (set_prop ''grant'' (or_else (property ''requested'' request) (get ''grant'' dec)) dec)"
    using assms(1) by (simp add: isPolicyDecisionValue_def guard_iffs)
  then show ?thesis
    using assms(1) by (simp add: constrainAllowedDecision_def Let_def denied_valid)
qed

lemma constrain_allow:
  assumes "has_string ''decision'' ''allow'' (constrainAllowedDecision grant request dec)"
  obtains g where "has_string ''decision'' ''allow'' dec"
    "get ''grant'' (constrainAllowedDecision grant request dec) = Some g"
    "isRuntimeGrantWithinMaxGrant g (property ''maxGrant'' grant)"
    "isRuntimeGrantWithinMaxGrant (property ''requested'' request) g"
  using assms by (auto simp: constrainAllowedDecision_def Let_def denied_valid split: if_splits)

lemma evaluate_cases:
  fixes grant request evaluator
  defines "out \<equiv> outcome_decision (evaluateConditionalGrant grant request evaluator)"
  obtains (fallback) reason where "out = fallbackDecision grant reason"
    "get ''grantId'' request \<noteq> get ''id'' grant \<or> (\<exists>m. evaluator request = Inl m) \<or>
     (\<exists>r. evaluator request = Inr r \<and> decision (normalizePolicyEvaluatorReturn r) = None)"
  | (decided) r dec where "get ''grantId'' request = get ''id'' grant" "evaluator request = Inr r"
    "decision (normalizePolicyEvaluatorReturn r) = Some dec" "out = constrainAllowedDecision grant request dec"
proof (cases "get ''grantId'' request = get ''id'' grant")
  case True
  show ?thesis
  proof (cases "evaluator request")
    case (Inr r)
    with True that show ?thesis
      by (cases "decision (normalizePolicyEvaluatorReturn r)") (auto simp: out_def evaluateConditionalGrant_def Let_def)
  qed (use True that in \<open>auto simp: out_def evaluateConditionalGrant_def\<close>)
qed (use that in \<open>auto simp: out_def evaluateConditionalGrant_def\<close>)

section \<open>Properties\<close>


text \<open>A conditional grant that lets a handler allow the capability \<^verbatim>\<open>read\<close>, and a request for it.\<close>

definition demo_grant :: json where
  "demo_grant = object [(''id'', JStr (js ''g'')), (''trigger'', object []),
     (''evaluator'', object [(''kind'', JStr (js ''policy.handler'')), (''id'', JStr (js ''h''))]),
     (''maxGrant'', object [(''kind'', JStr (js ''network.fetch'')), (''capabilities'', JArr [JStr (js ''read'')])])]"

definition demo_request :: "string \<Rightarrow> json" where
  "demo_request c = object [(''grantId'', JStr (js ''g'')), (''rootDropId'', JStr (js ''d'')),
     (''requested'', object [(''kind'', JStr (js ''network.fetch'')), (''capabilities'', JArr [JStr (js c)])]),
     (''trigger'', object []), (''facts'', object [])]"

definition allow_with :: "json \<Rightarrow> json" where
  "allow_with g = object [(''decision'', JStr (js ''allow'')), (''grant'', g)]"

lemma demo_simps:
  "get ''requested'' (demo_request c) =
     Some (object [(''kind'', JStr (js ''network.fetch'')), (''capabilities'', JArr [JStr (js c)])])"
  "get ''grantId'' (demo_request c) = Some (JStr (js ''g''))" "get ''id'' demo_grant = Some (JStr (js ''g''))"
  "get ''maxGrant'' demo_grant =
     Some (object [(''kind'', JStr (js ''network.fetch'')), (''capabilities'', JArr [JStr (js ''read'')])])"
  by (simp_all add: demo_request_def demo_grant_def)

lemma demo_grant_valid:
  "isConditionalGrant demo_grant"
  "isRuntimeGrant (object [(''kind'', JStr (js ''network.fetch'')), (''capabilities'', JArr [JStr (js c)])])"
  by (simp_all add: isConditionalGrant_def demo_grant_def guard_iffs isGrantTrigger_def isCallableRef_def
      isRuntimeGrant_def isRuntimeGrantKind_def json_enum_def isStringArray_def json_array_def has_string_iff)


text \<open>
  C35: the maximal grant does not bound the capabilities of an allowed request. Take any request that is within
  the maximal grant once its list of capabilities is dropped. An evaluator that answers with the
  request's grant without that list passes both checks (an absent list counts as empty in the first and
  as no restriction in the second), and the request is allowed whatever capabilities it names.
\<close>

theorem max_grant_escape:
  assumes "get ''grantId'' request = get ''id'' grant"
    and "get ''requested'' request = Some requested" "isRuntimeGrant requested"
    and "get ''maxGrant'' grant = Some maxGrant"
    and "isRuntimeGrantWithinMaxGrant (delete_prop ''capabilities'' requested) maxGrant"
    and "evaluator request = Inr (Some (allow_with (delete_prop ''capabilities'' requested)))"
  shows "has_string ''decision'' ''allow'' (outcome_decision (evaluateConditionalGrant grant request evaluator))"
proof -
  let ?g = "delete_prop ''capabilities'' requested"
  have "isRuntimeGrant ?g" using assms(3) by (simp add: isRuntimeGrant_def guard_iffs)
  then have "isPolicyDecisionValue (allow_with ?g)"
    by (simp add: isPolicyDecisionValue_def allow_with_def guard_iffs json_enum_def)
  then have dec: "decision (normalizePolicyEvaluatorReturn (Some (allow_with ?g))) = Some (allow_with ?g)"
    by (simp add: normalizePolicyEvaluatorReturn_def)
  have "isRuntimeGrantWithinMaxGrant requested ?g"
    by (simp add: isRuntimeGrantWithinMaxGrant_def get_strings_def get_number_def split: option.splits json.splits)
  then have "has_string ''decision'' ''allow'' (constrainAllowedDecision grant request (allow_with ?g))"
    using assms(2,4,5) by (simp add: constrainAllowedDecision_def property_def allow_with_def has_string_iff Let_def)
  then show ?thesis using assms(1,6) dec by (simp add: evaluateConditionalGrant_def Let_def)
qed

theorem max_grant_escape_witness:
  "\<not> isRuntimeGrantWithinMaxGrant
      (object [(''kind'', JStr (js ''network.fetch'')), (''capabilities'', JArr [JStr (js ''write'')])])
      (object [(''kind'', JStr (js ''network.fetch'')), (''capabilities'', JArr [JStr (js ''read'')])]) \<and>
   has_string ''decision'' ''allow'' (outcome_decision (evaluateConditionalGrant demo_grant (demo_request ''write'')
     (\<lambda>_. Inr (Some (allow_with (delete_prop ''capabilities''
       (object [(''kind'', JStr (js ''network.fetch'')), (''capabilities'', JArr [JStr (js ''write'')])])))))))"
proof (rule conjI)
  show "\<not> isRuntimeGrantWithinMaxGrant
      (object [(''kind'', JStr (js ''network.fetch'')), (''capabilities'', JArr [JStr (js ''write'')])])
      (object [(''kind'', JStr (js ''network.fetch'')), (''capabilities'', JArr [JStr (js ''read'')])])"
    by (simp add: isRuntimeGrantWithinMaxGrant_def get_strings_def includesAll_iff strings_of_def List.map_filter_def)
  show "has_string ''decision'' ''allow'' (outcome_decision (evaluateConditionalGrant demo_grant (demo_request ''write'')
     (\<lambda>_. Inr (Some (allow_with (delete_prop ''capabilities''
       (object [(''kind'', JStr (js ''network.fetch'')), (''capabilities'', JArr [JStr (js ''write'')])])))))))"
    by (rule max_grant_escape [OF _ demo_simps(1) demo_grant_valid(2) demo_simps(4)])
      (simp_all add: demo_simps isRuntimeGrantWithinMaxGrant_def get_strings_def get_number_def includesAll_iff)
qed

end
