(* ===== verification/Nullplug_Results.thy ===== *)
theory Nullplug_Results
  imports Nullplug_Policy
begin

text \<open>
  The filter on what a plugin returned: \<^verbatim>\<open>shared/nullplug/result-policy.ts\<close>. A response is a JSON object
  that passed \<open>isNullplugInvokeResponse\<close>; the policy is a resolved root policy, \<open>None\<close> for a caller
  without one.
\<close>

section \<open>Grants of effects\<close>

definition coded_diagnostic :: "string \<Rightarrow> jstring \<Rightarrow> string \<Rightarrow> json" where
  "coded_diagnostic level message code =
     object [(''level'', JStr (js level)), (''message'', JStr message), (''code'', JStr (js code))]"

definition isDropWriteGrantAllowedByPolicy :: "json \<Rightarrow> json \<Rightarrow> bool" where
  "isDropWriteGrantAllowedByPolicy grant policy \<longleftrightarrow>
     (let writePolicy = Option.bind (get ''drops'' policy) (get_string ''write'') in
      if has_string ''kind'' ''drop.diff.propose'' grant
      then writePolicy = Some (js ''propose'') \<or> writePolicy = Some (js ''branch'')
      else if has_string ''kind'' ''drop.diff.apply'' grant then writePolicy = Some (js ''branch'')
      else False)"

definition isGrantAllowed :: "json \<Rightarrow> json \<Rightarrow> json list \<Rightarrow> bool" where
  "isGrantAllowed grant policy maxGrants \<longleftrightarrow>
     isDropWriteGrantAllowedByPolicy grant policy \<or> list_ex (isRuntimeGrantWithinMaxGrant grant) maxGrants"

definition grant_of_kind :: "string \<Rightarrow> string \<Rightarrow> json" where
  "grant_of_kind name scope = object [(''kind'', JStr (js name)), (''scope'', JStr (js scope))]"

definition with_target :: "json \<Rightarrow> json option \<Rightarrow> json" where
  "with_target grant t = (case t of None \<Rightarrow> grant | Some name \<Rightarrow> set_prop ''target'' name grant)"

definition mutationGrant :: "json \<Rightarrow> json" where
  "mutationGrant mutation =
     (if has_string ''kind'' ''drop.diff.propose'' mutation then grant_of_kind ''drop.diff.propose'' ''branch''
      else if has_string ''kind'' ''drop.diff.apply'' mutation then grant_of_kind ''drop.diff.apply'' ''branch''
      else if has_string ''kind'' ''metadata.patch'' mutation then grant_of_kind ''metadata.patch'' ''root''
      else if has_string ''kind'' ''ui.state.patch'' mutation
      then with_target (grant_of_kind ''ui.state.write'' ''root'') (get ''callId'' mutation)
      else with_target (grant_of_kind ''sidecar.write'' ''root'') (get ''target'' mutation))"

definition proposeMutationGrant :: json where
  "proposeMutationGrant = grant_of_kind ''drop.diff.propose'' ''branch''"

definition applyMutationGrant :: json where
  "applyMutationGrant = grant_of_kind ''drop.diff.apply'' ''branch''"

definition callGrant :: "json \<Rightarrow> json" where
  "callGrant call = with_target (object [(''kind'', JStr (js ''nullplug.invoke''))]) (get ''pluginId'' call)"

definition streamGrant :: "json \<Rightarrow> json" where
  "streamGrant stream = with_target (object [(''kind'', JStr (js ''stream.open''))]) (get ''id'' stream)"

definition isStreamHostAllowed :: "platform \<Rightarrow> url_parser \<Rightarrow> json \<Rightarrow> json \<Rightarrow> bool" where
  "isStreamHostAllowed pf url stream policy \<longleftrightarrow>
     (case get_string ''url'' stream of
        None \<Rightarrow> True
      | Some [] \<Rightarrow> True
      | Some u \<Rightarrow>
          (case url u of
             None \<Rightarrow> False
           | Some (protocol, hostname) \<Rightarrow>
               protocol = js ''https:'' \<and> to_lower_case pf hostname \<in> set (network_hosts policy)))"

section \<open>Mutations\<close>

definition proposal :: "json option \<Rightarrow> jstring \<Rightarrow> json" where
  "proposal envelope reason =
     object ((''kind'', JStr (js ''drop.diff.propose'')) #
       (case envelope of None \<Rightarrow> [] | Some e \<Rightarrow> [(''envelope'', e)]) @ [(''reason'', JStr reason)])"

definition downgrade :: "json \<Rightarrow> json" where
  "downgrade mutation = proposal (get ''envelope'' mutation)
     (js ''Downgraded from apply mutation '' @ or_else (js ''undefined'') (get_string ''grantId'' mutation) @ js ''.'')"

record mutation_pass =
  kept :: "json list"
  rejected :: nat
  downgraded :: nat

text \<open>The body of the loop over the returned mutations, and the loop.\<close>

definition pass_mutation :: "json \<Rightarrow> json list \<Rightarrow> mutation_pass \<Rightarrow> json \<Rightarrow> mutation_pass" where
  "pass_mutation policy maxGrants acc mutation =
     (let canProposeDiff = isGrantAllowed proposeMutationGrant policy maxGrants;
          canApplyDiff = isGrantAllowed applyMutationGrant policy maxGrants;
          keep = (\<lambda>m. acc\<lparr>kept := kept acc @ [m]\<rparr>);
          reject = acc\<lparr>rejected := rejected acc + 1\<rparr>
      in if has_string ''kind'' ''drop.diff.apply'' mutation
         then if canApplyDiff then keep mutation
              else if canProposeDiff then (keep (downgrade mutation))\<lparr>downgraded := downgraded acc + 1\<rparr>
              else reject
         else if has_string ''kind'' ''drop.diff.propose'' mutation
         then if canProposeDiff then keep mutation else reject
         else if isGrantAllowed (mutationGrant mutation) policy maxGrants then keep mutation else reject)"

definition pass_mutations :: "json \<Rightarrow> json list \<Rightarrow> json list \<Rightarrow> mutation_pass" where
  "pass_mutations policy maxGrants mutations =
     foldl (pass_mutation policy maxGrants) \<lparr>kept = [], rejected = 0, downgraded = 0\<rparr> mutations"

definition source_mutations :: "json \<Rightarrow> json list" where
  "source_mutations result =
     (case get ''diffs'' result of
        None \<Rightarrow> []
      | Some envelope \<Rightarrow> [proposal (Some envelope) (js ''Normalized from legacy top-level diffs.'')]) @
     or_else [] (get_array ''mutations'' result)"

definition normalizePolicyControlledMutations ::
    "json \<Rightarrow> json \<Rightarrow> json list \<Rightarrow> json list option \<times> json list" where
  "normalizePolicyControlledMutations result policy maxGrants =
     (let normalized =
            (if get ''diffs'' result = None then []
             else [coded_diagnostic ''info'' (js ''Normalized top-level diffs into a proposed mutation.'') ''diffs_normalized''])
      in if source_mutations result = [] then (None, normalized)
         else let pass = pass_mutations policy maxGrants (source_mutations result) in
           (if kept pass = [] then None else Some (kept pass),
            normalized @
            (if downgraded pass > 0
             then [coded_diagnostic ''warn'' (js ''Root policy downgraded one or more apply mutations to proposals.'')
                     ''policy_mutation_downgraded'']
             else []) @
            (if rejected pass > 0
             then [coded_diagnostic ''warn'' (js ''Root policy rejected one or more nullplug mutations.'')
                     ''policy_mutation_rejected'']
             else [])))"

section \<open>Responses\<close>

definition set_array :: "string \<Rightarrow> json list \<Rightarrow> json \<Rightarrow> json" where
  "set_array k vs v = (if vs = [] then delete_prop k v else set_prop k (JArr vs) v)"

definition plugin_policy :: "json \<Rightarrow> jstring option \<Rightarrow> json option" where
  "plugin_policy policy pluginId =
     (case pluginId of
        None \<Rightarrow> None
      | Some [] \<Rightarrow> None
      | Some i \<Rightarrow> Option.bind (get ''nullplugs'' policy) (\<lambda>n. map_of (entries n) i))"

definition invoke_rule :: "json option \<Rightarrow> jstring option" where
  "invoke_rule pluginPolicy = Option.bind pluginPolicy (get_string ''invoke'')"

definition max_grants :: "json option \<Rightarrow> json list" where
  "max_grants pluginPolicy = or_else [] (Option.bind pluginPolicy (get_array ''maxGrants''))"

definition refused_response :: "json \<Rightarrow> jstring option \<Rightarrow> string \<Rightarrow> string \<Rightarrow> string \<Rightarrow> json" where
  "refused_response response pluginId level message code =
     set_prop ''diagnostics'' (JArr (or_else [] (get_array ''diagnostics'' response) @
         [coded_diagnostic level
            (js message @ (case pluginId of None \<Rightarrow> [] | Some [] \<Rightarrow> [] | Some i \<Rightarrow> js '': '' @ i) @ js ''.'') code]))
       (set_prop ''result'' (object []) response)"

text \<open>The filter of one list property, \<^verbatim>\<open>calls\<close> or \<^verbatim>\<open>streams\<close>: the result and what it reports.\<close>

definition filter_list :: "string \<Rightarrow> (json \<Rightarrow> bool) \<Rightarrow> json \<Rightarrow> json \<times> json list \<Rightarrow> json \<times> json list" where
  "filter_list k p report rd =
     (case get_array k (fst rd) of
        None \<Rightarrow> rd
      | Some vs \<Rightarrow>
          (let allowed = filter p vs in
           (set_array k allowed (fst rd),
            if length allowed \<noteq> length vs then snd rd @ [report] else snd rd)))"

definition filtered_result :: "platform \<Rightarrow> url_parser \<Rightarrow> json \<Rightarrow> json list \<Rightarrow> json \<Rightarrow> json list \<Rightarrow> json \<times> json list" where
  "filtered_result pf url policy maxGrants result diags =
     (let (mutations, reports) = normalizePolicyControlledMutations result policy maxGrants;
          withMutations = (case mutations of
             Some ms \<Rightarrow> set_prop ''mutations'' (JArr ms) (delete_prop ''diffs'' result)
           | None \<Rightarrow> delete_prop ''mutations'' (delete_prop ''diffs'' result));
          withCalls = filter_list ''calls'' (\<lambda>call. isGrantAllowed (callGrant call) policy maxGrants)
            (coded_diagnostic ''warn'' (js ''Root policy rejected one or more nested nullplug calls.'')
               ''policy_nested_call_rejected'')
            (withMutations, diags @ reports)
      in filter_list ''streams'' (\<lambda>stream. isStreamHostAllowed pf url stream policy \<and>
              isGrantAllowed (streamGrant stream) policy maxGrants)
            (coded_diagnostic ''warn'' (js ''Root policy rejected one or more nullplug streams.'')
               ''policy_stream_rejected'')
            withCalls)"

definition filterNullplugInvokeResponse ::
    "platform \<Rightarrow> url_parser \<Rightarrow> json \<Rightarrow> json option \<Rightarrow> jstring option \<Rightarrow> json" where
  "filterNullplugInvokeResponse pf url response policyOption pluginId =
     (case policyOption of
        None \<Rightarrow> response
      | Some policy \<Rightarrow>
          (let pluginPolicy = plugin_policy policy pluginId in
           if invoke_rule pluginPolicy = Some (js ''deny'')
           then refused_response response pluginId ''error'' ''Root policy denied nullplug invocation'' ''policy_denied''
           else if invoke_rule pluginPolicy = Some (js ''conditional'')
           then refused_response response pluginId ''warn''
                  ''Root policy requires conditional nullplug invocation'' ''policy_conditional''
           else let (result, diags) = filtered_result pf url policy (max_grants pluginPolicy)
                      (property ''result'' response) (or_else [] (get_array ''diagnostics'' response))
             in set_array ''diagnostics'' diags (set_prop ''result'' result response)))"

section \<open>What one mutation becomes\<close>

definition passed :: "json \<Rightarrow> json list \<Rightarrow> json \<Rightarrow> json option" where
  "passed policy maxGrants m =
     (if has_string ''kind'' ''drop.diff.apply'' m \<and> \<not> isGrantAllowed applyMutationGrant policy maxGrants
      then if isGrantAllowed proposeMutationGrant policy maxGrants then Some (downgrade m) else None
      else if isGrantAllowed (mutationGrant m) policy maxGrants then Some m else None)"

lemma mutationGrant_diff:
  "has_string ''kind'' ''drop.diff.apply'' m \<Longrightarrow> mutationGrant m = applyMutationGrant"
  "has_string ''kind'' ''drop.diff.propose'' m \<Longrightarrow> mutationGrant m = proposeMutationGrant"
  by (simp_all add: mutationGrant_def applyMutationGrant_def proposeMutationGrant_def has_string_iff)

lemma kept_pass_mutation:
  "kept (pass_mutation policy G acc m) =
     kept acc @ (case passed policy G m of None \<Rightarrow> [] | Some m' \<Rightarrow> [m'])"
  by (simp add: pass_mutation_def passed_def Let_def mutationGrant_diff)

lemma kept_foldl:
  "kept (foldl (pass_mutation policy G) acc ms) = kept acc @ List.map_filter (passed policy G) ms"
  by (induction ms arbitrary: acc) (auto simp: kept_pass_mutation List.map_filter_def split: option.splits)

lemma kept_pass_mutations: "kept (pass_mutations policy G ms) = List.map_filter (passed policy G) ms"
  by (simp add: pass_mutations_def kept_foldl)

lemma kind_downgrade [simp]:
  "has_string ''kind'' ''drop.diff.propose'' (proposal e r)" "has_string ''kind'' ''drop.diff.propose'' (downgrade m)"
  "\<not> has_string ''kind'' ''drop.diff.apply'' (downgrade m)"
  by (simp_all add: downgrade_def proposal_def has_string_iff)

lemma passed_allowed: "passed policy G m = Some m' \<Longrightarrow> isGrantAllowed (mutationGrant m') policy G"
  by (auto simp: passed_def mutationGrant_diff split: if_splits)

lemma passed_again: "passed policy G m = Some m' \<Longrightarrow> passed policy G m' = Some m'"
  by (auto simp: passed_def mutationGrant_diff split: if_splits)

lemma proposal_valid: "isDropDiffEnvelopeV1 e \<Longrightarrow> isNullplugMutation (proposal (Some e) reason)"
  by (simp add: isNullplugMutation_def proposal_def guard_iffs get_string_def)

lemma downgrade_valid:
  assumes "isNullplugMutation m" "has_string ''kind'' ''drop.diff.apply'' m"
  shows "isNullplugMutation (downgrade m)"
proof -
  have "\<exists>e. get ''envelope'' m = Some e \<and> isDropDiffEnvelopeV1 e"
    using assms by (auto simp: isNullplugMutation_def has_string_def req_iff Let_def)
  then show ?thesis by (auto simp: downgrade_def proposal_valid)
qed

lemma passed_valid: "isNullplugMutation m \<Longrightarrow> passed policy G m = Some m' \<Longrightarrow> isNullplugMutation m'"
  by (auto simp: passed_def downgrade_valid split: if_splits)

lemma map_filter_idem:
  assumes "\<And>x y. f x = Some y \<Longrightarrow> f y = Some y"
  shows "List.map_filter f (List.map_filter f xs) = List.map_filter f xs"
proof (induction xs)
  case (Cons x xs)
  then show ?case using assms [of x] by (cases "f x") (simp_all add: map_filter_simps)
qed (simp add: map_filter_simps)

lemma set_map_filter': "y \<in> set (List.map_filter f xs) \<longleftrightarrow> (\<exists>x \<in> set xs. f x = Some y)"
  by (induction xs) (auto simp: List.map_filter_def)

section \<open>The filtered result\<close>

definition effects :: "string \<Rightarrow> json \<Rightarrow> json list" where
  "effects k result = or_else [] (get_array k result)"

definition effects_allowed :: "platform \<Rightarrow> url_parser \<Rightarrow> json \<Rightarrow> json list \<Rightarrow> json \<Rightarrow> bool" where
  "effects_allowed pf url policy maxGrants result \<longleftrightarrow>
     get ''diffs'' result = None \<and>
     list_all (\<lambda>m. isGrantAllowed (mutationGrant m) policy maxGrants) (effects ''mutations'' result) \<and>
     list_all (\<lambda>c. isGrantAllowed (callGrant c) policy maxGrants) (effects ''calls'' result) \<and>
     list_all (\<lambda>s. isStreamHostAllowed pf url s policy \<and> isGrantAllowed (streamGrant s) policy maxGrants)
       (effects ''streams'' result)"

lemma effects_set [simp]:
  "effects k (set_prop k' (JArr vs) v) = (if k = k' then vs else effects k v)"
  "effects k (delete_prop k' v) = (if k = k' then [] else effects k v)"
  "effects k (set_array k' vs v) = (if k = k' then vs else effects k v)"
  by (simp_all add: effects_def get_array_def set_array_def)

lemma get_set_array: "get k (set_array k' vs v) = (if k = k' then if vs = [] then None else Some (JArr vs) else get k v)"
  by (simp add: set_array_def)

lemma effects_object [simp]: "effects k (object []) = []"
  by (simp add: effects_def get_array_def)

lemma filter_list_effects:
  "effects k' (fst (filter_list k p d rd)) = (if k' = k then filter p (effects k (fst rd)) else effects k' (fst rd))"
  by (auto simp: filter_list_def effects_def get_array_def get_set_array Let_def split: option.splits)

lemma filter_list_get: "k' \<noteq> k \<Longrightarrow> get k' (fst (filter_list k p d rd)) = get k' (fst rd)"
  by (auto simp: filter_list_def get_set_array Let_def split: option.splits)

lemma normalized_mutations:
  "or_else [] (fst (normalizePolicyControlledMutations r policy G)) =
     List.map_filter (passed policy G) (source_mutations r)"
  by (auto simp: normalizePolicyControlledMutations_def Let_def kept_pass_mutations List.map_filter_def)

lemma normalized_not_empty: "fst (normalizePolicyControlledMutations r policy G) \<noteq> Some []"
  by (auto simp: normalizePolicyControlledMutations_def Let_def)

definition with_mutations :: "json \<Rightarrow> json list \<Rightarrow> json \<Rightarrow> json" where
  "with_mutations policy G r =
     set_array ''mutations'' (List.map_filter (passed policy G) (source_mutations r)) (delete_prop ''diffs'' r)"

lemma filtered_result_mutations:
  "(case fst (normalizePolicyControlledMutations r policy G) of
      Some ms \<Rightarrow> set_prop ''mutations'' (JArr ms) (delete_prop ''diffs'' r)
    | None \<Rightarrow> delete_prop ''mutations'' (delete_prop ''diffs'' r)) = with_mutations policy G r"
  using normalized_mutations [of r policy G] normalized_not_empty [of r policy G]
  by (cases "fst (normalizePolicyControlledMutations r policy G)") (auto simp: with_mutations_def set_array_def)

lemma filtered_result_effects:
  fixes pf url policy G r diags
  defines "r' \<equiv> fst (filtered_result pf url policy G r diags)"
  shows "effects ''mutations'' r' = List.map_filter (passed policy G) (source_mutations r)"
    and "effects ''calls'' r' = filter (\<lambda>c. isGrantAllowed (callGrant c) policy G) (effects ''calls'' r)"
    and "effects ''streams'' r' = filter (\<lambda>s. isStreamHostAllowed pf url s policy \<and> isGrantAllowed (streamGrant s) policy G)
           (effects ''streams'' r)"
    and "get ''diffs'' r' = None"
    and "k \<notin> {''diffs'', ''mutations'', ''calls'', ''streams''} \<Longrightarrow> get k r' = get k r"
  by (simp_all add: r'_def filtered_result_def split_beta Let_def filtered_result_mutations filter_list_effects
      filter_list_get with_mutations_def get_set_array)

lemma filtered_result_allowed: "effects_allowed pf url policy G (fst (filtered_result pf url policy G r diags))"
  by (auto simp: effects_allowed_def filtered_result_effects list_all_iff set_map_filter' passed_allowed)

text \<open>The three list properties are absent when empty, so filtering twice changes nothing more.\<close>

lemma filter_list_canonical:
  assumes "k' \<noteq> k \<Longrightarrow> get k' (fst rd) = (if effects k' (fst rd) = [] then None else Some (JArr (effects k' (fst rd))))"
  shows "get k' (fst (filter_list k p d rd)) =
    (if effects k' (fst (filter_list k p d rd)) = [] then None
     else Some (JArr (effects k' (fst (filter_list k p d rd)))))"
proof (cases "k' = k")
  case True
  then show ?thesis
    by (cases "get k (fst rd)") (auto simp: filter_list_def get_array_def get_set_array Let_def effects_def)
next
  case False
  with assms show ?thesis by (simp add: filter_list_get filter_list_effects)
qed

lemma filtered_canonical:
  assumes "k \<in> {''mutations'', ''calls'', ''streams''}"
  shows "get k (fst (filtered_result pf url policy G r diags)) =
    (if effects k (fst (filtered_result pf url policy G r diags)) = [] then None
     else Some (JArr (effects k (fst (filtered_result pf url policy G r diags)))))"
  unfolding filtered_result_def split_beta Let_def filtered_result_mutations
proof (intro filter_list_canonical)
  assume "k \<noteq> ''streams''" "k \<noteq> ''calls''"
  with assms have "k = ''mutations''" by simp
  then show "get k (fst (with_mutations policy G r, diags @ snd (normalizePolicyControlledMutations r policy G))) =
      (if effects k (fst (with_mutations policy G r, diags @ snd (normalizePolicyControlledMutations r policy G))) = [] then None
       else Some (JArr (effects k (fst (with_mutations policy G r, diags @ snd (normalizePolicyControlledMutations r policy G))))))"
    by (simp add: with_mutations_def get_set_array)
qed

lemma filtered_result_idem:
  fixes pf url policy G r diags
  defines "r' \<equiv> fst (filtered_result pf url policy G r diags)"
  shows "get k (fst (filtered_result pf url policy G r' diags')) = get k r'"
proof -
  let ?r = "fst (filtered_result pf url policy G r' diags')"
  have "source_mutations r' = effects ''mutations'' r'"
    by (simp add: source_mutations_def r'_def filtered_result_effects effects_def [symmetric])
  then have "effects ''mutations'' ?r = effects ''mutations'' r'"
    by (simp add: filtered_result_effects r'_def map_filter_idem passed_again)
  moreover have "effects ''calls'' ?r = effects ''calls'' r'" "effects ''streams'' ?r = effects ''streams'' r'"
    by (simp_all add: filtered_result_effects r'_def filter_id_conv conj_commute cong: conj_cong)
  ultimately have same: "effects k ?r = effects k r'" if "k \<in> {''mutations'', ''calls'', ''streams''}" using that by auto
  show ?thesis
  proof (cases "k \<in> {''mutations'', ''calls'', ''streams''}")
    case True
    then show ?thesis using filtered_canonical [OF True, of pf url policy G] same [OF True] by (simp add: r'_def)
  next
    case False
    then show ?thesis by (cases "k = ''diffs''") (auto simp: filtered_result_effects(4,5) r'_def)
  qed
qed

section \<open>Validity of the filtered response\<close>

lemma keys_set_prop: "fst ` set (entries (set_prop k x v)) = insert (js k) (fst ` set (entries v))"
  by (simp add: set_prop_def entries_def dom_update)

lemma keys_delete_prop: "fst ` set (entries (delete_prop k v)) = fst ` set (entries v) - {js k}"
proof -
  have "entries (delete_prop k v) = AList.delete (js k) (entries v)"
    by (simp add: delete_prop_def entries_def)
  then show ?thesis using delete_keys [of "js k" "entries v"] by (metis list.set_map set_removeAll)
qed

lemma result_keys_iff:
  "list_all (\<lambda>(k, _). k \<in> set nullplugResultKeys) (entries v) \<longleftrightarrow> fst ` set (entries v) \<subseteq> set nullplugResultKeys"
  by (auto simp: list_all_iff)

lemma result_delete_valid: "isNullplugResult v \<Longrightarrow> isNullplugResult (delete_prop k v)"
  unfolding isNullplugResult_def result_keys_iff keys_delete_prop opt_iff by auto

definition effect_guard :: "string \<Rightarrow> json \<Rightarrow> bool" where
  "effect_guard k = (if k = ''mutations'' then isNullplugMutation
     else if k = ''calls'' then isNullplugCall else isNullplugStreamDescriptor)"

lemma effect_opt:
  assumes "isNullplugResult v" "k \<in> {''mutations'', ''calls'', ''streams''}"
  shows "opt k (json_array (effect_guard k)) v"
  using assms by (elim insertE emptyE) (simp_all add: isNullplugResult_def effect_guard_def)

lemma opt_set_prop: "opt k p (set_prop k' x v) \<longleftrightarrow> (if k = k' then p x else opt k p (JObj (entries v)))"
  by (simp add: opt_iff get_def entries_def set_prop_def)

lemma opt_entries: "is_object v \<Longrightarrow> opt k p (JObj (entries v)) = opt k p v"
  by (cases v) (simp_all add: is_object_def entries_def)

lemma result_set_valid:
  assumes "isNullplugResult v" "k \<in> {''mutations'', ''calls'', ''streams''}" "list_all (effect_guard k) vs"
  shows "isNullplugResult (set_array k vs v)"
proof -
  have "is_object v" using assms(1) by (simp add: isNullplugResult_def)
  note parts = isNullplugResult_def result_keys_iff keys_set_prop opt_set_prop opt_entries [OF this]
  have keys: "js k \<in> set nullplugResultKeys" using assms(2) by (auto simp: nullplugResultKeys_def)
  have "isNullplugResult (set_prop k (JArr vs) v)"
    using assms(2) keys assms(1,3)
    by (elim insertE emptyE) (simp_all add: parts json_array_def effect_guard_def)
  then show ?thesis by (simp add: set_array_def result_delete_valid assms(1))
qed

lemma effects_valid:
  assumes "isNullplugResult v" "k \<in> {''mutations'', ''calls'', ''streams''}"
  shows "list_all (effect_guard k) (effects k v)"
  using effect_opt [OF assms]
  by (cases "get k v") (auto simp: opt_iff json_array_iff effects_def get_array_def)

lemma filter_list_valid:
  assumes "isNullplugResult (fst rd)" "k \<in> {''mutations'', ''calls'', ''streams''}"
  shows "isNullplugResult (fst (filter_list k p d rd))"
proof (cases "get k (fst rd)")
  case (Some a)
  have "list_all (effect_guard k) (filter p (effects k (fst rd)))"
    using effects_valid [OF assms] by (auto simp: list_all_iff)
  then show ?thesis
    using result_set_valid [OF assms] Some by (simp add: filter_list_def get_array_def effects_def Let_def)
qed (simp add: filter_list_def get_array_def assms)

lemma source_mutations_valid: "isNullplugResult r \<Longrightarrow> list_all isNullplugMutation (source_mutations r)"
  using effects_valid [of r "''mutations''"]
  by (auto simp: source_mutations_def effect_guard_def effects_def proposal_valid isNullplugResult_def opt_iff
      split: option.splits)

lemma filtered_result_valid:
  assumes "isNullplugResult r"
  shows "isNullplugResult (fst (filtered_result pf url policy G r diags))"
proof -
  have "isNullplugMutation m'" if "m' \<in> set (List.map_filter (passed policy G) (source_mutations r))" for m'
  proof -
    from that obtain m where "m \<in> set (source_mutations r)" "passed policy G m = Some m'"
      unfolding set_map_filter' by blast
    then show ?thesis using source_mutations_valid [OF assms] unfolding list_all_iff by (blast intro: passed_valid)
  qed
  then have "list_all (effect_guard ''mutations'') (List.map_filter (passed policy G) (source_mutations r))"
    unfolding list_all_iff effect_guard_def if_P [OF refl] by blast
  then have "isNullplugResult (with_mutations policy G r)"
    unfolding with_mutations_def by (intro result_set_valid result_delete_valid assms) auto
  then show ?thesis
    unfolding filtered_result_def split_beta Let_def filtered_result_mutations by (intro filter_list_valid) auto
qed

definition extends_diagnostics :: "json list \<Rightarrow> json list \<Rightarrow> bool" where
  "extends_diagnostics ds ds' \<longleftrightarrow> (\<exists>new. ds' = ds @ new \<and> list_all isNullplugDiagnostic new)"

lemma coded_diagnostic_valid:
  "level \<in> {''info'', ''warn'', ''error''} \<Longrightarrow> isNullplugDiagnostic (coded_diagnostic level message code)"
  by (auto simp: isNullplugDiagnostic_def coded_diagnostic_def guard_iffs json_enum_def)

lemma filter_list_diagnostics:
  "isNullplugDiagnostic d \<Longrightarrow> extends_diagnostics ds (snd rd) \<Longrightarrow> extends_diagnostics ds (snd (filter_list k p d rd))"
  by (auto simp: filter_list_def extends_diagnostics_def Let_def split: option.splits)

lemma filtered_result_diagnostics:
  "extends_diagnostics ds (snd (filtered_result pf url policy G r ds))"
proof -
  have "list_all isNullplugDiagnostic (snd (normalizePolicyControlledMutations r policy G))"
    by (simp add: normalizePolicyControlledMutations_def Let_def coded_diagnostic_valid)
  then have "extends_diagnostics ds (ds @ snd (normalizePolicyControlledMutations r policy G))"
    by (simp add: extends_diagnostics_def)
  then show ?thesis
    unfolding filtered_result_def split_beta Let_def
    by (intro filter_list_diagnostics coded_diagnostic_valid) auto
qed

text \<open>The whole filter: refused, or the filtered result with the extended diagnostics.\<close>

definition refused :: "json \<Rightarrow> jstring option \<Rightarrow> bool" where
  "refused policy pluginId \<longleftrightarrow> invoke_rule (plugin_policy policy pluginId) \<in> {Some (js ''deny''), Some (js ''conditional'')}"

lemma filter_result:
  "property ''result'' (filterNullplugInvokeResponse pf url response (Some policy) pluginId) =
     (if refused policy pluginId then object []
      else fst (filtered_result pf url policy (max_grants (plugin_policy policy pluginId)) (property ''result'' response)
             (effects ''diagnostics'' response)))"
  by (auto simp: filterNullplugInvokeResponse_def refused_def refused_response_def property_def get_set_array
      effects_def split_beta Let_def)

lemma filter_diagnostics:
  "extends_diagnostics (effects ''diagnostics'' response)
     (effects ''diagnostics'' (filterNullplugInvokeResponse pf url response (Some policy) pluginId))"
proof (cases "refused policy pluginId")
  case True
  then show ?thesis
    by (auto simp: filterNullplugInvokeResponse_def refused_def refused_response_def Let_def effects_def
        get_array_def extends_diagnostics_def coded_diagnostic_valid)
next
  case False
  then show ?thesis
    using filtered_result_diagnostics [of "effects ''diagnostics'' response" pf url policy
        "max_grants (plugin_policy policy pluginId)" "property ''result'' response"]
    by (simp add: filterNullplugInvokeResponse_def refused_def Let_def split_beta effects_def [of _ response, symmetric])
qed

lemma filter_get:
  "k \<notin> {''result'', ''diagnostics''} \<Longrightarrow>
     get k (filterNullplugInvokeResponse pf url response (Some policy) pluginId) = get k response"
  by (simp add: filterNullplugInvokeResponse_def refused_response_def get_set_array Let_def split_beta)

lemma filter_present:
  "get ''result'' (filterNullplugInvokeResponse pf url response (Some policy) pluginId) =
     Some (property ''result'' (filterNullplugInvokeResponse pf url response (Some policy) pluginId))"
  "get ''diagnostics'' (filterNullplugInvokeResponse pf url response (Some policy) pluginId) \<in>
     {None, Some (JArr (effects ''diagnostics'' (filterNullplugInvokeResponse pf url response (Some policy) pluginId)))}"
  "is_object (filterNullplugInvokeResponse pf url response (Some policy) pluginId)"
  by (simp_all add: filterNullplugInvokeResponse_def refused_response_def get_set_array Let_def split_beta property_def
      effects_def get_array_def) (simp add: set_array_def)

lemma response_parts:
  assumes "isNullplugInvokeResponse response"
  shows "isNullplugResult (property ''result'' response)" "list_all isNullplugDiagnostic (effects ''diagnostics'' response)"
    "opt ''resolution'' isNullplugRuntimeResolution response"
  using assms by (auto simp: isNullplugInvokeResponse_def guard_iffs property_def json_array_iff effects_def get_array_def
      or_else_def split: option.splits)

lemma empty_result_valid: "isNullplugResult (object [])"
  by (simp add: isNullplugResult_def opt_iff) (simp add: object_def entries_def)

lemma filter_valid:
  assumes "isNullplugInvokeResponse response"
  shows "isNullplugInvokeResponse (filterNullplugInvokeResponse pf url response (Some policy) pluginId)"
proof -
  let ?f = "filterNullplugInvokeResponse pf url response (Some policy) pluginId"
  note parts = response_parts [OF assms]
  have "isNullplugResult (property ''result'' ?f)"
    by (simp add: filter_result empty_result_valid filtered_result_valid parts)
  moreover have "list_all isNullplugDiagnostic (effects ''diagnostics'' ?f)"
    using filter_diagnostics [of response pf url policy pluginId] parts(2) by (auto simp: extends_diagnostics_def)
  moreover have "opt ''resolution'' isNullplugRuntimeResolution ?f"
    using parts(3) by (simp add: opt_iff filter_get filter_present)
  ultimately show ?thesis
    using filter_present [of pf url response policy pluginId]
    by (auto simp: isNullplugInvokeResponse_def req_iff opt_iff json_array_def)
qed

lemma empty_allowed: "effects_allowed pf url policy G (object [])"
  unfolding effects_allowed_def by simp

lemma filter_allowed:
  "effects_allowed pf url policy (max_grants (plugin_policy policy pluginId))
     (property ''result'' (filterNullplugInvokeResponse pf url response (Some policy) pluginId))"
  using filtered_result_allowed [of pf url policy "max_grants (plugin_policy policy pluginId)" "property ''result'' response"
      "effects ''diagnostics'' response"]
  by (cases "refused policy pluginId") (simp_all add: filter_result empty_allowed)

section \<open>Properties\<close>


definition demo_mutation :: json where
  "demo_mutation = object [(''kind'', JStr (js ''metadata.patch'')), (''patch'', JNull)]"

definition demo_result :: json where
  "demo_result = object [(''content'', JStr (js ''hi'')), (''mutations'', JArr [demo_mutation])]"

definition demo_response :: json where
  "demo_response = object [(''result'', demo_result)]"

definition demo_policy :: json where
  "demo_policy = object [(''version'', JNum 1)]"

lemma demo_response_valid: "isNullplugInvokeResponse demo_response"
proof -
  have kind: "get_string ''kind'' demo_mutation = Some (js ''metadata.patch'')"
    by (simp add: get_string_def demo_mutation_def)
  have "isNullplugMutation demo_mutation"
    unfolding isNullplugMutation_def kind Let_def by (simp add: demo_mutation_def guard_iffs)
  moreover have "fst ` set (entries demo_result) \<subseteq> set nullplugResultKeys"
    by (simp add: demo_result_def object_def entries_def nullplugResultKeys_def)
  ultimately have "isNullplugResult demo_result"
    unfolding isNullplugResult_def result_keys_iff by (simp add: demo_result_def opt_iff json_array_def)
  then show ?thesis by (simp add: isNullplugInvokeResponse_def demo_response_def guard_iffs)
qed


end
