(* ===== verification/Nullplug_Runtime.thy ===== *)
theory Nullplug_Runtime
  imports Nullplug_Results
begin

text \<open>
  Plugin invocation: \<^verbatim>\<open>shared/nullplug/runtime.ts\<close> (resolve, invoke, normalize, validate) and the root-policy
  enforcement of the server, \<^verbatim>\<open>functions/api/_lib/nullplug/policy.ts\<close>.

  A callable either throws or returns. What it throws is a \<open>NullplugRuntimeError\<close> or any other error; the
  boundary turns every other error into one of its own, so \<open>invoke\<close> fails with a \<open>NullplugRuntimeError\<close> by its
  type. The policy of the code remembers, in a map from prepared requests, the root policy each was
  admitted under; here that entry accompanies the prepared request from \<open>prepare\<close> to \<open>validate\<close>.
\<close>

section \<open>Errors, invokers and resolvers\<close>

record NullplugRuntimeError =
  code :: string
  message :: jstring
  resolution :: "json option"

datatype thrown = RuntimeThrown NullplugRuntimeError | OtherThrown

type_synonym NullplugRuntimeInvoker = "json \<Rightarrow> thrown + json option"

datatype resolved = Invoker NullplugRuntimeInvoker | ResolvedInvoker NullplugRuntimeInvoker json

type_synonym NullplugRuntimeResolver = "json \<Rightarrow> thrown + resolved option"

record 'm NullplugRuntimePolicy =
  prepare :: "json \<Rightarrow> thrown + json \<times> 'm"
  validate :: "json \<Rightarrow> json \<Rightarrow> 'm \<Rightarrow> thrown + json"

definition runtime_error :: "string \<Rightarrow> jstring \<Rightarrow> NullplugRuntimeError" where
  "runtime_error c m = \<lparr>code = c, message = m, resolution = None\<rparr>"

text \<open>Rethrow a runtime error, wrap any other.\<close>

definition boundary :: "NullplugRuntimeError \<Rightarrow> thrown + 'a \<Rightarrow> NullplugRuntimeError + 'a" where
  "boundary wrapped r =
     (case r of Inr x \<Rightarrow> Inr x | Inl (RuntimeThrown e) \<Rightarrow> Inl e | Inl OtherThrown \<Rightarrow> Inl wrapped)"

definition plugin_id :: "json \<Rightarrow> jstring" where
  "plugin_id request = or_else [] (get_string ''pluginId'' (property ''call'' request))"

section \<open>The runtime\<close>

definition normalizeNullplugReturn :: "json option \<Rightarrow> NullplugRuntimeError + json" where
  "normalizeNullplugReturn value =
     (case value of
        None \<Rightarrow> Inr (object [(''result'', object [])])
      | Some JNull \<Rightarrow> Inr (object [(''result'', object [])])
      | Some (JStr s) \<Rightarrow> Inr (object [(''result'', object [(''content'', JStr s)])])
      | Some v \<Rightarrow>
          if isNullplugInvokeResponse v then Inr v
          else if isNullplugResult v then Inr (object [(''result'', v)])
          else Inl (runtime_error ''invalid_result'' (js ''Nullplug invoker returned an invalid result.'')))"

text \<open>The first resolver that recognizes the plugin.\<close>

fun first_resolved :: "NullplugRuntimeResolver list \<Rightarrow> json \<Rightarrow> thrown + resolved option" where
  "first_resolved [] request = Inr None"
| "first_resolved (r # rs) request =
     (case r request of
        Inl e \<Rightarrow> Inl e
      | Inr None \<Rightarrow> first_resolved rs request
      | Inr (Some x) \<Rightarrow> Inr (Some x))"

definition resolution_failed :: "json \<Rightarrow> NullplugRuntimeError" where
  "resolution_failed request =
     runtime_error ''resolution_failed'' (js ''Failed to resolve nullplug '' @ plugin_id request @ js ''.'')"

definition supports :: "NullplugRuntimeResolver list \<Rightarrow> json \<Rightarrow> NullplugRuntimeError + bool" where
  "supports resolvers request =
     and_then (boundary (resolution_failed request) (first_resolved resolvers request)) (\<lambda>found. Inr (found \<noteq> None))"

fun resolved_parts :: "resolved \<Rightarrow> NullplugRuntimeInvoker \<times> json option" where
  "resolved_parts (Invoker i) = (i, None)"
| "resolved_parts (ResolvedInvoker i r) = (i, Some r)"

definition call_invoker :: "NullplugRuntimeInvoker \<Rightarrow> json option \<Rightarrow> json \<Rightarrow> NullplugRuntimeError + json option" where
  "call_invoker invoker res request =
     (case invoker request of
        Inr v \<Rightarrow> Inr v
      | Inl (RuntimeThrown e) \<Rightarrow> Inl (if res = None then e else \<lparr>code = code e, message = message e, resolution = res\<rparr>)
      | Inl OtherThrown \<Rightarrow>
          Inl \<lparr>code = ''invoke_failed'', message = js ''Nullplug '' @ plugin_id request @ js '' invocation failed.'',
               resolution = res\<rparr>)"

definition with_resolution :: "json option \<Rightarrow> json \<Rightarrow> json" where
  "with_resolution res response =
     (case res of None \<Rightarrow> response | Some r \<Rightarrow> set_prop ''resolution'' r response)"

text \<open>From the prepared request to the normalized response.\<close>

definition run_prepared :: "NullplugRuntimeResolver list \<Rightarrow> json \<Rightarrow> NullplugRuntimeError + json" where
  "run_prepared resolvers prepared =
     and_then (boundary (resolution_failed prepared) (first_resolved resolvers prepared)) (\<lambda>found.
     case found of
       None \<Rightarrow> Inl (runtime_error ''unsupported_plugin'' (js ''No nullplug resolver accepted '' @ plugin_id prepared @ js ''.''))
     | Some x \<Rightarrow>
         (let (invoker, res) = resolved_parts x in
          and_then (call_invoker invoker res prepared) (\<lambda>returned.
          and_then (normalizeNullplugReturn returned) (\<lambda>normalized. Inr (with_resolution res normalized)))))"

definition invoke ::
    "NullplugRuntimeResolver list \<Rightarrow> 'm NullplugRuntimePolicy option \<Rightarrow> json \<Rightarrow> NullplugRuntimeError + json" where
  "invoke resolvers policyOption request =
     (case policyOption of
        None \<Rightarrow> run_prepared resolvers request
      | Some policy \<Rightarrow>
          and_then (boundary (runtime_error ''policy_prepare_failed''
                     (js ''Nullplug '' @ plugin_id request @ js '' policy preparation failed.'')) (prepare policy request))
            (\<lambda>(prepared, m).
          and_then (run_prepared resolvers prepared) (\<lambda>response.
          and_then (boundary (runtime_error ''policy_validation_failed''
                     (js ''Nullplug '' @ plugin_id prepared @ js '' policy validation failed.''))
                     (validate policy response prepared m))
            (\<lambda>validated. Inr (with_resolution (get ''resolution'' response) validated)))))"

section \<open>Root policy of the server\<close>

text \<open>
  Reading the caller's root (\<^verbatim>\<open>readProviderDropPayload\<close>, object storage and decryption) is a parameter: from
  the drop id and the preauthorized id to nothing, or the metadata of the payload.
\<close>

type_synonym root_reader = "jstring \<Rightarrow> jstring option \<Rightarrow> thrown + json option option"

definition raise :: "string \<Rightarrow> jstring \<Rightarrow> thrown + 'a" where
  "raise c m = Inl (RuntimeThrown (runtime_error c m))"

definition callerRootId :: "json \<Rightarrow> thrown + jstring option" where
  "callerRootId request =
     (let callRootId = get_string ''dropId'' (property ''caller'' (property ''call'' request));
          contextRootId = get_string ''callerDropId'' (property ''context'' request)
      in if callRootId \<notin> {None, Some []} \<and> contextRootId \<notin> {None, Some []} \<and> callRootId \<noteq> contextRootId
         then raise ''caller_mismatch'' (js ''Nullplug caller drop ids must match.'')
         else Inr (if callRootId \<noteq> None then callRootId else contextRootId))"

definition loadRootPolicy ::
    "platform \<Rightarrow> url_parser \<Rightarrow> root_reader \<Rightarrow> jstring \<Rightarrow> jstring option \<Rightarrow> thrown + json" where
  "loadRootPolicy pf url read rootId preauthorized =
     and_then (read rootId (if preauthorized = Some [] then None else preauthorized)) (\<lambda>found.
     case found of
       None \<Rightarrow> raise ''policy_source_unreadable'' (js ''Provider could not read the caller root policy.'')
     | Some metadata \<Rightarrow>
         (if \<not> opt_all isRootRuntimePolicy (Option.bind metadata (get ''runtimePolicy''))
          then raise ''invalid_root_policy'' (js ''The caller root runtime policy is invalid.'')
          else Inr (resolveRootRuntimePolicy pf url metadata DEFAULT_RUNTIME_NETWORK_ALLOWLIST)))"

definition policy_of_plugin :: "json \<Rightarrow> jstring \<Rightarrow> json option" where
  "policy_of_plugin policy i = Option.bind (get ''nullplugs'' policy) (\<lambda>n. map_of (entries n) i)"

definition narrow_capabilities :: "json option \<Rightarrow> json \<Rightarrow> json" where
  "narrow_capabilities pluginPolicy request =
     (case Option.bind pluginPolicy (get_strings ''capabilities'') of
        None \<Rightarrow> request
      | Some policyCapabilities \<Rightarrow>
          set_prop ''context'' (set_prop ''capabilities''
            (JArr (map JStr (filter (\<lambda>c. c \<in> set policyCapabilities)
               (or_else [] (get_strings ''capabilities'' (property ''context'' request))))))
            (property ''context'' request)) request)"

definition admit :: "bool \<Rightarrow> json \<Rightarrow> json \<Rightarrow> thrown + json \<times> json option" where
  "admit isTrusted policy request =
     (let pluginPolicy = policy_of_plugin policy (plugin_id request); rule = invoke_rule pluginPolicy in
      if rule = Some (js ''deny'')
      then raise ''policy_denied'' (js ''Root policy denied nullplug '' @ plugin_id request @ js ''.'')
      else if rule = Some (js ''conditional'')
      then raise ''policy_conditional''
             (js ''Root policy requires conditional approval for '' @ plugin_id request @ js ''.'')
      else if \<not> isTrusted \<and> rule \<noteq> Some (js ''allow'')
      then raise ''policy_denied''
             (js ''Root policy did not authorize remote nullplug '' @ plugin_id request @ js ''.'')
      else Inr (narrow_capabilities pluginPolicy request, Some policy))"

definition root_prepare ::
    "platform \<Rightarrow> url_parser \<Rightarrow> root_reader \<Rightarrow> jstring list \<Rightarrow> jstring option \<Rightarrow> json \<Rightarrow> thrown + json \<times> json option" where
  "root_prepare pf url read trustedPluginIds preauthorized request =
     and_then (callerRootId request) (\<lambda>rootId.
     let isTrusted = plugin_id request \<in> set trustedPluginIds in
     case rootId of
       Some (u # us) \<Rightarrow>
         and_then (loadRootPolicy pf url read (or_else (u # us) preauthorized) preauthorized)
           (\<lambda>policy. admit isTrusted policy request)
     | _ \<Rightarrow>
         if \<not> isTrusted
         then raise ''policy_source_required'' (js ''Remote nullplug invocation requires a caller root policy.'')
         else Inr (request, None))"

definition root_validate :: "platform \<Rightarrow> url_parser \<Rightarrow> json \<Rightarrow> json \<Rightarrow> json option \<Rightarrow> thrown + json" where
  "root_validate pf url response request policy =
     Inr (filterNullplugInvokeResponse pf url response policy (get_string ''pluginId'' (property ''call'' request)))"

definition createCloudflareRuntimePolicy ::
    "platform \<Rightarrow> url_parser \<Rightarrow> root_reader \<Rightarrow> jstring list \<Rightarrow> jstring option \<Rightarrow> json option NullplugRuntimePolicy" where
  "createCloudflareRuntimePolicy pf url read trustedPluginIds preauthorized =
     \<lparr>prepare = root_prepare pf url read trustedPluginIds preauthorized, validate = root_validate pf url\<rparr>"

section \<open>What the runtime relies on, and what it gives\<close>

lemma boundary_Inr_iff [result_simps]: "boundary w r = Inr x \<longleftrightarrow> r = Inr x"
  by (auto simp: boundary_def split: sum.splits thrown.splits)

lemma boundary_Inl: "\<exists>e'. boundary w (Inl e) = Inl e'"
  by (cases e) (simp_all add: boundary_def)

text \<open>
  The contract of a policy: what it admits when it prepares a request, and what it guarantees of a
  response it validated. The identity of the resolver may be written over the response afterwards.
\<close>

locale runtime_policy =
  fixes policy :: "'m NullplugRuntimePolicy"
    and admitted :: "json \<Rightarrow> json \<Rightarrow> 'm \<Rightarrow> bool"
    and conforms :: "json \<Rightarrow> 'm \<Rightarrow> json \<Rightarrow> bool"
  assumes prepare_admits: "prepare policy r = Inr (p, m) \<Longrightarrow> admitted r p m"
    and validate_conforms: "validate policy resp p m = Inr resp' \<Longrightarrow> conforms p m resp'"
    and conforms_resolution: "conforms p m resp \<Longrightarrow> conforms p m (set_prop ''resolution'' x resp)"
begin

lemma invoke_enforced:
  assumes "invoke resolvers (Some policy) request = Inr response"
  shows "\<exists>p m raw. admitted request p m \<and> run_prepared resolvers p = Inr raw \<and> conforms p m response"
proof -
  from assms obtain p m raw valid where parts: "prepare policy request = Inr (p, m)"
      "run_prepared resolvers p = Inr raw" "validate policy raw p m = Inr valid"
      "response = with_resolution (get ''resolution'' raw) valid"
    by (auto simp: invoke_def result_simps)
  have "conforms p m response"
    using validate_conforms [OF parts(3)] conforms_resolution
    by (simp add: parts(4) with_resolution_def split: option.splits)
  with prepare_admits [OF parts(1)] parts(2) show ?thesis by blast
qed

lemma refused_before_running:
  assumes "prepare policy request = Inl e"
  shows "\<exists>e'. \<forall>resolvers. invoke resolvers (Some policy) request = Inl e'"
proof -
  obtain e' where "boundary (runtime_error ''policy_prepare_failed''
      (js ''Nullplug '' @ plugin_id request @ js '' policy preparation failed.'')) (prepare policy request) = Inl e'"
    using boundary_Inl assms by metis
  then show ?thesis by (auto simp: invoke_def)
qed

end

section \<open>The server's policy honours the contract\<close>

definition root_admitted ::
    "platform \<Rightarrow> url_parser \<Rightarrow> root_reader \<Rightarrow> jstring list \<Rightarrow> jstring option \<Rightarrow> json \<Rightarrow> json \<Rightarrow> json option \<Rightarrow> bool" where
  "root_admitted pf url read trusted preauthorized r p m \<longleftrightarrow>
     (case m of
        None \<Rightarrow> callerRootId r \<in> {Inr None, Inr (Some [])} \<and> plugin_id r \<in> set trusted \<and> p = r
      | Some policy \<Rightarrow>
          (\<exists>rootId. callerRootId r = Inr (Some rootId) \<and> rootId \<noteq> [] \<and>
             loadRootPolicy pf url read (or_else rootId preauthorized) preauthorized = Inr policy) \<and>
          (let rule = invoke_rule (policy_of_plugin policy (plugin_id r)) in
             rule \<notin> {Some (js ''deny''), Some (js ''conditional'')} \<and>
             (plugin_id r \<in> set trusted \<or> rule = Some (js ''allow''))) \<and>
          p = narrow_capabilities (policy_of_plugin policy (plugin_id r)) r)"

definition root_conforms :: "platform \<Rightarrow> url_parser \<Rightarrow> json \<Rightarrow> json option \<Rightarrow> json \<Rightarrow> bool" where
  "root_conforms pf url p m response \<longleftrightarrow>
     (case m of
        None \<Rightarrow> True
      | Some policy \<Rightarrow> effects_allowed pf url policy
          (max_grants (plugin_policy policy (get_string ''pluginId'' (property ''call'' p)))) (property ''result'' response))"

lemma raise_neq [simp]: "raise c m \<noteq> Inr x"
  by (simp add: raise_def)

lemma admit_Inr:
  assumes "admit trusted policy r = Inr (p, m)"
  shows "m = Some policy" "p = narrow_capabilities (policy_of_plugin policy (plugin_id r)) r"
    "invoke_rule (policy_of_plugin policy (plugin_id r)) \<notin> {Some (js ''deny''), Some (js ''conditional'')}"
    "trusted \<or> invoke_rule (policy_of_plugin policy (plugin_id r)) = Some (js ''allow'')"
  using assms by (simp_all add: admit_def Let_def split: if_splits)

lemma root_prepare_admits:
  assumes "root_prepare pf url read trusted pre r = Inr (p, m)"
  shows "root_admitted pf url read trusted pre r p m"
proof -
  from assms obtain rootId where root: "callerRootId r = Inr rootId"
    by (auto simp: root_prepare_def result_simps)
  show ?thesis
  proof (cases "rootId \<in> {None, Some []}")
    case True
    with assms root show ?thesis by (auto simp: root_prepare_def root_admitted_def split: if_splits)
  next
    case False
    then obtain u us where "rootId = Some (u # us)" by (cases rootId) (auto simp: neq_Nil_conv)
    with assms root obtain policy where load: "loadRootPolicy pf url read (or_else (u # us) pre) pre = Inr policy"
        and admit: "admit (plugin_id r \<in> set trusted) policy r = Inr (p, m)"
      by (auto simp: root_prepare_def result_simps)
    then show ?thesis
      using admit_Inr [OF admit] root \<open>rootId = Some (u # us)\<close> by (auto simp: root_admitted_def Let_def)
  qed
qed

lemma property_set [simp]:
  "property k (set_prop k' x v) = (if k = k' then x else property k v)"
  by (simp add: property_def)

interpretation root: runtime_policy "createCloudflareRuntimePolicy pf url read trusted pre"
    "root_admitted pf url read trusted pre" "root_conforms pf url"
  for pf url read trusted pre
proof unfold_locales
  show "root_admitted pf url read trusted pre r p m"
    if "prepare (createCloudflareRuntimePolicy pf url read trusted pre) r = Inr (p, m)" for r p m
    using that by (simp add: createCloudflareRuntimePolicy_def root_prepare_admits)
  show "root_conforms pf url p m resp'"
    if "validate (createCloudflareRuntimePolicy pf url read trusted pre) resp p m = Inr resp'" for resp p m resp'
    using that by (auto simp: createCloudflareRuntimePolicy_def root_validate_def root_conforms_def filter_allowed
        split: option.splits)
  show "root_conforms pf url p m (set_prop ''resolution'' x resp)" if "root_conforms pf url p m resp" for p m resp x
    using that by (simp add: root_conforms_def split: option.splits)
qed

text \<open>Narrowing keeps the call and only removes capabilities.\<close>

definition capabilities_of :: "json \<Rightarrow> jstring list" where
  "capabilities_of request = or_else [] (get_strings ''capabilities'' (property ''context'' request))"

lemma narrow_call: "property ''call'' (narrow_capabilities pp r) = property ''call'' r"
  by (simp add: narrow_capabilities_def split: option.splits)

lemma narrow_capabilities_of:
  "capabilities_of (narrow_capabilities pp r) =
     (case Option.bind pp (get_strings ''capabilities'') of None \<Rightarrow> capabilities_of r
      | Some cs \<Rightarrow> filter (\<lambda>c. c \<in> set cs) (capabilities_of r))"
  by (simp add: narrow_capabilities_def capabilities_of_def get_strings_def split: option.splits)

lemma loaded_policy_valid:
  "loadRootPolicy pf url read rootId pre = Inr policy \<Longrightarrow> isRootRuntimePolicy policy"
  by (auto simp: loadRootPolicy_def result_simps resolved_policy_valid split: option.splits if_splits)

section \<open>Properties\<close>

text \<open>
  C31: an invocation under the server's root policy that returns ran the call it was given, and either no
  caller root was named and the plugin is a trusted built-in, or the root's policy was loaded and is
  valid, does not deny the plugin or make it conditional, allows it explicitly unless it is trusted; the
  invoker saw only the requested capabilities that the policy lists, and every effect in the response is
  allowed by the policy. A request that the policy does not admit fails the same way whatever the
  resolvers and invokers are: none of them is run.
\<close>

theorem plugin_runs_within_root_policy:
  "(\<forall>response. invoke resolvers (Some (createCloudflareRuntimePolicy pf url read trusted pre)) request = Inr response \<longrightarrow>
      (\<exists>prepared raw. run_prepared resolvers prepared = Inr raw \<and>
         property ''call'' prepared = property ''call'' request \<and>
         (callerRootId request \<in> {Inr None, Inr (Some [])} \<and> plugin_id request \<in> set trusted \<and> prepared = request \<or>
          (\<exists>rootId policy. callerRootId request = Inr (Some rootId) \<and>
             loadRootPolicy pf url read (or_else rootId pre) pre = Inr policy \<and> isRootRuntimePolicy policy \<and>
             (let pluginPolicy = policy_of_plugin policy (plugin_id request); rule = invoke_rule pluginPolicy in
                rule \<notin> {Some (js ''deny''), Some (js ''conditional'')} \<and>
                (plugin_id request \<in> set trusted \<or> rule = Some (js ''allow'')) \<and>
                capabilities_of prepared =
                  (case Option.bind pluginPolicy (get_strings ''capabilities'') of
                     None \<Rightarrow> capabilities_of request
                   | Some cs \<Rightarrow> filter (\<lambda>c. c \<in> set cs) (capabilities_of request))) \<and>
             effects_allowed pf url policy
               (max_grants (plugin_policy policy (get_string ''pluginId'' (property ''call'' request))))
               (property ''result'' response))))) \<and>
   (\<forall>e. root_prepare pf url read trusted pre request = Inl e \<longrightarrow>
      (\<exists>e'. \<forall>rs. invoke rs (Some (createCloudflareRuntimePolicy pf url read trusted pre)) request = Inl e'))"
  (is "(\<forall>response. ?run response \<longrightarrow> ?within response) \<and> ?blocked")
proof (intro conjI allI impI)
  fix response
  assume "?run response"
  from root.invoke_enforced [OF this] obtain p m raw where run: "run_prepared resolvers p = Inr raw"
      and admitted: "root_admitted pf url read trusted pre request p m" and conforms: "root_conforms pf url p m response"
    by blast
  show "?within response"
  proof (cases m)
    case None
    with admitted run show ?thesis by (auto simp: root_admitted_def)
  next
    case (Some policy)
    with admitted have p: "p = narrow_capabilities (policy_of_plugin policy (plugin_id request)) request"
      by (simp add: root_admitted_def)
    from Some admitted obtain rootId where load: "callerRootId request = Inr (Some rootId)"
        "loadRootPolicy pf url read (or_else rootId pre) pre = Inr policy"
      by (auto simp: root_admitted_def)
    from Some admitted have rule: "let rule = invoke_rule (policy_of_plugin policy (plugin_id request)) in
        rule \<notin> {Some (js ''deny''), Some (js ''conditional'')} \<and> (plugin_id request \<in> set trusted \<or> rule = Some (js ''allow''))"
      by (simp add: root_admitted_def)
    show ?thesis
      using conforms load rule Some loaded_policy_valid [OF load(2)]
      by (intro exI [of _ p] exI [of _ raw] conjI run disjI2 exI [of _ rootId] exI [of _ policy])
        (simp_all add: p narrow_call narrow_capabilities_of root_conforms_def Let_def)
  qed
next
  fix e
  assume "root_prepare pf url read trusted pre request = Inl e"
  then show "\<exists>e'. \<forall>rs. invoke rs (Some (createCloudflareRuntimePolicy pf url read trusted pre)) request = Inl e'"
    by (intro root.refused_before_running) (simp add: createCloudflareRuntimePolicy_def)
qed

text \<open>A root that allows one plugin the capability \<^verbatim>\<open>read\<close>, and a call that asks for two.\<close>

definition demo_root :: json where
  "demo_root = object [(''version'', JNum 1), (''nullplugs'', object [(''p'',
     object [(''invoke'', JStr (js ''allow'')), (''capabilities'', JArr [JStr (js ''read'')])])])]"

definition demo_reader :: root_reader where
  "demo_reader rootId pre = Inr (Some (Some (object [(''runtimePolicy'', demo_root)])))"

definition demo_invocation :: json where
  "demo_invocation = object
     [(''call'', object [(''pluginId'', JStr (js ''p'')), (''caller'', object [(''dropId'', JStr (js ''d''))])]),
      (''context'', object [(''capabilities'', JArr [JStr (js ''read''), JStr (js ''write'')])])]"

definition demo_resolver :: NullplugRuntimeResolver where
  "demo_resolver request = Inr (Some (Invoker (\<lambda>_. Inr (Some demo_response))))"

lemma demo_invocation_parts:
  "callerRootId demo_invocation = Inr (Some (js ''d''))" "plugin_id demo_invocation = js ''p''"
  "capabilities_of demo_invocation = [js ''read'', js ''write'']"
  by (simp_all add: callerRootId_def demo_invocation_def property_def get_string_def plugin_id_def Let_def
      capabilities_of_def get_strings_def strings_of_def map_filter_simps)

lemma demo_root_valid: "isRootRuntimePolicy demo_root"
proof -
  have "isNullplugPermissionPolicy (object [(''invoke'', JStr (js ''allow'')), (''capabilities'', JArr [JStr (js ''read'')])])"
    by (simp add: isNullplugPermissionPolicy_def guard_iffs json_enum_def isStringArray_def json_array_def)
  then show ?thesis
    by (simp add: isRootRuntimePolicy_def demo_root_def guard_iffs) (simp add: object_def entries_def)
qed

lemma demo_load:
  obtains policy where "loadRootPolicy example_platform (\<lambda>_. None) demo_reader rootId None = Inr policy"
    "policy_of_plugin policy (js ''p'') =
       Some (object [(''invoke'', JStr (js ''allow'')), (''capabilities'', JArr [JStr (js ''read'')])])"
proof
  let ?metadata = "Some (object [(''runtimePolicy'', demo_root)])"
  let ?policy = "resolveRootRuntimePolicy example_platform (\<lambda>_. None) ?metadata DEFAULT_RUNTIME_NETWORK_ALLOWLIST"
  show "loadRootPolicy example_platform (\<lambda>_. None) demo_reader rootId None = Inr ?policy"
    by (simp add: loadRootPolicy_def demo_reader_def opt_all_def demo_root_valid)
  have "get ''nullplugs'' ?policy = get ''nullplugs'' demo_root"
    by (simp add: resolveRootRuntimePolicy_def normalizeRootRuntimePolicyCandidate_def demo_root_valid Let_def
        split: option.splits)
  then show "policy_of_plugin ?policy (js ''p'') =
      Some (object [(''invoke'', JStr (js ''allow'')), (''capabilities'', JArr [JStr (js ''read'')])])"
    by (simp add: policy_of_plugin_def demo_root_def) (simp add: object_def entries_def)
qed

lemma demo_prepare:
  "\<exists>p m. root_prepare example_platform (\<lambda>_. None) demo_reader [] None demo_invocation = Inr (p, m)"
proof (rule demo_load [of "js ''d''"])
  fix policy
  assume p: "loadRootPolicy example_platform (\<lambda>_. None) demo_reader (js ''d'') None = Inr policy"
    "policy_of_plugin policy (js ''p'') =
       Some (object [(''invoke'', JStr (js ''allow'')), (''capabilities'', JArr [JStr (js ''read'')])])"
  have "\<exists>p m. admit (plugin_id demo_invocation \<in> set []) policy demo_invocation = Inr (p, m)"
    by (simp add: admit_def demo_invocation_parts p invoke_rule_def get_string_def)
  moreover have "\<exists>u us. js ''d'' = u # us" by (simp add: js_def)
  ultimately show ?thesis using p(1) by (auto simp: root_prepare_def demo_invocation_parts)
qed

theorem plugin_runs_within_root_policy_witness:
  "\<exists>response prepared raw. invoke [demo_resolver] (Some (createCloudflareRuntimePolicy example_platform (\<lambda>_. None) demo_reader [] None))
     demo_invocation = Inr response \<and> run_prepared [demo_resolver] prepared = Inr raw \<and> capabilities_of prepared = [js ''read'']"
proof -
  from demo_prepare obtain p m where
      "root_prepare example_platform (\<lambda>_. None) demo_reader [] None demo_invocation = Inr (p, m)" by blast
  then obtain response where response: "invoke [demo_resolver]
      (Some (createCloudflareRuntimePolicy example_platform (\<lambda>_. None) demo_reader [] None)) demo_invocation = Inr response"
    using demo_response_valid
    by (simp add: invoke_def createCloudflareRuntimePolicy_def boundary_def run_prepared_def demo_resolver_def
        call_invoker_def normalizeNullplugReturn_def demo_response_def object_def root_validate_def)
  with plugin_runs_within_root_policy [of "[demo_resolver]" example_platform "\<lambda>_. None" demo_reader "[]" None demo_invocation]
  obtain prepared raw policy where run: "run_prepared [demo_resolver] prepared = Inr raw"
      and load: "loadRootPolicy example_platform (\<lambda>_. None) demo_reader (js ''d'') None = Inr policy"
      and narrowed: "capabilities_of prepared =
         (case Option.bind (policy_of_plugin policy (js ''p'')) (get_strings ''capabilities'') of
            None \<Rightarrow> capabilities_of demo_invocation
          | Some cs \<Rightarrow> filter (\<lambda>c. c \<in> set cs) (capabilities_of demo_invocation))"
    by (auto simp: demo_invocation_parts Let_def)
  obtain policy' where "loadRootPolicy example_platform (\<lambda>_. None) demo_reader (js ''d'') None = Inr policy'"
      and allowed: "policy_of_plugin policy' (js ''p'') =
        Some (object [(''invoke'', JStr (js ''allow'')), (''capabilities'', JArr [JStr (js ''read'')])])"
    by (rule demo_load)
  with load have "policy' = policy" by simp
  with narrowed allowed have "capabilities_of prepared = [js ''read'']"
    by (simp add: demo_invocation_parts get_strings_def strings_of_def map_filter_simps)
  with response run show ?thesis by blast
qed

end
