(* ===== verification/Nullplug_Registry.thy ===== *)
theory Nullplug_Registry
  imports Nullplug_Runtime
begin

text \<open>
  Remote plugins: the registry of manifests (\<^verbatim>\<open>shared/nullplug/registry.ts\<close>, \<^verbatim>\<open>registry-schemas.ts\<close>), their
  registration (\<^verbatim>\<open>functions/api/_lib/nullplug/registry-controller.ts\<close>) and the server's resolver chain
  (\<^verbatim>\<open>functions/api/_lib/nullplug/runtime.ts\<close>).

  The object store is a map from keys to texts. \<^verbatim>\<open>JSON.parse\<close>, the URL parser, \<^verbatim>\<open>fetch\<close> and the keyed digest are
  parameters, as is the built-in \<^verbatim>\<open>nd\<close> invoker, which reads and decrypts another drop.
\<close>

section \<open>Schemas\<close>

definition NULLPLUG_INVOKE_CONTENT_TYPE :: jstring where
  "NULLPLUG_INVOKE_CONTENT_TYPE = js ''application/vnd.nulldown.nullplug.invoke+json;version=1''"

definition is_id_unit :: "code_unit \<Rightarrow> bool" where
  "is_id_unit u \<longleftrightarrow> u \<in> set (js ''abcdefghijklmnopqrstuvwxyz0123456789._:-'')"

definition is_plugin_id :: "jstring \<Rightarrow> bool" where
  "is_plugin_id s \<longleftrightarrow> s \<noteq> [] \<and> list_all is_id_unit s"

definition NullplugPermissionSchema :: "json \<Rightarrow> bool" where
  "NullplugPermissionSchema v \<longleftrightarrow>
     (req ''kind'' (json_literal ''network'') v \<and> req ''hosts'' (json_array json_string) v) \<or>
     (req ''kind'' (json_literal ''drop.read'') v \<and> req ''scope'' (json_enum [''caller'', ''explicit'']) v) \<or>
     req ''kind'' (json_enum [''drop.diff.propose'', ''stream.create'', ''null.call'', ''policy.evaluate'']) v"

definition RemoteNullplugManifestSchema :: "json \<Rightarrow> bool" where
  "RemoteNullplugManifestSchema v \<longleftrightarrow>
     req ''id'' (\<lambda>x. opt_all is_plugin_id (string_value x) \<and> json_string x) v \<and> req ''version'' json_string v \<and>
     req ''endpoint'' json_string v \<and> req ''contentType'' (\<lambda>x. x = JStr NULLPLUG_INVOKE_CONTENT_TYPE) v \<and>
     req ''inputSchema'' is_object v \<and> req ''outputSchema'' is_object v \<and>
     req ''permissions'' (json_array NullplugPermissionSchema) v \<and> opt ''signature'' json_string v \<and>
     opt ''author'' json_string v \<and> opt ''repository'' json_string v \<and> opt ''description'' json_string v"

definition RemoteNullplugRegistryRecordSchema :: "json \<Rightarrow> bool" where
  "RemoteNullplugRegistryRecordSchema v \<longleftrightarrow>
     req ''version'' (\<lambda>x. x = JNum 1) v \<and> req ''manifest'' RemoteNullplugManifestSchema v \<and>
     req ''status'' (json_enum [''active'', ''disabled'']) v \<and> req ''createdAt'' json_number v \<and>
     req ''updatedAt'' json_number v \<and> opt ''registeredBy'' json_string v"

section \<open>Keys\<close>

definition sanitizeNullplugRegistryKeyPart :: "jstring \<Rightarrow> jstring" where
  "sanitizeNullplugRegistryKeyPart s = map (\<lambda>u. if is_key_char u then u else 95) s"

definition NULLPLUG_REGISTRY_MANIFEST_KEY_PREFIX :: jstring where
  "NULLPLUG_REGISTRY_MANIFEST_KEY_PREFIX = js ''__nullplug_registry__/manifests/''"

definition NULLPLUG_REGISTRY_LATEST_KEY_PREFIX :: jstring where
  "NULLPLUG_REGISTRY_LATEST_KEY_PREFIX = js ''__nullplug_registry__/latest/''"

definition remoteNullplugManifestKey :: "jstring \<Rightarrow> jstring \<Rightarrow> jstring" where
  "remoteNullplugManifestKey i v =
     NULLPLUG_REGISTRY_MANIFEST_KEY_PREFIX @ sanitizeNullplugRegistryKeyPart i @ js ''/'' @
     sanitizeNullplugRegistryKeyPart v @ js ''.json''"

definition remoteNullplugLatestKey :: "jstring \<Rightarrow> jstring" where
  "remoteNullplugLatestKey i =
     NULLPLUG_REGISTRY_LATEST_KEY_PREFIX @ sanitizeNullplugRegistryKeyPart i @ js ''.json''"

section \<open>Hosts and signatures\<close>

definition field :: "string \<Rightarrow> json \<Rightarrow> jstring" where
  "field k v = or_else [] (get_string k v)"

definition endpointHost :: "platform \<Rightarrow> url_parser \<Rightarrow> jstring \<Rightarrow> jstring option" where
  "endpointHost pf url endpoint =
     (case url endpoint of
        None \<Rightarrow> None
      | Some (protocol, hostname) \<Rightarrow> if protocol = js ''https:'' then Some (to_lower_case pf hostname) else None)"

definition endpoint_allowed :: "platform \<Rightarrow> url_parser \<Rightarrow> jstring list \<Rightarrow> jstring \<Rightarrow> bool" where
  "endpoint_allowed pf url allowedHosts endpoint \<longleftrightarrow>
     (case endpointHost pf url endpoint of None \<Rightarrow> False | Some host \<Rightarrow> host \<noteq> [] \<and> host \<in> set allowedHosts)"

definition isRemoteNullplugManifestAllowed :: "platform \<Rightarrow> url_parser \<Rightarrow> json \<Rightarrow> jstring list \<Rightarrow> bool" where
  "isRemoteNullplugManifestAllowed pf url manifest allowedHosts \<longleftrightarrow>
     endpoint_allowed pf url allowedHosts (field ''endpoint'' manifest) \<and>
     list_all (\<lambda>permission. has_string ''kind'' ''network'' permission \<longrightarrow>
         list_all (\<lambda>host. to_lower_case pf host \<in> set allowedHosts) (or_else [] (get_strings ''hosts'' permission)))
       (or_else [] (get_array ''permissions'' manifest))"

definition serializeRemoteNullplugManifestForSignature :: "platform \<Rightarrow> json \<Rightarrow> jstring" where
  "serializeRemoteNullplugManifestForSignature pf manifest =
     serializeCanonicalJson (number_text pf) (delete_prop ''signature'' manifest)"

section \<open>Reading and writing records\<close>

type_synonym object_store = "jstring \<rightharpoonup> jstring"
type_synonym json_parser = "jstring \<Rightarrow> json option"

definition read_record :: "json_parser \<Rightarrow> object_store \<Rightarrow> jstring \<Rightarrow> json option" where
  "read_record parse store key =
     Option.bind (store key) (\<lambda>body. Option.bind (parse body) (\<lambda>parsed.
       if RemoteNullplugRegistryRecordSchema parsed then Some parsed else None))"

definition readRemoteNullplugManifest :: "json_parser \<Rightarrow> object_store \<Rightarrow> jstring \<Rightarrow> jstring \<Rightarrow> json option" where
  "readRemoteNullplugManifest parse store i v = read_record parse store (remoteNullplugManifestKey i v)"

definition readLatestRemoteNullplugManifest :: "json_parser \<Rightarrow> object_store \<Rightarrow> jstring \<Rightarrow> json option" where
  "readLatestRemoteNullplugManifest parse store i = read_record parse store (remoteNullplugLatestKey i)"

definition writeRemoteNullplugManifest ::
    "platform \<Rightarrow> url_parser \<Rightarrow> object_store \<Rightarrow> json \<Rightarrow> jstring list \<Rightarrow> string + object_store" where
  "writeRemoteNullplugManifest pf url store record allowedHosts =
     (if \<not> RemoteNullplugRegistryRecordSchema record then Inl ''Invalid remote nullplug registry record.''
      else if \<not> isRemoteNullplugManifestAllowed pf url (property ''manifest'' record) allowedHosts
      then Inl ''Remote nullplug manifest is not allowed by registry host policy.''
      else let body = stringify (number_text pf) record; manifest = property ''manifest'' record in
        Inr (store(remoteNullplugManifestKey (field ''id'' manifest) (field ''version'' manifest) \<mapsto> body,
                   remoteNullplugLatestKey (field ''id'' manifest) \<mapsto> body)))"

section \<open>Registration\<close>

definition split_units :: "(code_unit \<Rightarrow> bool) \<Rightarrow> jstring \<Rightarrow> jstring list" where
  "split_units p s = foldr (\<lambda>u parts. if p u then [] # parts else (u # hd parts) # tl parts) s [[]]"

definition parseAllowedHosts :: "platform \<Rightarrow> url_parser \<Rightarrow> jstring option \<Rightarrow> jstring list" where
  "parseAllowedHosts pf url value =
     normalizeAllowedHosts pf url
       (filter (\<lambda>s. s \<noteq> []) (map js_trim (split_units (\<lambda>u. u = 10 \<or> u = 44) (or_else [] value))))"

definition parseManifestBody :: "json_parser \<Rightarrow> jstring \<Rightarrow> json option" where
  "parseManifestBody parse rawBody =
     (case parse rawBody of
        None \<Rightarrow> None
      | Some parsed \<Rightarrow>
          if RemoteNullplugManifestSchema parsed then Some parsed
          else if req ''manifest'' RemoteNullplugManifestSchema parsed then get ''manifest'' parsed
          else None)"

definition toHex :: "byte list \<Rightarrow> jstring" where
  "toHex bytes = concat (map (\<lambda>b. [hex_digit (unat b div 16), hex_digit (unat b mod 16)]) bytes)"

definition NULLPLUG_MANIFEST_SIGNATURE_PREFIX :: jstring where
  "NULLPLUG_MANIFEST_SIGNATURE_PREFIX = js ''sha256=''"

definition signManifestPayload :: "(byte list \<Rightarrow> byte list \<Rightarrow> byte list) \<Rightarrow> jstring \<Rightarrow> jstring \<Rightarrow> jstring" where
  "signManifestPayload hmac secret payload = NULLPLUG_MANIFEST_SIGNATURE_PREFIX @ toHex (hmac (encodeText secret) (encodeText payload))"

definition verifyManifestSignature ::
    "platform \<Rightarrow> (byte list \<Rightarrow> byte list \<Rightarrow> byte list) \<Rightarrow> jstring \<Rightarrow> json \<Rightarrow> bool" where
  "verifyManifestSignature pf hmac secret manifest \<longleftrightarrow>
     (case get_string ''signature'' manifest of
        None \<Rightarrow> False
      | Some signature \<Rightarrow>
          starts_with ''sha256='' signature \<and>
          signature = signManifestPayload hmac secret (serializeRemoteNullplugManifestForSignature pf manifest))"

datatype registration = Refused nat string | Registered json object_store

text \<open>
  \<^verbatim>\<open>handlePost\<close> past the bucket check: the account the session names, the configured secret and hosts,
  the body of the request (within its size limit) and the clock.
\<close>

definition handlePost ::
    "platform \<Rightarrow> url_parser \<Rightarrow> json_parser \<Rightarrow> (byte list \<Rightarrow> byte list \<Rightarrow> byte list) \<Rightarrow> jstring option \<Rightarrow> jstring option \<Rightarrow>
     jstring option \<Rightarrow> object_store \<Rightarrow> jstring \<Rightarrow> int \<Rightarrow> registration" where
  "handlePost pf url parse hmac accountId secret hosts store rawBody now =
     (case accountId of
        None \<Rightarrow> Refused 401 ''unauthorized''
      | Some account \<Rightarrow>
          (case secret of
             None \<Rightarrow> Refused 503 ''signature_secret_missing''
           | Some key \<Rightarrow>
               if key = [] then Refused 503 ''signature_secret_missing''
               else let allowedHosts = parseAllowedHosts pf url hosts in
               (case parseManifestBody parse rawBody of
                  None \<Rightarrow> Refused 400 ''validation_failed''
                | Some manifest \<Rightarrow>
                    if \<not> verifyManifestSignature pf hmac key manifest then Refused 401 ''invalid_signature''
                    else if \<not> isRemoteNullplugManifestAllowed pf url manifest allowedHosts
                    then Refused 400 ''manifest_not_allowed''
                    else let record = object [(''version'', JNum 1), (''manifest'', manifest), (''status'', JStr (js ''active'')),
                           (''createdAt'', j_int now), (''updatedAt'', j_int now), (''registeredBy'', JStr account)] in
                      (case writeRemoteNullplugManifest pf url store record allowedHosts of
                         Inl e \<Rightarrow> Refused 500 e
                       | Inr store' \<Rightarrow> Registered record store'))))"

section \<open>The resolver chain\<close>

record http_response =
  ok :: bool
  status :: nat
  content_type :: "jstring option"
  content_length :: "rat option"
  body_text :: jstring

text \<open>\<open>fetch\<close> takes the endpoint and the body of the request; \<open>None\<close> is a rejected promise.\<close>

type_synonym fetcher = "jstring \<Rightarrow> jstring \<Rightarrow> http_response option"

definition REMOTE_NULLPLUG_RESPONSE_MAX_BYTES :: nat where
  "REMOTE_NULLPLUG_RESPONSE_MAX_BYTES = 1000000"

definition declared_capabilities :: "json \<Rightarrow> jstring list" where
  "declared_capabilities manifest =
     List.map_filter (get_string ''kind'') (or_else [] (get_array ''permissions'' manifest))"

definition remoteRequest :: "json \<Rightarrow> json \<Rightarrow> json" where
  "remoteRequest request record =
     (let manifest = property ''manifest'' record in
      set_prop ''context'' (set_prop ''capabilities''
          (JArr (map JStr (filter (\<lambda>c. c \<in> set (declared_capabilities manifest)) (capabilities_of request))))
          (property ''context'' request))
        (set_prop ''call'' (set_prop ''version'' (property ''version'' manifest) (property ''call'' request)) request))"

definition hasInvokeContentType :: "platform \<Rightarrow> jstring option \<Rightarrow> bool" where
  "hasInvokeContentType pf value =
     (case value of
        None \<Rightarrow> False
      | Some [] \<Rightarrow> False
      | Some s \<Rightarrow>
          (let parts = map js_trim (split_units (\<lambda>u. u = 59) (to_lower_case pf s)) in
           hd parts = js ''application/vnd.nulldown.nullplug.invoke+json'' \<and> js ''version=1'' \<in> set parts))"

definition remote_error :: "string \<Rightarrow> json \<Rightarrow> jstring \<Rightarrow> thrown + 'a" where
  "remote_error c manifest rest = raise c (js ''Remote nullplug '' @ field ''id'' manifest @ rest)"

definition invokeRemote :: "platform \<Rightarrow> json_parser \<Rightarrow> fetcher \<Rightarrow> json \<Rightarrow> NullplugRuntimeInvoker" where
  "invokeRemote pf parse fetch record request =
     (let manifest = property ''manifest'' record in
      case fetch (field ''endpoint'' manifest) (stringify (number_text pf) (remoteRequest request record)) of
        None \<Rightarrow> remote_error ''remote_unavailable'' manifest (js '' could not be reached.'')
      | Some response \<Rightarrow>
          if \<not> ok response
          then remote_error ''remote_failed'' manifest (js '' returned HTTP '' @ digits_nat (status response) @ js ''.'')
          else if \<not> hasInvokeContentType pf (content_type response)
          then remote_error ''remote_protocol_invalid'' manifest (js '' returned an unsupported content type.'')
          else if (case content_length response of None \<Rightarrow> False | Some n \<Rightarrow> n > of_nat REMOTE_NULLPLUG_RESPONSE_MAX_BYTES)
          then remote_error ''remote_result_too_large'' manifest (js '' response exceeded the size limit.'')
          else if length (encodeText (body_text response)) > REMOTE_NULLPLUG_RESPONSE_MAX_BYTES
          then remote_error ''remote_result_too_large'' manifest (js '' response exceeded the size limit.'')
          else (case parse (body_text response) of
                  None \<Rightarrow> remote_error ''remote_result_invalid'' manifest (js '' returned an invalid response.'')
                | Some parsed \<Rightarrow>
                    if isNullplugInvokeResponse parsed then Inr (Some parsed)
                    else remote_error ''remote_result_invalid'' manifest (js '' returned an invalid response.'')))"

definition readRemoteRecord :: "json_parser \<Rightarrow> object_store \<Rightarrow> json \<Rightarrow> json option" where
  "readRemoteRecord parse store request =
     (let i = plugin_id request; v = field ''version'' (property ''call'' request) in
      if v \<noteq> [] then readRemoteNullplugManifest parse store i v
      else readLatestRemoteNullplugManifest parse store i)"

definition builtInResolver :: "NullplugRuntimeInvoker \<Rightarrow> NullplugRuntimeResolver" where
  "builtInResolver nd request = Inr (if plugin_id request = js ''nd'' then Some (Invoker nd) else None)"

definition remoteResolver ::
    "platform \<Rightarrow> url_parser \<Rightarrow> json_parser \<Rightarrow> fetcher \<Rightarrow> object_store \<Rightarrow> jstring list \<Rightarrow> NullplugRuntimeResolver" where
  "remoteResolver pf url parse fetch store allowedHosts request =
     Inr (case readRemoteRecord parse store request of
            None \<Rightarrow> None
          | Some record \<Rightarrow>
              if \<not> has_string ''status'' ''active'' record \<or>
                 get_string ''contentType'' (property ''manifest'' record) \<noteq> Some NULLPLUG_INVOKE_CONTENT_TYPE \<or>
                 \<not> isRemoteNullplugManifestAllowed pf url (property ''manifest'' record) allowedHosts
              then None
              else Some (Invoker (invokeRemote pf parse fetch record)))"

definition createCloudflareNullplugRuntime ::
    "platform \<Rightarrow> url_parser \<Rightarrow> json_parser \<Rightarrow> fetcher \<Rightarrow> object_store \<Rightarrow> jstring option \<Rightarrow> NullplugRuntimeInvoker \<Rightarrow>
     NullplugRuntimeResolver list" where
  "createCloudflareNullplugRuntime pf url parse fetch store hosts nd =
     [builtInResolver nd, remoteResolver pf url parse fetch store (parseAllowedHosts pf url hosts)]"

section \<open>Keys do not clash\<close>

lemma key_part_no_slash: "47 \<notin> set (sanitizeNullplugRegistryKeyPart s)"
proof -
  have "\<not> is_key_char 47" by (simp add: is_key_char_def js_def)
  then show ?thesis by (auto simp: sanitizeNullplugRegistryKeyPart_def)
qed

lemma append_at_slash:
  "47 \<notin> set a \<Longrightarrow> 47 \<notin> set a' \<Longrightarrow> a @ 47 # b = a' @ 47 # b' \<longleftrightarrow> a = a' \<and> (b :: jstring) = b'"
proof (induction a arbitrary: a')
  case Nil
  then show ?case by (cases a') auto
next
  case (Cons x a)
  then show ?case by (cases a') auto
qed

lemma js_slash: "js ''/'' = [47]"
  by (simp add: js_def)

lemma manifest_key_eq_iff:
  "remoteNullplugManifestKey i v = remoteNullplugManifestKey i' v' \<longleftrightarrow>
     sanitizeNullplugRegistryKeyPart i = sanitizeNullplugRegistryKeyPart i' \<and>
     sanitizeNullplugRegistryKeyPart v = sanitizeNullplugRegistryKeyPart v'"
  by (simp add: remoteNullplugManifestKey_def js_slash append_at_slash key_part_no_slash)

lemma latest_key_eq_iff:
  "remoteNullplugLatestKey i = remoteNullplugLatestKey i' \<longleftrightarrow>
     sanitizeNullplugRegistryKeyPart i = sanitizeNullplugRegistryKeyPart i'"
  by (simp add: remoteNullplugLatestKey_def)

lemma manifest_key_neq_latest [simp]:
  "remoteNullplugManifestKey i v \<noteq> remoteNullplugLatestKey i'" "remoteNullplugLatestKey i' \<noteq> remoteNullplugManifestKey i v"
  by (simp_all add: remoteNullplugManifestKey_def remoteNullplugLatestKey_def NULLPLUG_REGISTRY_MANIFEST_KEY_PREFIX_def
      NULLPLUG_REGISTRY_LATEST_KEY_PREFIX_def js_def)

lemma plugin_id_unchanged: "is_plugin_id i \<Longrightarrow> sanitizeNullplugRegistryKeyPart i = i"
proof -
  have "is_key_char u" if "is_id_unit u" for u
    using that unfolding is_id_unit_def is_key_char_def by (auto simp: js_def)
  then show "is_plugin_id i \<Longrightarrow> sanitizeNullplugRegistryKeyPart i = i"
    by (auto simp: is_plugin_id_def sanitizeNullplugRegistryKeyPart_def list_all_iff intro: map_idI)
qed

section \<open>Reads after a write\<close>

lemma manifest_id_valid: "RemoteNullplugManifestSchema m \<Longrightarrow> is_plugin_id (field ''id'' m)"
  by (auto simp: RemoteNullplugManifestSchema_def req_iff field_def get_string_def opt_all_def
      elim: json_string.elims)

lemma write_Inr:
  assumes "writeRemoteNullplugManifest pf url store record hosts = Inr store'"
  shows "RemoteNullplugRegistryRecordSchema record" "isRemoteNullplugManifestAllowed pf url (property ''manifest'' record) hosts"
    "store' = store(remoteNullplugManifestKey (field ''id'' (property ''manifest'' record))
        (field ''version'' (property ''manifest'' record)) \<mapsto> stringify (number_text pf) record,
      remoteNullplugLatestKey (field ''id'' (property ''manifest'' record)) \<mapsto> stringify (number_text pf) record)"
  using assms by (simp_all add: writeRemoteNullplugManifest_def Let_def split: if_splits)

lemma record_manifest_valid:
  "RemoteNullplugRegistryRecordSchema r \<Longrightarrow> RemoteNullplugManifestSchema (property ''manifest'' r)"
  by (auto simp: RemoteNullplugRegistryRecordSchema_def req_iff property_def)

lemma handlePost_Registered:
  assumes "handlePost pf url parse hmac account secret hosts store raw now = Registered record store'"
  obtains key manifest who where "secret = Some key" "key \<noteq> []" "account = Some who" "parseManifestBody parse raw = Some manifest"
    "verifyManifestSignature pf hmac key manifest"
    "isRemoteNullplugManifestAllowed pf url manifest (parseAllowedHosts pf url hosts)"
    "property ''manifest'' record = manifest" "get_string ''registeredBy'' record = Some who"
    "has_string ''status'' ''active'' record"
    "writeRemoteNullplugManifest pf url store record (parseAllowedHosts pf url hosts) = Inr store'"
  using assms
  by (auto simp: handlePost_def Let_def property_def has_string_iff get_string_def split: option.splits if_splits sum.splits)

section \<open>The remote resolver\<close>

lemma invokeRemote_endpoint:
  assumes "fetch (field ''endpoint'' (property ''manifest'' record)) = fetch' (field ''endpoint'' (property ''manifest'' record))"
  shows "invokeRemote pf parse fetch record = invokeRemote pf parse fetch' record"
  using assms by (simp add: invokeRemote_def fun_eq_iff Let_def)

lemma remoteResolver_cong:
  assumes "\<And>endpoint. endpoint_allowed pf url hosts endpoint \<Longrightarrow> fetch endpoint = fetch' endpoint"
  shows "remoteResolver pf url parse fetch store hosts = remoteResolver pf url parse fetch' store hosts"
proof (rule ext)
  fix request
  show "remoteResolver pf url parse fetch store hosts request = remoteResolver pf url parse fetch' store hosts request"
    by (auto simp: remoteResolver_def isRemoteNullplugManifestAllowed_def split: option.splits
        intro!: invokeRemote_endpoint assms)
qed

lemma remote_request_capabilities:
  "capabilities_of (remoteRequest request record) =
     filter (\<lambda>c. c \<in> set (declared_capabilities (property ''manifest'' record))) (capabilities_of request)"
  by (simp add: remoteRequest_def capabilities_of_def Let_def get_strings_def)

lemma run_prepared_chain:
  assumes "run_prepared (createCloudflareNullplugRuntime pf url parse fetch store hosts nd) p = Inr raw" "plugin_id p \<noteq> js ''nd''"
  obtains entry where "readRemoteRecord parse store p = Some entry" "has_string ''status'' ''active'' entry"
    "isRemoteNullplugManifestAllowed pf url (property ''manifest'' entry) (parseAllowedHosts pf url hosts)"
    "\<exists>v. invokeRemote pf parse fetch entry p = Inr v"
proof -
  let ?hosts = "parseAllowedHosts pf url hosts"
  from assms obtain x where x: "remoteResolver pf url parse fetch store ?hosts p = Inr (Some x)"
      "run_prepared [remoteResolver pf url parse fetch store ?hosts] p = Inr raw"
    by (auto simp: run_prepared_def createCloudflareNullplugRuntime_def builtInResolver_def boundary_def
        result_simps split: sum.splits option.splits thrown.splits)
  then obtain entry where found: "readRemoteRecord parse store p = Some entry" "has_string ''status'' ''active'' entry"
      "isRemoteNullplugManifestAllowed pf url (property ''manifest'' entry) ?hosts"
      "x = Invoker (invokeRemote pf parse fetch entry)"
    by (auto simp: remoteResolver_def split: option.splits if_splits)
  moreover have "\<exists>v. invokeRemote pf parse fetch entry p = Inr v"
    using x found by (auto simp: run_prepared_def boundary_def call_invoker_def result_simps
        split: sum.splits thrown.splits if_splits)
  ultimately show thesis by (intro that)
qed

lemma invokeRemote_Inr:
  assumes "invokeRemote pf parse fetch entry request = Inr v"
  shows "\<exists>response parsed. fetch (field ''endpoint'' (property ''manifest'' entry))
      (stringify (number_text pf) (remoteRequest request entry)) = Some response \<and> ok response \<and>
    length (encodeText (body_text response)) \<le> REMOTE_NULLPLUG_RESPONSE_MAX_BYTES \<and>
    parse (body_text response) = Some parsed \<and> isNullplugInvokeResponse parsed \<and> v = Some parsed"
  using assms by (auto simp: invokeRemote_def Let_def remote_error_def split: option.splits if_splits)

section \<open>Examples\<close>

text \<open>One allowed host \<^verbatim>\<open>h\<close>, a signed manifest for it, and a store that parses back what was written.\<close>

definition demo_url :: url_parser where
  "demo_url s = Some (js ''https:'', js ''h'')"

definition demo_manifest :: json where
  "demo_manifest = object [(''id'', JStr (js ''p'')), (''version'', JStr (js ''1'')), (''endpoint'', JStr (js ''https://h'')),
     (''contentType'', JStr NULLPLUG_INVOKE_CONTENT_TYPE), (''inputSchema'', object []), (''outputSchema'', object []),
     (''permissions'', JArr []), (''signature'', JStr (js ''sha256=''))]"

definition demo_entry :: json where
  "demo_entry = object [(''version'', JNum 1), (''manifest'', demo_manifest), (''status'', JStr (js ''active'')),
     (''createdAt'', j_int 7), (''updatedAt'', j_int 7), (''registeredBy'', JStr (js ''a''))]"

definition demo_parse :: json_parser where
  "demo_parse s = (if s = [] then Some demo_manifest else Some demo_entry)"

lemma demo_manifest_valid: "RemoteNullplugManifestSchema demo_manifest"
proof -
  have "is_plugin_id (js ''p'')" by (simp add: is_plugin_id_def is_id_unit_def js_def)
  then show ?thesis
    by (simp add: RemoteNullplugManifestSchema_def demo_manifest_def guard_iffs json_array_def opt_all_def)
qed

lemma demo_entry_valid: "RemoteNullplugRegistryRecordSchema demo_entry"
  by (simp add: RemoteNullplugRegistryRecordSchema_def demo_entry_def guard_iffs json_enum_def demo_manifest_valid j_int_def)

lemma demo_hosts: "parseAllowedHosts example_platform demo_url (Some (js ''h'')) = [js ''h'']"
proof -
  have "split_units (\<lambda>u. u = 10 \<or> u = 44) (js ''h'') = [js ''h'']" by (simp add: split_units_def js_def)
  moreover have "js_trim (js ''h'') = js ''h''" by (simp add: js_trim_def js_def js_whitespace_def)
  moreover have "to_lower_case example_platform (js ''h'') = js ''h''" by (simp add: example_platform_def js_def)
  moreover have "HOSTNAME_PATTERN (js ''h'')" by (simp add: HOSTNAME_PATTERN_def is_hostname_unit_def js_def)
  moreover have "js ''h'' \<noteq> []" by (simp add: js_def)
  ultimately show ?thesis
    by (simp add: parseAllowedHosts_def normalizeAllowedHosts_def normalizeAllowedHostEntry_def demo_url_def Let_def
        nonempty_host_def starts_with_def)
qed

lemma demo_allowed: "isRemoteNullplugManifestAllowed example_platform demo_url demo_manifest [js ''h'']"
  by (simp add: isRemoteNullplugManifestAllowed_def endpoint_allowed_def endpointHost_def demo_url_def example_platform_def
      demo_manifest_def get_array_def js_def)

lemma demo_signed: "verifyManifestSignature example_platform (\<lambda>_ _. []) (js ''k'') demo_manifest"
  by (simp add: verifyManifestSignature_def demo_manifest_def get_string_def starts_with_def signManifestPayload_def
      NULLPLUG_MANIFEST_SIGNATURE_PREFIX_def toHex_def)

lemma demo_stringify: "stringify num (JObj kvs) \<noteq> []"
  by simp

lemma demo_registration:
  "\<exists>store'. handlePost example_platform demo_url demo_parse (\<lambda>_ _. []) (Some (js ''a'')) (Some (js ''k'')) (Some (js ''h''))
     Map.empty [] 7 = Registered demo_entry store'"
proof -
  have "js ''k'' \<noteq> []" by (simp add: js_def)
  moreover have "parseManifestBody demo_parse [] = Some demo_manifest"
    by (simp add: parseManifestBody_def demo_parse_def demo_manifest_valid)
  moreover have "property ''manifest'' demo_entry = demo_manifest" by (simp add: demo_entry_def property_def)
  then have "\<exists>store'. writeRemoteNullplugManifest example_platform demo_url Map.empty demo_entry [js ''h''] = Inr store'"
    by (simp add: writeRemoteNullplugManifest_def demo_entry_valid demo_allowed Let_def)
  ultimately show ?thesis
    by (auto simp: handlePost_def demo_signed demo_allowed demo_hosts Let_def demo_entry_def [symmetric])
qed

section \<open>Properties\<close>

text \<open>
  C36: a registration that is answered with success had a session, a manifest signed with the configured
  secret, and an endpoint and network hosts within the allowlist. Afterwards the record is read back by
  its version and as the latest one, and nothing changes for any other plugin. Within the plugin, the
  record is also what every version reads back whose key characters agree after sanitizing, so two
  versions such as \<^verbatim>\<open>1/0\<close> and \<^verbatim>\<open>1_0\<close> replace each other; all other versions keep their records.
\<close>

theorem registered_manifest_readable:
  assumes "handlePost pf url parse hmac account secret hosts store raw now = Registered entry store'"
    and "parse (stringify (number_text pf) entry) = Some entry"
    and "m = property ''manifest'' entry" "i = field ''id'' m" "v = field ''version'' m"
  shows "account \<noteq> None \<and> (\<exists>key. secret = Some key \<and> verifyManifestSignature pf hmac key m) \<and>
    isRemoteNullplugManifestAllowed pf url m (parseAllowedHosts pf url hosts) \<and>
    readLatestRemoteNullplugManifest parse store' i = Some entry \<and>
    (\<forall>v'. readRemoteNullplugManifest parse store' i v' =
       (if sanitizeNullplugRegistryKeyPart v' = sanitizeNullplugRegistryKeyPart v then Some entry
        else readRemoteNullplugManifest parse store i v')) \<and>
    (\<forall>i'. is_plugin_id i' \<and> i' \<noteq> i \<longrightarrow>
       readLatestRemoteNullplugManifest parse store' i' = readLatestRemoteNullplugManifest parse store i' \<and>
       (\<forall>v'. readRemoteNullplugManifest parse store' i' v' = readRemoteNullplugManifest parse store i' v'))"
proof -
  from handlePost_Registered [OF assms(1)] have reg: "account \<noteq> None"
      "\<exists>key. secret = Some key \<and> verifyManifestSignature pf hmac key m"
      "isRemoteNullplugManifestAllowed pf url m (parseAllowedHosts pf url hosts)"
      "writeRemoteNullplugManifest pf url store entry (parseAllowedHosts pf url hosts) = Inr store'"
    unfolding assms(3) by blast+
  note written = write_Inr [OF reg(4)]
  have i: "is_plugin_id i"
    unfolding assms(3,4) by (rule manifest_id_valid [OF record_manifest_valid [OF written(1)]])
  have stored: "read_record parse store' k =
      (if k = remoteNullplugLatestKey i \<or> k = remoteNullplugManifestKey i v then Some entry
       else read_record parse store k)" for k
    using assms(2) written(1) by (simp add: read_record_def written(3) assms(3-5))
  show ?thesis
    using reg(1-3) i
    by (simp add: readLatestRemoteNullplugManifest_def readRemoteNullplugManifest_def stored manifest_key_eq_iff
        latest_key_eq_iff plugin_id_unchanged)
qed

theorem registered_manifest_readable_witness:
  "\<exists>store'. readLatestRemoteNullplugManifest demo_parse store' (js ''p'') = Some demo_entry \<and>
     readRemoteNullplugManifest demo_parse store' (js ''p'') (js ''1'') = Some demo_entry"
proof -
  from demo_registration obtain store' where registered:
    "handlePost example_platform demo_url demo_parse (\<lambda>_ _. []) (Some (js ''a'')) (Some (js ''k'')) (Some (js ''h''))
       Map.empty [] 7 = Registered demo_entry store'" by blast
  have parsed: "demo_parse (stringify (number_text example_platform) demo_entry) = Some demo_entry"
    by (simp add: demo_parse_def demo_entry_def object_def demo_stringify)
  have parts: "demo_manifest = property ''manifest'' demo_entry"
    by (simp add: demo_entry_def property_def)
  have names: "js ''p'' = field ''id'' demo_manifest" "js ''1'' = field ''version'' demo_manifest"
    by (simp_all add: field_def demo_manifest_def get_string_def)
  show ?thesis
    using registered_manifest_readable [OF registered parsed parts names] by auto
qed



end
