(* ===== verification/Priority_Queue.thy ===== *)
theory Priority_Queue
  imports Prelude "HOL-Library.Multiset"
begin

text \<open>
  The bounded max-priority queue of the editor, \<^verbatim>\<open>shared/nulledit/priority-queue.ts\<close>: a binary heap in an
  array. The comparator is an argument; \<open>truthy\<close> says which items JavaScript takes for true, which
  \<^verbatim>\<open>trim\<close> asks of an evicted item before it reports it.
\<close>

named_theorems heap_simps \<open>positions in the heap\<close>

section \<open>The queue\<close>

record 'a MaxPriorityQueue =
  items :: "'a list"
  maxSize :: int

type_synonym 'a compare_fn = "'a \<Rightarrow> 'a \<Rightarrow> int"

definition new_queue :: "int \<Rightarrow> 'a MaxPriorityQueue" where
  "new_queue size_cap = \<lparr>items = [], maxSize = max 1 size_cap\<rparr>"

definition queue_size :: "'a MaxPriorityQueue \<Rightarrow> nat" where
  "queue_size q = length (items q)"

definition peek :: "'a MaxPriorityQueue \<Rightarrow> 'a option" where
  "peek q = (case items q of [] \<Rightarrow> None | x # xs \<Rightarrow> Some x)"

definition toArray :: "'a MaxPriorityQueue \<Rightarrow> 'a list" where
  "toArray q = items q"

definition parentIndex :: "nat \<Rightarrow> nat" where
  "parentIndex i = (i - 1) div 2"

definition leftIndex :: "nat \<Rightarrow> nat" where
  "leftIndex i = i * 2 + 1"

definition rightIndex :: "nat \<Rightarrow> nat" where
  "rightIndex i = i * 2 + 2"

definition swap :: "nat \<Rightarrow> nat \<Rightarrow> 'a list \<Rightarrow> 'a list" where
  "swap a b xs = xs[a := xs ! b, b := xs ! a]"

function heapifyUp :: "'a compare_fn \<Rightarrow> nat \<Rightarrow> 'a list \<Rightarrow> 'a list" where
  "heapifyUp cmp current xs =
     (if current > 0 \<and> cmp (xs ! current) (xs ! parentIndex current) > 0
      then heapifyUp cmp (parentIndex current) (swap current (parentIndex current) xs)
      else xs)"
  by pat_completeness auto
termination by (relation "measure (\<lambda>(cmp, i, xs). i)") (auto simp: parentIndex_def)

definition largest_of :: "'a compare_fn \<Rightarrow> 'a list \<Rightarrow> nat \<Rightarrow> nat" where
  "largest_of cmp xs current =
     (let left = leftIndex current; right = rightIndex current;
          l = (if left < length xs \<and> cmp (xs ! left) (xs ! current) > 0 then left else current)
      in if right < length xs \<and> cmp (xs ! right) (xs ! l) > 0 then right else l)"

lemma length_swap [simp]: "length (swap a b xs) = length xs"
  by (simp add: swap_def)

lemma largest_of_cases: "largest_of cmp xs i = i \<or> i < largest_of cmp xs i \<and> largest_of cmp xs i < length xs"
  by (auto simp: largest_of_def leftIndex_def rightIndex_def Let_def)

function heapifyDown :: "'a compare_fn \<Rightarrow> nat \<Rightarrow> 'a list \<Rightarrow> 'a list" where
  "heapifyDown cmp current xs =
     (let largest = largest_of cmp xs current in
      if largest = current then xs else heapifyDown cmp largest (swap current largest xs))"
  by pat_completeness auto
termination
proof (relation "measure (\<lambda>(cmp, i, xs). length xs - i)")
  fix cmp current and xs :: "'a list" and l
  assume "l = largest_of cmp xs current" "l \<noteq> current"
  then show "((cmp, l, swap current l xs), cmp, current, xs) \<in> measure (\<lambda>(cmp, i, xs). length xs - i)"
    using largest_of_cases [of cmp xs current] by auto
qed simp

declare heapifyUp.simps [simp del] heapifyDown.simps [simp del]

text \<open>\<^verbatim>\<open>findMinIndex\<close>: the loop from position 1.\<close>

definition findMinIndex :: "'a compare_fn \<Rightarrow> 'a list \<Rightarrow> nat" where
  "findMinIndex cmp xs =
     foldl (\<lambda>minIndex i. if cmp (xs ! i) (xs ! minIndex) < 0 then i else minIndex) 0 [1..<length xs]"

text \<open>\<^verbatim>\<open>removeAt\<close>: the removed items and what is left.\<close>

definition removeAt :: "'a compare_fn \<Rightarrow> nat \<Rightarrow> 'a list \<Rightarrow> 'a list \<times> 'a list" where
  "removeAt cmp i xs =
     (if i \<ge> length xs then ([], xs)
      else let removed = xs ! i; rest = butlast xs in
        if i = length rest then ([removed], rest)
        else let ys = rest[i := last xs] in
          ([removed],
           if i > 0 \<and> cmp (ys ! i) (ys ! parentIndex i) > 0 then heapifyUp cmp i ys else heapifyDown cmp i ys))"

lemma length_heapifyUp [simp]: "length (heapifyUp cmp i xs) = length xs"
proof (induction cmp i xs rule: heapifyUp.induct)
  case (1 cmp i xs)
  then show ?case by (subst heapifyUp.simps) simp
qed

lemma length_heapifyDown [simp]: "length (heapifyDown cmp i xs) = length xs"
proof (induction cmp i xs rule: heapifyDown.induct)
  case (1 cmp i xs)
  then show ?case by (subst heapifyDown.simps) (simp add: Let_def)
qed

lemma length_removeAt: "i < length xs \<Longrightarrow> length (snd (removeAt cmp i xs)) = length xs - 1"
  by (simp add: removeAt_def Let_def)

lemma findMinIndex_fold:
  assumes "m < length xs" "\<forall>i \<in> set is. i < length xs"
  shows "foldl (\<lambda>minIndex i. if cmp (xs ! i) (xs ! minIndex) < (0 :: int) then i else minIndex) m is < length xs"
  using assms by (induction "is" arbitrary: m) auto

lemma findMinIndex_less: "xs \<noteq> [] \<Longrightarrow> findMinIndex cmp xs < length xs"
  unfolding findMinIndex_def by (rule findMinIndex_fold) auto

text \<open>\<^verbatim>\<open>trim\<close>: evict a minimum until the cap holds.\<close>

function trim_items :: "('a \<Rightarrow> bool) \<Rightarrow> 'a compare_fn \<Rightarrow> int \<Rightarrow> 'a list \<Rightarrow> 'a list \<times> 'a list" where
  "trim_items truthy cmp cap xs =
     (if int (length xs) > cap \<and> xs \<noteq> []
      then let (evicted, rest) = removeAt cmp (findMinIndex cmp xs) xs;
               (removed, kept) = trim_items truthy cmp cap rest
           in (filter truthy evicted @ removed, kept)
      else ([], xs))"
  by pat_completeness auto
termination
proof (relation "measure (\<lambda>(t, cmp, cap, xs). length xs)")
  fix truthy :: "'a \<Rightarrow> bool" and cmp cap and xs :: "'a list" and p evicted rest
  assume "int (length xs) > cap \<and> xs \<noteq> []" "p = removeAt cmp (findMinIndex cmp xs) xs" "(evicted, rest) = p"
  then show "((truthy, cmp, cap, rest), truthy, cmp, cap, xs) \<in> measure (\<lambda>(t, cmp, cap, xs). length xs)"
    using length_removeAt [OF findMinIndex_less, of xs cmp cmp] by (auto simp: prod_eq_iff split: prod.splits)
qed simp

declare trim_items.simps [simp del]

definition trim :: "('a \<Rightarrow> bool) \<Rightarrow> 'a compare_fn \<Rightarrow> 'a MaxPriorityQueue \<Rightarrow> 'a list \<times> 'a MaxPriorityQueue" where
  "trim truthy cmp q = (let (removed, kept) = trim_items truthy cmp (maxSize q) (items q) in (removed, q\<lparr>items := kept\<rparr>))"

definition setMaxSize :: "('a \<Rightarrow> bool) \<Rightarrow> 'a compare_fn \<Rightarrow> int \<Rightarrow> 'a MaxPriorityQueue \<Rightarrow> 'a list \<times> 'a MaxPriorityQueue" where
  "setMaxSize truthy cmp size_cap q = trim truthy cmp (q\<lparr>maxSize := max 1 size_cap\<rparr>)"

definition push :: "('a \<Rightarrow> bool) \<Rightarrow> 'a compare_fn \<Rightarrow> 'a \<Rightarrow> 'a MaxPriorityQueue \<Rightarrow> 'a list \<times> 'a MaxPriorityQueue" where
  "push truthy cmp item q =
     trim truthy cmp (q\<lparr>items := heapifyUp cmp (length (items q)) (items q @ [item])\<rparr>)"

definition pop :: "'a compare_fn \<Rightarrow> 'a MaxPriorityQueue \<Rightarrow> 'a option \<times> 'a MaxPriorityQueue" where
  "pop cmp q =
     (case items q of
        [] \<Rightarrow> (None, q)
      | [x] \<Rightarrow> (Some x, q\<lparr>items := []\<rparr>)
      | x # xs \<Rightarrow> (Some x, q\<lparr>items := heapifyDown cmp 0 ((butlast (items q))[0 := last (items q)])\<rparr>))"

section \<open>Positions\<close>

lemma parent_less: "0 < i \<Longrightarrow> parentIndex i < i"
  by (auto simp: parentIndex_def)

lemma parent_children: "0 < j \<Longrightarrow> parentIndex j = i \<longleftrightarrow> j = leftIndex i \<or> j = rightIndex i"
  by (auto simp: parentIndex_def leftIndex_def rightIndex_def)

lemma child_greater: "0 < j \<Longrightarrow> parentIndex j = i \<Longrightarrow> i < j"
  using parent_less by blast

lemma nth_swap:
  "a < length xs \<Longrightarrow> b < length xs \<Longrightarrow>
     swap a b xs ! i = (if i = a then xs ! b else if i = b then xs ! a else xs ! i)"
  by (auto simp: swap_def nth_list_update)

lemma mset_swap: "a < length xs \<Longrightarrow> b < length xs \<Longrightarrow> mset (swap a b xs) = mset xs"
  by (simp add: swap_def mset_swap)

lemma mset_heapifyUp: "i < length xs \<Longrightarrow> mset (heapifyUp cmp i xs) = mset xs"
proof (induction cmp i xs rule: heapifyUp.induct)
  case (1 cmp i xs)
  have "parentIndex i < length xs" using 1(2) parent_less [of i] by (cases i) (auto simp: parentIndex_def)
  with 1 show ?case by (subst heapifyUp.simps) (simp add: mset_swap)
qed

lemma mset_heapifyDown: "i < length xs \<Longrightarrow> mset (heapifyDown cmp i xs) = mset xs"
proof (induction cmp i xs rule: heapifyDown.induct)
  case (1 cmp i xs)
  then show ?case using largest_of_cases [of cmp xs i]
    by (subst heapifyDown.simps) (auto simp: Let_def mset_swap)
qed

section \<open>Comparators\<close>

definition heap :: "'a compare_fn \<Rightarrow> 'a list \<Rightarrow> bool" where
  "heap cmp xs \<longleftrightarrow> (\<forall>j < length xs. 0 < j \<longrightarrow> cmp (xs ! j) (xs ! parentIndex j) \<le> 0)"

text \<open>A heap but for the edge above, or the edges below, one position.\<close>

definition heap_but_up :: "'a compare_fn \<Rightarrow> nat \<Rightarrow> 'a list \<Rightarrow> bool" where
  "heap_but_up cmp i xs \<longleftrightarrow>
     (\<forall>j < length xs. 0 < j \<and> j \<noteq> i \<longrightarrow> cmp (xs ! j) (xs ! parentIndex j) \<le> 0) \<and>
     (\<forall>j < length xs. 0 < j \<and> parentIndex j = i \<and> 0 < i \<longrightarrow> cmp (xs ! j) (xs ! parentIndex i) \<le> 0)"

definition heap_but_down :: "'a compare_fn \<Rightarrow> nat \<Rightarrow> 'a list \<Rightarrow> bool" where
  "heap_but_down cmp i xs \<longleftrightarrow>
     (\<forall>j < length xs. 0 < j \<and> parentIndex j \<noteq> i \<longrightarrow> cmp (xs ! j) (xs ! parentIndex j) \<le> 0) \<and>
     (\<forall>j < length xs. 0 < j \<and> parentIndex j = i \<and> 0 < i \<longrightarrow> cmp (xs ! j) (xs ! parentIndex i) \<le> 0)"

text \<open>A comparator is a total preorder: its sign swaps with its arguments and it is transitive.\<close>

locale comparator =
  fixes cmp :: "'a compare_fn"
  assumes sign: "cmp a b > 0 \<longleftrightarrow> cmp b a < 0"
    and trans: "cmp a b \<le> 0 \<Longrightarrow> cmp b c \<le> 0 \<Longrightarrow> cmp a c \<le> 0"
begin

lemma refl: "cmp a a = 0"
  using sign [of a a] by linarith

lemma total: "cmp a b \<le> 0 \<or> cmp b a \<le> 0"
  using sign [of a b] by linarith

lemma above: "cmp a b > 0 \<Longrightarrow> cmp b a \<le> 0"
  using sign [of a b] by linarith

lemma swap_up:
  assumes "heap_but_up cmp i xs" "i < length xs" "0 < i" "cmp (xs ! i) (xs ! parentIndex i) > 0"
  shows "heap_but_up cmp (parentIndex i) (swap i (parentIndex i) xs)"
proof -
  let ?p = "parentIndex i"
  have bounds: "?p < i" "?p < length xs" using parent_less [OF assms(3)] assms(2) by auto
  have others: "cmp (xs ! j) (xs ! parentIndex j) \<le> 0" if "j < length xs" "0 < j" "j \<noteq> i" for j
    using assms(1) that by (simp add: heap_but_up_def)
  have below: "cmp (xs ! j) (xs ! ?p) \<le> 0" if "j < length xs" "0 < j" "parentIndex j = i" for j
    using assms(1,3) that by (simp add: heap_but_up_def)
  have up: "cmp (xs ! ?p) (xs ! i) \<le> 0" by (rule above [OF assms(4)])
  note nth = nth_swap [OF assms(2) bounds(2)]
  show ?thesis
    unfolding heap_but_up_def length_swap
  proof (intro conjI allI impI)
    fix j
    assume j: "j < length xs" "0 < j \<and> j \<noteq> ?p"
    show "cmp (swap i ?p xs ! j) (swap i ?p xs ! parentIndex j) \<le> 0"
    proof (cases "j = i")
      case True
      then show ?thesis using bounds up by (simp add: nth)
    next
      case False
      consider "parentIndex j = i" | "parentIndex j = ?p" | "parentIndex j \<noteq> i" "parentIndex j \<noteq> ?p" by blast
      then show ?thesis
      proof cases
        case 1
        then show ?thesis using j False below [of j] by (simp add: nth)
      next
        case 2
        then have "cmp (xs ! j) (xs ! ?p) \<le> 0" using others [of j] j False by simp
        then show ?thesis using 2 j False bounds up trans by (auto simp: nth)
      next
        case 3
        then show ?thesis using others [of j] j False by (simp add: nth)
      qed
    qed
  next
    fix j
    assume j: "j < length xs" "0 < j \<and> parentIndex j = ?p \<and> 0 < ?p"
    have pp: "parentIndex ?p < ?p" using parent_less j by blast
    have p: "cmp (xs ! ?p) (xs ! parentIndex ?p) \<le> 0" using others [of ?p] bounds j by simp
    have "j \<noteq> ?p" using j parent_less [of j] by auto
    have "cmp (xs ! j) (xs ! parentIndex ?p) \<le> 0" if "j \<noteq> i"
      using others [of j] j that p trans by simp
    then show "cmp (swap i ?p xs ! j) (swap i ?p xs ! parentIndex ?p) \<le> 0"
      using p pp bounds \<open>j \<noteq> ?p\<close> by (auto simp: nth)
  qed
qed

lemma heap_up: "heap_but_up cmp i xs \<Longrightarrow> i < length xs \<Longrightarrow> heap cmp (heapifyUp cmp i xs)"
proof (induction "i" arbitrary: xs rule: less_induct)
  case (less i)
  show ?case
  proof (cases "0 < i \<and> cmp (xs ! i) (xs ! parentIndex i) > 0")
    case True
    then show ?thesis
      using less.IH [OF parent_less swap_up] less.prems parent_less [of i]
      by (subst heapifyUp.simps) auto
  next
    case False
    then have "heap cmp xs" using less.prems by (auto simp: heap_def heap_but_up_def) 
    with False show ?thesis by (subst heapifyUp.simps) auto
  qed
qed

lemma largest_of_spec:
  assumes "i < length xs"
  shows "\<And>j. j < length xs \<Longrightarrow> 0 < j \<Longrightarrow> parentIndex j = i \<Longrightarrow> cmp (xs ! j) (xs ! largest_of cmp xs i) \<le> 0"
    and "largest_of cmp xs i \<noteq> i \<Longrightarrow> parentIndex (largest_of cmp xs i) = i \<and> 0 < largest_of cmp xs i \<and>
      largest_of cmp xs i < length xs"
    and "cmp (xs ! i) (xs ! largest_of cmp xs i) \<le> 0"
proof -
  let ?l = "if leftIndex i < length xs \<and> cmp (xs ! leftIndex i) (xs ! i) > 0 then leftIndex i else i"
  have l: "cmp (xs ! i) (xs ! ?l) \<le> 0" using above refl by simp
  have left: "cmp (xs ! leftIndex i) (xs ! ?l) \<le> 0" if "leftIndex i < length xs" using that refl by auto
  have largest: "largest_of cmp xs i = (if rightIndex i < length xs \<and> cmp (xs ! rightIndex i) (xs ! ?l) > 0
      then rightIndex i else ?l)"
    by (simp add: largest_of_def Let_def)
  have step: "cmp (xs ! ?l) (xs ! largest_of cmp xs i) \<le> 0" using above refl by (simp add: largest)
  have right: "cmp (xs ! rightIndex i) (xs ! largest_of cmp xs i) \<le> 0" if "rightIndex i < length xs"
    using that refl by (auto simp: largest)
  show "cmp (xs ! i) (xs ! largest_of cmp xs i) \<le> 0" by (rule trans [OF l step])
  show "cmp (xs ! j) (xs ! largest_of cmp xs i) \<le> 0" if "j < length xs" "0 < j" "parentIndex j = i" for j
    using that parent_children [of j i] right trans [OF left step] by auto
  show "largest_of cmp xs i \<noteq> i \<Longrightarrow> parentIndex (largest_of cmp xs i) = i \<and> 0 < largest_of cmp xs i \<and>
      largest_of cmp xs i < length xs"
    by (auto simp: largest parentIndex_def leftIndex_def rightIndex_def split: if_splits)
qed

lemma swap_down:
  assumes "heap_but_down cmp i xs" "i < length xs" "l = largest_of cmp xs i" "l \<noteq> i"
  shows "heap_but_down cmp l (swap i l xs)"
proof -
  have l: "parentIndex l = i" "0 < l" "l < length xs" using largest_of_spec(2) [OF assms(2)] assms(3,4) by auto
  have "i < l" using child_greater l by blast
  have others: "cmp (xs ! j) (xs ! parentIndex j) \<le> 0" if "j < length xs" "0 < j" "parentIndex j \<noteq> i" for j
    using assms(1) that by (simp add: heap_but_down_def)
  have grand: "cmp (xs ! j) (xs ! parentIndex i) \<le> 0" if "j < length xs" "0 < j" "parentIndex j = i" "0 < i" for j
    using assms(1) that by (simp add: heap_but_down_def)
  have largest: "cmp (xs ! j) (xs ! l) \<le> 0" if "j < length xs" "0 < j" "parentIndex j = i" for j
    using largest_of_spec(1) [OF assms(2)] that assms(3) by blast
  have top: "cmp (xs ! i) (xs ! l) \<le> 0" using largest_of_spec(3) [OF assms(2)] assms(3) by simp
  note nth = nth_swap [OF assms(2) l(3)]
  show ?thesis
    unfolding heap_but_down_def length_swap
  proof (intro conjI allI impI)
    fix j
    assume j: "j < length xs" "0 < j \<and> parentIndex j \<noteq> l"
    consider "j = i" | "j = l" | "j \<noteq> i" "j \<noteq> l" "parentIndex j = i" | "j \<noteq> i" "j \<noteq> l" "parentIndex j \<noteq> i" by blast
    then show "cmp (swap i l xs ! j) (swap i l xs ! parentIndex j) \<le> 0"
    proof cases
      case 1
      then show ?thesis using grand [of l] l j parent_less [of i] \<open>i < l\<close> by (auto simp: nth)
    next
      case 2
      then show ?thesis using top l \<open>i < l\<close> by (simp add: nth)
    next
      case 3
      then show ?thesis using largest [of j] j by (simp add: nth)
    next
      case 4
      then show ?thesis using others [of j] j by (simp add: nth)
    qed
  next
    fix j
    assume j: "j < length xs" "0 < j \<and> parentIndex j = l \<and> 0 < l"
    have "l < j" using child_greater j by blast
    then show "cmp (swap i l xs ! j) (swap i l xs ! parentIndex l) \<le> 0"
      using others [of j] j l \<open>i < l\<close> by (simp add: nth)
  qed
qed

lemma heap_down: "heap_but_down cmp i xs \<Longrightarrow> i < length xs \<Longrightarrow> heap cmp (heapifyDown cmp i xs)"
proof (induction "length xs - i" arbitrary: i xs rule: less_induct)
  case less
  define l where "l = largest_of cmp xs i"
  show ?case
  proof (cases "l = i")
    case True
    have "cmp (xs ! j) (xs ! parentIndex j) \<le> 0" if "j < length xs" "0 < j" for j
      using that less.prems largest_of_spec(1) [OF less.prems(2), of j] True
      by (cases "parentIndex j = i") (auto simp: heap_but_down_def l_def)
    with True show ?thesis by (subst heapifyDown.simps) (simp add: l_def [symmetric] heap_def)
  next
    case False
    have l: "i < l" "l < length xs" using largest_of_cases [of cmp xs i] False l_def by auto
    then have "heap cmp (heapifyDown cmp l (swap i l xs))"
      using less.hyps [of "swap i l xs" l] swap_down [OF less.prems l_def False] less.prems by simp
    with False show ?thesis by (subst heapifyDown.simps) (simp add: l_def [symmetric] Let_def)
  qed
qed

text \<open>The heap after appending an item, and after replacing one by another.\<close>

lemma heap_append: "heap cmp xs \<Longrightarrow> heap_but_up cmp (length xs) (xs @ [x])"
  unfolding heap_def heap_but_up_def
proof (intro conjI allI impI)
  fix j
  assume heap: "\<forall>j<length xs. 0 < j \<longrightarrow> cmp (xs ! j) (xs ! parentIndex j) \<le> 0" and j: "j < length (xs @ [x])"
  show "cmp ((xs @ [x]) ! j) ((xs @ [x]) ! parentIndex j) \<le> 0" if "0 < j \<and> j \<noteq> length xs"
    using heap j that parent_less [of j] by (simp add: nth_append)
  show "cmp ((xs @ [x]) ! j) ((xs @ [x]) ! parentIndex (length xs)) \<le> 0" if "0 < j \<and> parentIndex j = length xs \<and> 0 < length xs"
    using j that child_greater [of j "length xs"] by simp
qed

lemma heap_take: "heap cmp xs \<Longrightarrow> heap cmp (butlast xs)"
proof -
  have "butlast xs ! j = xs ! j \<and> butlast xs ! parentIndex j = xs ! parentIndex j"
    if "j < length (butlast xs)" "0 < j" for j
    using that parent_less [of j] by (intro conjI nth_butlast) auto
  then show "heap cmp xs \<Longrightarrow> heap cmp (butlast xs)" by (auto simp: heap_def)
qed

lemma heap_replace:
  assumes "heap cmp xs" "i < length xs"
  shows "(0 < i \<and> cmp x (xs ! parentIndex i) > 0 \<longrightarrow> heap_but_up cmp i (xs[i := x])) \<and>
    (\<not> (0 < i \<and> cmp x (xs ! parentIndex i) > 0) \<longrightarrow> heap_but_down cmp i (xs[i := x]))"
proof -
  have edge: "cmp (xs ! j) (xs ! parentIndex j) \<le> 0" if "j < length xs" "0 < j" for j
    using assms(1) that by (simp add: heap_def)
  have grand: "cmp (xs ! j) (xs ! parentIndex i) \<le> 0" if "j < length xs" "0 < j" "parentIndex j = i" "0 < i" for j
    using trans [OF edge [OF that(1,2)]] edge [of i] that assms(2) by simp
  have parents: "parentIndex j \<noteq> j" if "0 < j" for j using parent_less [OF that] by simp
  show ?thesis
  proof (intro conjI impI)
    assume up: "0 < i \<and> cmp x (xs ! parentIndex i) > 0"
    have "cmp (xs ! j) x \<le> 0" if "j < length xs" "0 < j" "parentIndex j = i" for j
      using trans [OF grand [OF that] above] up by simp
    then show "heap_but_up cmp i (xs[i := x])"
      using edge grand parents assms(2) parent_less [of i] by (auto simp: heap_but_up_def nth_list_update)
  next
    assume "\<not> (0 < i \<and> cmp x (xs ! parentIndex i) > 0)"
    then show "heap_but_down cmp i (xs[i := x])"
      using edge grand parents assms(2) parent_less [of i] by (auto simp: heap_but_down_def nth_list_update)
  qed
qed

lemma heap_restored:
  assumes "heap cmp zs" "i < length zs"
  shows "heap cmp (if i > 0 \<and> cmp (zs[i := x] ! i) (zs[i := x] ! parentIndex i) > 0
    then heapifyUp cmp i (zs[i := x]) else heapifyDown cmp i (zs[i := x]))"
proof -
  have up: "i > 0 \<and> cmp (zs[i := x] ! i) (zs[i := x] ! parentIndex i) > 0 \<longleftrightarrow> 0 < i \<and> cmp x (zs ! parentIndex i) > 0"
    using assms(2) parent_less [of i] by auto
  show ?thesis
    unfolding up using heap_replace [OF assms, of x] heap_up [of i "zs[i := x]"] heap_down [of i "zs[i := x]"] assms(2)
    by (cases "0 < i \<and> cmp x (zs ! parentIndex i) > 0") auto
qed

lemma removeAt_heap:
  assumes "heap cmp xs" "i < length xs"
  shows "heap cmp (snd (removeAt cmp i xs))"
proof -
  have rest: "heap cmp (butlast xs)" using assms(1) by (rule heap_take)
  show ?thesis
  proof (cases "i = length (butlast xs)")
    case True
    with rest assms(2) show ?thesis by (simp add: removeAt_def Let_def)
  next
    case False
    with assms(2) have "i < length (butlast xs)" by simp
    from heap_restored [OF rest this, of "last xs"] False assms(2) show ?thesis by (simp add: removeAt_def Let_def)
  qed
qed

text \<open>The first position of the array is a maximum, and \<^verbatim>\<open>findMinIndex\<close> finds a minimum.\<close>

lemma heap_top: "heap cmp xs \<Longrightarrow> j < length xs \<Longrightarrow> cmp (xs ! j) (xs ! 0) \<le> 0"
proof (induction j rule: less_induct)
  case (less j)
  show ?case
  proof (cases "j = 0")
    case False
    then have "cmp (xs ! j) (xs ! parentIndex j) \<le> 0" using less.prems by (simp add: heap_def)
    moreover have "cmp (xs ! parentIndex j) (xs ! 0) \<le> 0"
      using less.IH [OF parent_less] less.prems False parent_less [of j] by simp
    ultimately show ?thesis by (rule trans)
  qed (simp add: refl)
qed

lemma find_min_fold:
  assumes "\<And>k. k \<in> K \<Longrightarrow> cmp (xs ! m) (xs ! k) \<le> 0"
  shows "k \<in> K \<union> set is \<Longrightarrow>
    cmp (xs ! foldl (\<lambda>minIndex i. if cmp (xs ! i) (xs ! minIndex) < 0 then i else minIndex) m is) (xs ! k) \<le> 0"
  using assms
proof (induction "is" arbitrary: m K)
  case (Cons i js)
  let ?m = "if cmp (xs ! i) (xs ! m) < 0 then i else m"
  have "cmp (xs ! m) (xs ! i) \<le> 0" if "\<not> cmp (xs ! i) (xs ! m) < 0" using that sign [of "xs ! m" "xs ! i"] by linarith
  then have "cmp (xs ! ?m) (xs ! k') \<le> 0" if "k' \<in> insert i K" for k'
    using that Cons.prems(2) trans [of "xs ! i" "xs ! m"] refl by (auto simp: less_imp_le)
  then show ?case using Cons.IH [of "insert i K" ?m] Cons.prems(1) by simp
qed auto

lemma findMinIndex_min: "x \<in> set xs \<Longrightarrow> cmp (xs ! findMinIndex cmp xs) x \<le> 0"
proof -
  assume "x \<in> set xs"
  then obtain k where k: "k < length xs" "x = xs ! k" by (auto simp: in_set_conv_nth)
  then have "k \<in> {0} \<union> set [1..<length xs]" by auto
  from find_min_fold [OF _ this, of xs 0] show ?thesis by (simp add: findMinIndex_def k(2) refl)
qed

end

lemma mset_removeAt:
  assumes "i < length xs"
  shows "fst (removeAt cmp i xs) = [xs ! i]" "add_mset (xs ! i) (mset (snd (removeAt cmp i xs))) = mset xs"
proof -
  have ne: "xs \<noteq> []" using assms by auto
  then have split: "mset xs = add_mset (last xs) (mset (butlast xs))"
    by (metis append_butlast_last_id mset.simps(2) mset_append mset_single_iff_right union_commute add_mset_add_single)
  show "fst (removeAt cmp i xs) = [xs ! i]" using assms by (simp add: removeAt_def Let_def)
  show "add_mset (xs ! i) (mset (snd (removeAt cmp i xs))) = mset xs"
  proof (cases "i = length (butlast xs)")
    case True
    then have "xs ! i = last xs" using ne by (simp add: last_conv_nth)
    then show ?thesis using True assms split by (simp add: removeAt_def Let_def)
  next
    case False
    then have i: "i < length (butlast xs)" using assms by simp
    then have "xs ! i = butlast xs ! i" by (simp add: nth_butlast)
    then show ?thesis
      using False assms i split nth_mem_mset [OF i]
      by (simp add: removeAt_def Let_def mset_heapifyUp mset_heapifyDown mset_update)
  qed
qed

section \<open>Eviction\<close>

lemma trim_items_truthy:
  "trim_items truthy cmp cap xs = map_prod (filter truthy) id (trim_items (\<lambda>_. True) cmp cap xs)"
proof (induction truthy cmp cap xs rule: trim_items.induct)
  case (1 truthy cmp cap xs)
  then show ?case
    by (subst (1 2) trim_items.simps) (auto simp: split_beta Let_def prod_eq_iff)
qed

lemma trim_step:
  assumes "int (length xs) > cap" "xs \<noteq> []"
  shows "trim_items (\<lambda>_. True) cmp cap xs =
    (let r = trim_items (\<lambda>_. True) cmp cap (snd (removeAt cmp (findMinIndex cmp xs) xs))
     in (xs ! findMinIndex cmp xs # fst r, snd r))"
  using assms mset_removeAt(1) [OF findMinIndex_less [OF assms(2)], of cmp cmp]
  by (subst trim_items.simps) (simp add: split_beta Let_def)

lemma trim_stop: "int (length xs) \<le> cap \<Longrightarrow> trim_items truthy cmp cap xs = ([], xs)"
  by (subst trim_items.simps) simp

text \<open>What a run of evictions leaves and takes.\<close>

definition evicts :: "'a compare_fn \<Rightarrow> int \<Rightarrow> 'a list \<Rightarrow> 'a list \<Rightarrow> 'a list \<Rightarrow> bool" where
  "evicts cmp cap xs removed rest \<longleftrightarrow>
     heap cmp rest \<and> mset removed + mset rest = mset xs \<and> int (length rest) = min (int (length xs)) cap \<and>
     (\<forall>e \<in> set removed. \<forall>k \<in> set rest. cmp e k \<le> 0)"

definition queue_ok :: "'a compare_fn \<Rightarrow> 'a MaxPriorityQueue \<Rightarrow> bool" where
  "queue_ok cmp q \<longleftrightarrow> heap cmp (items q) \<and> 1 \<le> maxSize q \<and> int (length (items q)) \<le> maxSize q"

context comparator
begin

lemma trim_evicts:
  assumes "heap cmp xs" "1 \<le> cap"
  shows "evicts cmp cap xs (fst (trim_items (\<lambda>_. True) cmp cap xs)) (snd (trim_items (\<lambda>_. True) cmp cap xs))"
  using assms
proof (induction "length xs" arbitrary: xs rule: less_induct)
  case less
  show ?case
  proof (cases "int (length xs) > cap")
    case False
    with less.prems show ?thesis by (simp add: trim_stop evicts_def)
  next
    case True
    with less.prems have ne: "xs \<noteq> []" by auto
    define i rest where "i = findMinIndex cmp xs" and "rest = snd (removeAt cmp i xs)"
    have i: "i < length xs" using findMinIndex_less [OF ne] by (simp add: i_def)
    have rest: "length rest = length xs - 1" "heap cmp rest" "add_mset (xs ! i) (mset rest) = mset xs"
      using i less.prems removeAt_heap mset_removeAt(2) by (auto simp: rest_def length_removeAt)
    have min: "cmp (xs ! i) k \<le> 0" if "k \<in> set xs" for k using findMinIndex_min [OF that] by (simp add: i_def)
    have sub: "set rest \<subseteq> set xs" using arg_cong [OF rest(3), of set_mset] by auto
    obtain rs ks where r: "trim_items (\<lambda>_. True) cmp cap rest = (rs, ks)" by fastforce
    have IH: "evicts cmp cap rest rs ks" using less.hyps [of rest] rest less.prems ne by (simp add: r)
    have "set ks \<subseteq> set rest" using arg_cong [of _ _ set_mset, OF conjunct1 [OF conjunct2 [OF IH [unfolded evicts_def]]]] by auto
    then have "\<forall>k \<in> set ks. cmp (xs ! i) k \<le> 0" using min sub by blast
    moreover have "trim_items (\<lambda>_. True) cmp cap xs = (xs ! i # rs, ks)"
      using trim_step [OF True ne, of cmp] r by (simp add: i_def rest_def)
    ultimately show ?thesis using IH rest True less.prems(2) ne by (auto simp: evicts_def of_nat_diff Suc_le_eq)
  qed
qed

lemma trim_ok:
  assumes "heap cmp (items q)" "1 \<le> maxSize q" "trim (\<lambda>_. True) cmp q = (removed, q')"
  shows "evicts cmp (maxSize q) (items q) removed (items q') \<and> queue_ok cmp q' \<and> maxSize q' = maxSize q"
  using trim_evicts [OF assms(1,2)] assms(2,3)
  by (auto simp: trim_def queue_ok_def evicts_def split_beta Let_def)

lemma push_ok:
  assumes "queue_ok cmp q" "push (\<lambda>_. True) cmp x q = (removed, q')"
  shows "evicts cmp (maxSize q) (x # items q) removed (items q') \<and> queue_ok cmp q' \<and> maxSize q' = maxSize q"
proof -
  let ?q = "q\<lparr>items := heapifyUp cmp (length (items q)) (items q @ [x])\<rparr>"
  have "heap cmp (items ?q)" using assms(1) by (simp add: queue_ok_def heap_up heap_append)
  from trim_ok [OF this, of removed q'] assms show ?thesis
    by (simp add: queue_ok_def push_def evicts_def mset_heapifyUp)
qed

lemma setMaxSize_ok:
  assumes "queue_ok cmp q" "setMaxSize (\<lambda>_. True) cmp cap q = (removed, q')"
  shows "evicts cmp (max 1 cap) (items q) removed (items q') \<and> queue_ok cmp q' \<and> maxSize q' = max 1 cap"
  using trim_ok [of "q\<lparr>maxSize := max 1 cap\<rparr>" removed q'] assms by (simp add: queue_ok_def setMaxSize_def)

lemma pop_ok:
  assumes "queue_ok cmp q" "items q \<noteq> []" "pop cmp q = (r, q')"
  shows "r = peek q \<and> (\<exists>x. r = Some x \<and> add_mset x (mset (items q')) = mset (items q) \<and>
    (\<forall>k \<in> set (items q). cmp k x \<le> 0)) \<and> queue_ok cmp q' \<and> maxSize q' = maxSize q"
proof -
  obtain x xs where xs: "items q = x # xs" using assms(2) by (cases "items q") auto
  have top: "\<forall>k \<in> set (items q). cmp k x \<le> 0"
  proof
    fix k
    assume "k \<in> set (items q)"
    then obtain j where "j < length (items q)" "items q ! j = k" unfolding in_set_conv_nth by blast
    then show "cmp k x \<le> 0" using heap_top [of "items q" j] assms(1) by (simp add: queue_ok_def xs)
  qed
  show ?thesis
  proof (cases xs)
    case Nil
    with assms xs top show ?thesis by (auto simp: pop_def peek_def queue_ok_def heap_def)
  next
    case (Cons y ys)
    let ?rest = "(butlast (items q))[0 := last (items q)]"
    have rest: "0 < length (butlast (items q))" using xs Cons by simp
    have "heap cmp (butlast (items q))" using assms(1) heap_take by (simp add: queue_ok_def)
    from heap_replace [OF this rest] have heap: "heap cmp (heapifyDown cmp 0 ?rest)" using rest heap_down by simp
    have "add_mset x (mset ?rest) = mset (items q)"
    proof -
      have "items q = butlast (items q) @ [last (items q)]" using assms(2) by simp
      then have "mset (items q) = add_mset (last (items q)) (mset (butlast (items q)))"
        by (metis add_mset_add_single mset.simps(1,2) mset_append)
      moreover have "butlast (items q) ! 0 = x" using xs Cons by simp
      ultimately show ?thesis using rest nth_mem_mset [OF rest] by (simp add: mset_update)
    qed
    then show ?thesis
      using assms xs Cons top heap rest
      by (auto simp: pop_def peek_def queue_ok_def mset_heapifyDown split: if_splits)
  qed
qed

end

section \<open>Sequences of operations\<close>

text \<open>All items pushed one after another, with everything evicted on the way; all items popped.\<close>

fun push_all :: "'a compare_fn \<Rightarrow> 'a list \<Rightarrow> 'a MaxPriorityQueue \<Rightarrow> 'a list \<times> 'a MaxPriorityQueue" where
  "push_all cmp [] q = ([], q)"
| "push_all cmp (x # xs) q =
     (let (removed, q') = push (\<lambda>_. True) cmp x q; (later, q'') = push_all cmp xs q' in (removed @ later, q''))"

fun pop_all :: "'a compare_fn \<Rightarrow> nat \<Rightarrow> 'a MaxPriorityQueue \<Rightarrow> 'a list" where
  "pop_all cmp 0 q = []"
| "pop_all cmp (Suc n) q = (case pop cmp q of (None, q') \<Rightarrow> [] | (Some x, q') \<Rightarrow> x # pop_all cmp n q')"

text \<open>What a queue retains of all items it was given: the best ones, as many as its cap allows.\<close>

definition retains_best :: "'a compare_fn \<Rightarrow> 'a list \<Rightarrow> 'a list \<Rightarrow> 'a MaxPriorityQueue \<Rightarrow> bool" where
  "retains_best cmp given evicted q \<longleftrightarrow>
     queue_ok cmp q \<and> mset evicted + mset (items q) = mset given \<and>
     int (length (items q)) = min (int (length given)) (maxSize q) \<and>
     (\<forall>e \<in> set evicted. \<forall>k \<in> set (items q). cmp e k \<le> 0)"

context comparator
begin

lemma push_retains_best:
  assumes "retains_best cmp given evicted q" "push (\<lambda>_. True) cmp x q = (removed, q')"
  shows "retains_best cmp (given @ [x]) (evicted @ removed) q' \<and> maxSize q' = maxSize q"
proof -
  have q: "queue_ok cmp q" "mset evicted + mset (items q) = mset given"
    "int (length (items q)) = min (int (length given)) (maxSize q)"
    "\<forall>e \<in> set evicted. \<forall>k \<in> set (items q). cmp e k \<le> 0"
    using assms(1) by (auto simp: retains_best_def)
  have p: "evicts cmp (maxSize q) (x # items q) removed (items q')" "queue_ok cmp q'" "maxSize q' = maxSize q"
    using push_ok [OF q(1) assms(2)] by auto
  have sizes: "length given = length evicted + length (items q)"
    using arg_cong [OF q(2), of size] by simp
  have old: "cmp e k \<le> 0" if e: "e \<in> set evicted" and k: "k \<in> set (items q')" for e k
  proof (cases "k \<in> set (items q)")
    case True
    with q(4) e show ?thesis by blast
  next
    case False
    have parts: "mset removed + mset (items q') = mset (x # items q)"
        "int (length (items q')) = min (int (length (x # items q))) (maxSize q)"
        "\<forall>e \<in> set removed. \<forall>k \<in> set (items q'). cmp e k \<le> 0"
      using p(1) by (auto simp: evicts_def)
    have in_x: "set removed \<union> set (items q') = insert x (set (items q))"
      using arg_cong [OF parts(1), of set_mset] by simp
    have "k = x" using in_x k False by blast
    have "length evicted > 0" using e by (cases evicted) auto
    then have "int (length (items q)) = maxSize q" using q(3) sizes by linarith
    then have "length removed = 1" using parts(2) arg_cong [OF parts(1), of size] by simp
    then obtain r where r: "removed = [r]" by (cases removed) auto
    have "r \<in> set (items q)"
    proof (rule ccontr)
      assume "r \<notin> set (items q)"
      then have "r = x" using in_x r by auto
      then have "mset (items q') = mset (items q)" using parts(1) r by simp
      then show False using k False mset_eq_setD by blast
    qed
    then have "cmp e r \<le> 0" "cmp r k \<le> 0" using q(4) e parts(3) k r by auto
    then show ?thesis by (rule trans)
  qed
  have "mset (evicted @ removed) + mset (items q') = mset (given @ [x])"
    using q(2) p(1) by (simp add: evicts_def) (metis add_mset_add_single union_assoc union_mset_add_mset_right)
  moreover have "int (length (items q')) = min (int (length (given @ [x]))) (maxSize q')"
    using q(3) p(1,3) by (simp add: evicts_def)
  ultimately show ?thesis using old p by (auto simp: retains_best_def evicts_def)
qed

lemma push_all_retains_best:
  assumes "retains_best cmp given evicted q" "push_all cmp xs q = (later, q')"
  shows "retains_best cmp (given @ xs) (evicted @ later) q' \<and> maxSize q' = maxSize q"
  using assms
proof (induction xs arbitrary: q given evicted later)
  case (Cons x xs)
  obtain removed q1 where p: "push (\<lambda>_. True) cmp x q = (removed, q1)" by fastforce
  obtain later' where l: "push_all cmp xs q1 = (later', q')" "later = removed @ later'"
    using Cons.prems(2) p by (auto split: prod.splits)
  have step: "retains_best cmp (given @ [x]) (evicted @ removed) q1" "maxSize q1 = maxSize q"
    using push_retains_best [OF Cons.prems(1) p] by auto
  with Cons.IH [OF step(1) l(1)] l(2) show ?case by simp
qed simp

lemma pop_all_sorted:
  assumes "queue_ok cmp q" "n = length (items q)"
  shows "sorted_wrt (\<lambda>a b. cmp b a \<le> 0) (pop_all cmp n q) \<and> mset (pop_all cmp n q) = mset (items q)"
  using assms
proof (induction n arbitrary: q)
  case (Suc n)
  obtain r q' where pop: "pop cmp q = (r, q')" by fastforce
  have ne: "items q \<noteq> []" using Suc.prems by auto
  obtain x where x: "r = Some x" "add_mset x (mset (items q')) = mset (items q)" "\<forall>k \<in> set (items q). cmp k x \<le> 0"
      and q': "queue_ok cmp q'"
    using pop_ok [OF Suc.prems(1) ne pop] by blast
  have "n = length (items q')" using arg_cong [OF x(2), of size] Suc.prems(2) by simp
  note IH = Suc.IH [OF q' this]
  have "set (pop_all cmp n q') \<subseteq> set (items q)"
    using IH arg_cong [OF x(2), of set_mset] by (auto dest: mset_eq_setD)
  then show ?case using IH x pop by auto
qed simp

end

section \<open>Properties\<close>

text \<open>
  Whatever comparator orders the items (a total preorder), a queue into which any sequence of items was
  pushed retains as many of them as its cap allows, nothing is lost or duplicated between the retained
  and the evicted, no evicted item is better than a retained one, and popping returns the retained items
  from the best to the worst.
\<close>

theorem queue_keeps_best:
  assumes "comparator cmp" "push_all cmp xs (new_queue cap) = (evicted, q)"
  shows "int (length (toArray q)) = min (int (length xs)) (max 1 cap) \<and>
    mset evicted + mset (toArray q) = mset xs \<and>
    (\<forall>e \<in> set evicted. \<forall>k \<in> set (toArray q). cmp e k \<le> 0) \<and>
    sorted_wrt (\<lambda>a b. cmp b a \<le> 0) (pop_all cmp (queue_size q) q) \<and>
    mset (pop_all cmp (queue_size q) q) = mset (toArray q)"
proof -
  have "retains_best cmp [] [] (new_queue cap)"
    by (simp add: retains_best_def queue_ok_def new_queue_def heap_def)
  from comparator.push_all_retains_best [OF assms(1) this assms(2)]
  have best: "retains_best cmp xs evicted q" "maxSize q = max 1 cap" by (simp_all add: new_queue_def)
  then have "queue_ok cmp q" by (simp add: retains_best_def)
  from comparator.pop_all_sorted [OF assms(1) this] best show ?thesis
    by (simp add: retains_best_def toArray_def queue_size_def)
qed

interpretation by_difference: comparator "\<lambda>a b. a - b"
  by unfold_locales auto

theorem queue_keeps_best_witness:
  "pop_all (\<lambda>a b. a - b) 2 (snd (push_all (\<lambda>a b. a - b) [5, 9, 7] (new_queue 2))) = [9, 7 :: int]"
proof -
  obtain evicted q where q: "push_all (\<lambda>a b. a - b) [5, 9, 7 :: int] (new_queue 2) = (evicted, q)" by fastforce
  from queue_keeps_best [OF by_difference.comparator_axioms q]
  have facts: "length (toArray q) = 2" "mset evicted + mset (toArray q) = mset [5, 9, 7]"
    "\<forall>e \<in> set evicted. \<forall>k \<in> set (toArray q). e - k \<le> 0"
    "sorted_wrt (\<lambda>a b. b - a \<le> 0) (pop_all (\<lambda>a b. a - b) (queue_size q) q)"
    "mset (pop_all (\<lambda>a b. a - b) (queue_size q) q) = mset (toArray q)"
    by simp_all
  have "length evicted = 1" using arg_cong [OF facts(2), of size] facts(1) by simp
  then obtain e where e: "evicted = [e]" by (cases evicted) auto
  obtain a b where ab: "pop_all (\<lambda>a b. a - b) (queue_size q) q = [a, b]"
  proof -
    have "length (pop_all (\<lambda>a b. a - b) (queue_size q) q) = 2"
      using facts(1) mset_eq_length [OF facts(5)] by simp
    then show ?thesis using that by (auto simp: length_Suc_conv numeral_2_eq_2)
  qed
  have "add_mset e (mset [a, b]) = mset [5, 9, 7]" "e \<le> a" "e \<le> b" "b \<le> a"
    using facts(2-5) e ab mset_eq_setD [OF facts(5)] by auto
  moreover have "{e, a, b} = {5, 9, 7}" using calculation(1) by (metis set_mset_add_mset_insert set_mset_mset set_simps)
  ultimately have "a = 9 \<and> b = 7" by (auto simp: add_eq_conv_ex doubleton_eq_iff insert_eq_iff)
  then show ?thesis using q ab facts(1) by (simp add: queue_size_def toArray_def)
qed

end
