(* ===== verification/Snapshotter.thy ===== *)
theory Snapshotter
  imports Priority_Queue Text_Diff
begin

text \<open>
  The editor's window of recent snapshots, \<^verbatim>\<open>shared/nulledit/snapshotter.ts\<close>, on top of the bounded queue.

  The class keeps each snapshot object once, in the map \<^verbatim>\<open>snapshots\<close>, and the queue holds references to
  the same objects, which later updates change in place. A reference is the id of the snapshot: the
  comparator only reads ids, ids are never reassigned, and every queued object stays in the map (part of
  the invariant below). So the queue holds ids, and \<open>list_snapshots\<close> looks them up.
\<close>

section \<open>Snapshots\<close>

datatype SnapshotDiffKind = EditDiff | RenderDiff

record SnapshotDiff =
  diff_kind :: SnapshotDiffKind
  diff_createdAt :: int
  fromLength :: int
  toLength :: int
  diff_ops :: "Diff list"

datatype SnapshotStatus = Pending | Rendered

record Snapshot =
  snap_id :: int
  snap_createdAt :: int
  snap_status :: SnapshotStatus
  snap_content :: jstring
  renderedMarkdown :: jstring
  snap_diffs :: "SnapshotDiff list"
  baseSnapshotId :: "int option"

text \<open>The fields of an update that are present; a base id may be present and undefined.\<close>

record SnapshotUpdate =
  new_content :: "jstring option"
  new_rendered :: "jstring option"
  new_status :: "SnapshotStatus option"
  new_base :: "int option option"

record Snapshotter =
  snapshots :: "(int \<times> Snapshot) list"
  queue :: "int MaxPriorityQueue"
  nextId :: int
  maxDepth :: int
  registered :: "int list"

definition compareSnapshots :: "int compare_fn" where
  "compareSnapshots a b = a - b"

definition createQueue :: "int \<Rightarrow> int MaxPriorityQueue" where
  "createQueue depth = new_queue depth"

definition new_snapshotter :: "int \<Rightarrow> Snapshotter" where
  "new_snapshotter depth =
     \<lparr>snapshots = [], queue = createQueue (max 1 depth), nextId = 1, maxDepth = max 1 depth, registered = []\<rparr>"

section \<open>Operations\<close>

definition requestSnapshotId :: "int \<Rightarrow> int option \<Rightarrow> Snapshotter \<Rightarrow> int \<times> Snapshotter" where
  "requestSnapshotId now base s =
     (let i = nextId s;
          snapshot = \<lparr>snap_id = i, snap_createdAt = now, snap_status = Pending, snap_content = [], renderedMarkdown = [],
            snap_diffs = [], baseSnapshotId = base\<rparr>
      in (i, s\<lparr>nextId := nextId s + 1, snapshots := AList.update i snapshot (snapshots s)\<rparr>))"

definition assign :: "SnapshotUpdate \<Rightarrow> Snapshot \<Rightarrow> Snapshot" where
  "assign u x = x\<lparr>snap_content := (case new_content u of None \<Rightarrow> snap_content x | Some c \<Rightarrow> c),
     renderedMarkdown := (case new_rendered u of None \<Rightarrow> renderedMarkdown x | Some c \<Rightarrow> c),
     snap_status := (case new_status u of None \<Rightarrow> snap_status x | Some t \<Rightarrow> t),
     baseSnapshotId := (case new_base u of None \<Rightarrow> baseSnapshotId x | Some b \<Rightarrow> b)\<rparr>"

text \<open>A change of the object that an id refers to.\<close>

definition change :: "int \<Rightarrow> (Snapshot \<Rightarrow> Snapshot) \<Rightarrow> Snapshotter \<Rightarrow> Snapshotter" where
  "change i f s =
     (case map_of (snapshots s) i of None \<Rightarrow> s | Some x \<Rightarrow> s\<lparr>snapshots := AList.update i (f x) (snapshots s)\<rparr>)"

definition updateSnapshot :: "int \<Rightarrow> SnapshotUpdate \<Rightarrow> Snapshotter \<Rightarrow> Snapshot option \<times> Snapshotter" where
  "updateSnapshot i u s = (map_option (assign u) (map_of (snapshots s) i), change i (assign u) s)"

definition appendDiff :: "int \<Rightarrow> SnapshotDiff \<Rightarrow> Snapshotter \<Rightarrow> Snapshotter" where
  "appendDiff i d = change i (\<lambda>x. x\<lparr>snap_diffs := snap_diffs x @ [d]\<rparr>)"

definition upsertRenderDiff :: "int \<Rightarrow> SnapshotDiff \<Rightarrow> Snapshotter \<Rightarrow> Snapshotter" where
  "upsertRenderDiff i d =
     change i (\<lambda>x. x\<lparr>snap_diffs := filter (\<lambda>e. diff_kind e \<noteq> RenderDiff) (snap_diffs x) @ [d]\<rparr>)"

definition forget :: "int \<Rightarrow> int list \<Rightarrow> Snapshotter \<Rightarrow> Snapshotter" where
  "forget i removed s =
     foldl (\<lambda>t e. if e \<noteq> i then t\<lparr>snapshots := AList.delete e (snapshots t), registered := removeAll e (registered t)\<rparr> else t)
       s removed"

definition registerSnapshot :: "int \<Rightarrow> Snapshotter \<Rightarrow> Snapshot option \<times> Snapshotter" where
  "registerSnapshot i s =
     (case map_of (snapshots s) i of
        None \<Rightarrow> (None, s)
      | Some x \<Rightarrow>
          if i \<in> set (registered s) then (Some x, s)
          else let (removed, q) = push (\<lambda>_. True) compareSnapshots i (queue s) in
            (Some x, forget i removed (s\<lparr>registered := registered s @ [i], queue := q\<rparr>)))"

definition get_snapshot :: "int \<Rightarrow> Snapshotter \<Rightarrow> Snapshot option" where
  "get_snapshot i s = map_of (snapshots s) i"

definition list_snapshots :: "Snapshotter \<Rightarrow> Snapshot list" where
  "list_snapshots s = List.map_filter (map_of (snapshots s)) (toArray (queue s))"

definition requeue :: "int list \<Rightarrow> Snapshotter \<Rightarrow> Snapshotter" where
  "requeue is s =
     foldl (\<lambda>t i. t\<lparr>registered := List.insert i (registered t), queue := snd (push (\<lambda>_. True) compareSnapshots i (queue t))\<rparr>) s is"

definition setMaxDepth :: "int \<Rightarrow> Snapshotter \<Rightarrow> Snapshotter" where
  "setMaxDepth depth s =
     requeue (toArray (queue s))
       (s\<lparr>maxDepth := max 1 depth, queue := createQueue (max 1 depth), registered := []\<rparr>)"

definition getMaxDepth :: "Snapshotter \<Rightarrow> int" where
  "getMaxDepth s = maxDepth s"

definition reset :: "Snapshotter \<Rightarrow> Snapshotter" where
  "reset s = s\<lparr>snapshots := [], registered := [], queue := createQueue (maxDepth s), nextId := 1\<rparr>"

section \<open>Reachable windows\<close>

inductive reachable_window :: "Snapshotter \<Rightarrow> bool" where
  created: "reachable_window (new_snapshotter depth)"
| requested: "reachable_window s \<Longrightarrow> reachable_window (snd (requestSnapshotId now base s))"
| updated: "reachable_window s \<Longrightarrow> reachable_window (snd (updateSnapshot i u s))"
| appended: "reachable_window s \<Longrightarrow> reachable_window (appendDiff i d s)"
| rendered: "reachable_window s \<Longrightarrow> reachable_window (upsertRenderDiff i d s)"
| registered: "reachable_window s \<Longrightarrow> reachable_window (snd (registerSnapshot i s))"
| resized: "reachable_window s \<Longrightarrow> reachable_window (setMaxDepth depth s)"
| cleared: "reachable_window s \<Longrightarrow> reachable_window (reset s)"

text \<open>
  The invariant: the map is well formed and its ids are below the next one; the queue holds distinct
  registered ids; registered ids that are not queued are older than all queued ones, and there are some
  only when the window is full.
\<close>

definition store_ok :: "(int \<times> Snapshot) list \<Rightarrow> int \<Rightarrow> bool" where
  "store_ok m n \<longleftrightarrow> jsmap_wf m \<and> (\<forall>i x. map_of m i = Some x \<longrightarrow> snap_id x = i \<and> i < n)"

definition queue_window :: "int MaxPriorityQueue \<Rightarrow> int list \<Rightarrow> int \<Rightarrow> bool" where
  "queue_window q reg depth \<longleftrightarrow>
     queue_ok compareSnapshots q \<and> maxSize q = depth \<and> distinct (items q) \<and> distinct reg \<and> set (items q) \<subseteq> set reg \<and>
     (\<forall>r \<in> set reg - set (items q). \<forall>k \<in> set (items q). r < k) \<and>
     (set reg \<noteq> set (items q) \<longrightarrow> int (length (items q)) = depth)"

definition window_ok :: "Snapshotter \<Rightarrow> bool" where
  "window_ok s \<longleftrightarrow> store_ok (snapshots s) (nextId s) \<and> queue_window (queue s) (registered s) (maxDepth s) \<and>
     set (registered s) \<subseteq> dom (map_of (snapshots s))"

interpretation by_id: comparator compareSnapshots
  by unfold_locales (auto simp: compareSnapshots_def)

lemma set_removeAll_append: "set (removeAll e (xs @ [x])) = insert x (set xs) - {e}"
  by (simp only: set_removeAll) simp

text \<open>One push of a new id.\<close>

lemma push_window:
  assumes "queue_window q reg depth" "i \<notin> set reg" "push (\<lambda>_. True) compareSnapshots i q = (removed, q')"
  shows "(removed = [] \<and> set (items q') = insert i (set (items q)) \<and> queue_window q' (reg @ [i]) depth) \<or>
    (removed = [i] \<and> set (items q') = set (items q) \<and> queue_window q' (reg @ [i]) depth) \<or>
    (\<exists>e. removed = [e] \<and> e \<noteq> i \<and> e \<in> set (items q) \<and> set (items q') = insert i (set (items q)) - {e} \<and>
       queue_window q' (removeAll e (reg @ [i])) depth)"
proof -
  have w: "queue_ok compareSnapshots q" "maxSize q = depth" "distinct (items q)" "distinct reg" "set (items q) \<subseteq> set reg"
    "\<And>r k. r \<in> set reg \<Longrightarrow> r \<notin> set (items q) \<Longrightarrow> k \<in> set (items q) \<Longrightarrow> r < k"
    "set reg \<noteq> set (items q) \<Longrightarrow> int (length (items q)) = depth"
    using assms(1) by (auto simp: queue_window_def)
  have p: "mset removed + mset (items q') = mset (i # items q)"
    "int (length (items q')) = min (int (length (i # items q))) depth"
    "\<And>e k. e \<in> set removed \<Longrightarrow> k \<in> set (items q') \<Longrightarrow> e \<le> k" "queue_ok compareSnapshots q'" "maxSize q' = depth"
    using by_id.push_ok [OF w(1) assms(3)] w(2) by (auto simp: evicts_def compareSnapshots_def)
  have i: "i \<notin> set (items q)" using assms(2) w(5) by blast
  have len: "int (length (items q)) \<le> depth" using w(1,2) by (simp add: queue_ok_def)
  have "length removed \<le> 1" using arg_cong [OF p(1), of size] p(2) len by simp
  have dist: "distinct (removed @ items q')"
    using p(1) i w(3) by (metis distinct.simps(2) mset_append mset_eq_imp_distinct_iff)
  have union: "set removed \<union> set (items q') = insert i (set (items q))"
    using arg_cong [OF p(1), of set_mset] by simp
  show ?thesis
  proof (cases removed)
    case Nil
    have "set reg = set (items q)"
      using w(7) arg_cong [OF p(1), of size] p(2) Nil by fastforce
    with Nil p dist union w(4) assms(2) show ?thesis by (auto simp: queue_window_def)
  next
    case (Cons e es)
    then have e: "removed = [e]" using \<open>length removed \<le> 1\<close> by simp
    have full: "int (length (items q')) = depth" using arg_cong [OF p(1), of size] p(2) e by simp
    have kept: "set (items q') = insert i (set (items q)) - {e}" using union dist e by auto
    have below: "e < k" if "k \<in> set (items q')" for k
      using p(3) [of e k] that e dist by (auto simp: less_le)
    show ?thesis
    proof (cases "e = i")
      case True
      have "r < k" if "r \<in> set (reg @ [i]) - set (items q')" "k \<in> set (items q')" for r k
        using that kept True i w(6) [of r k] below [of k] by auto
      moreover have "set (items q') \<subseteq> set (reg @ [i])" "distinct (reg @ [i])" "set (items q') = set (items q)"
        using kept w(4,5) assms(2) True i by auto
      ultimately have "queue_window q' (reg @ [i]) depth"
        unfolding queue_window_def using p(4,5) dist full by simp
      with e True kept i show ?thesis by auto
    next
      case False
      then have eq: "e \<in> set (items q)" using union e by auto
      have "r < k" if r: "r \<in> set (removeAll e (reg @ [i])) - set (items q')" and k: "k \<in> set (items q')" for r k
      proof -
        have "r \<in> set reg \<and> r \<notin> set (items q)" using r unfolding set_removeAll_append kept by blast
        then have "r < e" using w(6) eq by blast
        with below [OF k] show ?thesis by simp
      qed
      moreover have "set (items q') \<subseteq> set (removeAll e (reg @ [i]))" using w(5) unfolding set_removeAll_append kept by blast
      moreover have "distinct (removeAll e (reg @ [i]))" using w(4) assms(2) by (intro distinct_removeAll) simp
      ultimately have "queue_window q' (removeAll e (reg @ [i])) depth"
        unfolding queue_window_def using p(4,5) dist full by simp
      with e False eq kept show ?thesis by blast
    qed
  qed
qed

text \<open>Every operation keeps the invariant.\<close>

lemma new_window_ok: "window_ok (new_snapshotter depth)"
  by (simp add: window_ok_def new_snapshotter_def store_ok_def queue_window_def queue_ok_def createQueue_def new_queue_def heap_def)

lemma store_update: "store_ok m n \<Longrightarrow> snap_id x = i \<Longrightarrow> i < n' \<Longrightarrow> n \<le> n' \<Longrightarrow> store_ok (AList.update i x m) n'"
  by (force simp: store_ok_def)

lemma requested_ok: "window_ok s \<Longrightarrow> window_ok (snd (requestSnapshotId now base s))"
  by (auto simp: window_ok_def requestSnapshotId_def Let_def intro!: store_update)

lemma change_ok:
  assumes "window_ok s" "\<And>x. snap_id (f x) = snap_id x"
  shows "window_ok (change i f s)"
  using assms by (auto simp: window_ok_def change_def store_ok_def split: option.splits if_splits)

lemma assign_id: "snap_id (assign u x) = snap_id x"
  by (simp add: assign_def)

lemma delete_store: "store_ok m n \<Longrightarrow> store_ok (AList.delete e m) n"
  by (auto simp: store_ok_def delete_conv' split: if_splits)

lemma registered_ok:
  assumes "window_ok s"
  shows "window_ok (snd (registerSnapshot i s))"
proof (cases "map_of (snapshots s) i = None \<or> i \<in> set (registered s)")
  case True
  with assms show ?thesis by (auto simp: registerSnapshot_def split: option.splits)
next
  case False
  then obtain x where x: "map_of (snapshots s) i = Some x" and fresh: "i \<notin> set (registered s)" by auto
  obtain removed q where p: "push (\<lambda>_. True) compareSnapshots i (queue s) = (removed, q)" by fastforce
  have s: "store_ok (snapshots s) (nextId s)" "queue_window (queue s) (registered s) (maxDepth s)"
    "set (registered s) \<subseteq> dom (map_of (snapshots s))" using assms by (auto simp: window_ok_def)
  have reg: "snd (registerSnapshot i s) = forget i removed (s\<lparr>registered := registered s @ [i], queue := q\<rparr>)"
    using x fresh p by (simp add: registerSnapshot_def)
  from push_window [OF s(2) fresh p] show ?thesis
  proof (elim disjE exE conjE)
    fix e
    assume "removed = [e]" "e \<noteq> i" and w: "queue_window q (removeAll e (registered s @ [i])) (maxDepth s)"
    then show ?thesis
      unfolding reg using s(3) x delete_store [OF s(1), of e]
      by (auto simp: forget_def window_ok_def delete_conv' subset_iff)
  qed (use s x in \<open>auto simp: reg forget_def window_ok_def\<close>)
qed

text \<open>Resizing pushes the old window again, in array order.\<close>

lemma requeue_fields:
  "snapshots (requeue is s) = snapshots s" "nextId (requeue is s) = nextId s" "maxDepth (requeue is s) = maxDepth s"
  by (induction "is" arbitrary: s) (simp_all add: requeue_def)

lemma requeue_window:
  assumes "queue_window (queue s) (registered s) (maxDepth s)" "distinct is" "set is \<inter> set (registered s) = {}"
  shows "queue_window (queue (requeue is s)) (registered (requeue is s)) (maxDepth s) \<and>
    set (registered (requeue is s)) = set (registered s) \<union> set is"
  using assms
proof (induction "is" arbitrary: s)
  case (Cons i js)
  obtain removed q where p: "push (\<lambda>_. True) compareSnapshots i (queue s) = (removed, q)" by fastforce
  let ?t = "s\<lparr>registered := List.insert i (registered s), queue := q\<rparr>"
  have fresh: "i \<notin> set (registered s)" using Cons.prems(3) by auto
  have "queue_window q (List.insert i (registered s)) (maxDepth s)"
    using push_window [OF Cons.prems(1) fresh p]
  proof (elim disjE exE conjE)
    fix e
    assume e: "e \<noteq> i" "e \<in> set (items (queue s))" "set (items q) = insert i (set (items (queue s))) - {e}" "removed = [e]"
      and w: "queue_window q (removeAll e (registered s @ [i])) (maxDepth s)"
    have ev: "evicts compareSnapshots (maxDepth s) (i # items (queue s)) [e] (items q)"
      using by_id.push_ok [OF _ p] Cons.prems(1) e(4) by (simp add: queue_window_def)
    then have sizes: "mset [e] + mset (items q) = mset (i # items (queue s))"
        "int (length (items q)) = min (int (length (i # items (queue s)))) (maxDepth s)"
        "\<forall>k \<in> set (items q). e \<le> k"
      by (auto simp: evicts_def compareSnapshots_def)
    have full: "int (length (items q)) = maxDepth s" using arg_cong [OF sizes(1), of size] sizes(2) by simp
    have below: "r < k" if "r \<in> set (List.insert i (registered s)) - set (items q)" "k \<in> set (items q)" for r k
    proof (cases "r = e")
      case True
      then show ?thesis using that sizes(3) e(3) by (auto simp: less_le)
    next
      case False
      have "\<forall>r \<in> set (removeAll e (registered s @ [i])) - set (items q). \<forall>k \<in> set (items q). r < k"
        using w by (simp add: queue_window_def)
      with False that show ?thesis unfolding set_removeAll_append by auto
    qed
    have "set (items q) \<subseteq> set (removeAll e (registered s @ [i]))" using w by (simp add: queue_window_def)
    then have "set (items q) \<subseteq> set (List.insert i (registered s))" unfolding set_removeAll_append by auto
    moreover have "distinct (List.insert i (registered s))" using Cons.prems(1) by (simp add: queue_window_def)
    ultimately show ?thesis
      unfolding queue_window_def using w below full by (simp add: queue_window_def)
  qed (use fresh in \<open>auto simp: queue_window_def\<close>)
  then have t: "queue_window (queue ?t) (registered ?t) (maxDepth ?t)" by simp
  have "requeue (i # js) s = requeue js ?t" using p by (simp add: requeue_def)
  with Cons.IH [OF t] Cons.prems(2,3) show ?case by auto
qed (simp add: requeue_def)

lemma resized_ok:
  assumes "window_ok s"
  shows "window_ok (setMaxDepth depth s)" "set (registered (setMaxDepth depth s)) = set (items (queue s))"
proof -
  let ?t = "s\<lparr>maxDepth := max 1 depth, queue := createQueue (max 1 depth), registered := []\<rparr>"
  have "queue_window (queue ?t) (registered ?t) (maxDepth ?t)"
    by (simp add: queue_window_def queue_ok_def createQueue_def new_queue_def heap_def)
  moreover have "distinct (toArray (queue s))" using assms by (simp add: window_ok_def queue_window_def toArray_def)
  ultimately have r: "queue_window (queue (setMaxDepth depth s)) (registered (setMaxDepth depth s)) (max 1 depth) \<and>
      set (registered (setMaxDepth depth s)) = set (items (queue s))"
    using requeue_window [of ?t "toArray (queue s)"] by (simp add: setMaxDepth_def toArray_def)
  then show "set (registered (setMaxDepth depth s)) = set (items (queue s))" by blast
  have "set (items (queue s)) \<subseteq> dom (map_of (snapshots s))" "store_ok (snapshots s) (nextId s)"
    using assms by (auto simp: window_ok_def queue_window_def)
  moreover have "snapshots (setMaxDepth depth s) = snapshots s" "nextId (setMaxDepth depth s) = nextId s"
      "maxDepth (setMaxDepth depth s) = max 1 depth"
    by (simp_all add: setMaxDepth_def requeue_fields)
  ultimately show "window_ok (setMaxDepth depth s)" using r by (simp add: window_ok_def)
qed

lemma cleared_ok: "window_ok s \<Longrightarrow> window_ok (reset s)"
  by (auto simp: window_ok_def reset_def store_ok_def queue_window_def queue_ok_def createQueue_def new_queue_def heap_def)

lemma reachable_ok: "reachable_window s \<Longrightarrow> window_ok s"
proof (induction rule: reachable_window.induct)
  case (updated s i u)
  then show ?case using change_ok [OF _ assign_id] by (simp add: updateSnapshot_def)
qed (simp_all add: new_window_ok requested_ok change_ok appendDiff_def upsertRenderDiff_def registered_ok resized_ok cleared_ok)

section \<open>What callers see\<close>

lemma map_filter_total: "set xs \<subseteq> dom f \<Longrightarrow> List.map_filter f xs = map (the \<circ> f) xs"
  by (induction xs) (auto simp: map_filter_simps)

lemma listed:
  assumes "window_ok s"
  shows "map snap_id (list_snapshots s) = items (queue s)"
    and "x \<in> set (list_snapshots s) \<Longrightarrow> get_snapshot (snap_id x) s = Some x"
proof -
  have sub: "set (items (queue s)) \<subseteq> dom (map_of (snapshots s))"
    using assms by (auto simp: window_ok_def queue_window_def)
  have ids: "snap_id y = i" if "map_of (snapshots s) i = Some y" for i y
    using assms that by (simp add: window_ok_def store_ok_def)
  have list: "list_snapshots s = map (the \<circ> map_of (snapshots s)) (items (queue s))"
    using map_filter_total [OF sub] by (simp add: list_snapshots_def toArray_def)
  show "map snap_id (list_snapshots s) = items (queue s)"
    unfolding list using sub ids by (intro nth_equalityI) (auto simp: subset_iff dom_def)
  show "x \<in> set (list_snapshots s) \<Longrightarrow> get_snapshot (snap_id x) s = Some x"
    unfolding list get_snapshot_def using sub ids by (fastforce simp: dom_def)
qed

lemma window_size:
  assumes "queue_window q reg depth"
  shows "int (length (items q)) = min (int (card (set reg))) depth"
proof -
  have w: "distinct (items q)" "set (items q) \<subseteq> set reg" "int (length (items q)) \<le> depth"
      "set reg \<noteq> set (items q) \<longrightarrow> int (length (items q)) = depth"
    using assms by (auto simp: queue_window_def queue_ok_def)
  have card: "card (set (items q)) = length (items q)" using w(1) by (rule distinct_card)
  have "length (items q) \<le> card (set reg)" using card_mono [OF finite_set w(2)] card by simp
  then show ?thesis using w(3,4) card by (cases "set reg = set (items q)") auto
qed

text \<open>
  Resizing only changes the queue and the registrations: the window shrinks to the new depth, and
  every snapshot that leaves it stays in the lookup map.
\<close>

theorem resize_keeps_evicted:
  assumes "reachable_window s"
  shows "int (length (list_snapshots (setMaxDepth depth s))) \<le> max 1 depth \<and>
    (\<forall>i. get_snapshot i (setMaxDepth depth s) = get_snapshot i s)"
proof -
  have ok: "window_ok (setMaxDepth depth s)" using reachable_ok [OF assms] by (rule resized_ok)
  have "length (list_snapshots (setMaxDepth depth s)) = length (items (queue (setMaxDepth depth s)))"
    using arg_cong [OF listed(1) [OF ok], of length] by simp
  moreover have "maxDepth (setMaxDepth depth s) = max 1 depth" by (simp add: setMaxDepth_def requeue_fields)
  moreover have "int (length (items (queue (setMaxDepth depth s)))) \<le> maxDepth (setMaxDepth depth s)"
    using ok by (simp add: window_ok_def queue_window_def queue_ok_def)
  moreover have "snapshots (setMaxDepth depth s) = snapshots s" by (simp add: setMaxDepth_def requeue_fields)
  ultimately show ?thesis by (simp add: get_snapshot_def)
qed

section \<open>Properties\<close>

text \<open>
  At every point of an editing session, whatever was requested, updated, registered, resized or reset
  before, the listed window holds the newest registered snapshots: as many as are registered, up to the
  depth, each once and in its current state; every registered snapshot outside the window is older than
  all inside; and the next requested id belongs to no snapshot yet.
\<close>

theorem window_holds_newest:
  assumes "reachable_window s"
  shows "distinct (map snap_id (list_snapshots s)) \<and>
    int (length (list_snapshots s)) = min (int (card (set (registered s)))) (getMaxDepth s) \<and>
    (\<forall>x \<in> set (list_snapshots s). get_snapshot (snap_id x) s = Some x \<and> snap_id x \<in> set (registered s)) \<and>
    (\<forall>r \<in> set (registered s). (\<forall>x \<in> set (list_snapshots s). snap_id x \<noteq> r) \<longrightarrow>
       (\<forall>x \<in> set (list_snapshots s). r < snap_id x)) \<and>
    get_snapshot (fst (requestSnapshotId now base s)) s = None"
proof -
  have ok: "window_ok s" by (rule reachable_ok [OF assms])
  then have w: "queue_window (queue s) (registered s) (maxDepth s)" by (simp add: window_ok_def)
  have ids: "map snap_id (list_snapshots s) = items (queue s)" by (rule listed(1) [OF ok])
  then have set: "snap_id ` set (list_snapshots s) = set (items (queue s))" by (metis set_map)
  have "length (list_snapshots s) = length (items (queue s))" using arg_cong [OF ids, of length] by simp
  moreover have "map_of (snapshots s) (nextId s) = None"
    using ok by (cases "map_of (snapshots s) (nextId s)") (auto simp: window_ok_def store_ok_def)
  moreover have "\<forall>r \<in> set (registered s). r \<notin> set (items (queue s)) \<longrightarrow> (\<forall>k \<in> set (items (queue s)). r < k)"
      "distinct (items (queue s))" "set (items (queue s)) \<subseteq> set (registered s)"
    using w by (auto simp: queue_window_def)
  moreover have "\<forall>r \<in> set (registered s). (\<forall>x \<in> set (list_snapshots s). snap_id x \<noteq> r) \<longrightarrow>
      (\<forall>x \<in> set (list_snapshots s). r < snap_id x)"
    using calculation(3) unfolding set [symmetric] by (metis imageE imageI)
  moreover have "\<forall>x \<in> set (list_snapshots s). snap_id x \<in> set (registered s)"
    using calculation(5) unfolding set [symmetric] by blast
  ultimately show ?thesis
    using window_size [OF w] listed(2) [OF ok]
    by (simp add: ids getMaxDepth_def requestSnapshotId_def Let_def get_snapshot_def)
qed

definition demo_window :: Snapshotter where
  "demo_window = snd (registerSnapshot 1 (snd (requestSnapshotId 0 None (new_snapshotter 2))))"

theorem window_holds_newest_witness:
  "length (list_snapshots demo_window) = 1 \<and> get_snapshot 2 demo_window = None"
proof -
  have reach: "reachable_window demo_window"
    unfolding demo_window_def by (intro reachable_window.intros)
  have "registered demo_window = [1]" "nextId demo_window = 2" "maxDepth demo_window = 2"
    by (simp_all add: demo_window_def registerSnapshot_def requestSnapshotId_def new_snapshotter_def Let_def split_beta
        forget_def createQueue_def new_queue_def push_def trim_def trim_stop heapifyUp.simps)
  then show ?thesis
    using window_holds_newest [OF reach, of 0 None] by (simp add: getMaxDepth_def requestSnapshotId_def Let_def)
qed

end
