(* ===== verification/Shard_Routing.thy ===== *)
theory Shard_Routing
  imports Branch_Commit
begin

text \<open>
  Routing of a branch to its shard and the envelope of a call to it: the first part of
  \<^verbatim>\<open>packages/nulldown-state-plane/src/shard-router.ts\<close>.

  A shard is named by the first 32 bits of a digest of the branch identity, modulo the pool size. A call
  crosses the boundary as a value or as an error record; errors are rebuilt from their code and only when
  status, outcome and retry advice are the ones of that code. The lemmas show that every error survives the
  crossing and that anything else is \<open>State_Unavailable\<close>.
\<close>

section \<open>Shard names\<close>

definition BRANCH_STATE_SHARD_COUNT :: nat where
  "BRANCH_STATE_SHARD_COUNT = 16"

definition shard_preimage :: "BranchStateTarget \<Rightarrow> byte list" where
  "shard_preimage t = encodeText (js ''nulldown.branch-shard.v1'' @ [10] @ json_key [rootDropId t, branchId t])"

text \<open>\<^verbatim>\<open>new DataView(hash).getUint32(0, false)\<close>: big-endian.\<close>

definition get_uint32 :: "byte list \<Rightarrow> nat" where
  "get_uint32 bs = fold (\<lambda>b n. n * 256 + unat b) (take 4 bs) 0"

definition pad_start2 :: "jstring \<Rightarrow> jstring" where
  "pad_start2 s = replicate (2 - length s) 48 @ s"

definition branchStateShardName :: "platform \<Rightarrow> 'a BranchHeadQuery_scheme \<Rightarrow> jstring branch_result" where
  "branchStateShardName pf input =
     and_then (BranchStateQuery_head input) (\<lambda>query.
       if routingVersion (placement query) \<noteq> 1 then Inl Routing_Version_Unsupported
       else let index = get_uint32 (sha256 pf (shard_preimage (target query))) mod BRANCH_STATE_SHARD_COUNT
            in Inr (js ''branch-state-v1-'' @ pad_start2 (digits_nat index)))"

section \<open>The envelope\<close>

fun error_code :: "BranchStateError \<Rightarrow> jstring" where
  "error_code Forbidden = js ''forbidden''"
| "error_code Branch_Not_Active = js ''branch_not_active''"
| "error_code Source_Hash_Required = js ''source_hash_required''"
| "error_code Stale_Source = js ''stale_source''"
| "error_code Idempotency_Key_Reused = js ''idempotency_key_reused''"
| "error_code Runtime_Fact_Sequence_Exhausted = js ''runtime_fact_sequence_exhausted''"
| "error_code Invalid_Command = js ''invalid_command''"
| "error_code Branch_Not_Found = js ''branch_not_found''"
| "error_code Snapshot_Not_Found = js ''snapshot_not_found''"
| "error_code Branch_Initialization_Pending = js ''branch_initialization_pending''"
| "error_code Branch_Initialization_Conflict = js ''branch_initialization_conflict''"
| "error_code Routing_Placement_Mismatch = js ''routing_placement_mismatch''"
| "error_code Routing_Generation_Mismatch = js ''routing_generation_mismatch''"
| "error_code Routing_Version_Unsupported = js ''routing_version_unsupported''"
| "error_code Diff_Predecessor_Mismatch = js ''diff_predecessor_mismatch''"
| "error_code Diff_Event_Id_Reused = js ''diff_event_id_reused''"
| "error_code Snapshot_Version_Mismatch = js ''snapshot_version_mismatch''"
| "error_code Diff_Sequence_Exhausted = js ''diff_sequence_exhausted''"
| "error_code State_Corrupt = js ''state_corrupt''"
| "error_code Capability_Unsupported = js ''capability_unsupported''"
| "error_code State_Unavailable = js ''state_unavailable''"

definition error_codes :: "BranchStateError list" where
  "error_codes = [Forbidden, Branch_Not_Active, Source_Hash_Required, Stale_Source, Idempotency_Key_Reused,
     Runtime_Fact_Sequence_Exhausted, Invalid_Command, Branch_Not_Found, Snapshot_Not_Found,
     Branch_Initialization_Pending, Branch_Initialization_Conflict, Routing_Placement_Mismatch,
     Routing_Generation_Mismatch, Routing_Version_Unsupported, Diff_Predecessor_Mismatch, Diff_Event_Id_Reused,
     Snapshot_Version_Mismatch, Diff_Sequence_Exhausted, State_Corrupt, Capability_Unsupported, State_Unavailable]"

record rpc_error =
  re_code :: jstring
  re_status :: int
  re_outcome :: error_outcome
  re_retry :: error_retry

definition toRecord :: "BranchStateError \<Rightarrow> rpc_error" where
  "toRecord e = (case BRANCH_STATE_ERRORS e of (status, out, retry) \<Rightarrow>
     \<lparr>re_code = error_code e, re_status = status, re_outcome = out, re_retry = retry\<rparr>)"

text \<open>\<open>Rpc_Malformed\<close> is any reply without the envelope's shape.\<close>

datatype 'v BranchStateRpcResult = Rpc_Ok 'v | Rpc_Error rpc_error | Rpc_Malformed

definition branchStateRpcResult :: "'v outcome \<Rightarrow> 'v BranchStateRpcResult" where
  "branchStateRpcResult operation = (case operation of
     Inr v \<Rightarrow> Rpc_Ok v
   | Inl (Failed e) \<Rightarrow> Rpc_Error (toRecord e)
   | Inl (Thrown _) \<Rightarrow> Rpc_Error (toRecord State_Unavailable))"

definition decodeBranchStateRpcResult :: "'v BranchStateRpcResult \<Rightarrow> 'v branch_result" where
  "decodeBranchStateRpcResult result = (case result of
     Rpc_Ok v \<Rightarrow> Inr v
   | Rpc_Error r \<Rightarrow>
       (case find (\<lambda>e. error_code e = re_code r) error_codes of
          None \<Rightarrow> Inl State_Unavailable
        | Some e \<Rightarrow> if BRANCH_STATE_ERRORS e = (re_status r, re_outcome r, re_retry r) then Inl e else Inl State_Unavailable)
   | Rpc_Malformed \<Rightarrow> Inl State_Unavailable)"

section \<open>A call\<close>

text \<open>
  A shard's method acts on the state of that shard; transport may fail (\<open>Inl\<close>) after the shard has acted.
  The pool gives every shard name its state.
\<close>

type_synonym ('s, 'v) rpc = "'s \<Rightarrow> 'v BranchStateRpcResult outcome \<times> 's"
type_synonym 's pool = "jstring \<Rightarrow> 's"

fun received :: "'v BranchStateRpcResult outcome \<Rightarrow> 'v branch_result" where
  "received (Inr r) = decodeBranchStateRpcResult r"
| "received (Inl (Failed e)) = Inl e"
| "received (Inl (Thrown _)) = Inl State_Unavailable"

definition call ::
  "platform \<Rightarrow> (jstring \<Rightarrow> 'm) \<Rightarrow> 'a BranchHeadQuery_scheme \<Rightarrow> ('m \<Rightarrow> ('s, 'v) rpc branch_result) \<Rightarrow> 's pool
   \<Rightarrow> 'v branch_result \<times> 's pool" where
  "call pf resolve query invoke pool =
     (case branchStateShardName pf query of
        Inl e \<Rightarrow> (Inl e, pool)
      | Inr name \<Rightarrow>
          (case invoke (resolve name) of
             Inl e \<Rightarrow> (Inl e, pool)
           | Inr method \<Rightarrow> (case method (pool name) of (reply, s) \<Rightarrow> (received reply, pool(name := s)))))"

text \<open>\<^verbatim>\<open>if (!stub.method) throw new BranchStateError("capability_unsupported")\<close>.\<close>

definition capability :: "'f option \<Rightarrow> 'f branch_result" where
  "capability method = (case method of None \<Rightarrow> Inl Capability_Unsupported | Some f \<Rightarrow> Inr f)"

section \<open>Errors cross unchanged\<close>

text \<open>What a caller sees of an outcome: its value or its error, anything thrown as unavailability.\<close>

fun seen :: "'v outcome \<Rightarrow> 'v branch_result" where
  "seen (Inr v) = Inr v"
| "seen (Inl (Failed e)) = Inl e"
| "seen (Inl (Thrown _)) = Inl State_Unavailable"

lemma seen_lift_branch [simp]: "seen (lift_branch r) = r"
  by (cases r) simp_all

lemma error_code_inj: "error_code a = error_code b \<longleftrightarrow> a = b"
  by (cases a; cases b) (simp_all add: js_def)

lemma error_codes_complete: "e \<in> set error_codes"
  by (cases e) (simp_all add: error_codes_def)

lemma find_error_code: "find (\<lambda>x. error_code x = error_code e) error_codes = Some e"
proof -
  have "find (\<lambda>x. x = e) error_codes = Some e" by (cases e) (simp_all add: error_codes_def)
  then show ?thesis by (simp add: error_code_inj)
qed

lemma decode_toRecord: "decodeBranchStateRpcResult (Rpc_Error (toRecord e)) = Inl e"
  by (cases "BRANCH_STATE_ERRORS e") (simp add: decodeBranchStateRpcResult_def toRecord_def find_error_code)

lemma decode_encode [simp]: "decodeBranchStateRpcResult (branchStateRpcResult r) = seen r"
proof (cases r)
  case (Inl f)
  then show ?thesis by (cases f) (simp_all add: branchStateRpcResult_def decode_toRecord)
qed (simp add: branchStateRpcResult_def decodeBranchStateRpcResult_def)

text \<open>A name depends on the branch only, and there are at most as many as the pool has shards.\<close>

lemma shard_name_Inr_iff:
  "branchStateShardName pf q = Inr n \<longleftrightarrow> valid_target (target q) \<and> valid_placement (placement q) \<and>
     routingVersion (placement q) = 1 \<and>
     n = js ''branch-state-v1-'' @ pad_start2 (digits_nat (get_uint32 (sha256 pf (shard_preimage (target q))) mod 16))"
  by (auto simp: branchStateShardName_def BranchStateQuery_head_def query_of_def BRANCH_STATE_SHARD_COUNT_def Let_def)

lemma shard_name_cong:
  assumes "branchStateShardName pf q = Inr n" "branchStateShardName pf r = Inr m" "target q = target r"
  shows "n = m"
  using assms by (simp add: shard_name_Inr_iff)

lemma shard_name_Inl:
  assumes "valid_target (target q)" "valid_placement (placement q)" "branchStateShardName pf q = Inl e"
  shows "e = Routing_Version_Unsupported" "routingVersion (placement q) \<noteq> 1"
  using assms by (auto simp: branchStateShardName_def BranchStateQuery_head_def Let_def split: if_splits)

end
