(* ===== verification/Outbox_Alarm.thy ===== *)
theory Outbox_Alarm
  imports Outbox_Delivery
begin

text \<open>
  Wake-ups of one shard: \<^verbatim>\<open>packages/nulldown-state-plane/src/outbox-alarm.ts\<close> and the alarm of the Durable
  Object in \<^verbatim>\<open>branch-state-object.ts\<close>.

  The object's storage holds the wake state and one alarm. An update reads, normalizes, changes and
  writes the state and sets or deletes the alarm; updates are serialized, so each is one function. The
  alarm handler claims work between two updates and other calls schedule wakes meanwhile; those are an
  explicit list. Sending to the queue and the plane's answer to the claim are inputs.
\<close>

section \<open>The wake state\<close>

record OutboxWakeState =
  leaseUntil :: int
  retryPolling :: bool
  retryPolls :: int
  scheduledAt :: "int option"

definition OUTBOX_RETRY_POLL_MS :: int where
  "OUTBOX_RETRY_POLL_MS = 60000"

definition OUTBOX_RETRY_POLL_LIMIT :: int where
  "OUTBOX_RETRY_POLL_LIMIT = 1440"

definition OUTBOX_ALARM_DRAIN_MS :: int where
  "OUTBOX_ALARM_DRAIN_MS = 100"

definition OUTBOX_ALARM_BATCH_SIZE :: nat where
  "OUTBOX_ALARM_BATCH_SIZE = 5"

definition OUTBOX_LEASE_MS :: int where
  "OUTBOX_LEASE_MS = 60000"

definition idle_wake :: OutboxWakeState where
  "idle_wake = \<lparr>leaseUntil = 0, retryPolling = False, retryPolls = 0, scheduledAt = None\<rparr>"

definition valid_wake :: "OutboxWakeState \<Rightarrow> bool" where
  "valid_wake w \<longleftrightarrow> is_safe_integer (leaseUntil w) \<and> is_safe_integer (retryPolls w) \<and> retryPolls w \<ge> 0 \<and>
     (case scheduledAt w of None \<Rightarrow> True | Some t \<Rightarrow> is_safe_integer t \<and> t \<ge> 0)"

definition normalizeOutboxWakeState :: "OutboxWakeState option \<Rightarrow> OutboxWakeState" where
  "normalizeOutboxWakeState value =
     (case value of None \<Rightarrow> idle_wake | Some w \<Rightarrow> if valid_wake w then w else idle_wake)"

datatype wake_kind = New_Wake | Claim_Wake | Retry_Wake

definition scheduleOutboxWake :: "OutboxWakeState \<Rightarrow> wake_kind \<Rightarrow> int \<Rightarrow> int \<Rightarrow> OutboxWakeState" where
  "scheduleOutboxWake w k at_time lease =
     \<lparr>leaseUntil = max (leaseUntil w) lease,
      retryPolling = (k = Retry_Wake \<or> retryPolling w),
      retryPolls = (if k = Retry_Wake then 0 else retryPolls w),
      scheduledAt = Some (case scheduledAt w of None \<Rightarrow> at_time | Some t \<Rightarrow> min t at_time)\<rparr>"

definition outboxWakeAfterEmpty :: "OutboxWakeState \<Rightarrow> int \<Rightarrow> OutboxWakeState" where
  "outboxWakeAfterEmpty w now =
     (if (case scheduledAt w of None \<Rightarrow> False | Some t \<Rightarrow> t > now) then w
      else if now \<le> leaseUntil w then w\<lparr>scheduledAt := Some (leaseUntil w + 1)\<rparr>
      else if retryPolling w \<and> retryPolls w < OUTBOX_RETRY_POLL_LIMIT
      then w\<lparr>retryPolls := retryPolls w + 1, scheduledAt := Some (now + OUTBOX_RETRY_POLL_MS)\<rparr>
      else idle_wake)"

section \<open>The object\<close>

record wake_store =
  stored :: "OutboxWakeState option"
  alarm_at :: "int option"

text \<open>\<open>clock\<close> is \<^verbatim>\<open>Date.now()\<close> when the alarm is set.\<close>

definition updateWakeState :: "(OutboxWakeState \<Rightarrow> OutboxWakeState) \<Rightarrow> int \<Rightarrow> wake_store \<Rightarrow> wake_store" where
  "updateWakeState f clock st =
     (let w = f (normalizeOutboxWakeState (stored st)) in
      \<lparr>stored = Some w, alarm_at = map_option (max (clock + 1)) (scheduledAt w)\<rparr>)"

definition schedule_wake :: "bool \<Rightarrow> wake_kind \<Rightarrow> int \<Rightarrow> int \<Rightarrow> int \<Rightarrow> wake_store \<Rightarrow> wake_store" where
  "schedule_wake enabled k at_time lease clock st =
     (if \<not> enabled then st else updateWakeState (\<lambda>w. scheduleOutboxWake w k at_time lease) clock st)"

text \<open>Wakes of other calls: kind, time, lease and the clock at that moment.\<close>

record wake =
  wk_kind :: wake_kind
  wk_at :: int
  wk_lease :: int
  wk_clock :: int

definition interleave :: "wake list \<Rightarrow> wake_store \<Rightarrow> wake_store" where
  "interleave ws st = foldl (\<lambda>s w. schedule_wake True (wk_kind w) (wk_at w) (wk_lease w) (wk_clock w) s) st ws"

datatype claim_outcome = Claim_Failed | Claimed_Page int "bool list"

text \<open>\<open>Claimed_Page lease sends\<close>: the claim's lease end, and for each claimed item whether the queue took it.\<close>

definition alarm_disabled :: "int \<Rightarrow> wake_store \<Rightarrow> wake_store" where
  "alarm_disabled clock st =
     updateWakeState (\<lambda>w. w\<lparr>scheduledAt := None, retryPolling := False, retryPolls := 0, leaseUntil := 0\<rparr>) clock st"

definition alarm_begin :: "int \<Rightarrow> wake_store \<Rightarrow> wake_store" where
  "alarm_begin clock st = updateWakeState (\<lambda>w. w\<lparr>scheduledAt := None\<rparr>) clock st"

definition send_items :: "bool list \<Rightarrow> int \<Rightarrow> wake_store \<Rightarrow> wake_store" where
  "send_items sends clock st =
     foldl (\<lambda>s sent. if sent then s else schedule_wake True Retry_Wake (clock + OUTBOX_RETRY_POLL_MS) 0 clock s) st sends"

definition alarm_end :: "int \<Rightarrow> claim_outcome \<Rightarrow> int \<Rightarrow> wake_store \<Rightarrow> wake_store" where
  "alarm_end now outcome clock st =
     (case outcome of
        Claim_Failed \<Rightarrow> schedule_wake True Retry_Wake (clock + OUTBOX_RETRY_POLL_MS) 0 clock st
      | Claimed_Page lease sends \<Rightarrow>
          if sends = [] then updateWakeState (\<lambda>w. outboxWakeAfterEmpty w now) clock st
          else send_items sends clock
            (schedule_wake True Claim_Wake
               (if length sends = OUTBOX_ALARM_BATCH_SIZE then now + OUTBOX_ALARM_DRAIN_MS else lease + 1) lease clock st))"

text \<open>The handler, with the wakes that other calls schedule while it claims.\<close>

definition alarm :: "bool \<Rightarrow> int \<Rightarrow> wake list \<Rightarrow> claim_outcome \<Rightarrow> int \<Rightarrow> wake_store \<Rightarrow> wake_store" where
  "alarm enabled now ws outcome clock st =
     (if \<not> enabled then alarm_disabled now st
      else alarm_end now outcome clock (interleave ws (alarm_begin now st)))"

text \<open>The wakes of the object's own calls.\<close>

definition after_claim :: "bool \<Rightarrow> int \<Rightarrow> nat \<Rightarrow> int \<Rightarrow> wake_store \<Rightarrow> wake_store" where
  "after_claim enabled lease n clock st =
     (if n = 0 then st
      else schedule_wake enabled Claim_Wake
        (if n = OUTBOX_ALARM_BATCH_SIZE then clock + OUTBOX_ALARM_DRAIN_MS else lease + 1) lease clock st)"

definition after_retry :: "bool \<Rightarrow> nat \<Rightarrow> int \<Rightarrow> wake_store \<Rightarrow> wake_store" where
  "after_retry enabled retried clock st =
     (if retried = 0 then st else schedule_wake enabled Retry_Wake (clock + OUTBOX_RETRY_POLL_MS) 0 clock st)"

definition after_commit :: "bool \<Rightarrow> int \<Rightarrow> wake_store \<Rightarrow> wake_store" where
  "after_commit enabled clock st = schedule_wake enabled New_Wake (clock + 10) 0 clock st"

text \<open>
  A shard on which nothing else happens: alarms fire at or after the time they are set for, find nothing to
  claim and finish at a later clock. Firings are listed latest first, each with the clock at its end.
\<close>

inductive quiet_run :: "wake_store \<Rightarrow> (int \<times> int) list \<Rightarrow> wake_store \<Rightarrow> bool" where
  quiet_start: "quiet_run st [] st"
| quiet_fire: "quiet_run st ts st' \<Longrightarrow> alarm_at st' = Some a \<Longrightarrow> a \<le> t \<Longrightarrow> t \<le> c \<Longrightarrow>
    is_safe_integer (t + OUTBOX_RETRY_POLL_MS) \<Longrightarrow>
    quiet_run st ((t, c) # ts) (alarm True t [] (Claimed_Page l []) c st')"

inductive_cases quiet_run_ConsE: "quiet_run st (f # ts) st'"

section \<open>Wake states\<close>

lemmas wake_defs = updateWakeState_def schedule_wake_def scheduleOutboxWake_def outboxWakeAfterEmpty_def
  alarm_begin_def idle_wake_def OUTBOX_RETRY_POLL_MS_def OUTBOX_RETRY_POLL_LIMIT_def

lemma normalize_valid [simp]: "valid_wake (normalizeOutboxWakeState v)"
  by (auto simp: normalizeOutboxWakeState_def idle_wake_def valid_wake_def is_safe_integer_def max_safe_integer_def
      split: option.split)

lemma normalize_id [simp]: "valid_wake w \<Longrightarrow> normalizeOutboxWakeState (Some w) = w"
  by (simp add: normalizeOutboxWakeState_def)

text \<open>A wake whose times survive the validation on the next read.\<close>

definition sane_wake :: "int \<Rightarrow> wake \<Rightarrow> bool" where
  "sane_wake now w \<longleftrightarrow> now < wk_at w \<and> is_safe_integer (wk_at w) \<and> is_safe_integer (wk_lease w)"

lemma is_safe_max [intro]: "is_safe_integer a \<Longrightarrow> is_safe_integer b \<Longrightarrow> is_safe_integer (max a b)"
  by (simp add: max_def)

lemma schedule_valid:
  assumes "valid_wake w" "is_safe_integer t" "0 \<le> t" "is_safe_integer lease"
  shows "valid_wake (scheduleOutboxWake w k t lease)"
  using assms unfolding valid_wake_def scheduleOutboxWake_def
  by (cases "scheduledAt w") (auto simp: min_def is_safe_integer_def max_safe_integer_def)

text \<open>A wake never postpones what is scheduled, and never forgets a lease or a retry.\<close>

lemma schedule_keeps:
  shows "\<exists>s. scheduledAt (scheduleOutboxWake w k t lease) = Some s \<and> s \<le> t \<and> (\<forall>u. scheduledAt w = Some u \<longrightarrow> s \<le> u)"
    "leaseUntil w \<le> leaseUntil (scheduleOutboxWake w k t lease)" "lease \<le> leaseUntil (scheduleOutboxWake w k t lease)"
    "retryPolling w \<Longrightarrow> retryPolling (scheduleOutboxWake w k t lease)"
  by (auto simp: scheduleOutboxWake_def split: option.split)

lemma interleave_Cons [simp]:
  "interleave (w # ws) st = interleave ws (schedule_wake True (wk_kind w) (wk_at w) (wk_lease w) (wk_clock w) st)"
  by (simp add: interleave_def)

lemma interleave_Nil [simp]: "interleave [] st = st"
  by (simp add: interleave_def)

lemma interleave_future:
  assumes "stored st = Some w" "valid_wake w" "scheduledAt w = Some s" "now < s" "0 \<le> now" "list_all (sane_wake now) ws"
  shows "\<exists>w' s'. stored (interleave ws st) = Some w' \<and> valid_wake w' \<and> scheduledAt w' = Some s' \<and> now < s'"
  using assms
proof (induction ws arbitrary: st w s)
  case (Cons x ws)
  let ?w = "scheduleOutboxWake w (wk_kind x) (wk_at x) (wk_lease x)"
  from Cons.prems have "valid_wake ?w" by (intro schedule_valid) (auto simp: sane_wake_def)
  moreover have "scheduledAt ?w = Some (min s (wk_at x))" using Cons.prems(3) by (simp add: scheduleOutboxWake_def)
  moreover have "now < min s (wk_at x)" using Cons.prems by (simp add: sane_wake_def)
  moreover have "stored (schedule_wake True (wk_kind x) (wk_at x) (wk_lease x) (wk_clock x) st) = Some ?w"
    using Cons.prems by (simp add: schedule_wake_def updateWakeState_def Let_def)
  ultimately show ?case using Cons.IH Cons.prems(5,6) by simp
qed simp

lemma send_items_armed:
  "alarm_at st \<noteq> None \<Longrightarrow> alarm_at (send_items sends clock st) \<noteq> None"
proof (induction sends arbitrary: st)
  case (Cons x xs)
  then show ?case by (simp add: send_items_def schedule_wake_def updateWakeState_def scheduleOutboxWake_def Let_def)
qed (simp add: send_items_def)

lemma schedule_wake_armed: "alarm_at (schedule_wake True k t lease clock st) \<noteq> None"
  by (simp add: schedule_wake_def updateWakeState_def scheduleOutboxWake_def Let_def)

lemma alarm_begin_stored:
  "stored (alarm_begin now st) = Some ((normalizeOutboxWakeState (stored st))\<lparr>scheduledAt := None\<rparr>)"
  "valid_wake ((normalizeOutboxWakeState (stored st))\<lparr>scheduledAt := None\<rparr>)"
  using normalize_valid [of "stored st"] by (simp_all add: alarm_begin_def updateWakeState_def Let_def valid_wake_def)

lemma alarm_empty:
  "alarm True now [] (Claimed_Page l []) clock st =
     updateWakeState (\<lambda>w. outboxWakeAfterEmpty (w\<lparr>scheduledAt := None\<rparr>) now) clock st"
  using alarm_begin_stored(1) [of now st] alarm_begin_stored(2) [of st]
  by (simp add: alarm_def alarm_end_def updateWakeState_def Let_def)

text \<open>
  C37: the alarm handler leaves a shard without an alarm only when there is nothing left to wake for. With the
  outbox enabled, and other calls scheduling their wakes after the handler's start, the handler's end finds no
  alarm exactly when its claim succeeded and was empty, no wake arrived meanwhile, the last known lease has
  expired, and retry polling is off or has used all its polls. A failed claim, a claimed item, a failed send, a
  live lease or a concurrent commit always leaves the alarm set.
\<close>

theorem alarm_stays_armed:
  fixes st ws now
  defines "w \<equiv> normalizeOutboxWakeState (stored st)"
  assumes "0 \<le> now" "list_all (sane_wake now) ws"
  shows "alarm_at (alarm True now ws outcome clock st) = None \<longleftrightarrow>
    (\<exists>lease. outcome = Claimed_Page lease []) \<and> ws = [] \<and> leaseUntil w < now \<and>
    (retryPolling w \<longrightarrow> OUTBOX_RETRY_POLL_LIMIT \<le> retryPolls w)"
proof (cases "\<exists>lease. outcome = Claimed_Page lease []")
  case False
  then have "alarm_at (alarm_end now outcome clock s) \<noteq> None" for s
    using schedule_wake_armed send_items_armed by (cases outcome) (simp_all add: alarm_end_def del: not_None_eq)
  with False show ?thesis by (simp add: alarm_def)
next
  case True
  then obtain lease where o: "outcome = Claimed_Page lease []" by blast
  show ?thesis
  proof (cases ws)
    case Nil
    then show ?thesis unfolding o by (auto simp: alarm_empty w_def wake_defs Let_def)
  next
    case (Cons x xs)
    let ?w = "w\<lparr>scheduledAt := None\<rparr>" and ?s = "alarm_begin now st"
    let ?x = "schedule_wake True (wk_kind x) (wk_at x) (wk_lease x) (wk_clock x) ?s"
    note b = alarm_begin_stored(1) [of now st, folded w_def] alarm_begin_stored(2) [of st, folded w_def]
    have "stored ?x = Some (scheduleOutboxWake ?w (wk_kind x) (wk_at x) (wk_lease x))"
      using b by (simp add: schedule_wake_def updateWakeState_def Let_def)
    moreover have "valid_wake (scheduleOutboxWake ?w (wk_kind x) (wk_at x) (wk_lease x))"
      using assms(2,3) Cons b(2) by (intro schedule_valid) (auto simp: sane_wake_def)
    moreover have "scheduledAt (scheduleOutboxWake ?w (wk_kind x) (wk_at x) (wk_lease x)) = Some (wk_at x)"
      by (simp add: scheduleOutboxWake_def)
    ultimately obtain w' s' where "stored (interleave xs ?x) = Some w'" "valid_wake w'" "scheduledAt w' = Some s'" "now < s'"
      using interleave_future [of ?x _ "wk_at x" now xs] assms(2,3) Cons by (auto simp: sane_wake_def)
    then show ?thesis using Cons o
      by (simp add: alarm_def alarm_end_def updateWakeState_def outboxWakeAfterEmpty_def Let_def)
  qed
qed

theorem alarm_stays_armed_witness:
  "alarm_at (alarm True 5000 [] (Claimed_Page 65000 []) 5001 \<lparr>stored = None, alarm_at = None\<rparr>) = None \<and>
   alarm_at (alarm True 5000 [\<lparr>wk_kind = New_Wake, wk_at = 5012, wk_lease = 0, wk_clock = 5002\<rparr>] (Claimed_Page 65000 []) 5003
     \<lparr>stored = None, alarm_at = None\<rparr>) \<noteq> None"
proof
  show "alarm_at (alarm True 5000 [] (Claimed_Page 65000 []) 5001 \<lparr>stored = None, alarm_at = None\<rparr>) = None"
    using alarm_stays_armed [of 5000 "[]" "Claimed_Page 65000 []" 5001 "\<lparr>stored = None, alarm_at = None\<rparr>"]
    by (simp add: normalizeOutboxWakeState_def idle_wake_def)
  let ?w = "\<lparr>wk_kind = New_Wake, wk_at = 5012, wk_lease = 0, wk_clock = 5002\<rparr>"
  have "sane_wake 5000 ?w" by (simp add: sane_wake_def is_safe_integer_def max_safe_integer_def)
  then show "alarm_at (alarm True 5000 [?w] (Claimed_Page 65000 []) 5003 \<lparr>stored = None, alarm_at = None\<rparr>) \<noteq> None"
    using alarm_stays_armed [of 5000 "[?w]" "Claimed_Page 65000 []" 5003 "\<lparr>stored = None, alarm_at = None\<rparr>"] by simp
qed

section \<open>Retry polling\<close>

text \<open>The state of a polling shard after \<open>n\<close> firings since the retry wake at \<open>start\<close>.\<close>

definition polling :: "int \<Rightarrow> int \<Rightarrow> nat \<Rightarrow> wake_store \<Rightarrow> bool" where
  "polling lease start n st \<longleftrightarrow> (\<exists>w a. stored st = Some w \<and> valid_wake w \<and> retryPolling w \<and> leaseUntil w = lease \<and>
     alarm_at st = Some a \<and> start + OUTBOX_RETRY_POLL_MS * retryPolls w \<le> a \<and>
     int n \<le> retryPolls w + (if lease < a then 1 else 0))"

lemma retry_wake_polling:
  assumes "0 \<le> clock" "is_safe_integer (clock + OUTBOX_RETRY_POLL_MS)" "0 < k"
  shows "polling (max (leaseUntil (normalizeOutboxWakeState (stored st))) 0) clock 0 (after_retry True k clock st)"
proof -
  let ?w = "normalizeOutboxWakeState (stored st)"
  have "valid_wake (scheduleOutboxWake ?w Retry_Wake (clock + OUTBOX_RETRY_POLL_MS) 0)"
    using assms by (intro schedule_valid) (auto simp: OUTBOX_RETRY_POLL_MS_def is_safe_integer_def max_safe_integer_def)
  then show ?thesis using assms(3)
    by (auto simp: polling_def after_retry_def schedule_wake_def updateWakeState_def Let_def scheduleOutboxWake_def)
qed

lemma poll_step:
  fixes x
  assumes p: "polling lease start n st" and a: "alarm_at st = Some a" "a \<le> t" "t \<le> c"
    and t: "t < start + 61440000" "0 \<le> start" "is_safe_integer (t + OUTBOX_RETRY_POLL_MS)" and l: "lease < max_safe_integer" "0 \<le> lease"
  defines "st' \<equiv> alarm True t [] (Claimed_Page x []) c st"
  shows "polling lease start (Suc n) st'" "n \<le> 1024"
    "\<exists>a'. alarm_at st' = Some a' \<and> t < a' \<and> a' \<le> max (c + 1) (max (lease + 1) (t + OUTBOX_RETRY_POLL_MS))"
proof -
  from p a(1) obtain w where w: "stored st = Some w" "valid_wake w" "retryPolling w" "leaseUntil w = lease"
    and aw: "start + 60000 * retryPolls w \<le> a" "int n \<le> retryPolls w + (if lease < a then 1 else 0)"
    by (auto simp: polling_def OUTBOX_RETRY_POLL_MS_def)
  then have r: "0 \<le> retryPolls w" "retryPolls w < 1024" using a(2) t(1) by (auto simp: valid_wake_def)
  then show "n \<le> 1024" using aw(2) by (simp split: if_splits)
  let ?w = "outboxWakeAfterEmpty (w\<lparr>scheduledAt := None\<rparr>) t"
  have st': "st' = \<lparr>stored = Some ?w, alarm_at = map_option (max (c + 1)) (scheduledAt ?w)\<rparr>"
    using w by (simp add: st'_def alarm_empty updateWakeState_def Let_def)
  show "polling lease start (Suc n) st'"
  proof (cases "t \<le> lease")
    case True
    then have "?w = w\<lparr>scheduledAt := Some (lease + 1)\<rparr>" using w(4) by (simp add: outboxWakeAfterEmpty_def)
    with True w aw a t l st' show ?thesis
      by (auto simp: polling_def valid_wake_def is_safe_integer_def OUTBOX_RETRY_POLL_MS_def)
  next
    case False
    then have "?w = w\<lparr>retryPolls := retryPolls w + 1, scheduledAt := Some (t + 60000)\<rparr>"
      using w r by (simp add: outboxWakeAfterEmpty_def OUTBOX_RETRY_POLL_LIMIT_def OUTBOX_RETRY_POLL_MS_def)
    with False w aw a t l r st' show ?thesis
      by (auto simp: polling_def valid_wake_def is_safe_integer_def OUTBOX_RETRY_POLL_MS_def max_safe_integer_def split: if_splits)
  qed
  show "\<exists>a'. alarm_at st' = Some a' \<and> t < a' \<and> a' \<le> max (c + 1) (max (lease + 1) (t + OUTBOX_RETRY_POLL_MS))"
    using w r a(3) unfolding st'
    by (auto simp: outboxWakeAfterEmpty_def OUTBOX_RETRY_POLL_LIMIT_def OUTBOX_RETRY_POLL_MS_def)
qed

lemma quiet_run_later:
  assumes "quiet_run st ((t, c) # ts) st'" "alarm_at st' = Some a"
  shows "t < a"
  using assms by (elim quiet_run_ConsE) (auto simp: alarm_empty updateWakeState_def Let_def)

lemma quiet_run_polling:
  assumes "quiet_run st ts st'" "polling lease start 0 st" "ts \<noteq> [] \<longrightarrow> fst (hd ts) < start + 61440000"
    and "0 \<le> start" "lease < max_safe_integer" "0 \<le> lease"
  shows "polling lease start (length ts) st'"
  using assms
proof (induction rule: quiet_run.induct)
  case (quiet_fire st ts st' a t c l)
  have "ts \<noteq> [] \<longrightarrow> fst (hd ts) < start + 61440000"
    using quiet_run_later [of st _ _ _ st' a] quiet_fire by (cases ts) force+
  then show ?case using quiet_fire poll_step(1) [of lease start "length ts" st' a t c] by simp
qed simp

text \<open>
  C38: retry polling lasts until the retried work is due. Let an item be retried at \<open>now\<close> with its next attempt
  due at \<open>outboxRetryAt\<close>, and let the shard's retry wake follow. Then however late the alarms fire and however
  long the handlers take, as long as nothing is claimed and the last firing is still before the due time, the
  shard has an alarm after that firing and no later than one poll interval, or the end of a known lease, after
  it; and at most 1025 firings happen before the due time. The limit of 1440 polls is never what stops them.
\<close>

theorem retry_polls_reach_due_work:
  fixes st
  defines "lease \<equiv> max (leaseUntil (normalizeOutboxWakeState (stored st))) 0"
  assumes "outboxRetryAt now attempt = Inr due" "now \<le> clock" "0 \<le> clock" "is_safe_integer (clock + OUTBOX_RETRY_POLL_MS)"
    and "0 < k" "lease < max_safe_integer"
    and run: "quiet_run (after_retry True k clock st) ((t, c) # ts) st'" and "t < due"
  shows "(\<exists>a. alarm_at st' = Some a \<and> t < a \<and> a \<le> max (c + 1) (max (lease + 1) (t + OUTBOX_RETRY_POLL_MS))) \<and>
    length ((t, c) # ts) \<le> 1025"
proof -
  have due: "t < clock + 61440000"
    using assms(3,9) retry_Inr(1) [OF assms(2)] retry_delay_bounds(2) [of "attempt - 1"] by linarith
  from run obtain s a l where s: "quiet_run (after_retry True k clock st) ts s" "alarm_at s = Some a" "a \<le> t" "t \<le> c"
      "is_safe_integer (t + OUTBOX_RETRY_POLL_MS)" "st' = alarm True t [] (Claimed_Page l []) c s"
    by (elim quiet_run_ConsE) auto
  have "ts \<noteq> [] \<longrightarrow> fst (hd ts) < clock + 61440000"
    using quiet_run_later [of _ _ _ _ s a] s due by (cases ts) force+
  then have "polling lease clock (length ts) s"
    using quiet_run_polling [OF s(1)] retry_wake_polling [OF assms(4-6)] assms(4,7) by (simp add: lease_def)
  from poll_step [OF this s(2-4) due assms(4) s(5) assms(7)] s(6) show ?thesis by (simp add: lease_def)
qed

theorem retry_polls_reach_due_work_witness:
  "\<exists>st' a. quiet_run (after_retry True 1 1000 \<lparr>stored = None, alarm_at = None\<rparr>) [(61000, 61005)] st' \<and>
     alarm_at st' = Some a \<and> 61000 < a \<and> a \<le> 121000"
proof -
  let ?st = "\<lparr>stored = None, alarm_at = None\<rparr> :: wake_store"
  have r: "outboxRetryAt 1000 2 = Inr 121000"
    by (simp add: outboxRetryAt_def Let_def is_safe_integer_def max_safe_integer_def)
  have safe: "is_safe_integer (1000 + OUTBOX_RETRY_POLL_MS)" "is_safe_integer (61000 + OUTBOX_RETRY_POLL_MS)"
    by (simp_all add: OUTBOX_RETRY_POLL_MS_def is_safe_integer_def max_safe_integer_def)
  have l: "leaseUntil (normalizeOutboxWakeState (stored ?st)) = 0"
    by (simp add: normalizeOutboxWakeState_def idle_wake_def)
  have "alarm_at (after_retry True 1 1000 ?st) = Some 61000"
    by (simp add: after_retry_def wake_defs normalizeOutboxWakeState_def Let_def)
  then have run: "quiet_run (after_retry True 1 1000 ?st) [(61000, 61005)]
      (alarm True 61000 [] (Claimed_Page 0 []) 61005 (after_retry True 1 1000 ?st))"
    using safe(2) by (intro quiet_fire [where a = 61000] quiet_start) simp_all
  from retry_polls_reach_due_work [OF r _ _ safe(1) _ _ run] l run show ?thesis
    by (auto simp: max_safe_integer_def OUTBOX_RETRY_POLL_MS_def)
qed

end
