(* ===== verification/Shard_Object.thy ===== *)
theory Shard_Object
  imports Shard_Routing Memory_Plane Outbox_Alarm
begin

text \<open>
  The shard itself: the remote methods of \<^verbatim>\<open>packages/nulldown-state-plane/src/branch-state-object.ts\<close> and the
  interface \<^verbatim>\<open>BranchStateRpcStub\<close> of \<^verbatim>\<open>shard-router.ts\<close> they are called through.

  A shard keeps a state plane and the wake state of its alarm (theory \<open>Outbox_Alarm\<close>). The plane is a
  parameter: a record of its operations over a state of any type; the source runs the SQLite plane there.
  Every method captures its input, refuses branches that belong to another shard, calls the plane, and
  after a write that may have published work schedules a wake.
\<close>

section \<open>The plane behind a shard\<close>

record BranchNullMemPutResult = BranchNullMemResult +
  nr_record :: json

record BranchNullMemDeleteResult = BranchNullMemResult +
  nr_recordId :: jstring

record 'p state_plane =
  pl_queryNullMem :: "'p \<Rightarrow> BranchNullMemQuery \<Rightarrow> BranchNullMemQueryResult outcome"
  pl_putNullMem :: "'p \<Rightarrow> BranchNullMemPutCommand \<Rightarrow> BranchNullMemPutResult outcome \<times> 'p"
  pl_deleteNullMem :: "'p \<Rightarrow> BranchNullMemDeleteCommand \<Rightarrow> BranchNullMemDeleteResult outcome \<times> 'p"
  pl_appendRuntimeFact :: "'p \<Rightarrow> BranchRuntimeFactAppendCommand \<Rightarrow> BranchRuntimeFactAppendResult outcome \<times> 'p"
  pl_readRuntimeFactHead :: "'p \<Rightarrow> BranchHeadQuery \<Rightarrow> BranchRuntimeFactHead outcome"
  pl_readRuntimeFacts :: "'p \<Rightarrow> BranchRuntimeFactPageQuery \<Rightarrow> BranchRuntimeFactPage outcome"
  pl_readPlacement :: "'p \<Rightarrow> BranchStateTarget \<Rightarrow> (BranchAuthorityRecord option) outcome"
  pl_reserve :: "'p \<Rightarrow> BranchReserveRecord \<Rightarrow> BranchReserveOutcome outcome \<times> 'p"
  pl_initialize :: "'p \<Rightarrow> BranchInitializeRecord \<Rightarrow> BranchInitializeOutcome outcome \<times> 'p"
  pl_readSnapshot :: "'p \<Rightarrow> BranchSnapshotQuery \<Rightarrow> (BranchSnapshotState option) outcome"
  pl_listSnapshots :: "'p \<Rightarrow> BranchSnapshotPageQuery \<Rightarrow> BranchSnapshotPage outcome"
  pl_appendBatch :: "'p \<Rightarrow> BranchBatchAppendRecord \<Rightarrow> BranchBatchAppendResult outcome \<times> 'p"
  pl_append :: "'p \<Rightarrow> BranchAppendRecord \<Rightarrow> BranchAppendOutcome outcome \<times> 'p"
  pl_readHead :: "'p \<Rightarrow> BranchHeadQuery \<Rightarrow> BranchStateHead outcome"
  pl_readContent :: "'p \<Rightarrow> BranchContentQuery \<Rightarrow> BranchStateContent outcome"
  pl_readEvents :: "'p \<Rightarrow> BranchEventRangeQuery \<Rightarrow> (DropDiffEvent list) outcome"

section \<open>The stub\<close>

record 's BranchStateRpcStub =
  stub_queryNullMem :: "(BranchNullMemQuery \<Rightarrow> ('s, BranchNullMemQueryResult) rpc) option"
  stub_putNullMem :: "(BranchNullMemPutCommand \<Rightarrow> ('s, BranchNullMemPutResult) rpc) option"
  stub_deleteNullMem :: "(BranchNullMemDeleteCommand \<Rightarrow> ('s, BranchNullMemDeleteResult) rpc) option"
  stub_appendRuntimeFact :: "(BranchRuntimeFactAppendCommand \<Rightarrow> ('s, BranchRuntimeFactAppendResult) rpc) option"
  stub_readRuntimeFactHead :: "(BranchHeadQuery \<Rightarrow> ('s, BranchRuntimeFactHead) rpc) option"
  stub_readRuntimeFacts :: "(BranchRuntimeFactPageQuery \<Rightarrow> ('s, BranchRuntimeFactPage) rpc) option"
  stub_readPlacement :: "(BranchStateTarget \<Rightarrow> ('s, BranchAuthorityRecord option) rpc) option"
  stub_reserve :: "(BranchReserveRecord \<Rightarrow> ('s, BranchReserveOutcome) rpc) option"
  stub_initialize :: "(BranchInitializeRecord \<Rightarrow> ('s, BranchInitializeOutcome) rpc) option"
  stub_readSnapshot :: "(BranchSnapshotQuery \<Rightarrow> ('s, BranchSnapshotState option) rpc) option"
  stub_listSnapshots :: "(BranchSnapshotPageQuery \<Rightarrow> ('s, BranchSnapshotPage) rpc) option"
  stub_appendBatch :: "(BranchBatchAppendRecord \<Rightarrow> ('s, BranchBatchAppendResult) rpc) option"
  stub_append :: "BranchAppendRecord \<Rightarrow> ('s, BranchAppendOutcome) rpc"
  stub_readHead :: "BranchHeadQuery \<Rightarrow> ('s, BranchStateHead) rpc"
  stub_readContent :: "BranchContentQuery \<Rightarrow> ('s, BranchStateContent) rpc"
  stub_readEvents :: "BranchEventRangeQuery \<Rightarrow> ('s, DropDiffEvent list) rpc"

section \<open>The object\<close>

record 'p shard =
  sh_plane :: 'p
  sh_wake :: wake_store

text \<open>The bindings of the object: its name, whether the outbox is enabled, and the clock.\<close>

record shard_env =
  se_name :: jstring
  se_outbox :: bool
  se_clock :: int

definition object_placement :: "platform \<Rightarrow> shard_env \<Rightarrow> 'a BranchHeadQuery_scheme \<Rightarrow> unit outcome" where
  "object_placement pf env query =
     and_then (lift_branch (branchStateShardName pf query)) (\<lambda>name.
       if name \<noteq> se_name env then Inl (Failed Routing_Placement_Mismatch) else Inr ())"

text \<open>A method that only reads.\<close>

definition object_read :: "('p \<Rightarrow> 'v outcome) \<Rightarrow> unit outcome \<Rightarrow> ('p shard, 'v) rpc" where
  "object_read operation admitted sh =
     (Inr (branchStateRpcResult (and_then admitted (\<lambda>_. operation (sh_plane sh)))), sh)"

text \<open>A method that writes; \<open>wakes\<close> tells whether a success schedules a wake.\<close>

definition object_write ::
  "shard_env \<Rightarrow> bool \<Rightarrow> ('p \<Rightarrow> 'v outcome \<times> 'p) \<Rightarrow> unit outcome \<Rightarrow> ('p shard, 'v) rpc" where
  "object_write env wakes operation admitted sh =
     (case admitted of
        Inl e \<Rightarrow> (Inr (branchStateRpcResult (Inl e)), sh)
      | Inr _ \<Rightarrow>
          (case operation (sh_plane sh) of
             (Inl e, p) \<Rightarrow> (Inr (branchStateRpcResult (Inl e)), sh \<lparr>sh_plane := p\<rparr>)
           | (Inr v, p) \<Rightarrow> (Inr (branchStateRpcResult (Inr v)),
               \<lparr>sh_plane = p, sh_wake = (if wakes then after_commit (se_outbox env) (se_clock env) (sh_wake sh) else sh_wake sh)\<rparr>)))"

definition refused :: "BranchStateError \<Rightarrow> ('p shard, 'v) rpc" where
  "refused e sh = (Inr (branchStateRpcResult (Inl (Failed e))), sh)"

definition object_queryNullMem :: "platform \<Rightarrow> shard_env \<Rightarrow> 'p state_plane \<Rightarrow> BranchNullMemQuery \<Rightarrow> ('p shard, BranchNullMemQueryResult) rpc" where
  "object_queryNullMem pf env plane input =
     (case captureNullMemQuery input of
        Inl e \<Rightarrow> refused e
      | Inr query \<Rightarrow> object_read (\<lambda>p. pl_queryNullMem plane p query) (object_placement pf env query))"

definition object_putNullMem :: "platform \<Rightarrow> shard_env \<Rightarrow> 'p state_plane \<Rightarrow> BranchNullMemPutCommand \<Rightarrow> ('p shard, BranchNullMemPutResult) rpc" where
  "object_putNullMem pf env plane input =
     (case captureNullMemPut input of
        Inl e \<Rightarrow> refused e
      | Inr query \<Rightarrow> object_write env True (\<lambda>p. pl_putNullMem plane p query) (object_placement pf env query))"

definition object_deleteNullMem :: "platform \<Rightarrow> shard_env \<Rightarrow> 'p state_plane \<Rightarrow> BranchNullMemDeleteCommand \<Rightarrow> ('p shard, BranchNullMemDeleteResult) rpc" where
  "object_deleteNullMem pf env plane input =
     (case captureNullMemDelete input of
        Inl e \<Rightarrow> refused e
      | Inr query \<Rightarrow> object_write env True (\<lambda>p. pl_deleteNullMem plane p query) (object_placement pf env query))"

definition object_appendRuntimeFact :: "platform \<Rightarrow> shard_env \<Rightarrow> 'p state_plane \<Rightarrow> BranchRuntimeFactAppendCommand \<Rightarrow> ('p shard, BranchRuntimeFactAppendResult) rpc" where
  "object_appendRuntimeFact pf env plane input =
     (case captureRuntimeFactAppend input of
        Inl e \<Rightarrow> refused e
      | Inr query \<Rightarrow> object_write env True (\<lambda>p. pl_appendRuntimeFact plane p query) (object_placement pf env query))"

definition object_readRuntimeFactHead :: "platform \<Rightarrow> shard_env \<Rightarrow> 'p state_plane \<Rightarrow> BranchHeadQuery \<Rightarrow> ('p shard, BranchRuntimeFactHead) rpc" where
  "object_readRuntimeFactHead pf env plane input =
     (case BranchStateQuery_head input of
        Inl e \<Rightarrow> refused e
      | Inr query \<Rightarrow> object_read (\<lambda>p. pl_readRuntimeFactHead plane p query) (object_placement pf env query))"

definition object_readRuntimeFacts :: "platform \<Rightarrow> shard_env \<Rightarrow> 'p state_plane \<Rightarrow> BranchRuntimeFactPageQuery \<Rightarrow> ('p shard, BranchRuntimeFactPage) rpc" where
  "object_readRuntimeFacts pf env plane input =
     (case captureRuntimeFactPage input of
        Inl e \<Rightarrow> refused e
      | Inr query \<Rightarrow> object_read (\<lambda>p. pl_readRuntimeFacts plane p query) (object_placement pf env query))"

definition object_readPlacement :: "platform \<Rightarrow> shard_env \<Rightarrow> 'p state_plane \<Rightarrow> BranchStateTarget \<Rightarrow> ('p shard, BranchAuthorityRecord option) rpc" where
  "object_readPlacement pf env plane input =
     (case BranchLifecycleQuery_placement input of
        Inl e \<Rightarrow> refused e
      | Inr query \<Rightarrow> object_read (\<lambda>p. pl_readPlacement plane p query) (object_placement pf env \<lparr>target = query, placement = \<lparr>routingVersion = 1, generation = 0\<rparr>\<rparr>))"

definition object_reserve :: "platform \<Rightarrow> shard_env \<Rightarrow> 'p state_plane \<Rightarrow> BranchReserveRecord \<Rightarrow> ('p shard, BranchReserveOutcome) rpc" where
  "object_reserve pf env plane input =
     (case BranchLifecycleQuery_reserve input of
        Inl e \<Rightarrow> refused e
      | Inr query \<Rightarrow> object_write env False (\<lambda>p. pl_reserve plane p query) (object_placement pf env query))"

definition object_initialize :: "platform \<Rightarrow> shard_env \<Rightarrow> 'p state_plane \<Rightarrow> BranchInitializeRecord \<Rightarrow> ('p shard, BranchInitializeOutcome) rpc" where
  "object_initialize pf env plane input =
     (case BranchLifecycleQuery_initialize input of
        Inl e \<Rightarrow> refused e
      | Inr query \<Rightarrow> object_write env True (\<lambda>p. pl_initialize plane p query) (object_placement pf env query))"

definition object_readSnapshot :: "platform \<Rightarrow> shard_env \<Rightarrow> 'p state_plane \<Rightarrow> BranchSnapshotQuery \<Rightarrow> ('p shard, BranchSnapshotState option) rpc" where
  "object_readSnapshot pf env plane input =
     (case BranchLifecycleQuery_snapshot input of
        Inl e \<Rightarrow> refused e
      | Inr query \<Rightarrow> object_read (\<lambda>p. pl_readSnapshot plane p query) (object_placement pf env query))"

definition object_listSnapshots :: "platform \<Rightarrow> shard_env \<Rightarrow> 'p state_plane \<Rightarrow> BranchSnapshotPageQuery \<Rightarrow> ('p shard, BranchSnapshotPage) rpc" where
  "object_listSnapshots pf env plane input =
     (case BranchLifecycleQuery_page input of
        Inl e \<Rightarrow> refused e
      | Inr query \<Rightarrow> object_read (\<lambda>p. pl_listSnapshots plane p query) (object_placement pf env query))"

definition object_appendBatch :: "platform \<Rightarrow> shard_env \<Rightarrow> 'p state_plane \<Rightarrow> BranchBatchAppendRecord \<Rightarrow> ('p shard, BranchBatchAppendResult) rpc" where
  "object_appendBatch pf env plane command =
     object_write env True (\<lambda>p. pl_appendBatch plane p command)
       (and_then (lift_branch (BranchStateQuery_head command)) (object_placement pf env))"

definition object_append :: "platform \<Rightarrow> shard_env \<Rightarrow> 'p state_plane \<Rightarrow> BranchAppendRecord \<Rightarrow> ('p shard, BranchAppendOutcome) rpc" where
  "object_append pf env plane command =
     object_write env True (\<lambda>p. pl_append plane p command)
       (and_then (lift_branch (BranchStateQuery_head command)) (object_placement pf env))"

definition object_readHead :: "platform \<Rightarrow> shard_env \<Rightarrow> 'p state_plane \<Rightarrow> BranchHeadQuery \<Rightarrow> ('p shard, BranchStateHead) rpc" where
  "object_readHead pf env plane input =
     (case BranchStateQuery_head input of
        Inl e \<Rightarrow> refused e
      | Inr query \<Rightarrow> object_read (\<lambda>p. pl_readHead plane p query) (object_placement pf env query))"

definition object_readContent :: "platform \<Rightarrow> shard_env \<Rightarrow> 'p state_plane \<Rightarrow> BranchContentQuery \<Rightarrow> ('p shard, BranchStateContent) rpc" where
  "object_readContent pf env plane input =
     (case BranchStateQuery_content input of
        Inl e \<Rightarrow> refused e
      | Inr query \<Rightarrow> object_read (\<lambda>p. pl_readContent plane p query) (object_placement pf env query))"

definition object_readEvents :: "platform \<Rightarrow> shard_env \<Rightarrow> 'p state_plane \<Rightarrow> BranchEventRangeQuery \<Rightarrow> ('p shard, DropDiffEvent list) rpc" where
  "object_readEvents pf env plane input =
     (case BranchStateQuery_range input of
        Inl e \<Rightarrow> refused e
      | Inr query \<Rightarrow> object_read (\<lambda>p. pl_readEvents plane p query) (object_placement pf env query))"

text \<open>The stub the pool resolves a name to.\<close>

definition object_stub :: "platform \<Rightarrow> (jstring \<Rightarrow> shard_env) \<Rightarrow> 'p state_plane \<Rightarrow> jstring \<Rightarrow> 'p shard BranchStateRpcStub" where
  "object_stub pf envs plane name =
     \<lparr>stub_queryNullMem = Some (object_queryNullMem pf (envs name) plane),
      stub_putNullMem = Some (object_putNullMem pf (envs name) plane),
      stub_deleteNullMem = Some (object_deleteNullMem pf (envs name) plane),
      stub_appendRuntimeFact = Some (object_appendRuntimeFact pf (envs name) plane),
      stub_readRuntimeFactHead = Some (object_readRuntimeFactHead pf (envs name) plane),
      stub_readRuntimeFacts = Some (object_readRuntimeFacts pf (envs name) plane),
      stub_readPlacement = Some (object_readPlacement pf (envs name) plane),
      stub_reserve = Some (object_reserve pf (envs name) plane),
      stub_initialize = Some (object_initialize pf (envs name) plane),
      stub_readSnapshot = Some (object_readSnapshot pf (envs name) plane),
      stub_listSnapshots = Some (object_listSnapshots pf (envs name) plane),
      stub_appendBatch = Some (object_appendBatch pf (envs name) plane),
      stub_append = object_append pf (envs name) plane,
      stub_readHead = object_readHead pf (envs name) plane,
      stub_readContent = object_readContent pf (envs name) plane,
      stub_readEvents = object_readEvents pf (envs name) plane\<rparr>"

end
