(* ===== verification/Shard_Client.thy ===== *)
theory Shard_Client
  imports Shard_Object Diff_Receipts
begin

text \<open>
  The caller's side: \<^verbatim>\<open>RpcBranchCommitStatePlane\<close> of \<^verbatim>\<open>packages/nulldown-state-plane/src/shard-router.ts\<close>, which
  offers the state-plane operations over a pool of shards, and the memory validators of
  \<^verbatim>\<open>shared/drop/branch-nullmem.ts\<close> it uses.

  Each method captures its input, calls the branch's shard and checks the answer; an answer that fails its
  check is \<open>State_Corrupt\<close>. Answers have the type the shard's method returns: what is modelled of a check is
  everything that type does not already rule out.
\<close>

section \<open>Sending and checking\<close>

definition routed ::
  "platform \<Rightarrow> (jstring \<Rightarrow> 'm) \<Rightarrow> 'a BranchHeadQuery_scheme \<Rightarrow> ('m \<Rightarrow> ('s, 'v) rpc branch_result)
   \<Rightarrow> ('v \<Rightarrow> 'w branch_result) \<Rightarrow> 's pool \<Rightarrow> 'w branch_result \<times> 's pool" where
  "routed pf resolve query invoke check pool =
     (case call pf resolve query invoke pool of (r, pool') \<Rightarrow> (and_then r check, pool'))"

text \<open>Checks of the source: a failed condition or a throw inside the check is \<open>State_Corrupt\<close>.\<close>

definition accept :: "bool \<Rightarrow> 'v \<Rightarrow> 'v branch_result" where
  "accept ok v = (if ok then Inr v else Inl State_Corrupt)"

definition or_corrupt :: "'v branch_result \<Rightarrow> 'v branch_result" where
  "or_corrupt r = (case r of Inl _ \<Rightarrow> Inl State_Corrupt | Inr v \<Rightarrow> Inr v)"

text \<open>\<^verbatim>\<open>[...new Set(xs)]\<close>: the first occurrence of every element.\<close>

fun js_unique :: "'a list \<Rightarrow> 'a list" where
  "js_unique [] = []"
| "js_unique (x # xs) = x # filter (\<lambda>y. y \<noteq> x) (js_unique xs)"

definition canonical_eq :: "platform \<Rightarrow> json \<Rightarrow> json \<Rightarrow> bool" where
  "canonical_eq pf a b \<longleftrightarrow> serializeCanonicalJson (number_text pf) a = serializeCanonicalJson (number_text pf) b"

section \<open>Reads of one branch\<close>

definition rpc_readHead ::
  "platform \<Rightarrow> (jstring \<Rightarrow> 's BranchStateRpcStub) \<Rightarrow> BranchHeadQuery \<Rightarrow> 's pool \<Rightarrow> BranchStateHead branch_result \<times> 's pool" where
  "rpc_readHead pf resolve input pool =
     (case BranchStateQuery_head input of
        Inl e \<Rightarrow> (Inl e, pool)
      | Inr query \<Rightarrow> call pf resolve query (\<lambda>stub. Inr (stub_readHead stub query)) pool)"

definition rpc_readContent ::
  "platform \<Rightarrow> (jstring \<Rightarrow> 's BranchStateRpcStub) \<Rightarrow> BranchContentQuery \<Rightarrow> 's pool \<Rightarrow> BranchStateContent branch_result \<times> 's pool" where
  "rpc_readContent pf resolve input pool =
     (case BranchStateQuery_content input of
        Inl e \<Rightarrow> (Inl e, pool)
      | Inr query \<Rightarrow> call pf resolve query (\<lambda>stub. Inr (stub_readContent stub query)) pool)"

definition event_in_range :: "BranchEventRangeQuery \<Rightarrow> nat \<times> DropDiffEvent \<Rightarrow> bool" where
  "event_in_range query = (\<lambda>(index, e).
     event_seq e = startSeq query + int index \<and> dropId e = rootDropId (target query) \<and>
     (case event_snapshotId e of None \<Rightarrow> False | Some n \<Rightarrow> 1 \<le> n \<and> n \<le> snapshotId (cq_version query)) \<and>
     opt_all (\<lambda>n. n = event_seq e - 1) (Option.bind (event_metadata e) meta_followsSeq))"

definition check_events :: "BranchEventRangeQuery \<Rightarrow> DropDiffEvent list \<Rightarrow> DropDiffEvent list branch_result" where
  "check_events query es =
     accept (int (length es) = endSeq query - startSeq query + 1 \<and>
       list_all (\<lambda>e. isDropDiffEventV1 (event_json e)) es \<and> list_all (event_in_range query) (List.enumerate 0 es)) es"

definition rpc_readEvents ::
  "platform \<Rightarrow> (jstring \<Rightarrow> 's BranchStateRpcStub) \<Rightarrow> BranchEventRangeQuery \<Rightarrow> 's pool \<Rightarrow> DropDiffEvent list branch_result \<times> 's pool" where
  "rpc_readEvents pf resolve input pool =
     (case BranchStateQuery_range input of
        Inl e \<Rightarrow> (Inl e, pool)
      | Inr query \<Rightarrow> routed pf resolve query (\<lambda>stub. Inr (stub_readEvents stub query)) (check_events query) pool)"

section \<open>Snapshots\<close>

definition snapshot_json :: "DropSnapshotRecord \<Rightarrow> json" where
  "snapshot_json m = JObj ([(js ''version'', j_int 1), (js ''rootDropId'', JStr (sn_rootDropId m)),
     (js ''branchId'', JStr (sn_branchId m)), (js ''snapshotId'', j_int (sn_snapshotId m)),
     (js ''parentSnapshotId'', j_nullable j_int (sn_parentSnapshotId m)), (js ''seq'', j_int (sn_seq m)),
     (js ''eventIds'', JArr (map JStr (sn_eventIds m))), (js ''checkpointed'', JBool (sn_checkpointed m)),
     (js ''patchStartSeq'', j_nullable j_int (sn_patchStartSeq m)), (js ''patchEndSeq'', j_nullable j_int (sn_patchEndSeq m)),
     (js ''textLength'', j_int (sn_textLength m))] @
     opt_entry ''sourceContentHash'' JStr (sn_sourceContentHash m) @
     [(js ''createdAt'', j_int (sn_createdAt m))])"

definition snapshot_chain_ok :: "int \<Rightarrow> int \<Rightarrow> DropSnapshotRecord \<Rightarrow> bool" where
  "snapshot_chain_ok i eventHead m =
     (if i = 0
      then sn_parentSnapshotId m = None \<and> sn_patchStartSeq m = None \<and> sn_patchEndSeq m = None \<and> sn_eventIds m = [] \<and>
        eventHead = - 1
      else sn_parentSnapshotId m = Some (i - 1) \<and>
        (case (sn_patchStartSeq m, sn_patchEndSeq m) of
           (Some a, Some b) \<Rightarrow> is_safe_integer a \<and> 0 \<le> a \<and> b = eventHead \<and> a \<le> b \<and>
             int (length (sn_eventIds m)) = b - a + 1 \<and> distinct (sn_eventIds m)
         | _ \<Rightarrow> False))"

definition check_snapshot ::
  "platform \<Rightarrow> BranchSnapshotQuery \<Rightarrow> BranchSnapshotState \<Rightarrow> BranchSnapshotState branch_result" where
  "check_snapshot pf query value =
     (let m = ss_snapshot value; ver = cq_version value in
      accept (valid_target (target value) \<and> valid_placement (placement value) \<and> valid_version ver \<and>
        canonical_eq pf (target_json (target value)) (target_json (target query)) \<and>
        canonical_eq pf (placement_json (placement value)) (placement_json (placement query)) \<and>
        snapshotId ver = sq_snapshotId query \<and> isDropSnapshotRecordV1 (snapshot_json m) \<and>
        sn_rootDropId m = rootDropId (target query) \<and> sn_branchId m = branchId (target query) \<and>
        sn_snapshotId m = sq_snapshotId query \<and> sn_seq m = sq_snapshotId query \<and> sn_checkpointed m \<and>
        sn_sourceContentHash m = Some (sourceContentHash ver) \<and> is_safe_integer (sn_textLength m) \<and> 0 \<le> sn_textLength m \<and>
        snapshot_chain_ok (sq_snapshotId query) (eventSeq ver) m) value)"

definition rpc_readSnapshot ::
  "platform \<Rightarrow> (jstring \<Rightarrow> 's BranchStateRpcStub) \<Rightarrow> BranchSnapshotQuery \<Rightarrow> 's pool
   \<Rightarrow> BranchSnapshotState option branch_result \<times> 's pool" where
  "rpc_readSnapshot pf resolve input pool =
     (case BranchLifecycleQuery_snapshot input of
        Inl e \<Rightarrow> (Inl e, pool)
      | Inr query \<Rightarrow> routed pf resolve query
          (\<lambda>stub. and_then (capability (stub_readSnapshot stub)) (\<lambda>f. Inr (f query)))
          (\<lambda>found. case found of None \<Rightarrow> Inr None | Some value \<Rightarrow> and_then (check_snapshot pf query value) (\<lambda>v. Inr (Some v))) pool)"

definition check_page ::
  "platform \<Rightarrow> BranchSnapshotPageQuery \<Rightarrow> BranchSnapshotPage \<Rightarrow> BranchSnapshotPage branch_result" where
  "check_page pf query page =
     (let stop = min (snapshotId (cq_version query)) (pq_afterSnapshotId query + pq_limit query);
          cursor = (if stop < snapshotId (cq_version query) then Some stop else None) in
      if int (length (sp_snapshots page)) \<noteq> stop - pq_afterSnapshotId query \<or> sp_nextAfterSnapshotId page \<noteq> cursor
      then Inl State_Corrupt
      else and_then (map_result (\<lambda>(index, value). check_snapshot pf
             \<lparr>target = target query, placement = placement query, sq_snapshotId = pq_afterSnapshotId query + int index + 1\<rparr> value)
             (List.enumerate 0 (sp_snapshots page))) (\<lambda>snaps.
        if list_ex (\<lambda>value. snapshotId (cq_version value) = snapshotId (cq_version query) \<and>
             \<not> canonical_eq pf (version_json (cq_version value)) (version_json (cq_version query))) snaps
        then Inl State_Corrupt
        else Inr \<lparr>sp_snapshots = snaps, sp_nextAfterSnapshotId = cursor\<rparr>))"

definition rpc_listSnapshots ::
  "platform \<Rightarrow> (jstring \<Rightarrow> 's BranchStateRpcStub) \<Rightarrow> BranchSnapshotPageQuery \<Rightarrow> 's pool
   \<Rightarrow> BranchSnapshotPage branch_result \<times> 's pool" where
  "rpc_listSnapshots pf resolve input pool =
     (case BranchLifecycleQuery_page input of
        Inl e \<Rightarrow> (Inl e, pool)
      | Inr query \<Rightarrow> routed pf resolve query
          (\<lambda>stub. and_then (capability (stub_listSnapshots stub)) (\<lambda>f. Inr (f query))) (check_page pf query) pool)"

section \<open>Lifecycle\<close>

definition check_authority ::
  "platform \<Rightarrow> BranchStateTarget \<Rightarrow> BranchAuthorityRecord \<Rightarrow> BranchAuthorityRecord branch_result" where
  "check_authority pf t value =
     or_corrupt (and_then (BranchLifecycleQuery_authority value) (\<lambda>authority.
       accept (canonical_eq pf (target_json (target authority)) (target_json t)) authority))"

definition rpc_readPlacement ::
  "platform \<Rightarrow> (jstring \<Rightarrow> 's BranchStateRpcStub) \<Rightarrow> BranchStateTarget \<Rightarrow> 's pool
   \<Rightarrow> BranchAuthorityRecord option branch_result \<times> 's pool" where
  "rpc_readPlacement pf resolve input pool =
     (case BranchLifecycleQuery_placement input of
        Inl e \<Rightarrow> (Inl e, pool)
      | Inr query \<Rightarrow> routed pf resolve \<lparr>target = query, placement = \<lparr>routingVersion = 1, generation = 0\<rparr>\<rparr>
          (\<lambda>stub. and_then (capability (stub_readPlacement stub)) (\<lambda>f. Inr (f query)))
          (\<lambda>found. case found of None \<Rightarrow> Inr None | Some value \<Rightarrow> and_then (check_authority pf query value) (\<lambda>v. Inr (Some v))) pool)"

definition check_reserved ::
  "platform \<Rightarrow> BranchReserveRecord \<Rightarrow> BranchReserveOutcome \<Rightarrow> BranchReserveOutcome branch_result" where
  "check_reserved pf command result =
     and_then (check_authority pf (target command) (ro_authority result)) (\<lambda>authority.
       if \<not> canonical_eq pf (placement_json (placement authority)) (placement_json (placement command)) \<or>
          \<not> sameBranchInitializationIdentity (rv_identity (au_reservation authority)) (rs_identity command) \<or>
          (ro_status result = Reserved \<and> (au_state authority \<noteq> Pending_Authority \<or>
             rv_reservationId (au_reservation authority) \<noteq> rs_reservationId command \<or>
             rv_rootRevision (au_reservation authority) \<noteq> rs_rootRevision command))
       then Inl State_Corrupt else Inr \<lparr>ro_status = ro_status result, ro_authority = authority\<rparr>)"

definition rpc_reserve ::
  "platform \<Rightarrow> (jstring \<Rightarrow> 's BranchStateRpcStub) \<Rightarrow> BranchReserveRecord \<Rightarrow> 's pool \<Rightarrow> BranchReserveOutcome branch_result \<times> 's pool" where
  "rpc_reserve pf resolve input pool =
     (case BranchLifecycleQuery_reserve input of
        Inl e \<Rightarrow> (Inl e, pool)
      | Inr command \<Rightarrow> routed pf resolve command
          (\<lambda>stub. and_then (capability (stub_reserve stub)) (\<lambda>f. Inr (f command))) (check_reserved pf command) pool)"

definition check_initialized ::
  "platform \<Rightarrow> BranchInitializeRecord \<Rightarrow> BranchInitializeOutcome \<Rightarrow> BranchInitializeOutcome branch_result" where
  "check_initialized pf command result =
     (let receipt = io_receipt result; h = ir_initialHead receipt; v = hd_version h;
          payload = hashNulldownSourceContent pf (js ''nulldown.branch-initialization.v1'' @ [10] @
            serializeCanonicalJson (number_text pf) (initialize_json command)) in
      accept (valid_target (target receipt) \<and> valid_placement (placement receipt) \<and> valid_version v \<and>
        canonical_eq pf (target_json (target receipt)) (target_json (target command)) \<and>
        canonical_eq pf (placement_json (placement receipt)) (placement_json (placement command)) \<and>
        canonical_eq pf (target_json (target h)) (target_json (target command)) \<and>
        canonical_eq pf (placement_json (placement h)) (placement_json (placement command)) \<and>
        ir_reservationId receipt = in_reservationId command \<and> ir_rootRevision receipt = in_rootRevision command \<and>
        ir_payloadHash receipt = payload \<and> sourceContentHash v = hashNulldownSourceContent pf (in_content command) \<and>
        isDropBranchRecordV1 (branch_json (hd_branch h)) \<and> br_rootDropId (hd_branch h) = rootDropId (target command) \<and>
        br_branchId (hd_branch h) = branchId (target command) \<and> br_headSnapshotId (hd_branch h) = 0 \<and>
        br_headEventSeq (hd_branch h) = Some (- 1) \<and> snapshotId v = 0 \<and> eventSeq v = - 1) result)"

definition rpc_initialize ::
  "platform \<Rightarrow> (jstring \<Rightarrow> 's BranchStateRpcStub) \<Rightarrow> BranchInitializeRecord \<Rightarrow> 's pool
   \<Rightarrow> BranchInitializeOutcome branch_result \<times> 's pool" where
  "rpc_initialize pf resolve input pool =
     (case BranchLifecycleQuery_initialize input of
        Inl e \<Rightarrow> (Inl e, pool)
      | Inr command \<Rightarrow> routed pf resolve command
          (\<lambda>stub. and_then (capability (stub_initialize stub)) (\<lambda>f. Inr (f command))) (check_initialized pf command) pool)"

section \<open>Appending\<close>

definition rpc_append ::
  "platform \<Rightarrow> (jstring \<Rightarrow> 's BranchStateRpcStub) \<Rightarrow> BranchAppendRecord \<Rightarrow> 's pool \<Rightarrow> BranchAppendOutcome branch_result \<times> 's pool" where
  "rpc_append pf resolve input pool =
     (case BranchAppendCommand_fromRecord pf input of
        Inl e \<Rightarrow> (Inl e, pool)
      | Inr command \<Rightarrow> call pf resolve command (\<lambda>stub. Inr (stub_append stub command)) pool)"

text \<open>The shape of one acknowledgement, and the agreement of the answer's parts with each other.\<close>

definition ack_ok :: "DropDiffEventAcknowledgement \<Rightarrow> bool" where
  "ack_ok ack \<longleftrightarrow> is_safe_integer (ack_seq ack) \<and> 0 \<le> ack_seq ack \<and> is_safe_integer (ack_snapshotId ack) \<and> 1 \<le> ack_snapshotId ack"

definition batch_shape_ok :: "BranchBatchAppendRecord \<Rightarrow> BranchBatchAppendResult \<Rightarrow> bool" where
  "batch_shape_ok command r \<longleftrightarrow>
     isDropBranchRecordV1 (branch_json (ba_branch r)) \<and>
     br_rootDropId (ba_branch r) = rootDropId (target command) \<and> br_branchId (ba_branch r) = branchId (target command) \<and>
     opt_all (\<lambda>m. isDropSnapshotRecordV1 (snapshot_json m) \<and> sn_rootDropId m = rootDropId (target command) \<and>
       sn_branchId m = branchId (target command) \<and> sn_snapshotId m = br_headSnapshotId (ba_branch r)) (ba_snapshot r) \<and>
     list_all (\<lambda>e. isDropDiffEventV1 (event_json e)) (ba_acceptedEvents r) \<and>
     is_safe_integer (ba_deduplicatedCount r) \<and> 0 \<le> ba_deduplicatedCount r \<and>
     ba_deduplicatedCount r = int (length (events command)) - int (length (ba_acceptedEvents r)) \<and>
     is_safe_integer (ba_totalStored r) \<and> br_headEventSeq (ba_branch r) = Some (ba_totalStored r - 1) \<and>
     length (ba_acknowledgements r) = length (js_unique (map eventId (events command))) \<and>
     list_all ack_ok (ba_acknowledgements r)"

definition ack_agrees :: "BranchBatchAppendResult \<Rightarrow> jstring list \<Rightarrow> nat \<times> DropDiffEventAcknowledgement \<Rightarrow> bool" where
  "ack_agrees r inputIds = (\<lambda>(index, ack).
     ack_eventId ack = inputIds ! index \<and> ack_seq ack < ba_totalStored r \<and>
     ack_snapshotId ack \<le> br_headSnapshotId (ba_branch r) \<and>
     (case find (\<lambda>e. eventId e = ack_eventId ack) (rev (ba_acceptedEvents r)) of
        Some accepted \<Rightarrow> ack_status ack = Accepted \<and> ack_seq ack = event_seq accepted \<and>
          Some (ack_snapshotId ack) = event_snapshotId accepted
      | None \<Rightarrow> ack_status ack = Duplicate))"

definition event_agrees ::
  "BranchBatchAppendRecord \<Rightarrow> jstring list \<Rightarrow> DropSnapshotRecord \<Rightarrow> int \<Rightarrow> nat \<times> DropDiffEvent \<Rightarrow> bool" where
  "event_agrees command inputIds m start = (\<lambda>(index, e).
     dropId e = rootDropId (target command) \<and> eventId e \<in> set inputIds \<and> event_seq e = start + int index \<and>
     event_snapshotId e = Some (sn_snapshotId m) \<and> sn_eventIds m ! index = eventId e \<and>
     opt_all (\<lambda>n. n = event_seq e - 1) (Option.bind (event_metadata e) meta_followsSeq))"

definition batch_agrees :: "BranchBatchAppendRecord \<Rightarrow> BranchBatchAppendResult \<Rightarrow> bool" where
  "batch_agrees command r \<longleftrightarrow>
     (let inputIds = js_unique (map eventId (events command)); n = int (length (ba_acceptedEvents r)) in
      distinct (map eventId (ba_acceptedEvents r)) \<and>
      (ba_snapshot r = None \<longleftrightarrow> ba_acceptedEvents r = []) \<and>
      list_all (ack_agrees r inputIds) (List.enumerate 0 (ba_acknowledgements r)) \<and>
      opt_all (\<lambda>m. sn_textLength m = int (length (ba_content r)) \<and>
        sn_patchStartSeq m = Some (ba_totalStored r - n) \<and> sn_patchEndSeq m = Some (ba_totalStored r - 1) \<and>
        int (length (sn_eventIds m)) = n \<and>
        list_all (event_agrees command inputIds m (ba_totalStored r - n)) (List.enumerate 0 (ba_acceptedEvents r))) (ba_snapshot r))"

definition check_batch ::
  "BranchBatchAppendRecord \<Rightarrow> BranchBatchAppendResult \<Rightarrow> BranchBatchAppendResult branch_result" where
  "check_batch command r = accept (batch_shape_ok command r \<and> batch_agrees command r) r"

definition rpc_appendBatch ::
  "platform \<Rightarrow> (jstring \<Rightarrow> 's BranchStateRpcStub) \<Rightarrow> BranchBatchAppendRecord \<Rightarrow> 's pool
   \<Rightarrow> BranchBatchAppendResult branch_result \<times> 's pool" where
  "rpc_appendBatch pf resolve input pool =
     (case captureBranchBatchAppend input of
        Inl e \<Rightarrow> (Inl e, pool)
      | Inr command \<Rightarrow> routed pf resolve command
          (\<lambda>stub. and_then (capability (stub_appendBatch stub)) (\<lambda>f. Inr (f command))) (check_batch command) pool)"

section \<open>Runtime facts\<close>

definition check_fact_head ::
  "platform \<Rightarrow> 'a BranchHeadQuery_scheme \<Rightarrow> 'b BranchRuntimeFactHead_scheme \<Rightarrow> BranchRuntimeFactHead branch_result" where
  "check_fact_head pf query value =
     accept (same_scope pf value query \<and> is_safe_integer (fh_headSeq value) \<and> - 1 \<le> fh_headSeq value)
       \<lparr>target = target query, placement = placement query, fh_headSeq = fh_headSeq value\<rparr>"

definition rpc_readRuntimeFactHead ::
  "platform \<Rightarrow> (jstring \<Rightarrow> 's BranchStateRpcStub) \<Rightarrow> BranchHeadQuery \<Rightarrow> 's pool \<Rightarrow> BranchRuntimeFactHead branch_result \<times> 's pool" where
  "rpc_readRuntimeFactHead pf resolve input pool =
     (case BranchStateQuery_head input of
        Inl e \<Rightarrow> (Inl e, pool)
      | Inr query \<Rightarrow> routed pf resolve query
          (\<lambda>stub. and_then (capability (stub_readRuntimeFactHead stub)) (\<lambda>f. Inr (f query))) (check_fact_head pf query) pool)"

definition check_fact_append ::
  "platform \<Rightarrow> BranchRuntimeFactAppendCommand \<Rightarrow> BranchRuntimeFactAppendResult \<Rightarrow> BranchRuntimeFactAppendResult branch_result" where
  "check_fact_append pf command result =
     (let intent = runtimeFactIntent pf (rf_fact command); receipt = fa_receipt result;
          stored_intent = runtimeFactIntent pf (fe_fact (fr_event receipt)) in
      accept (same_scope pf result command \<and> validateRuntimeFactReceipt pf receipt command False = Inr () \<and>
        fr_identity receipt = runtimeFactIdentity pf (rf_fact command) \<and>
        fr_payloadHash receipt = hashRuntimeFactIntent pf intent \<and> stored_intent = intent \<and>
        hashRuntimeFactIntent pf stored_intent = fr_payloadHash receipt) result)"

definition rpc_appendRuntimeFact ::
  "platform \<Rightarrow> (jstring \<Rightarrow> 's BranchStateRpcStub) \<Rightarrow> BranchRuntimeFactAppendCommand \<Rightarrow> 's pool
   \<Rightarrow> BranchRuntimeFactAppendResult branch_result \<times> 's pool" where
  "rpc_appendRuntimeFact pf resolve input pool =
     (case captureRuntimeFactAppend input of
        Inl e \<Rightarrow> (Inl e, pool)
      | Inr command \<Rightarrow> routed pf resolve command
          (\<lambda>stub. and_then (capability (stub_appendRuntimeFact stub)) (\<lambda>f. Inr (f command))) (check_fact_append pf command) pool)"

definition fact_in_page :: "BranchRuntimeFactPageQuery \<Rightarrow> nat \<times> DropBranchRuntimeFact \<Rightarrow> bool" where
  "fact_in_page query = (\<lambda>(index, e).
     validateRuntimeFactEvent e query False = Inr () \<and> fe_seq e = fq_afterSeq query + int index + 1)"

definition check_fact_page ::
  "platform \<Rightarrow> BranchRuntimeFactPageQuery \<Rightarrow> BranchRuntimeFactPage \<Rightarrow> BranchRuntimeFactPage branch_result" where
  "check_fact_page pf query page =
     and_then (check_fact_head pf query page) (\<lambda>h.
       let count = max 0 (min (fq_limit query) (fh_headSeq query - fq_afterSeq query)); facts = fp_facts page in
       accept (fh_headSeq h = fh_headSeq query \<and> int (length facts) = count \<and>
         fp_nextCursor page = (if count \<noteq> 0 then Some (fq_afterSeq query + count) else None) \<and>
         list_all (fact_in_page query) (List.enumerate 0 facts) \<and>
         distinct (map (\<lambda>e. runtimeFactIdentity pf (fe_fact e)) facts) \<and> distinct (map fe_factId facts) \<and>
         distinct (map (\<lambda>e. runtimeFactKey (fe_fact e)) facts))
         \<lparr>target = target h, placement = placement h, fh_headSeq = fh_headSeq h, fp_facts = facts,
          fp_nextCursor = fp_nextCursor page\<rparr>)"

definition rpc_readRuntimeFacts ::
  "platform \<Rightarrow> (jstring \<Rightarrow> 's BranchStateRpcStub) \<Rightarrow> BranchRuntimeFactPageQuery \<Rightarrow> 's pool
   \<Rightarrow> BranchRuntimeFactPage branch_result \<times> 's pool" where
  "rpc_readRuntimeFacts pf resolve input pool =
     (case captureRuntimeFactPage input of
        Inl e \<Rightarrow> (Inl e, pool)
      | Inr query \<Rightarrow> routed pf resolve query
          (\<lambda>stub. and_then (capability (stub_readRuntimeFacts stub)) (\<lambda>f. Inr (f query))) (check_fact_page pf query) pool)"

section \<open>Branch memory\<close>

definition safe_created :: "json \<Rightarrow> bool" where
  "safe_created r \<longleftrightarrow> (case Option.bind (get ''createdAt'' r) z_integer of None \<Rightarrow> False | Some n \<Rightarrow> is_safe_integer n \<and> 0 \<le> n)"

definition canonical_records :: "platform \<Rightarrow> json list \<Rightarrow> jstring" where
  "canonical_records pf rs = canonicalRuntimeFactJson pf (JArr rs)"

definition validateNullMemQueryResult ::
  "platform \<Rightarrow> BranchNullMemQueryResult \<Rightarrow> BranchNullMemQuery \<Rightarrow> unit branch_result" where
  "validateNullMemQueryResult pf value query =
     or_corrupt (and_then (validateNullMemResult pf value query) (\<lambda>_.
       let rs = nr_records value in
       if int (length rs) > sel_limit (nq_selection query) \<or> (nr_memoryRevision value = 0 \<and> rs \<noteq> []) \<or>
          \<not> list_all (\<lambda>r. validateNullMemRecord r query = Inr () \<and> safe_created r) rs \<or>
          \<not> distinct (map nullMemRecordIdentity rs)
       then Inl State_Corrupt
       else and_then (queryNullMemRecords pf rs (nq_selection query)) (\<lambda>again.
         if canonical_records pf again \<noteq> canonical_records pf rs then Inl State_Corrupt else Inr ())))"

definition validateNullMemPutResult ::
  "platform \<Rightarrow> BranchNullMemPutResult \<Rightarrow> BranchNullMemPutCommand \<Rightarrow> unit branch_result" where
  "validateNullMemPutResult pf value command =
     or_corrupt (and_then (validateNullMemResult pf value command) (\<lambda>_.
       and_then (validateNullMemRecord (nr_record value) command) (\<lambda>_.
       and_then (authorizeNullMem (np_actorAccountId command) (nr_head value)) (\<lambda>_.
         if nr_memoryRevision value < 1 \<or> \<not> safe_created (nr_record value) \<or>
            nullMemRecordIntent pf (nr_record value) \<noteq> nullMemRecordIntent pf (np_record command)
         then Inl State_Corrupt else Inr ()))))"

definition validateNullMemDeleteResult ::
  "platform \<Rightarrow> BranchNullMemDeleteResult \<Rightarrow> BranchNullMemDeleteCommand \<Rightarrow> unit branch_result" where
  "validateNullMemDeleteResult pf value command =
     or_corrupt (and_then (validateNullMemResult pf value command) (\<lambda>_.
       and_then (authorizeNullMem (nd_actorAccountId command) (nr_head value)) (\<lambda>_.
         if nr_memoryRevision value < 1 \<or> nr_recordId value \<noteq> nd_recordId command then Inl State_Corrupt else Inr ())))"

definition rpc_queryNullMem ::
  "platform \<Rightarrow> (jstring \<Rightarrow> 's BranchStateRpcStub) \<Rightarrow> BranchNullMemQuery \<Rightarrow> 's pool
   \<Rightarrow> BranchNullMemQueryResult branch_result \<times> 's pool" where
  "rpc_queryNullMem pf resolve input pool =
     (case captureNullMemQuery input of
        Inl e \<Rightarrow> (Inl e, pool)
      | Inr query \<Rightarrow> routed pf resolve query
          (\<lambda>stub. and_then (capability (stub_queryNullMem stub)) (\<lambda>f. Inr (f query)))
          (\<lambda>r. and_then (validateNullMemQueryResult pf r query) (\<lambda>_. Inr r)) pool)"

definition rpc_putNullMem ::
  "platform \<Rightarrow> (jstring \<Rightarrow> 's BranchStateRpcStub) \<Rightarrow> BranchNullMemPutCommand \<Rightarrow> 's pool
   \<Rightarrow> BranchNullMemPutResult branch_result \<times> 's pool" where
  "rpc_putNullMem pf resolve input pool =
     (case captureNullMemPut input of
        Inl e \<Rightarrow> (Inl e, pool)
      | Inr command \<Rightarrow> routed pf resolve command
          (\<lambda>stub. and_then (capability (stub_putNullMem stub)) (\<lambda>f. Inr (f command)))
          (\<lambda>r. and_then (validateNullMemPutResult pf r command) (\<lambda>_. Inr r)) pool)"

definition rpc_deleteNullMem ::
  "platform \<Rightarrow> (jstring \<Rightarrow> 's BranchStateRpcStub) \<Rightarrow> BranchNullMemDeleteCommand \<Rightarrow> 's pool
   \<Rightarrow> BranchNullMemDeleteResult branch_result \<times> 's pool" where
  "rpc_deleteNullMem pf resolve input pool =
     (case captureNullMemDelete input of
        Inl e \<Rightarrow> (Inl e, pool)
      | Inr command \<Rightarrow> routed pf resolve command
          (\<lambda>stub. and_then (capability (stub_deleteNullMem stub)) (\<lambda>f. Inr (f command)))
          (\<lambda>r. and_then (validateNullMemDeleteResult pf r command) (\<lambda>_. Inr r)) pool)"

end
