(* ===== verification/Shard_Pool.thy ===== *)
theory Shard_Pool
  imports Shard_Client
begin

text \<open>
  What the caller of a shard pool relies on, as an interface: \<open>shard_operation\<close> states for one operation of the
  plane how it treats its input and that its answers pass the caller's check. From that the operation over the
  pool is the operation on the plane of the branch's shard: the same answer or error, and no other shard
  touched. The interface is interpreted on the memory plane in theory \<open>Shard_Transparency\<close>.
\<close>

section \<open>The home of a branch\<close>

definition home :: "platform \<Rightarrow> BranchStateTarget \<Rightarrow> jstring" where
  "home pf t = js ''branch-state-v1-'' @ pad_start2 (digits_nat (get_uint32 (sha256 pf (shard_preimage t)) mod 16))"

lemma shard_name_home:
  "branchStateShardName pf q =
     (if \<not> (valid_target (target q) \<and> valid_placement (placement q)) then Inl Invalid_Command
      else if routingVersion (placement q) \<noteq> 1 then Inl Routing_Version_Unsupported else Inr (home pf (target q)))"
  by (auto simp: branchStateShardName_def BranchStateQuery_head_def home_def query_of_def BRANCH_STATE_SHARD_COUNT_def Let_def)

text \<open>The result of a call over the pool is that of an operation on the plane of shard \<open>n\<close>.\<close>

definition as_local :: "('p \<Rightarrow> 'v outcome \<times> 'p) \<Rightarrow> jstring \<Rightarrow> 'p shard pool \<Rightarrow> 'v branch_result \<times> 'p shard pool \<Rightarrow> bool" where
  "as_local operation n pool result \<longleftrightarrow>
     fst result = seen (fst (operation (sh_plane (pool n)))) \<and>
     (\<forall>m. sh_plane (snd result m) = (if m = n then snd (operation (sh_plane (pool n))) else sh_plane (pool m)))"

definition named_envs :: "(jstring \<Rightarrow> shard_env) \<Rightarrow> bool" where
  "named_envs envs \<longleftrightarrow> (\<forall>n. se_name (envs n) = n)"

section \<open>The shard's side\<close>

lemma object_read_write: "object_read f admitted sh = object_write env False (\<lambda>p. (f p, p)) admitted sh"
  by (cases admitted; cases "f (sh_plane sh)") (simp_all add: object_read_def object_write_def)

lemma object_write_result:
  "fst (object_write env w f (Inr ()) sh) = Inr (branchStateRpcResult (fst (f (sh_plane sh))))"
  "sh_plane (snd (object_write env w f (Inr ()) sh)) = snd (f (sh_plane sh))"
  by (auto simp: object_write_def split: prod.splits sum.splits)

lemma placement_admits:
  assumes "named_envs envs" "branchStateShardName pf q = Inr n"
  shows "object_placement pf (envs n) q = Inr ()"
  using assms by (simp add: object_placement_def named_envs_def)

section \<open>The interface\<close>

locale shard_operation =
  fixes pf :: platform
    and capture :: "'c \<Rightarrow> 'c branch_result"
    and route :: "'c \<Rightarrow> BranchHeadQuery"
    and operation :: "'p \<Rightarrow> 'c \<Rightarrow> 'v outcome \<times> 'p"
    and check :: "'c \<Rightarrow> 'v \<Rightarrow> 'v branch_result"
    and inv :: "'p \<Rightarrow> bool"
  assumes refuses: "capture c = Inl e \<Longrightarrow> operation p c = (Inl (Failed e), p)"
    and recaptures: "capture c = Inr d \<Longrightarrow> capture d = Inr d \<and> operation p c = operation p d"
    and captured_route: "capture c = Inr d \<Longrightarrow> valid_target (target (route d)) \<and> valid_placement (placement (route d)) \<and>
      target (route d) = target (route c)"
    and unroutable: "capture c = Inr d \<Longrightarrow> routingVersion (placement (route d)) \<noteq> 1 \<Longrightarrow>
      operation p d = (Inl (Failed Routing_Version_Unsupported), p)"
    and answers: "inv p \<Longrightarrow> capture d = Inr d \<Longrightarrow> fst (operation p d) = Inr v \<Longrightarrow> check d v = Inr v"
begin

lemma remote_is_local:
  assumes "\<And>n. inv (sh_plane (pool n))"
    and serves: "\<And>d n. capture d = Inr d \<Longrightarrow> branchStateShardName pf (route d) = Inr n \<Longrightarrow>
      \<exists>env w. invoke d (resolve n) = Inr (object_write env w (\<lambda>p. operation p d) (Inr ()))"
  shows "as_local (\<lambda>p. operation p c) (home pf (target (route c))) pool
    (case capture c of Inl e \<Rightarrow> (Inl e, pool) | Inr d \<Rightarrow> routed pf resolve (route d) (invoke d) (check d) pool)"
proof (cases "capture c")
  case (Inl e)
  then show ?thesis by (simp add: as_local_def refuses)
next
  case (Inr d)
  note d = recaptures [OF Inr] and v = captured_route [OF Inr]
  show ?thesis
  proof (cases "routingVersion (placement (route d)) = 1")
    case False
    have "valid_target (target (route d))" "valid_placement (placement (route d))" using v by blast+
    with False unroutable [OF Inr False] d Inr show ?thesis
      by (simp add: as_local_def routed_def call_def shard_name_home)
  next
    case True
    let ?n = "home pf (target (route c))"
    have n: "branchStateShardName pf (route d) = Inr ?n" using v True by (auto simp: shard_name_home)
    then obtain env w where m: "invoke d (resolve ?n) = Inr (object_write env w (\<lambda>p. operation p d) (Inr ()))"
      using serves d by blast
    let ?sh = "object_write env w (\<lambda>p. operation p d) (Inr ()) (pool ?n)"
    have "and_then (seen (fst (operation (sh_plane (pool ?n)) d))) (check d) = seen (fst (operation (sh_plane (pool ?n)) d))"
      using answers [OF assms(1) conjunct1 [OF d]] by (cases "fst (operation (sh_plane (pool ?n)) d)" rule: seen.cases) simp_all
    moreover have "call pf resolve (route d) (invoke d) pool = (seen (fst (operation (sh_plane (pool ?n)) d)), pool(?n := snd ?sh))"
      using object_write_result(1) [of env w "\<lambda>p. operation p d" "pool ?n"] by (auto simp: call_def n m split: prod.split)
    ultimately show ?thesis using d Inr object_write_result(2) [of env w "\<lambda>p. operation p d" "pool ?n"]
      by (simp add: as_local_def routed_def)
  qed
qed

end

text \<open>A call whose answer is not checked is one whose check accepts everything.\<close>

lemma and_then_return: "and_then r Inr = r"
  by (cases r) simp_all

lemma call_routed: "call pf resolve query invoke pool = routed pf resolve query invoke Inr pool"
  by (simp add: routed_def and_then_return split: prod.split)

end
