(* ===== verification/Shard_Transparency.thy ===== *)
theory Shard_Transparency
  imports Shard_Pool Plane_Guarantees
begin

text \<open>
  The pool of shards over the memory plane behaves as the planes themselves: the interface \<open>shard_operation\<close>
  is interpreted for the operations of the plane, in every state that satisfies the plane's invariant. The
  checks of the caller never refuse an answer of such a plane.
\<close>

section \<open>The memory plane behind a shard\<close>

definition committed :: "'p \<Rightarrow> ('v \<times> 'p) outcome \<Rightarrow> 'v outcome \<times> 'p" where
  "committed p r = (case r of Inl e \<Rightarrow> (Inl e, p) | Inr (v, p') \<Rightarrow> (Inr v, p'))"

definition put_result :: "BranchNullMemOutbox \<Rightarrow> BranchNullMemPutResult" where
  "put_result e = \<lparr>target = target (no_result e), placement = placement (no_result e), nr_head = nr_head (no_result e),
     nr_memoryRevision = nr_memoryRevision (no_result e),
     nr_record = (case no_mutation e of Put_Record r \<Rightarrow> r | Delete_Record _ \<Rightarrow> JNull)\<rparr>"

definition delete_result :: "BranchNullMemOutbox \<Rightarrow> BranchNullMemDeleteResult" where
  "delete_result e = \<lparr>target = target (no_result e), placement = placement (no_result e), nr_head = nr_head (no_result e),
     nr_memoryRevision = nr_memoryRevision (no_result e),
     nr_recordId = (case no_mutation e of Put_Record _ \<Rightarrow> [] | Delete_Record i \<Rightarrow> i)\<rparr>"

text \<open>An envelope appended without interruption: both ends of its waits see the same plane.\<close>

definition append_envelope ::
  "platform \<Rightarrow> int \<Rightarrow> MemoryPlane \<Rightarrow> BranchBatchAppendRecord \<Rightarrow> (BranchBatchAppendResult \<times> MemoryPlane) outcome" where
  "append_envelope pf now p command =
     (case appendBatch pf [(p, now), (p, now)] command of Some r \<Rightarrow> r | None \<Rightarrow> Inl (Failed State_Unavailable))"

definition memory_plane :: "platform \<Rightarrow> int \<Rightarrow> MemoryPlane state_plane" where
  "memory_plane pf now =
     \<lparr>pl_queryNullMem = (\<lambda>p q. lift_branch (queryNullMem pf p q)),
      pl_putNullMem = (\<lambda>p c. committed p (lift_branch (and_then (putNullMem pf p now c) (\<lambda>(e, p'). Inr (put_result e, p'))))),
      pl_deleteNullMem = (\<lambda>p c. committed p (lift_branch (and_then (deleteNullMem pf p now c) (\<lambda>(e, p'). Inr (delete_result e, p'))))),
      pl_appendRuntimeFact = (\<lambda>p c. committed p (lift_branch (appendRuntimeFact pf p now c))),
      pl_readRuntimeFactHead = (\<lambda>p q. lift_branch (readRuntimeFactHead p q)),
      pl_readRuntimeFacts = (\<lambda>p q. lift_branch (readRuntimeFacts p q)),
      pl_readPlacement = (\<lambda>p t. lift_branch (readPlacement p t)),
      pl_reserve = (\<lambda>p c. committed p (lift_branch (reserve p now c))),
      pl_initialize = (\<lambda>p c. committed p (lift_branch (initialize pf p c))),
      pl_readSnapshot = (\<lambda>p q. lift_branch (readSnapshot p q)),
      pl_listSnapshots = (\<lambda>p q. lift_branch (listSnapshots p q)),
      pl_appendBatch = (\<lambda>p c. committed p (append_envelope pf now p c)),
      pl_append = (\<lambda>p c. committed p (append pf p now c)),
      pl_readHead = (\<lambda>p q. lift_branch (readHead p q)),
      pl_readContent = (\<lambda>p q. lift_branch (readContent p q)),
      pl_readEvents = (\<lambda>p q. lift_branch (readEvents p q))\<rparr>"

section \<open>Capturing twice\<close>

lemma query_of_id [simp]: "query_of q = q" for q :: BranchHeadQuery
  by (simp add: query_of_def)

lemma head_twice: "BranchStateQuery_head c = Inr d \<Longrightarrow> BranchStateQuery_head d = Inr d \<and> d = query_of c"
  by (auto simp: BranchStateQuery_head_def split: if_splits)

lemma content_twice: "BranchStateQuery_content c = Inr d \<Longrightarrow> d = c"
  by (simp add: BranchStateQuery_content_def split: if_splits)

lemma range_twice: "BranchStateQuery_range c = Inr d \<Longrightarrow> d = c"
  by (simp add: BranchStateQuery_range_def split: if_splits)

lemma placement_twice: "BranchLifecycleQuery_placement c = Inr d \<Longrightarrow> d = c"
  by (auto simp: BranchLifecycleQuery_placement_def result_simps)

lemma reserve_twice: "BranchLifecycleQuery_reserve c = Inr d \<Longrightarrow> d = c"
  by (auto simp: BranchLifecycleQuery_reserve_def result_simps split: if_splits)

lemma initialize_twice: "BranchLifecycleQuery_initialize c = Inr d \<Longrightarrow> d = c"
  by (auto simp: BranchLifecycleQuery_initialize_def result_simps split: if_splits)

lemma snapshot_twice: "BranchLifecycleQuery_snapshot c = Inr d \<Longrightarrow> d = c"
  by (auto simp: BranchLifecycleQuery_snapshot_def result_simps split: if_splits)

lemma page_twice: "BranchLifecycleQuery_page c = Inr d \<Longrightarrow> d = c"
  by (auto simp: BranchLifecycleQuery_page_def BranchStateQuery_content_def result_simps split: if_splits)

lemma fact_page_twice: "captureRuntimeFactPage c = Inr d \<Longrightarrow> d = c"
  by (auto simp: captureRuntimeFactPage_def result_simps split: if_splits)

lemma memory_query_twice: "captureNullMemQuery c = Inr d \<Longrightarrow> d = c"
  by (auto simp: captureNullMemQuery_def captureNullMemSelection_def result_simps split: if_splits)

lemma memory_delete_twice: "captureNullMemDelete c = Inr d \<Longrightarrow> d = c"
  by (auto simp: captureNullMemDelete_def result_simps split: if_splits)

lemma append_twice: "BranchAppendCommand_fromRecord pf c = Inr d \<Longrightarrow> BranchAppendCommand_fromRecord pf d = Inr d"
  using fromRecord_captured [of pf c d] by (simp add: fromRecord_Inr_iff create_fixed)

section \<open>Answers are accepted: events and snapshots\<close>

lemma list_all_enumerate: "list_all P (List.enumerate n xs) \<longleftrightarrow> (\<forall>i < length xs. P (n + i, xs ! i))"
  by (auto simp: list_all_length nth_enumerate_eq)

lemma canonical_eq_refl [simp]: "canonical_eq pf a a"
  by (simp add: canonical_eq_def)

lemma event_guard: "valid_event e \<Longrightarrow> isDropDiffEventV1 (event_json e)"
  by (simp add: isDropDiffEventV1_def DropDiffEventSchema_json)

lemma version_mono:
  assumes "stream_ok s" "0 \<le> i" "i \<le> j" "j \<le> snapshotId (ver s)"
  shows "eventSeq (version_at s i) + (j - i) \<le> eventSeq (version_at s j)"
  using assms(3,4)
proof (induction j rule: int_ge_induct)
  case (step j)
  with assms(1,2) have "eventSeq (version_at s j) < eventSeq (version_at s (j + 1))" by (simp add: stream_ok_def)
  with step show ?case by simp
qed simp

lemma version_mono_rev:
  assumes "stream_ok s" "0 \<le> j" "i \<le> snapshotId (ver s)" "eventSeq (version_at s i) < eventSeq (version_at s j)"
  shows "i < j"
proof (rule ccontr)
  assume "\<not> i < j"
  with assms version_mono [of s j i] show False by simp
qed

lemma plane_content_Inr:
  assumes "plane_content p q = Inr c" "plane_ok pf p"
  obtains s where "state p q = Inr s" "state_ok pf s" "target (head s) = target q" "placement (head s) = placement q"
    "map_of (snapshots s) (snapshotId (cq_version q)) = Some c" "version_at s (snapshotId (cq_version q)) = cq_version q"
    "0 \<le> snapshotId (cq_version q)" "snapshotId (cq_version q) \<le> snapshotId (ver s)"
proof -
  from assms(1) obtain s where s: "state p q = Inr s" and c: "map_of (snapshots s) (snapshotId (cq_version q)) = Some c"
      "cq_version c = cq_version q"
    by (auto simp: plane_content_def result_simps split: option.splits if_splits)
  have "states_ok pf p" using assms(2) by (simp add: plane_ok_def)
  note k = state_Inr [OF s this]
  have "snapshots_ok pf s" using k(4) by (simp add: state_ok_def branch_ok_def)
  from snapshots_okD [OF this c(1)] k c s show ?thesis by (intro that [of s]) (simp_all add: version_at_def)
qed

lemma stored_event_wire:
  assumes "state_ok pf s" "map_of (st_events s) i = Some e" "i \<le> eventSeq (version_at s n)" "0 \<le> n" "n \<le> snapshotId (ver s)"
  shows "valid_event e" "event_seq e = i" "dropId e = rootDropId (target (head s))"
    "opt_all (\<lambda>m. m = i - 1) (Option.bind (event_metadata e) meta_followsSeq)"
    "\<exists>k. event_snapshotId e = Some k \<and> 1 \<le> k \<and> k \<le> n"
proof -
  from assms(1) have st: "stream_ok s" and ev: "events_ok s" by (simp_all add: state_ok_def branch_ok_def)
  from st assms(2) have w: "wire_event (head s) e" and pe: "placed_event s i e" by (auto simp: stream_ok_def)
  show seq: "event_seq e = i" using ev assms(2) by (simp add: events_ok_def)
  show "valid_event e" "dropId e = rootDropId (target (head s))"
    "opt_all (\<lambda>m. m = i - 1) (Option.bind (event_metadata e) meta_followsSeq)"
    using w seq by (simp_all add: wire_event_def)
  from pe obtain k where k: "event_snapshotId e = Some k" "1 \<le> k" "k \<le> snapshotId (ver s)"
    "eventSeq (version_at s (k - 1)) < i" by (auto simp: placed_event_def)
  have "k - 1 < n" by (rule version_mono_rev [OF st assms(4)]) (use k assms(3) in simp_all)
  with k show "\<exists>k. event_snapshotId e = Some k \<and> 1 \<le> k \<and> k \<le> n" by auto
qed

lemma found_Inr_iff: "(case m of None \<Rightarrow> Inl e | Some x \<Rightarrow> Inr x) = Inr y \<longleftrightarrow> m = Some y"
  by (cases m) simp_all

lemma read_events_accepted:
  assumes ok: "plane_ok pf p" and q: "BranchStateQuery_range q = Inr q" and r: "readEvents p q = Inr es"
  shows "check_events q es = Inr es"
proof -
  have rg: "startSeq q \<le> endSeq q" "endSeq q \<le> eventSeq (cq_version q)"
    using q by (simp_all add: BranchStateQuery_range_def split: if_splits)
  from r q obtain c s where c: "plane_content p q = Inr c" and s: "state p q = Inr s"
    and es: "list_all2 (\<lambda>i e. map_of (st_events s) i = Some e) [startSeq q..endSeq q] es"
    by (auto simp: readEvents_def result_simps found_Inr_iff)
  from c ok obtain s' where s': "state p q = Inr s'" "state_ok pf s'" "target (head s') = target q"
    "version_at s' (snapshotId (cq_version q)) = cq_version q"
    "0 \<le> snapshotId (cq_version q)" "snapshotId (cq_version q) \<le> snapshotId (ver s')" by (rule plane_content_Inr)
  with s have s'': "s' = s" by simp
  have len: "int (length es) = endSeq q - startSeq q + 1" using list_all2_lengthD [OF es] rg by simp
  have ev: "isDropDiffEventV1 (event_json (es ! i)) \<and> event_in_range q (i, es ! i)" if i: "i < length es" for i
  proof -
    from list_all2_nthD2 [OF es i] have m: "map_of (st_events s) (startSeq q + int i) = Some (es ! i)"
      using list_all2_lengthD [OF es] i by (simp add: nth_upto)
    have "startSeq q + int i \<le> endSeq q" using len i by simp
    then have "startSeq q + int i \<le> eventSeq (version_at s (snapshotId (cq_version q)))" using rg s' s'' by simp
    from stored_event_wire [OF s'(2) [unfolded s''] m this] s' s''
    show ?thesis by (auto simp: event_in_range_def intro: event_guard)
  qed
  have "list_all (\<lambda>e. isDropDiffEventV1 (event_json e)) es" using ev by (simp add: list_all_length)
  moreover have "list_all (event_in_range q) (List.enumerate 0 es)" using ev by (simp add: list_all_enumerate)
  ultimately show ?thesis using len by (simp add: check_events_def accept_def)
qed

lemma snapshot_guard:
  "(\<And>h. sn_sourceContentHash m = Some h \<Longrightarrow> isNulldownSourceHash h) \<Longrightarrow> isDropSnapshotRecordV1 (snapshot_json m)"
  by (cases m)
    (auto simp: isDropSnapshotRecordV1_def snapshot_json_def is_string_def is_number_def j_int_def j_nullable_def list_all_iff
      opt_entry_def split: option.splits)

text \<open>
  A string has fewer than \<open>2\<^sup>5\<^sup>3\<close> code units in JavaScript; the plane's texts are lists here, so it is a
  condition on the plane.
\<close>

definition texts_fit :: "MemoryPlane \<Rightarrow> bool" where
  "texts_fit p \<longleftrightarrow> (\<forall>(k, s) \<in> set (states p). \<forall>(i, c) \<in> set (snapshots s). is_safe_integer (int (length (content c))))"

lemma texts_fitD:
  assumes "texts_fit p" "map_of (states p) k = Some s" "map_of (snapshots s) i = Some c"
  shows "is_safe_integer (int (length (content c)))"
  using assms(1) map_of_SomeD [OF assms(2)] map_of_SomeD [OF assms(3)] unfolding texts_fit_def by blast

lemma stored_ids_inj:
  assumes "state_ok pf s"
  shows "inj_on (\<lambda>i. eventId (the (map_of (st_events s) i))) {0..eventSeq (ver s)}"
  using stored_event_ids [OF assms] by (simp add: log_of_def stored_events_def distinct_map comp_def inj_on_def)

lemma snapshot_chain:
  assumes s: "state_ok pf s" and m: "map_of (snapshotMetadata s) i = Some m"
  shows "snapshot_chain_ok i (eventSeq (version_at s i)) m"
proof -
  from s have st: "stream_ok s" and md: "metadata_ok s" and b: "branch_ok pf s" and sn: "snapshots_ok pf s"
    by (simp_all add: state_ok_def branch_ok_def)
  from md m have i: "0 \<le> i" "i \<le> snapshotId (ver s)" unfolding metadata_ok_def by (metis atLeastAtMost_iff domI)+
  from st m have pa: "patched_snapshot s i m" by (auto simp: stream_ok_def)
  show ?thesis
  proof (cases "i = 0")
    case True
    with st md m pa show ?thesis by (auto simp: snapshot_chain_ok_def patched_snapshot_def stream_ok_def metadata_ok_def)
  next
    case False
    let ?a = "eventSeq (version_at s (i - 1)) + 1" and ?b = "eventSeq (version_at s i)"
    have valid: "valid_version (version_at s j)" if "0 \<le> j" "j \<le> snapshotId (ver s)" for j
    proof -
      from that sn have "j \<in> dom (map_of (snapshots s))" by (simp add: snapshots_ok_def)
      then obtain c where "map_of (snapshots s) j = Some c" by blast
      with snapshots_okD(4) [OF sn this] show ?thesis by (simp add: version_at_def)
    qed
    have ab: "?a \<le> ?b" using version_mono [OF st, of "i - 1" i] i False by simp
    have "- 1 \<le> eventSeq (version_at s (i - 1))" "is_safe_integer ?b"
      using valid [of "i - 1"] valid [of i] i False by (simp_all add: valid_version_def)
    with ab have a: "0 \<le> ?a" "is_safe_integer ?a" by (simp_all add: is_safe_integer_def)
    have up: "?b \<le> eventSeq (ver s)" by (rule version_at_upto [OF b i])
    have ids: "sn_eventIds m = map (\<lambda>j. eventId (the (map_of (st_events s) j))) [?a..?b]"
      using pa False by (simp add: patched_snapshot_def)
    have "set [?a..?b] \<subseteq> {0..eventSeq (ver s)}" using a up by auto
    then have "distinct (sn_eventIds m)"
      unfolding ids distinct_map using inj_on_subset [OF stored_ids_inj [OF s]] by simp
    moreover have "int (length (sn_eventIds m)) = ?b - ?a + 1" using ab by (simp add: ids)
    moreover have "sn_parentSnapshotId m = Some (i - 1)" "sn_patchStartSeq m = Some ?a" "sn_patchEndSeq m = Some ?b"
      using md m False by (auto simp: metadata_ok_def)
    ultimately show ?thesis using False a ab by (simp add: snapshot_chain_ok_def)
  qed
qed

lemma plane_snapshot_Some:
  assumes "plane_snapshot p q = Inr (Some v)"
  obtains s c m where "state p q = Inr s" "map_of (snapshots s) (sq_snapshotId q) = Some c"
    "map_of (snapshotMetadata s) (sq_snapshotId q) = Some m"
    "v = \<lparr>target = target q, placement = placement q, cq_version = cq_version c, ss_snapshot = m\<rparr>"
  using assms by (auto simp: plane_snapshot_def result_simps Let_def split: option.splits if_splits)

lemma snapshot_accepted:
  assumes ok: "plane_ok pf p" "texts_fit p" and q: "valid_target (target q)" "valid_placement (placement q)"
    and r: "plane_snapshot p q = Inr (Some v)"
  shows "check_snapshot pf q v = Inr v"
proof -
  from r obtain s c m where s: "state p q = Inr s" and c: "map_of (snapshots s) (sq_snapshotId q) = Some c"
    and m: "map_of (snapshotMetadata s) (sq_snapshotId q) = Some m"
    and v: "v = \<lparr>target = target q, placement = placement q, cq_version = cq_version c, ss_snapshot = m\<rparr>"
    by (rule plane_snapshot_Some)
  have sts: "states_ok pf p" using ok by (simp add: plane_ok_def)
  note k = state_Inr [OF s sts]
  from k(4) have sn: "snapshots_ok pf s" and md: "metadata_ok s" and st: "stream_ok s" by (simp_all add: state_ok_def branch_ok_def)
  note sc = snapshots_okD [OF sn c] and va = version_at_cases [OF c]
  have w: "wire_snapshot (head s) m" using st m by (auto simp: stream_ok_def)
  have meta: "sn_snapshotId m = sq_snapshotId q" "sn_sourceContentHash m = Some (sourceContentHash (cq_version c))"
    "sn_textLength m = int (length (content c))" using md m va by (auto simp: metadata_ok_def)
  have "isDropSnapshotRecordV1 (snapshot_json m)" using sc(4) meta(2) by (intro snapshot_guard) (simp add: valid_version_def)
  moreover have "snapshot_chain_ok (sq_snapshotId q) (eventSeq (cq_version c)) m"
    using snapshot_chain [OF k(4) m] va by simp
  ultimately show ?thesis
    using q sc(3,4) w meta k(2) texts_fitD [OF ok(2) k(1) c]
    by (simp add: check_snapshot_def accept_def v wire_snapshot_def)
qed

lemma read_snapshot_accepted:
  assumes "plane_ok pf p" "texts_fit p" "BranchLifecycleQuery_snapshot q = Inr q" "readSnapshot p q = Inr (Some v)"
  shows "check_snapshot pf q v = Inr v"
proof (rule snapshot_accepted [OF assms(1,2)])
  show "valid_target (target q)" "valid_placement (placement q)"
    using assms(3) by (auto simp: BranchLifecycleQuery_snapshot_def result_simps)
  show "plane_snapshot p q = Inr (Some v)" using assms(3,4) by (simp add: readSnapshot_def)
qed

lemma list_snapshots_accepted:
  assumes ok: "plane_ok pf p" "texts_fit p" and q: "BranchLifecycleQuery_page q = Inr q" and r: "listSnapshots p q = Inr page"
  shows "check_page pf q page = Inr page"
proof -
  let ?stop = "min (snapshotId (cq_version q)) (pq_afterSnapshotId q + pq_limit q)" and ?a = "pq_afterSnapshotId q"
  let ?at = "\<lambda>i. \<lparr>target = target q, placement = placement q, sq_snapshotId = i\<rparr>"
  from q have v: "valid_target (target q)" "valid_placement (placement q)" and rg: "?a \<le> ?stop"
    by (auto simp: BranchLifecycleQuery_page_def BranchStateQuery_content_def result_simps split: if_splits)
  from r q obtain c snaps where c: "plane_content p q = Inr c"
    and sn: "list_all2 (\<lambda>i x. plane_snapshot p (?at i) = Inr (Some x)) [?a + 1..?stop] snaps"
    and page: "page = \<lparr>sp_snapshots = snaps, sp_nextAfterSnapshotId = (if ?stop < snapshotId (cq_version q) then Some ?stop else None)\<rparr>"
    by (auto simp: listSnapshots_def result_simps Let_def found_Inr_iff conj_commute)
  have len: "int (length snaps) = ?stop - ?a" using list_all2_lengthD [OF sn] rg by (simp del: min.bounded_iff)
  have each: "plane_snapshot p (?at (?a + int i + 1)) = Inr (Some (snaps ! i))" if "i < length snaps" for i
  proof -
    have "[?a + 1..?stop] ! i = ?a + 1 + int i" using len that by (intro nth_upto) linarith
    with list_all2_nthD2 [OF sn that] show ?thesis by (simp add: add.commute add.left_commute)
  qed
  have "check_snapshot pf (?at (?a + int i + 1)) (snaps ! i) = Inr (snaps ! i)" if "i < length snaps" for i
    by (rule snapshot_accepted [OF ok]) (use v each [OF that] in simp_all)
  then have "map_result (\<lambda>(index, value). check_snapshot pf (?at (?a + int index + 1)) value) (List.enumerate 0 snaps) = Inr snaps"
    unfolding map_result_Inr_iff by (simp add: list_all2_conv_all_nth nth_enumerate_eq)
  moreover have "cq_version x = cq_version q" if "x \<in> set snaps" "snapshotId (cq_version x) = snapshotId (cq_version q)" for x
  proof -
    from that(1) obtain i where i: "i < length snaps" "x = snaps ! i" by (auto simp: in_set_conv_nth)
    from c ok(1) obtain s where s: "state p q = Inr s" "state_ok pf s" "map_of (snapshots s) (snapshotId (cq_version q)) = Some c"
      "version_at s (snapshotId (cq_version q)) = cq_version q" by (rule plane_content_Inr)
    have "state p (?at j) = Inr s" for j using s(1) state_cong [of "?at j" q p] by simp
    with plane_snapshot_Some [OF each [OF i(1)]] i(2)
    obtain d where d: "map_of (snapshots s) (?a + int i + 1) = Some d" and x: "cq_version x = cq_version d"
      by (metis (no_types, lifting) BranchContentQuery.select_convs(1) BranchSnapshotQuery.select_convs(1) Inr_inject)
    have "snapshots_ok pf s" using s(2) by (simp add: state_ok_def branch_ok_def)
    from snapshots_okD(3) [OF this d] d x that(2) s(3,4) show ?thesis by (simp add: version_at_def)
  qed
  then have "\<not> list_ex (\<lambda>value. snapshotId (cq_version value) = snapshotId (cq_version q) \<and>
      \<not> canonical_eq pf (version_json (cq_version value)) (version_json (cq_version q))) snaps"
    unfolding list_ex_iff by (metis canonical_eq_refl)
  ultimately show ?thesis using len by (simp add: check_page_def page Let_def)
qed

section \<open>Answers are accepted: lifecycle\<close>

lemma authority_accepted:
  assumes "plane_ok pf p" "map_of (authorities p) (key t) = Some a"
  shows "check_authority pf t a = Inr a" "routingVersion (placement a) = 1"
proof -
  from assms have a: "authority_ok pf p (key t) a" by (simp add: plane_ok_def authorities_ok_def)
  then have q: "BranchLifecycleQuery_authority a = Inr a" "target a = t" by (auto simp: authority_ok_def)
  then show "check_authority pf t a = Inr a" by (simp add: check_authority_def or_corrupt_def accept_def)
  from authority_Inr [OF q(1)] show "routingVersion (placement a) = 1" by simp
qed

lemma reserve_accepted:
  assumes ok: "plane_ok pf p" "platform_ok pf" and r: "reserve p now i = Inr (r, p')"
  shows "check_reserved pf i r = Inr r"
  using r
proof (cases rule: reserve_cases)
  case (existing a)
  from existing(1) r have rv: "routingVersion (placement i) = 1" by (auto simp: reserve_def split: if_splits)
  note a = authority_accepted [OF ok(1) existing(2)]
  have "placement a = placement i" using existing(5) a(2) rv by (intro BranchStatePlacement.equality) simp_all
  with a(1) existing show ?thesis by (simp add: check_reserved_def)
next
  case (reserved a)
  from reserve_ok [OF ok(1) r] have "plane_ok pf p'" by (simp add: keeps_def)
  moreover have "map_of (authorities p') (key (target i)) = Some a" by (simp add: reserved(9))
  ultimately have "check_authority pf (target i) a = Inr a" by (rule authority_accepted(1))
  then show ?thesis by (simp add: check_reserved_def reserved(7,8) sameBranchInitializationIdentity_def)
qed

lemma initialization_receipt:
  assumes "prepareBranchInitialization pf a c = Inr pr"
  shows "pi_receipt pr = \<lparr>target = target c, placement = placement c, ir_reservationId = in_reservationId c,
     ir_rootRevision = in_rootRevision c,
     ir_payloadHash = hashNulldownSourceContent pf (js ''nulldown.branch-initialization.v1'' @ [10] @
       serializeCanonicalJson (number_text pf) (initialize_json c)),
     ir_initialHead = initial_head pf a c\<rparr>"
proof -
  from assms obtain a' c' where "BranchLifecycleQuery_authority a = Inr a'" "BranchLifecycleQuery_initialize c = Inr c'"
    unfolding prepareBranchInitialization_def and_then_Inr_iff by blast
  moreover from this have "a' = a" "c' = c" using authority_Inr [of a a'] initialize_Inr [of c c'] by simp_all
  ultimately show ?thesis using assms by (auto simp: prepareBranchInitialization_def Let_def split: if_splits)
qed

lemma initialize_accepted:
  assumes ok: "plane_ok pf p" "platform_ok pf" and r: "initialize pf p i = Inr (r, p')"
  shows "check_initialized pf i r = Inr r"
proof -
  from r obtain c pr where b: "initialize_begin pf p i = Inr (c, pr)" and f: "initialize_finish p c pr = Inr (r, p')"
    by (auto simp: initialize_def result_simps)
  from b have "BranchLifecycleQuery_initialize i = Inr c"
    by (auto simp: initialize_begin_def result_simps split: if_splits option.splits)
  then have c: "c = i" by (rule initialize_twice)
  note fl = initialize_begin_flight [OF b]
  obtain a where prep: "prepareBranchInitialization pf a c = Inr pr" and receipt: "io_receipt r = pi_receipt pr"
    using ok(1) fl f
  proof (cases rule: initialize_finish_cases)
    case (dup a receipt)
    then have "authority_ok pf p (key (target c)) a" using ok(1) by (simp add: plane_ok_def authorities_ok_def)
    with dup(3,4) obtain c0 pr0 where pr0: "prepareBranchInitialization pf a c0 = Inr pr0" "pi_intent pr0 = pi_intent pr"
      "pi_receipt pr0 = receipt" by (auto simp: authority_ok_def)
    have "serializeCanonicalJson (number_text pf) (initialize_json c0) = serializeCanonicalJson (number_text pf) (initialize_json c)"
      using prepareBranchInitialization_Inr(9) [OF pr0(1)] prepareBranchInitialization_Inr(9) [OF dup(2)] pr0(2) by simp
    with initialize_intent_inj [of pf c0 c] ok(2) have "c0 = c" by (simp add: platform_ok_def)
    with pr0 dup(2,6) show ?thesis by (intro that [of a]) simp_all
  qed (use that in simp)
  note q = prepareBranchInitialization_Inr [OF prep] and h = initial_head_fields [of pf a c]
  have "br_rootDropId (hd_branch (initial_head pf a c)) = rootDropId (target c)" "br_branchId (hd_branch (initial_head pf a c)) = branchId (target c)"
    "br_headSnapshotId (hd_branch (initial_head pf a c)) = 0" "br_headEventSeq (hd_branch (initial_head pf a c)) = Some (- 1)"
    by (simp_all add: initial_head_def Let_def)
  with q(1,2) h hash_valid_version [OF ok(2)] c show ?thesis
    by (simp add: check_initialized_def accept_def receipt initialization_receipt [OF prep] branch_json_valid Let_def)
qed

end
