(* ===== verification/Shard_Records.thy ===== *)
theory Shard_Records
  imports Shard_Transparency
begin

text \<open>
  The answers about runtime facts and branch memory pass the caller's checks. A page of facts is the run of
  consecutive entries after the cursor; the records of a memory query are already in the order the check
  sorts them into, so selecting again from them changes nothing.
\<close>

section \<open>Runtime facts\<close>

lemma filter_run:
  fixes seq :: "'a \<Rightarrow> int"
  assumes "\<And>i. i < length xs \<Longrightarrow> seq (xs ! i) = int i" "- 1 \<le> a" "- 1 \<le> h"
  shows "filter (\<lambda>e. a < seq e \<and> seq e \<le> h) xs = drop (nat (a + 1)) (take (nat (h + 1)) xs)"
  using assms(1)
proof (induction xs rule: rev_induct)
  case (snoc x xs)
  have "seq (xs ! i) = int i" if "i < length xs" for i using snoc.prems [of i] that by (simp add: nth_append)
  note ih = snoc.IH [OF this]
  have x: "seq x = int (length xs)" using snoc.prems [of "length xs"] by simp
  show ?case
  proof (cases "int (length xs) \<le> h")
    case True
    then have "take (nat (h + 1)) (xs @ [x]) = xs @ [x]" "take (nat (h + 1)) xs = xs" by simp_all
    with True x ih assms(2) show ?thesis by auto
  next
    case False
    then have "take (nat (h + 1)) (xs @ [x]) = take (nat (h + 1)) xs" using assms(3) by simp
    with False x ih show ?thesis by simp
  qed
qed simp

lemma fact_entry:
  assumes "state_ok pf s" "i < length (runtimeFacts s)"
  shows "fe_seq (fr_event (snd (snd (runtimeFacts s ! i)))) = int i"
    "validateRuntimeFactReceipt pf (snd (snd (runtimeFacts s ! i))) (head s) False = Inr ()"
    "fst (runtimeFacts s ! i) = fr_identity (snd (snd (runtimeFacts s ! i)))"
proof -
  from assms have "fact_entry_ok pf s i (runtimeFacts s ! i)" by (simp add: state_ok_def facts_ok_def)
  then show "fe_seq (fr_event (snd (snd (runtimeFacts s ! i)))) = int i"
    "validateRuntimeFactReceipt pf (snd (snd (runtimeFacts s ! i))) (head s) False = Inr ()"
    "fst (runtimeFacts s ! i) = fr_identity (snd (snd (runtimeFacts s ! i)))"
    by (simp_all add: fact_entry_ok_def case_prod_beta)
qed

lemma receipt_valid:
  assumes "validateRuntimeFactReceipt pf r q b = Inr ()"
  shows "validateRuntimeFactEvent (fr_event r) q b = Inr ()" "fr_identity r = runtimeFactIdentity pf (fe_fact (fr_event r))"
    "fr_key r = runtimeFactKey (fe_fact (fr_event r))"
  using assms by (auto simp: validateRuntimeFactReceipt_def result_simps split: if_splits)

lemma fact_count_safe:
  assumes "state_ok pf s"
  shows "is_safe_integer (int (length (runtimeFacts s)) - 1)"
proof (cases "runtimeFacts s")
  case (Cons x xs)
  then have "length xs < length (runtimeFacts s)" by simp
  note e = fact_entry [OF assms this]
  from receipt_valid(1) [OF e(2)] e(1) have "is_safe_integer (int (length xs))"
    by (auto simp: validateRuntimeFactEvent_def split: if_splits)
  with Cons show ?thesis by simp
qed (simp add: is_safe_integer_def max_safe_integer_def)

lemma fact_head_accepted:
  assumes "plane_ok pf p" "readRuntimeFactHead p q = Inr v"
  shows "check_fact_head pf q v = Inr v"
proof -
  from assms(2) obtain s where s: "state p (query_of q) = Inr s"
    and v: "v = \<lparr>target = target q, placement = placement q, fh_headSeq = int (length (runtimeFacts s)) - 1\<rparr>"
    by (auto simp: readRuntimeFactHead_def BranchStateQuery_head_def result_simps split: if_splits)
  have "states_ok pf p" using assms(1) by (simp add: plane_ok_def)
  from fact_count_safe [OF state_Inr(4) [OF s this]] show ?thesis
    by (simp add: check_fact_head_def accept_def v same_scope_refl)
qed

text \<open>The facts of a branch in order, and what a page of them satisfies.\<close>

definition fact_events :: "State \<Rightarrow> DropBranchRuntimeFact list" where
  "fact_events s = map (\<lambda>(_, _, receipt). fr_event receipt) (runtimeFacts s)"

lemma fact_events_nth: "i < length (runtimeFacts s) \<Longrightarrow> fact_events s ! i = fr_event (snd (snd (runtimeFacts s ! i)))"
  by (simp add: fact_events_def split: prod.split)

lemma length_fact_events [simp]: "length (fact_events s) = length (runtimeFacts s)"
  by (simp add: fact_events_def)

lemma fact_events_distinct:
  assumes s: "state_ok pf s"
  shows "distinct (map (\<lambda>e. runtimeFactIdentity pf (fe_fact e)) (fact_events s))" "distinct (map fe_factId (fact_events s))"
    "distinct (map (\<lambda>e. runtimeFactKey (fe_fact e)) (fact_events s))"
proof -
  from s have f: "distinct (map fst (runtimeFacts s))" "distinct (map (\<lambda>(_, _, r). fe_factId (fr_event r)) (runtimeFacts s))"
    "distinct (map (\<lambda>(_, _, r). fr_key r) (runtimeFacts s))" by (simp_all add: state_ok_def facts_ok_def jsmap_wf_def)
  have "map (\<lambda>e. runtimeFactIdentity pf (fe_fact e)) (fact_events s) = map fst (runtimeFacts s)"
    using fact_entry(3) [OF s] receipt_valid(2) [OF fact_entry(2) [OF s]] by (auto simp: list_eq_iff_nth_eq fact_events_nth)
  with f(1) show "distinct (map (\<lambda>e. runtimeFactIdentity pf (fe_fact e)) (fact_events s))" by metis
  have "map fe_factId (fact_events s) = map (\<lambda>(_, _, r). fe_factId (fr_event r)) (runtimeFacts s)"
    by (simp add: fact_events_def case_prod_beta comp_def)
  with f(2) show "distinct (map fe_factId (fact_events s))" by metis
  have "map (\<lambda>e. runtimeFactKey (fe_fact e)) (fact_events s) = map (\<lambda>(_, _, r). fr_key r) (runtimeFacts s)"
    using receipt_valid(3) [OF fact_entry(2) [OF s]] by (auto simp: list_eq_iff_nth_eq fact_events_nth case_prod_beta)
  with f(3) show "distinct (map (\<lambda>e. runtimeFactKey (fe_fact e)) (fact_events s))" by metis
qed

lemma distinct_slice: "distinct (map f xs) \<Longrightarrow> distinct (map f (take n (drop m (take k xs))))"
  by (simp add: take_map [symmetric] drop_map [symmetric])

lemma validate_event_cong: "target q = target r \<Longrightarrow> validateRuntimeFactEvent e q b = validateRuntimeFactEvent e r b"
  by (simp add: validateRuntimeFactEvent_def)

lemma fact_page_accepted:
  assumes ok: "plane_ok pf p" and q: "captureRuntimeFactPage q = Inr q" and r: "readRuntimeFacts p q = Inr v"
  shows "check_fact_page pf q v = Inr v"
proof -
  let ?a = "fq_afterSeq q" and ?h = "fh_headSeq q" and ?n = "nat (fq_limit q)"
  from q have b: "- 1 \<le> ?a" "- 1 \<le> ?h" "1 \<le> fq_limit q" "is_safe_integer ?h"
    by (auto simp: captureRuntimeFactPage_def result_simps split: if_splits)
  from r q obtain s where s: "state p q = Inr s" and h: "?h \<le> int (length (runtimeFacts s)) - 1"
    and v: "v = (let facts = take ?n (filter (\<lambda>e. fe_seq e > ?a \<and> fe_seq e \<le> ?h) (fact_events s))
       in \<lparr>target = target q, placement = placement q, fh_headSeq = ?h, fp_facts = facts,
           fp_nextCursor = (if facts = [] then None else Some (fe_seq (last facts)))\<rparr>)"
    unfolding readRuntimeFacts_def and_then_Inr_iff fact_events_def by (auto simp: Let_def split: if_splits)
  have "states_ok pf p" using ok by (simp add: plane_ok_def)
  note k = state_Inr [OF s this]
  have seq: "fe_seq (fact_events s ! i) = int i" if "i < length (runtimeFacts s)" for i
    using fact_entry(1) [OF k(4) that] that by (simp add: fact_events_nth)
  define facts where "facts = take ?n (drop (nat (?a + 1)) (take (nat (?h + 1)) (fact_events s)))"
  have run: "take ?n (filter (\<lambda>e. fe_seq e > ?a \<and> fe_seq e \<le> ?h) (fact_events s)) = facts"
    unfolding facts_def using filter_run [of "fact_events s" fe_seq ?a ?h] seq b(1,2) by simp
  have len: "int (length facts) = max 0 (min (fq_limit q) (?h - ?a))" using b h by (simp add: facts_def)
  have nth: "facts ! i = fact_events s ! (nat (?a + 1) + i)" "nat (?a + 1) + i < length (runtimeFacts s)" if "i < length facts" for i
  proof -
    from that have i: "i < nat (?h + 1) - nat (?a + 1)" by (simp add: facts_def) linarith
    with h b show l: "nat (?a + 1) + i < length (runtimeFacts s)" by linarith
    from that i show "facts ! i = fact_events s ! (nat (?a + 1) + i)" using l by (simp add: facts_def)
  qed
  have each: "fact_in_page q (i, facts ! i)" if i: "i < length facts" for i
  proof -
    note e = fact_entry [OF k(4) nth(2) [OF i]]
    from receipt_valid(1) [OF e(2)] have "validateRuntimeFactEvent (facts ! i) q False = Inr ()"
      using validate_event_cong [of q "head s"] k(2) nth [OF i] by (simp add: fact_events_nth)
    then show ?thesis using seq [OF nth(2) [OF i]] nth(1) [OF i] b(1) by (simp add: fact_in_page_def)
  qed
  then have all: "list_all (fact_in_page q) (List.enumerate 0 facts)" by (simp add: list_all_enumerate)
  have cursor: "(if facts = [] then None else Some (fe_seq (last facts))) =
     (if max 0 (min (fq_limit q) (?h - ?a)) \<noteq> 0 then Some (?a + max 0 (min (fq_limit q) (?h - ?a))) else None)"
  proof (cases "facts = []")
    case False
    then have l: "length facts - 1 < length facts" by simp
    have "fe_seq (last facts) = ?a + int (length facts)"
      using each [OF l] False by (simp add: fact_in_page_def last_conv_nth of_nat_diff Suc_leI)
    with False show ?thesis unfolding len [symmetric] by simp
  qed (simp add: len [symmetric])
  have "v = \<lparr>target = target q, placement = placement q, fh_headSeq = ?h, fp_facts = facts,
      fp_nextCursor = (if facts = [] then None else Some (fe_seq (last facts)))\<rparr>" by (simp add: v run Let_def)
  moreover have "distinct (map (\<lambda>e. runtimeFactIdentity pf (fe_fact e)) facts)" "distinct (map fe_factId facts)"
    "distinct (map (\<lambda>e. runtimeFactKey (fe_fact e)) facts)"
    unfolding facts_def by (intro distinct_slice fact_events_distinct [OF k(4)])+
  ultimately show ?thesis
    using all b len cursor by (simp add: check_fact_page_def check_fact_head_def accept_def same_scope_refl Let_def)
qed

section \<open>Branch memory\<close>

lemma stable_sort_sorted:
  assumes "sorted_wrt (\<lambda>a b. \<not> lt b a) xs"
  shows "stable_sort lt xs = xs"
proof -
  have none: "insert_before lt x ys = None" if "\<forall>y \<in> set ys. \<not> lt x y" for x ys
    using that by (induction ys) auto
  have "foldl (stable_insert lt) ys xs = ys @ xs" if "sorted_wrt (\<lambda>a b. \<not> lt b a) (ys @ xs)" for ys
    using that by (induction xs arbitrary: ys) (simp_all add: stable_insert_def none sorted_wrt_append)
  with assms show ?thesis by (simp add: stable_sort_def)
qed

lemma query_again:
  assumes "collation_ok pf" "queryNullMemRecords pf records sel = Inr rs"
  shows "queryNullMemRecords pf rs sel = Inr rs"
proof -
  let ?lt = "\<lambda>a b. nullmem_compare pf (length (query_tokens pf (sel_q sel))) a b < 0"
  let ?m = "nullmem_matches pf sel (query_tokens pf (sel_q sel))" and ?n = "nat (sel_limit sel)"
  have rs: "rs = take ?n (stable_sort ?lt (filter ?m records))" using assms(2) by (simp add: query_Inr_iff)
  have "sorted_wrt (\<lambda>a b. \<not> ?lt b a) rs"
    unfolding rs by (intro sorted_wrt_take sorted_stable_sort compare_strict_weak assms(1))
  then have "stable_sort ?lt rs = rs" by (rule stable_sort_sorted)
  moreover have "set rs \<subseteq> set (filter ?m records)" unfolding rs using mset_eq_setD [OF mset_stable_sort] by (metis set_take_subset)
  then have "filter ?m rs = rs" by (auto simp: filter_id_conv)
  moreover have "take ?n rs = rs" by (simp add: rs)
  ultimately show ?thesis using assms(2) by (simp add: query_Inr_iff)
qed

lemma query_subset:
  assumes "queryNullMemRecords pf records sel = Inr rs"
  shows "set rs \<subseteq> set records" "int (length rs) \<le> sel_limit sel" "mset rs \<subseteq># mset records"
proof -
  let ?lt = "\<lambda>a b. nullmem_compare pf (length (query_tokens pf (sel_q sel))) a b < 0"
  let ?m = "nullmem_matches pf sel (query_tokens pf (sel_q sel))" and ?n = "nat (sel_limit sel)"
  have rs: "rs = take ?n (stable_sort ?lt (filter ?m records))" and l: "1 \<le> sel_limit sel" using assms by (simp_all add: query_Inr_iff)
  have "mset rs + mset (drop ?n (stable_sort ?lt (filter ?m records))) = mset (filter ?m records)"
    unfolding rs by (metis append_take_drop_id mset_append mset_stable_sort)
  then have "mset rs \<subseteq># mset (filter ?m records)" by (metis mset_subset_eq_add_left)
  also have "\<dots> \<subseteq># mset records" by (simp add: multiset_filter_subset)
  finally show sub: "mset rs \<subseteq># mset records" .
  then show "set rs \<subseteq> set records" by (metis set_mset_mono set_mset_mset)
  show "int (length rs) \<le> sel_limit sel" using l by (simp add: rs)
qed

lemma distinct_map_submset:
  assumes "distinct (map f ys)" "mset xs \<subseteq># mset ys"
  shows "distinct (map f xs)"
proof -
  obtain zs where "mset zs = mset ys - mset xs" using ex_mset by blast
  with assms(2) have "mset (xs @ zs) = mset ys" by simp
  then have "mset (map f (xs @ zs)) = mset (map f ys)" by (simp only: mset_map)
  with assms(1) have "distinct (map f (xs @ zs))" using mset_eq_imp_distinct_iff by blast
  then show ?thesis by simp
qed

text \<open>Every record of a replayed outbox was put by one of its entries.\<close>

lemma set_update: "set (AList.update k v m) \<subseteq> insert (k, v) (set m)"
  by (induction m) auto

lemma replayed_created:
  assumes "replay_outbox pf h n ps pe es m0 = Inr m" "\<forall>(k, r) \<in> set m0. safe_created r"
  shows "\<forall>(k, r) \<in> set m. safe_created r"
  using assms
proof (induction es arbitrary: n ps pe m0)
  case (Cons e es)
  have ok: "outbox_entry_ok pf h n ps pe e" using Cons.prems(1) by (simp split: if_splits)
  have "\<forall>(k, r) \<in> set (apply_mutation (no_mutation e) m0). safe_created r"
  proof (cases "no_mutation e")
    case (Put_Record r)
    with ok have "safe_created r" by (simp add: outbox_entry_ok_def Let_def safe_created_def z_integer_j_int)
    with Cons.prems(2) show ?thesis using set_update [of "nullMemRecordIdentity r" r m0] by (auto simp: Put_Record apply_mutation_def)
  next
    case (Delete_Record i)
    with Cons.prems(2) show ?thesis by (auto simp: apply_mutation_def)
  qed
  from Cons.IH [OF _ this] Cons.prems(1) ok show ?case by simp
qed simp

lemma memory_state_Inr:
  assumes "plane_ok pf p" "nullMemState pf p q = Inr s"
  shows "state_ok pf s" "target (head s) = target q" "placement (head s) = placement q" "coherent_head (head s)"
    "nullmem_ok pf (head s) (mem_revision (nullmem s)) (mem_records (nullmem s)) (mem_outbox (nullmem s))"
proof -
  have "states_ok pf p" using assms(1) by (simp add: plane_ok_def)
  note k = state_Inr [OF nullMemState_Inr [OF assms(2)] this]
  then show "state_ok pf s" "target (head s) = target q" "placement (head s) = placement q" by simp_all
  from k(4) show "coherent_head (head s)" by (simp add: state_ok_def branch_ok_def head_ok_def)
  from k(4) show "nullmem_ok pf (head s) (mem_revision (nullmem s)) (mem_records (nullmem s)) (mem_outbox (nullmem s))"
    by (simp add: state_ok_def memory_ok_def)
qed

lemma memory_query_accepted:
  assumes ok: "plane_ok pf p" "collation_ok pf" and q: "captureNullMemQuery q = Inr q" and r: "queryNullMem pf p q = Inr v"
  shows "validateNullMemQueryResult pf v q = Inr ()"
proof -
  from r q obtain s rs where st: "nullMemState pf p q = Inr s"
    and rs: "queryNullMemRecords pf (map snd (mem_records (nullmem s))) (nq_selection q) = Inr rs"
    and v: "v = \<lparr>target = target q, placement = placement q, nr_head = head s, nr_memoryRevision = mem_revision (nullmem s), nr_records = rs\<rparr>"
    unfolding queryNullMem_def and_then_Inr_iff by auto
  note m = memory_state_Inr [OF ok(1) st]
  let ?ms = "mem_records (nullmem s)"
  from m(5) have rev: "int (length (mem_outbox (nullmem s))) = mem_revision (nullmem s)" "is_safe_integer (mem_revision (nullmem s))"
    and rp: "replay_outbox pf (head s) 1 0 (- 1) (mem_outbox (nullmem s)) [] = Inr ?ms" and ro: "records_ok (head s) ?ms"
    by (simp_all add: nullmem_ok_def)
  have "validateNullMemResult pf v q = Inr ()" using m rev by (intro validateNullMemResult_ok) (simp_all add: v)
  moreover have "validateNullMemRecord x q = Inr () \<and> safe_created x" if x: "x \<in> set rs" for x
  proof -
    from x query_subset(1) [OF rs] obtain k where k: "(k, x) \<in> set ?ms" by auto
    from ro k have "validateNullMemRecord x (head s) = Inr ()" by (auto simp: records_ok_def)
    moreover have "safe_created x" using replayed_created [OF rp] k by auto
    ultimately show ?thesis using m(2) by (simp add: validateNullMemRecord_def)
  qed
  then have "list_all (\<lambda>x. validateNullMemRecord x q = Inr () \<and> safe_created x) rs" by (simp add: list_all_iff)
  moreover have "rs = []" if "mem_revision (nullmem s) = 0"
    using query_subset(1) [OF rs] rp rev that by simp
  moreover have "map nullMemRecordIdentity (map snd ?ms) = map fst ?ms" using ro by (auto simp: records_ok_def)
  then have "distinct (map nullMemRecordIdentity (map snd ?ms))" using ro unfolding records_ok_def jsmap_wf_def by metis
  then have "distinct (map nullMemRecordIdentity rs)" by (rule distinct_map_submset [OF _ query_subset(3) [OF rs]])
  ultimately show ?thesis using query_subset(2) [OF rs] query_again [OF ok(2) rs]
    by (auto simp: validateNullMemQueryResult_def or_corrupt_def v Let_def not_less split: sum.splits)
qed

lemma memory_delete_accepted:
  assumes ok: "plane_ok pf p" and q: "captureNullMemDelete c = Inr c" and r: "deleteNullMem pf p now c = Inr (e, p')"
  shows "validateNullMemDeleteResult pf (delete_result e) c = Inr ()"
proof -
  from r q obtain s where st: "nullMemState pf p c = Inr s" and au: "authorizeNullMem (nd_actorAccountId c) (head s) = Inr ()"
    and e: "prepareNullMemDelete pf c (head s) (mem_revision (nullmem s)) now = Inr e"
    unfolding deleteNullMem_def and_then_Inr_iff by auto
  note m = memory_state_Inr [OF ok st] and mk = makeOutbox_Inr [OF e [unfolded prepareNullMemDelete_def]]
  have "validateNullMemResult pf (delete_result e) c = Inr ()"
    using m mk by (intro validateNullMemResult_ok) (simp_all add: delete_result_def)
  with au mk show ?thesis by (simp add: validateNullMemDeleteResult_def or_corrupt_def delete_result_def)
qed

section \<open>Putting a record\<close>

text \<open>Entry lists with the same entries under every key, in the same order.\<close>

definition key_equiv :: "(jstring \<times> 'v) list \<Rightarrow> (jstring \<times> 'v) list \<Rightarrow> bool" where
  "key_equiv xs ys \<longleftrightarrow> (\<forall>k. filter (\<lambda>e. fst e = k) xs = filter (\<lambda>e. fst e = k) ys)"

lemma sort_key_equiv:
  assumes "key_equiv xs ys"
  shows "sort_key fst xs = sort_key fst ys"
proof (rule properties_for_sort_key)
  have "count (mset xs) e = count (mset ys) e" for e
  proof -
    have "count (mset zs) e = count (mset (filter (\<lambda>x. fst x = fst e) zs)) e" for zs :: "(jstring \<times> 'a) list"
      by (induction zs) auto
    from this [of xs] this [of ys] show ?thesis using assms unfolding key_equiv_def by metis
  qed
  then show "mset (sort_key fst ys) = mset xs" by (simp add: multiset_eq_iff)
  show "filter (\<lambda>x. fst k = fst x) (sort_key fst ys) = filter (\<lambda>x. fst k = fst x) xs" if "k \<in> set (sort_key fst ys)" for k
  proof -
    have "filter (\<lambda>x. fst x = fst k) (sort_key fst ys) = filter (\<lambda>x. fst x = fst k) ys" by (rule sort_key_stable)
    also have "\<dots> = filter (\<lambda>x. fst x = fst k) xs" using assms by (simp add: key_equiv_def)
    finally show ?thesis by (simp only: eq_commute [of "fst k"])
  qed
  show "sorted (map fst (sort_key fst ys))" by simp
qed

lemma key_equiv_sort: "key_equiv (sort_key fst xs) xs"
  by (simp add: key_equiv_def sort_key_stable)

lemma same_keys_sort:
  fixes f :: "'a \<Rightarrow> 'b :: linorder"
  shows "\<forall>x \<in> set xs. f x = c \<Longrightarrow> sort_key f xs = xs"
  by (induction xs) (auto intro: insort_is_Cons)

lemma key_equiv_order: "key_equiv (property_order xs) xs"
proof -
  have "filter (\<lambda>e. fst e = k) (property_order xs) = filter (\<lambda>e. fst e = k) xs" for k
  proof (cases "is_array_index k")
    case True
    have "filter (\<lambda>e. fst e = k) (filter (\<lambda>(k, v). is_array_index k) xs) = filter (\<lambda>e. fst e = k) xs"
      using True by (auto intro!: filter_cong simp: filter_filter)
    moreover have "sort_key (\<lambda>(k, v). parse_digits 0 k) (filter (\<lambda>e. fst e = k) xs) = filter (\<lambda>e. fst e = k) xs"
      by (rule same_keys_sort) auto
    moreover have "filter (\<lambda>e. fst e = k) (filter (\<lambda>(k, v). \<not> is_array_index k) xs) = []"
      using True by (auto simp: filter_empty_conv)
    ultimately show ?thesis by (simp add: property_order_def filter_sort del: filter_filter)
  next
    case False
    then have "filter (\<lambda>e. fst e = k) (filter (\<lambda>(k, v). is_array_index k) xs) = []" by (auto simp: filter_empty_conv)
    moreover have "filter (\<lambda>e. fst e = k) (filter (\<lambda>(k, v). \<not> is_array_index k) xs) = filter (\<lambda>e. fst e = k) xs"
      using False by (auto intro!: filter_cong simp: filter_filter)
    ultimately show ?thesis by (simp add: property_order_def filter_sort del: filter_filter)
  qed
  then show ?thesis by (simp add: key_equiv_def)
qed

lemma key_equiv_trans: "key_equiv xs ys \<Longrightarrow> key_equiv ys zs \<Longrightarrow> key_equiv xs zs"
  by (simp add: key_equiv_def)

lemma key_equiv_map: "key_equiv xs ys \<Longrightarrow> key_equiv (map (\<lambda>(k, v). (k, f v)) xs) (map (\<lambda>(k, v). (k, f v)) ys)"
  by (simp add: key_equiv_def filter_map comp_def case_prod_beta)

lemma key_equiv_delete:
  assumes "key_equiv xs ys"
  shows "key_equiv (AList.delete k xs) (AList.delete k ys)"
proof -
  have "filter (\<lambda>e. fst e = j) (AList.delete k zs) = (if j = k then [] else filter (\<lambda>e. fst e = j) zs)" for j and zs :: "(jstring \<times> 'a) list"
    by (induction zs) auto
  with assms show ?thesis by (simp add: key_equiv_def)
qed

lemma reparse_twice: "reparse (reparse v) = reparse v"
proof (induction v rule: reparse.induct)
  case (2 kvs)
  let ?es = "map (\<lambda>(k, v). (k, reparse v)) kvs"
  let ?os = "property_order (sort_key fst ?es)"
  have "set ?os = set ?es" using mset_eq_setD [of ?os ?es] by simp
  then have "\<forall>(k, v) \<in> set ?os. reparse v = v" using 2 by auto
  then have "map (\<lambda>(k, v). (k, reparse v)) ?os = ?os" by (intro map_idI) auto
  moreover have "sort_key fst ?os = sort_key fst ?es"
    by (intro sort_key_equiv key_equiv_trans [OF key_equiv_order key_equiv_sort])
  ultimately show ?case by simp
qed auto

lemma put_twice: "captureNullMemPut i = Inr c \<Longrightarrow> captureNullMemPut c = Inr c"
  by (auto simp: captureNullMemPut_def Let_def result_simps reparse_twice validateNullMemRecord_def query_of_def
      BranchStateQuery_head_def split: if_splits)

lemma intent_created:
  assumes "is_object r"
  shows "nullMemRecordIntent pf (set_prop ''createdAt'' x r) = nullMemRecordIntent pf r"
proof -
  from assms obtain kvs where r: "r = JObj kvs" by (cases r) (simp_all add: is_object_def)
  let ?re = "map (\<lambda>(k, v). (k, reparse v))" and ?so = "map (\<lambda>(k, v). (k, sort_json v))" and ?k = "js ''createdAt''"
  have "key_equiv (?so (AList.delete ?k (property_order (sort_key fst (?re es))))) (?so (AList.delete ?k (?re es)))" for es
    by (intro key_equiv_map key_equiv_delete key_equiv_trans [OF key_equiv_order key_equiv_sort])
  note se = sort_key_equiv [OF this]
  have "AList.delete ?k (?re (AList.update ?k x kvs)) = AList.delete ?k (?re kvs)" by (induction kvs) auto
  with se [of "AList.update ?k x kvs"] se [of kvs] show ?thesis
    by (simp add: r nullMemRecordIntent_def canonicalRuntimeFactJson_def delete_prop_def set_prop_def entries_def)
qed

lemma memory_put_accepted:
  assumes ok: "plane_ok pf p" and q: "captureNullMemPut c = Inr c" and r: "putNullMem pf p now c = Inr (e, p')"
  shows "validateNullMemPutResult pf (put_result e) c = Inr ()"
proof -
  from r q obtain s where st: "nullMemState pf p c = Inr s" and au: "authorizeNullMem (np_actorAccountId c) (head s) = Inr ()"
    and e: "prepareNullMemPut pf c (head s) (mem_revision (nullmem s)) now = Inr e"
    unfolding putNullMem_def and_then_Inr_iff by auto
  note m = memory_state_Inr [OF ok st] and mk = makeOutbox_Inr [OF e [unfolded prepareNullMemPut_def]]
  note v = capturePut_Inr(2) [OF q]
  have "validateNullMemResult pf (put_result e) c = Inr ()"
    using m mk by (intro validateNullMemResult_ok) (simp_all add: put_result_def)
  moreover have "validateNullMemRecord (set_prop ''createdAt'' (j_int now) (np_record c)) c = Inr ()"
    using v by (simp add: validateNullMemRecord_def nullmem_schema_set split: if_splits)
  moreover have "is_object (np_record c)" using v
    by (auto simp: validateNullMemRecord_def isNullMemRecord_def NullMemCapabilityRecordSchema_def NullMemProcedureRecordSchema_def
        NullMemFactRecordSchema_def req_def split: if_splits)
  ultimately show ?thesis using au mk
    by (simp add: validateNullMemPutResult_def or_corrupt_def put_result_def safe_created_def z_integer_j_int intent_created)
qed

end
