(* ===== verification/Shard_Batch.thy ===== *)
theory Shard_Batch
  imports Shard_Transparency
begin

text \<open>
  The answer to an envelope passes the caller's check: whatever part of a captured envelope is new, repeated or
  already stored, the result that a plane prepares for it agrees with itself and with the envelope in
  everything \<^verbatim>\<open>RpcBranchCommitStatePlane.appendBatch\<close> compares.
\<close>

section \<open>The distinct ids of an envelope\<close>

lemma classify_unique:
  "batch_classify ex is u a = Inr (u', a') \<Longrightarrow>
   map fst u' = map fst u @ filter (\<lambda>k. k \<notin> set (map fst u)) (js_unique (map identity_id is))"
proof (induction "is" arbitrary: u a)
  case (Cons i "is")
  let ?k = "eventId (bi_event i)" and ?U = "js_unique (map identity_id is)"
  have id: "identity_id i = ?k" by (simp add: identity_id_def)
  show ?case
  proof (cases "map_of u ?k")
    case (Some prior)
    with Cons.prems have "batch_classify ex is u a = Inr (u', a')" by (auto simp: Let_def split: if_splits)
    moreover have k: "?k \<in> set (map fst u)" using Some by (force dest: map_of_SomeD)
    moreover have "filter (\<lambda>k. k \<noteq> ?k \<and> k \<notin> set (map fst u)) ?U = filter (\<lambda>k. k \<notin> set (map fst u)) ?U"
      using k by (intro filter_cong refl) auto
    ultimately show ?thesis using Cons.IH [of u a] id by simp
  next
    case None
    with Cons.prems obtain a1 where "batch_classify ex is (u @ [(?k, i)]) a1 = Inr (u', a')"
      by (auto simp: Let_def split: if_splits option.splits)
    from Cons.IH [OF this] None id show ?thesis
      by (auto simp: map_of_eq_None_iff intro!: filter_cong)
  qed
qed simp

lemma classify_ids:
  assumes "batch_classify ex (hashBranchBatchEvents pf es) [] [] = Inr (u, a)"
  shows "map fst u = js_unique (map eventId es)"
proof -
  have "map identity_id (hashBranchBatchEvents pf es) = map eventId es"
    by (simp add: hashBranchBatchEvents_def identity_id_def comp_def)
  with classify_unique [OF assms] show ?thesis by simp
qed

lemma set_js_unique: "set (js_unique xs) = set xs"
  by (induction xs) auto

section \<open>Receipts and accepted events\<close>

lemma stored_receipt_bounds:
  assumes s: "state_ok pf s" and r: "map_of (receipts s) k = Some r"
  shows "0 \<le> receipt_seq r" "receipt_seq r \<le> eventSeq (ver s)" "1 \<le> snapshotId (rc_version r)" "snapshotId (rc_version r) \<le> snapshotId (ver s)"
proof -
  from s have ro: "receipts_ok pf s" and sn: "snapshots_ok pf s" and ev: "events_ok s" and st: "stream_ok s"
    by (simp_all add: state_ok_def branch_ok_def)
  from ro r have "receipt_ok pf s k r" by (simp add: receipts_ok_def)
  then obtain e c where e: "map_of (st_events s) (receipt_seq r) = Some e" "event_snapshotId e = Some (snapshotId (rc_version r))"
    by (auto simp: receipt_ok_def)
  then have "receipt_seq r \<in> dom (map_of (st_events s))" by blast
  then show "0 \<le> receipt_seq r" "receipt_seq r \<le> eventSeq (ver s)" using ev by (simp_all add: events_ok_def)
  from st e(1) have "placed_event s (receipt_seq r) e" by (auto simp: stream_ok_def)
  with e(2) show "1 \<le> snapshotId (rc_version r)" "snapshotId (rc_version r) \<le> snapshotId (ver s)" by (auto simp: placed_event_def)
qed

lemma find_accepted:
  assumes pair: "list_all2 R es rs" and R: "\<And>e r. R e r \<Longrightarrow> rc_eventId r = eventId e" and d: "distinct (map eventId es)"
    and k: "map_of (map (\<lambda>r. (rc_eventId r, r)) rs) k = Some r"
  shows "\<exists>e. find (\<lambda>e. eventId e = k) (rev es) = Some e \<and> R e r"
proof -
  from map_of_SomeD [OF k] have r: "r \<in> set rs" "rc_eventId r = k" by auto
  then obtain j where j: "j < length rs" "rs ! j = r" by (auto simp: in_set_conv_nth)
  with pair have e: "R (es ! j) r" "j < length es" by (auto simp: list_all2_conv_all_nth)
  then have "eventId (es ! j) = k" "es ! j \<in> set es" using R r(2) by auto
  then obtain e' where f: "find (\<lambda>e. eventId e = k) (rev es) = Some e'"
    by (cases "find (\<lambda>e. eventId e = k) (rev es)") (auto simp: find_None_iff)
  then have "e' \<in> set (rev es)" "eventId e' = k" unfolding find_Some_iff by (metis nth_mem)+
  then have "e' = es ! j" using d \<open>eventId (es ! j) = k\<close> \<open>es ! j \<in> set es\<close> by (simp add: distinct_map inj_on_def)
  with f e show ?thesis by simp
qed

lemma find_other: "k \<notin> set (map eventId es) \<Longrightarrow> find (\<lambda>e. eventId e = k) (rev es) = None"
  by (auto simp: find_None_iff)

lemma ack_seq_receipt:
  "map_of ex k = Some r \<Longrightarrow> ack_seq (batch_acknowledgement ex m k) = receipt_seq r \<and>
     ack_snapshotId (batch_acknowledgement ex m k) = snapshotId (rc_version r)"
  "map_of ex k = None \<Longrightarrow> map_of m k = Some r \<Longrightarrow> ack_seq (batch_acknowledgement ex m k) = receipt_seq r \<and>
     ack_snapshotId (batch_acknowledgement ex m k) = snapshotId (rc_version r)"
  by (cases "rc_eventSeq r"; simp add: batch_acknowledgement_def receipt_seq_def Let_def)+

section \<open>The checks\<close>

text \<open>What every acknowledgement of the answer satisfies.\<close>

definition acknowledged :: "int \<Rightarrow> int \<Rightarrow> DropDiffEvent list \<Rightarrow> DropDiffEventAcknowledgement \<Rightarrow> bool" where
  "acknowledged stored_count headId es ack \<longleftrightarrow> 0 \<le> ack_seq ack \<and> ack_seq ack < stored_count \<and> 1 \<le> ack_snapshotId ack \<and> ack_snapshotId ack \<le> headId \<and>
     (case find (\<lambda>e. eventId e = ack_eventId ack) (rev es) of
        Some accepted \<Rightarrow> ack_status ack = Accepted \<and> ack_seq ack = event_seq accepted \<and>
          Some (ack_snapshotId ack) = event_snapshotId accepted
      | None \<Rightarrow> ack_status ack = Duplicate)"

lemma acks_agree:
  assumes acks: "ba_acknowledgements r = map f ids" and f: "\<And>k. k \<in> set ids \<Longrightarrow> ack_eventId (f k) = k \<and>
      acknowledged (ba_totalStored r) (br_headSnapshotId (ba_branch r)) (ba_acceptedEvents r) (f k)"
    and safe: "is_safe_integer (ba_totalStored r)" "is_safe_integer (br_headSnapshotId (ba_branch r))"
  shows "list_all ack_ok (ba_acknowledgements r)" "list_all (ack_agrees r ids) (List.enumerate 0 (ba_acknowledgements r))"
proof -
  have "ack_ok (f k)" if "k \<in> set ids" for k
    using f [OF that] safe by (auto simp: ack_ok_def acknowledged_def is_safe_integer_def)
  then show "list_all ack_ok (ba_acknowledgements r)" by (simp add: acks list_all_iff)
  have "ack_agrees r ids (i, f (ids ! i))" if "i < length ids" for i
    using f [of "ids ! i"] that by (auto simp: ack_agrees_def acknowledged_def split: option.splits)
  then show "list_all (ack_agrees r ids) (List.enumerate 0 (ba_acknowledgements r))"
    by (auto simp: acks list_all_length nth_enumerate_eq)
qed

lemma small_count:
  assumes "captured_batch c" "n \<le> length (events c)"
  shows "is_safe_integer (int (length (events c)) - int n)"
  using assms captured_batch_events(5) unfolding captured_batch_def by (fastforce simp: is_safe_integer_def max_safe_integer_def)

lemma nothing_new_accepted:
  assumes s: "state_ok pf s" and cap: "captured_batch c" and t: "target c = target (head s)"
    and cl: "batch_classify (receipts s) (hashBranchBatchEvents pf (events c)) [] [] = Inr (u, [])"
    and ex: "\<not> batch_sequence_exhausted (head s)"
    and pb: "pb = with_acknowledgements (receipts s) (map fst u) (batch_nothing_new c (head s) tx)"
  shows "check_batch c (pb_result pb) = Inr (pb_result pb)"
proof -
  let ?r = "pb_result pb" and ?ids = "js_unique (map eventId (events c))"
  note ids = classify_ids [OF cl]
  from s have h: "head_ok s" by (simp add: state_ok_def branch_ok_def)
  note v = head_ok_versions [OF h]
  from h have hc: "br_rootDropId (hd_branch (head s)) = rootDropId (target c)" "br_branchId (hd_branch (head s)) = branchId (target c)"
    "br_headSnapshotId (hd_branch (head s)) = snapshotId (ver s)" "br_headEventSeq (hd_branch (head s)) = Some (eventSeq (ver s))"
    by (simp_all add: head_ok_def coherent_head_def head_consistent_def t)
  have f: "ba_branch ?r = hd_branch (head s)" "ba_snapshot ?r = None" "ba_acceptedEvents ?r = []"
    "ba_deduplicatedCount ?r = int (length (events c))" "ba_totalStored ?r = eventSeq (ver s) + 1"
    "ba_acknowledgements ?r = map (batch_acknowledgement (receipts s) []) ?ids"
    by (simp_all add: pb with_acknowledgements_def batch_nothing_new_def ids)
  have known: "map_of (receipts s) k \<noteq> None" if "k \<in> set ?ids" for k
  proof -
    have "length (filter (\<lambda>k. map_of (receipts s) k = None) ?ids) = 0"
      using batch_classify_accepted(1) [OF cl] fresh_length [of "receipts s" u] by (simp add: ids)
    with that show ?thesis by (simp add: filter_empty_conv)
  qed
  have safe: "is_safe_integer (eventSeq (ver s) + 1)" "is_safe_integer (snapshotId (ver s))"
    using v(1) ex by (auto simp: valid_version_def batch_sequence_exhausted_def Let_def is_safe_integer_def)
  have ack: "ack_eventId (batch_acknowledgement (receipts s) [] k) = k \<and>
      acknowledged (ba_totalStored ?r) (br_headSnapshotId (ba_branch ?r)) (ba_acceptedEvents ?r) (batch_acknowledgement (receipts s) [] k)"
    if "k \<in> set ?ids" for k
  proof -
    from that known obtain r where r: "map_of (receipts s) k = Some r" by blast
    from ack_seq_receipt(1) [OF r, of "[]"] stored_receipt_bounds [OF s r] r
    show ?thesis by (simp add: acknowledged_def f hc)
  qed
  have "is_safe_integer (ba_totalStored ?r)" "is_safe_integer (br_headSnapshotId (ba_branch ?r))" using safe by (simp_all add: f hc)
  note acks = acks_agree [OF f(6) ack this]
  then show ?thesis using small_count [OF cap, of 0] hc safe
    by (simp add: check_batch_def accept_def batch_shape_ok_def batch_agrees_def f branch_json_valid Let_def)
qed

lemma published_receipt:
  assumes pub: "publishable pf s h text meta es rs x" and h: "head_ok s"
    and k: "map_of (map (\<lambda>r. (rc_eventId r, r)) rs) k = Some r"
  shows "\<exists>e. find (\<lambda>e. eventId e = k) (rev es) = Some e \<and> receipt_seq r = event_seq e \<and>
      event_snapshotId e = Some (snapshotId (rc_version r))"
    and "0 \<le> receipt_seq r" "receipt_seq r \<le> eventSeq (ver s) + int (length es)" "snapshotId (rc_version r) = snapshotId (ver s) + 1"
proof -
  let ?R = "\<lambda>e r. rc_eventId r = eventId e \<and> receipt_seq r = event_seq e \<and> rc_version r = hd_version h \<and>
       target r = target (head s) \<and> placement r = placement (head s) \<and>
       rc_payloadHash r = event_payload_hash pf e \<and> event_snapshotId e = Some (snapshotId (hd_version h))"
  from pub have l: "list_all2 ?R es rs" and d: "distinct (map eventId es)" and hn: "hd_version h = next_version pf (ver s) (int (length es)) text"
    and sq: "map event_seq es = map (\<lambda>i. eventSeq (ver s) + 1 + int i) [0..<length es]"
    unfolding publishable_def by blast+
  have hv: "snapshotId (hd_version h) = snapshotId (ver s) + 1" by (simp add: hn next_version_def)
  from find_accepted [OF l _ d k] obtain e where e: "find (\<lambda>e. eventId e = k) (rev es) = Some e" "?R e r" by blast
  then show "\<exists>e. find (\<lambda>e. eventId e = k) (rev es) = Some e \<and> receipt_seq r = event_seq e \<and>
      event_snapshotId e = Some (snapshotId (rc_version r))" by auto
  show "snapshotId (rc_version r) = snapshotId (ver s) + 1" using e(2) hv by simp
  from e(1) have "e \<in> set es" unfolding find_Some_iff by (metis nth_mem set_rev)
  then have "event_seq e \<in> set (map event_seq es)" by simp
  then obtain i where "i < length es" "event_seq e = eventSeq (ver s) + 1 + int i" unfolding sq by auto
  moreover have "- 1 \<le> eventSeq (ver s)" using head_ok_versions(1) [OF h] by (simp add: valid_version_def)
  ultimately show "0 \<le> receipt_seq r" "receipt_seq r \<le> eventSeq (ver s) + int (length es)" using e(2) by simp_all
qed

text \<open>The accepted events and the snapshot of a publication, as the caller compares them.\<close>

lemma published_events_agree:
  assumes pub: "publishable pf s h text meta es rs x" and t: "target c = target (head s)"
    and ids: "\<forall>e \<in> set es. eventId e \<in> set inputIds"
  shows "list_all (\<lambda>e. isDropDiffEventV1 (event_json e)) es"
    "list_all (event_agrees c inputIds meta (eventSeq (ver s) + 1)) (List.enumerate 0 es)"
proof -
  from pub have w: "wire_publication h meta es" and th: "target h = target (head s)" and sn: "sn_snapshotId meta = snapshotId (ver s) + 1"
    and hn: "hd_version h = next_version pf (ver s) (int (length es)) text"
    and sq: "map event_seq es = map (\<lambda>i. eventSeq (ver s) + 1 + int i) [0..<length es]"
    and l: "list_all2 (\<lambda>e r. rc_eventId r = eventId e \<and> receipt_seq r = event_seq e \<and> rc_version r = hd_version h \<and>
       target r = target (head s) \<and> placement r = placement (head s) \<and>
       rc_payloadHash r = event_payload_hash pf e \<and> event_snapshotId e = Some (snapshotId (hd_version h))) es rs"
    unfolding publishable_def by blast+
  from w have we: "wire_event h (es ! i)" if "i < length es" for i using that by (simp add: wire_publication_def list_all_length)
  then show "list_all (\<lambda>e. isDropDiffEventV1 (event_json e)) es" by (simp add: list_all_length wire_event_def event_guard)
  have "event_agrees c inputIds meta (eventSeq (ver s) + 1) (i, es ! i)" if i: "i < length es" for i
  proof -
    have "event_seq (es ! i) = eventSeq (ver s) + 1 + int i" using arg_cong [OF sq, of "\<lambda>xs. xs ! i"] i by simp
    moreover have "event_snapshotId (es ! i) = Some (sn_snapshotId meta)"
      using l i by (auto simp: list_all2_conv_all_nth sn hn next_version_def)
    moreover have "sn_eventIds meta ! i = eventId (es ! i)" using w i by (simp add: wire_publication_def)
    ultimately show ?thesis using we [OF i] ids i th t by (simp add: event_agrees_def wire_event_def)
  qed
  then show "list_all (event_agrees c inputIds meta (eventSeq (ver s) + 1)) (List.enumerate 0 es)"
    by (simp add: list_all_enumerate)
qed

lemma publication_accepted:
  assumes s: "state_ok pf s" and pf: "platform_ok pf" and cap: "captured_batch c"
    and prep: "prepareBranchBatch pf c (hashBranchBatchEvents pf (events c)) (head s) (text_at s (snapshotId (ver s)))
      (receipts s) now = Inr pb"
    and cl: "batch_classify (receipts s) (hashBranchBatchEvents pf (events c)) [] [] = Inr (u, a)"
    and b: "batch_publication pf c a (head s) (text_at s (snapshotId (ver s))) now = Inr pb0"
    and pb: "pb = with_acknowledgements (receipts s) (map fst u) pb0" and t: "target c = target (head s)"
  shows "check_batch c (pb_result pb) = Inr (pb_result pb)"
proof -
  let ?r = "pb_result pb" and ?ids = "js_unique (map eventId (events c))" and ?m = "map (\<lambda>r. (rc_eventId r, r)) (pb_receipts pb0)"
  note ids = classify_ids [OF cl] and q = batch_publication_Inr [OF b]
  from q(8,9) obtain meta x where mx: "ba_snapshot ?r = Some meta" "pb_outbox pb = Some x" by (auto simp: pb)
  note pub = batch_is_publish(2) [OF prep mx cap]
  from s have h: "head_ok s" by (simp add: state_ok_def branch_ok_def)
  let ?es = "ba_acceptedEvents ?r"
  have len: "length ?es = length a" by (simp add: pb q(3))
  have f: "ba_totalStored ?r = eventSeq (ver s) + int (length ?es) + 1" "ba_deduplicatedCount ?r = int (length (events c)) - int (length ?es)"
    "ba_acknowledgements ?r = map (batch_acknowledgement (receipts s) ?m) ?ids" unfolding len
    by (simp_all add: pb q(10,11) with_acknowledgements_def ids)
  have br: "br_headSnapshotId (ba_branch ?r) = snapshotId (ver s) + 1" "br_headEventSeq (ba_branch ?r) = Some (eventSeq (ver s) + int (length ?es))"
    "br_rootDropId (ba_branch ?r) = rootDropId (target c)" "br_branchId (ba_branch ?r) = branchId (target c)"
    unfolding len using h by (simp_all add: pb q(7) head_ok_def coherent_head_def head_consistent_def t)
  note v = head_ok_versions(1) [OF h]
  have safe: "is_safe_integer (ba_totalStored ?r)" "is_safe_integer (br_headSnapshotId (ba_branch ?r))"
    using q(1,2) by (simp_all add: f br len)
  have own: "map_of (receipts s) (eventId e) = None" if "e \<in> set ?es" for e using pub that unfolding publishable_def by blast
  have known: "eventId e \<in> set ?ids" if "e \<in> set ?es" for e
  proof -
    have "map eventId ?es = map (\<lambda>i. eventId (bi_event i)) a" by (simp add: pb q(3) comp_def)
    then have "eventId e \<in> set (map (\<lambda>i. eventId (bi_event i)) a)" using that by (metis image_eqI list.set_map)
    then obtain i where i: "i \<in> set a" "eventId e = eventId (bi_event i)" by auto
    then have "i \<in> set (hashBranchBatchEvents pf (events c))" using batch_classify_accepted(5) [OF cl] by blast
    with i show ?thesis by (auto simp: set_js_unique hashBranchBatchEvents_def)
  qed
  have ack: "ack_eventId (batch_acknowledgement (receipts s) ?m k) = k \<and>
      acknowledged (ba_totalStored ?r) (br_headSnapshotId (ba_branch ?r)) ?es (batch_acknowledgement (receipts s) ?m k)"
    if k: "k \<in> set ?ids" for k
  proof (cases "map_of (receipts s) k")
    case (Some r)
    then have "find (\<lambda>e. eventId e = k) (rev ?es) = None" using own by (intro find_other) auto
    with ack_seq_receipt(1) [OF Some, of ?m] stored_receipt_bounds [OF s Some] Some
    show ?thesis by (simp add: acknowledged_def f br)
  next
    case None
    from fresh_receipt [OF cl b _ None] k ids obtain r where r: "map_of ?m k = Some r" by auto
    then have "map_of (map (\<lambda>r. (rc_eventId r, r)) (pb_receipts pb)) k = Some r" by (simp add: pb)
    note p = published_receipt [OF pub h this]
    from p(1) obtain e where "find (\<lambda>e. eventId e = k) (rev ?es) = Some e" "receipt_seq r = event_seq e"
      "event_snapshotId e = Some (snapshotId (rc_version r))" by blast
    with ack_seq_receipt(2) [OF None r] p(2-4) v None show ?thesis
      by (simp add: acknowledged_def f br valid_version_def)
  qed
  note acks = acks_agree [OF f(3) ack safe]
  have evs: "list_all (\<lambda>e. isDropDiffEventV1 (event_json e)) ?es"
    "list_all (event_agrees c ?ids meta (eventSeq (ver s) + 1)) (List.enumerate 0 ?es)"
    using known by (intro published_events_agree [OF pub t]; blast)+
  have "length a \<le> length u" unfolding batch_classify_accepted(1) [OF cl] by (simp add: fresh_identities_def)
  also have "\<dots> \<le> length (events c)" using unique_length_le [OF cl] by (simp add: hashBranchBatchEvents_def)
  finally have dedup: "is_safe_integer (ba_deduplicatedCount ?r)" "0 \<le> ba_deduplicatedCount ?r"
    using small_count [OF cap] by (simp_all add: f len)
  have meta: "sn_rootDropId meta = rootDropId (target c)" "sn_branchId meta = branchId (target c)" "sn_snapshotId meta = snapshotId (ver s) + 1"
    "sn_textLength meta = int (length (ba_content ?r))" "sn_patchStartSeq meta = Some (eventSeq (ver s) + 1)"
    "sn_patchEndSeq meta = Some (eventSeq (ver s) + int (length ?es))" "length (sn_eventIds meta) = length ?es"
    "sn_sourceContentHash meta = Some (hashNulldownSourceContent pf (ba_content ?r))"
    using mx(1) unfolding len by (auto simp: pb q(5,8) next_version_def)
  have ms: "isDropSnapshotRecordV1 (snapshot_json meta)"
    using meta(8) hash_valid_version [OF pf] by (intro snapshot_guard) (simp add: valid_version_def)
  have ne: "?es \<noteq> []" "distinct (map eventId ?es)" using pub unfolding publishable_def by blast+
  have "batch_shape_ok c ?r"
    using acks(1) evs(1) dedup safe br meta(1-3) ms mx(1) f by (simp add: batch_shape_ok_def branch_json_valid)
  moreover have "batch_agrees c ?r"
    using acks(2) evs(2) meta(4-7) ne mx(1) f by (simp add: batch_agrees_def)
  ultimately show ?thesis by (simp add: check_batch_def accept_def)
qed

lemma batch_accepted:
  assumes s: "state_ok pf s" and pf: "platform_ok pf" and cap: "captured_batch c"
    and prep: "prepareBranchBatch pf c (hashBranchBatchEvents pf (events c)) (head s) (text_at s (snapshotId (ver s)))
      (receipts s) now = Inr pb"
  shows "check_batch c (pb_result pb) = Inr (pb_result pb)"
proof -
  from prep obtain u a pb0 where hc: "\<not> head_corrupt (target c) (head s)" and ex: "\<not> batch_sequence_exhausted (head s)"
    and cl: "batch_classify (receipts s) (hashBranchBatchEvents pf (events c)) [] [] = Inr (u, a)"
    and pb0: "(if a = [] then Inr (batch_nothing_new c (head s) (text_at s (snapshotId (ver s))))
      else batch_publication pf c a (head s) (text_at s (snapshotId (ver s))) now) = Inr pb0"
    and pb: "pb = with_acknowledgements (receipts s) (map fst u) pb0"
    by (rule prepareBranchBatch_Inr)
  note t = head_not_corrupt [OF hc]
  show ?thesis
  proof (cases "a = []")
    case True
    with pb0 pb show ?thesis
      by (intro nothing_new_accepted [OF s cap t cl [unfolded True] ex, where tx = "text_at s (snapshotId (ver s))"]) simp
  next
    case False
    with pb0 show ?thesis by (intro publication_accepted [OF s pf cap prep cl _ pb t]) simp
  qed
qed

lemma batch_twice:
  assumes "captureBranchBatchAppend i = Inr c"
  shows "captureBranchBatchAppend c = Inr c"
proof -
  note q = captured_batch_events [OF assms]
  have "DropDiffAppendEnvelopeSchema (envelope_json (events c)) = Some (events c)"
    using q(5,6) by (intro DropDiffAppendEnvelopeSchema_json)
      (auto simp: captured_event_def bounded_def DIFF_ENVELOPE_MAX_EVENTS_def list_all_iff)
  moreover have "capture_batch_event (query_of c) e = Inr e" if "e \<in> set (events c)" for e
    using q(6) that captured_event_fixed [of e]
    by (auto simp: capture_batch_event_def captured_event_def captured_ops_decodable query_of_def)
  then have "map_result (capture_batch_event (query_of c)) (events c) = Inr (events c)"
    unfolding map_result_Inr_iff by (simp add: list_all2_same)
  ultimately show ?thesis using q(1,2) by (simp add: captureBranchBatchAppend_def BranchStateQuery_head_def query_of_def)
qed

lemma append_envelope_Inr:
  assumes "append_envelope pf now p c = Inr (v, p')"
  obtains d s pb where "captureBranchBatchAppend c = Inr d" "batch_begin pf p now d = Inr (s, pb)" "v = pb_result pb"
proof -
  from assms obtain d where d: "captureBranchBatchAppend c = Inr d"
    by (cases "captureBranchBatchAppend c") (auto simp: append_envelope_def appendBatch_def)
  obtain s pb where b: "batch_begin pf p now d = Inr (s, pb)"
    using assms by (cases "batch_begin pf p now d") (auto simp: append_envelope_def appendBatch_def d numeral_eq_Suc)
  then have "state p d = Inr s" by (auto simp: batch_begin_def result_simps split: option.splits)
  with assms b have "v = pb_result pb"
    by (auto simp: append_envelope_def appendBatch_def d numeral_eq_Suc batch_finish_def result_simps split: option.splits sum.splits)
  with d b show ?thesis by (rule that)
qed

lemma append_envelope_accepted:
  assumes ok: "plane_ok pf p" and pf: "platform_ok pf" and r: "append_envelope pf now p c = Inr (v, p')"
    and c: "captureBranchBatchAppend c = Inr c"
  shows "check_batch c v = Inr v"
proof -
  from r obtain d s pb where d: "captureBranchBatchAppend c = Inr d" and b: "batch_begin pf p now d = Inr (s, pb)" and v: "v = pb_result pb"
    by (rule append_envelope_Inr)
  from d c have "d = c" by simp
  from b have st: "state p d = Inr s" by (auto simp: batch_begin_def result_simps split: option.splits)
  have "states_ok pf p" using ok by (simp add: plane_ok_def)
  note k = state_Inr [OF st this]
  from b st have "prepareBranchBatch pf c (hashBranchBatchEvents pf (events c)) (head s) (text_at s (snapshotId (ver s)))
      (receipts s) now = Inr pb" unfolding \<open>d = c\<close>
    by (auto simp: batch_begin_def result_simps text_at_def split: option.splits)
  with k(4) pf c show ?thesis unfolding v by (intro batch_accepted) (auto simp: captured_batch_def)
qed

end
