(* ===== verification/Shard_Plane.thy ===== *)
theory Shard_Plane
  imports Shard_Records Shard_Batch
begin

text \<open>
  The interface \<open>shard_operation\<close> interpreted on every operation of the memory plane whose input is unchanged by
  being captured again: nine reads and six writes. Over a pool whose shards hold sound planes each of them is
  the operation on the plane of the branch's own shard.

  \<open>appendRuntimeFact\<close> is the exception: capturing its command twice moves the metadata property within the
  fact, so the stored fact is the same data in another property order.
\<close>

section \<open>Sound planes\<close>

definition sound_plane :: "platform \<Rightarrow> MemoryPlane \<Rightarrow> bool" where
  "sound_plane pf p \<longleftrightarrow> platform_ok pf \<and> collation_ok pf \<and> plane_ok pf p \<and> texts_fit p"

definition sound_pool :: "platform \<Rightarrow> (jstring \<Rightarrow> shard_env) \<Rightarrow> MemoryPlane shard pool \<Rightarrow> bool" where
  "sound_pool pf envs pool \<longleftrightarrow> named_envs envs \<and> (\<forall>n. sound_plane pf (sh_plane (pool n)))"

abbreviation "shards pf now envs \<equiv> object_stub pf envs (memory_plane pf now)"

section \<open>Routing by branch and placement\<close>

named_theorems capture_simps
lemmas [capture_simps] = BranchStateQuery_head_def BranchStateQuery_content_def BranchStateQuery_range_def
  BranchLifecycleQuery_placement_def BranchLifecycleQuery_reserve_def BranchLifecycleQuery_initialize_def
  BranchLifecycleQuery_snapshot_def BranchLifecycleQuery_page_def captureRuntimeFactPage_def captureNullMemQuery_def
  captureNullMemSelection_def captureNullMemDelete_def

lemma shard_name_query: "branchStateShardName pf (query_of q) = branchStateShardName pf q"
  by (simp add: shard_name_home query_of_def)

lemma routed_query: "routed pf resolve (query_of q) invoke check pool = routed pf resolve q invoke check pool"
  by (simp add: routed_def call_def shard_name_query)

lemma call_query: "call pf resolve q invoke pool = routed pf resolve (query_of q) invoke Inr pool"
  by (simp add: routed_query call_routed)

lemma admitted:
  assumes "sound_pool pf envs pool" "branchStateShardName pf (query_of q) = Inr n"
  shows "object_placement pf (envs n) q = Inr ()"
  using assms placement_admits [of envs pf q n] by (simp add: sound_pool_def shard_name_query)

lemma unsupported: "routingVersion (placement q) \<noteq> 1 \<Longrightarrow> state p q = Inl Routing_Version_Unsupported"
  by (simp add: state_def)

lemma unsupported_content: "routingVersion (placement q) \<noteq> 1 \<Longrightarrow> plane_content p q = Inl Routing_Version_Unsupported"
  by (simp add: plane_content_def unsupported)

lemma unsupported_snapshot: "routingVersion (placement q) \<noteq> 1 \<Longrightarrow> plane_snapshot p q = Inl Routing_Version_Unsupported"
  by (simp add: plane_snapshot_def unsupported)

lemma unsupported_memory: "routingVersion (placement q) \<noteq> 1 \<Longrightarrow> nullMemState pf p q = Inl Routing_Version_Unsupported"
  by (simp add: nullMemState_def unsupported)

lemmas unsupported_simps = unsupported unsupported_content unsupported_snapshot unsupported_memory

section \<open>Inputs that capture to themselves\<close>

text \<open>An operation that reads leaves the plane as it is; one that writes replaces it when it succeeds.\<close>

definition reading :: "('p \<Rightarrow> 'c \<Rightarrow> 'v branch_result) \<Rightarrow> 'p \<Rightarrow> 'c \<Rightarrow> 'v outcome \<times> 'p" where
  "reading f p c = (lift_branch (f p c), p)"

definition writing :: "('p \<Rightarrow> 'c \<Rightarrow> ('v \<times> 'p) branch_result) \<Rightarrow> 'p \<Rightarrow> 'c \<Rightarrow> 'v outcome \<times> 'p" where
  "writing f p c = committed p (lift_branch (f p c))"

definition check_found :: "('v \<Rightarrow> 'v branch_result) \<Rightarrow> 'v option \<Rightarrow> 'v option branch_result" where
  "check_found check found = (case found of None \<Rightarrow> Inr None | Some v \<Rightarrow> and_then (check v) (\<lambda>v. Inr (Some v)))"

lemma lift_Inr [simp]: "lift_branch r = Inr v \<longleftrightarrow> r = Inr v"
  by (cases r) simp_all

lemma committed_simps [simp]: "committed p (Inl e) = (Inl e, p)" "committed p (Inr (v, p')) = (Inr v, p')"
  by (simp_all add: committed_def)

lemma fst_committed: "fst (committed p r) = Inr v \<longleftrightarrow> (\<exists>p'. r = Inr (v, p'))"
  by (auto simp: committed_def split: sum.splits prod.splits)

text \<open>What both kinds share: the input, where it goes and what is refused.\<close>

locale captured_input =
  fixes capture :: "'c \<Rightarrow> 'c branch_result" and route :: "'c \<Rightarrow> BranchHeadQuery" and result :: "'p \<Rightarrow> 'c \<Rightarrow> 'r branch_result"
  assumes same: "capture c = Inr d \<Longrightarrow> d = c"
    and refused: "capture c = Inl e \<Longrightarrow> result p c = Inl e"
    and routable: "capture c = Inr c \<Longrightarrow> valid_target (target (route c)) \<and> valid_placement (placement (route c))"
    and other_version: "capture c = Inr c \<Longrightarrow> routingVersion (placement (route c)) \<noteq> 1 \<Longrightarrow> result p c = Inl Routing_Version_Unsupported"

locale captured_read = captured_input capture route result
  for capture :: "'c \<Rightarrow> 'c branch_result" and route :: "'c \<Rightarrow> BranchHeadQuery" and result :: "'p \<Rightarrow> 'c \<Rightarrow> 'v branch_result" +
  fixes pf :: platform and check :: "'c \<Rightarrow> 'v \<Rightarrow> 'v branch_result" and inv :: "'p \<Rightarrow> bool"
  assumes accepted: "inv p \<Longrightarrow> capture d = Inr d \<Longrightarrow> result p d = Inr v \<Longrightarrow> check d v = Inr v"

sublocale captured_read \<subseteq> shard_operation pf capture route "reading result" check inv
proof
  show "capture c = Inl e \<Longrightarrow> reading result p c = (Inl (Failed e), p)" for c e p by (simp add: reading_def refused)
  show "capture c = Inr d \<Longrightarrow> capture d = Inr d \<and> reading result p c = reading result p d" for c d p using same [of c d] by simp
  show "capture c = Inr d \<Longrightarrow> valid_target (target (route d)) \<and> valid_placement (placement (route d)) \<and> target (route d) = target (route c)"
    for c d using same [of c d] routable [of c] by simp
  show "capture c = Inr d \<Longrightarrow> routingVersion (placement (route d)) \<noteq> 1 \<Longrightarrow> reading result p d = (Inl (Failed Routing_Version_Unsupported), p)"
    for c d p using same [of c d] other_version [of c] by (simp add: reading_def)
  show "inv p \<Longrightarrow> capture d = Inr d \<Longrightarrow> fst (reading result p d) = Inr v \<Longrightarrow> check d v = Inr v" for p d v
    by (simp add: reading_def accepted)
qed

locale captured_write = captured_input capture route result
  for capture :: "'c \<Rightarrow> 'c branch_result" and route :: "'c \<Rightarrow> BranchHeadQuery" and result :: "'p \<Rightarrow> 'c \<Rightarrow> ('v \<times> 'p) branch_result" +
  fixes pf :: platform and check :: "'c \<Rightarrow> 'v \<Rightarrow> 'v branch_result" and inv :: "'p \<Rightarrow> bool"
  assumes accepted: "inv p \<Longrightarrow> capture d = Inr d \<Longrightarrow> result p d = Inr (v, p') \<Longrightarrow> check d v = Inr v"

sublocale captured_write \<subseteq> shard_operation pf capture route "writing result" check inv
proof
  show "capture c = Inl e \<Longrightarrow> writing result p c = (Inl (Failed e), p)" for c e p by (simp add: writing_def refused)
  show "capture c = Inr d \<Longrightarrow> capture d = Inr d \<and> writing result p c = writing result p d" for c d p using same [of c d] by simp
  show "capture c = Inr d \<Longrightarrow> valid_target (target (route d)) \<and> valid_placement (placement (route d)) \<and> target (route d) = target (route c)"
    for c d using same [of c d] routable [of c] by simp
  show "capture c = Inr d \<Longrightarrow> routingVersion (placement (route d)) \<noteq> 1 \<Longrightarrow> writing result p d = (Inl (Failed Routing_Version_Unsupported), p)"
    for c d p using same [of c d] other_version [of c] by (simp add: writing_def)
  show "inv p \<Longrightarrow> capture d = Inr d \<Longrightarrow> fst (writing result p d) = Inr v \<Longrightarrow> check d v = Inr v" for p d v
    by (auto simp: writing_def fst_committed intro: accepted)
qed

section \<open>Reads\<close>

lemma head_same: "BranchStateQuery_head c = Inr d \<Longrightarrow> d = c" for c d :: BranchHeadQuery
  by (simp add: BranchStateQuery_head_def split: if_splits)

interpretation head_op: captured_read BranchStateQuery_head query_of readHead pf "\<lambda>_. Inr" "sound_plane pf" for pf
  by unfold_locales (auto simp: readHead_def unsupported_simps dest: head_same, auto simp: capture_simps split: if_splits)

interpretation content_op: captured_read BranchStateQuery_content query_of readContent pf "\<lambda>_. Inr" "sound_plane pf" for pf
  by unfold_locales (auto simp: readContent_def unsupported_simps query_of_def dest: content_twice,
    auto simp: capture_simps split: if_splits)

interpretation events_op: captured_read BranchStateQuery_range query_of readEvents pf check_events "sound_plane pf" for pf
proof
  show "BranchStateQuery_range c = Inr d \<Longrightarrow> d = c" for c d by (rule range_twice)
  show "BranchStateQuery_range c = Inl e \<Longrightarrow> readEvents p c = Inl e" for c e p by (simp add: readEvents_def)
  show "BranchStateQuery_range c = Inr c \<Longrightarrow> valid_target (target (query_of c)) \<and> valid_placement (placement (query_of c))" for c
    by (auto simp: capture_simps result_simps query_of_def split: if_splits)
  show "BranchStateQuery_range c = Inr c \<Longrightarrow> routingVersion (placement (query_of c)) \<noteq> 1 \<Longrightarrow>
    readEvents p c = Inl Routing_Version_Unsupported" for c p by (simp add: readEvents_def unsupported_simps query_of_def)
  show "sound_plane pf p \<Longrightarrow> BranchStateQuery_range d = Inr d \<Longrightarrow> readEvents p d = Inr v \<Longrightarrow> check_events d v = Inr v" for p d v
    by (rule read_events_accepted [of pf]) (simp_all add: sound_plane_def)
qed

interpretation snapshot_op: captured_read BranchLifecycleQuery_snapshot query_of readSnapshot pf "\<lambda>q. check_found (check_snapshot pf q)"
  "sound_plane pf" for pf
proof
  show "BranchLifecycleQuery_snapshot c = Inr d \<Longrightarrow> d = c" for c d by (rule snapshot_twice)
  show "BranchLifecycleQuery_snapshot c = Inl e \<Longrightarrow> readSnapshot p c = Inl e" for c e p by (simp add: readSnapshot_def)
  show "BranchLifecycleQuery_snapshot c = Inr c \<Longrightarrow> valid_target (target (query_of c)) \<and> valid_placement (placement (query_of c))" for c
    by (auto simp: capture_simps result_simps query_of_def split: if_splits)
  show "BranchLifecycleQuery_snapshot c = Inr c \<Longrightarrow> routingVersion (placement (query_of c)) \<noteq> 1 \<Longrightarrow>
    readSnapshot p c = Inl Routing_Version_Unsupported" for c p by (simp add: readSnapshot_def unsupported_simps query_of_def)
  show "sound_plane pf p \<Longrightarrow> BranchLifecycleQuery_snapshot d = Inr d \<Longrightarrow> readSnapshot p d = Inr v \<Longrightarrow>
    check_found (check_snapshot pf d) v = Inr v" for p d v
    using read_snapshot_accepted [of pf p d] by (cases v) (simp_all add: check_found_def sound_plane_def)
qed

interpretation page_op: captured_read BranchLifecycleQuery_page query_of listSnapshots pf "check_page pf" "sound_plane pf" for pf
proof
  show "BranchLifecycleQuery_page c = Inr d \<Longrightarrow> d = c" for c d by (rule page_twice)
  show "BranchLifecycleQuery_page c = Inl e \<Longrightarrow> listSnapshots p c = Inl e" for c e p by (simp add: listSnapshots_def)
  show "BranchLifecycleQuery_page c = Inr c \<Longrightarrow> valid_target (target (query_of c)) \<and> valid_placement (placement (query_of c))" for c
    by (auto simp: capture_simps result_simps query_of_def split: if_splits)
  show "BranchLifecycleQuery_page c = Inr c \<Longrightarrow> routingVersion (placement (query_of c)) \<noteq> 1 \<Longrightarrow>
    listSnapshots p c = Inl Routing_Version_Unsupported" for c p by (simp add: listSnapshots_def unsupported_simps query_of_def)
  show "sound_plane pf p \<Longrightarrow> BranchLifecycleQuery_page d = Inr d \<Longrightarrow> listSnapshots p d = Inr v \<Longrightarrow> check_page pf d v = Inr v" for p d v
    by (rule list_snapshots_accepted) (simp_all add: sound_plane_def)
qed

text \<open>A placement is looked up where version 1 of the routing puts the branch.\<close>

definition first_route :: "BranchStateTarget \<Rightarrow> BranchHeadQuery" where
  "first_route t = \<lparr>target = t, placement = \<lparr>routingVersion = 1, generation = 0\<rparr>\<rparr>"

interpretation placement_op: captured_read BranchLifecycleQuery_placement first_route readPlacement pf
  "\<lambda>t. check_found (check_authority pf t)" "sound_plane pf" for pf
proof
  show "BranchLifecycleQuery_placement c = Inr d \<Longrightarrow> d = c" for c d by (rule placement_twice)
  show "BranchLifecycleQuery_placement c = Inl e \<Longrightarrow> readPlacement p c = Inl e" for c e p by (simp add: readPlacement_def)
  show "BranchLifecycleQuery_placement c = Inr c \<Longrightarrow> valid_target (target (first_route c)) \<and> valid_placement (placement (first_route c))" for c
    by (auto simp: capture_simps result_simps first_route_def valid_placement_def is_safe_integer_def max_safe_integer_def
        split: if_splits)
  show "BranchLifecycleQuery_placement c = Inr c \<Longrightarrow> routingVersion (placement (first_route c)) \<noteq> 1 \<Longrightarrow>
    readPlacement p c = Inl Routing_Version_Unsupported" for c p by (simp add: first_route_def)
  show "sound_plane pf p \<Longrightarrow> BranchLifecycleQuery_placement d = Inr d \<Longrightarrow> readPlacement p d = Inr v \<Longrightarrow>
    check_found (check_authority pf d) v = Inr v" for p d v
    using authority_accepted(1) [of pf p d]
    by (cases v) (auto simp: check_found_def sound_plane_def readPlacement_def Let_def split: if_splits)
qed

interpretation fact_head_op: captured_read BranchStateQuery_head query_of readRuntimeFactHead pf "check_fact_head pf" "sound_plane pf" for pf
proof
  show "BranchStateQuery_head c = Inr d \<Longrightarrow> d = c" for c d :: BranchHeadQuery by (rule head_same)
  show "BranchStateQuery_head c = Inl e \<Longrightarrow> readRuntimeFactHead p c = Inl e" for c e p by (simp add: readRuntimeFactHead_def)
  show "BranchStateQuery_head c = Inr c \<Longrightarrow> valid_target (target (query_of c)) \<and> valid_placement (placement (query_of c))" for c :: BranchHeadQuery
    by (auto simp: capture_simps split: if_splits)
  show "BranchStateQuery_head c = Inr c \<Longrightarrow> routingVersion (placement (query_of c)) \<noteq> 1 \<Longrightarrow>
    readRuntimeFactHead p c = Inl Routing_Version_Unsupported" for c p by (simp add: readRuntimeFactHead_def unsupported_simps)
  show "sound_plane pf p \<Longrightarrow> BranchStateQuery_head d = Inr d \<Longrightarrow> readRuntimeFactHead p d = Inr v \<Longrightarrow> check_fact_head pf d v = Inr v" for p d v
    using fact_head_accepted [of pf p d v] by (simp add: sound_plane_def)
qed

interpretation fact_page_op: captured_read captureRuntimeFactPage query_of readRuntimeFacts pf "check_fact_page pf" "sound_plane pf" for pf
proof
  show "captureRuntimeFactPage c = Inr d \<Longrightarrow> d = c" for c d by (rule fact_page_twice)
  show "captureRuntimeFactPage c = Inl e \<Longrightarrow> readRuntimeFacts p c = Inl e" for c e p by (simp add: readRuntimeFacts_def)
  show "captureRuntimeFactPage c = Inr c \<Longrightarrow> valid_target (target (query_of c)) \<and> valid_placement (placement (query_of c))" for c
    by (auto simp: capture_simps result_simps query_of_def split: if_splits)
  show "captureRuntimeFactPage c = Inr c \<Longrightarrow> routingVersion (placement (query_of c)) \<noteq> 1 \<Longrightarrow>
    readRuntimeFacts p c = Inl Routing_Version_Unsupported" for c p by (simp add: readRuntimeFacts_def unsupported_simps query_of_def)
  show "sound_plane pf p \<Longrightarrow> captureRuntimeFactPage d = Inr d \<Longrightarrow> readRuntimeFacts p d = Inr v \<Longrightarrow> check_fact_page pf d v = Inr v" for p d v
    by (rule fact_page_accepted) (simp_all add: sound_plane_def)
qed

interpretation memory_query_op: captured_read captureNullMemQuery query_of "queryNullMem pf" pf
  "\<lambda>q r. and_then (validateNullMemQueryResult pf r q) (\<lambda>_. Inr r)" "sound_plane pf" for pf
proof
  show "captureNullMemQuery c = Inr d \<Longrightarrow> d = c" for c d by (rule memory_query_twice)
  show "captureNullMemQuery c = Inl e \<Longrightarrow> queryNullMem pf p c = Inl e" for c e p by (simp add: queryNullMem_def)
  show "captureNullMemQuery c = Inr c \<Longrightarrow> valid_target (target (query_of c)) \<and> valid_placement (placement (query_of c))" for c
    by (auto simp: capture_simps result_simps query_of_def split: if_splits)
  show "captureNullMemQuery c = Inr c \<Longrightarrow> routingVersion (placement (query_of c)) \<noteq> 1 \<Longrightarrow>
    queryNullMem pf p c = Inl Routing_Version_Unsupported" for c p by (simp add: queryNullMem_def unsupported_simps query_of_def)
  show "sound_plane pf p \<Longrightarrow> captureNullMemQuery d = Inr d \<Longrightarrow> queryNullMem pf p d = Inr v \<Longrightarrow>
    and_then (validateNullMemQueryResult pf v d) (\<lambda>_. Inr v) = Inr v" for p d v
    using memory_query_accepted [of pf p d v] by (simp add: sound_plane_def)
qed

section \<open>Writes\<close>

interpretation reserve_op: captured_write BranchLifecycleQuery_reserve query_of "\<lambda>p. reserve p now" pf "check_reserved pf" "sound_plane pf" for pf now
proof
  show "BranchLifecycleQuery_reserve c = Inr d \<Longrightarrow> d = c" for c d by (rule reserve_twice)
  show "BranchLifecycleQuery_reserve c = Inl e \<Longrightarrow> reserve p now c = Inl e" for c e p by (simp add: reserve_def)
  show "BranchLifecycleQuery_reserve c = Inr c \<Longrightarrow> valid_target (target (query_of c)) \<and> valid_placement (placement (query_of c))" for c
    by (auto simp: capture_simps result_simps query_of_def split: if_splits)
  show "BranchLifecycleQuery_reserve c = Inr c \<Longrightarrow> routingVersion (placement (query_of c)) \<noteq> 1 \<Longrightarrow>
    reserve p now c = Inl Routing_Version_Unsupported" for c p by (simp add: reserve_def query_of_def)
  show "sound_plane pf p \<Longrightarrow> BranchLifecycleQuery_reserve d = Inr d \<Longrightarrow> reserve p now d = Inr (v, p') \<Longrightarrow> check_reserved pf d v = Inr v" for p p' d v
    by (rule reserve_accepted) (simp_all add: sound_plane_def)
qed

interpretation initialize_op: captured_write BranchLifecycleQuery_initialize query_of "initialize pf" pf "check_initialized pf" "sound_plane pf" for pf
proof
  show "BranchLifecycleQuery_initialize c = Inr d \<Longrightarrow> d = c" for c d by (rule initialize_twice)
  show "BranchLifecycleQuery_initialize c = Inl e \<Longrightarrow> initialize pf p c = Inl e" for c e p by (simp add: initialize_def initialize_begin_def)
  show "BranchLifecycleQuery_initialize c = Inr c \<Longrightarrow> valid_target (target (query_of c)) \<and> valid_placement (placement (query_of c))" for c
    by (auto simp: capture_simps result_simps query_of_def split: if_splits)
  show "BranchLifecycleQuery_initialize c = Inr c \<Longrightarrow> routingVersion (placement (query_of c)) \<noteq> 1 \<Longrightarrow>
    initialize pf p c = Inl Routing_Version_Unsupported" for c p by (simp add: initialize_def initialize_begin_def query_of_def)
  show "sound_plane pf p \<Longrightarrow> BranchLifecycleQuery_initialize d = Inr d \<Longrightarrow> initialize pf p d = Inr (v, p') \<Longrightarrow> check_initialized pf d v = Inr v"
    for p p' d v by (rule initialize_accepted) (simp_all add: sound_plane_def)
qed

text \<open>The memory plane returns the whole entry of a memory mutation; its answer is the entry's result.\<close>

definition put_memory :: "platform \<Rightarrow> int \<Rightarrow> MemoryPlane \<Rightarrow> BranchNullMemPutCommand \<Rightarrow> (BranchNullMemPutResult \<times> MemoryPlane) branch_result" where
  "put_memory pf now p c = and_then (putNullMem pf p now c) (\<lambda>(e, p'). Inr (put_result e, p'))"

definition delete_memory :: "platform \<Rightarrow> int \<Rightarrow> MemoryPlane \<Rightarrow> BranchNullMemDeleteCommand \<Rightarrow> (BranchNullMemDeleteResult \<times> MemoryPlane) branch_result" where
  "delete_memory pf now p c = and_then (deleteNullMem pf p now c) (\<lambda>(e, p'). Inr (delete_result e, p'))"

interpretation memory_delete_op: captured_write captureNullMemDelete query_of "delete_memory pf now" pf
  "\<lambda>c r. and_then (validateNullMemDeleteResult pf r c) (\<lambda>_. Inr r)" "sound_plane pf" for pf now
proof
  show "captureNullMemDelete c = Inr d \<Longrightarrow> d = c" for c d by (rule memory_delete_twice)
  show "captureNullMemDelete c = Inl e \<Longrightarrow> delete_memory pf now p c = Inl e" for c e p by (simp add: delete_memory_def deleteNullMem_def)
  show "captureNullMemDelete c = Inr c \<Longrightarrow> valid_target (target (query_of c)) \<and> valid_placement (placement (query_of c))" for c
    by (auto simp: capture_simps result_simps query_of_def split: if_splits)
  show "captureNullMemDelete c = Inr c \<Longrightarrow> routingVersion (placement (query_of c)) \<noteq> 1 \<Longrightarrow>
    delete_memory pf now p c = Inl Routing_Version_Unsupported" for c p
    by (simp add: delete_memory_def deleteNullMem_def unsupported_simps query_of_def)
  show "sound_plane pf p \<Longrightarrow> captureNullMemDelete d = Inr d \<Longrightarrow> delete_memory pf now p d = Inr (v, p') \<Longrightarrow>
    and_then (validateNullMemDeleteResult pf v d) (\<lambda>_. Inr v) = Inr v" for p p' d v
    using memory_delete_accepted [of pf p d now] by (auto simp: sound_plane_def delete_memory_def result_simps)
qed

text \<open>Three captures normalise their input; capturing again finds it normal.\<close>

lemma put_target: "captureNullMemPut i = Inr c \<Longrightarrow> valid_target (target c) \<and> valid_placement (placement c) \<and> target c = target i"
  by (auto simp: captureNullMemPut_def Let_def result_simps BranchStateQuery_head_def query_of_def split: if_splits)

interpretation memory_put_op: shard_operation pf captureNullMemPut query_of "writing (put_memory pf now)"
  "\<lambda>c r. and_then (validateNullMemPutResult pf r c) (\<lambda>_. Inr r)" "sound_plane pf" for pf now
proof
  show "captureNullMemPut c = Inl e \<Longrightarrow> writing (put_memory pf now) p c = (Inl (Failed e), p)" for c e p
    by (simp add: writing_def put_memory_def putNullMem_def)
  show "captureNullMemPut c = Inr d \<Longrightarrow> captureNullMemPut d = Inr d \<and> writing (put_memory pf now) p c = writing (put_memory pf now) p d" for c d p
    using put_twice [of c d] by (simp add: writing_def put_memory_def putNullMem_def)
  show "captureNullMemPut c = Inr d \<Longrightarrow> valid_target (target (query_of d)) \<and> valid_placement (placement (query_of d)) \<and>
    target (query_of d) = target (query_of c)" for c d using put_target [of c d] by (auto simp: query_of_def)
  show "captureNullMemPut c = Inr d \<Longrightarrow> routingVersion (placement (query_of d)) \<noteq> 1 \<Longrightarrow>
    writing (put_memory pf now) p d = (Inl (Failed Routing_Version_Unsupported), p)" for c d p
    using put_twice [of c d] by (simp add: writing_def put_memory_def putNullMem_def unsupported_simps query_of_def)
  show "sound_plane pf p \<Longrightarrow> captureNullMemPut d = Inr d \<Longrightarrow> fst (writing (put_memory pf now) p d) = Inr v \<Longrightarrow>
    and_then (validateNullMemPutResult pf v d) (\<lambda>_. Inr v) = Inr v" for p d v
    using memory_put_accepted [of pf p d now] by (auto simp: writing_def fst_committed sound_plane_def put_memory_def result_simps)
qed

definition append_one :: "platform \<Rightarrow> int \<Rightarrow> MemoryPlane \<Rightarrow> BranchAppendRecord \<Rightarrow> BranchAppendOutcome outcome \<times> MemoryPlane" where
  "append_one pf now p c = committed p (append pf p now c)"

definition append_many :: "platform \<Rightarrow> int \<Rightarrow> MemoryPlane \<Rightarrow> BranchBatchAppendRecord \<Rightarrow> BranchBatchAppendResult outcome \<times> MemoryPlane" where
  "append_many pf now p c = committed p (append_envelope pf now p c)"

interpretation append_op: shard_operation pf "BranchAppendCommand_fromRecord pf" query_of "append_one pf now" "\<lambda>_. Inr" "sound_plane pf" for pf now
proof
  let ?cap = "BranchAppendCommand_fromRecord pf"
  show "?cap c = Inl e \<Longrightarrow> append_one pf now p c = (Inl (Failed e), p)" for c e p
    by (simp add: append_one_def append_def append_begin_def)
  show "?cap c = Inr d \<Longrightarrow> ?cap d = Inr d \<and> append_one pf now p c = append_one pf now p d" for c d p
    using append_twice [of pf c d] by (simp add: append_one_def append_def append_begin_def)
  show "?cap c = Inr d \<Longrightarrow> valid_target (target (query_of d)) \<and> valid_placement (placement (query_of d)) \<and>
    target (query_of d) = target (query_of c)" for c d
    using fromRecord_captured [of pf c d] fromRecord_target [of pf c d] by (auto simp: captured_command_def query_of_def)
  show "?cap c = Inr d \<Longrightarrow> routingVersion (placement (query_of d)) \<noteq> 1 \<Longrightarrow>
    append_one pf now p d = (Inl (Failed Routing_Version_Unsupported), p)" for c d p
    using append_twice [of pf c d] by (simp add: append_one_def append_def append_begin_def unsupported_simps query_of_def)
qed simp

interpretation batch_op: shard_operation pf captureBranchBatchAppend query_of "append_many pf now" check_batch "sound_plane pf" for pf now
proof
  show "captureBranchBatchAppend c = Inl e \<Longrightarrow> append_many pf now p c = (Inl (Failed e), p)" for c e p
    by (simp add: append_many_def append_envelope_def appendBatch_def)
  show "captureBranchBatchAppend c = Inr d \<Longrightarrow> captureBranchBatchAppend d = Inr d \<and> append_many pf now p c = append_many pf now p d" for c d p
    using batch_twice [of c d] by (simp add: append_many_def append_envelope_def appendBatch_def)
  show "captureBranchBatchAppend c = Inr d \<Longrightarrow> valid_target (target (query_of d)) \<and> valid_placement (placement (query_of d)) \<and>
    target (query_of d) = target (query_of c)" for c d
    using captured_batch_events(1-3) [of c d] by (auto simp: query_of_def)
  show "captureBranchBatchAppend c = Inr d \<Longrightarrow> routingVersion (placement (query_of d)) \<noteq> 1 \<Longrightarrow>
    append_many pf now p d = (Inl (Failed Routing_Version_Unsupported), p)" for c d p
    using batch_twice [of c d]
    by (simp add: append_many_def append_envelope_def appendBatch_def numeral_eq_Suc batch_begin_def unsupported_simps query_of_def)
  show "sound_plane pf p \<Longrightarrow> captureBranchBatchAppend d = Inr d \<Longrightarrow> fst (append_many pf now p d) = Inr v \<Longrightarrow> check_batch d v = Inr v" for p d v
    by (auto simp: append_many_def fst_committed sound_plane_def intro: append_envelope_accepted)
qed

section \<open>The pool is the planes\<close>

lemma object_read_reading:
  "\<exists>env w. object_read (\<lambda>p. lift_branch (f p q)) (Inr ()) = object_write env w (\<lambda>p. reading f p q) (Inr ())"
  by (intro exI [of _ False] exI ext) (simp add: object_read_write [of _ _ _ undefined] reading_def)

lemma placement_query_of: "object_placement pf env (query_of q) = object_placement pf env q"
  by (simp add: object_placement_def shard_name_query)

lemmas stub_simps = object_stub_def memory_plane_def capability_def object_read_reading writing_def put_memory_def
  delete_memory_def append_one_def append_many_def placement_query_of

lemma call_query_of: "call pf resolve (query_of q) invoke pool = call pf resolve q invoke pool"
  by (simp add: call_def shard_name_query)

lemma sound_shards: "sound_pool pf envs pool \<Longrightarrow> sound_plane pf (sh_plane (pool n))"
  by (simp add: sound_pool_def)

lemma read_head_local:
  assumes "sound_pool pf envs pool"
  shows "as_local (\<lambda>p. reading readHead p q) (home pf (target q)) pool (rpc_readHead pf (shards pf now envs) q pool)"
proof -
  let ?invoke = "\<lambda>d stub. Inr (stub_readHead stub d)"
  have "\<exists>env w. ?invoke d (shards pf now envs n) = Inr (object_write env w (\<lambda>p. reading readHead p d) (Inr ()))"
    if "BranchStateQuery_head d = Inr d" "branchStateShardName pf (query_of d) = Inr n" for d n
    using that admitted [OF assms that(2)] by (auto simp: stub_simps object_readHead_def)
  from head_op.remote_is_local [where invoke = ?invoke and pool = pool and c = q and resolve = "shards pf now envs", OF sound_shards [OF assms] this,
      unfolded routed_query call_routed [symmetric] call_query_of]
  show ?thesis unfolding rpc_readHead_def by (simp add: query_of_def)
qed

lemma read_content_local:
  assumes "sound_pool pf envs pool"
  shows "as_local (\<lambda>p. reading readContent p q) (home pf (target q)) pool (rpc_readContent pf (shards pf now envs) q pool)"
proof -
  let ?invoke = "\<lambda>d stub. Inr (stub_readContent stub d)"
  have "\<exists>env w. ?invoke d (shards pf now envs n) = Inr (object_write env w (\<lambda>p. reading readContent p d) (Inr ()))"
    if "BranchStateQuery_content d = Inr d" "branchStateShardName pf (query_of d) = Inr n" for d n
    using that admitted [OF assms that(2)] by (auto simp: stub_simps object_readContent_def)
  from content_op.remote_is_local [where invoke = ?invoke and pool = pool and c = q and resolve = "shards pf now envs", OF sound_shards [OF assms] this,
      unfolded routed_query call_routed [symmetric] call_query_of]
  show ?thesis unfolding rpc_readContent_def by (simp add: query_of_def)
qed

lemma read_events_local:
  assumes "sound_pool pf envs pool"
  shows "as_local (\<lambda>p. reading readEvents p q) (home pf (target q)) pool (rpc_readEvents pf (shards pf now envs) q pool)"
proof -
  let ?invoke = "\<lambda>d stub. Inr (stub_readEvents stub d)"
  have "\<exists>env w. ?invoke d (shards pf now envs n) = Inr (object_write env w (\<lambda>p. reading readEvents p d) (Inr ()))"
    if "BranchStateQuery_range d = Inr d" "branchStateShardName pf (query_of d) = Inr n" for d n
    using that admitted [OF assms that(2)] by (auto simp: stub_simps object_readEvents_def)
  from events_op.remote_is_local [where invoke = ?invoke and pool = pool and c = q and resolve = "shards pf now envs", OF sound_shards [OF assms] this,
      unfolded routed_query call_routed [symmetric] call_query_of]
  show ?thesis unfolding rpc_readEvents_def by (simp add: query_of_def)
qed

lemma read_snapshot_local:
  assumes "sound_pool pf envs pool"
  shows "as_local (\<lambda>p. reading readSnapshot p q) (home pf (target q)) pool (rpc_readSnapshot pf (shards pf now envs) q pool)"
proof -
  let ?invoke = "\<lambda>d stub. and_then (capability (stub_readSnapshot stub)) (\<lambda>f. Inr (f d))"
  have "\<exists>env w. ?invoke d (shards pf now envs n) = Inr (object_write env w (\<lambda>p. reading readSnapshot p d) (Inr ()))"
    if "BranchLifecycleQuery_snapshot d = Inr d" "branchStateShardName pf (query_of d) = Inr n" for d n
    using that admitted [OF assms that(2)] by (auto simp: stub_simps object_readSnapshot_def)
  from snapshot_op.remote_is_local [where invoke = ?invoke and pool = pool and c = q and resolve = "shards pf now envs", OF sound_shards [OF assms] this,
      unfolded check_found_def routed_query call_routed [symmetric] call_query_of]
  show ?thesis unfolding rpc_readSnapshot_def by (simp add: query_of_def)
qed

lemma list_snapshots_local:
  assumes "sound_pool pf envs pool"
  shows "as_local (\<lambda>p. reading listSnapshots p q) (home pf (target q)) pool (rpc_listSnapshots pf (shards pf now envs) q pool)"
proof -
  let ?invoke = "\<lambda>d stub. and_then (capability (stub_listSnapshots stub)) (\<lambda>f. Inr (f d))"
  have "\<exists>env w. ?invoke d (shards pf now envs n) = Inr (object_write env w (\<lambda>p. reading listSnapshots p d) (Inr ()))"
    if "BranchLifecycleQuery_page d = Inr d" "branchStateShardName pf (query_of d) = Inr n" for d n
    using that admitted [OF assms that(2)] by (auto simp: stub_simps object_listSnapshots_def)
  from page_op.remote_is_local [where invoke = ?invoke and pool = pool and c = q and resolve = "shards pf now envs", OF sound_shards [OF assms] this,
      unfolded routed_query call_routed [symmetric] call_query_of]
  show ?thesis unfolding rpc_listSnapshots_def by (simp add: query_of_def)
qed

lemma read_placement_local:
  assumes "sound_pool pf envs pool"
  shows "as_local (\<lambda>p. reading readPlacement p q) (home pf (q)) pool (rpc_readPlacement pf (shards pf now envs) q pool)"
proof -
  let ?invoke = "\<lambda>d stub. and_then (capability (stub_readPlacement stub)) (\<lambda>f. Inr (f d))"
  have "\<exists>env w. ?invoke d (shards pf now envs n) = Inr (object_write env w (\<lambda>p. reading readPlacement p d) (Inr ()))"
    if "BranchLifecycleQuery_placement d = Inr d" "branchStateShardName pf (first_route d) = Inr n" for d n
    using that admitted [OF assms, of "first_route d" n] by (auto simp: stub_simps object_readPlacement_def first_route_def)
  from placement_op.remote_is_local [where invoke = ?invoke and pool = pool and c = q and resolve = "shards pf now envs", OF sound_shards [OF assms] this,
      unfolded check_found_def first_route_def routed_query call_routed [symmetric] call_query_of]
  show ?thesis unfolding rpc_readPlacement_def by (simp add: query_of_def)
qed

lemma fact_head_local:
  assumes "sound_pool pf envs pool"
  shows "as_local (\<lambda>p. reading readRuntimeFactHead p q) (home pf (target q)) pool (rpc_readRuntimeFactHead pf (shards pf now envs) q pool)"
proof -
  let ?invoke = "\<lambda>d stub. and_then (capability (stub_readRuntimeFactHead stub)) (\<lambda>f. Inr (f d))"
  have "\<exists>env w. ?invoke d (shards pf now envs n) = Inr (object_write env w (\<lambda>p. reading readRuntimeFactHead p d) (Inr ()))"
    if "BranchStateQuery_head d = Inr d" "branchStateShardName pf (query_of d) = Inr n" for d n
    using that admitted [OF assms that(2)] by (auto simp: stub_simps object_readRuntimeFactHead_def)
  from fact_head_op.remote_is_local [where invoke = ?invoke and pool = pool and c = q and resolve = "shards pf now envs", OF sound_shards [OF assms] this,
      unfolded routed_query call_routed [symmetric] call_query_of]
  show ?thesis unfolding rpc_readRuntimeFactHead_def by (simp add: query_of_def)
qed

lemma fact_page_local:
  assumes "sound_pool pf envs pool"
  shows "as_local (\<lambda>p. reading readRuntimeFacts p q) (home pf (target q)) pool (rpc_readRuntimeFacts pf (shards pf now envs) q pool)"
proof -
  let ?invoke = "\<lambda>d stub. and_then (capability (stub_readRuntimeFacts stub)) (\<lambda>f. Inr (f d))"
  have "\<exists>env w. ?invoke d (shards pf now envs n) = Inr (object_write env w (\<lambda>p. reading readRuntimeFacts p d) (Inr ()))"
    if "captureRuntimeFactPage d = Inr d" "branchStateShardName pf (query_of d) = Inr n" for d n
    using that admitted [OF assms that(2)] by (auto simp: stub_simps object_readRuntimeFacts_def)
  from fact_page_op.remote_is_local [where invoke = ?invoke and pool = pool and c = q and resolve = "shards pf now envs", OF sound_shards [OF assms] this,
      unfolded routed_query call_routed [symmetric] call_query_of]
  show ?thesis unfolding rpc_readRuntimeFacts_def by (simp add: query_of_def)
qed

lemma memory_query_local:
  assumes "sound_pool pf envs pool"
  shows "as_local (\<lambda>p. reading (queryNullMem pf) p q) (home pf (target q)) pool (rpc_queryNullMem pf (shards pf now envs) q pool)"
proof -
  let ?invoke = "\<lambda>d stub. and_then (capability (stub_queryNullMem stub)) (\<lambda>f. Inr (f d))"
  have "\<exists>env w. ?invoke d (shards pf now envs n) = Inr (object_write env w (\<lambda>p. reading (queryNullMem pf) p d) (Inr ()))"
    if "captureNullMemQuery d = Inr d" "branchStateShardName pf (query_of d) = Inr n" for d n
    using that admitted [OF assms that(2)] by (auto simp: stub_simps object_queryNullMem_def)
  from memory_query_op.remote_is_local [where invoke = ?invoke and pool = pool and c = q and resolve = "shards pf now envs", OF sound_shards [OF assms] this,
      unfolded routed_query call_routed [symmetric] call_query_of]
  show ?thesis unfolding rpc_queryNullMem_def by (simp add: query_of_def)
qed

lemma reserve_local:
  assumes "sound_pool pf envs pool"
  shows "as_local (\<lambda>p. writing (\<lambda>p. reserve p now) p q) (home pf (target q)) pool (rpc_reserve pf (shards pf now envs) q pool)"
proof -
  let ?invoke = "\<lambda>d stub. and_then (capability (stub_reserve stub)) (\<lambda>f. Inr (f d))"
  have "\<exists>env w. ?invoke d (shards pf now envs n) = Inr (object_write env w (\<lambda>p. writing (\<lambda>p. reserve p now) p d) (Inr ()))"
    if "BranchLifecycleQuery_reserve d = Inr d" "branchStateShardName pf (query_of d) = Inr n" for d n
    using that admitted [OF assms that(2)] by (auto simp: stub_simps object_reserve_def)
  from reserve_op.remote_is_local [where invoke = ?invoke and pool = pool and c = q and resolve = "shards pf now envs", OF sound_shards [OF assms] this,
      unfolded routed_query call_routed [symmetric] call_query_of]
  show ?thesis unfolding rpc_reserve_def by (simp add: query_of_def)
qed

lemma initialize_local:
  assumes "sound_pool pf envs pool"
  shows "as_local (\<lambda>p. writing (initialize pf) p q) (home pf (target q)) pool (rpc_initialize pf (shards pf now envs) q pool)"
proof -
  let ?invoke = "\<lambda>d stub. and_then (capability (stub_initialize stub)) (\<lambda>f. Inr (f d))"
  have "\<exists>env w. ?invoke d (shards pf now envs n) = Inr (object_write env w (\<lambda>p. writing (initialize pf) p d) (Inr ()))"
    if "BranchLifecycleQuery_initialize d = Inr d" "branchStateShardName pf (query_of d) = Inr n" for d n
    using that admitted [OF assms that(2)] by (auto simp: stub_simps object_initialize_def)
  from initialize_op.remote_is_local [where invoke = ?invoke and pool = pool and c = q and resolve = "shards pf now envs", OF sound_shards [OF assms] this,
      unfolded routed_query call_routed [symmetric] call_query_of]
  show ?thesis unfolding rpc_initialize_def by (simp add: query_of_def)
qed

lemma memory_delete_local:
  assumes "sound_pool pf envs pool"
  shows "as_local (\<lambda>p. writing (delete_memory pf now) p q) (home pf (target q)) pool (rpc_deleteNullMem pf (shards pf now envs) q pool)"
proof -
  let ?invoke = "\<lambda>d stub. and_then (capability (stub_deleteNullMem stub)) (\<lambda>f. Inr (f d))"
  have "\<exists>env w. ?invoke d (shards pf now envs n) = Inr (object_write env w (\<lambda>p. writing (delete_memory pf now) p d) (Inr ()))"
    if "captureNullMemDelete d = Inr d" "branchStateShardName pf (query_of d) = Inr n" for d n
    using that admitted [OF assms that(2)] by (auto simp: stub_simps object_deleteNullMem_def)
  from memory_delete_op.remote_is_local [where invoke = ?invoke and pool = pool and c = q and resolve = "shards pf now envs", OF sound_shards [OF assms] this,
      unfolded routed_query call_routed [symmetric] call_query_of]
  show ?thesis unfolding rpc_deleteNullMem_def by (simp add: query_of_def)
qed

lemma memory_put_local:
  assumes "sound_pool pf envs pool"
  shows "as_local (\<lambda>p. writing (put_memory pf now) p q) (home pf (target q)) pool (rpc_putNullMem pf (shards pf now envs) q pool)"
proof -
  let ?invoke = "\<lambda>d stub. and_then (capability (stub_putNullMem stub)) (\<lambda>f. Inr (f d))"
  have "\<exists>env w. ?invoke d (shards pf now envs n) = Inr (object_write env w (\<lambda>p. writing (put_memory pf now) p d) (Inr ()))"
    if "captureNullMemPut d = Inr d" "branchStateShardName pf (query_of d) = Inr n" for d n
    using that admitted [OF assms that(2)] by (auto simp: stub_simps object_putNullMem_def)
  from memory_put_op.remote_is_local [where invoke = ?invoke and pool = pool and c = q and resolve = "shards pf now envs", OF sound_shards [OF assms] this,
      unfolded routed_query call_routed [symmetric] call_query_of]
  show ?thesis unfolding rpc_putNullMem_def by (simp add: query_of_def)
qed

lemma append_local:
  assumes "sound_pool pf envs pool"
  shows "as_local (\<lambda>p. append_one pf now p q) (home pf (target q)) pool (rpc_append pf (shards pf now envs) q pool)"
proof -
  let ?invoke = "\<lambda>d stub. Inr (stub_append stub d)"
  have "\<exists>env w. ?invoke d (shards pf now envs n) = Inr (object_write env w (\<lambda>p. append_one pf now p d) (Inr ()))"
    if "BranchAppendCommand_fromRecord pf d = Inr d" "branchStateShardName pf (query_of d) = Inr n" for d n
    using that admitted [OF assms that(2)] by (auto simp: stub_simps object_append_def BranchStateQuery_head_def shard_name_home)
  from append_op.remote_is_local [where invoke = ?invoke and pool = pool and c = q and resolve = "shards pf now envs", OF sound_shards [OF assms] this,
      unfolded routed_query call_routed [symmetric] call_query_of]
  show ?thesis unfolding rpc_append_def by (simp add: query_of_def)
qed

lemma append_batch_local:
  assumes "sound_pool pf envs pool"
  shows "as_local (\<lambda>p. append_many pf now p q) (home pf (target q)) pool (rpc_appendBatch pf (shards pf now envs) q pool)"
proof -
  let ?invoke = "\<lambda>d stub. and_then (capability (stub_appendBatch stub)) (\<lambda>f. Inr (f d))"
  have "\<exists>env w. ?invoke d (shards pf now envs n) = Inr (object_write env w (\<lambda>p. append_many pf now p d) (Inr ()))"
    if "captureBranchBatchAppend d = Inr d" "branchStateShardName pf (query_of d) = Inr n" for d n
    using that admitted [OF assms that(2)] by (auto simp: stub_simps object_appendBatch_def BranchStateQuery_head_def shard_name_home)
  from batch_op.remote_is_local [where invoke = ?invoke and pool = pool and c = q and resolve = "shards pf now envs", OF sound_shards [OF assms] this,
      unfolded routed_query call_routed [symmetric] call_query_of]
  show ?thesis unfolding rpc_appendBatch_def by (simp add: query_of_def)
qed

end
