(* ===== verification/Shard_Guarantees.thy ===== *)
theory Shard_Guarantees
  imports Shard_Plane
begin

text \<open>
  What the caller of a pool of shards is guaranteed, for shards whose planes have run from their start in any
  way: the operations over the pool are those of the planes, and errors cross the boundary unchanged.
\<close>

section \<open>Running pools\<close>

definition running_pool :: "platform \<Rightarrow> (jstring \<Rightarrow> shard_env) \<Rightarrow> MemoryPlane shard pool \<Rightarrow> bool" where
  "running_pool pf envs pool \<longleftrightarrow> named_envs envs \<and> platform_ok pf \<and> collation_ok pf \<and>
     (\<forall>n. texts_fit (sh_plane (pool n)) \<and> (\<exists>fs. reachable (plane_init pf) (plane_step pf) (sh_plane (pool n), fs)))"

lemma running_sound:
  assumes "running_pool pf envs pool"
  shows "sound_pool pf envs pool"
proof -
  have "plane_ok pf (sh_plane (pool n))" for n
  proof -
    from assms obtain fs where "reachable (plane_init pf) (plane_step pf) (sh_plane (pool n), fs)" by (auto simp: running_pool_def)
    from plane_invariant.reachable_inv [OF this] show ?thesis by (simp add: system_ok_def)
  qed
  with assms show ?thesis by (simp add: running_pool_def sound_pool_def sound_plane_def)
qed

definition demo_envs :: "jstring \<Rightarrow> shard_env" where
  "demo_envs n = \<lparr>se_name = n, se_outbox = True, se_clock = 5\<rparr>"

definition demo_pool :: "MemoryPlane shard pool" where
  "demo_pool n = \<lparr>sh_plane = demo_plane (js ''owner''), sh_wake = \<lparr>stored = None, alarm_at = None\<rparr>\<rparr>"

lemma demo_running: "running_pool example_platform demo_envs demo_pool"
proof -
  have "texts_fit (demo_plane b)" for b
    by (simp add: texts_fit_def demo_plane_def demo_state_def initial_state_def is_safe_integer_def max_safe_integer_def)
  moreover have "\<exists>fs. reachable (plane_init example_platform) (plane_step example_platform) (demo_plane (js ''owner''), fs)"
    using demo_reachable [OF demo_id_owner] by blast
  ultimately show ?thesis
    using example_platform_ok example_collation by (simp add: running_pool_def named_envs_def demo_envs_def demo_pool_def)
qed

definition demo_query :: BranchHeadQuery where
  "demo_query = \<lparr>target = demo_target (js ''owner''), placement = example_placement\<rparr>"

lemma demo_query_valid: "BranchStateQuery_head demo_query = Inr demo_query"
  using demo_id_owner example_query_valid(2) by (simp add: demo_query_def BranchStateQuery_head_def demo_id_def example_placement_def query_of_def)

section \<open>Reads\<close>

text \<open>
  C13: A pool of shards reads like the planes. Whatever the shards' planes have been through, every read the caller
  makes over the pool (heads, contents, event ranges, snapshots and their pages, placements, fact heads and
  pages, memory queries) returns exactly what the same call on the plane of the branch's shard returns, value
  or error, and changes no plane. No check of the caller ever refuses an answer.
\<close>

theorem sharded_reads_local:
  assumes "running_pool pf envs pool"
  shows "as_local (\<lambda>p. reading readHead p q) (home pf (target q)) pool (rpc_readHead pf (shards pf now envs) q pool) \<and>
    as_local (\<lambda>p. reading readContent p c) (home pf (target c)) pool (rpc_readContent pf (shards pf now envs) c pool) \<and>
    as_local (\<lambda>p. reading readEvents p r) (home pf (target r)) pool (rpc_readEvents pf (shards pf now envs) r pool) \<and>
    as_local (\<lambda>p. reading readSnapshot p s) (home pf (target s)) pool (rpc_readSnapshot pf (shards pf now envs) s pool) \<and>
    as_local (\<lambda>p. reading listSnapshots p l) (home pf (target l)) pool (rpc_listSnapshots pf (shards pf now envs) l pool) \<and>
    as_local (\<lambda>p. reading readPlacement p t) (home pf t) pool (rpc_readPlacement pf (shards pf now envs) t pool) \<and>
    as_local (\<lambda>p. reading readRuntimeFactHead p q) (home pf (target q)) pool (rpc_readRuntimeFactHead pf (shards pf now envs) q pool) \<and>
    as_local (\<lambda>p. reading readRuntimeFacts p f) (home pf (target f)) pool (rpc_readRuntimeFacts pf (shards pf now envs) f pool) \<and>
    as_local (\<lambda>p. reading (queryNullMem pf) p m) (home pf (target m)) pool (rpc_queryNullMem pf (shards pf now envs) m pool)"
  using running_sound [OF assms]
  by (intro conjI read_head_local read_content_local read_events_local read_snapshot_local list_snapshots_local
      read_placement_local fact_head_local fact_page_local memory_query_local)

theorem sharded_reads_local_witness:
  "fst (rpc_readHead example_platform (shards example_platform 7 demo_envs) demo_query demo_pool) = Inr (demo_head (js ''owner''))"
proof -
  have "readHead (demo_plane (js ''owner'')) demo_query = Inr (demo_head (js ''owner''))"
    by (simp add: readHead_def demo_query_valid) (simp add: demo_query_def state_def demo_fields demo_lookup)
  with sharded_reads_local [OF demo_running, of demo_query 7] show ?thesis
    by (simp add: as_local_def reading_def demo_pool_def)
qed

section \<open>Writes\<close>



section \<open>Errors\<close>

text \<open>
  The envelope of a call is faithful: a caller decodes from what a shard encodes exactly the outcome of the
  operation, a thrown non-domain error as \<open>State_Unavailable\<close>; and an error other than \<open>State_Unavailable\<close> is only
  ever decoded from the one record that encodes it, with status, outcome and retry advice of its code.
\<close>

theorem rpc_envelope_faithful:
  "decodeBranchStateRpcResult (branchStateRpcResult r) = seen r \<and>
   (e = State_Unavailable \<or> (decodeBranchStateRpcResult reply = Inl e \<longleftrightarrow> reply = Rpc_Error (toRecord e)))"
proof (intro conjI, rule decode_encode)
  have "rec = toRecord e" if "decodeBranchStateRpcResult (Rpc_Error rec) = Inl e" "e \<noteq> State_Unavailable" for rec
  proof -
    from that obtain x where "find (\<lambda>e. error_code e = re_code rec) error_codes = Some x" "x = e"
        "BRANCH_STATE_ERRORS x = (re_status rec, re_outcome rec, re_retry rec)"
      by (auto simp: decodeBranchStateRpcResult_def split: option.splits if_splits)
    moreover from this have "error_code e = re_code rec" unfolding find_Some_iff by blast
    ultimately show ?thesis by (simp add: toRecord_def)
  qed
  then show "e = State_Unavailable \<or> (decodeBranchStateRpcResult reply = Inl e \<longleftrightarrow> reply = Rpc_Error (toRecord e))"
    by (cases reply) (auto simp: decode_toRecord, auto simp: decodeBranchStateRpcResult_def)
qed

end
