(* ===== verification/Client_Outbox.thy ===== *)
theory Client_Outbox
  imports Diff_Receipts
begin

text \<open>
  The browser's durable outbox of unsent edits: \<^verbatim>\<open>src/lib/diff/outbox/records.ts\<close> and \<^verbatim>\<open>store.ts\<close>.

  The IndexedDB database has two object stores, queued events by (root, branch, event id) with a unique index on
  (root, branch, queue order), and one state per branch with the queue cursor, the writer lease of a tab and
  the unsynchronized draft. Every operation is one transaction: a function of the database that returns an
  error, which aborts the transaction, or a value and the next database. Stored values are typed records; what
  is modelled of their parsers is everything the types do not already ensure. A time argument is the
  operation's own or else the clock's.
\<close>

section \<open>Records\<close>

datatype store_error = Store_Error string | Event_Exists jstring

type_synonym 'a store_result = "store_error + 'a"

datatype DiffOutboxEventStatus = Queued | Retry | Blocked

record DiffOutboxEventRecord =
  er_rootId :: jstring
  er_branchId :: jstring
  er_eventId :: jstring
  er_queueOrder :: int
  er_event :: DropDiffEvent
  er_status :: DiffOutboxEventStatus
  er_retryCount :: int
  er_enqueuedAt :: int
  er_updatedAt :: int

record DiffOutboxWriterLease =
  wl_rootId :: jstring
  wl_branchId :: jstring
  wl_ownerId :: jstring
  wl_expiresAt :: int

record DiffOutboxBranchDraft =
  bd_content :: jstring
  bd_updatedAt :: int

record DiffOutboxBranchState =
  os_rootId :: jstring
  os_branchId :: jstring
  os_nextQueueOrder :: int
  os_lease :: "DiffOutboxWriterLease option"
  os_draft :: "DiffOutboxBranchDraft option"

record DiffOutboxScope =
  sc_rootId :: jstring
  sc_branchId :: jstring

record DiffOutboxBranchDraftInput =
  di_content :: jstring
  di_updatedAt :: "int option"

record EnqueueDiffOutboxEventInput = DiffOutboxScope +
  eq_event :: DropDiffEvent
  eq_draft :: "DiffOutboxBranchDraftInput option"
  eq_ownerId :: "jstring option"
  eq_now :: int

record PersistDiffOutboxBranchDraftInput = DiffOutboxScope +
  pd_draft :: DiffOutboxBranchDraftInput
  pd_now :: int

record DiffOutboxEventIdentity = DiffOutboxScope +
  oi_eventId :: jstring

record UpdateDiffOutboxEventStatusInput = DiffOutboxEventIdentity +
  us_status :: DiffOutboxEventStatus
  us_now :: int

record BlockDiffOutboxEventForWriterInput = DiffOutboxEventIdentity +
  bl_ownerId :: jstring
  bl_now :: int

record DiffOutboxLeaseInput = DiffOutboxScope +
  li_ownerId :: jstring
  li_leaseDurationMs :: int
  li_force :: bool
  li_now :: int

record ReleaseDiffOutboxLeaseInput = DiffOutboxScope +
  rl_ownerId :: jstring

text \<open>The writer of a fenced operation; also the input of clearing a draft and of discarding a branch's outbox.\<close>

record DiffOutboxWriter = ReleaseDiffOutboxLeaseInput +
  wr_now :: int

section \<open>Validation\<close>

definition isNonEmptyString :: "jstring \<Rightarrow> bool" where
  "isNonEmptyString s \<longleftrightarrow> js_trim s = s \<and> s \<noteq> []"

definition isNonNegativeInteger :: "int \<Rightarrow> bool" where
  "isNonNegativeInteger n \<longleftrightarrow> is_safe_integer n \<and> 0 \<le> n"

definition isPositiveInteger :: "int \<Rightarrow> bool" where
  "isPositiveInteger n \<longleftrightarrow> isNonNegativeInteger n \<and> 0 < n"

definition parseBranchDraft :: "DiffOutboxBranchDraft \<Rightarrow> DiffOutboxBranchDraft store_result" where
  "parseBranchDraft draft =
     (if \<not> isNonNegativeInteger (bd_updatedAt draft) then Inl (Store_Error ''Invalid diff outbox branch draft.'') else Inr draft)"

definition assertScope :: "'a DiffOutboxScope_scheme \<Rightarrow> unit store_result" where
  "assertScope scope =
     (if \<not> isNonEmptyString (sc_rootId scope) \<or> \<not> isNonEmptyString (sc_branchId scope)
      then Inl (Store_Error ''Diff outbox rootId and branchId must be non-empty strings.'') else Inr ())"

definition parseEvent :: "DropDiffEvent \<Rightarrow> DropDiffEvent store_result" where
  "parseEvent value = (case DropDiffEventSchema (event_json value) of
     None \<Rightarrow> Inl (Store_Error ''Invalid diff outbox event envelope.'') | Some parsed \<Rightarrow> Inr parsed)"

definition parseEventRecord :: "DiffOutboxEventRecord \<Rightarrow> DiffOutboxEventRecord store_result" where
  "parseEventRecord r =
     and_then (parseEvent (er_event r)) (\<lambda>event.
       if \<not> isNonEmptyString (er_rootId r) \<or> \<not> isNonEmptyString (er_branchId r) \<or> \<not> isNonEmptyString (er_eventId r) \<or>
          \<not> isNonNegativeInteger (er_queueOrder r) \<or> \<not> isNonNegativeInteger (er_retryCount r) \<or>
          \<not> isNonNegativeInteger (er_enqueuedAt r) \<or> \<not> isNonNegativeInteger (er_updatedAt r) \<or>
          dropId event \<noteq> er_rootId r \<or> eventId event \<noteq> er_eventId r
       then Inl (Store_Error ''Invalid diff outbox event record.'') else Inr (r \<lparr>er_event := event\<rparr>))"

definition parseBranchState :: "DiffOutboxBranchState option \<Rightarrow> 'a DiffOutboxScope_scheme \<Rightarrow> DiffOutboxBranchState store_result" where
  "parseBranchState value scope = (case value of
     None \<Rightarrow> Inr \<lparr>os_rootId = sc_rootId scope, os_branchId = sc_branchId scope, os_nextQueueOrder = 0, os_lease = None, os_draft = None\<rparr>
   | Some state \<Rightarrow>
       if os_rootId state \<noteq> sc_rootId scope \<or> os_branchId state \<noteq> sc_branchId scope \<or> \<not> isNonNegativeInteger (os_nextQueueOrder state)
       then Inl (Store_Error ''Invalid diff outbox branch state.'')
       else if \<not> opt_all (\<lambda>lease. wl_rootId lease = sc_rootId scope \<and> wl_branchId lease = sc_branchId scope \<and>
            isNonEmptyString (wl_ownerId lease) \<and> isNonNegativeInteger (wl_expiresAt lease)) (os_lease state)
       then Inl (Store_Error ''Invalid diff outbox writer lease.'')
       else case os_draft state of
         None \<Rightarrow> Inr state
       | Some draft \<Rightarrow> and_then (parseBranchDraft draft) (\<lambda>draft. Inr (state \<lparr>os_draft := Some draft\<rparr>)))"

definition eventIdentityPayload :: "platform \<Rightarrow> DropDiffEvent \<Rightarrow> jstring" where
  "eventIdentityPayload pf e = serializeCanonicalJson (number_text pf) (event_json e)"

definition nowFor :: "int \<Rightarrow> int store_result" where
  "nowFor now =
     (if \<not> isNonNegativeInteger now then Inl (Store_Error ''Diff outbox time must be a non-negative integer.'') else Inr now)"

definition createBranchDraft :: "DiffOutboxBranchDraftInput \<Rightarrow> int \<Rightarrow> DiffOutboxBranchDraft store_result" where
  "createBranchDraft input defaultUpdatedAt =
     and_then (nowFor (case di_updatedAt input of None \<Rightarrow> defaultUpdatedAt | Some t \<Rightarrow> t)) (\<lambda>updatedAt.
       Inr \<lparr>bd_content = di_content input, bd_updatedAt = updatedAt\<rparr>)"

definition assertLeaseInput :: "DiffOutboxLeaseInput \<Rightarrow> unit store_result" where
  "assertLeaseInput input =
     and_then (assertScope input) (\<lambda>_.
       if \<not> isNonEmptyString (li_ownerId input) \<or> \<not> isPositiveInteger (li_leaseDurationMs input)
       then Inl (Store_Error ''Diff outbox lease ownerId and leaseDurationMs are invalid.'') else Inr ())"

definition leaseExpiresAt :: "int \<Rightarrow> int \<Rightarrow> int store_result" where
  "leaseExpiresAt now leaseDurationMs =
     (let expiresAt = now + leaseDurationMs in
      if \<not> isNonNegativeInteger expiresAt then Inl (Store_Error ''Diff outbox lease expiration is invalid.'') else Inr expiresAt)"

definition hasActiveWriterLease :: "DiffOutboxBranchState \<Rightarrow> jstring \<Rightarrow> int \<Rightarrow> bool" where
  "hasActiveWriterLease state ownerId now \<longleftrightarrow>
     (case os_lease state of None \<Rightarrow> False | Some lease \<Rightarrow> wl_ownerId lease = ownerId \<and> wl_expiresAt lease > now)"

section \<open>The database\<close>

type_synonym event_key = "jstring \<times> jstring \<times> jstring"
type_synonym branch_key = "jstring \<times> jstring"

record outbox_db =
  db_events :: "(event_key \<times> DiffOutboxEventRecord) list"
  db_states :: "(branch_key \<times> DiffOutboxBranchState) list"

definition eventKey :: "'a DiffOutboxScope_scheme \<Rightarrow> jstring \<Rightarrow> event_key" where
  "eventKey scope i = (sc_rootId scope, sc_branchId scope, i)"

definition branchKey :: "'a DiffOutboxScope_scheme \<Rightarrow> branch_key" where
  "branchKey scope = (sc_rootId scope, sc_branchId scope)"

definition record_key :: "DiffOutboxEventRecord \<Rightarrow> event_key" where
  "record_key r = (er_rootId r, er_branchId r, er_eventId r)"

definition queue_key :: "DiffOutboxEventRecord \<Rightarrow> jstring \<times> jstring \<times> int" where
  "queue_key r = (er_rootId r, er_branchId r, er_queueOrder r)"

text \<open>\<^verbatim>\<open>add\<close> refuses a present key; both refuse a second entry of the unique index.\<close>

definition index_conflict :: "DiffOutboxEventRecord \<Rightarrow> (event_key \<times> DiffOutboxEventRecord) list \<Rightarrow> bool" where
  "index_conflict r evs = list_ex (\<lambda>(k, r'). k \<noteq> record_key r \<and> queue_key r' = queue_key r) evs"

definition events_put :: "DiffOutboxEventRecord \<Rightarrow> outbox_db \<Rightarrow> outbox_db store_result" where
  "events_put r db =
     (if index_conflict r (db_events db) then Inl (Store_Error ''IndexedDB transaction aborted'')
      else Inr (db \<lparr>db_events := AList.update (record_key r) r (db_events db)\<rparr>))"

definition events_add :: "DiffOutboxEventRecord \<Rightarrow> outbox_db \<Rightarrow> outbox_db store_result" where
  "events_add r db =
     (if jsmap_has (db_events db) (record_key r) then Inl (Store_Error ''IndexedDB transaction aborted'') else events_put r db)"

definition states_put :: "DiffOutboxBranchState \<Rightarrow> outbox_db \<Rightarrow> outbox_db" where
  "states_put state db = db \<lparr>db_states := AList.update (os_rootId state, os_branchId state) state (db_states db)\<rparr>"

definition read_state :: "'a DiffOutboxScope_scheme \<Rightarrow> outbox_db \<Rightarrow> DiffOutboxBranchState store_result" where
  "read_state scope db = parseBranchState (map_of (db_states db) (branchKey scope)) scope"

text \<open>The range of the queue index that one branch has, in its order.\<close>

definition queue_range :: "'a DiffOutboxScope_scheme \<Rightarrow> outbox_db \<Rightarrow> DiffOutboxEventRecord list" where
  "queue_range scope db =
     sort_key er_queueOrder (filter (\<lambda>r. er_rootId r = sc_rootId scope \<and> er_branchId r = sc_branchId scope \<and>
       0 \<le> er_queueOrder r \<and> er_queueOrder r \<le> max_safe_integer) (map snd (db_events db)))"

section \<open>Queueing\<close>

definition draft_for :: "DiffOutboxBranchDraftInput option \<Rightarrow> int \<Rightarrow> DiffOutboxBranchDraft option store_result" where
  "draft_for input now = (case input of None \<Rightarrow> Inr None | Some d \<Rightarrow> and_then (createBranchDraft d now) (\<lambda>draft. Inr (Some draft)))"

definition with_draft :: "DiffOutboxBranchDraft option \<Rightarrow> DiffOutboxBranchState \<Rightarrow> DiffOutboxBranchState" where
  "with_draft draft state = (case draft of None \<Rightarrow> state | Some d \<Rightarrow> state \<lparr>os_draft := Some d\<rparr>)"

definition enqueueDiffOutboxEvent ::
  "platform \<Rightarrow> EnqueueDiffOutboxEventInput \<Rightarrow> outbox_db \<Rightarrow> (DiffOutboxEventRecord \<times> outbox_db) store_result" where
  "enqueueDiffOutboxEvent pf input db =
     and_then (assertScope input) (\<lambda>_.
     and_then (parseEvent (eq_event input)) (\<lambda>event.
     if dropId event \<noteq> sc_rootId input then Inl (Store_Error ''Diff outbox event dropId must match its rootId.'')
     else and_then (nowFor (eq_now input)) (\<lambda>now.
     and_then (draft_for (eq_draft input) now) (\<lambda>draft.
     and_then (read_state input db) (\<lambda>state.
     if (case eq_ownerId input of None \<Rightarrow> False | Some owner \<Rightarrow> owner \<noteq> [] \<and> \<not> hasActiveWriterLease state owner now)
     then Inl (Store_Error ''Diff outbox writer lease is no longer active.'')
     else case map_of (db_events db) (eventKey input (eventId event)) of
       Some stored \<Rightarrow>
         and_then (parseEventRecord stored) (\<lambda>existing.
           if eventIdentityPayload pf (er_event existing) \<noteq> eventIdentityPayload pf event then Inl (Event_Exists (eventId event))
           else Inr (existing, if draft = None then db else states_put (with_draft draft state) db))
     | None \<Rightarrow>
         let rec = \<lparr>er_rootId = sc_rootId input, er_branchId = sc_branchId input, er_eventId = eventId event,
               er_queueOrder = os_nextQueueOrder state, er_event = event, er_status = Queued, er_retryCount = 0,
               er_enqueuedAt = now, er_updatedAt = now\<rparr>
         in and_then (events_add rec db) (\<lambda>db.
           Inr (rec, states_put (with_draft draft (state \<lparr>os_nextQueueOrder := os_nextQueueOrder state + 1\<rparr>)) db)))))))"

definition listDiffOutboxEvents :: "'a DiffOutboxScope_scheme \<Rightarrow> outbox_db \<Rightarrow> DiffOutboxEventRecord list store_result" where
  "listDiffOutboxEvents scope db =
     and_then (assertScope scope) (\<lambda>_. map_result parseEventRecord (queue_range scope db))"

section \<open>Drafts\<close>

definition readDiffOutboxBranchDraft :: "'a DiffOutboxScope_scheme \<Rightarrow> outbox_db \<Rightarrow> DiffOutboxBranchDraft option store_result" where
  "readDiffOutboxBranchDraft scope db =
     and_then (assertScope scope) (\<lambda>_. and_then (read_state scope db) (\<lambda>state. Inr (os_draft state)))"

definition persistDiffOutboxBranchDraft ::
  "PersistDiffOutboxBranchDraftInput \<Rightarrow> outbox_db \<Rightarrow> (DiffOutboxBranchDraft \<times> outbox_db) store_result" where
  "persistDiffOutboxBranchDraft input db =
     and_then (assertScope input) (\<lambda>_.
     and_then (nowFor (pd_now input)) (\<lambda>now.
     and_then (createBranchDraft (pd_draft input) now) (\<lambda>draft.
     and_then (read_state input db) (\<lambda>state.
       Inr (draft, states_put (state \<lparr>os_draft := Some draft\<rparr>) db)))))"

definition clearDiffOutboxBranchDraft :: "'a DiffOutboxScope_scheme \<Rightarrow> outbox_db \<Rightarrow> (bool \<times> outbox_db) store_result" where
  "clearDiffOutboxBranchDraft scope db =
     and_then (assertScope scope) (\<lambda>_.
     and_then (read_state scope db) (\<lambda>state.
       if os_draft state = None then Inr (False, db) else Inr (True, states_put (state \<lparr>os_draft := None\<rparr>) db)))"

definition clearDiffOutboxBranchDraftIfEmptyForWriter :: "DiffOutboxWriter \<Rightarrow> outbox_db \<Rightarrow> (bool \<times> outbox_db) store_result" where
  "clearDiffOutboxBranchDraftIfEmptyForWriter input db =
     and_then (assertScope input) (\<lambda>_.
     if \<not> isNonEmptyString (rl_ownerId input) then Inl (Store_Error ''Diff outbox draft cleanup input is invalid.'')
     else and_then (nowFor (wr_now input)) (\<lambda>now.
     and_then (read_state input db) (\<lambda>state.
       if \<not> hasActiveWriterLease state (rl_ownerId input) now then Inr (False, db)
       else if queue_range input db \<noteq> [] then Inr (False, db)
       else if os_draft state = None then Inr (True, db)
       else Inr (True, states_put (state \<lparr>os_draft := None\<rparr>) db))))"

definition discardDiffOutboxScopeForWriter :: "DiffOutboxWriter \<Rightarrow> outbox_db \<Rightarrow> (bool \<times> outbox_db) store_result" where
  "discardDiffOutboxScopeForWriter input db =
     and_then (assertScope input) (\<lambda>_.
     if \<not> isNonEmptyString (rl_ownerId input) then Inl (Store_Error ''Diff outbox lease ownerId must be a non-empty string.'')
     else and_then (nowFor (wr_now input)) (\<lambda>now.
     and_then (read_state input db) (\<lambda>state.
       if \<not> hasActiveWriterLease state (rl_ownerId input) now then Inr (False, db)
       else and_then (map_result parseEventRecord (queue_range input db)) (\<lambda>records.
         Inr (True, states_put (state \<lparr>os_draft := None\<rparr>)
           (db \<lparr>db_events := fold (\<lambda>r. AList.delete (record_key r)) records (db_events db)\<rparr>))))))"

section \<open>Dispositions of one event\<close>

text \<open>The fence of an optional writer: whether the operation goes on.\<close>

definition writer_fence ::
  "DiffOutboxWriter option \<Rightarrow> 'a DiffOutboxScope_scheme \<Rightarrow> unit store_result" where
  "writer_fence writer identity = (case writer of None \<Rightarrow> Inr ()
     | Some w \<Rightarrow> and_then (assertScope w) (\<lambda>_.
         if sc_rootId w \<noteq> sc_rootId identity \<or> sc_branchId w \<noteq> sc_branchId identity \<or> \<not> isNonEmptyString (rl_ownerId w)
         then Inl (Store_Error ''Diff outbox writer identity is invalid.'') else Inr ()))"

definition writer_active :: "DiffOutboxWriter option \<Rightarrow> outbox_db \<Rightarrow> bool store_result" where
  "writer_active writer db = (case writer of None \<Rightarrow> Inr True
     | Some w \<Rightarrow> and_then (read_state w db) (\<lambda>state.
         and_then (nowFor (wr_now w)) (\<lambda>now. Inr (hasActiveWriterLease state (rl_ownerId w) now))))"

definition acknowledgeDiffOutboxEvent ::
  "DiffOutboxEventIdentity \<Rightarrow> DiffOutboxWriter option \<Rightarrow> outbox_db \<Rightarrow> (bool \<times> outbox_db) store_result" where
  "acknowledgeDiffOutboxEvent identity writer db =
     and_then (assertScope identity) (\<lambda>_.
     if \<not> isNonEmptyString (oi_eventId identity) then Inl (Store_Error ''Diff outbox eventId must be a non-empty string.'')
     else and_then (writer_fence writer identity) (\<lambda>_.
     and_then (writer_active writer db) (\<lambda>active.
       if \<not> active then Inr (False, db)
       else case map_of (db_events db) (eventKey identity (oi_eventId identity)) of
         None \<Rightarrow> Inr (False, db)
       | Some value \<Rightarrow> and_then (parseEventRecord value) (\<lambda>_.
           Inr (True, db \<lparr>db_events := AList.delete (eventKey identity (oi_eventId identity)) (db_events db)\<rparr>)))))"

definition updateDiffOutboxEventStatus ::
  "UpdateDiffOutboxEventStatusInput \<Rightarrow> DiffOutboxWriter option \<Rightarrow> outbox_db
   \<Rightarrow> (DiffOutboxEventRecord option \<times> outbox_db) store_result" where
  "updateDiffOutboxEventStatus input writer db =
     and_then (assertScope input) (\<lambda>_.
     if \<not> isNonEmptyString (oi_eventId input) then Inl (Store_Error ''Diff outbox event status update is invalid.'')
     else and_then (writer_fence writer input) (\<lambda>_.
     and_then (nowFor (us_now input)) (\<lambda>now.
     and_then (writer_active writer db) (\<lambda>active.
       if \<not> active then Inr (None, db)
       else case map_of (db_events db) (eventKey input (oi_eventId input)) of
         None \<Rightarrow> Inr (None, db)
       | Some value \<Rightarrow> and_then (parseEventRecord value) (\<lambda>existing.
           let updated = existing \<lparr>er_status := us_status input,
                 er_retryCount := (if us_status input = Retry then er_retryCount existing + 1 else er_retryCount existing),
                 er_updatedAt := now\<rparr>
           in and_then (events_put updated db) (\<lambda>db. Inr (Some updated, db)))))))"

definition blockDiffOutboxEventForWriter ::
  "BlockDiffOutboxEventForWriterInput \<Rightarrow> outbox_db \<Rightarrow> (DiffOutboxEventRecord option \<times> outbox_db) store_result" where
  "blockDiffOutboxEventForWriter input db =
     and_then (assertScope input) (\<lambda>_.
     if \<not> isNonEmptyString (oi_eventId input) \<or> \<not> isNonEmptyString (bl_ownerId input)
     then Inl (Store_Error ''Diff outbox eventId and lease ownerId must be non-empty strings.'')
     else and_then (nowFor (bl_now input)) (\<lambda>now.
     and_then (read_state input db) (\<lambda>state.
       if \<not> hasActiveWriterLease state (bl_ownerId input) now then Inr (None, db)
       else case map_of (db_events db) (eventKey input (oi_eventId input)) of
         None \<Rightarrow> Inr (None, db)
       | Some value \<Rightarrow> and_then (parseEventRecord value) (\<lambda>existing.
           let updated = existing \<lparr>er_status := Blocked, er_updatedAt := now\<rparr>
           in and_then (events_put updated db) (\<lambda>db. Inr (Some updated, db))))))"

section \<open>Writer leases\<close>

definition hasDiffOutboxWriterLease :: "DiffOutboxWriter \<Rightarrow> outbox_db \<Rightarrow> bool store_result" where
  "hasDiffOutboxWriterLease input db =
     and_then (assertScope input) (\<lambda>_.
     if \<not> isNonEmptyString (rl_ownerId input) then Inl (Store_Error ''Diff outbox lease ownerId must be a non-empty string.'')
     else and_then (read_state input db) (\<lambda>state.
       and_then (nowFor (wr_now input)) (\<lambda>now. Inr (hasActiveWriterLease state (rl_ownerId input) now))))"

definition lease_of :: "DiffOutboxLeaseInput \<Rightarrow> int \<Rightarrow> DiffOutboxWriterLease" where
  "lease_of input expiresAt = \<lparr>wl_rootId = sc_rootId input, wl_branchId = sc_branchId input, wl_ownerId = li_ownerId input,
     wl_expiresAt = expiresAt\<rparr>"

definition acquireDiffOutboxWriterLease ::
  "DiffOutboxLeaseInput \<Rightarrow> outbox_db \<Rightarrow> (DiffOutboxWriterLease option \<times> outbox_db) store_result" where
  "acquireDiffOutboxWriterLease input db =
     and_then (assertLeaseInput input) (\<lambda>_.
     and_then (nowFor (li_now input)) (\<lambda>now.
     and_then (read_state input db) (\<lambda>state.
       if (case os_lease state of None \<Rightarrow> False
           | Some lease \<Rightarrow> wl_ownerId lease \<noteq> li_ownerId input \<and> wl_expiresAt lease > now \<and> \<not> li_force input)
       then Inr (None, db)
       else and_then (leaseExpiresAt now (li_leaseDurationMs input)) (\<lambda>expiresAt.
         Inr (Some (lease_of input expiresAt), states_put (state \<lparr>os_lease := Some (lease_of input expiresAt)\<rparr>) db)))))"

definition renewDiffOutboxWriterLease ::
  "DiffOutboxLeaseInput \<Rightarrow> outbox_db \<Rightarrow> (DiffOutboxWriterLease option \<times> outbox_db) store_result" where
  "renewDiffOutboxWriterLease input db =
     and_then (assertLeaseInput input) (\<lambda>_.
     and_then (nowFor (li_now input)) (\<lambda>now.
     and_then (read_state input db) (\<lambda>state.
       if \<not> hasActiveWriterLease state (li_ownerId input) now then Inr (None, db)
       else and_then (leaseExpiresAt now (li_leaseDurationMs input)) (\<lambda>expiresAt.
         Inr (Some (lease_of input expiresAt), states_put (state \<lparr>os_lease := Some (lease_of input expiresAt)\<rparr>) db)))))"

definition releaseDiffOutboxWriterLease :: "ReleaseDiffOutboxLeaseInput \<Rightarrow> outbox_db \<Rightarrow> (bool \<times> outbox_db) store_result" where
  "releaseDiffOutboxWriterLease input db =
     and_then (assertScope input) (\<lambda>_.
     if \<not> isNonEmptyString (rl_ownerId input) then Inl (Store_Error ''Diff outbox lease ownerId must be a non-empty string.'')
     else case map_of (db_states db) (branchKey input) of
       None \<Rightarrow> Inr (False, db)
     | Some value \<Rightarrow> and_then (parseBranchState (Some value) input) (\<lambda>state.
         if opt_all (\<lambda>lease. wl_ownerId lease \<noteq> rl_ownerId input) (os_lease state) then Inr (False, db)
         else Inr (True, states_put (state \<lparr>os_lease := None\<rparr>) db)))"

end
