(* ===== verification/Client_Outbox_Queue.thy ===== *)
theory Client_Outbox_Queue
  imports Client_Outbox
begin

text \<open>
  The browser outbox as a family of first-in first-out queues.

  \<open>diff_outbox_ok\<close> is the invariant of the two object stores. \<open>store_call\<close> and \<open>store_next\<close> are the state-changing
  operations of the store as one function; \<open>queue_effect\<close> is what a call may do to the abstract queues. The
  refinement is \<open>store_next_effect\<close>: every call is such an effect on the queues that \<open>branch_queue\<close> reads off
  the database.
\<close>

section \<open>Generic lemmas\<close>

lemma insort_key_snoc: "f x \<le> f y \<Longrightarrow> insort_key f x (xs @ [y]) = insort_key f x xs @ [y]"
  by (induction xs) auto

lemma sort_key_snoc: "\<forall>x \<in> set xs. f x \<le> f y \<Longrightarrow> sort_key f (xs @ [y]) = sort_key f xs @ [y]"
  by (induction xs) (simp_all add: insort_key_snoc)

lemma sort_key_map:
  assumes "\<And>x. f (g x) = f x"
  shows "sort_key f (map g xs) = map g (sort_key f xs)"
proof -
  have "insort_key f (g x) (map g ys) = map g (insort_key f x ys)" for x ys
    by (induction ys) (auto simp: assms)
  then show ?thesis by (induction xs) auto
qed

lemma update_present:
  "jsmap_wf m \<Longrightarrow> map_of m k \<noteq> None \<Longrightarrow> AList.update k v m = map (\<lambda>(k', v'). if k' = k then (k, v) else (k', v')) m"
proof (induction m)
  case (Cons p m)
  obtain k' v' where p: "p = (k', v')" by fastforce
  have "map (\<lambda>(a, b). if a = k then (k, v) else (a, b)) m = m" if "k' = k"
    using Cons.prems(1) that p by (intro map_idI) (force simp: map_of_eq_None_iff)
  with Cons p show ?case by auto
qed simp

lemma fold_delete:
  "fold (\<lambda>x. AList.delete (h x)) xs m = filter (\<lambda>(k, v). k \<notin> h ` set xs) m"
  by (induction xs arbitrary: m) (auto simp: AList.delete_eq case_prod_unfold intro: filter_cong)

section \<open>The invariant\<close>

definition record_ok :: "DiffOutboxEventRecord \<Rightarrow> bool" where
  "record_ok r \<longleftrightarrow> valid_event (er_event r) \<and> eventId (er_event r) = er_eventId r \<and> dropId (er_event r) = er_rootId r \<and>
     isNonEmptyString (er_branchId r) \<and> isNonNegativeInteger (er_queueOrder r)"

definition branch_state_ok :: "DiffOutboxBranchState \<Rightarrow> bool" where
  "branch_state_ok s \<longleftrightarrow> 0 \<le> os_nextQueueOrder s \<and>
     opt_all (\<lambda>l. wl_rootId l = os_rootId s \<and> wl_branchId l = os_branchId s \<and> isNonEmptyString (wl_ownerId l) \<and>
       isNonNegativeInteger (wl_expiresAt l)) (os_lease s) \<and>
     opt_all (\<lambda>d. isNonNegativeInteger (bd_updatedAt d)) (os_draft s)"

definition next_order :: "outbox_db \<Rightarrow> branch_key \<Rightarrow> int" where
  "next_order db k = (case map_of (db_states db) k of None \<Rightarrow> 0 | Some s \<Rightarrow> os_nextQueueOrder s)"

definition record_branch :: "DiffOutboxEventRecord \<Rightarrow> branch_key" where
  "record_branch r = (er_rootId r, er_branchId r)"

definition events_wf :: "outbox_db \<Rightarrow> bool" where
  "events_wf db \<longleftrightarrow> jsmap_wf (db_events db) \<and>
     (\<forall>k r. map_of (db_events db) k = Some r \<longrightarrow>
        k = record_key r \<and> record_ok r \<and> er_queueOrder r < next_order db (record_branch r)) \<and>
     (\<forall>k r k' r'. map_of (db_events db) k = Some r \<longrightarrow> map_of (db_events db) k' = Some r' \<longrightarrow>
        queue_key r = queue_key r' \<longrightarrow> k = k')"

definition states_wf :: "outbox_db \<Rightarrow> bool" where
  "states_wf db \<longleftrightarrow> (\<forall>k s. map_of (db_states db) k = Some s \<longrightarrow> k = (os_rootId s, os_branchId s) \<and> branch_state_ok s)"

definition diff_outbox_ok :: "outbox_db \<Rightarrow> bool" where
  "diff_outbox_ok db \<longleftrightarrow> events_wf db \<and> states_wf db"

definition empty_db :: outbox_db where
  "empty_db = \<lparr>db_events = [], db_states = []\<rparr>"

lemma diff_outbox_ok_empty: "diff_outbox_ok empty_db"
  by (simp add: diff_outbox_ok_def events_wf_def states_wf_def empty_db_def)

section \<open>What the parsers accept\<close>

lemma parseEvent_Inr: "parseEvent e = Inr e' \<Longrightarrow> valid_event e'"
  by (auto simp: parseEvent_def dest: DropDiffEventSchema_valid split: option.splits)

lemma parseEvent_valid: "valid_event e \<Longrightarrow> parseEvent e = Inr e"
  by (simp add: parseEvent_def DropDiffEventSchema_json)

lemma parseEventRecord_Inr: "record_ok r \<Longrightarrow> parseEventRecord r = Inr r' \<Longrightarrow> r' = r"
  by (auto simp: parseEventRecord_def record_ok_def parseEvent_valid split: if_splits)

lemma parse_records_Inr:
  assumes "\<forall>r \<in> set rs. record_ok r" "map_result parseEventRecord rs = Inr rs'"
  shows "rs' = rs"
proof -
  have "list_all2 (\<lambda>r r'. parseEventRecord r = Inr r') rs rs'" using assms(2) by (simp add: map_result_Inr_iff)
  then show ?thesis using assms(1) by (induction rule: list_all2_induct) (auto dest: parseEventRecord_Inr)
qed

lemma isNonEmptyString_token: "is_token s \<Longrightarrow> isNonEmptyString s"
  by (auto simp: is_token_def isNonEmptyString_def bounded_def is_trimmed_def)

definition lease_at :: "outbox_db \<Rightarrow> branch_key \<Rightarrow> DiffOutboxWriterLease option" where
  "lease_at db k = Option.bind (map_of (db_states db) k) os_lease"

definition draft_at :: "outbox_db \<Rightarrow> branch_key \<Rightarrow> DiffOutboxBranchDraft option" where
  "draft_at db k = Option.bind (map_of (db_states db) k) os_draft"

lemma read_state_Inr:
  assumes "diff_outbox_ok db" "read_state scope db = Inr s"
  shows "(os_rootId s, os_branchId s) = branchKey scope" "os_nextQueueOrder s = next_order db (branchKey scope)"
    "branch_state_ok s" "isNonNegativeInteger (os_nextQueueOrder s)" "os_lease s = lease_at db (branchKey scope)"
    "os_draft s = draft_at db (branchKey scope)"
proof -
  have "(os_rootId s, os_branchId s) = branchKey scope \<and> os_nextQueueOrder s = next_order db (branchKey scope) \<and>
     branch_state_ok s \<and> isNonNegativeInteger (os_nextQueueOrder s) \<and> os_lease s = lease_at db (branchKey scope) \<and>
     os_draft s = draft_at db (branchKey scope)"
  proof (cases "map_of (db_states db) (branchKey scope)")
    case None
    then show ?thesis using assms(2)
      by (auto simp: read_state_def parseBranchState_def branchKey_def next_order_def branch_state_ok_def opt_all_def
          isNonNegativeInteger_def is_safe_integer_def max_safe_integer_def lease_at_def draft_at_def)
  next
    case (Some v)
    then have "branch_state_ok v" "branchKey scope = (os_rootId v, os_branchId v)"
      using assms(1) Some unfolding diff_outbox_ok_def states_wf_def by blast+
    moreover have "s = v" "isNonNegativeInteger (os_nextQueueOrder v)"
      using assms(2) Some by (auto simp: read_state_def parseBranchState_def parseBranchDraft_def result_simps split: option.splits if_splits)
    ultimately show ?thesis using Some by (auto simp: next_order_def lease_at_def draft_at_def)
  qed
  then show "(os_rootId s, os_branchId s) = branchKey scope" "os_nextQueueOrder s = next_order db (branchKey scope)"
    "branch_state_ok s" "isNonNegativeInteger (os_nextQueueOrder s)" "os_lease s = lease_at db (branchKey scope)"
    "os_draft s = draft_at db (branchKey scope)" by blast+
qed

section \<open>The abstract queues\<close>

definition queue_of :: "outbox_db \<Rightarrow> branch_key \<Rightarrow> DiffOutboxEventRecord list" where
  "queue_of db k = sort_key er_queueOrder (filter (\<lambda>r. record_branch r = k) (map snd (db_events db)))"

definition branch_queue :: "outbox_db \<Rightarrow> branch_key \<Rightarrow> DropDiffEvent list" where
  "branch_queue db k = map er_event (queue_of db k)"

datatype queue_effect =
  No_Effect | Appended branch_key DropDiffEvent | Removed branch_key jstring | Cleared branch_key

fun apply_effect :: "queue_effect \<Rightarrow> (branch_key \<Rightarrow> DropDiffEvent list) \<Rightarrow> branch_key \<Rightarrow> DropDiffEvent list" where
  "apply_effect No_Effect q = q"
| "apply_effect (Appended k e) q = q(k := q k @ [e])"
| "apply_effect (Removed k i) q = q(k := filter (\<lambda>e. eventId e \<noteq> i) (q k))"
| "apply_effect (Cleared k) q = q(k := [])"

text \<open>The writes the store makes, each with its effect on the queues.\<close>

definition state_key :: "DiffOutboxBranchState \<Rightarrow> branch_key" where
  "state_key s = (os_rootId s, os_branchId s)"

inductive db_write :: "outbox_db \<Rightarrow> queue_effect \<Rightarrow> outbox_db \<Rightarrow> bool" for db where
  keep: "db_write db No_Effect db"
| put_state: "branch_state_ok s \<Longrightarrow> os_nextQueueOrder s = next_order db (state_key s) \<Longrightarrow> db_write db No_Effect (states_put s db)"
| add: "map_of (db_events db) (record_key r) = None \<Longrightarrow> record_ok r \<Longrightarrow> er_queueOrder r = next_order db (record_branch r) \<Longrightarrow>
    branch_state_ok s \<Longrightarrow> state_key s = record_branch r \<Longrightarrow> os_nextQueueOrder s = er_queueOrder r + 1 \<Longrightarrow>
    db_write db (Appended (record_branch r) (er_event r)) (states_put s (db \<lparr>db_events := db_events db @ [(record_key r, r)]\<rparr>))"
| change: "map_of (db_events db) (record_key r) = Some r \<Longrightarrow> record_key r' = record_key r \<Longrightarrow> er_event r' = er_event r \<Longrightarrow>
    er_queueOrder r' = er_queueOrder r \<Longrightarrow>
    db_write db No_Effect (db \<lparr>db_events := AList.update (record_key r) r' (db_events db)\<rparr>)"
| remove: "map_of (db_events db) k = Some r \<Longrightarrow>
    db_write db (Removed (record_branch r) (er_eventId r)) (db \<lparr>db_events := AList.delete k (db_events db)\<rparr>)"
| clear: "branch_state_ok s \<Longrightarrow> os_nextQueueOrder s = next_order db (state_key s) \<Longrightarrow>
    db_write db (Cleared (state_key s)) (states_put s (db \<lparr>db_events := filter (\<lambda>(k, r). record_branch r \<noteq> state_key s) (db_events db)\<rparr>))"

subsection \<open>Every write keeps the invariant\<close>

lemma next_order_put [simp]:
  "next_order (states_put s db) k = (if k = state_key s then os_nextQueueOrder s else next_order db k)"
  by (simp add: next_order_def states_put_def state_key_def)

lemma next_order_events [simp]: "next_order (db \<lparr>db_events := e\<rparr>) k = next_order db k"
  by (simp add: next_order_def)

lemma events_put_state [simp]: "db_events (states_put s db) = db_events db"
  by (simp add: states_put_def)

lemma states_wf_put: "states_wf db \<Longrightarrow> branch_state_ok s \<Longrightarrow> states_wf (states_put s db)"
  by (auto simp: states_wf_def states_put_def state_key_def)

lemma states_wf_events [simp]: "states_wf (db \<lparr>db_events := e\<rparr>) = states_wf db"
  by (simp add: states_wf_def)

lemma events_wfD:
  assumes "events_wf db"
  shows "jsmap_wf (db_events db)"
    "map_of (db_events db) k = Some r \<Longrightarrow> k = record_key r"
    "map_of (db_events db) k = Some r \<Longrightarrow> record_ok r"
    "map_of (db_events db) k = Some r \<Longrightarrow> er_queueOrder r < next_order db (record_branch r)"
    "map_of (db_events db) k = Some r \<Longrightarrow> map_of (db_events db) k' = Some r' \<Longrightarrow> queue_key r = queue_key r' \<Longrightarrow> k = k'"
  using assms unfolding events_wf_def by blast+

lemma events_wfI:
  assumes "jsmap_wf (db_events db)"
    "\<And>k r. map_of (db_events db) k = Some r \<Longrightarrow>
       k = record_key r \<and> record_ok r \<and> er_queueOrder r < next_order db (record_branch r)"
    "\<And>k r k' r'. map_of (db_events db) k = Some r \<Longrightarrow> map_of (db_events db) k' = Some r' \<Longrightarrow> queue_key r = queue_key r' \<Longrightarrow> k = k'"
  shows "events_wf db"
  using assms unfolding events_wf_def by blast

lemma events_wf_sub:
  assumes "events_wf db" "jsmap_wf m" "\<And>k r. map_of m k = Some r \<Longrightarrow> map_of (db_events db) k = Some r"
    "\<And>k. next_order db k \<le> next_order db' k" "db_events db' = m"
  shows "events_wf db'"
proof (rule events_wfI)
  show "jsmap_wf (db_events db')" using assms(2,5) by simp
  fix k r assume "map_of (db_events db') k = Some r"
  then have r: "map_of (db_events db) k = Some r" using assms(3,5) by simp
  from events_wfD(2-4) [OF assms(1) r] assms(4) [of "record_branch r"]
  show "k = record_key r \<and> record_ok r \<and> er_queueOrder r < next_order db' (record_branch r)" by simp
  fix k' r' assume "map_of (db_events db') k' = Some r'" "queue_key r = queue_key r'"
  with events_wfD(5) [OF assms(1) r] assms(3,5) show "k = k'" by blast
qed

lemma queue_key_branch: "queue_key r = queue_key r' \<longleftrightarrow> record_branch r = record_branch r' \<and> er_queueOrder r = er_queueOrder r'"
  by (auto simp: queue_key_def record_branch_def)

lemma record_key_branch: "record_key r = record_key r' \<Longrightarrow> record_branch r = record_branch r' \<and> er_eventId r = er_eventId r'"
  by (auto simp: record_key_def record_branch_def)

lemma events_wf_add:
  assumes "events_wf db" "map_of (db_events db) (record_key r) = None" "record_ok r"
    and "er_queueOrder r = next_order db (record_branch r)" "state_key s = record_branch r" "os_nextQueueOrder s = er_queueOrder r + 1"
  shows "events_wf (states_put s (db \<lparr>db_events := db_events db @ [(record_key r, r)]\<rparr>))" (is "events_wf ?db'")
proof (rule events_wfI)
  have look: "map_of (db_events ?db') k = (if k = record_key r then Some r else map_of (db_events db) k)" for k
    using assms(2) by (simp add: map_of_append map_add_def split: option.split)
  show "jsmap_wf (db_events ?db')"
    using events_wfD(1) [OF assms(1)] assms(2) by (auto simp: jsmap_wf_def map_of_eq_None_iff)
  note old = events_wfD(2-4) [OF assms(1)]
  have uniq: "queue_key x \<noteq> queue_key r" if "map_of (db_events db) k = Some x" for k x
    using old(3) [OF that] assms(4) by (auto simp: queue_key_branch)
  fix k x assume x: "map_of (db_events ?db') k = Some x"
  show "k = record_key x \<and> record_ok x \<and> er_queueOrder x < next_order ?db' (record_branch x)"
    using x old [of k x] assms(3-6) unfolding look by (auto split: if_splits)
  fix k' x' assume "map_of (db_events ?db') k' = Some x'" "queue_key x = queue_key x'"
  with x uniq [of k x] uniq [of k' x'] events_wfD(5) [OF assms(1), of k x k' x'] show "k = k'"
    unfolding look by (metis option.inject)
qed

lemma events_wf_change:
  assumes "events_wf db" "map_of (db_events db) (record_key r) = Some r" "record_key r' = record_key r"
    "er_event r' = er_event r" "er_queueOrder r' = er_queueOrder r"
  shows "events_wf (db \<lparr>db_events := AList.update (record_key r) r' (db_events db)\<rparr>)" (is "events_wf ?db'")
proof (rule events_wfI)
  note old = events_wfD(2-4) [OF assms(1)]
  have same: "record_branch r' = record_branch r" "er_eventId r' = er_eventId r" "queue_key r' = queue_key r"
    using assms(3,5) record_key_branch [of r' r] by (auto simp: queue_key_branch)
  have ok: "record_ok r'" using old(2) [OF assms(2)] assms(3-5) by (auto simp: record_ok_def record_key_def)
  have orig: "\<exists>y. map_of (db_events db) k = Some y \<and> queue_key y = queue_key x"
    if "map_of (db_events ?db') k = Some x" for k x
    using that assms(2) same(3) by (auto split: if_splits)
  show "jsmap_wf (db_events ?db')" using events_wfD(1) [OF assms(1)] by simp
  fix k x assume x: "map_of (db_events ?db') k = Some x"
  then show "k = record_key x \<and> record_ok x \<and> er_queueOrder x < next_order ?db' (record_branch x)"
    using old [of k x] old(3) [OF assms(2)] ok same assms(3,5) by (auto split: if_splits)
  fix k' x' assume "map_of (db_events ?db') k' = Some x'" "queue_key x = queue_key x'"
  with orig [OF x] orig [of k' x'] show "k = k'" using events_wfD(5) [OF assms(1)] by metis
qed

lemma db_write_ok:
  assumes "db_write db l db'" "diff_outbox_ok db"
  shows "diff_outbox_ok db'"
  using assms(1)
proof cases
  case keep
  with assms(2) show ?thesis by simp
next
  case (put_state s)
  with assms(2) show ?thesis
    by (auto simp: diff_outbox_ok_def states_wf_put intro: events_wf_sub [of db "db_events db"] dest: events_wf_def [THEN iffD1])
next
  case (add r s)
  with assms(2) show ?thesis by (simp add: diff_outbox_ok_def states_wf_put events_wf_add)
next
  case (change r r')
  with assms(2) show ?thesis by (simp add: diff_outbox_ok_def events_wf_change)
next
  case (remove k r)
  have "events_wf db" using assms(2) by (simp add: diff_outbox_ok_def)
  moreover from this have "jsmap_wf (AList.delete k (db_events db))" by (simp add: events_wf_def)
  ultimately have "events_wf db'"
    by (rule events_wf_sub) (use remove in \<open>auto simp: delete_conv' split: if_splits\<close>)
  with remove assms(2) show ?thesis by (simp add: diff_outbox_ok_def)
next
  case (clear s)
  let ?m = "filter (\<lambda>(k, r). record_branch r \<noteq> state_key s) (db_events db)"
  have wf: "jsmap_wf (db_events db)" using assms(2) by (simp add: diff_outbox_ok_def events_wf_def)
  then have "jsmap_wf ?m" by (auto simp: jsmap_wf_def intro: distinct_map_filter)
  moreover from this wf have "map_of (db_events db) k = Some r" if "map_of ?m k = Some r" for k r
    using that by (auto simp: map_of_mem_iff [symmetric])
  ultimately show ?thesis using clear assms(2)
    by (auto simp: diff_outbox_ok_def states_wf_put intro!: events_wf_sub [of db ?m])
qed

subsection \<open>Every write has its effect on the queues\<close>

lemma queue_of_mem: "diff_outbox_ok db \<Longrightarrow> r \<in> set (queue_of db k) \<longleftrightarrow> map_of (db_events db) (record_key r) = Some r \<and> record_branch r = k"
proof -
  assume "diff_outbox_ok db"
  then have wf: "events_wf db" by (simp add: diff_outbox_ok_def)
  have "r \<in> set (queue_of db k) \<longleftrightarrow> (\<exists>i. (i, r) \<in> set (db_events db)) \<and> record_branch r = k"
    by (force simp: queue_of_def)
  also have "(\<exists>i. (i, r) \<in> set (db_events db)) \<longleftrightarrow> (\<exists>i. map_of (db_events db) i = Some r)"
    using events_wfD(1) [OF wf] by (simp add: map_of_mem_iff)
  also have "\<dots> \<longleftrightarrow> map_of (db_events db) (record_key r) = Some r"
    using events_wfD(2) [OF wf] by blast
  finally show ?thesis .
qed

lemma queue_of_put_state [simp]: "queue_of (states_put s db) = queue_of db"
  by (simp add: queue_of_def fun_eq_iff)

lemma queue_of_add:
  assumes "diff_outbox_ok db" "er_queueOrder r = next_order db (record_branch r)"
  shows "queue_of (db \<lparr>db_events := db_events db @ [(record_key r, r)]\<rparr>) k =
     queue_of db k @ (if record_branch r = k then [r] else [])"
proof -
  have "er_queueOrder x \<le> er_queueOrder r" if "x \<in> set (queue_of db k)" "record_branch r = k" for x
    using that assms events_wfD(4) [of db "record_key x" x] by (fastforce simp: queue_of_mem diff_outbox_ok_def)
  then show ?thesis by (simp add: queue_of_def sort_key_snoc)
qed

lemma queue_of_change:
  assumes ok: "diff_outbox_ok db" and r: "map_of (db_events db) (record_key r) = Some r" "record_key r' = record_key r"
    "er_queueOrder r' = er_queueOrder r"
  shows "queue_of (db \<lparr>db_events := AList.update (record_key r) r' (db_events db)\<rparr>) k =
     map (\<lambda>x. if x = r then r' else x) (queue_of db k)"
proof -
  let ?g = "\<lambda>x. if x = r then r' else x"
  have wf: "events_wf db" using ok by (simp add: diff_outbox_ok_def)
  have b: "record_branch r' = record_branch r" using r(2) record_key_branch by blast
  have "i = record_key r \<longleftrightarrow> x = r" if "(i, x) \<in> set (db_events db)" for i x
  proof -
    have "map_of (db_events db) i = Some x" using that by (simp add: map_of_mem_iff [OF events_wfD(1) [OF wf]])
    with events_wfD(2) [OF wf this] r(1) show ?thesis by (metis option.inject)
  qed
  moreover have "AList.update (record_key r) r' (db_events db) =
      map (\<lambda>(i, x). if i = record_key r then (record_key r, r') else (i, x)) (db_events db)"
    using r(1) by (intro update_present [OF events_wfD(1) [OF wf]]) simp
  ultimately have "map snd (AList.update (record_key r) r' (db_events db)) = map ?g (map snd (db_events db))"
    by (fastforce simp: map_eq_conv)
  moreover have "filter (\<lambda>x. record_branch x = k) (map ?g xs) = map ?g (filter (\<lambda>x. record_branch x = k) xs)" for xs
    by (induction xs) (auto simp: b)
  ultimately have "queue_of (db \<lparr>db_events := AList.update (record_key r) r' (db_events db)\<rparr>) k =
      sort_key er_queueOrder (map ?g (filter (\<lambda>x. record_branch x = k) (map snd (db_events db))))"
    by (simp add: queue_of_def del: map_map)
  also have "\<dots> = map ?g (queue_of db k)"
    unfolding queue_of_def by (rule sort_key_map) (simp add: r(3))
  finally show ?thesis .
qed

lemma queue_of_filter:
  assumes "\<And>i r. (i, r) \<in> set (db_events db) \<Longrightarrow> P (i, r) \<longleftrightarrow> Q r"
  shows "queue_of (db \<lparr>db_events := filter P (db_events db)\<rparr>) k = filter Q (queue_of db k)"
proof -
  have "filter P (db_events db) = filter (\<lambda>p. Q (snd p)) (db_events db)"
    using assms by (intro filter_cong) auto
  then have "map snd (filter P (db_events db)) = filter Q (map snd (db_events db))"
    by (simp add: filter_map comp_def)
  then show ?thesis by (simp add: queue_of_def filter_sort conj_commute)
qed

lemma db_write_effect:
  assumes "db_write db l db'" "diff_outbox_ok db"
  shows "branch_queue db' = apply_effect l (branch_queue db)"
  using assms(1)
proof cases
  case (add r s)
  then show ?thesis by (simp add: branch_queue_def queue_of_add [OF assms(2)] fun_eq_iff)
next
  case (change r r')
  then show ?thesis by (simp add: branch_queue_def queue_of_change [OF assms(2)] fun_eq_iff)
next
  case (remove i r)
  have wf: "events_wf db" using assms(2) by (simp add: diff_outbox_ok_def)
  have i: "i = record_key r" using events_wfD(2) [OF wf remove(3)] .
  have q: "queue_of db' k = filter (\<lambda>x. record_key x \<noteq> i) (queue_of db k)" for k
    unfolding remove(2) AList.delete_eq using events_wfD(1,2) [OF wf]
    by (intro queue_of_filter) (auto simp: map_of_mem_iff)
  have "map er_event (queue_of db' k) = apply_effect l (branch_queue db) k" for k
  proof -
    have "record_key x \<noteq> i \<longleftrightarrow> \<not> (k = record_branch r \<and> eventId (er_event x) = er_eventId r)" if "x \<in> set (queue_of db k)" for x
      using that i events_wfD(3) [OF wf, of "record_key x" x] assms(2)
      by (auto simp: queue_of_mem record_ok_def record_key_def record_branch_def)
    then have "queue_of db' k = filter (\<lambda>x. \<not> (k = record_branch r \<and> eventId (er_event x) = er_eventId r)) (queue_of db k)"
      unfolding q by (intro filter_cong) auto
    then show ?thesis by (auto simp: remove branch_queue_def filter_map comp_def)
  qed
  then show ?thesis by (simp add: branch_queue_def fun_eq_iff)
next
  case (clear s)
  have "queue_of db' k = filter (\<lambda>r. record_branch r \<noteq> state_key s) (queue_of db k)" for k
    unfolding clear(2) queue_of_put_state by (intro queue_of_filter) auto
  moreover have "record_branch r = k" if "r \<in> set (queue_of db k)" for r k
    using that by (simp add: queue_of_mem [OF assms(2)])
  ultimately have "queue_of db' k = (if k = state_key s then [] else queue_of db k)" for k
    by (auto simp: filter_empty_conv intro: filter_True)
  then show ?thesis by (simp add: clear(1) branch_queue_def fun_eq_iff)
qed (simp_all add: branch_queue_def fun_eq_iff)

lemma queue_range_of:
  assumes "diff_outbox_ok db"
  shows "queue_range scope db = queue_of db (branchKey scope)"
proof -
  have "isNonNegativeInteger (er_queueOrder r)" if "(i, r) \<in> set (db_events db)" for i r
    using that assms events_wfD [of db] by (auto simp: diff_outbox_ok_def map_of_mem_iff record_ok_def)
  then have "filter (\<lambda>r. er_rootId r = sc_rootId scope \<and> er_branchId r = sc_branchId scope \<and> 0 \<le> er_queueOrder r \<and>
       er_queueOrder r \<le> max_safe_integer) (map snd (db_events db)) =
     filter (\<lambda>r. record_branch r = branchKey scope) (map snd (db_events db))"
    by (intro filter_cong) (fastforce simp: record_branch_def branchKey_def isNonNegativeInteger_def is_safe_integer_iff)+
  then show ?thesis by (simp add: queue_range_def queue_of_def)
qed

lemma queue_of_sorted:
  assumes "diff_outbox_ok db"
  shows "sorted_wrt (\<lambda>r r'. er_queueOrder r < er_queueOrder r') (queue_of db k)"
proof -
  have wf: "events_wf db" using assms by (simp add: diff_outbox_ok_def)
  have "map record_key (map snd (db_events db)) = map fst (db_events db)"
    using events_wfD(1,2) [OF wf] by (auto simp: map_of_mem_iff)
  then have "distinct (map snd (db_events db))"
    using events_wfD(1) [OF wf] by (metis distinct_map jsmap_wf_def)
  then have "distinct (queue_of db k)" by (simp add: queue_of_def distinct_map_filter)
  moreover have "inj_on er_queueOrder (set (queue_of db k))"
  proof (rule inj_onI)
    fix r r' assume r: "r \<in> set (queue_of db k)" "r' \<in> set (queue_of db k)" and o: "er_queueOrder r = er_queueOrder r'"
    then have "record_key r = record_key r'"
      by (intro events_wfD(5) [OF wf, of _ r _ r']) (simp_all add: queue_of_mem [OF assms] queue_key_branch)
    with r show "r = r'" by (simp add: queue_of_mem [OF assms])
  qed
  ultimately have "distinct (map er_queueOrder (queue_of db k))" by (simp add: distinct_map)
  moreover have "sorted (map er_queueOrder (queue_of db k))" by (simp add: queue_of_def)
  ultimately have "sorted_wrt (<) (map er_queueOrder (queue_of db k))" by (simp add: strict_sorted_iff)
  then show ?thesis by (simp add: sorted_wrt_map)
qed

section \<open>Every operation is a write\<close>

lemma put_read_state:
  assumes "diff_outbox_ok db" "read_state scope db = Inr s" "state_key s' = state_key s" "os_nextQueueOrder s' = os_nextQueueOrder s"
    and "branch_state_ok s'"
  shows "db_write db No_Effect (states_put s' db)"
  using assms(3-5) read_state_Inr [OF assms(1,2)] by (intro put_state) (simp_all add: state_key_def)

lemma put_draft:
  assumes "diff_outbox_ok db" "read_state scope db = Inr s" "opt_all (\<lambda>d. isNonNegativeInteger (bd_updatedAt d)) d"
  shows "db_write db No_Effect (states_put (s \<lparr>os_draft := d\<rparr>) db)"
  using read_state_Inr(3) [OF assms(1,2)] assms(3)
  by (intro put_read_state [OF assms(1,2)]) (simp_all add: state_key_def branch_state_ok_def)

lemma createBranchDraft_Inr: "createBranchDraft input t = Inr d \<Longrightarrow> isNonNegativeInteger (bd_updatedAt d)"
  by (auto simp: createBranchDraft_def nowFor_def result_simps)

lemma draft_for_Inr: "draft_for input t = Inr d \<Longrightarrow> opt_all (\<lambda>d. isNonNegativeInteger (bd_updatedAt d)) d"
  by (auto simp: draft_for_def opt_all_def result_simps dest: createBranchDraft_Inr split: option.splits)

lemma with_draft_fields [simp]:
  "state_key (with_draft d s) = state_key s" "os_nextQueueOrder (with_draft d s) = os_nextQueueOrder s"
  "os_lease (with_draft d s) = os_lease s"
  by (simp_all add: with_draft_def state_key_def split: option.split)

lemma state_key_next [simp]: "state_key (s \<lparr>os_nextQueueOrder := n\<rparr>) = state_key s"
  by (simp add: state_key_def)

lemma with_draft_ok:
  "branch_state_ok s \<Longrightarrow> opt_all (\<lambda>d. isNonNegativeInteger (bd_updatedAt d)) d \<Longrightarrow> branch_state_ok (with_draft d s)"
  by (auto simp: with_draft_def branch_state_ok_def opt_all_def split: option.splits)

lemma branch_state_ok_next: "branch_state_ok s \<Longrightarrow> 0 \<le> n \<Longrightarrow> branch_state_ok (s \<lparr>os_nextQueueOrder := n\<rparr>)"
  by (simp add: branch_state_ok_def)

lemma read_event:
  assumes "diff_outbox_ok db" "map_of (db_events db) (eventKey scope i) = Some v" "parseEventRecord v = Inr r"
  shows "r = v" "record_key r = eventKey scope i" "record_branch r = branchKey scope" "er_eventId r = i" "record_ok r"
proof -
  have wf: "events_wf db" using assms(1) by (simp add: diff_outbox_ok_def)
  show "record_ok r" "r = v" using events_wfD(3) [OF wf assms(2)] parseEventRecord_Inr assms(3) by blast+
  then show "record_key r = eventKey scope i" using events_wfD(2) [OF wf assms(2)] by simp
  then show "record_branch r = branchKey scope" "er_eventId r = i"
    by (simp_all add: record_key_def eventKey_def record_branch_def branchKey_def)
qed

lemma enqueue_steps:
  assumes e: "enqueueDiffOutboxEvent pf input db = Inr (r, db')"
  obtains ev draft s where "assertScope input = Inr ()" "parseEvent (eq_event input) = Inr ev" "dropId ev = sc_rootId input"
    "draft_for (eq_draft input) (eq_now input) = Inr draft" "read_state input db = Inr s"
    "\<not> (case eq_ownerId input of None \<Rightarrow> False | Some owner \<Rightarrow> owner \<noteq> [] \<and> \<not> hasActiveWriterLease s owner (eq_now input))"
    "(case map_of (db_events db) (eventKey input (eventId ev)) of
       Some stored \<Rightarrow>
         and_then (parseEventRecord stored) (\<lambda>existing.
           if eventIdentityPayload pf (er_event existing) \<noteq> eventIdentityPayload pf ev then Inl (Event_Exists (eventId ev))
           else Inr (existing, if draft = None then db else states_put (with_draft draft s) db))
     | None \<Rightarrow>
         let rec = \<lparr>er_rootId = sc_rootId input, er_branchId = sc_branchId input, er_eventId = eventId ev,
               er_queueOrder = os_nextQueueOrder s, er_event = ev, er_status = Queued, er_retryCount = 0,
               er_enqueuedAt = eq_now input, er_updatedAt = eq_now input\<rparr>
         in and_then (events_add rec db) (\<lambda>db.
           Inr (rec, states_put (with_draft draft (s \<lparr>os_nextQueueOrder := os_nextQueueOrder s + 1\<rparr>)) db))) = Inr (r, db')"
  using e unfolding enqueueDiffOutboxEvent_def nowFor_def and_then_Inr_iff if_Inl_eq_Inr by auto

lemma enqueue_Inr:
  assumes ok: "diff_outbox_ok db" and e: "enqueueDiffOutboxEvent pf input db = Inr (r, db')"
  obtains (old) ev where "parseEvent (eq_event input) = Inr ev" "map_of (db_events db) (eventKey input (eventId ev)) = Some r"
      "eventIdentityPayload pf (er_event r) = eventIdentityPayload pf ev" "db_write db No_Effect db'"
  | (new) ev where "parseEvent (eq_event input) = Inr ev" "map_of (db_events db) (eventKey input (eventId ev)) = None"
      "er_event r = ev" "record_branch r = branchKey input" "er_queueOrder r = next_order db (branchKey input)" "er_status r = Queued"
      "er_retryCount r = 0" "db_write db (Appended (branchKey input) ev) db'"
  using e
proof (cases rule: enqueue_steps)
  case p: (1 ev draft s)
  note c = p(7)
  note s = read_state_Inr [OF ok p(5)]
  show ?thesis
  proof (cases "map_of (db_events db) (eventKey input (eventId ev))")
    case (Some v)
    with c obtain x where x: "parseEventRecord v = Inr x" "eventIdentityPayload pf (er_event x) = eventIdentityPayload pf ev"
      "r = x" "db' = (if draft = None then db else states_put (with_draft draft s) db)"
      by (auto simp: result_simps)
    have "db_write db No_Effect (states_put (with_draft draft s) db)"
      using s(3) draft_for_Inr [OF p(4)] by (intro put_read_state [OF ok p(5)]) (simp_all add: with_draft_ok)
    with x Some read_event(1) [OF ok Some x(1)] p(2) show ?thesis by (intro old) (auto intro: keep)
  next
    case None
    define rec where "rec = \<lparr>er_rootId = sc_rootId input, er_branchId = sc_branchId input, er_eventId = eventId ev,
               er_queueOrder = os_nextQueueOrder s, er_event = ev, er_status = Queued, er_retryCount = 0,
               er_enqueuedAt = eq_now input, er_updatedAt = eq_now input\<rparr>"
    have k: "record_key rec = eventKey input (eventId ev)" "record_branch rec = branchKey input"
      by (simp_all add: rec_def record_key_def eventKey_def record_branch_def branchKey_def)
    have "r = rec" and db': "db' = states_put (with_draft draft (s \<lparr>os_nextQueueOrder := os_nextQueueOrder s + 1\<rparr>))
        (db \<lparr>db_events := db_events db @ [(eventKey input (eventId ev), rec)]\<rparr>)"
      using c None by (auto simp: Let_def rec_def [symmetric] events_add_def events_put_def k length_update_fresh result_simps split: if_splits)
    have rk: "record_ok rec"
      using parseEvent_Inr [OF p(2)] p(1,3) s(4) by (simp add: record_ok_def rec_def assertScope_def split: if_splits)
    have "db_write db (Appended (record_branch rec) (er_event rec)) db'"
      unfolding db' k(1) [symmetric] using s None k rk draft_for_Inr [OF p(4)]
      by (intro add) (auto simp: rec_def state_key_def [of s] isNonNegativeInteger_def intro!: with_draft_ok branch_state_ok_next)
    then show ?thesis using p(2) None k s(2) \<open>r = rec\<close> by (intro new) (simp_all add: rec_def)
  qed
qed

lemma persist_Inr:
  assumes "diff_outbox_ok db" "persistDiffOutboxBranchDraft input db = Inr (d, db')"
  shows "db_write db No_Effect db'"
  using assms by (auto simp: persistDiffOutboxBranchDraft_def opt_all_def result_simps dest: createBranchDraft_Inr intro!: put_draft)

lemma clear_draft_Inr:
  assumes "diff_outbox_ok db" "clearDiffOutboxBranchDraft scope db = Inr (b, db')"
  shows "db_write db No_Effect db'"
  using assms by (auto simp: clearDiffOutboxBranchDraft_def opt_all_def result_simps intro!: put_draft keep split: if_splits)

lemma clear_if_empty_Inr:
  assumes "diff_outbox_ok db" "clearDiffOutboxBranchDraftIfEmptyForWriter input db = Inr (b, db')"
  shows "db_write db No_Effect db'"
  using assms
  by (auto simp: clearDiffOutboxBranchDraftIfEmptyForWriter_def opt_all_def result_simps intro!: put_draft keep split: if_splits)

lemma clear_if_empty_True:
  assumes "diff_outbox_ok db" "clearDiffOutboxBranchDraftIfEmptyForWriter input db = Inr (True, db')"
  shows "branch_queue db (branchKey input) = [] \<and> branch_queue db' = branch_queue db \<and> draft_at db' (branchKey input) = None"
proof -
  have "queue_range input db = []"
    using assms(2) by (auto simp: clearDiffOutboxBranchDraftIfEmptyForWriter_def result_simps split: if_splits)
  then have "branch_queue db (branchKey input) = []" by (simp add: branch_queue_def queue_range_of [OF assms(1)])
  moreover have "draft_at db' (branchKey input) = None"
    using assms(2) read_state_Inr [OF assms(1), of input]
    by (auto simp: clearDiffOutboxBranchDraftIfEmptyForWriter_def draft_at_def states_put_def result_simps split: if_splits)
  ultimately show ?thesis using db_write_effect [OF clear_if_empty_Inr [OF assms] assms(1)] by simp
qed

lemma discard_Inr:
  assumes ok: "diff_outbox_ok db" and d: "discardDiffOutboxScopeForWriter input db = Inr (b, db')"
  shows "db_write db (if b then Cleared (branchKey input) else No_Effect) db'"
proof (cases b)
  case True
  with d obtain s rs where s: "read_state input db = Inr s" "map_result parseEventRecord (queue_range input db) = Inr rs"
    "db' = states_put (s \<lparr>os_draft := None\<rparr>) (db \<lparr>db_events := fold (\<lambda>r. AList.delete (record_key r)) rs (db_events db)\<rparr>)"
    by (auto simp: discardDiffOutboxScopeForWriter_def result_simps split: if_splits)
  have wf: "events_wf db" using ok by (simp add: diff_outbox_ok_def)
  have "\<forall>r \<in> set (queue_of db (branchKey input)). record_ok r"
    using events_wfD(3) [OF wf] by (blast dest: queue_of_mem [OF ok, THEN iffD1])
  from parse_records_Inr [OF this] s(2) have rs: "rs = queue_of db (branchKey input)" by (simp add: queue_range_of [OF ok])
  have k: "state_key (s \<lparr>os_draft := None\<rparr>) = branchKey input"
    using read_state_Inr(1) [OF ok s(1)] by (simp add: state_key_def)
  have "fst p \<notin> record_key ` set rs \<longleftrightarrow> record_branch (snd p) \<noteq> branchKey input" if "p \<in> set (db_events db)" for p
  proof -
    obtain i r where p: "p = (i, r)" by fastforce
    have r: "map_of (db_events db) i = Some r" using that p by (simp add: map_of_mem_iff [OF events_wfD(1) [OF wf]])
    with events_wfD(2) [OF wf r] show ?thesis
      unfolding rs p by (auto simp: queue_of_mem [OF ok] image_iff dest: record_key_branch)
  qed
  then have "fold (\<lambda>r. AList.delete (record_key r)) rs (db_events db) =
      filter (\<lambda>(i, r). record_branch r \<noteq> state_key (s \<lparr>os_draft := None\<rparr>)) (db_events db)"
    unfolding fold_delete k case_prod_unfold by (intro filter_cong) simp_all
  then show ?thesis
    using clear [of "s \<lparr>os_draft := None\<rparr>" db] read_state_Inr [OF ok s(1)] True
    unfolding s(3) k by (simp add: branch_state_ok_def opt_all_def)
next
  case False
  with d show ?thesis by (auto simp: discardDiffOutboxScopeForWriter_def result_simps intro: keep split: if_splits)
qed

lemma acknowledge_Inr:
  assumes ok: "diff_outbox_ok db" and a: "acknowledgeDiffOutboxEvent identity writer db = Inr (b, db')"
  shows "db_write db (if b then Removed (branchKey identity) (oi_eventId identity) else No_Effect) db'"
proof (cases b)
  case True
  with a obtain v r where v: "map_of (db_events db) (eventKey identity (oi_eventId identity)) = Some v" "parseEventRecord v = Inr r"
    "db' = db \<lparr>db_events := AList.delete (eventKey identity (oi_eventId identity)) (db_events db)\<rparr>"
    by (auto simp: acknowledgeDiffOutboxEvent_def result_simps split: if_splits option.splits)
  from remove [OF v(1)] read_event [OF ok v(1,2)] v(3) True show ?thesis by simp
next
  case False
  with a show ?thesis by (auto simp: acknowledgeDiffOutboxEvent_def result_simps intro: keep split: if_splits option.splits)
qed

lemma events_put_change:
  assumes "diff_outbox_ok db" "map_of (db_events db) (eventKey scope i) = Some v" "parseEventRecord v = Inr r"
    and "record_key r' = record_key r" "er_event r' = er_event r" "er_queueOrder r' = er_queueOrder r" "events_put r' db = Inr db'"
  shows "db_write db No_Effect db'"
  using read_event [OF assms(1-3)] assms(2,4-7) change [of db r r'] by (auto simp: events_put_def split: if_splits)

lemma update_status_Inr:
  assumes "diff_outbox_ok db" "updateDiffOutboxEventStatus input writer db = Inr (x, db')"
  shows "db_write db No_Effect db'"
proof (cases x)
  case (Some r')
  with assms(2) obtain v r where v: "map_of (db_events db) (eventKey input (oi_eventId input)) = Some v" "parseEventRecord v = Inr r"
    "record_key r' = record_key r" "er_event r' = er_event r" "er_queueOrder r' = er_queueOrder r" "events_put r' db = Inr db'"
    by (auto simp: updateDiffOutboxEventStatus_def record_key_def Let_def result_simps split: if_splits option.splits)
  show ?thesis by (rule events_put_change [OF assms(1) v])
next
  case None
  with assms(2) show ?thesis
    by (auto simp: updateDiffOutboxEventStatus_def Let_def result_simps intro: keep split: if_splits option.splits)
qed

lemma block_Inr:
  assumes "diff_outbox_ok db" "blockDiffOutboxEventForWriter input db = Inr (x, db')"
  shows "db_write db No_Effect db'"
proof (cases x)
  case (Some r')
  with assms(2) obtain v r where v: "map_of (db_events db) (eventKey input (oi_eventId input)) = Some v" "parseEventRecord v = Inr r"
    "r' = r \<lparr>er_status := Blocked, er_updatedAt := bl_now input\<rparr>" "events_put r' db = Inr db'"
    by (auto simp: blockDiffOutboxEventForWriter_def nowFor_def Let_def result_simps split: if_splits option.splits)
  show ?thesis by (rule events_put_change [OF assms(1) v(1,2) _ _ _ v(4)]) (simp_all add: v(3) record_key_def)
next
  case None
  with assms(2) show ?thesis
    by (auto simp: blockDiffOutboxEventForWriter_def Let_def result_simps intro: keep split: if_splits option.splits)
qed

lemma put_lease:
  assumes "diff_outbox_ok db" "read_state input db = Inr s" "assertLeaseInput input = Inr u" "leaseExpiresAt now d = Inr t"
  shows "db_write db No_Effect (states_put (s \<lparr>os_lease := Some (lease_of input t)\<rparr>) db)"
  using read_state_Inr [OF assms(1,2)] assms(3,4)
  by (intro put_read_state [OF assms(1,2)])
    (auto simp: state_key_def branch_state_ok_def opt_all_def lease_of_def branchKey_def assertLeaseInput_def leaseExpiresAt_def
      Let_def result_simps split: if_splits)

lemma acquire_Inr:
  assumes "diff_outbox_ok db" "acquireDiffOutboxWriterLease input db = Inr (x, db')"
  shows "db_write db No_Effect db'"
  using assms by (auto simp: acquireDiffOutboxWriterLease_def result_simps intro: put_lease keep split: if_splits)

lemma renew_Inr:
  assumes "diff_outbox_ok db" "renewDiffOutboxWriterLease input db = Inr (x, db')"
  shows "db_write db No_Effect db'"
  using assms by (auto simp: renewDiffOutboxWriterLease_def result_simps intro: put_lease keep split: if_splits)

lemma release_Inr:
  assumes "diff_outbox_ok db" "releaseDiffOutboxWriterLease input db = Inr (b, db')"
  shows "db_write db No_Effect db'"
proof -
  have "db_write db No_Effect (states_put (s \<lparr>os_lease := None\<rparr>) db)" if "read_state input db = Inr s" for s
    using read_state_Inr(3) [OF assms(1) that]
    by (intro put_read_state [OF assms(1) that]) (simp_all add: state_key_def branch_state_ok_def opt_all_def)
  then show ?thesis using assms(2)
    by (auto simp: releaseDiffOutboxWriterLease_def read_state_def result_simps intro: keep split: if_splits option.splits)
qed

end
