(* ===== verification/Client_Outbox_Calls.thy ===== *)
theory Client_Outbox_Calls
  imports Client_Outbox_Queue
begin

text \<open>
  The browser outbox under any sequence of calls. \<open>store_next\<close> is one call on the database: an error aborts its
  transaction. Every call refines an operation on the first-in first-out queues, and a call made on behalf of a
  writer changes nothing unless that writer has the branch's unexpired lease.
\<close>

section \<open>Calls\<close>

datatype store_call =
    Call_Enqueue EnqueueDiffOutboxEventInput
  | Call_Persist_Draft PersistDiffOutboxBranchDraftInput
  | Call_Clear_Draft DiffOutboxScope
  | Call_Clear_If_Empty DiffOutboxWriter
  | Call_Discard DiffOutboxWriter
  | Call_Acknowledge DiffOutboxEventIdentity "DiffOutboxWriter option"
  | Call_Update UpdateDiffOutboxEventStatusInput "DiffOutboxWriter option"
  | Call_Block BlockDiffOutboxEventForWriterInput
  | Call_Acquire DiffOutboxLeaseInput
  | Call_Renew DiffOutboxLeaseInput
  | Call_Release ReleaseDiffOutboxLeaseInput

definition db_after :: "('a \<times> outbox_db) store_result \<Rightarrow> outbox_db \<Rightarrow> outbox_db" where
  "db_after res db = (case res of Inl _ \<Rightarrow> db | Inr (_, db') \<Rightarrow> db')"

fun store_next :: "platform \<Rightarrow> store_call \<Rightarrow> outbox_db \<Rightarrow> outbox_db" where
  "store_next pf (Call_Enqueue input) db = db_after (enqueueDiffOutboxEvent pf input db) db"
| "store_next pf (Call_Persist_Draft input) db = db_after (persistDiffOutboxBranchDraft input db) db"
| "store_next pf (Call_Clear_Draft scope) db = db_after (clearDiffOutboxBranchDraft scope db) db"
| "store_next pf (Call_Clear_If_Empty input) db = db_after (clearDiffOutboxBranchDraftIfEmptyForWriter input db) db"
| "store_next pf (Call_Discard input) db = db_after (discardDiffOutboxScopeForWriter input db) db"
| "store_next pf (Call_Acknowledge identity writer) db = db_after (acknowledgeDiffOutboxEvent identity writer db) db"
| "store_next pf (Call_Update input writer) db = db_after (updateDiffOutboxEventStatus input writer db) db"
| "store_next pf (Call_Block input) db = db_after (blockDiffOutboxEventForWriter input db) db"
| "store_next pf (Call_Acquire input) db = db_after (acquireDiffOutboxWriterLease input db) db"
| "store_next pf (Call_Renew input) db = db_after (renewDiffOutboxWriterLease input db) db"
| "store_next pf (Call_Release input) db = db_after (releaseDiffOutboxWriterLease input db) db"

text \<open>What a call may do to the queues.\<close>

fun call_effects :: "store_call \<Rightarrow> queue_effect set" where
  "call_effects (Call_Enqueue input) =
     (case parseEvent (eq_event input) of Inl _ \<Rightarrow> {No_Effect} | Inr ev \<Rightarrow> {No_Effect, Appended (branchKey input) ev})"
| "call_effects (Call_Discard input) = {No_Effect, Cleared (branchKey input)}"
| "call_effects (Call_Acknowledge identity writer) = {No_Effect, Removed (branchKey identity) (oi_eventId identity)}"
| "call_effects _ = {No_Effect}"

lemma db_after_cases:
  assumes "P db" "\<And>x db'. res = Inr (x, db') \<Longrightarrow> P db'"
  shows "P (db_after res db)"
  using assms by (cases res) (auto simp: db_after_def)

lemma db_after_same: "(\<And>x db'. res = Inr (x, db') \<Longrightarrow> db' = db) \<Longrightarrow> db_after res db = db"
  by (auto simp: db_after_def split: sum.split)

lemma db_after_write: "(\<And>x db'. res = Inr (x, db') \<Longrightarrow> db_write db No_Effect db') \<Longrightarrow> db_write db No_Effect (db_after res db)"
  by (auto simp: db_after_def keep split: sum.split)

lemma store_next_write:
  assumes ok: "diff_outbox_ok db"
  shows "\<exists>l \<in> call_effects c. db_write db l (store_next pf c db)"
proof (cases c)
  case (Call_Enqueue input)
  show ?thesis
  proof (cases "enqueueDiffOutboxEvent pf input db")
    case (Inr p)
    obtain r db' where "p = (r, db')" by fastforce
    with Inr have e: "enqueueDiffOutboxEvent pf input db = Inr (r, db')" by simp
    from ok e show ?thesis by (cases rule: enqueue_Inr) (simp_all add: Call_Enqueue db_after_def e)
  qed (simp add: Call_Enqueue db_after_def keep split: sum.split)
next
  case (Call_Discard input)
  have "\<exists>l \<in> {No_Effect, Cleared (branchKey input)}. db_write db l (db_after (discardDiffOutboxScopeForWriter input db) db)"
  proof (rule db_after_cases)
    fix b db' assume "discardDiffOutboxScopeForWriter input db = Inr (b, db')"
    from discard_Inr [OF ok this] show "\<exists>l \<in> {No_Effect, Cleared (branchKey input)}. db_write db l db'" by (cases b) auto
  qed (use keep in blast)
  with Call_Discard show ?thesis by simp
next
  case (Call_Acknowledge identity writer)
  have "\<exists>l \<in> {No_Effect, Removed (branchKey identity) (oi_eventId identity)}.
      db_write db l (db_after (acknowledgeDiffOutboxEvent identity writer db) db)"
  proof (rule db_after_cases)
    fix b db' assume "acknowledgeDiffOutboxEvent identity writer db = Inr (b, db')"
    from acknowledge_Inr [OF ok this]
    show "\<exists>l \<in> {No_Effect, Removed (branchKey identity) (oi_eventId identity)}. db_write db l db'" by (cases b) auto
  qed (use keep in blast)
  with Call_Acknowledge show ?thesis by simp
qed (auto intro!: db_after_write dest: persist_Inr [OF ok] clear_draft_Inr [OF ok] clear_if_empty_Inr [OF ok] update_status_Inr [OF ok]
    block_Inr [OF ok] acquire_Inr [OF ok] renew_Inr [OF ok] release_Inr [OF ok])

lemma store_next_ok: "diff_outbox_ok db \<Longrightarrow> diff_outbox_ok (store_next pf c db)"
  using store_next_write [of db c pf] db_write_ok by blast

lemma store_next_effect:
  "diff_outbox_ok db \<Longrightarrow> \<exists>l \<in> call_effects c. branch_queue (store_next pf c db) = apply_effect l (branch_queue db)"
  using store_next_write [of db c pf] db_write_effect by blast

lemma store_run_ok: "diff_outbox_ok db \<Longrightarrow> diff_outbox_ok (fold (store_next pf) cs db)"
  by (induction cs arbitrary: db) (simp_all add: store_next_ok)

section \<open>Writer leases\<close>

definition active_lease :: "outbox_db \<Rightarrow> branch_key \<Rightarrow> jstring \<Rightarrow> int \<Rightarrow> bool" where
  "active_lease db k owner now \<longleftrightarrow> (case lease_at db k of None \<Rightarrow> False | Some l \<Rightarrow> wl_ownerId l = owner \<and> wl_expiresAt l > now)"

text \<open>The writer a call is made for: its branch, its owner id and the time of the call.\<close>

fun call_writer :: "store_call \<Rightarrow> (branch_key \<times> jstring \<times> int) option" where
  "call_writer (Call_Enqueue input) = (case eq_ownerId input of
     None \<Rightarrow> None | Some owner \<Rightarrow> if owner = [] then None else Some (branchKey input, owner, eq_now input))"
| "call_writer (Call_Clear_If_Empty w) = Some (branchKey w, rl_ownerId w, wr_now w)"
| "call_writer (Call_Discard w) = Some (branchKey w, rl_ownerId w, wr_now w)"
| "call_writer (Call_Acknowledge identity writer) = map_option (\<lambda>w. (branchKey w, rl_ownerId w, wr_now w)) writer"
| "call_writer (Call_Update input writer) = map_option (\<lambda>w. (branchKey w, rl_ownerId w, wr_now w)) writer"
| "call_writer (Call_Block input) = Some (branchKey input, bl_ownerId input, bl_now input)"
| "call_writer (Call_Renew input) = Some (branchKey input, li_ownerId input, li_now input)"
| "call_writer _ = None"

lemma hasActive_read:
  "diff_outbox_ok db \<Longrightarrow> read_state scope db = Inr s \<Longrightarrow> hasActiveWriterLease s owner now = active_lease db (branchKey scope) owner now"
  by (simp add: hasActiveWriterLease_def active_lease_def read_state_Inr(5))

lemma writer_active_Some:
  assumes "diff_outbox_ok db"
  shows "writer_active (Some w) db = Inr b \<Longrightarrow> b = active_lease db (branchKey w) (rl_ownerId w) (wr_now w)"
  by (auto simp: writer_active_def nowFor_def result_simps hasActive_read [OF assms])

lemma inactive_call:
  assumes ok: "diff_outbox_ok db" and w: "call_writer c = Some (k, owner, now)" and n: "\<not> active_lease db k owner now"
  shows "store_next pf c db = db"
proof -
  note [simp] = nowFor_def
  show ?thesis
  proof (cases c)
    case (Call_Enqueue input)
    with w have o: "eq_ownerId input = Some owner" "owner \<noteq> []" "k = branchKey input" "now = eq_now input"
      by (auto split: option.splits if_splits)
    have False if "enqueueDiffOutboxEvent pf input db = Inr (r, db')" for r db'
      using that by (rule enqueue_steps) (use n o hasActive_read [OF ok] in auto)
    with Call_Enqueue show ?thesis by (auto simp: db_after_def split: sum.splits)
  next
    case (Call_Clear_If_Empty input)
    with w n show ?thesis unfolding Call_Clear_If_Empty store_next.simps
      by (intro db_after_same) (auto simp: clearDiffOutboxBranchDraftIfEmptyForWriter_def result_simps hasActive_read [OF ok])
  next
    case (Call_Discard input)
    with w n show ?thesis unfolding Call_Discard store_next.simps
      by (intro db_after_same) (auto simp: discardDiffOutboxScopeForWriter_def result_simps hasActive_read [OF ok])
  next
    case (Call_Acknowledge identity writer)
    with w n writer_active_Some [OF ok] show ?thesis unfolding Call_Acknowledge store_next.simps
      by (intro db_after_same) (auto simp: acknowledgeDiffOutboxEvent_def result_simps split: if_splits)
  next
    case (Call_Update input writer)
    with w n writer_active_Some [OF ok] show ?thesis unfolding Call_Update store_next.simps
      by (intro db_after_same) (auto simp: updateDiffOutboxEventStatus_def result_simps split: if_splits)
  next
    case (Call_Block input)
    with w n show ?thesis unfolding Call_Block store_next.simps
      by (intro db_after_same) (auto simp: blockDiffOutboxEventForWriter_def result_simps hasActive_read [OF ok])
  next
    case (Call_Renew input)
    with w n show ?thesis unfolding Call_Renew store_next.simps
      by (intro db_after_same) (auto simp: renewDiffOutboxWriterLease_def result_simps hasActive_read [OF ok])
  qed (use w in simp_all)
qed

lemma lease_at_put: "lease_at (states_put s db) k = (if k = state_key s then os_lease s else lease_at db k)"
  by (simp add: lease_at_def states_put_def state_key_def)

lemma acquired_lease:
  assumes ok: "diff_outbox_ok db" and a: "acquireDiffOutboxWriterLease input db = Inr (Some l, db')"
  shows "lease_at db' (branchKey input) = Some l" "wl_ownerId l = li_ownerId input"
    "wl_expiresAt l = li_now input + li_leaseDurationMs input"
    "li_force input \<or> \<not> (\<exists>owner. owner \<noteq> li_ownerId input \<and> active_lease db (branchKey input) owner (li_now input))"
proof -
  from a obtain s t where s: "read_state input db = Inr s" "leaseExpiresAt (li_now input) (li_leaseDurationMs input) = Inr t"
    "l = lease_of input t" "db' = states_put (s \<lparr>os_lease := Some l\<rparr>) db"
    "\<not> (case os_lease s of None \<Rightarrow> False
           | Some lease \<Rightarrow> wl_ownerId lease \<noteq> li_ownerId input \<and> wl_expiresAt lease > li_now input \<and> \<not> li_force input)"
    by (auto simp: acquireDiffOutboxWriterLease_def nowFor_def result_simps split: if_splits)
  show "lease_at db' (branchKey input) = Some l" using read_state_Inr(1) [OF ok s(1)] by (simp add: s(4) lease_at_put state_key_def)
  show "wl_ownerId l = li_ownerId input" "wl_expiresAt l = li_now input + li_leaseDurationMs input"
    using s(2) by (auto simp: s(3) lease_of_def leaseExpiresAt_def Let_def split: if_splits)
  show "li_force input \<or> \<not> (\<exists>owner. owner \<noteq> li_ownerId input \<and> active_lease db (branchKey input) owner (li_now input))"
    using s(5) read_state_Inr(5) [OF ok s(1)] by (auto simp: active_lease_def split: option.splits)
qed

end
