(* ===== verification/Client_Drain.thy ===== *)
theory Client_Drain
  imports Client_Outbox_Calls Plane_Steps
begin

text \<open>
  The outbox service of the browser: \<^verbatim>\<open>src/lib/diff/outbox/service.ts\<close>.

  \<open>prepare\<close> makes the immutable event, \<open>enqueue\<close> queues it, \<open>classifyDiffOutboxError\<close> decides what a failed send means.
  \<open>drainScope\<close> is an asynchronous loop: \<open>drain_point\<close> says at which wait it is and what it holds there,
  \<open>drain_step\<close> runs it from one wait to the next when the wait ends with a \<open>drain_event\<close>. The transport's answers,
  the answer of \<^verbatim>\<open>canDrain\<close>, the clock and the failures of the browser's database are such events, so nothing
  is assumed of them.
\<close>

section \<open>Failed sends\<close>

text \<open>A property of a thrown value: absent, a string, an integral number, or anything else.\<close>

datatype error_field = Absent | String_Field jstring | Number_Field int | Other_Field

datatype thrown_value = Not_Object | Thrown_Object (thrown_status: error_field) (thrown_code: error_field)

datatype DiffOutboxErrorClassification = Class_Transport | Class_Unknown | Class_Transient | Class_Blocked

definition TERMINAL_ERROR_CODES :: "jstring list" where
  "TERMINAL_ERROR_CODES = [js ''diff_predecessor_mismatch'', js ''diff_event_id_reused'', js ''diff_event_identity_invalid'']"

definition TRANSIENT_ERROR_CODES :: "jstring list" where
  "TRANSIENT_ERROR_CODES = [js ''branch_lock_timeout'', js ''branch_lock_lost_before_commit'', js ''timeout'', js ''timed_out'',
     js ''rate_limited'', js ''temporarily_unavailable'', js ''service_unavailable'']"

definition UNKNOWN_ACKNOWLEDGEMENT_CODE :: jstring where
  "UNKNOWN_ACKNOWLEDGEMENT_CODE = js ''diff_outbox_acknowledgement_unknown''"

definition classify_code :: "error_field \<Rightarrow> DiffOutboxErrorClassification option" where
  "classify_code code = (case code of
     String_Field c \<Rightarrow>
       if c \<in> set TERMINAL_ERROR_CODES then Some Class_Blocked
       else if c = UNKNOWN_ACKNOWLEDGEMENT_CODE then Some Class_Unknown
       else if c \<in> set TRANSIENT_ERROR_CODES then Some Class_Transient else None
   | _ \<Rightarrow> None)"

definition classify_status :: "error_field \<Rightarrow> DiffOutboxErrorClassification option" where
  "classify_status status = (case status of
     Number_Field n \<Rightarrow>
       if \<not> is_safe_integer n then None
       else if 400 \<le> n \<and> n < 500 \<and> n \<noteq> 408 \<and> n \<noteq> 429 then Some Class_Blocked else Some Class_Transient
   | _ \<Rightarrow> None)"

definition classifyDiffOutboxError :: "thrown_value \<Rightarrow> DiffOutboxErrorClassification" where
  "classifyDiffOutboxError error = (case error of
     Not_Object \<Rightarrow> Class_Transport
   | Thrown_Object status code \<Rightarrow>
       case classify_code code of
         Some c \<Rightarrow> c
       | None \<Rightarrow>
           case classify_status status of
             Some c \<Rightarrow> c
           | None \<Rightarrow> if code = Absent \<and> status = Absent then Class_Transport else Class_Unknown)"

text \<open>Every error the store raises is an \<^verbatim>\<open>Error\<close> without a status or a code.\<close>

definition store_thrown :: thrown_value where
  "store_thrown = Thrown_Object Absent Absent"

section \<open>Preparing and queueing an event\<close>

record PrepareDiffOutboxEventInput =
  pi_rootId :: jstring
  pi_clientId :: jstring
  pi_ops :: "DropDiffOp list"
  pi_metadata :: "DropDiffEventMetadata option"
  pi_branchHeadSeq :: int
  pi_eventId :: "jstring option"
  pi_createdAt :: "int option"

record SubmitDiffOutboxEventInput = PrepareDiffOutboxEventInput +
  si_branchId :: jstring
  si_draft :: "DiffOutboxBranchDraftInput option"
  si_ownerId :: "jstring option"

definition isBranchHeadSeq :: "int \<Rightarrow> bool" where
  "isBranchHeadSeq n \<longleftrightarrow> is_safe_integer n \<and> - 1 \<le> n"

definition no_metadata :: DropDiffEventMetadata where
  "no_metadata = \<lparr>meta_kind = None, meta_intent = None, meta_pluginId = None, meta_args = None, meta_batchId = None,
     meta_batchIndex = None, meta_parentEventId = None, meta_followsSeq = None, meta_labels = None, meta_confidence = None,
     meta_resultRef = None, meta_policyDecisionRef = None\<rparr>"

text \<open>The generated id and the clock are arguments, read only when the input does not bring its own.\<close>

definition prepare :: "'a PrepareDiffOutboxEventInput_scheme \<Rightarrow> jstring \<Rightarrow> int \<Rightarrow> DropDiffEvent store_result" where
  "prepare input createdId now =
     (if \<not> isBranchHeadSeq (pi_branchHeadSeq input)
      then Inl (Store_Error ''Diff outbox branchHeadSeq must be an integer greater than or equal to -1.'')
      else if (pi_eventId input = None) \<noteq> (pi_createdAt input = None)
      then Inl (Store_Error ''Diff outbox retries must provide eventId and createdAt together.'')
      else
        let e = \<lparr>eventId = (case pi_eventId input of None \<Rightarrow> createdId | Some i \<Rightarrow> i), event_seq = - 1, dropId = pi_rootId input,
              sourceClientId = pi_clientId input, event_createdAt = (case pi_createdAt input of None \<Rightarrow> now | Some t \<Rightarrow> t),
              event_snapshotId = None, event_ops = pi_ops input,
              event_metadata = Some ((case pi_metadata input of None \<Rightarrow> no_metadata | Some m \<Rightarrow> m)
                \<lparr>meta_followsSeq := Some (pi_branchHeadSeq input)\<rparr>)\<rparr>
        in case DropDiffEventSchema (event_json e) of
             None \<Rightarrow> Inl (Store_Error ''Invalid diff outbox event.'') | Some parsed \<Rightarrow> Inr parsed)"

definition enqueue_input :: "SubmitDiffOutboxEventInput \<Rightarrow> DropDiffEvent \<Rightarrow> int \<Rightarrow> EnqueueDiffOutboxEventInput" where
  "enqueue_input input e now = \<lparr>sc_rootId = pi_rootId input, sc_branchId = si_branchId input, eq_event = e,
     eq_draft = si_draft input, eq_ownerId = si_ownerId input, eq_now = now\<rparr>"

definition enqueue ::
  "platform \<Rightarrow> SubmitDiffOutboxEventInput \<Rightarrow> jstring \<Rightarrow> int \<Rightarrow> int \<Rightarrow> outbox_db \<Rightarrow> (DiffOutboxEventRecord \<times> outbox_db) store_result" where
  "enqueue pf input createdId createdNow now db =
     and_then (prepare input createdId createdNow) (\<lambda>e. enqueueDiffOutboxEvent pf (enqueue_input input e now) db)"

section \<open>Draining a branch\<close>

record CreateDiffOutboxOptions =
  co_canDrain :: bool
  co_writerId :: "jstring option"

datatype DiffOutboxDrainStatus = Drain_Empty | Drain_Drained | Drain_Retry | Drain_Blocked

record DiffOutboxDrainResult =
  dd_status :: DiffOutboxDrainStatus
  dd_sentCount :: nat
  dd_record :: "DiffOutboxEventRecord option"
  dd_retryClassification :: "DiffOutboxErrorClassification option"

definition writerId :: "CreateDiffOutboxOptions \<Rightarrow> jstring option" where
  "writerId options = (case co_writerId options of None \<Rightarrow> None | Some w \<Rightarrow> if w = [] then None else Some w)"

definition writer_at :: "CreateDiffOutboxOptions \<Rightarrow> DiffOutboxScope \<Rightarrow> int \<Rightarrow> DiffOutboxWriter option" where
  "writer_at options scope now = map_option (\<lambda>w. \<lparr>sc_rootId = sc_rootId scope, sc_branchId = sc_branchId scope, rl_ownerId = w,
     wr_now = now\<rparr>) (writerId options)"

definition hasMatchingAcknowledgement :: "DropDiffAppendResponse option \<Rightarrow> DiffOutboxScope \<Rightarrow> jstring \<Rightarrow> bool" where
  "hasMatchingAcknowledgement response scope i = (case response of None \<Rightarrow> False
     | Some v \<Rightarrow> hasConfirmedDropDiffAppendReceipt v (Some (sc_branchId scope)) [i])"

text \<open>
  The waits of \<^verbatim>\<open>drainScope\<close>: for the queue, for the draft to be cleared, for \<^verbatim>\<open>canDrain\<close>, for the transport, for the retry mark
  after an answer that confirms nothing, for the removal of a confirmed event, for the mark after a failure; or it has ended.
\<close>

datatype drain_point =
    Listing nat
  | Clearing nat
  | Asking nat DiffOutboxEventRecord
  | Sending nat DiffOutboxEventRecord
  | Marking nat DiffOutboxEventRecord
  | Confirming nat DiffOutboxEventRecord
  | Failing nat DiffOutboxEventRecord DiffOutboxErrorClassification
  | Returned DiffOutboxDrainResult
  | Rejected

text \<open>
  How a wait ends: the transaction ran, with the values the clock had when its call was made; it failed in the browser; \<^verbatim>\<open>canDrain\<close>
  answered or failed; the transport answered, \<open>None\<close> standing for a value that is not an append response, or failed.
\<close>

datatype drain_event =
    Db_Done int int
  | Db_Failed thrown_value
  | Drain_Allowed bool
  | Drain_Check_Failed
  | Answered "DropDiffAppendResponse option"
  | Send_Failed thrown_value

definition lost_lease :: "nat \<Rightarrow> DiffOutboxEventRecord option \<Rightarrow> drain_point" where
  "lost_lease n r = Returned \<lparr>dd_status = Drain_Retry, dd_sentCount = n, dd_record = r, dd_retryClassification = Some Class_Transport\<rparr>"

definition status_input :: "DiffOutboxScope \<Rightarrow> DiffOutboxEventRecord \<Rightarrow> DiffOutboxEventStatus \<Rightarrow> int \<Rightarrow> UpdateDiffOutboxEventStatusInput" where
  "status_input scope r status now = \<lparr>sc_rootId = sc_rootId scope, sc_branchId = sc_branchId scope, oi_eventId = er_eventId r,
     us_status = status, us_now = now\<rparr>"

definition after_listing :: "CreateDiffOutboxOptions \<Rightarrow> nat \<Rightarrow> DiffOutboxEventRecord list \<Rightarrow> drain_point" where
  "after_listing options n rs = (case rs of
     [] \<Rightarrow> Clearing n
   | r # _ \<Rightarrow>
       if er_status r = Blocked
       then Returned \<lparr>dd_status = Drain_Blocked, dd_sentCount = n, dd_record = Some r, dd_retryClassification = None\<rparr>
       else if co_canDrain options then Asking n r else Sending n r)"

definition finish_drain :: "CreateDiffOutboxOptions \<Rightarrow> nat \<Rightarrow> bool \<Rightarrow> drain_point" where
  "finish_drain options n cleared =
     (if writerId options \<noteq> None \<and> \<not> cleared then lost_lease n None
      else Returned \<lparr>dd_status = (if n = 0 then Drain_Empty else Drain_Drained), dd_sentCount = n, dd_record = None,
        dd_retryClassification = None\<rparr>)"

definition clear_step :: "CreateDiffOutboxOptions \<Rightarrow> DiffOutboxScope \<Rightarrow> int \<Rightarrow> outbox_db \<Rightarrow> (bool \<times> outbox_db) store_result" where
  "clear_step options scope now db = (case writer_at options scope now of
     Some w \<Rightarrow> clearDiffOutboxBranchDraftIfEmptyForWriter w db | None \<Rightarrow> clearDiffOutboxBranchDraft scope db)"

text \<open>What follows a status update: the marked record, or the record the drain holds.\<close>

definition after_mark ::
  "CreateDiffOutboxOptions \<Rightarrow> nat \<Rightarrow> DiffOutboxEventRecord \<Rightarrow> DiffOutboxDrainStatus \<Rightarrow> DiffOutboxErrorClassification option
   \<Rightarrow> DiffOutboxEventRecord option \<Rightarrow> drain_point" where
  "after_mark options n r status c updated =
     (if updated = None \<and> writerId options \<noteq> None then lost_lease n (Some r)
      else Returned \<lparr>dd_status = status, dd_sentCount = n, dd_record = Some (case updated of None \<Rightarrow> r | Some u \<Rightarrow> u),
        dd_retryClassification = c\<rparr>)"

definition failure_status :: "DiffOutboxErrorClassification \<Rightarrow> DiffOutboxEventStatus" where
  "failure_status c = (if c = Class_Blocked then Blocked else Retry)"

definition after_failure_mark ::
  "CreateDiffOutboxOptions \<Rightarrow> nat \<Rightarrow> DiffOutboxEventRecord \<Rightarrow> DiffOutboxErrorClassification \<Rightarrow> DiffOutboxEventRecord option \<Rightarrow> drain_point" where
  "after_failure_mark options n r c updated =
     (if c = Class_Blocked then after_mark options n r Drain_Blocked None updated
      else after_mark options n r Drain_Retry (Some c) updated)"

definition caught :: "nat \<Rightarrow> DiffOutboxEventRecord \<Rightarrow> thrown_value \<Rightarrow> drain_point" where
  "caught n r error = Failing n r (classifyDiffOutboxError error)"

fun drain_step ::
  "CreateDiffOutboxOptions \<Rightarrow> DiffOutboxScope \<Rightarrow> drain_point \<Rightarrow> drain_event \<Rightarrow> outbox_db \<Rightarrow> (drain_point \<times> outbox_db) option" where
  "drain_step options scope (Listing n) (Db_Done t t') db = (case listDiffOutboxEvents scope db of
     Inl _ \<Rightarrow> Some (Rejected, db) | Inr rs \<Rightarrow> Some (after_listing options n rs, db))"
| "drain_step options scope (Listing n) (Db_Failed e) db = Some (Rejected, db)"
| "drain_step options scope (Clearing n) (Db_Done t t') db = (case clear_step options scope t db of
     Inl _ \<Rightarrow> Some (Rejected, db) | Inr (cleared, db') \<Rightarrow> Some (finish_drain options n cleared, db'))"
| "drain_step options scope (Clearing n) (Db_Failed e) db = Some (Rejected, db)"
| "drain_step options scope (Asking n r) (Drain_Allowed b) db = Some (if b then Sending n r else lost_lease n (Some r), db)"
| "drain_step options scope (Asking n r) Drain_Check_Failed db = Some (Rejected, db)"
| "drain_step options scope (Sending n r) (Answered response) db =
     Some (if hasMatchingAcknowledgement response scope (er_eventId r) then Confirming n r else Marking n r, db)"
| "drain_step options scope (Sending n r) (Send_Failed e) db = Some (caught n r e, db)"
| "drain_step options scope (Marking n r) (Db_Done t t') db =
     (case updateDiffOutboxEventStatus (status_input scope r Retry t) (writer_at options scope t') db of
        Inl _ \<Rightarrow> Some (caught n r store_thrown, db)
      | Inr (updated, db') \<Rightarrow> Some (after_mark options n r Drain_Retry (Some Class_Unknown) updated, db'))"
| "drain_step options scope (Marking n r) (Db_Failed e) db = Some (caught n r e, db)"
| "drain_step options scope (Confirming n r) (Db_Done t t') db =
     (case acknowledgeDiffOutboxEvent \<lparr>sc_rootId = sc_rootId scope, sc_branchId = sc_branchId scope, oi_eventId = er_eventId r\<rparr>
            (writer_at options scope t) db of
        Inl _ \<Rightarrow> Some (caught n r store_thrown, db)
      | Inr (removed, db') \<Rightarrow>
          Some (if \<not> removed \<and> writerId options \<noteq> None then lost_lease n (Some r) else Listing (n + 1), db'))"
| "drain_step options scope (Confirming n r) (Db_Failed e) db = Some (caught n r e, db)"
| "drain_step options scope (Failing n r c) (Db_Done t t') db =
     (case updateDiffOutboxEventStatus (status_input scope r (failure_status c) t) (writer_at options scope t') db of
        Inl _ \<Rightarrow> Some (Rejected, db)
      | Inr (updated, db') \<Rightarrow> Some (after_failure_mark options n r c updated, db'))"
| "drain_step options scope (Failing n r c) (Db_Failed e) db = Some (Rejected, db)"
| "drain_step options scope pt e db = None"

end
