(* ===== verification/Client_Sync.thy ===== *)
theory Client_Sync
  imports Client_Drain
begin

text \<open>
  Several tabs at work on one outbox. A system is the shared database, the drains in progress (a tab starts one, a closed tab takes
  its own with it) and the history of what was queued, confirmed by the server and discarded. \<open>outbox_step\<close> interleaves the
  transactions of all tabs in any order. The theory shows that no queued edit is lost and that events go out in the order of their
  branch's queue.
\<close>

section \<open>Systems\<close>

datatype happening =
    Event_Queued branch_key DropDiffEvent int
  | Event_Confirmed branch_key jstring
  | Branch_Discarded branch_key

type_synonym drain = "CreateDiffOutboxOptions \<times> DiffOutboxScope \<times> drain_point"

record outbox_system =
  ob_db :: outbox_db
  ob_drains :: "drain list"
  ob_log :: "happening list"

fun call_log :: "platform \<Rightarrow> store_call \<Rightarrow> outbox_db \<Rightarrow> happening list" where
  "call_log pf (Call_Enqueue input) db = (case enqueueDiffOutboxEvent pf input db of
     Inl _ \<Rightarrow> []
   | Inr (r, _) \<Rightarrow>
       if map_of (db_events db) (record_key r) = None then [Event_Queued (branchKey input) (er_event r) (er_queueOrder r)] else [])"
| "call_log pf (Call_Discard input) db = (case discardDiffOutboxScopeForWriter input db of
     Inl _ \<Rightarrow> [] | Inr (discarded, _) \<Rightarrow> if discarded then [Branch_Discarded (branchKey input)] else [])"
| "call_log pf _ db = []"

fun send_log :: "DiffOutboxScope \<Rightarrow> drain_point \<Rightarrow> drain_event \<Rightarrow> happening list" where
  "send_log scope (Sending n r) (Answered response) =
     (if hasMatchingAcknowledgement response scope (er_eventId r) then [Event_Confirmed (branchKey scope) (er_eventId r)] else [])"
| "send_log scope _ _ = []"

fun is_acknowledge :: "store_call \<Rightarrow> bool" where
  "is_acknowledge (Call_Acknowledge _ _) = True"
| "is_acknowledge _ = False"

definition outbox_init :: "outbox_system \<Rightarrow> bool" where
  "outbox_init s \<longleftrightarrow> s = \<lparr>ob_db = empty_db, ob_drains = [], ob_log = []\<rparr>"

text \<open>
  Only a drain acknowledges events; every other call of the store may come at any time from any tab. What append responses may reach a
  drain that sent an event of a branch is left to \<open>net\<close>; values that are no append response, failures and silence may always come.
\<close>

type_synonym network = "branch_key \<Rightarrow> jstring \<Rightarrow> DropDiffAppendResponse \<Rightarrow> bool"

fun deliverable :: "network \<Rightarrow> DiffOutboxScope \<Rightarrow> drain_point \<Rightarrow> drain_event \<Rightarrow> bool" where
  "deliverable net scope (Sending n r) (Answered (Some v)) = net (branchKey scope) (er_eventId r) v"
| "deliverable net scope _ _ = True"

definition any_answer :: network where
  "any_answer k i v \<longleftrightarrow> True"

inductive outbox_step :: "platform \<Rightarrow> network \<Rightarrow> outbox_system \<Rightarrow> outbox_system \<Rightarrow> bool" for pf net where
  calls: "\<not> is_acknowledge c \<Longrightarrow>
    outbox_step pf net s (s \<lparr>ob_db := store_next pf c (ob_db s), ob_log := ob_log s @ call_log pf c (ob_db s)\<rparr>)"
| starts: "outbox_step pf net s (s \<lparr>ob_drains := (options, scope, Listing 0) # ob_drains s\<rparr>)"
| advances: "ob_drains s = ds @ (options, scope, pt) # ds' \<Longrightarrow> deliverable net scope pt e \<Longrightarrow> drain_step options scope pt e (ob_db s) = Some (pt', db') \<Longrightarrow>
    outbox_step pf net s (s \<lparr>ob_db := db', ob_drains := ds @ (options, scope, pt') # ds', ob_log := ob_log s @ send_log scope pt e\<rparr>)"
| stops: "ob_drains s = ds @ d # ds' \<Longrightarrow> outbox_step pf net s (s \<lparr>ob_drains := ds @ ds'\<rparr>)"

section \<open>Writes and queued events\<close>

text \<open>An entry of a queue: the event and its place in the order.\<close>

definition queued :: "outbox_db \<Rightarrow> branch_key \<Rightarrow> DropDiffEvent \<Rightarrow> int \<Rightarrow> bool" where
  "queued db k ev n \<longleftrightarrow> (\<exists>r \<in> set (queue_of db k). er_event r = ev \<and> er_queueOrder r = n)"

lemma queued_iff:
  assumes "diff_outbox_ok db"
  shows "queued db k ev n \<longleftrightarrow>
    (\<exists>r. map_of (db_events db) (record_key r) = Some r \<and> record_branch r = k \<and> er_event r = ev \<and> er_queueOrder r = n)"
  by (auto simp: queued_def queue_of_mem [OF assms])

lemma db_write_next: "db_write db l db' \<Longrightarrow> next_order db k \<le> next_order db' k"
  by (cases rule: db_write.cases) auto

lemma db_write_queued_back:
  assumes "db_write db l db'" "diff_outbox_ok db" "queued db' k ev n"
  shows "queued db k ev n \<or> n = next_order db k \<and> l = Appended k ev"
  using assms(1)
proof cases
  case (add r s)
  with assms(2,3) show ?thesis by (auto simp: queued_def queue_of_add split: if_splits)
next
  case (change r r')
  with assms(2,3) show ?thesis by (auto simp: queued_def queue_of_change split: if_splits)
next
  case (remove i r)
  with assms(3) show ?thesis by (force simp: queued_def queue_of_def AList.delete_eq)
next
  case (clear s)
  with assms(3) show ?thesis by (force simp: queued_def queue_of_def)
qed (use assms(3) in \<open>simp_all add: queued_def\<close>)

lemma db_write_queued:
  assumes "db_write db l db'" "diff_outbox_ok db" "queued db k ev n"
  shows "queued db' k ev n \<or> l = Removed k (eventId ev) \<or> l = Cleared k"
  using assms(1)
proof cases
  case (add r s)
  with assms(2,3) show ?thesis by (auto simp: queued_def queue_of_add)
next
  case (change r r')
  with assms(2,3) show ?thesis by (auto simp: queued_def queue_of_change)
next
  case (remove i r)
  from assms(3) obtain x where x: "x \<in> set (queue_of db k)" "er_event x = ev" "er_queueOrder x = n" by (auto simp: queued_def)
  have wf: "events_wf db" using assms(2) by (simp add: diff_outbox_ok_def)
  show ?thesis
  proof (cases "x = r")
    case True
    then show ?thesis using x events_wfD(3) [OF wf remove(3)] by (auto simp: remove queue_of_mem [OF assms(2)] record_ok_def)
  next
    case False
    have "x \<in> set (queue_of db' k)"
    proof -
      from x(1) have m: "map_of (db_events db) (record_key x) = Some x" "record_branch x = k" by (simp_all add: queue_of_mem [OF assms(2)])
      moreover from m(1) remove(3) False have "record_key x \<noteq> i" by auto
      ultimately show ?thesis
        unfolding queue_of_mem [OF db_write_ok [OF assms(1,2)]] by (simp add: remove(2) delete_conv')
    qed
    with x show ?thesis by (auto simp: queued_def)
  qed
next
  case (clear s)
  from assms(3) obtain x where x: "x \<in> set (queue_of db k)" "er_event x = ev" "er_queueOrder x = n" by (auto simp: queued_def)
  have "queue_of db' k = filter (\<lambda>r. record_branch r \<noteq> state_key s) (queue_of db k)"
    unfolding clear(2) queue_of_put_state by (intro queue_of_filter) auto
  then show ?thesis using x by (auto simp: clear(1) queued_def queue_of_mem [OF assms(2)])
qed (use assms(3) in \<open>simp_all add: queued_def\<close>)

lemma queued_below_next: "diff_outbox_ok db \<Longrightarrow> queued db k ev n \<Longrightarrow> n < next_order db k"
proof -
  assume ok: "diff_outbox_ok db" and q: "queued db k ev n"
  then obtain r where "map_of (db_events db) (record_key r) = Some r" "record_branch r = k" "er_queueOrder r = n"
    by (auto simp: queued_iff)
  with events_wfD(4) [of db "record_key r" r] ok show ?thesis by (auto simp: diff_outbox_ok_def)
qed

section \<open>What a drain does to the database\<close>

lemma update_write:
  "diff_outbox_ok db \<Longrightarrow> updateDiffOutboxEventStatus input writer db = Inr p \<Longrightarrow> db_write db No_Effect (snd p)"
  using update_status_Inr [of db input writer "fst p" "snd p"] by simp

lemma clear_step_write:
  assumes "diff_outbox_ok db" "clear_step options scope now db = Inr (b, db')"
  shows "db_write db No_Effect db'"
  using assms clear_draft_Inr clear_if_empty_Inr by (auto simp: clear_step_def split: option.splits)

fun drain_effects :: "DiffOutboxScope \<Rightarrow> drain_point \<Rightarrow> queue_effect set" where
  "drain_effects scope (Confirming n r) = {No_Effect, Removed (branchKey scope) (er_eventId r)}"
| "drain_effects scope _ = {No_Effect}"

lemma drain_step_write:
  assumes ok: "diff_outbox_ok db" and d: "drain_step options scope pt e db = Some (pt', db')"
  shows "\<exists>l \<in> drain_effects scope pt. db_write db l db'"
proof (cases "\<exists>n r. pt = Confirming n r")
  case True
  then obtain n r where pt: "pt = Confirming n r" by blast
  let ?i = "\<lparr>sc_rootId = sc_rootId scope, sc_branchId = sc_branchId scope, oi_eventId = er_eventId r\<rparr>"
  have k: "branchKey ?i = branchKey scope" by (simp add: branchKey_def)
  show ?thesis
  proof (cases "\<exists>t t'. e = Db_Done t t'")
    case True
    then obtain t t' where e: "e = Db_Done t t'" by blast
    show ?thesis
    proof (cases "acknowledgeDiffOutboxEvent ?i (writer_at options scope t) db")
      case (Inr p)
      obtain b x where p: "p = (b, x)" by fastforce
      with d Inr have "db' = x" by (simp add: pt e)
      with acknowledge_Inr [OF ok, of ?i _ b x] Inr p k show ?thesis by (cases b) (auto simp: pt)
    qed (use d keep in \<open>auto simp: pt e\<close>)
  next
    case False
    with d keep show ?thesis by (cases e) (auto simp: pt)
  qed
next
  case False
  have "db_write db No_Effect db'"
    using d False update_write [OF ok] clear_step_write [OF ok] keep
    by (cases "(options, scope, pt, e, db)" rule: drain_step.cases) (auto split: sum.splits prod.splits)
  moreover have "drain_effects scope pt = {No_Effect}" using False by (cases pt) auto
  ultimately show ?thesis by simp
qed

section \<open>The invariant\<close>

fun held :: "drain_point \<Rightarrow> DiffOutboxEventRecord option" where
  "held (Asking n r) = Some r"
| "held (Sending n r) = Some r"
| "held (Marking n r) = Some r"
| "held (Confirming n r) = Some r"
| "held (Failing n r c) = Some r"
| "held _ = None"

text \<open>What a drain holds was the head of its queue and has stayed ahead of everything queued.\<close>

definition at_head :: "outbox_db \<Rightarrow> branch_key \<Rightarrow> DiffOutboxEventRecord \<Rightarrow> bool" where
  "at_head db k r \<longleftrightarrow> record_ok r \<and> record_branch r = k \<and> er_queueOrder r < next_order db k \<and>
     (\<forall>ev n. queued db k ev n \<longrightarrow> er_queueOrder r \<le> n)"

fun drain_ok :: "outbox_db \<Rightarrow> happening list \<Rightarrow> drain \<Rightarrow> bool" where
  "drain_ok db hist (options, scope, pt) \<longleftrightarrow>
     (\<forall>r. held pt = Some r \<longrightarrow> at_head db (branchKey scope) r) \<and>
     (\<forall>n r. pt = Confirming n r \<longrightarrow> Event_Confirmed (branchKey scope) (er_eventId r) \<in> set hist)"

definition history_ok :: "outbox_db \<Rightarrow> happening list \<Rightarrow> bool" where
  "history_ok db hist \<longleftrightarrow> (\<forall>xs k ev n ys. hist = xs @ Event_Queued k ev n # ys \<longrightarrow>
     queued db k ev n \<or> Event_Confirmed k (eventId ev) \<in> set hist \<or> Branch_Discarded k \<in> set ys)"

definition sync_ok :: "outbox_system \<Rightarrow> bool" where
  "sync_ok s \<longleftrightarrow> diff_outbox_ok (ob_db s) \<and> history_ok (ob_db s) (ob_log s) \<and> (\<forall>d \<in> set (ob_drains s). drain_ok (ob_db s) (ob_log s) d)"

lemma at_head_write:
  assumes "db_write db l db'" "diff_outbox_ok db" "at_head db k r"
  shows "at_head db' k r"
  using assms(3) db_write_next [OF assms(1), of k] db_write_queued_back [OF assms(1,2)]
  unfolding at_head_def by fastforce

lemma drain_ok_write:
  assumes "db_write db l db'" "diff_outbox_ok db" "drain_ok db hist d"
  shows "drain_ok db' (hist @ zs) d"
  using assms(3) at_head_write [OF assms(1,2)] by (cases d) auto

text \<open>What must be logged for an effect, and what a logged event must show for itself.\<close>

definition accounts :: "outbox_db \<Rightarrow> happening list \<Rightarrow> queue_effect \<Rightarrow> happening list \<Rightarrow> bool" where
  "accounts db' hist l zs \<longleftrightarrow> (\<forall>k i. l = Removed k i \<longrightarrow> Event_Confirmed k i \<in> set (hist @ zs)) \<and>
     (\<forall>k. l = Cleared k \<longrightarrow> Branch_Discarded k \<in> set zs) \<and> (\<forall>k ev n. Event_Queued k ev n \<in> set zs \<longrightarrow> queued db' k ev n)"

lemma history_write:
  assumes w: "db_write db l db'" and ok: "diff_outbox_ok db" and h: "history_ok db hist" and a: "accounts db' hist l zs"
  shows "history_ok db' (hist @ zs)"
  unfolding history_ok_def
proof (intro allI impI)
  fix xs k ev n ys assume eq: "hist @ zs = xs @ Event_Queued k ev n # ys"
  then consider (old) us where "hist = xs @ Event_Queued k ev n # us" "ys = us @ zs" | (new) "Event_Queued k ev n \<in> set zs"
    by (auto simp: append_eq_append_conv2 append_eq_Cons_conv)
  then show "queued db' k ev n \<or> Event_Confirmed k (eventId ev) \<in> set (hist @ zs) \<or> Branch_Discarded k \<in> set ys"
  proof cases
    case old
    with h consider "queued db k ev n" | "Event_Confirmed k (eventId ev) \<in> set hist" | "Branch_Discarded k \<in> set us"
      unfolding history_ok_def by blast
    then show ?thesis
    proof cases
      case 1
      from db_write_queued [OF w ok 1] show ?thesis
      proof (elim disjE)
        assume "l = Removed k (eventId ev)"
        with a show ?thesis unfolding accounts_def by blast
      next
        assume "l = Cleared k"
        with a have "Branch_Discarded k \<in> set zs" unfolding accounts_def by blast
        then show ?thesis by (simp add: old(2))
      qed simp
    qed (simp_all add: old(2))
  next
    case new
    with a show ?thesis unfolding accounts_def by blast
  qed
qed

lemma sync_ok_write:
  assumes "sync_ok s" "db_write (ob_db s) l db'" "accounts db' (ob_log s) l zs"
    and "\<And>d. d \<in> set ds \<Longrightarrow> d \<in> set (ob_drains s) \<or> drain_ok db' (ob_log s @ zs) d"
  shows "sync_ok (s \<lparr>ob_db := db', ob_drains := ds, ob_log := ob_log s @ zs\<rparr>)"
proof -
  have ok: "diff_outbox_ok (ob_db s)" "history_ok (ob_db s) (ob_log s)" using assms(1) by (simp_all add: sync_ok_def)
  have "drain_ok db' (ob_log s @ zs) d" if "d \<in> set ds" for d
    using assms(4) [OF that] drain_ok_write [OF assms(2) ok(1)] assms(1) unfolding sync_ok_def by blast
  with db_write_ok [OF assms(2) ok(1)] history_write [OF assms(2) ok assms(3)] show ?thesis
    by (simp add: sync_ok_def del: drain_ok.simps)
qed

subsection \<open>Calls of the store\<close>

lemma queued_appended:
  assumes "diff_outbox_ok db" "map_of (db_events db) (record_key r) = Some r"
  shows "queued db (record_branch r) (er_event r) (er_queueOrder r)"
  using assms by (auto simp: queued_iff)

lemma call_accounts:
  assumes ok: "diff_outbox_ok db" and c: "\<not> is_acknowledge c"
  shows "\<exists>l. db_write db l (store_next pf c db) \<and> accounts (store_next pf c db) hist l (call_log pf c db)"
proof (cases c)
  case (Call_Enqueue input)
  show ?thesis
  proof (cases "enqueueDiffOutboxEvent pf input db")
    case (Inr p)
    obtain r db' where "p = (r, db')" by fastforce
    with Inr have e: "enqueueDiffOutboxEvent pf input db = Inr (r, db')" by simp
    from ok e show ?thesis
    proof (cases rule: enqueue_Inr)
      case (old ev)
      have "record_key r = eventKey input (eventId ev)"
        using events_wfD(2) [of db, OF _ old(2)] ok by (simp add: diff_outbox_ok_def)
      with old show ?thesis by (intro exI [of _ No_Effect]) (simp add: Call_Enqueue e db_after_def accounts_def)
    next
      case (new ev)
      have q: "queued db' (branchKey input) ev (er_queueOrder r)"
        using new(8)
      proof cases
        case (add x s)
        then show ?thesis
          using new(5) by (auto simp: queued_def queue_of_add [OF ok])
      qed
      with new show ?thesis
        by (intro exI [of _ "Appended (branchKey input) ev"]) (auto simp: Call_Enqueue e db_after_def accounts_def)
    qed
  qed (auto simp: Call_Enqueue db_after_def accounts_def intro: keep)
next
  case (Call_Discard input)
  show ?thesis
  proof (cases "discardDiffOutboxScopeForWriter input db")
    case (Inr p)
    obtain b db' where p: "p = (b, db')" by fastforce
    with Inr discard_Inr [OF ok, of input b db'] show ?thesis
      by (intro exI [of _ "if b then Cleared (branchKey input) else No_Effect"]) (simp add: Call_Discard db_after_def accounts_def)
  qed (auto simp: Call_Discard db_after_def accounts_def intro: keep)
qed (use store_next_write [OF ok, of c pf] c in \<open>auto simp: accounts_def\<close>)

subsection \<open>Steps of a drain\<close>

lemma listed_head:
  assumes ok: "diff_outbox_ok db" and l: "listDiffOutboxEvents scope db = Inr (r # rs)"
  shows "at_head db (branchKey scope) r"
proof -
  have wf: "events_wf db" using ok by (simp add: diff_outbox_ok_def)
  have "\<forall>x \<in> set (queue_of db (branchKey scope)). record_ok x"
    using events_wfD(3) [OF wf] by (blast dest: queue_of_mem [OF ok, THEN iffD1])
  moreover have "map_result parseEventRecord (queue_of db (branchKey scope)) = Inr (r # rs)"
    using l unfolding listDiffOutboxEvents_def and_then_Inr_iff queue_range_of [OF ok] by blast
  ultimately have q: "queue_of db (branchKey scope) = r # rs" by (rule parse_records_Inr [symmetric])
  then have r: "map_of (db_events db) (record_key r) = Some r" "record_branch r = branchKey scope"
    using queue_of_mem [OF ok, of r "branchKey scope"] by simp_all
  have "er_queueOrder r \<le> n" if "queued db (branchKey scope) ev n" for ev n
    using that queue_of_sorted [OF ok, of "branchKey scope"] by (auto simp: queued_def q)
  then show ?thesis using events_wfD(3,4) [OF wf r(1)] r(2) by (simp add: at_head_def)
qed

lemma drain_point_ok:
  assumes ok: "diff_outbox_ok db" and d: "drain_step options scope pt e db = Some (pt', db')" and o: "drain_ok db hist (options, scope, pt)"
  shows "drain_ok db' (hist @ send_log scope pt e) (options, scope, pt')"
proof -
  obtain l where w: "db_write db l db'" using drain_step_write [OF ok d] by blast
  have "held pt' = None \<or> held pt' = held pt \<or> (\<exists>r. held pt' = Some r \<and> at_head db (branchKey scope) r)"
    using d listed_head [OF ok, of scope]
    by (cases "(options, scope, pt, e, db)" rule: drain_step.cases)
      (auto simp: after_listing_def finish_drain_def lost_lease_def after_mark_def after_failure_mark_def caught_def
        split: sum.splits list.splits if_splits)
  then have "\<forall>r. held pt' = Some r \<longrightarrow> at_head db (branchKey scope) r" using o by auto
  moreover have "Event_Confirmed (branchKey scope) (er_eventId r) \<in> set (send_log scope pt e)" if "pt' = Confirming n r" for n r
    using d that
    by (cases "(options, scope, pt, e, db)" rule: drain_step.cases)
      (auto simp: after_listing_def finish_drain_def lost_lease_def after_mark_def after_failure_mark_def caught_def
        split: sum.splits list.splits if_splits)
  ultimately show ?thesis using at_head_write [OF w ok] by auto
qed

lemma drain_accounts:
  assumes "diff_outbox_ok db" "drain_step options scope pt e db = Some (pt', db')" "drain_ok db hist (options, scope, pt)"
  shows "\<exists>l. db_write db l db' \<and> accounts db' hist l (send_log scope pt e)"
proof -
  obtain l where l: "l \<in> drain_effects scope pt" "db_write db l db'" using drain_step_write [OF assms(1,2)] by blast
  have "Event_Queued k ev n \<notin> set (send_log scope pt e)" for k ev n
    by (cases "(scope, pt, e)" rule: send_log.cases) simp_all
  with l assms(3) have "accounts db' hist l (send_log scope pt e)"
    by (cases pt) (auto simp: accounts_def)
  with l(2) show ?thesis by blast
qed

lemma outbox_step_ok:
  assumes "sync_ok s" "outbox_step pf net s t"
  shows "sync_ok t"
  using assms(2)
proof cases
  case (calls c)
  have ok: "diff_outbox_ok (ob_db s)" using assms(1) by (simp add: sync_ok_def)
  from call_accounts [OF ok calls(2), of pf "ob_log s"] obtain l where
    "db_write (ob_db s) l (store_next pf c (ob_db s))" "accounts (store_next pf c (ob_db s)) (ob_log s) l (call_log pf c (ob_db s))" by blast
  from sync_ok_write [OF assms(1) this, of "ob_drains s"] show ?thesis by (simp add: calls(1))
next
  case (starts options scope)
  with assms(1) show ?thesis by (auto simp: sync_ok_def)
next
  case (advances ds options scope pt ds' e pt' db')
  have ok: "diff_outbox_ok (ob_db s)" "drain_ok (ob_db s) (ob_log s) (options, scope, pt)"
    using assms(1) advances(2) by (auto simp: sync_ok_def)
  from drain_accounts [OF ok(1) advances(4) ok(2)] obtain l where
    "db_write (ob_db s) l db'" "accounts db' (ob_log s) l (send_log scope pt e)" by blast
  from this show ?thesis unfolding advances(1)
    by (rule sync_ok_write [OF assms(1)]) (use drain_point_ok [OF ok(1) advances(4) ok(2)] in \<open>auto simp: advances(2) simp del: drain_ok.simps\<close>)
next
  case (stops ds d ds')
  with assms(1) show ?thesis by (auto simp: sync_ok_def)
qed

text \<open>A confirmation is an answer of the network that names the branch and the event.\<close>

lemma confirmations_answered:
  assumes "outbox_step pf net s t" "Event_Confirmed k i \<in> set (ob_log t)"
  shows "Event_Confirmed k i \<in> set (ob_log s) \<or>
    (\<exists>v. net k i v \<and> hasConfirmedDropDiffAppendReceipt v (Some (snd k)) [i])"
  using assms(1)
proof cases
  case (calls c)
  have "Event_Confirmed k i \<notin> set (call_log pf c (ob_db s))"
    by (cases c) (auto split: sum.splits)
  with calls assms(2) show ?thesis by simp
next
  case (advances ds options scope pt ds' e pt' db')
  have "Event_Confirmed k i \<notin> set (send_log scope pt e) \<or> (\<exists>v. net k i v \<and> hasConfirmedDropDiffAppendReceipt v (Some (snd k)) [i])"
    using advances(3) by (cases "(scope, pt, e)" rule: send_log.cases)
      (auto simp: hasMatchingAcknowledgement_def branchKey_def split: option.splits)
  with advances assms(2) show ?thesis by auto
qed (use assms(2) in simp_all)

interpretation outbox_runs: invariant_system outbox_init "outbox_step pf net" sync_ok for pf net
proof
  show "sync_ok s" if "outbox_init s" for s
    using that diff_outbox_ok_empty by (auto simp: outbox_init_def sync_ok_def history_ok_def)
  show "sync_ok t" if "sync_ok s" "outbox_step pf net s t" for s t
    using that by (rule outbox_step_ok)
qed

end
