(* ===== verification/Client_Session.thy ===== *)
theory Client_Session
  imports Client_Sync
begin

text \<open>
  One editor tab at work on its branch: what \<^verbatim>\<open>src/pages/editor/sync/session.ts\<close> gives the outbox service, and a drain run to its
  end. \<open>drain_run\<close> answers every wait of a drain from the tab's surroundings (its clock, the lease check of the session, a
  transport) for as long as the fuel lasts; a round takes four waits, so \<open>4 * length queue + 2\<close> is enough.
\<close>

section \<open>The session's outbox\<close>

definition session_options :: "jstring \<Rightarrow> CreateDiffOutboxOptions" where
  "session_options clientId = \<lparr>co_canDrain = True, co_writerId = Some clientId\<rparr>"

definition session_canDrain :: "jstring \<Rightarrow> DiffOutboxScope \<Rightarrow> int \<Rightarrow> outbox_db \<Rightarrow> drain_event" where
  "session_canDrain clientId scope now db =
     (case hasDiffOutboxWriterLease \<lparr>sc_rootId = sc_rootId scope, sc_branchId = sc_branchId scope, rl_ownerId = clientId, wr_now = now\<rparr> db of
        Inl _ \<Rightarrow> Drain_Check_Failed | Inr allowed \<Rightarrow> Drain_Allowed allowed)"

text \<open>A paused transport rejects with a bare \<^verbatim>\<open>code\<close>; otherwise the channel publishes the event.\<close>

definition session_transport :: "bool \<Rightarrow> (DropDiffEvent \<Rightarrow> thrown_value + DropDiffAppendResponse option) \<Rightarrow> DropDiffEvent \<Rightarrow> drain_event" where
  "session_transport paused publishEvent e =
     (if paused then Send_Failed (Thrown_Object Absent (String_Field (js ''offline'')))
      else case publishEvent e of Inl error \<Rightarrow> Send_Failed error | Inr response \<Rightarrow> Answered response)"

definition nextFollowsSeq :: "int \<Rightarrow> DiffOutboxEventRecord list \<Rightarrow> int" where
  "nextFollowsSeq headSeq rs = foldl (\<lambda>n r. case Option.bind (event_metadata (er_event r)) meta_followsSeq of
     None \<Rightarrow> n | Some f \<Rightarrow> max n (f + 1)) headSeq rs"

definition retry_delay :: "DiffOutboxDrainResult \<Rightarrow> int" where
  "retry_delay result = (let retryCount = (case dd_record result of None \<Rightarrow> 1 | Some r \<Rightarrow> er_retryCount r)
     in min 30000 (1000 * 2 ^ nat (min retryCount 5)))"

section \<open>Running a drain\<close>

record surroundings =
  su_clientId :: jstring
  su_now :: int
  su_paused :: bool
  su_publishEvent :: "DropDiffEvent \<Rightarrow> thrown_value + DropDiffAppendResponse option"

fun wait_ends :: "surroundings \<Rightarrow> DiffOutboxScope \<Rightarrow> drain_point \<Rightarrow> outbox_db \<Rightarrow> drain_event" where
  "wait_ends su scope (Asking n r) db = session_canDrain (su_clientId su) scope (su_now su) db"
| "wait_ends su scope (Sending n r) db = session_transport (su_paused su) (su_publishEvent su) (er_event r)"
| "wait_ends su scope _ db = Db_Done (su_now su) (su_now su)"

fun ended :: "drain_point \<Rightarrow> bool" where
  "ended (Returned _) = True"
| "ended Rejected = True"
| "ended _ = False"

fun drain_run :: "nat \<Rightarrow> surroundings \<Rightarrow> DiffOutboxScope \<Rightarrow> drain_point \<Rightarrow> outbox_db \<Rightarrow> (drain_point \<times> outbox_db) option" where
  "drain_run 0 su scope pt db = (if ended pt then Some (pt, db) else None)"
| "drain_run (Suc fuel) su scope pt db =
     (if ended pt then Some (pt, db)
      else case drain_step (session_options (su_clientId su)) scope pt (wait_ends su scope pt db) db of
        None \<Rightarrow> None | Some (pt', db') \<Rightarrow> drain_run fuel su scope pt' db')"

section \<open>A confirmed round\<close>

text \<open>A branch that can be drained: its tab has the lease and the server confirms what is queued, none of it blocked.\<close>

definition confirms :: "surroundings \<Rightarrow> DiffOutboxScope \<Rightarrow> DiffOutboxEventRecord \<Rightarrow> bool" where
  "confirms su scope r \<longleftrightarrow> \<not> su_paused su \<and> (\<exists>response. su_publishEvent su (er_event r) = Inr response \<and>
     hasMatchingAcknowledgement response scope (er_eventId r))"

definition drain_ready :: "surroundings \<Rightarrow> DiffOutboxScope \<Rightarrow> outbox_db \<Rightarrow> bool" where
  "drain_ready su scope db \<longleftrightarrow> diff_outbox_ok db \<and> assertScope scope = Inr () \<and> isNonNegativeInteger (su_now su) \<and>
     isNonEmptyString (su_clientId su) \<and> isNonNegativeInteger (next_order db (branchKey scope)) \<and>
     active_lease db (branchKey scope) (su_clientId su) (su_now su) \<and>
     (\<forall>r \<in> set (queue_of db (branchKey scope)). parseEventRecord r = Inr r \<and> er_status r \<noteq> Blocked \<and> confirms su scope r)"

lemma writerId_session: "isNonEmptyString w \<Longrightarrow> writerId (session_options w) = Some w"
  by (simp add: writerId_def session_options_def isNonEmptyString_def)

lemma read_state_total:
  assumes ok: "diff_outbox_ok db" and n: "isNonNegativeInteger (next_order db (branchKey scope))"
  obtains s where "read_state scope db = Inr s"
proof (cases "map_of (db_states db) (branchKey scope)")
  case None
  then show ?thesis using that by (simp add: read_state_def parseBranchState_def)
next
  case (Some s)
  then have s: "branchKey scope = (os_rootId s, os_branchId s)" "branch_state_ok s"
    using ok unfolding diff_outbox_ok_def states_wf_def by blast+
  have "read_state scope db = Inr s"
    using s n Some by (cases "os_draft s"; cases "os_lease s")
      (auto simp: read_state_def parseBranchState_def parseBranchDraft_def branch_state_ok_def opt_all_def branchKey_def next_order_def)
  then show ?thesis by (rule that)
qed

text \<open>The session's writer, as the drain names it to the store.\<close>

definition session_writer :: "surroundings \<Rightarrow> DiffOutboxScope \<Rightarrow> DiffOutboxWriter" where
  "session_writer su scope = \<lparr>sc_rootId = sc_rootId scope, sc_branchId = sc_branchId scope, rl_ownerId = su_clientId su, wr_now = su_now su\<rparr>"

lemma session_writer_simps [simp]:
  "branchKey (session_writer su scope) = branchKey scope" "rl_ownerId (session_writer su scope) = su_clientId su"
  "wr_now (session_writer su scope) = su_now su" "assertScope (session_writer su scope) = assertScope scope"
  "sc_rootId (session_writer su scope) = sc_rootId scope" "sc_branchId (session_writer su scope) = sc_branchId scope"
  by (simp_all add: session_writer_def branchKey_def assertScope_def)

lemma writer_at_session:
  "isNonEmptyString (su_clientId su) \<Longrightarrow> writer_at (session_options (su_clientId su)) scope (su_now su) = Some (session_writer su scope)"
  by (simp add: writer_at_def writerId_session session_writer_def)

lemma read_state_writer: "read_state (session_writer su scope) db = read_state scope db"
  unfolding read_state_def parseBranchState_def session_writer_simps by (rule refl)

lemma ready_active:
  assumes "drain_ready su scope db"
  shows "session_canDrain (su_clientId su) scope (su_now su) db = Drain_Allowed True"
    "writer_active (Some (session_writer su scope)) db = Inr True"
proof -
  have r: "diff_outbox_ok db" "isNonNegativeInteger (next_order db (branchKey scope))" "assertScope scope = Inr ()"
    "isNonNegativeInteger (su_now su)" "isNonEmptyString (su_clientId su)"
    "active_lease db (branchKey scope) (su_clientId su) (su_now su)"
    using assms by (simp_all add: drain_ready_def)
  from read_state_total [OF r(1,2)] obtain s where s: "read_state scope db = Inr s" .
  then have a: "hasActiveWriterLease s (su_clientId su) (su_now su)" using hasActive_read [OF r(1) s] r(6) by simp
  show "writer_active (Some (session_writer su scope)) db = Inr True"
    using s a r(4) by (simp add: writer_active_def read_state_writer nowFor_def)
  have "hasDiffOutboxWriterLease (session_writer su scope) db = Inr True"
    using s a r(3-5) by (simp add: hasDiffOutboxWriterLease_def read_state_writer nowFor_def)
  then show "session_canDrain (su_clientId su) scope (su_now su) db = Drain_Allowed True"
    by (simp add: session_canDrain_def session_writer_def)
qed

lemma ready_listing:
  assumes "drain_ready su scope db"
  shows "listDiffOutboxEvents scope db = Inr (queue_of db (branchKey scope))"
proof -
  have "map_result parseEventRecord (queue_of db (branchKey scope)) = Inr (map (\<lambda>r. r) (queue_of db (branchKey scope)))"
    using assms by (intro map_result_total) (simp add: drain_ready_def)
  then show ?thesis using assms by (simp add: listDiffOutboxEvents_def queue_range_of drain_ready_def)
qed

lemma ready_acknowledge:
  assumes d: "drain_ready su scope db" and r: "r \<in> set (queue_of db (branchKey scope))"
  shows "acknowledgeDiffOutboxEvent \<lparr>sc_rootId = sc_rootId scope, sc_branchId = sc_branchId scope, oi_eventId = er_eventId r\<rparr>
      (Some (session_writer su scope)) db = Inr (True, db \<lparr>db_events := AList.delete (record_key r) (db_events db)\<rparr>)"
    (is "acknowledgeDiffOutboxEvent ?i _ _ = _")
proof -
  have ok: "diff_outbox_ok db" "isNonEmptyString (su_clientId su)" "assertScope scope = Inr ()"
    using d by (simp_all add: drain_ready_def)
  from r have m: "map_of (db_events db) (record_key r) = Some r" "record_branch r = branchKey scope" by (simp_all add: queue_of_mem [OF ok(1)])
  then have "record_ok r" using events_wfD(3) [of db "record_key r" r] ok(1) by (simp add: diff_outbox_ok_def)
  then have "isNonEmptyString (er_eventId r)"
    using isNonEmptyString_token [of "er_eventId r"] by (auto simp: record_ok_def valid_event_def)
  moreover have "eventKey ?i (er_eventId r) = record_key r"
    using m(2) by (simp add: eventKey_def record_key_def record_branch_def branchKey_def)
  moreover have "assertScope ?i = Inr ()" using ok(3) by (simp add: assertScope_def)
  moreover have "parseEventRecord r = Inr r" using d r by (simp add: drain_ready_def)
  moreover have "writer_fence (Some (session_writer su scope)) ?i = Inr ()" using ok(2,3) by (simp add: writer_fence_def)
  ultimately show ?thesis using m(1) ready_active(2) [OF d] by (simp add: acknowledgeDiffOutboxEvent_def)
qed

lemma ready_next:
  assumes d: "drain_ready su scope db" and q: "queue_of db (branchKey scope) = r # rs"
    and db': "db' = db \<lparr>db_events := AList.delete (record_key r) (db_events db)\<rparr>"
  shows "drain_ready su scope db'" "queue_of db' (branchKey scope) = rs"
    "branch_queue db' = (branch_queue db)(branchKey scope := map er_event rs)"
proof -
  let ?k = "branchKey scope"
  have ok: "diff_outbox_ok db" using d by (simp add: drain_ready_def)
  have r: "map_of (db_events db) (record_key r) = Some r" "record_branch r = ?k"
    using q queue_of_mem [OF ok, of r ?k] by simp_all
  have wf: "events_wf db" using ok by (simp add: diff_outbox_ok_def)
  have w: "db_write db (Removed ?k (er_eventId r)) db'" using remove [OF r(1)] by (simp add: db' r(2))
  have "queue_of db' ?k = filter (\<lambda>x. record_key x \<noteq> record_key r) (queue_of db ?k)"
    unfolding db' AList.delete_eq
  proof (rule queue_of_filter)
    fix i x assume "(i, x) \<in> set (db_events db)"
    then have "map_of (db_events db) i = Some x" by (simp add: map_of_mem_iff [OF events_wfD(1) [OF wf]])
    from events_wfD(2) [OF wf this] show "(case (i, x) of (k', _) \<Rightarrow> record_key r \<noteq> k') = (record_key x \<noteq> record_key r)" by auto
  qed
  moreover have "record_key x \<noteq> record_key r" if "x \<in> set rs" for x
  proof -
    have "er_queueOrder r < er_queueOrder x" using queue_of_sorted [OF ok, of ?k] that by (simp add: q)
    moreover have "map_of (db_events db) (record_key x) = Some x"
      using that q queue_of_mem [OF ok, of x ?k] by simp
    ultimately show ?thesis using r(1) by (metis option.inject order_less_irrefl)
  qed
  ultimately show qs: "queue_of db' ?k = rs" by (simp add: q)
  have states: "db_states db' = db_states db" by (simp add: db')
  then have "next_order db' ?k = next_order db ?k" "active_lease db' ?k w t = active_lease db ?k w t" for w t
    by (simp_all add: next_order_def active_lease_def lease_at_def)
  with d db_write_ok [OF w ok] show "drain_ready su scope db'" by (simp add: drain_ready_def qs q)
  show "branch_queue db' = (branch_queue db)(?k := map er_event rs)"
  proof (rule ext)
    fix k
    have "branch_queue db' ?k = map er_event rs" by (simp add: branch_queue_def qs)
    moreover have "branch_queue db' k = branch_queue db k" if "k \<noteq> ?k" using db_write_effect [OF w ok] that by simp
    ultimately show "branch_queue db' k = ((branch_queue db)(?k := map er_event rs)) k" by simp
  qed
qed

lemma drain_round:
  assumes d: "drain_ready su scope db" and q: "queue_of db (branchKey scope) = r # rs"
  shows "drain_run (Suc (Suc (Suc (Suc fuel)))) su scope (Listing n) db =
     drain_run fuel su scope (Listing (n + 1)) (db \<lparr>db_events := AList.delete (record_key r) (db_events db)\<rparr>)"
proof -
  have r: "isNonEmptyString (su_clientId su)" "er_status r \<noteq> Blocked" "confirms su scope r" using d q by (simp_all add: drain_ready_def)
  then obtain response where response: "session_transport (su_paused su) (su_publishEvent su) (er_event r) = Answered response"
    "hasMatchingAcknowledgement response scope (er_eventId r)" by (auto simp: confirms_def session_transport_def)
  have "co_canDrain (session_options (su_clientId su))" by (simp add: session_options_def)
  with r response ready_active(1) [OF d] ready_acknowledge [OF d, of r] show ?thesis
    by (simp add: ready_listing [OF d] q after_listing_def writer_at_session)
qed

lemma clear_if_empty_ready:
  assumes d: "drain_ready su scope db" and q: "queue_of db (branchKey scope) = []"
  obtains db' where "clearDiffOutboxBranchDraftIfEmptyForWriter (session_writer su scope) db = Inr (True, db')"
proof -
  have r: "diff_outbox_ok db" "isNonNegativeInteger (next_order db (branchKey scope))" "assertScope scope = Inr ()"
    "isNonNegativeInteger (su_now su)" "isNonEmptyString (su_clientId su)"
    "active_lease db (branchKey scope) (su_clientId su) (su_now su)"
    using d by (simp_all add: drain_ready_def)
  from read_state_total [OF r(1,2)] obtain s where s: "read_state scope db = Inr s" .
  moreover have "queue_range (session_writer su scope) db = []" using q by (simp add: queue_range_of [OF r(1)])
  moreover have "hasActiveWriterLease s (su_clientId su) (su_now su)" using hasActive_read [OF r(1) s] r(6) by simp
  ultimately show ?thesis
    using r that by (cases "os_draft s = None")
      (auto simp: clearDiffOutboxBranchDraftIfEmptyForWriter_def read_state_writer nowFor_def)
qed

lemma drain_end:
  assumes d: "drain_ready su scope db" and q: "queue_of db (branchKey scope) = []"
  obtains db' where "drain_run (Suc (Suc fuel)) su scope (Listing n) db = Some (Returned \<lparr>dd_status =
       (if n = 0 then Drain_Empty else Drain_Drained), dd_sentCount = n, dd_record = None, dd_retryClassification = None\<rparr>, db')"
    "branch_queue db' = branch_queue db" "draft_at db' (branchKey scope) = None"
proof -
  have r: "diff_outbox_ok db" "isNonEmptyString (su_clientId su)" using d by (simp_all add: drain_ready_def)
  from clear_if_empty_ready [OF d q] obtain db' where
    c: "clearDiffOutboxBranchDraftIfEmptyForWriter (session_writer su scope) db = Inr (True, db')" .
  have "drain_run fuel su scope (Returned x) db' = Some (Returned x, db')" for x by (cases fuel) simp_all
  then show ?thesis
    using c clear_if_empty_True [OF r(1) c] r(2)
    by (intro that [of db']) (simp_all add: ready_listing [OF d] q after_listing_def clear_step_def writer_at_session finish_drain_def)
qed

lemma drain_run_empties:
  assumes "drain_ready su scope db" "4 * length (queue_of db (branchKey scope)) + 2 \<le> fuel"
  shows "\<exists>db'. drain_run fuel su scope (Listing n) db = Some (Returned \<lparr>dd_status =
       (if n + length (queue_of db (branchKey scope)) = 0 then Drain_Empty else Drain_Drained),
       dd_sentCount = n + length (queue_of db (branchKey scope)), dd_record = None, dd_retryClassification = None\<rparr>, db') \<and>
     branch_queue db' = (branch_queue db)(branchKey scope := []) \<and> draft_at db' (branchKey scope) = None"
  using assms
proof (induction "queue_of db (branchKey scope)" arbitrary: db n fuel)
  case Nil
  then have q: "queue_of db (branchKey scope) = []" by simp
  obtain f where f: "fuel = Suc (Suc f)" using Nil.prems(2) by (cases fuel; cases "fuel - 1") auto
  from drain_end [OF Nil.prems(1) q, of f n] obtain db' where "drain_run fuel su scope (Listing n) db = Some (Returned \<lparr>dd_status =
       (if n = 0 then Drain_Empty else Drain_Drained), dd_sentCount = n, dd_record = None, dd_retryClassification = None\<rparr>, db')"
    "branch_queue db' = branch_queue db" "draft_at db' (branchKey scope) = None" unfolding f by blast
  then show ?case by (intro exI [of _ db']) (auto simp: q branch_queue_def fun_eq_iff)
next
  case (Cons r rs)
  let ?db = "db \<lparr>db_events := AList.delete (record_key r) (db_events db)\<rparr>"
  have q: "queue_of db (branchKey scope) = r # rs" using Cons.hyps(2) by simp
  note n = ready_next [OF Cons.prems(1) q refl]
  obtain f where f: "fuel = Suc (Suc (Suc (Suc f)))" "4 * length rs + 2 \<le> f"
    using Cons.prems(2) by (intro that [of "fuel - 4"]) (auto simp: q)
  from Cons.hyps(1) [OF n(2) [symmetric] n(1), of f "n + 1"] f(2) n(2,3) show ?case
    unfolding f(1) drain_round [OF Cons.prems(1) q] by (auto simp: q)
qed

end
