(* ===== verification/Client_Delivery.thy ===== *)
theory Client_Delivery
  imports Client_Session Plane_History
begin

text \<open>
  From the browser's outbox to the branch: the tabs of \<open>Client_Sync\<close> and a running memory plane, joined by a network that may lose,
  delay and repeat answers and mix up those of one drop, but forges none. \<open>edit_step\<close> interleaves the steps of both.
\<close>

section \<open>The joint system\<close>

record edit_system =
  ed_client :: outbox_system
  ed_plane :: system
  ed_answers :: "(jstring \<times> DropDiffAppendResponse) list"

definition branch_target :: "branch_key \<Rightarrow> BranchStateTarget" where
  "branch_target k = \<lparr>rootDropId = fst k, branchId = snd k\<rparr>"

text \<open>What the diff route of a drop answers for an envelope that the plane has committed.\<close>

definition batch_answer :: "BranchBatchAppendRecord \<Rightarrow> BranchBatchAppendResult \<Rightarrow> jstring \<times> DropDiffAppendResponse" where
  "batch_answer c r = (rootDropId (target c), diff_append_response (branchId (target c)) r)"

definition plane_answers :: "edit_system \<Rightarrow> network" where
  "plane_answers x k i v \<longleftrightarrow> (fst k, v) \<in> set (ed_answers x)"

definition edit_init :: "platform \<Rightarrow> edit_system \<Rightarrow> bool" where
  "edit_init pf x \<longleftrightarrow> outbox_init (ed_client x) \<and> plane_init pf (ed_plane x) \<and> ed_answers x = []"

inductive edit_step :: "platform \<Rightarrow> edit_system \<Rightarrow> edit_system \<Rightarrow> bool" for pf where
  works: "outbox_step pf (plane_answers x) (ed_client x) s \<Longrightarrow> edit_step pf x (x \<lparr>ed_client := s\<rparr>)"
| serves: "plane_step pf (ed_plane x) sys \<Longrightarrow> edit_step pf x (x \<lparr>ed_plane := sys\<rparr>)"
| answers: "ed_plane x = (p, fs @ Batching c n s pb # gs) \<Longrightarrow> batch_finish p c s pb = Inr (Batch_Done r p') \<Longrightarrow>
    edit_step pf x (x \<lparr>ed_plane := (p', fs @ gs), ed_answers := batch_answer c r # ed_answers x\<rparr>)"

section \<open>A committed envelope is stored\<close>

definition receipt_stored :: "MemoryPlane \<Rightarrow> branch_key \<Rightarrow> jstring \<Rightarrow> bool" where
  "receipt_stored p k i \<longleftrightarrow> (\<exists>s. map_of (states p) (key (branch_target k)) = Some s \<and> map_of (receipts s) i \<noteq> None)"

lemma receipt_stored_grows:
  assumes "plane_grows p p'" "receipt_stored p k i"
  shows "receipt_stored p' k i"
proof -
  from assms(2) obtain s r where s: "map_of (states p) (key (branch_target k)) = Some s" "map_of (receipts s) i = Some r"
    by (auto simp: receipt_stored_def)
  with assms(1) obtain s' where "map_of (states p') (key (branch_target k)) = Some s'" "extends s s'"
    unfolding plane_grows_def by blast
  with s(2) map_le_SomeD [of "map_of (receipts s)" "map_of (receipts s')" i r] show ?thesis
    by (auto simp: receipt_stored_def extends_def)
qed

lemma batch_receipt_ids:
  "map rc_eventId (map (batch_receipt c v) (zip (number_events n m (map bi_event a)) a)) = map identity_id a"
  by (induction a arbitrary: n) (simp_all add: batch_receipt_def identity_id_def)

lemma batch_id_known:
  assumes prep: "prepareBranchBatch pf c (hashBranchBatchEvents pf (events c)) h t ex now = Inr pb" and e: "e \<in> set (events c)"
  shows "map_of ex (eventId e) \<noteq> None \<or> (ba_snapshot (pb_result pb) \<noteq> None \<and> pb_outbox pb \<noteq> None \<and>
     (\<exists>r \<in> set (pb_receipts pb). rc_eventId r = eventId e))"
proof (cases "map_of ex (eventId e)")
  case None
  let ?is = "hashBranchBatchEvents pf (events c)"
  from prep obtain u a pb0 where cl: "batch_classify ex ?is [] [] = Inr (u, a)"
    and pb0: "(if a = [] then Inr (batch_nothing_new c h t) else batch_publication pf c a h t now) = Inr pb0"
    and pb: "pb = with_acknowledgements ex (map fst u) pb0" by (rule prepareBranchBatch_Inr)
  note acc = batch_classify_accepted [OF cl]
  have "fst ` set u = eventId ` set (events c)"
    unfolding acc(3) by (simp add: hashBranchBatchEvents_def identity_id_def image_image)
  with e obtain i where i: "(eventId e, i) \<in> set u" by (metis imageE imageI prod.collapse)
  have ia: "i \<in> set a" unfolding acc(1) fresh_identities_def using i None by (auto intro!: image_eqI [of _ snd "(eventId e, i)"])
  have id: "identity_id i = eventId e" using i acc(4) by auto
  from ia have "a \<noteq> []" by auto
  with pb0 have b: "batch_publication pf c a h t now = Inr pb0" by simp
  note q = batch_publication_Inr [OF b]
  have "set (map rc_eventId (pb_receipts pb0)) = identity_id ` set a"
    unfolding q(6) q(3) batch_receipt_ids by simp
  with ia id have "\<exists>r \<in> set (pb_receipts pb0). rc_eventId r = eventId e" by (metis image_iff set_map)
  with q(8,9) show ?thesis by (auto simp: pb)
qed simp

lemma batch_done_stored:
  assumes ok: "system_ok pf (p, fs @ Batching c n s pb # gs)" and fin: "batch_finish p c s pb = Inr (Batch_Done r p')"
    and e: "e \<in> set (events c)"
  shows "receipt_stored p' (rootDropId (target c), branchId (target c)) (eventId e)"
proof -
  have t: "branch_target (rootDropId (target c), branchId (target c)) = target c" by (simp add: branch_target_def)
  have fl: "flight_ok pf p (Batching c n s pb)" and pl: "plane_ok pf p" "platform_ok pf" using ok by (simp_all add: system_ok_def)
  then obtain now where prep: "prepareBranchBatch pf c (hashBranchBatchEvents pf (events c)) (head s)
      (text_at s (snapshotId (ver s))) (receipts s) now = Inr pb" by (auto simp: flight_ok_def)
  have g: "plane_grows p p'" using batch_finish_ok [OF pl fl fin] by (simp add: keeps_def)
  have "map_of (states p) (key (target c)) = Some s"
    using pl fl fin by (cases rule: batch_finish_cases) simp_all
  then have old: "receipt_stored p' (rootDropId (target c), branchId (target c)) (eventId e)" if "map_of (receipts s) (eventId e) \<noteq> None"
    using that by (intro receipt_stored_grows [OF g]) (simp add: receipt_stored_def t)
  from batch_id_known [OF prep e] show ?thesis
  proof (elim disjE conjE bexE)
    fix q assume q: "ba_snapshot (pb_result pb) \<noteq> None" "pb_outbox pb \<noteq> None" "q \<in> set (pb_receipts pb)" "rc_eventId q = eventId e"
    from pl fl fin show ?thesis
    proof (cases rule: batch_finish_cases)
      case (new meta x)
      from receipts_of_publish_new [OF new(3) q(3)] q(4) show ?thesis by (simp add: receipt_stored_def t new(4))
    qed (use q in simp)
  qed (rule old)
qed

lemma batch_acks:
  assumes ok: "system_ok pf (p, fs @ Batching c n s pb # gs)" and fin: "batch_finish p c s pb = Inr (Batch_Done r p')"
    and a: "a \<in> set (ba_acknowledgements r)"
  shows "ack_eventId a \<in> eventId ` set (events c)"
proof -
  have fl: "flight_ok pf p (Batching c n s pb)" and pl: "plane_ok pf p" "platform_ok pf" using ok by (simp_all add: system_ok_def)
  then obtain now where "prepareBranchBatch pf c (hashBranchBatchEvents pf (events c)) (head s)
      (text_at s (snapshotId (ver s))) (receipts s) now = Inr pb" by (auto simp: flight_ok_def)
  then obtain u a' pb0 where cl: "batch_classify (receipts s) (hashBranchBatchEvents pf (events c)) [] [] = Inr (u, a')"
    and pb: "pb = with_acknowledgements (receipts s) (map fst u) pb0" by (rule prepareBranchBatch_Inr)
  have r: "r = pb_result pb" using pl fl fin by (cases rule: batch_finish_cases) simp_all
  have "map ack_eventId (ba_acknowledgements r) = map fst u" by (simp add: r pb with_acknowledgements_def comp_def)
  then have "ack_eventId a \<in> fst ` set u" using a by (metis imageI set_map)
  then show ?thesis unfolding batch_classify_accepted(3) [OF cl]
    by (simp add: hashBranchBatchEvents_def identity_id_def image_image)
qed

section \<open>The invariant of the joint system\<close>

definition answer_ok :: "MemoryPlane \<Rightarrow> jstring \<times> DropDiffAppendResponse \<Rightarrow> bool" where
  "answer_ok p answer \<longleftrightarrow> (\<forall>a \<in> set (dr_acknowledgements (snd answer)).
     receipt_stored p (fst answer, dr_branchId (snd answer)) (ack_eventId a))"

definition edit_ok :: "platform \<Rightarrow> edit_system \<Rightarrow> bool" where
  "edit_ok pf x \<longleftrightarrow> sync_ok (ed_client x) \<and> system_ok pf (ed_plane x) \<and>
     (\<forall>answer \<in> set (ed_answers x). answer_ok (fst (ed_plane x)) answer) \<and>
     (\<forall>k i. Event_Confirmed k i \<in> set (ob_log (ed_client x)) \<longrightarrow> receipt_stored (fst (ed_plane x)) k i)"

lemma edit_ok_plane:
  assumes "edit_ok pf x" "plane_step pf (ed_plane x) sys" "\<forall>answer \<in> set as. answer_ok (fst sys) answer"
  shows "edit_ok pf (x \<lparr>ed_plane := sys, ed_answers := as @ ed_answers x\<rparr>)"
proof -
  have ok: "system_ok pf sys" and g: "plane_grows (fst (ed_plane x)) (fst sys)"
    using step_keeps [of pf "ed_plane x" sys] assms(1,2) by (simp_all add: edit_ok_def)
  have a: "answer_ok (fst (ed_plane x)) answer \<Longrightarrow> answer_ok (fst sys) answer" for answer
    using receipt_stored_grows [OF g] unfolding answer_ok_def by blast
  have "sync_ok (ed_client x)" "\<forall>answer \<in> set (ed_answers x). answer_ok (fst sys) answer"
    "\<forall>k i. Event_Confirmed k i \<in> set (ob_log (ed_client x)) \<longrightarrow> receipt_stored (fst sys) k i"
    using assms(1) a receipt_stored_grows [OF g] unfolding edit_ok_def by blast+
  with ok assms(3) show ?thesis by (simp add: edit_ok_def ball_Un)
qed

lemma confirmed_stored:
  assumes "\<forall>answer \<in> set as. answer_ok p answer" "(fst k, v) \<in> set as" "hasConfirmedDropDiffAppendReceipt v (Some (snd k)) [i]"
  shows "receipt_stored p k i"
proof -
  have v: "dr_branchId v = snd k" "set (map ack_eventId (dr_acknowledgements v)) = {i}"
    using assms(3) unfolding confirmed_iff by (auto simp: opt_all_def)
  have "answer_ok p (fst k, v)" using assms(1,2) by blast
  then have all: "\<forall>a \<in> set (dr_acknowledgements v). receipt_stored p k (ack_eventId a)" by (simp add: answer_ok_def v(1))
  have "i \<in> ack_eventId ` set (dr_acknowledgements v)" using v(2) by simp
  then obtain a where "a \<in> set (dr_acknowledgements v)" "i = ack_eventId a" by (rule imageE) simp
  with all show ?thesis by simp
qed

lemma edit_step_ok:
  assumes ok: "edit_ok pf x" and st: "edit_step pf x y"
  shows "edit_ok pf y"
  using st
proof cases
  case (works s)
  have "receipt_stored (fst (ed_plane x)) k i" if "Event_Confirmed k i \<in> set (ob_log s)" for k i
    using confirmations_answered [OF works(2) that] ok confirmed_stored [of "ed_answers x" "fst (ed_plane x)" k _ i]
    unfolding edit_ok_def plane_answers_def by blast
  moreover have "sync_ok s" using ok works(2) outbox_step_ok by (auto simp: edit_ok_def)
  ultimately show ?thesis using ok by (simp add: works(1) edit_ok_def)
next
  case (serves sys)
  with edit_ok_plane [OF ok, of sys "[]"] show ?thesis by simp
next
  case (answers p fs c n s pb gs r p')
  have s: "system_ok pf (p, fs @ Batching c n s pb # gs)" using ok answers(2) by (simp add: edit_ok_def)
  have "answer_ok p' (batch_answer c r)"
    using batch_acks [OF s answers(3)] batch_done_stored [OF s answers(3)]
    by (fastforce simp: answer_ok_def batch_answer_def diff_append_response_def)
  with edit_ok_plane [OF ok, of "(p', fs @ gs)" "[batch_answer c r]"] answers plane_step.ends_batch [OF answers(3), of pf fs n gs]
  show ?thesis by simp
qed

interpretation edit_runs: invariant_system "edit_init pf" "edit_step pf" "edit_ok pf" for pf
proof
  show "edit_ok pf x" if "edit_init pf x" for x
    using that outbox_runs.init_inv [of "ed_client x"] plane_invariant.init_inv [of pf "ed_plane x"]
    by (auto simp: edit_init_def edit_ok_def outbox_init_def)
  show "edit_ok pf y" if "edit_ok pf x" "edit_step pf x y" for x y using that by (rule edit_step_ok)
qed

lemma receipt_stored_log:
  assumes "plane_ok pf p" "receipt_stored p k i"
  shows "\<exists>es t e. logs p (key (branch_target k)) = Some (es, t) \<and> e \<in> set es \<and> eventId e = i"
proof -
  from assms(2) obtain s r where s: "map_of (states p) (key (branch_target k)) = Some s" "map_of (receipts s) i = Some r"
    by (auto simp: receipt_stored_def)
  have "state_ok pf s" using assms(1) s(1) by (auto simp: plane_ok_def states_ok_def)
  then have ev: "events_ok s" and ro: "receipts_ok pf s" by (simp_all add: state_ok_def branch_ok_def)
  from ro s(2) obtain e where e: "map_of (st_events s) (receipt_seq r) = Some e" "eventId e = i"
    by (auto simp: receipts_ok_def receipt_ok_def)
  have "receipt_seq r \<in> {0..eventSeq (ver s)}" using e(1) ev by (auto simp: events_ok_def)
  with e(1) have "e \<in> set (fst (log_of s))" by (force simp: log_of_def stored_events_def)
  moreover have "logs p (key (branch_target k)) = Some (fst (log_of s), snd (log_of s))" by (simp add: logs_def s(1))
  ultimately show ?thesis using e(2) by blast
qed

end
