(* ===== verification/Client_Guarantees.thy ===== *)
theory Client_Guarantees
  imports Client_Delivery
begin

text \<open>
  What the browser's outbox promises: its database refines one first-in first-out queue per branch, an edit is queued once, a writer
  that lost its lease can change nothing, events go out in order, a drain with a confirming server empties the queue, and no queued
  edit is lost on its way to the branch.
\<close>

section \<open>Examples\<close>

definition demo_edit :: "string \<Rightarrow> DropDiffEvent" where
  "demo_edit i = example_event \<lparr>eventId := js i\<rparr>"

definition demo_outbox_scope :: DiffOutboxScope where
  "demo_outbox_scope = \<lparr>sc_rootId = js ''d'', sc_branchId = js ''b''\<rparr>"

definition demo_queueing :: "string \<Rightarrow> EnqueueDiffOutboxEventInput" where
  "demo_queueing i = \<lparr>sc_rootId = js ''d'', sc_branchId = js ''b'', eq_event = demo_edit i, eq_draft = None, eq_ownerId = None, eq_now = 1\<rparr>"

definition demo_record :: "string \<Rightarrow> int \<Rightarrow> DiffOutboxEventRecord" where
  "demo_record i n = \<lparr>er_rootId = js ''d'', er_branchId = js ''b'', er_eventId = js i, er_queueOrder = n, er_event = demo_edit i,
     er_status = Queued, er_retryCount = 0, er_enqueuedAt = 1, er_updatedAt = 1\<rparr>"

definition demo_outbox :: "DiffOutboxEventRecord list \<Rightarrow> int \<Rightarrow> outbox_db" where
  "demo_outbox rs n = \<lparr>db_events = map (\<lambda>r. (record_key r, r)) rs, db_states = [((js ''d'', js ''b''),
     \<lparr>os_rootId = js ''d'', os_branchId = js ''b'', os_nextQueueOrder = n, os_lease = None, os_draft = None\<rparr>)]\<rparr>"

definition demo_answer :: "string \<Rightarrow> DropDiffAppendResponse" where
  "demo_answer i = \<lparr>dr_accepted = 1, dr_deduplicated = 0, dr_branchId = js ''b'', dr_snapshotId = 1, dr_totalStored = 1,
     dr_acknowledgements = [\<lparr>ack_eventId = js i, ack_seq = 0, ack_snapshotId = 1, ack_status = Accepted\<rparr>]\<rparr>"

definition unfenced :: CreateDiffOutboxOptions where
  "unfenced = \<lparr>co_canDrain = False, co_writerId = None\<rparr>"

lemma demo_edit_valid:
  assumes "i \<in> {''e1'', ''e2''}"
  shows "valid_event (demo_edit i)"
proof -
  have "is_token (js i)"
    using assms by (auto simp: is_token_def bounded_def DIFF_TOKEN_MAX_LENGTH_def is_trimmed_def js_trim_def js_def js_whitespace_def)
  then show ?thesis using example_event_valid by (simp add: demo_edit_def valid_event_def)
qed

lemma demo_strings: "isNonEmptyString (js ''d'')" "isNonEmptyString (js ''b'')" "isNonEmptyString (js ''e1'')" "isNonEmptyString (js ''e2'')"
  "isNonEmptyString (js ''t1'')" "isNonEmptyString (js ''t2'')" "js ''e1'' \<noteq> js ''e2''" "js ''t1'' \<noteq> js ''t2''"
  by (simp_all add: isNonEmptyString_def js_trim_def js_def js_whitespace_def)

lemma demo_edit_fields [simp]: "eventId (demo_edit i) = js i" "dropId (demo_edit i) = js ''d''"
  by (simp_all add: demo_edit_def example_event_def)

lemma demo_record_fields [simp]: "record_key (demo_record i n) = (js ''d'', js ''b'', js i)" "queue_key (demo_record i n) = (js ''d'', js ''b'', n)"
  "er_event (demo_record i n) = demo_edit i" "er_queueOrder (demo_record i n) = n" "er_eventId (demo_record i n) = js i"
  "er_status (demo_record i n) = Queued"
  by (simp_all add: demo_record_def record_key_def queue_key_def)

lemma demo_scope_fields [simp]: "branchKey demo_outbox_scope = (js ''d'', js ''b'')" "branchKey (demo_queueing i) = (js ''d'', js ''b'')"
  by (simp_all add: demo_outbox_scope_def demo_queueing_def branchKey_def)

lemma demo_now: "isNonNegativeInteger 1"
  by (simp add: isNonNegativeInteger_def is_safe_integer_def max_safe_integer_def)

lemma demo_parse:
  assumes "i \<in> {''e1'', ''e2''}" "isNonNegativeInteger n"
  shows "parseEventRecord (demo_record i n) = Inr (demo_record i n)"
  using assms demo_strings demo_now parseEvent_valid [OF demo_edit_valid [OF assms(1)]]
  by (auto simp: parseEventRecord_def demo_record_def isNonNegativeInteger_def is_safe_integer_def max_safe_integer_def)

lemma demo_enqueue_first:
  "enqueueDiffOutboxEvent pf (demo_queueing ''e1'') empty_db = Inr (demo_record ''e1'' 0, demo_outbox [demo_record ''e1'' 0] 1)"
  using demo_strings demo_now parseEvent_valid [OF demo_edit_valid [of "''e1''"]]
  by (simp add: enqueueDiffOutboxEvent_def demo_queueing_def assertScope_def nowFor_def draft_for_def read_state_def empty_db_def
      parseBranchState_def branchKey_def eventKey_def events_add_def events_put_def index_conflict_def states_put_def with_draft_def
      demo_outbox_def demo_record_def record_key_def Let_def)

lemma demo_enqueue_second:
  "enqueueDiffOutboxEvent pf (demo_queueing ''e2'') (demo_outbox [demo_record ''e1'' 0] 1) =
     Inr (demo_record ''e2'' 1, demo_outbox [demo_record ''e1'' 0, demo_record ''e2'' 1] 2)"
  using demo_strings demo_now parseEvent_valid [OF demo_edit_valid [of "''e2''"]]
  by (simp add: enqueueDiffOutboxEvent_def demo_queueing_def assertScope_def nowFor_def draft_for_def read_state_def opt_all_def
      parseBranchState_def branchKey_def eventKey_def events_add_def events_put_def index_conflict_def states_put_def with_draft_def
      demo_outbox_def demo_record_def record_key_def queue_key_def Let_def)

section \<open>The queues\<close>

text \<open>
  C16: The outbox database is one first-in first-out queue of events per branch. After any calls on an empty database, the next call
  of any operation either leaves every queue as it is, or appends the event it was given at the end of its branch's queue, or
  removes the event it acknowledges, or empties the queue of the branch it discards: nothing is reordered, changed or moved to
  another branch, whatever the call's answer is.
\<close>

theorem store_refines_queues:
  "\<exists>l. l \<in> call_effects c \<and> branch_queue (store_next pf c (fold (store_next pf) cs empty_db)) =
     apply_effect l (branch_queue (fold (store_next pf) cs empty_db))"
  using store_next_effect [OF store_run_ok [OF diff_outbox_ok_empty]] by blast

lemma queued_id_iff:
  assumes ok: "diff_outbox_ok db"
  shows "i \<in> eventId ` set (branch_queue db (branchKey scope)) \<longleftrightarrow> map_of (db_events db) (eventKey scope i) \<noteq> None"
proof -
  have wf: "events_wf db" using ok by (simp add: diff_outbox_ok_def)
  have id: "eventId (er_event r) = er_eventId r" if "map_of (db_events db) k = Some r" for k r
    using events_wfD(3) [OF wf that] by (simp add: record_ok_def)
  have key: "record_key r = eventKey scope i \<longleftrightarrow> record_branch r = branchKey scope \<and> er_eventId r = i" for r
    by (auto simp: record_key_def eventKey_def record_branch_def branchKey_def)
  have "i \<in> eventId ` set (branch_queue db (branchKey scope)) \<longleftrightarrow>
      (\<exists>r. map_of (db_events db) (record_key r) = Some r \<and> record_branch r = branchKey scope \<and> er_eventId r = i)"
  proof -
    have "eventId ` set (branch_queue db (branchKey scope)) = er_eventId ` set (queue_of db (branchKey scope))"
      unfolding branch_queue_def set_map image_image by (rule image_cong [OF refl]) (blast dest: queue_of_mem [OF ok, THEN iffD1] intro: id)
    then show ?thesis by (auto simp: queue_of_mem [OF ok])
  qed
  also have "\<dots> \<longleftrightarrow> (\<exists>r. map_of (db_events db) (eventKey scope i) = Some r)"
    using events_wfD(2) [OF wf] key by metis
  finally show ?thesis by auto
qed

text \<open>
  C17: Queueing is idempotent and never replaces an edit. When \<^verbatim>\<open>enqueueDiffOutboxEvent\<close> succeeds, in any database that calls have
  produced, the branch's queue is unchanged if it already held the event's id, and has the parsed event as its new last element
  otherwise; no other queue changes, and the returned record is in the queue with the same canonical payload as the event.
\<close>

theorem edit_queued_once:
  assumes "enqueueDiffOutboxEvent pf input (fold (store_next pf) cs empty_db) = Inr (r, db)"
  shows "\<exists>ev. parseEvent (eq_event input) = Inr ev \<and>
     (let q = branch_queue (fold (store_next pf) cs empty_db); k = branchKey input
      in branch_queue db = (if eventId ev \<in> eventId ` set (q k) then q else q(k := q k @ [ev])) \<and>
         er_event r \<in> set (branch_queue db k) \<and> eventIdentityPayload pf (er_event r) = eventIdentityPayload pf ev)"
proof -
  let ?db = "fold (store_next pf) cs empty_db"
  have ok: "diff_outbox_ok ?db" by (rule store_run_ok [OF diff_outbox_ok_empty])
  from ok assms show ?thesis
  proof (cases rule: enqueue_Inr)
    case (old ev)
    have b: "branch_queue db = branch_queue ?db" using db_write_effect [OF old(4) ok] by simp
    have k: "record_key r = eventKey input (eventId ev)" using events_wfD(2) [of ?db, OF _ old(2)] ok by (simp add: diff_outbox_ok_def)
    then have "r \<in> set (queue_of ?db (branchKey input))"
      using old(2) by (simp add: queue_of_mem [OF ok] record_key_def eventKey_def record_branch_def branchKey_def)
    then have "er_event r \<in> set (branch_queue db (branchKey input))" by (simp add: b branch_queue_def)
    with old b show ?thesis by (intro exI [of _ ev]) (simp add: Let_def queued_id_iff [OF ok])
  next
    case (new ev)
    have "branch_queue db = (branch_queue ?db)(branchKey input := branch_queue ?db (branchKey input) @ [ev])"
      using db_write_effect [OF new(8) ok] by simp
    with new show ?thesis by (intro exI [of _ ev]) (simp add: Let_def queued_id_iff [OF ok])
  qed
qed

theorem edit_queued_once_witness:
  "branch_queue (demo_outbox [demo_record ''e1'' 0, demo_record ''e2'' 1] 2) (js ''d'', js ''b'') = [demo_edit ''e1'', demo_edit ''e2''] \<and>
   demo_edit ''e2'' \<in> set (branch_queue (demo_outbox [demo_record ''e1'' 0, demo_record ''e2'' 1] 2) (js ''d'', js ''b''))"
proof -
  let ?run = "fold (store_next example_platform) [Call_Enqueue (demo_queueing ''e1'')] empty_db"
  have db: "?run = demo_outbox [demo_record ''e1'' 0] 1" by (simp add: demo_enqueue_first db_after_def)
  have e: "enqueueDiffOutboxEvent example_platform (demo_queueing ''e2'') ?run =
      Inr (demo_record ''e2'' 1, demo_outbox [demo_record ''e1'' 0, demo_record ''e2'' 1] 2)"
    unfolding db by (rule demo_enqueue_second)
  have p: "parseEvent (eq_event (demo_queueing ''e2'')) = Inr (demo_edit ''e2'')"
    using parseEvent_valid [OF demo_edit_valid [of "''e2''"]] by (simp add: demo_queueing_def)
  have q: "branch_queue (demo_outbox [demo_record ''e1'' 0] 1) (js ''d'', js ''b'') = [demo_edit ''e1'']"
    by (simp add: branch_queue_def queue_of_def demo_outbox_def record_branch_def demo_record_def)
  from edit_queued_once [OF e] p show ?thesis unfolding db using q demo_strings(7) by (auto simp: Let_def)
qed

section \<open>Writers\<close>


definition demo_lease :: "string \<Rightarrow> bool \<Rightarrow> DiffOutboxLeaseInput" where
  "demo_lease owner force = \<lparr>sc_rootId = js ''d'', sc_branchId = js ''b'', li_ownerId = js owner, li_leaseDurationMs = 15000,
     li_force = force, li_now = 1\<rparr>"

definition demo_leased :: "string \<Rightarrow> DiffOutboxEventRecord list \<Rightarrow> int \<Rightarrow> outbox_db" where
  "demo_leased owner rs n = \<lparr>db_events = map (\<lambda>r. (record_key r, r)) rs, db_states = [((js ''d'', js ''b''),
     \<lparr>os_rootId = js ''d'', os_branchId = js ''b'', os_nextQueueOrder = n, os_lease = Some \<lparr>wl_rootId = js ''d'', wl_branchId = js ''b'',
       wl_ownerId = js owner, wl_expiresAt = 15001\<rparr>, os_draft = None\<rparr>)]\<rparr>"

lemma demo_times: "isPositiveInteger 15000" "isNonNegativeInteger 15001" "isNonNegativeInteger 0"
  by (simp_all add: isPositiveInteger_def isNonNegativeInteger_def is_safe_integer_def max_safe_integer_def)

lemma demo_acquire:
  "acquireDiffOutboxWriterLease (demo_lease ''t1'' False) (demo_outbox rs n) = Inr (Some \<lparr>wl_rootId = js ''d'', wl_branchId = js ''b'',
     wl_ownerId = js ''t1'', wl_expiresAt = 15001\<rparr>, demo_leased ''t1'' rs n)" if "isNonNegativeInteger n"
  using demo_strings demo_now demo_times that
  by (simp add: acquireDiffOutboxWriterLease_def assertLeaseInput_def demo_lease_def assertScope_def nowFor_def read_state_def
      parseBranchState_def opt_all_def branchKey_def demo_outbox_def demo_leased_def leaseExpiresAt_def lease_of_def states_put_def Let_def)

lemma demo_take_over:
  "acquireDiffOutboxWriterLease (demo_lease ''t2'' True) (demo_leased ''t1'' rs n) = Inr (Some \<lparr>wl_rootId = js ''d'', wl_branchId = js ''b'',
     wl_ownerId = js ''t2'', wl_expiresAt = 15001\<rparr>, demo_leased ''t2'' rs n)" if "isNonNegativeInteger n"
  using demo_strings demo_now demo_times that
  by (simp add: acquireDiffOutboxWriterLease_def assertLeaseInput_def demo_lease_def assertScope_def nowFor_def read_state_def
      parseBranchState_def opt_all_def branchKey_def demo_leased_def leaseExpiresAt_def lease_of_def states_put_def Let_def)

definition demo_writer :: "string \<Rightarrow> DiffOutboxWriter" where
  "demo_writer owner = \<lparr>sc_rootId = js ''d'', sc_branchId = js ''b'', rl_ownerId = js owner, wr_now = 2\<rparr>"


section \<open>Order\<close>

text \<open>
  C7: Edits leave a branch's outbox in the order they were made. However the tabs interleave, when a drain has an event at the
  transport, every event of the same branch that was queued earlier has been confirmed by an append receipt or was discarded with
  its branch after it was queued; no event overtakes a pending one.
\<close>

theorem sends_in_order:
  assumes "reachable outbox_init (outbox_step pf any_answer) s" "(options, scope, Sending c r) \<in> set (ob_drains s)"
    and "ob_log s = xs @ Event_Queued (branchKey scope) ev n # ys" "n < er_queueOrder r"
  shows "Event_Confirmed (branchKey scope) (eventId ev) \<in> set (ob_log s) \<or> Branch_Discarded (branchKey scope) \<in> set ys"
proof -
  have ok: "sync_ok s" by (rule outbox_runs.reachable_inv [OF assms(1)])
  then have "drain_ok (ob_db s) (ob_log s) (options, scope, Sending c r)" using assms(2) unfolding sync_ok_def by blast
  then have "at_head (ob_db s) (branchKey scope) r" by simp
  then have "\<not> queued (ob_db s) (branchKey scope) ev n" using assms(4) unfolding at_head_def by force
  moreover have "history_ok (ob_db s) (ob_log s)" using ok by (simp add: sync_ok_def)
  ultimately show ?thesis using assms(3) unfolding history_ok_def by blast
qed

abbreviation demo_k :: branch_key where "demo_k \<equiv> (js ''d'', js ''b'')"

definition demo_two :: "drain list \<Rightarrow> happening list \<Rightarrow> outbox_system" where
  "demo_two ds hs = \<lparr>ob_db = demo_outbox [demo_record ''e1'' 0, demo_record ''e2'' 1] 2, ob_drains = ds,
     ob_log = [Event_Queued demo_k (demo_edit ''e1'') 0, Event_Queued demo_k (demo_edit ''e2'') 1] @ hs\<rparr>"

lemma demo_two_reachable: "reachable outbox_init (outbox_step pf net) (demo_two [] [])"
proof -
  let ?s0 = "\<lparr>ob_db = empty_db, ob_drains = [], ob_log = []\<rparr>"
  let ?s1 = "\<lparr>ob_db = demo_outbox [demo_record ''e1'' 0] 1, ob_drains = [], ob_log = [Event_Queued demo_k (demo_edit ''e1'') 0]\<rparr>"
  have "reachable outbox_init (outbox_step pf net) ?s0" by (rule reachable.start) (simp add: outbox_init_def)
  moreover have "outbox_step pf net ?s0 ?s1"
    using outbox_step.calls [of "Call_Enqueue (demo_queueing ''e1'')" pf net ?s0] by (simp add: demo_enqueue_first db_after_def) (simp add: empty_db_def)
  moreover have "outbox_step pf net ?s1 (demo_two [] [])"
    using outbox_step.calls [of "Call_Enqueue (demo_queueing ''e2'')" pf net ?s1] demo_strings(7)
    by (simp add: demo_enqueue_second db_after_def demo_two_def) (simp add: demo_outbox_def)
  ultimately show ?thesis by (blast intro: reachable.move)
qed

lemma demo_parse_list:
  "listDiffOutboxEvents demo_outbox_scope (demo_outbox [demo_record ''e1'' 0, demo_record ''e2'' 1] 2) =
     Inr [demo_record ''e1'' 0, demo_record ''e2'' 1]"
  "listDiffOutboxEvents demo_outbox_scope (demo_outbox [demo_record ''e2'' 1] 2) = Inr [demo_record ''e2'' 1]"
  using demo_strings demo_parse [of "''e1''" 0] demo_parse [of "''e2''" 1] demo_now demo_times(3)
  by (simp_all add: listDiffOutboxEvents_def assertScope_def demo_outbox_scope_def queue_range_def demo_outbox_def
      demo_record_def max_safe_integer_def)

lemma demo_matches: "hasMatchingAcknowledgement (Some (demo_answer i)) demo_outbox_scope (js i)"
  by (simp add: hasMatchingAcknowledgement_def hasConfirmedDropDiffAppendReceipt_def demo_answer_def demo_outbox_scope_def opt_all_def
      isDropDiffAppendResponse_def isNonNegativeSafeInteger_def isAcknowledgement_def is_safe_integer_def max_safe_integer_def)

lemma demo_acknowledged:
  "acknowledgeDiffOutboxEvent \<lparr>sc_rootId = sc_rootId demo_outbox_scope, sc_branchId = sc_branchId demo_outbox_scope, oi_eventId = js ''e1''\<rparr>
     None (demo_outbox [demo_record ''e1'' 0, demo_record ''e2'' 1] 2) = Inr (True, demo_outbox [demo_record ''e2'' 1] 2)"
  using demo_strings demo_parse [of "''e1''" 0] demo_times(3)
  by (simp add: acknowledgeDiffOutboxEvent_def assertScope_def demo_outbox_scope_def writer_fence_def writer_active_def eventKey_def demo_outbox_def)

definition demo_sending :: outbox_system where
  "demo_sending = \<lparr>ob_db = demo_outbox [demo_record ''e2'' 1] 2, ob_drains = [(unfenced, demo_outbox_scope, Sending 1 (demo_record ''e2'' 1))],
     ob_log = [Event_Queued demo_k (demo_edit ''e1'') 0, Event_Queued demo_k (demo_edit ''e2'') 1, Event_Confirmed demo_k (js ''e1'')]\<rparr>"

lemma deliverable_any: "deliverable any_answer scope pt e"
  by (cases "(any_answer, scope, pt, e)" rule: deliverable.cases) (simp_all add: any_answer_def)

lemma demo_drain_step:
  assumes "reachable outbox_init (outbox_step pf any_answer) s" "ob_drains s = [(unfenced, demo_outbox_scope, pt)]"
    and "drain_step unfenced demo_outbox_scope pt e (ob_db s) = Some (pt', db)"
    and "t = s \<lparr>ob_db := db, ob_drains := [(unfenced, demo_outbox_scope, pt')], ob_log := ob_log s @ send_log demo_outbox_scope pt e\<rparr>"
  shows "reachable outbox_init (outbox_step pf any_answer) t"
  using outbox_step.advances [of s "[]" unfenced demo_outbox_scope pt "[]" any_answer e pt' db pf] deliverable_any assms reachable.move by fastforce

lemma demo_sending_reachable: "reachable outbox_init (outbox_step pf any_answer) demo_sending"
proof -
  note [simp] = after_listing_def unfenced_def writerId_def writer_at_def
  let ?two = "demo_outbox [demo_record ''e1'' 0, demo_record ''e2'' 1] 2" and ?one = "demo_outbox [demo_record ''e2'' 1] 2"
  let ?r1 = "demo_record ''e1'' 0" and ?h = "[Event_Confirmed demo_k (js ''e1'')]"
  let ?at = "\<lambda>pt hs. demo_two [(unfenced, demo_outbox_scope, pt)] hs"
  have "reachable outbox_init (outbox_step pf any_answer) (?at (Listing 0) [])"
    using reachable.move [OF demo_two_reachable outbox_step.starts [where options = unfenced and scope = demo_outbox_scope]] by (simp add: demo_two_def)
  then have "reachable outbox_init (outbox_step pf any_answer) (?at (Sending 0 ?r1) [])"
    by (rule demo_drain_step [where e = "Db_Done 1 1" and pt = "Listing 0" and pt' = "Sending 0 ?r1" and db = ?two]) (simp_all add: demo_two_def demo_parse_list)
  then have "reachable outbox_init (outbox_step pf any_answer) (?at (Confirming 0 ?r1) ?h)"
    by (rule demo_drain_step [where e = "Answered (Some (demo_answer ''e1''))" and pt = "Sending 0 ?r1" and pt' = "Confirming 0 ?r1" and db = ?two]) (simp_all add: demo_two_def demo_matches)
  then have "reachable outbox_init (outbox_step pf any_answer) (demo_sending \<lparr>ob_drains := [(unfenced, demo_outbox_scope, Listing 1)]\<rparr>)"
    by (rule demo_drain_step [where e = "Db_Done 1 1" and pt = "Confirming 0 ?r1" and pt' = "Listing 1" and db = ?one])
      (simp_all add: demo_two_def demo_sending_def demo_acknowledged)
  then show ?thesis
    by (rule demo_drain_step [where e = "Db_Done 1 1" and pt = "Listing 1" and pt' = "Sending 1 (demo_record ''e2'' 1)" and db = ?one])
      (simp_all add: demo_sending_def demo_parse_list)
qed

theorem sends_in_order_witness:
  "Event_Confirmed demo_k (js ''e1'') \<in> set (ob_log demo_sending) \<or>
   Branch_Discarded demo_k \<in> set [Event_Queued demo_k (demo_edit ''e2'') 1, Event_Confirmed demo_k (js ''e1'')]"
  using sends_in_order [OF demo_sending_reachable [where pf = example_platform], where options = unfenced and scope = demo_outbox_scope and c = 1
      and r = "demo_record ''e2'' 1" and xs = "[]" and ev = "demo_edit ''e1''" and n = 0
      and ys = "[Event_Queued demo_k (demo_edit ''e2'') 1, Event_Confirmed demo_k (js ''e1'')]"]
  by (simp add: demo_sending_def)

section \<open>Progress\<close>


definition demo_tab :: surroundings where
  "demo_tab = \<lparr>su_clientId = js ''t1'', su_now = 1, su_paused = False, su_publishEvent = (\<lambda>e. Inr (Some (demo_answer ''e1'')))\<rparr>"

lemma demo_leased_ok: "diff_outbox_ok (demo_leased ''t1'' [demo_record ''e1'' 0] 1)"
proof -
  let ?cs = "[Call_Enqueue (demo_queueing ''e1''), Call_Acquire (demo_lease ''t1'' False)]"
  have "fold (store_next example_platform) ?cs empty_db = demo_leased ''t1'' [demo_record ''e1'' 0] 1"
    using demo_now by (simp add: demo_enqueue_first demo_acquire db_after_def)
  then show ?thesis using store_run_ok [OF diff_outbox_ok_empty, of example_platform ?cs] by simp
qed

lemma demo_leased_queue: "queue_of (demo_leased ''t1'' [demo_record ''e1'' 0] 1) demo_k = [demo_record ''e1'' 0]"
  by (simp add: queue_of_def demo_leased_def record_branch_def demo_record_def)


section \<open>Delivery\<close>


definition no_answer :: network where
  "no_answer k i v \<longleftrightarrow> False"

lemma quiet_run:
  assumes "reachable outbox_init (outbox_step example_platform no_answer) s"
  shows "reachable (edit_init example_platform) (edit_step example_platform)
    \<lparr>ed_client = s, ed_plane = (demo_plane (js ''owner''), []), ed_answers = []\<rparr>"
  using assms
proof (induction rule: reachable.induct)
  case (start s)
  then show ?case using demo_start [OF demo_id_owner] by (intro reachable.start) (simp add: edit_init_def)
next
  case (move s t)
  let ?x = "\<lparr>ed_client = s, ed_plane = (demo_plane (js ''owner''), []), ed_answers = []\<rparr>"
  have "plane_answers ?x = no_answer" by (simp add: fun_eq_iff plane_answers_def no_answer_def)
  with reachable.move [OF move.IH works, of t] move.hyps(2) show ?case by simp
qed


end
