(* ===== verification/Branch_Lock.thy ===== *)
theory Branch_Lock
  imports Plane_Steps
begin

text \<open>
  The lock around branch mutations in object storage: \<^verbatim>\<open>functions/api/_lib/branches/storage/mutation-lock.ts\<close>, over the conditional
  writes of the blob store (\<^verbatim>\<open>src/server/filesystem-blob-store.ts\<close>).

  A process is a machine over the waits of \<^verbatim>\<open>withBranchMutationLock\<close>: the attempts to acquire, the work with its calls of
  \<^verbatim>\<open>beginCommit\<close>, the renewal that a timer runs beside it, the ownership check after the work and the release. Every storage call
  may fail, also after it was applied, and a body may be unreadable. Conditional writes are atomic, as the store promises. The entity
  tags of the store are a parameter of which only \<open>etags_identify\<close> is asked: equal tags mean equal bodies, as for a digest of the content.

  Work awaits its calls of \<^verbatim>\<open>beginCommit\<close> and throws values that are not falsy; times are whole milliseconds. A write that fails is
  applied at once or never. Backoff and the console warning are not modelled, the latter but for the fact that it is given.
\<close>

section \<open>The lock object\<close>

record BranchLockPayload =
  lp_token :: jstring
  lp_createdAt :: int
  lp_releasedAt :: "int option"

text \<open>A stored text that parses as a lock payload, or any other.\<close>

datatype lock_body = Lock_Body BranchLockPayload | Malformed_Body jstring

type_synonym tagging = "lock_body \<Rightarrow> nat \<Rightarrow> jstring"

definition etags_identify :: "tagging \<Rightarrow> bool" where
  "etags_identify tag \<longleftrightarrow> (\<forall>b n b' n'. tag b n = tag b' n' \<longrightarrow> b = b') \<and> (\<forall>b n. tag b n \<noteq> [])"

record bucket =
  bk_object :: "(lock_body \<times> nat) option"
  bk_writes :: nat

datatype put_condition = If_Absent | If_Matches "jstring option"

fun put_allowed :: "tagging \<Rightarrow> put_condition \<Rightarrow> bucket \<Rightarrow> bool" where
  "put_allowed tag If_Absent bk = (bk_object bk = None)"
| "put_allowed tag (If_Matches None) bk = True"
| "put_allowed tag (If_Matches (Some e)) bk =
     (e = [] \<or> (case bk_object bk of None \<Rightarrow> False | Some (b, n) \<Rightarrow> tag b n = e))"

definition bucket_put :: "tagging \<Rightarrow> lock_body \<Rightarrow> put_condition \<Rightarrow> bucket \<Rightarrow> jstring option \<times> bucket" where
  "bucket_put tag body condition bk =
     (if put_allowed tag condition bk
      then (Some (tag body (bk_writes bk)), bk \<lparr>bk_object := Some (body, bk_writes bk), bk_writes := bk_writes bk + 1\<rparr>)
      else (None, bk))"

definition parseBranchLockPayload :: "lock_body \<Rightarrow> BranchLockPayload option" where
  "parseBranchLockPayload body = (case body of Lock_Body p \<Rightarrow> Some p | Malformed_Body _ \<Rightarrow> None)"

definition lockBody :: "jstring \<Rightarrow> int \<Rightarrow> bool \<Rightarrow> lock_body" where
  "lockBody token now released =
     Lock_Body \<lparr>lp_token = token, lp_createdAt = now, lp_releasedAt = (if released then Some now else None)\<rparr>"

text \<open>Payload and tag of what is stored; the payload is missing when the body cannot be read.\<close>

definition readBranchLock :: "tagging \<Rightarrow> bool \<Rightarrow> bucket \<Rightarrow> BranchLockPayload option \<times> jstring option" where
  "readBranchLock tag readable bk = (case bk_object bk of
     None \<Rightarrow> (None, None)
   | Some (b, n) \<Rightarrow> (if readable then parseBranchLockPayload b else None, Some (tag b n)))"

definition truthy :: "jstring option \<Rightarrow> bool" where
  "truthy e \<longleftrightarrow> e \<noteq> None \<and> e \<noteq> Some []"

definition owns :: "jstring \<Rightarrow> BranchLockPayload option \<times> jstring option \<Rightarrow> bool" where
  "owns token current = (case current of
     (Some p, e) \<Rightarrow> lp_token p = token \<and> lp_releasedAt p = None \<and> truthy e
   | (None, _) \<Rightarrow> False)"

section \<open>Renewal\<close>

datatype BranchLockOwnershipOutcome = Held | Not_Held | Ownership_Unknown

datatype BranchLockReleaseOutcome = Released | Release_Not_Held | Release_Unknown

text \<open>How a storage call ends: with its answer, with an unreadable body, with a failure, or with a failure after a write was applied.\<close>

datatype lock_io = Io_Done int | Io_Unreadable int | Io_Failed | Io_Applied int

datatype renew_point = Renew_Reading | Renew_Putting jstring | Renew_Recovering | Renew_Done BranchLockOwnershipOutcome

fun recoverOwnedLease ::
  "tagging \<Rightarrow> jstring \<Rightarrow> jstring option \<Rightarrow> lock_io \<Rightarrow> bucket \<Rightarrow> BranchLockOwnershipOutcome \<times> jstring option" where
  "recoverOwnedLease tag token lease (Io_Done now) bk =
     (let current = readBranchLock tag True bk in if owns token current then (Held, snd current) else (Not_Held, lease))"
| "recoverOwnedLease tag token lease (Io_Unreadable now) bk = (Not_Held, lease)"
| "recoverOwnedLease tag token lease _ bk = (Ownership_Unknown, lease)"

fun renew_step ::
  "tagging \<Rightarrow> jstring \<Rightarrow> renew_point \<Rightarrow> jstring option \<Rightarrow> lock_io \<Rightarrow> bucket \<Rightarrow> renew_point \<times> jstring option \<times> bucket" where
  "renew_step tag token Renew_Reading lease (Io_Done now) bk =
     (let current = readBranchLock tag True bk
      in (if owns token current then Renew_Putting (the (snd current)) else Renew_Done Not_Held, lease, bk))"
| "renew_step tag token Renew_Reading lease (Io_Unreadable now) bk = (Renew_Done Not_Held, lease, bk)"
| "renew_step tag token Renew_Reading lease _ bk = (Renew_Recovering, lease, bk)"
| "renew_step tag token (Renew_Putting e) lease (Io_Done now) bk =
     (case bucket_put tag (lockBody token now False) (If_Matches (Some e)) bk of
        (Some e', bk') \<Rightarrow> (Renew_Done Held, Some e', bk')
      | (None, bk') \<Rightarrow> (Renew_Recovering, lease, bk'))"
| "renew_step tag token (Renew_Putting e) lease (Io_Applied now) bk =
     (Renew_Recovering, lease, snd (bucket_put tag (lockBody token now False) (If_Matches (Some e)) bk))"
| "renew_step tag token (Renew_Putting e) lease _ bk = (Renew_Recovering, lease, bk)"
| "renew_step tag token Renew_Recovering lease io bk =
     (let (outcome, lease') = recoverOwnedLease tag token lease io bk in (Renew_Done outcome, lease', bk))"
| "renew_step tag token (Renew_Done outcome) lease io bk = (Renew_Done outcome, lease, bk)"

section \<open>One process\<close>

definition BRANCH_LOCK_MAX_ATTEMPTS :: nat where "BRANCH_LOCK_MAX_ATTEMPTS = 120"
definition BRANCH_LOCK_STALE_MS :: int where "BRANCH_LOCK_STALE_MS = 300000"

datatype lock_code = Branch_Lock_Timeout | Branch_Lock_Lost_Before_Commit | Branch_Mutation_Outcome_Unknown
datatype BranchMutationLockOutcome = Lock_Not_Committed | Lock_Outcome_Unknown
datatype work_error = Lock_Error lock_code BranchMutationLockOutcome | Other_Error
datatype work_result = Work_Returned | Work_Threw work_error
datatype lock_outcome = Succeeded | Succeeded_Warned | Threw work_error

text \<open>The waits of a process; a beginning commit and the last checks contain a renewal.\<close>

datatype lock_point =
    Creating nat
  | Create_Recovering nat
  | Inspecting nat
  | Replacing nat jstring
  | Replace_Recovering nat
  | Working
  | Beginning renew_point
  | Awaiting work_result
  | Checking work_result renew_point
  | Releasing work_result renew_point
  | Release_Putting work_result
  | Ended lock_outcome

record locker =
  lk_token :: jstring
  lk_point :: lock_point
  lk_etag :: "jstring option"
  lk_renewal :: "renew_point option"
  lk_lost :: bool
  lk_started :: bool

definition new_locker :: "jstring \<Rightarrow> locker" where
  "new_locker token = \<lparr>lk_token = token, lk_point = Creating 0, lk_etag = None, lk_renewal = None, lk_lost = False, lk_started = False\<rparr>"

definition next_attempt :: "nat \<Rightarrow> lock_point" where
  "next_attempt attempt = (if attempt + 1 < BRANCH_LOCK_MAX_ATTEMPTS then Creating (attempt + 1)
     else Ended (Threw (Lock_Error Branch_Lock_Timeout Lock_Not_Committed)))"

definition replaceable :: "int \<Rightarrow> BranchLockPayload option \<Rightarrow> bool" where
  "replaceable now existing = (case existing of None \<Rightarrow> True
     | Some p \<Rightarrow> lp_releasedAt p \<noteq> None \<or> now - lp_createdAt p > BRANCH_LOCK_STALE_MS)"

definition inspect :: "nat \<Rightarrow> int \<Rightarrow> BranchLockPayload option \<times> jstring option \<Rightarrow> lock_point" where
  "inspect attempt now existing =
     (if replaceable now (fst existing) \<and> truthy (snd existing) then Replacing attempt (the (snd existing)) else next_attempt attempt)"

text \<open>What \<^verbatim>\<open>withBranchMutationLock\<close> reports once the work and the release are over.\<close>

definition lock_result :: "bool \<Rightarrow> bool \<Rightarrow> work_result \<Rightarrow> BranchLockOwnershipOutcome \<Rightarrow> BranchLockReleaseOutcome \<Rightarrow> lock_outcome" where
  "lock_result started lost result ownership release = (case result of
     Work_Threw e \<Rightarrow> if started then Threw (Lock_Error Branch_Mutation_Outcome_Unknown Lock_Outcome_Unknown) else Threw e
   | Work_Returned \<Rightarrow>
       if started then
         if ownership \<noteq> Held \<or> lost then Threw (Lock_Error Branch_Mutation_Outcome_Unknown Lock_Outcome_Unknown)
         else if release \<noteq> Released then Succeeded_Warned else Succeeded
       else if ownership \<noteq> Held then Threw (Lock_Error Branch_Mutation_Outcome_Unknown Lock_Outcome_Unknown)
       else if release = Release_Unknown then Succeeded_Warned else Succeeded)"

definition finish_lock :: "locker \<Rightarrow> work_result \<Rightarrow> BranchLockOwnershipOutcome \<Rightarrow> BranchLockReleaseOutcome \<Rightarrow> lock_point" where
  "finish_lock l result ownership release = Ended (lock_result (lk_started l) (lk_lost l) result ownership release)"

definition release_of :: "BranchLockOwnershipOutcome \<Rightarrow> BranchLockReleaseOutcome" where
  "release_of ownership = (if ownership = Not_Held then Release_Not_Held else Release_Unknown)"

text \<open>What a process does when the storage call it waits for ends, and what of it is worth remembering.\<close>

datatype lock_happening =
    Lock_Acquired (happening_token: jstring)
  | Commit_Began (happening_token: jstring)
  | Lock_Kept (happening_token: jstring)

type_synonym lock_move = "locker \<times> bucket \<times> lock_happening list"

definition go :: "locker \<Rightarrow> lock_point \<Rightarrow> bucket \<Rightarrow> lock_move" where
  "go l pt bk = (l \<lparr>lk_point := pt\<rparr>, bk, [])"

definition enter :: "locker \<Rightarrow> jstring option \<Rightarrow> bucket \<Rightarrow> lock_move" where
  "enter l e bk = (l \<lparr>lk_point := Working, lk_etag := e\<rparr>, bk, [Lock_Acquired (lk_token l)])"

definition recovered :: "tagging \<Rightarrow> locker \<Rightarrow> lock_point \<Rightarrow> lock_io \<Rightarrow> bucket \<Rightarrow> lock_move" where
  "recovered tag l otherwise io bk = (case recoverOwnedLease tag (lk_token l) (lk_etag l) io bk of
     (Held, e) \<Rightarrow> enter l e bk | _ \<Rightarrow> go l otherwise bk)"

fun acquire_step :: "tagging \<Rightarrow> locker \<Rightarrow> lock_point \<Rightarrow> lock_io \<Rightarrow> bucket \<Rightarrow> lock_move option" where
  "acquire_step tag l (Creating n) (Io_Done now) bk =
     Some (case bucket_put tag (lockBody (lk_token l) now False) If_Absent bk of
       (Some e, bk') \<Rightarrow> enter l (Some e) bk' | (None, bk') \<Rightarrow> go l (Inspecting n) bk')"
| "acquire_step tag l (Creating n) (Io_Applied now) bk =
     Some (go l (Create_Recovering n) (snd (bucket_put tag (lockBody (lk_token l) now False) If_Absent bk)))"
| "acquire_step tag l (Creating n) _ bk = Some (go l (Create_Recovering n) bk)"
| "acquire_step tag l (Create_Recovering n) io bk = Some (recovered tag l (Inspecting n) io bk)"
| "acquire_step tag l (Inspecting n) (Io_Done now) bk = Some (go l (inspect n now (readBranchLock tag True bk)) bk)"
| "acquire_step tag l (Inspecting n) (Io_Unreadable now) bk = Some (go l (inspect n now (readBranchLock tag False bk)) bk)"
| "acquire_step tag l (Inspecting n) _ bk = Some (go l (Ended (Threw Other_Error)) bk)"
| "acquire_step tag l (Replacing n e) (Io_Done now) bk =
     Some (case bucket_put tag (lockBody (lk_token l) now False) (If_Matches (Some e)) bk of
       (Some e', bk') \<Rightarrow> enter l (Some e') bk' | (None, bk') \<Rightarrow> go l (next_attempt n) bk')"
| "acquire_step tag l (Replacing n e) (Io_Applied now) bk =
     Some (go l (Replace_Recovering n) (snd (bucket_put tag (lockBody (lk_token l) now False) (If_Matches (Some e)) bk)))"
| "acquire_step tag l (Replacing n e) _ bk = Some (go l (Replace_Recovering n) bk)"
| "acquire_step tag l (Replace_Recovering n) io bk = Some (recovered tag l (next_attempt n) io bk)"
| "acquire_step tag l pt io bk = None"

definition begin_step :: "tagging \<Rightarrow> locker \<Rightarrow> renew_point \<Rightarrow> lock_io \<Rightarrow> bucket \<Rightarrow> lock_move" where
  "begin_step tag l pt io bk = (case renew_step tag (lk_token l) pt (lk_etag l) io bk of
     (Renew_Done ownership, e, bk') \<Rightarrow>
       if ownership = Held
       then (l \<lparr>lk_point := Working, lk_etag := e, lk_started := True\<rparr>, bk', [Commit_Began (lk_token l)])
       else (l \<lparr>lk_point := Working, lk_etag := e\<rparr>, bk', [])
   | (pt', e, bk') \<Rightarrow> (l \<lparr>lk_point := Beginning pt', lk_etag := e\<rparr>, bk', []))"

definition check_step :: "tagging \<Rightarrow> locker \<Rightarrow> work_result \<Rightarrow> renew_point \<Rightarrow> lock_io \<Rightarrow> bucket \<Rightarrow> lock_move" where
  "check_step tag l result pt io bk = (case renew_step tag (lk_token l) pt (lk_etag l) io bk of
     (Renew_Done ownership, e, bk') \<Rightarrow>
       if ownership = Held
       then (l \<lparr>lk_point := Releasing result Renew_Reading, lk_etag := e\<rparr>, bk', [Lock_Kept (lk_token l)])
       else (l \<lparr>lk_point := finish_lock l result ownership (release_of ownership), lk_etag := e\<rparr>, bk', [])
   | (pt', e, bk') \<Rightarrow> (l \<lparr>lk_point := Checking result pt', lk_etag := e\<rparr>, bk', []))"

definition release_step :: "tagging \<Rightarrow> locker \<Rightarrow> work_result \<Rightarrow> renew_point \<Rightarrow> lock_io \<Rightarrow> bucket \<Rightarrow> lock_move" where
  "release_step tag l result pt io bk = (case renew_step tag (lk_token l) pt (lk_etag l) io bk of
     (Renew_Done ownership, e, bk') \<Rightarrow>
       (l \<lparr>lk_point := (if ownership = Held then Release_Putting result else finish_lock l result Held (release_of ownership)),
           lk_etag := e\<rparr>, bk', [])
   | (pt', e, bk') \<Rightarrow> (l \<lparr>lk_point := Releasing result pt', lk_etag := e\<rparr>, bk', []))"

fun release_put :: "tagging \<Rightarrow> locker \<Rightarrow> work_result \<Rightarrow> lock_io \<Rightarrow> bucket \<Rightarrow> lock_move" where
  "release_put tag l result (Io_Done now) bk =
     (case bucket_put tag (lockBody (lk_token l) now True) (If_Matches (lk_etag l)) bk of
        (Some e, bk') \<Rightarrow> (l \<lparr>lk_point := finish_lock l result Held Released, lk_etag := Some e\<rparr>, bk', [])
      | (None, bk') \<Rightarrow> go l (finish_lock l result Held Release_Not_Held) bk')"
| "release_put tag l result (Io_Applied now) bk =
     go l (finish_lock l result Held Release_Unknown) (snd (bucket_put tag (lockBody (lk_token l) now True) (If_Matches (lk_etag l)) bk))"
| "release_put tag l result _ bk = go l (finish_lock l result Held Release_Unknown) bk"

fun lock_step :: "tagging \<Rightarrow> locker \<Rightarrow> lock_io \<Rightarrow> bucket \<Rightarrow> lock_move option" where
  "lock_step tag l io bk = (case lk_point l of
     Beginning pt \<Rightarrow> Some (begin_step tag l pt io bk)
   | Checking result pt \<Rightarrow> Some (check_step tag l result pt io bk)
   | Releasing result pt \<Rightarrow> Some (release_step tag l result pt io bk)
   | Release_Putting result \<Rightarrow> Some (release_put tag l result io bk)
   | pt \<Rightarrow> acquire_step tag l pt io bk)"

text \<open>The renewal of the timer, beside the work.\<close>

definition timer_step :: "tagging \<Rightarrow> locker \<Rightarrow> renew_point \<Rightarrow> lock_io \<Rightarrow> bucket \<Rightarrow> lock_move" where
  "timer_step tag l pt io bk = (case renew_step tag (lk_token l) pt (lk_etag l) io bk of
     (Renew_Done ownership, e, bk') \<Rightarrow>
       (l \<lparr>lk_renewal := None, lk_etag := e, lk_lost := (lk_lost l \<or> ownership \<noteq> Held)\<rparr>, bk', [])
   | (pt', e, bk') \<Rightarrow> (l \<lparr>lk_renewal := Some pt', lk_etag := e\<rparr>, bk', []))"

text \<open>What the work, the timer and the end of a renewal do without storage.\<close>

datatype work_event = Calls_Begin | Work_Ends work_result | Timer_Fires | Renewal_Settled

definition timer_runs :: "lock_point \<Rightarrow> bool" where
  "timer_runs pt = (case pt of Working \<Rightarrow> True | Beginning _ \<Rightarrow> True | _ \<Rightarrow> False)"

fun work_step :: "locker \<Rightarrow> work_event \<Rightarrow> locker option" where
  "work_step l Calls_Begin =
     (if lk_point l \<noteq> Working then None else if lk_lost l then Some l else Some (l \<lparr>lk_point := Beginning Renew_Reading\<rparr>))"
| "work_step l (Work_Ends result) = (if lk_point l \<noteq> Working then None else Some (l \<lparr>lk_point := Awaiting result\<rparr>))"
| "work_step l Timer_Fires =
     (if timer_runs (lk_point l) \<and> lk_renewal l = None then Some (l \<lparr>lk_renewal := Some Renew_Reading\<rparr>) else None)"
| "work_step l Renewal_Settled = (case lk_point l of
     Awaiting result \<Rightarrow> if lk_renewal l = None then Some (l \<lparr>lk_point := Checking result Renew_Reading\<rparr>) else None
   | _ \<Rightarrow> None)"

section \<open>Many processes\<close>

record lock_system =
  ls_bucket :: bucket
  ls_lockers :: "locker list"
  ls_log :: "lock_happening list"

definition body_token :: "lock_body \<Rightarrow> jstring option" where
  "body_token b = map_option lp_token (parseBranchLockPayload b)"

definition stored_token :: "bucket \<Rightarrow> jstring option" where
  "stored_token bk = (case bk_object bk of None \<Rightarrow> None | Some (b, n) \<Rightarrow> body_token b)"

definition lock_init :: "lock_system \<Rightarrow> bool" where
  "lock_init s \<longleftrightarrow> ls_lockers s = [] \<and> ls_log s = []"

text \<open>A process comes with a token of its own (\<^verbatim>\<open>crypto.randomUUID\<close>); whatever the bucket held before is left open.\<close>

inductive locks_step :: "tagging \<Rightarrow> lock_system \<Rightarrow> lock_system \<Rightarrow> bool" for tag where
  joins: "t \<notin> lk_token ` set (ls_lockers s) \<Longrightarrow>
    locks_step tag s (s \<lparr>ls_lockers := new_locker t # ls_lockers s\<rparr>)"
| storage: "ls_lockers s = ls @ l # ls' \<Longrightarrow> lock_step tag l io (ls_bucket s) = Some (l', bk, es) \<Longrightarrow>
    locks_step tag s (s \<lparr>ls_bucket := bk, ls_lockers := ls @ l' # ls', ls_log := ls_log s @ es\<rparr>)"
| timer: "ls_lockers s = ls @ l # ls' \<Longrightarrow> lk_renewal l = Some pt \<Longrightarrow> timer_step tag l pt io (ls_bucket s) = (l', bk, es) \<Longrightarrow>
    locks_step tag s (s \<lparr>ls_bucket := bk, ls_lockers := ls @ l' # ls', ls_log := ls_log s @ es\<rparr>)"
| works: "ls_lockers s = ls @ l # ls' \<Longrightarrow> work_step l e = Some l' \<Longrightarrow> locks_step tag s (s \<lparr>ls_lockers := ls @ l' # ls'\<rparr>)"

section \<open>What a write can replace\<close>

definition tags_own :: "tagging \<Rightarrow> jstring \<Rightarrow> jstring \<Rightarrow> bool" where
  "tags_own tag t e \<longleftrightarrow> (\<exists>b n. e = tag b n \<and> body_token b = Some t)"

definition lock_lease_ok :: "tagging \<Rightarrow> jstring \<Rightarrow> jstring option \<Rightarrow> bool" where
  "lock_lease_ok tag t e \<longleftrightarrow> (\<exists>x. e = Some x \<and> tags_own tag t x)"

definition renew_ok :: "tagging \<Rightarrow> jstring \<Rightarrow> renew_point \<Rightarrow> bool" where
  "renew_ok tag t pt \<longleftrightarrow> (\<forall>e. pt = Renew_Putting e \<longrightarrow> tags_own tag t e)"

lemma body_token_lockBody [simp]: "body_token (lockBody t now r) = Some t"
  by (simp add: body_token_def parseBranchLockPayload_def lockBody_def)

lemma put_stored:
  "bucket_put tag (lockBody t now r) c bk = (Some e, bk') \<Longrightarrow> stored_token bk' = Some t \<and> lock_lease_ok tag t (Some e) \<and> put_allowed tag c bk"
  "bucket_put tag (lockBody t now r) c bk = (None, bk') \<Longrightarrow> bk' = bk"
  by (auto simp: bucket_put_def stored_token_def lock_lease_ok_def tags_own_def split: if_splits intro: exI [of _ "lockBody t now r"])

lemma put_snd:
  "snd (bucket_put tag (lockBody t now r) c bk) = bk \<or>
   put_allowed tag c bk \<and> stored_token (snd (bucket_put tag (lockBody t now r) c bk)) = Some t"
  by (simp add: bucket_put_def stored_token_def)

lemma matches_own:
  assumes "etags_identify tag" "tags_own tag t e" "put_allowed tag (If_Matches (Some e)) bk"
  shows "stored_token bk = Some t"
proof -
  from assms(2) obtain b n where b: "e = tag b n" "body_token b = Some t" by (auto simp: tags_own_def)
  then have "e \<noteq> []" using assms(1) by (auto simp: etags_identify_def)
  with assms(3) obtain b' n' where b': "bk_object bk = Some (b', n')" "tag b' n' = e" by (auto split: option.splits prod.splits)
  with b(1) assms(1) have "b' = b" unfolding etags_identify_def by metis
  with b(2) b'(1) show ?thesis by (simp add: stored_token_def)
qed

lemma owns_stored:
  assumes "owns t (readBranchLock tag r bk)"
  shows "stored_token bk = Some t" "tags_own tag t (the (snd (readBranchLock tag r bk)))" "lock_lease_ok tag t (snd (readBranchLock tag r bk))"
  using assms
  by (auto simp: owns_def readBranchLock_def stored_token_def body_token_def tags_own_def lock_lease_ok_def split: option.splits prod.splits if_splits
      intro!: exI)

lemma recover_Held:
  "recoverOwnedLease tag t lease io bk = (Held, e) \<Longrightarrow> stored_token bk = Some t \<and> lock_lease_ok tag t e"
  by (cases "(tag, t, lease, io, bk)" rule: recoverOwnedLease.cases) (auto simp: Let_def owns_stored split: if_splits)

lemma recover_lease:
  "recoverOwnedLease tag t lease io bk = (x, e) \<Longrightarrow> lock_lease_ok tag t lease \<Longrightarrow> lock_lease_ok tag t e"
  by (cases "(tag, t, lease, io, bk)" rule: recoverOwnedLease.cases) (auto simp: Let_def owns_stored split: if_splits)

lemma renew_step_keeps:
  assumes tag: "etags_identify tag" and ok: "renew_ok tag t pt" "lock_lease_ok tag t lease"
    and st: "renew_step tag t pt lease io bk = (pt', lease', bk')"
  shows "renew_ok tag t pt'" "lock_lease_ok tag t lease'" "bk' = bk \<or> stored_token bk = Some t \<and> stored_token bk' = Some t"
    "pt' = Renew_Done Held \<Longrightarrow> pt \<noteq> Renew_Done Held \<Longrightarrow> stored_token bk = Some t \<and> stored_token bk' = Some t"
proof -
  have "renew_ok tag t pt' \<and> lock_lease_ok tag t lease' \<and> (bk' = bk \<or> stored_token bk = Some t \<and> stored_token bk' = Some t) \<and>
     (pt' = Renew_Done Held \<longrightarrow> pt \<noteq> Renew_Done Held \<longrightarrow> stored_token bk = Some t \<and> stored_token bk' = Some t)"
  proof (cases "\<exists>e. pt = Renew_Putting e")
    case True
    then obtain e where pt: "pt = Renew_Putting e" by blast
    have own: "put_allowed tag (If_Matches (Some e)) bk \<Longrightarrow> stored_token bk = Some t"
      using matches_own [OF tag] ok(1) by (simp add: pt renew_ok_def)
    show ?thesis
    proof (cases io)
      case (Io_Done now)
      obtain x y where x: "bucket_put tag (lockBody t now False) (If_Matches (Some e)) bk = (x, y)" by fastforce
      with st ok own put_stored [of tag t now False "If_Matches (Some e)" bk] show ?thesis
        by (cases x) (auto simp: pt Io_Done renew_ok_def simp del: put_allowed.simps)
    next
      case (Io_Applied now)
      from put_snd [of tag t now False "If_Matches (Some e)" bk] st ok own show ?thesis
        by (auto simp: pt Io_Applied renew_ok_def simp del: put_allowed.simps)
    qed (use st ok in \<open>auto simp: pt renew_ok_def\<close>)
  next
    case False
    with st ok show ?thesis
      by (cases "(tag, t, pt, lease, io, bk)" rule: renew_step.cases)
        (auto simp: Let_def renew_ok_def owns_stored recover_lease dest: recover_Held split: if_splits prod.splits)
  qed
  then show "renew_ok tag t pt'" "lock_lease_ok tag t lease'" "bk' = bk \<or> stored_token bk = Some t \<and> stored_token bk' = Some t"
    "pt' = Renew_Done Held \<Longrightarrow> pt \<noteq> Renew_Done Held \<Longrightarrow> stored_token bk = Some t \<and> stored_token bk' = Some t" by blast+
qed

section \<open>The invariant of a process\<close>

fun acquiring :: "lock_point \<Rightarrow> bool" where
  "acquiring (Creating n) = True"
| "acquiring (Create_Recovering n) = True"
| "acquiring (Inspecting n) = True"
| "acquiring (Replacing n e) = True"
| "acquiring (Replace_Recovering n) = True"
| "acquiring _ = False"

definition opened :: "jstring \<Rightarrow> lock_happening set \<Rightarrow> bool" where
  "opened t hs \<longleftrightarrow> Lock_Acquired t \<in> hs \<and> Lock_Kept t \<notin> hs"

definition unknown_outcome :: lock_outcome where
  "unknown_outcome = Threw (Lock_Error Branch_Mutation_Outcome_Unknown Lock_Outcome_Unknown)"

fun point_ok :: "tagging \<Rightarrow> jstring \<Rightarrow> lock_happening set \<Rightarrow> lock_point \<Rightarrow> bool" where
  "point_ok tag t hs Working = opened t hs"
| "point_ok tag t hs (Awaiting r) = opened t hs"
| "point_ok tag t hs (Beginning pt) = (renew_ok tag t pt \<and> pt \<noteq> Renew_Done Held \<and> opened t hs)"
| "point_ok tag t hs (Checking r pt) = (renew_ok tag t pt \<and> pt \<noteq> Renew_Done Held \<and> opened t hs)"
| "point_ok tag t hs (Releasing r pt) = (renew_ok tag t pt \<and> pt \<noteq> Renew_Done Held \<and> Lock_Kept t \<in> hs)"
| "point_ok tag t hs (Release_Putting r) = (Lock_Kept t \<in> hs)"
| "point_ok tag t hs (Ended out) =
     ((Commit_Began t \<in> hs \<longrightarrow> out \<in> {Succeeded, Succeeded_Warned, unknown_outcome}) \<and>
      (out \<in> {Succeeded, Succeeded_Warned} \<longrightarrow> Lock_Kept t \<in> hs))"
| "point_ok tag t hs _ = True"

fun ended_lock :: "lock_point \<Rightarrow> bool" where
  "ended_lock (Ended out) = True"
| "ended_lock _ = False"

fun in_work :: "lock_point \<Rightarrow> bool" where
  "in_work Working = True"
| "in_work (Beginning pt) = True"
| "in_work (Awaiting r) = True"
| "in_work _ = False"

definition locker_ok :: "tagging \<Rightarrow> lock_happening set \<Rightarrow> locker \<Rightarrow> bool" where
  "locker_ok tag hs l \<longleftrightarrow>
     (acquiring (lk_point l) \<longrightarrow> (\<forall>h \<in> hs. happening_token h \<noteq> lk_token l)) \<and>
     (\<not> acquiring (lk_point l) \<and> \<not> ended_lock (lk_point l) \<longrightarrow> lock_lease_ok tag (lk_token l) (lk_etag l)) \<and>
     (\<forall>pt. lk_renewal l = Some pt \<longrightarrow> renew_ok tag (lk_token l) pt \<and> pt \<noteq> Renew_Done Held \<and> in_work (lk_point l)) \<and>
     (lk_started l \<longleftrightarrow> Commit_Began (lk_token l) \<in> hs) \<and> point_ok tag (lk_token l) hs (lk_point l)"

text \<open>What one step of a process with token \<open>t\<close> does to the store and to the history.\<close>

definition fair_move :: "jstring \<Rightarrow> bool \<Rightarrow> bucket \<Rightarrow> bucket \<Rightarrow> lock_happening list \<Rightarrow> bool" where
  "fair_move t entering bk bk' es \<longleftrightarrow>
     (bk' = bk \<or> stored_token bk' = Some t \<and> (entering \<or> stored_token bk = Some t)) \<and>
     (es = [] \<or> stored_token bk' = Some t \<and>
       (entering \<and> es = [Lock_Acquired t] \<or> \<not> entering \<and> stored_token bk = Some t \<and> es \<in> {[Commit_Began t], [Lock_Kept t]}))"

lemma lock_result_honest:
  "started \<Longrightarrow> lock_result started lost r ownership release \<in> {Succeeded, Succeeded_Warned, unknown_outcome}"
  "lock_result started lost r ownership release \<in> {Succeeded, Succeeded_Warned} \<Longrightarrow> ownership = Held"
  by (auto simp: lock_result_def unknown_outcome_def split: work_result.splits if_splits)

lemma finish_lock_ok:
  assumes "lk_started l \<longleftrightarrow> Commit_Began t \<in> hs" "ownership = Held \<Longrightarrow> Lock_Kept t \<in> hs"
  shows "point_ok tag t hs (finish_lock l r ownership release)"
  using assms lock_result_honest [of "lk_started l" "lk_lost l" r ownership release] by (auto simp: finish_lock_def)

lemma finish_lock_point [simp]:
  "\<not> acquiring (finish_lock l r ownership release)" "ended_lock (finish_lock l r ownership release)"
  "\<not> in_work (finish_lock l r ownership release)"
  by (simp_all add: finish_lock_def)

lemma enter_keeps:
  assumes "locker_ok tag hs l" "acquiring (lk_point l)" "lock_lease_ok tag (lk_token l) e" "stored_token bk' = Some (lk_token l)"
  shows "fair_move (lk_token l) True bk bk' [Lock_Acquired (lk_token l)]"
    "locker_ok tag (insert (Lock_Acquired (lk_token l)) hs) (l \<lparr>lk_point := Working, lk_etag := e\<rparr>)"
proof -
  have "Commit_Began (lk_token l) \<notin> hs" "Lock_Kept (lk_token l) \<notin> hs" "\<not> lk_started l" "lk_renewal l = None"
    using assms(1,2) by (auto simp: locker_ok_def) (cases "lk_point l"; cases "lk_renewal l"; auto)+
  then show "locker_ok tag (insert (Lock_Acquired (lk_token l)) hs) (l \<lparr>lk_point := Working, lk_etag := e\<rparr>)"
    using assms(3) by (simp add: locker_ok_def opened_def)
qed (use assms(4) in \<open>simp add: fair_move_def\<close>)

lemma stay_keeps:
  assumes "locker_ok tag hs l" "acquiring (lk_point l)" "acquiring pt \<or> (\<exists>out. pt = Ended out \<and> out \<notin> {Succeeded, Succeeded_Warned})"
  shows "locker_ok tag hs (l \<lparr>lk_point := pt\<rparr>)"
proof -
  have n: "\<forall>h \<in> hs. happening_token h \<noteq> lk_token l" "\<not> lk_started l" "lk_renewal l = None"
    using assms(1,2) by (auto simp: locker_ok_def) (cases "lk_point l"; cases "lk_renewal l"; auto)+
  from assms(3) show ?thesis
  proof (elim disjE exE conjE)
    assume "acquiring pt"
    with n show ?thesis by (cases pt) (auto simp: locker_ok_def)
  next
    fix out assume "pt = Ended out" "out \<notin> {Succeeded, Succeeded_Warned}"
    with n show ?thesis by (auto simp: locker_ok_def)
  qed
qed

lemma next_attempt_point:
  "acquiring (next_attempt n) \<or> (\<exists>out. next_attempt n = Ended out \<and> out \<notin> {Succeeded, Succeeded_Warned})"
  by (simp add: next_attempt_def)

lemma inspect_point:
  "acquiring (inspect n now x) \<or> (\<exists>out. inspect n now x = Ended out \<and> out \<notin> {Succeeded, Succeeded_Warned})"
  using next_attempt_point by (simp add: inspect_def)

lemma put_fair: "fair_move t True bk (snd (bucket_put tag (lockBody t now r) c bk)) []"
  using put_snd [of tag t now r c bk] by (auto simp: fair_move_def)

lemma recovered_keeps:
  assumes ok: "locker_ok tag hs l" "acquiring (lk_point l)"
    and pt: "acquiring pt \<or> (\<exists>out. pt = Ended out \<and> out \<notin> {Succeeded, Succeeded_Warned})" and m: "recovered tag l pt io bk = (l', bk', es)"
  shows "lk_token l' = lk_token l \<and> fair_move (lk_token l) True bk bk' es \<and> locker_ok tag (hs \<union> set es) l'"
proof -
  obtain x e where x: "recoverOwnedLease tag (lk_token l) (lk_etag l) io bk = (x, e)" by fastforce
  show ?thesis
  proof (cases x)
    case Held
    with recover_Held x have "stored_token bk = Some (lk_token l)" "lock_lease_ok tag (lk_token l) e" by blast+
    with enter_keeps [OF ok] m x Held show ?thesis by (auto simp: recovered_def enter_def)
  qed (use m x stay_keeps [OF ok pt] in \<open>auto simp: recovered_def go_def fair_move_def\<close>)
qed

lemma entering_put_keeps:
  assumes ok: "locker_ok tag hs l" "acquiring (lk_point l)"
    and pt: "acquiring pt \<or> (\<exists>out. pt = Ended out \<and> out \<notin> {Succeeded, Succeeded_Warned})"
    and m: "(case bucket_put tag (lockBody (lk_token l) now False) c bk of
       (Some e, bk') \<Rightarrow> enter l (Some e) bk' | (None, bk') \<Rightarrow> go l pt bk') = (l', bk', es)"
  shows "lk_token l' = lk_token l \<and> fair_move (lk_token l) True bk bk' es \<and> locker_ok tag (hs \<union> set es) l'"
proof -
  obtain x y where x: "bucket_put tag (lockBody (lk_token l) now False) c bk = (x, y)" by fastforce
  show ?thesis
  proof (cases x)
    case (Some e)
    with put_stored(1) x have "stored_token y = Some (lk_token l)" "lock_lease_ok tag (lk_token l) (Some e)" by blast+
    with enter_keeps [OF ok] m x Some show ?thesis by (auto simp: enter_def)
  next
    case None
    with put_stored(2) x have "y = bk" by blast
    with m x None stay_keeps [OF ok pt] show ?thesis by (auto simp: go_def fair_move_def)
  qed
qed

lemma go_keeps:
  assumes "locker_ok tag hs l" "acquiring (lk_point l)" "acquiring pt \<or> (\<exists>out. pt = Ended out \<and> out \<notin> {Succeeded, Succeeded_Warned})"
    and "fair_move (lk_token l) True bk b []" "go l pt b = (l', bk', es)"
  shows "lk_token l' = lk_token l \<and> fair_move (lk_token l) True bk bk' es \<and> locker_ok tag (hs \<union> set es) l'"
  using assms(4,5) stay_keeps [OF assms(1-3)] by (auto simp: go_def)

lemma fair_same [simp]: "fair_move t entering bk bk []"
  by (simp add: fair_move_def)

lemma acquire_keeps:
  assumes ok: "locker_ok tag hs l" "acquiring (lk_point l)" and m: "acquire_step tag l (lk_point l) io bk = Some (l', bk', es)"
  shows "lk_token l' = lk_token l \<and> fair_move (lk_token l) True bk bk' es \<and> locker_ok tag (hs \<union> set es) l'"
proof -
  let ?stops = "\<lambda>pt. acquiring pt \<or> (\<exists>out. pt = Ended out \<and> out \<notin> {Succeeded, Succeeded_Warned})"
  note r = recovered_keeps [OF ok] and p = entering_put_keeps [OF ok]
  have g: ?thesis if "?stops pt" "go l pt bk = (l', bk', es)" for pt
    by (rule go_keeps [OF ok that(1) fair_same that(2)])
  have f: ?thesis if "?stops pt" "go l pt (snd (bucket_put tag (lockBody (lk_token l) now False) c bk)) = (l', bk', es)" for pt now c
    by (rule go_keeps [OF ok that(1) put_fair that(2)])
  show ?thesis
  proof (cases "lk_point l")
    case (Creating n)
    have e: "?stops (Inspecting n)" "?stops (Create_Recovering n)" by simp_all
    show ?thesis
      using m p [OF e(1)] f [OF e(2)] g [OF e(2)] unfolding Creating by (cases io) (simp_all only: acquire_step.simps option.inject option.distinct)
  next
    case (Create_Recovering n)
    with m r [of "Inspecting n"] show ?thesis by simp
  next
    case (Inspecting n)
    have e: "?stops (Ended (Threw Other_Error))" by simp
    show ?thesis
      using m g [OF inspect_point] g [OF e] unfolding Inspecting by (cases io) (simp_all only: acquire_step.simps option.inject option.distinct)
  next
    case (Replacing n e)
    have e: "?stops (Replace_Recovering n)" by simp
    show ?thesis
      using m p [OF next_attempt_point] f [OF e] g [OF e] unfolding Replacing
      by (cases io) (simp_all only: acquire_step.simps option.inject option.distinct)
  next
    case (Replace_Recovering n)
    with m r [OF next_attempt_point] show ?thesis by simp
  qed (use ok(2) in simp_all)
qed

lemma fair_renewal:
  assumes "bk' = bk \<or> stored_token bk = Some t \<and> stored_token bk' = Some t"
    and "es \<noteq> [] \<Longrightarrow> stored_token bk = Some t \<and> stored_token bk' = Some t \<and> es \<in> {[Commit_Began t], [Lock_Kept t]}"
  shows "fair_move t False bk bk' es"
  using assms by (auto simp: fair_move_def)

lemma locker_ok_more:
  assumes "locker_ok tag hs l" "\<not> acquiring (lk_point l)" "\<not> ended_lock (lk_point l)"
  shows "lock_lease_ok tag (lk_token l) (lk_etag l)" "lk_started l \<longleftrightarrow> Commit_Began (lk_token l) \<in> hs"
    "lk_renewal l = Some pt \<Longrightarrow> renew_ok tag (lk_token l) pt \<and> pt \<noteq> Renew_Done Held \<and> in_work (lk_point l)"
    "point_ok tag (lk_token l) hs (lk_point l)"
  using assms by (auto simp: locker_ok_def)

lemma begin_keeps:
  assumes tag: "etags_identify tag" and ok: "locker_ok tag hs l" and pt: "lk_point l = Beginning pt" and m: "begin_step tag l pt io bk = (l', bk', es)"
  shows "lk_token l' = lk_token l \<and> fair_move (lk_token l) False bk bk' es \<and> locker_ok tag (hs \<union> set es) l'"
proof -
  obtain q e b where q: "renew_step tag (lk_token l) pt (lk_etag l) io bk = (q, e, b)" by (metis prod_cases3)
  have n: "\<not> acquiring (lk_point l)" "\<not> ended_lock (lk_point l)" by (simp_all add: pt)
  note l = locker_ok_more [OF ok n]
  have p: "renew_ok tag (lk_token l) pt" "pt \<noteq> Renew_Done Held" "opened (lk_token l) hs" using l(4) by (simp_all add: pt)
  note k = renew_step_keeps [OF tag p(1) l(1) q]
  show ?thesis
  proof (cases "\<exists>x. q = Renew_Done x")
    case True
    then obtain x where x: "q = Renew_Done x" by blast
    show ?thesis
    proof (cases "x = Held")
      case True
      with k(4) x p(2) have "stored_token bk = Some (lk_token l) \<and> stored_token b = Some (lk_token l)" by simp
      with m q x True k(2) l(2,3) p(3) show ?thesis by (auto simp: begin_step_def locker_ok_def fair_move_def opened_def pt)
    next
      case False
      with m q x k(2,3) l(2,3) p(3) show ?thesis by (auto simp: begin_step_def locker_ok_def pt intro!: fair_renewal)
    qed
  next
    case False
    with m q have "l' = l \<lparr>lk_point := Beginning q, lk_etag := e\<rparr>" "bk' = b" "es = []"
      by (cases q; simp add: begin_step_def)+
    with False k(1-3) l(2,3) p(3) show ?thesis by (auto simp: locker_ok_def pt intro!: fair_renewal)
  qed
qed

lemma check_keeps:
  assumes tag: "etags_identify tag" and ok: "locker_ok tag hs l" and pt: "lk_point l = Checking r pt" and m: "check_step tag l r pt io bk = (l', bk', es)"
  shows "lk_token l' = lk_token l \<and> fair_move (lk_token l) False bk bk' es \<and> locker_ok tag (hs \<union> set es) l'"
proof -
  obtain q e b where q: "renew_step tag (lk_token l) pt (lk_etag l) io bk = (q, e, b)" by (metis prod_cases3)
  have n: "\<not> acquiring (lk_point l)" "\<not> ended_lock (lk_point l)" by (simp_all add: pt)
  note l = locker_ok_more [OF ok n]
  have p: "renew_ok tag (lk_token l) pt" "pt \<noteq> Renew_Done Held" "opened (lk_token l) hs" using l(4) by (simp_all add: pt)
  have t: "lk_renewal l = None" using l(3) by (cases "lk_renewal l") (auto simp: pt)
  note k = renew_step_keeps [OF tag p(1) l(1) q]
  show ?thesis
  proof (cases "\<exists>x. q = Renew_Done x")
    case True
    then obtain x where x: "q = Renew_Done x" by blast
    show ?thesis
    proof (cases "x = Held")
      case True
      with k(4) x p(2) have "stored_token bk = Some (lk_token l) \<and> stored_token b = Some (lk_token l)" by simp
      with m q x True k(2) l(2) t show ?thesis by (auto simp: check_step_def locker_ok_def fair_move_def renew_ok_def)
    next
      case False
      with m q x k(2,3) l(2) t finish_lock_ok [of l "lk_token l" hs x tag r "release_of x"] show ?thesis
        by (auto simp: check_step_def locker_ok_def intro!: fair_renewal)
    qed
  next
    case False
    with m q have "l' = l \<lparr>lk_point := Checking r q, lk_etag := e\<rparr>" "bk' = b" "es = []"
      by (cases q; simp add: check_step_def)+
    with False k(1-3) l(2) t p(3) show ?thesis by (auto simp: locker_ok_def intro!: fair_renewal)
  qed
qed

lemma release_keeps:
  assumes tag: "etags_identify tag" and ok: "locker_ok tag hs l" and pt: "lk_point l = Releasing r pt" and m: "release_step tag l r pt io bk = (l', bk', es)"
  shows "lk_token l' = lk_token l \<and> fair_move (lk_token l) False bk bk' es \<and> locker_ok tag (hs \<union> set es) l'"
proof -
  obtain q e b where q: "renew_step tag (lk_token l) pt (lk_etag l) io bk = (q, e, b)" by (metis prod_cases3)
  have n: "\<not> acquiring (lk_point l)" "\<not> ended_lock (lk_point l)" by (simp_all add: pt)
  note l = locker_ok_more [OF ok n]
  have p: "renew_ok tag (lk_token l) pt" "pt \<noteq> Renew_Done Held" "Lock_Kept (lk_token l) \<in> hs" using l(4) by (simp_all add: pt)
  have t: "lk_renewal l = None" using l(3) by (cases "lk_renewal l") (auto simp: pt)
  note k = renew_step_keeps [OF tag p(1) l(1) q]
  show ?thesis
  proof (cases "\<exists>x. q = Renew_Done x")
    case True
    then obtain x where x: "q = Renew_Done x" by blast
    have "point_ok tag (lk_token l) hs (finish_lock l r Held (release_of x))" by (rule finish_lock_ok [OF l(2) p(3)])
    with m q x k(2,3) l(2) t p(3) show ?thesis
      by (cases "x = Held") (auto simp: release_step_def locker_ok_def intro!: fair_renewal)
  next
    case False
    with m q have "l' = l \<lparr>lk_point := Releasing r q, lk_etag := e\<rparr>" "bk' = b" "es = []"
      by (cases q; simp add: release_step_def)+
    with False k(1-3) l(2) t p(3) show ?thesis by (auto simp: locker_ok_def intro!: fair_renewal)
  qed
qed

lemma release_put_keeps:
  assumes tag: "etags_identify tag" and ok: "locker_ok tag hs l" and pt: "lk_point l = Release_Putting r" and m: "release_put tag l r io bk = (l', bk', es)"
  shows "lk_token l' = lk_token l \<and> fair_move (lk_token l) False bk bk' es \<and> locker_ok tag (hs \<union> set es) l'"
proof -
  have n: "\<not> acquiring (lk_point l)" "\<not> ended_lock (lk_point l)" by (simp_all add: pt)
  note l = locker_ok_more [OF ok n]
  have p: "Lock_Kept (lk_token l) \<in> hs" using l(4) by (simp add: pt)
  have t: "lk_renewal l = None" using l(3) by (cases "lk_renewal l") (auto simp: pt)
  from l(1) obtain e where e: "lk_etag l = Some e" "tags_own tag (lk_token l) e" by (auto simp: lock_lease_ok_def)
  have own: "put_allowed tag (If_Matches (lk_etag l)) bk \<Longrightarrow> stored_token bk = Some (lk_token l)"
    using matches_own [OF tag e(2)] by (simp add: e(1) del: put_allowed.simps)
  have f: "point_ok tag (lk_token l) hs (finish_lock l r Held x)" for x by (rule finish_lock_ok [OF l(2) p])
  have ends: ?thesis if "l' = l \<lparr>lk_point := finish_lock l r Held x, lk_etag := d\<rparr>" "es = []"
    "bk' = bk \<or> stored_token bk = Some (lk_token l) \<and> stored_token bk' = Some (lk_token l)" for x d
    using that f l(2) t by (auto simp: locker_ok_def intro!: fair_renewal)
  note put = put_stored [where t = "lk_token l" and r = True and c = "If_Matches (lk_etag l)" and bk = bk and tag = tag]
  show ?thesis
  proof (cases io)
    case (Io_Done now)
    obtain x y where x: "bucket_put tag (lockBody (lk_token l) now True) (If_Matches (lk_etag l)) bk = (x, y)" by fastforce
    show ?thesis
    proof (cases x)
      case None
      with put(2) x m Io_Done show ?thesis by (intro ends [where x = Release_Not_Held and d = "lk_etag l"]) (auto simp: go_def)
    next
      case (Some d)
      with put(1) x m Io_Done own show ?thesis by (intro ends [where x = Released and d = "Some d"]) auto
    qed
  next
    case (Io_Applied now)
    with m put_snd [of tag "lk_token l" now True "If_Matches (lk_etag l)" bk] own show ?thesis
      by (intro ends [where x = Release_Unknown and d = "lk_etag l"]) (auto simp: go_def simp del: put_allowed.simps)
  qed (rule ends [where x = Release_Unknown and d = "lk_etag l"]; use m in \<open>auto simp: go_def\<close>)+
qed

lemma timer_keeps:
  assumes tag: "etags_identify tag" and ok: "locker_ok tag hs l" and pt: "lk_renewal l = Some pt" and m: "timer_step tag l pt io bk = (l', bk', es)"
  shows "lk_token l' = lk_token l \<and> fair_move (lk_token l) False bk bk' es \<and> locker_ok tag (hs \<union> set es) l'"
proof -
  obtain q e b where q: "renew_step tag (lk_token l) pt (lk_etag l) io bk = (q, e, b)" by (metis prod_cases3)
  have w: "in_work (lk_point l)" using ok pt by (simp add: locker_ok_def)
  then have n: "\<not> acquiring (lk_point l)" "\<not> ended_lock (lk_point l)" by (cases "lk_point l"; simp)+
  note l = locker_ok_more [OF ok n]
  note k = renew_step_keeps [OF tag conjunct1 [OF l(3) [OF pt]] l(1) q]
  show ?thesis
  proof (cases "\<exists>x. q = Renew_Done x")
    case True
    with m q k(2,3) l(2,4) n show ?thesis by (auto simp: timer_step_def locker_ok_def intro!: fair_renewal)
  next
    case False
    with m q have "l' = l \<lparr>lk_renewal := Some q, lk_etag := e\<rparr>" "bk' = b" "es = []"
      by (cases q; simp add: timer_step_def)+
    with False k(1-3) l(2,4) n w show ?thesis by (auto simp: locker_ok_def intro!: fair_renewal)
  qed
qed

lemma work_keeps:
  assumes ok: "locker_ok tag hs l" and m: "work_step l e = Some l'"
  shows "lk_token l' = lk_token l \<and> locker_ok tag hs l' \<and> (acquiring (lk_point l') \<longleftrightarrow> acquiring (lk_point l))"
  using assms
  by (cases "lk_point l"; cases e)
    (auto simp: locker_ok_def timer_runs_def renew_ok_def split: if_splits)

lemma lock_step_keeps:
  assumes tag: "etags_identify tag" and ok: "locker_ok tag hs l" and m: "lock_step tag l io bk = Some (l', bk', es)"
  shows "lk_token l' = lk_token l \<and> fair_move (lk_token l) (acquiring (lk_point l)) bk bk' es \<and> locker_ok tag (hs \<union> set es) l'"
proof (cases "acquiring (lk_point l)")
  case True
  with m have "acquire_step tag l (lk_point l) io bk = Some (l', bk', es)" by (cases "lk_point l") simp_all
  from acquire_keeps [OF ok True this] True show ?thesis by simp
next
  case False
  then show ?thesis
    using m begin_keeps [OF tag ok] check_keeps [OF tag ok] release_keeps [OF tag ok] release_put_keeps [OF tag ok]
    by (cases "lk_point l") simp_all
qed

lemma lock_step_tells:
  assumes "lock_step tag l io bk = Some (l', bk', es)" "\<not> acquiring (lk_point l)" "es \<noteq> []" "locker_ok tag hs l"
  shows "opened (lk_token l) hs"
proof -
  have q: "release_step tag l r pt io bk = (l', bk', es) \<Longrightarrow> es = []" for r pt
    by (auto simp: release_step_def split: prod.splits renew_point.splits)
  have p: "release_put tag l r io bk = (l', bk', es) \<Longrightarrow> es = []" for r
    by (cases io) (auto simp: go_def split: prod.splits option.splits)
  show ?thesis using assms q p by (cases "lk_point l") (auto simp: locker_ok_def)
qed

end
