(* ===== verification/Lock_Runs.thy ===== *)
theory Lock_Runs
  imports Branch_Lock
begin

text \<open>
  Many processes around one branch lock, in every order of their storage calls. The history of a run lists acquisitions, beginnings of
  commits and ownership checks that succeeded after the work; \<open>log_ok\<close> says how they can follow each other, and \<open>lock_runs\<close> interprets
  the interface \<open>invariant_system\<close> on the processes. The last section bounds the storage calls of an acquisition.
\<close>

section \<open>Histories\<close>

definition alone_since :: "jstring \<Rightarrow> lock_happening list \<Rightarrow> bool" where
  "alone_since t hs \<longleftrightarrow> (\<forall>xs ys. hs = xs @ Lock_Acquired t # ys \<longrightarrow> (\<forall>h \<in> set ys. happening_token h = t))"

definition windows_ok :: "lock_happening list \<Rightarrow> bool" where
  "windows_ok hs \<longleftrightarrow> (\<forall>t xs ys zs. hs = xs @ Lock_Acquired t # ys @ Lock_Kept t # zs \<longrightarrow> (\<forall>h \<in> set ys. happening_token h = t))"

definition ordered_ok :: "lock_happening list \<Rightarrow> bool" where
  "ordered_ok hs \<longleftrightarrow> (\<forall>xs h ys. hs = xs @ h # ys \<longrightarrow> h \<noteq> Lock_Acquired (happening_token h) \<longrightarrow> opened (happening_token h) (set xs))"

definition log_ok :: "bucket \<Rightarrow> lock_happening list \<Rightarrow> bool" where
  "log_ok bk hs \<longleftrightarrow> (\<forall>t. stored_token bk = Some t \<longrightarrow> alone_since t hs) \<and> windows_ok hs \<and> ordered_ok hs"

lemma snoc_split: "xs @ [x] = ys @ y # zs \<longleftrightarrow> zs = [] \<and> ys = xs \<and> y = x \<or> (\<exists>zs'. zs = zs' @ [x] \<and> xs = ys @ y # zs')"
  by (cases zs rule: rev_cases) auto

lemma alone_since_snoc:
  assumes "alone_since t hs \<or> Lock_Acquired t \<notin> set hs" "happening_token h = t"
  shows "alone_since t (hs @ [h])"
proof -
  have "\<forall>a \<in> set ys. happening_token a = t" if "hs @ [h] = xs @ Lock_Acquired t # ys" for xs ys
  proof -
    from that consider "ys = []" | ys' where "ys = ys' @ [h]" "hs = xs @ Lock_Acquired t # ys'"
      unfolding snoc_split by blast
    then show ?thesis
    proof cases
      case 2
      then have "Lock_Acquired t \<in> set hs" by simp
      with assms(1) have "alone_since t hs" by blast
      with 2(2) have "\<forall>a \<in> set ys'. happening_token a = t" unfolding alone_since_def by blast
      with 2(1) assms(2) show ?thesis by simp
    qed simp
  qed
  then show ?thesis unfolding alone_since_def by blast
qed

lemma windows_snoc:
  assumes "windows_ok hs" "\<And>t. h = Lock_Kept t \<Longrightarrow> alone_since t hs"
  shows "windows_ok (hs @ [h])"
proof -
  have "\<forall>a \<in> set ys. happening_token a = t" if eq: "hs @ [h] = xs @ Lock_Acquired t # ys @ Lock_Kept t # zs" for t xs ys zs
  proof -
    from eq have "hs @ [h] = (xs @ Lock_Acquired t # ys) @ Lock_Kept t # zs" by simp
    then consider "hs = xs @ Lock_Acquired t # ys" "h = Lock_Kept t" | zs' where "hs = xs @ Lock_Acquired t # ys @ Lock_Kept t # zs'"
      unfolding snoc_split by auto
    then show ?thesis using assms unfolding windows_ok_def alone_since_def by cases blast+
  qed
  then show ?thesis unfolding windows_ok_def by blast
qed

lemma ordered_snoc:
  assumes "ordered_ok hs" "h \<noteq> Lock_Acquired (happening_token h) \<Longrightarrow> opened (happening_token h) (set hs)"
  shows "ordered_ok (hs @ [h])"
  using assms unfolding ordered_ok_def snoc_split by blast

text \<open>A fair move of one process keeps the history in order.\<close>

lemma log_ok_move:
  assumes ok: "log_ok bk hs" and m: "fair_move t entering bk bk' es"
    and new: "entering \<Longrightarrow> Lock_Acquired t \<notin> set hs" and old: "\<not> entering \<Longrightarrow> es \<noteq> [] \<Longrightarrow> opened t (set hs)"
  shows "log_ok bk' (hs @ es)"
proof (cases "es = []")
  case True
  have "alone_since u hs" if "stored_token bk' = Some u" for u
  proof (cases "bk' = bk")
    case False
    with m that have "u = t" "entering \<or> stored_token bk = Some t" by (auto simp: fair_move_def)
    with ok new show ?thesis by (auto simp: log_ok_def) (auto simp: alone_since_def)
  qed (use that ok in \<open>simp add: log_ok_def\<close>)
  with True ok show ?thesis by (simp add: log_ok_def)
next
  case False
  with m have stored: "stored_token bk' = Some t" by (simp add: fair_move_def)
  obtain h where h: "es = [h]" "happening_token h = t" "entering \<longleftrightarrow> h = Lock_Acquired t" "\<not> entering \<Longrightarrow> stored_token bk = Some t"
    using m False by (auto simp: fair_move_def)
  have al: "alone_since t hs \<or> Lock_Acquired t \<notin> set hs"
    using ok new h(4) by (cases entering) (auto simp: log_ok_def)
  have "alone_since t (hs @ [h])" by (rule alone_since_snoc [OF al h(2)])
  moreover have "windows_ok (hs @ [h])"
    using ok h(2,3,4) by (intro windows_snoc) (auto simp: log_ok_def)
  moreover have "ordered_ok (hs @ [h])"
    using ok old h False by (intro ordered_snoc) (auto simp: log_ok_def)
  ultimately show ?thesis using stored h(1) by (simp add: log_ok_def)
qed

section \<open>Processes\<close>

definition locks_ok :: "tagging \<Rightarrow> lock_system \<Rightarrow> bool" where
  "locks_ok tag s \<longleftrightarrow> distinct (map lk_token (ls_lockers s)) \<and> happening_token ` set (ls_log s) \<subseteq> lk_token ` set (ls_lockers s) \<and>
     (\<forall>l \<in> set (ls_lockers s). locker_ok tag (set (ls_log s)) l) \<and> log_ok (ls_bucket s) (ls_log s)"

lemma point_ok_others:
  assumes "\<forall>h \<in> hs'. happening_token h \<noteq> t"
  shows "point_ok tag t (hs \<union> hs') pt = point_ok tag t hs pt"
proof -
  have "Lock_Acquired t \<notin> hs'" "Commit_Began t \<notin> hs'" "Lock_Kept t \<notin> hs'" using assms by force+
  then show ?thesis by (cases pt) (auto simp: opened_def)
qed

lemma locker_ok_others:
  assumes "locker_ok tag hs l" "\<forall>h \<in> hs'. happening_token h \<noteq> lk_token l"
  shows "locker_ok tag (hs \<union> hs') l"
proof -
  have "Commit_Began (lk_token l) \<notin> hs'" using assms(2) by force
  with assms(1) assms(2) show ?thesis by (auto simp: locker_ok_def point_ok_others [OF assms(2)])
qed

lemma fair_tokens: "fair_move t entering bk bk' es \<Longrightarrow> h \<in> set es \<Longrightarrow> happening_token h = t"
  by (auto simp: fair_move_def)

lemma locks_ok_move:
  assumes ok: "locks_ok tag s" and l: "ls_lockers s = ls @ l # ls'" and l': "lk_token l' = lk_token l" "locker_ok tag (set (ls_log s) \<union> set es) l'"
    and m: "fair_move (lk_token l) entering (ls_bucket s) bk es"
    and new: "entering \<Longrightarrow> acquiring (lk_point l)" and old: "\<not> entering \<Longrightarrow> es \<noteq> [] \<Longrightarrow> opened (lk_token l) (set (ls_log s))"
  shows "locks_ok tag (s \<lparr>ls_bucket := bk, ls_lockers := ls @ l' # ls', ls_log := ls_log s @ es\<rparr>)"
proof -
  have "locker_ok tag (set (ls_log s)) l" using ok l by (simp add: locks_ok_def)
  then have fresh: "Lock_Acquired (lk_token l) \<notin> set (ls_log s)" if entering
    using new [OF that] by (force simp: locker_ok_def)
  have others: "\<forall>h \<in> set es. happening_token h \<noteq> lk_token k" if "k \<in> set ls \<union> set ls'" for k
    using that ok l fair_tokens [OF m] by (force simp: locks_ok_def)
  have "\<forall>k \<in> set ls \<union> set ls'. locker_ok tag (set (ls_log s) \<union> set es) k"
    using ok l others locker_ok_others by (simp add: locks_ok_def)
  moreover have "log_ok bk (ls_log s @ es)"
    using ok by (intro log_ok_move [OF _ m fresh old]) (auto simp: locks_ok_def)
  moreover have "happening_token ` set es \<subseteq> {lk_token l}" using fair_tokens [OF m] by blast
  ultimately show ?thesis using ok l l' by (auto simp: locks_ok_def)
qed

lemma locks_ok_step:
  assumes tag: "etags_identify tag" and ok: "locks_ok tag s" and st: "locks_step tag s s'"
  shows "locks_ok tag s'"
  using st
proof cases
  case (joins t)
  then have "\<forall>h \<in> set (ls_log s). happening_token h \<noteq> t" using ok by (auto simp: locks_ok_def)
  then have "locker_ok tag (set (ls_log s)) (new_locker t)" by (auto simp: locker_ok_def new_locker_def)
  with joins ok show ?thesis by (auto simp: locks_ok_def new_locker_def)
next
  case (storage ls l ls' io l' bk es)
  then have l: "locker_ok tag (set (ls_log s)) l" using ok by (simp add: locks_ok_def)
  note k = lock_step_keeps [OF tag l storage(3)]
  have "locks_ok tag (s \<lparr>ls_bucket := bk, ls_lockers := ls @ l' # ls', ls_log := ls_log s @ es\<rparr>)"
    using k lock_step_tells [OF storage(3) _ _ l]
    by (intro locks_ok_move [OF ok storage(2), where entering = "acquiring (lk_point l)"]) auto
  with storage(1) show ?thesis by simp
next
  case (timer ls l ls' pt io l' bk es)
  then have l: "locker_ok tag (set (ls_log s)) l" using ok by (simp add: locks_ok_def)
  have "es = []" using timer(4) by (auto simp: timer_step_def split: prod.splits renew_point.splits)
  with timer_keeps [OF tag l timer(3,4)]
  have "locks_ok tag (s \<lparr>ls_bucket := bk, ls_lockers := ls @ l' # ls', ls_log := ls_log s @ es\<rparr>)"
    by (intro locks_ok_move [OF ok timer(2), where entering = False]) auto
  with timer(1) show ?thesis by simp
next
  case (works ls l ls' e l')
  then have l: "locker_ok tag (set (ls_log s)) l" using ok by (simp add: locks_ok_def)
  from work_keeps [OF l works(3)]
  have "locks_ok tag (s \<lparr>ls_bucket := ls_bucket s, ls_lockers := ls @ l' # ls', ls_log := ls_log s @ []\<rparr>)"
    by (intro locks_ok_move [OF ok works(2), where entering = False]) auto
  with works(1) show ?thesis by simp
qed

definition locks_inv :: "tagging \<Rightarrow> lock_system \<Rightarrow> bool" where
  "locks_inv tag s \<longleftrightarrow> (etags_identify tag \<longrightarrow> locks_ok tag s)"

interpretation lock_runs: invariant_system lock_init "locks_step tag" "locks_inv tag" for tag
proof
  show "lock_init s \<Longrightarrow> locks_inv tag s" for s
    by (auto simp: lock_init_def locks_inv_def locks_ok_def log_ok_def alone_since_def windows_ok_def ordered_ok_def)
  show "locks_inv tag s \<Longrightarrow> locks_step tag s t \<Longrightarrow> locks_inv tag t" for s t
    using locks_ok_step by (auto simp: locks_inv_def)
qed

lemma kept_window:
  assumes "ordered_ok hs" "windows_ok hs" "Lock_Kept t \<in> set hs" "Commit_Began t \<in> set hs"
  shows "\<exists>xs ys zs. hs = xs @ Lock_Acquired t # ys @ Lock_Kept t # zs \<and> Commit_Began t \<in> set ys \<and> (\<forall>h \<in> set ys. happening_token h = t)"
proof -
  obtain as zs where k: "hs = as @ Lock_Kept t # zs" using assms(3) by (auto dest: split_list)
  obtain cs ds where c: "hs = cs @ Commit_Began t # ds" using assms(4) by (auto dest: split_list)
  have op: "opened t (set cs)" using assms(1) c unfolding ordered_ok_def by force
  then obtain xs ys where a: "cs = xs @ Lock_Acquired t # ys" by (auto simp: opened_def dest: split_list)
  from k c op obtain us where "as = cs @ Commit_Began t # us"
    by (auto simp: append_eq_append_conv2 opened_def append_eq_Cons_conv Cons_eq_append_conv)
  with k a have w: "hs = xs @ Lock_Acquired t # (ys @ Commit_Began t # us) @ Lock_Kept t # zs" by simp
  with assms(2) have "\<forall>h \<in> set (ys @ Commit_Began t # us). happening_token h = t" unfolding windows_ok_def by blast
  with w show ?thesis by (intro exI [of _ xs] exI [of _ "ys @ Commit_Began t # us"] exI [of _ zs]) simp
qed

section \<open>Scripts\<close>

text \<open>A run given by the process that moves and how its storage call ends; a script is a run of \<open>locks_step\<close>.\<close>

datatype lock_command = Cmd_Join jstring | Cmd_Storage nat lock_io | Cmd_Timer nat lock_io | Cmd_Work nat work_event

definition moved :: "lock_system \<Rightarrow> nat \<Rightarrow> lock_move \<Rightarrow> lock_system" where
  "moved s i m = (case m of (l, bk, es) \<Rightarrow> s \<lparr>ls_bucket := bk, ls_lockers := (ls_lockers s)[i := l], ls_log := ls_log s @ es\<rparr>)"

fun lock_does :: "tagging \<Rightarrow> lock_system \<Rightarrow> lock_command \<Rightarrow> lock_system option" where
  "lock_does tag s (Cmd_Join t) =
     (if t \<in> set (map lk_token (ls_lockers s)) then None else Some (s \<lparr>ls_lockers := new_locker t # ls_lockers s\<rparr>))"
| "lock_does tag s (Cmd_Storage i io) =
     (if i < length (ls_lockers s) then map_option (moved s i) (lock_step tag (ls_lockers s ! i) io (ls_bucket s)) else None)"
| "lock_does tag s (Cmd_Timer i io) =
     (if i < length (ls_lockers s)
      then map_option (\<lambda>pt. moved s i (timer_step tag (ls_lockers s ! i) pt io (ls_bucket s))) (lk_renewal (ls_lockers s ! i)) else None)"
| "lock_does tag s (Cmd_Work i e) =
     (if i < length (ls_lockers s)
      then map_option (\<lambda>l. s \<lparr>ls_lockers := (ls_lockers s)[i := l]\<rparr>) (work_step (ls_lockers s ! i) e) else None)"

fun lock_script :: "tagging \<Rightarrow> lock_system \<Rightarrow> lock_command list \<Rightarrow> lock_system option" where
  "lock_script tag s [] = Some s"
| "lock_script tag s (c # cs) = Option.bind (lock_does tag s c) (\<lambda>s'. lock_script tag s' cs)"

lemma lock_does_step:
  assumes "lock_does tag s c = Some s'"
  shows "locks_step tag s s'"
proof (cases c)
  case (Cmd_Storage i io)
  with assms obtain l' bk es where i: "i < length (ls_lockers s)" and st: "lock_step tag (ls_lockers s ! i) io (ls_bucket s) = Some (l', bk, es)"
    and s': "s' = moved s i (l', bk, es)" by (auto split: if_splits)
  from locks_step.storage [OF id_take_nth_drop [OF i] st] show ?thesis by (simp add: s' moved_def upd_conv_take_nth_drop [OF i])
next
  case (Cmd_Timer i io)
  with assms obtain pt l' bk es where i: "i < length (ls_lockers s)" and pt: "lk_renewal (ls_lockers s ! i) = Some pt"
    and st: "timer_step tag (ls_lockers s ! i) pt io (ls_bucket s) = (l', bk, es)" and s': "s' = moved s i (l', bk, es)"
    by (auto split: if_splits) (metis prod_cases3)
  from locks_step.timer [OF id_take_nth_drop [OF i] pt st] show ?thesis by (simp add: s' moved_def upd_conv_take_nth_drop [OF i])
next
  case (Cmd_Work i e)
  with assms obtain l' where i: "i < length (ls_lockers s)" and st: "work_step (ls_lockers s ! i) e = Some l'"
    and s': "s' = s \<lparr>ls_lockers := (ls_lockers s)[i := l']\<rparr>" by (auto split: if_splits)
  from locks_step.works [OF id_take_nth_drop [OF i] st] show ?thesis by (simp add: s' upd_conv_take_nth_drop [OF i])
qed (use assms in \<open>auto split: if_splits intro: locks_step.joins\<close>)

lemma lock_script_reachable:
  "lock_script tag s cs = Some s' \<Longrightarrow> reachable lock_init (locks_step tag) s \<Longrightarrow> reachable lock_init (locks_step tag) s'"
proof (induction cs arbitrary: s)
  case (Cons c cs)
  then obtain u where "lock_does tag s c = Some u" "lock_script tag u cs = Some s'" by (auto simp: bind_eq_Some_conv)
  with Cons.IH [OF this(2)] Cons.prems(2) show ?case by (blast intro: reachable.move lock_does_step)
qed simp

section \<open>How long an acquisition takes\<close>

text \<open>The storage calls of one acquisition, each with what the bucket holds when it is answered.\<close>

fun acquire_run :: "tagging \<Rightarrow> locker \<Rightarrow> (lock_io \<times> bucket) list \<Rightarrow> locker" where
  "acquire_run tag l [] = l"
| "acquire_run tag l ((io, bk) # as) = (case acquire_step tag l (lk_point l) io bk of
     None \<Rightarrow> l | Some (l', _) \<Rightarrow> acquire_run tag l' as)"

definition acquired_or_gave_up :: "lock_point \<Rightarrow> bool" where
  "acquired_or_gave_up pt \<longleftrightarrow>
     pt \<in> {Working, Ended (Threw (Lock_Error Branch_Lock_Timeout Lock_Not_Committed)), Ended (Threw Other_Error)}"

fun calls_left :: "lock_point \<Rightarrow> nat" where
  "calls_left (Creating n) = 5 * (BRANCH_LOCK_MAX_ATTEMPTS - n)"
| "calls_left (Create_Recovering n) = 5 * (BRANCH_LOCK_MAX_ATTEMPTS - n) - 1"
| "calls_left (Inspecting n) = 5 * (BRANCH_LOCK_MAX_ATTEMPTS - n) - 2"
| "calls_left (Replacing n e) = 5 * (BRANCH_LOCK_MAX_ATTEMPTS - n) - 3"
| "calls_left (Replace_Recovering n) = 5 * (BRANCH_LOCK_MAX_ATTEMPTS - n) - 4"
| "calls_left _ = 0"

definition on_course :: "nat \<Rightarrow> lock_point \<Rightarrow> bool" where
  "on_course k pt \<longleftrightarrow> acquired_or_gave_up pt \<or> acquiring pt \<and> 0 < calls_left pt \<and> calls_left pt \<le> k"

lemma course_simps [simp]:
  "on_course k Working" "on_course k (Ended (Threw Other_Error))"
  "on_course k (Ended (Threw (Lock_Error Branch_Lock_Timeout Lock_Not_Committed)))"
  by (simp_all add: on_course_def acquired_or_gave_up_def)

lemma course_next: "n < BRANCH_LOCK_MAX_ATTEMPTS \<Longrightarrow> 5 * (BRANCH_LOCK_MAX_ATTEMPTS - n) \<le> k + 5 \<Longrightarrow> on_course k (next_attempt n)"
  by (auto simp: next_attempt_def on_course_def acquired_or_gave_up_def)

lemma recovered_course:
  "on_course k pt \<Longrightarrow> on_course k (lk_point (fst (recovered tag l pt io bk)))"
  by (auto simp: recovered_def enter_def go_def split: prod.splits BranchLockOwnershipOutcome.splits)

lemma put_course:
  "on_course k pt \<Longrightarrow> on_course k (lk_point (fst (case x of (Some e, bk') \<Rightarrow> enter l (Some e) bk' | (None, bk') \<Rightarrow> go l pt bk')))"
  by (auto simp: enter_def go_def split: prod.splits option.splits)

lemma course_points:
  assumes "0 < 5 * (BRANCH_LOCK_MAX_ATTEMPTS - n) - j" "5 * (BRANCH_LOCK_MAX_ATTEMPTS - n) - j \<le> Suc k" "j < 5"
  shows "j = 0 \<Longrightarrow> on_course k (Create_Recovering n)" "j < 2 \<Longrightarrow> on_course k (Inspecting n)"
    "j < 3 \<Longrightarrow> on_course k (Replacing n e)" "j < 4 \<Longrightarrow> on_course k (Replace_Recovering n)" "on_course k (next_attempt n)"
proof -
  have n: "n < BRANCH_LOCK_MAX_ATTEMPTS" using assms(1) by simp
  then have "5 \<le> 5 * (BRANCH_LOCK_MAX_ATTEMPTS - n)" by simp
  then show "j = 0 \<Longrightarrow> on_course k (Create_Recovering n)" "j < 2 \<Longrightarrow> on_course k (Inspecting n)"
    "j < 3 \<Longrightarrow> on_course k (Replacing n e)" "j < 4 \<Longrightarrow> on_course k (Replace_Recovering n)"
    using assms(2) unfolding on_course_def calls_left.simps acquiring.simps by - (intro disjI2 conjI TrueI; linarith)+
  show "on_course k (next_attempt n)" using assms(2,3) by (intro course_next [OF n]) linarith
qed

lemma acquire_course:
  assumes "acquiring (lk_point l)" "0 < calls_left (lk_point l)" "calls_left (lk_point l) \<le> Suc k"
  shows "\<exists>m. acquire_step tag l (lk_point l) io bk = Some m \<and> on_course k (lk_point (fst m))"
proof (cases "lk_point l")
  case (Creating n)
  with assms course_points [of n 0 k] have "on_course k (Inspecting n)" "on_course k (Create_Recovering n)" by simp_all
  with Creating put_course [of k "Inspecting n"] show ?thesis by (cases io) (simp_all add: go_def)
next
  case (Create_Recovering n)
  with assms course_points(2) [of n 1 k] have "on_course k (Inspecting n)" by simp
  with Create_Recovering recovered_course show ?thesis by simp
next
  case (Inspecting n)
  with assms course_points(3,5) [of n 2 k] have "on_course k (Replacing n e)" "on_course k (next_attempt n)" for e by simp_all
  with Inspecting show ?thesis by (cases io) (simp_all add: go_def inspect_def)
next
  case (Replacing n e)
  with assms course_points(4,5) [of n 3 k] have "on_course k (Replace_Recovering n)" "on_course k (next_attempt n)" by simp_all
  with Replacing put_course [of k "next_attempt n"] show ?thesis by (cases io) (simp_all add: go_def)
next
  case (Replace_Recovering n)
  with assms course_points(5) [of n 4 k] have "on_course k (next_attempt n)" by simp
  with Replace_Recovering recovered_course show ?thesis by simp
qed (use assms in simp_all)

lemma gave_up_stays: "acquired_or_gave_up (lk_point l) \<Longrightarrow> acquire_run tag l as = l"
  by (cases "(tag, l, as)" rule: acquire_run.cases) (auto simp: acquired_or_gave_up_def)

lemma acquire_run_ends: "on_course (length as) (lk_point l) \<Longrightarrow> acquired_or_gave_up (lk_point (acquire_run tag l as))"
proof (induction as arbitrary: l)
  case Nil
  then show ?case by (auto simp: on_course_def)
next
  case (Cons a as)
  show ?case
  proof (cases "acquired_or_gave_up (lk_point l)")
    case False
    obtain io bk where a: "a = (io, bk)" by fastforce
    from False Cons.prems acquire_course [of l "length as" tag io bk] obtain m
      where "acquire_step tag l (lk_point l) io bk = Some m" "on_course (length as) (lk_point (fst m))" by (auto simp: on_course_def)
    with Cons.IH [of "fst m"] show ?thesis by (cases m) (simp add: a)
  qed (simp add: gave_up_stays)
qed

end
