(* ===== verification/Lock_Guarantees.thy ===== *)
theory Lock_Guarantees
  imports Lock_Runs
begin

text \<open>
  What \<^verbatim>\<open>withBranchMutationLock\<close> promises its callers, from the invariant of theory \<open>Lock_Runs\<close>: a mutation that reports success was alone
  from its acquisition to its last ownership check; one that reports anything but success or an unknown outcome did not begin to commit;
  and an acquisition ends after a bounded number of storage calls. The witnesses run two processes against each other.
\<close>

section \<open>A store for the witnesses\<close>

definition int_code :: "int \<Rightarrow> jstring" where
  "int_code i = (if i < 0 then 3 else 4) # replicate (nat \<bar>i\<bar>) 1 @ [2]"

fun plain_tag :: "lock_body \<Rightarrow> nat \<Rightarrow> jstring" where
  "plain_tag (Malformed_Body s) n = 0 # s"
| "plain_tag (Lock_Body p) n =
     1 # int_code (lp_createdAt p) @ (case lp_releasedAt p of None \<Rightarrow> [0] | Some r \<Rightarrow> 1 # int_code r) @ lp_token p"

lemma replicate_stop: "replicate m (1 :: 16 word) @ 2 # xs = replicate n 1 @ 2 # ys \<longleftrightarrow> m = n \<and> xs = ys"
proof (induction m arbitrary: n)
  case 0
  show ?case by (cases n) auto
next
  case (Suc m)
  then show ?case by (cases n) auto
qed

lemma int_code_append: "int_code i @ xs = int_code j @ ys \<longleftrightarrow> i = j \<and> xs = ys"
  by (auto simp: int_code_def replicate_stop)

lemma plain_tag_identifies: "etags_identify plain_tag"
proof -
  have "b = b'" if "plain_tag b n = plain_tag b' n'" for b n b' n'
  proof (cases b; cases b')
    fix p q assume "b = Lock_Body p" "b' = Lock_Body q"
    with that show ?thesis by (cases "lp_releasedAt p"; cases "lp_releasedAt q") (auto simp: int_code_append)
  qed (use that in auto)
  moreover have "plain_tag b n \<noteq> []" for b n by (cases b) simp_all
  ultimately show ?thesis unfolding etags_identify_def by blast
qed

definition idle_locks :: lock_system where
  "idle_locks = \<lparr>ls_bucket = \<lparr>bk_object = None, bk_writes = 0\<rparr>, ls_lockers = [], ls_log = []\<rparr>"

text \<open>One process acquires and commits while another finds the lock taken.\<close>

definition contended_script :: "lock_command list" where
  "contended_script =
     [Cmd_Join [1], Cmd_Join [2], Cmd_Storage 0 (Io_Done 10), Cmd_Storage 1 (Io_Done 11), Cmd_Storage 1 (Io_Done 12),
      Cmd_Work 0 Calls_Begin, Cmd_Storage 0 (Io_Done 13), Cmd_Storage 0 (Io_Done 14), Cmd_Work 0 (Work_Ends Work_Returned),
      Cmd_Work 0 Renewal_Settled, Cmd_Storage 0 (Io_Done 15), Cmd_Storage 0 (Io_Done 16), Cmd_Storage 0 (Io_Done 17),
      Cmd_Storage 0 (Io_Done 18), Cmd_Storage 0 (Io_Done 19)]"

definition contended :: lock_system where
  "contended = the (lock_script plain_tag idle_locks contended_script)"

text \<open>One process pauses while it works, another takes over what it cannot read, and the first tries to commit.\<close>

definition takeover_script :: "lock_command list" where
  "takeover_script =
     [Cmd_Join [1], Cmd_Join [2], Cmd_Storage 0 (Io_Done 10), Cmd_Storage 1 (Io_Done 11), Cmd_Storage 1 (Io_Unreadable 12),
      Cmd_Storage 1 (Io_Done 13), Cmd_Work 0 Calls_Begin, Cmd_Storage 0 (Io_Done 14),
      Cmd_Work 0 (Work_Ends (Work_Threw (Lock_Error Branch_Lock_Lost_Before_Commit Lock_Not_Committed))),
      Cmd_Work 0 Renewal_Settled, Cmd_Storage 0 (Io_Done 15)]"

definition takeover :: lock_system where
  "takeover = the (lock_script plain_tag idle_locks takeover_script)"

lemma idle_reachable: "reachable lock_init (locks_step tag) idle_locks"
  by (rule reachable.start) (simp add: lock_init_def idle_locks_def)

lemma contended_runs: "lock_script plain_tag idle_locks contended_script = Some contended"
  by code_simp

lemma takeover_runs: "lock_script plain_tag idle_locks takeover_script = Some takeover"
  by code_simp

section \<open>Guarantees\<close>

lemma reachable_locks_ok:
  "etags_identify tag \<Longrightarrow> reachable lock_init (locks_step tag) s \<Longrightarrow> locks_ok tag s"
  using lock_runs.reachable_inv [of tag s] by (simp add: locks_inv_def)

lemma reachable_locker:
  assumes "etags_identify tag" "reachable lock_init (locks_step tag) s" "l \<in> set (ls_lockers s)"
  shows "lk_started l \<longleftrightarrow> Commit_Began (lk_token l) \<in> set (ls_log s)" "point_ok tag (lk_token l) (set (ls_log s)) (lk_point l)"
  using reachable_locks_ok [OF assms(1,2)] assms(3) by (simp_all add: locks_ok_def locker_ok_def)

text \<open>
  C18: a branch mutation that began to commit and reports success, with or without the cleanup warning, was alone. In every run of any number
  of processes around the lock of a branch, with storage calls that fail before or after they are applied and bodies that cannot be read, its
  history has the acquisition of the process, then the beginning of its commit, then its ownership check after the work, and between the first
  and the last no other process acquired the lock, began to commit or confirmed that it still held the lock. Entity tags are assumed to
  identify what is stored.
\<close>

theorem succeeded_mutation_alone:
  assumes "etags_identify tag" "reachable lock_init (locks_step tag) s" "l \<in> set (ls_lockers s)"
    and "lk_point l \<in> {Ended Succeeded, Ended Succeeded_Warned}" "lk_started l"
  shows "\<exists>xs ys zs. ls_log s = xs @ Lock_Acquired (lk_token l) # ys @ Lock_Kept (lk_token l) # zs \<and>
     Commit_Began (lk_token l) \<in> set ys \<and> (\<forall>h \<in> set ys. happening_token h = lk_token l)"
proof -
  have "ordered_ok (ls_log s)" "windows_ok (ls_log s)"
    using reachable_locks_ok [OF assms(1,2)] by (simp_all add: locks_ok_def log_ok_def)
  moreover have "Lock_Kept (lk_token l) \<in> set (ls_log s)" "Commit_Began (lk_token l) \<in> set (ls_log s)"
    using reachable_locker [OF assms(1-3)] assms(4,5) by auto
  ultimately show ?thesis by (rule kept_window)
qed

theorem succeeded_mutation_alone_witness:
  "lk_point (ls_lockers contended ! 0) = Ended Succeeded \<and> lk_point (ls_lockers contended ! 1) = Creating 1 \<and>
   (\<exists>xs ys zs. ls_log contended = xs @ Lock_Acquired [2] # ys @ Lock_Kept [2] # zs \<and>
     Commit_Began [2] \<in> set ys \<and> (\<forall>h \<in> set ys. happening_token h = [2]))"
proof -
  have r: "reachable lock_init (locks_step plain_tag) contended"
    by (rule lock_script_reachable [OF contended_runs idle_reachable])
  have l: "ls_lockers contended ! 0 \<in> set (ls_lockers contended)" by code_simp
  have p: "lk_point (ls_lockers contended ! 0) = Ended Succeeded" "lk_point (ls_lockers contended ! 1) = Creating 1"
    "lk_started (ls_lockers contended ! 0)" "lk_token (ls_lockers contended ! 0) = [2]" by code_simp+
  show ?thesis
    using succeeded_mutation_alone [OF plain_tag_identifies r l] p by simp
qed

text \<open>
  C19: a branch mutation does not hide a commit that may have happened. In every run, a process that ends with any outcome but success or
  \<open>branch_mutation_outcome_unknown\<close>, whatever the work itself threw, never began to commit: \<open>beginCommit\<close> did not return to its work.
\<close>

theorem failed_mutation_uncommitted:
  assumes "etags_identify tag" "reachable lock_init (locks_step tag) s" "l \<in> set (ls_lockers s)"
    and "lk_point l = Ended out"
    and "out \<notin> {Succeeded, Succeeded_Warned, Threw (Lock_Error Branch_Mutation_Outcome_Unknown Lock_Outcome_Unknown)}"
  shows "Commit_Began (lk_token l) \<notin> set (ls_log s)"
  using reachable_locker(2) [OF assms(1-3)] assms(4,5) by (auto simp: unknown_outcome_def)

theorem failed_mutation_uncommitted_witness:
  "ls_log takeover = [Lock_Acquired [2], Lock_Acquired [1]] \<and>
   lk_point (ls_lockers takeover ! 0) = Ended (Threw (Lock_Error Branch_Lock_Lost_Before_Commit Lock_Not_Committed)) \<and>
   Commit_Began [2] \<notin> set (ls_log takeover)"
proof -
  have r: "reachable lock_init (locks_step plain_tag) takeover"
    by (rule lock_script_reachable [OF takeover_runs idle_reachable])
  have l: "ls_lockers takeover ! 0 \<in> set (ls_lockers takeover)" by code_simp
  have p: "lk_point (ls_lockers takeover ! 0) = Ended (Threw (Lock_Error Branch_Lock_Lost_Before_Commit Lock_Not_Committed))"
    "lk_token (ls_lockers takeover ! 0) = [2]" "ls_log takeover = [Lock_Acquired [2], Lock_Acquired [1]]" by code_simp+
  show ?thesis
    using failed_mutation_uncommitted [OF plain_tag_identifies r l p(1)] p by simp
qed

text \<open>
  C40: an acquisition ends. Whatever 600 storage calls of a new process answer, and whatever other processes leave in the bucket between
  them, the process then holds the lock or has given up, by \<open>branch_lock_timeout\<close> after its 120 attempts or by the failure of a read that
  it does not catch.
\<close>

theorem acquisition_ends:
  assumes "600 \<le> length answers"
  shows "lk_point (acquire_run tag (new_locker t) answers) \<in>
     {Working, Ended (Threw (Lock_Error Branch_Lock_Timeout Lock_Not_Committed)), Ended (Threw Other_Error)}"
proof -
  have "on_course (length answers) (lk_point (new_locker t))"
    using assms by (simp add: on_course_def new_locker_def BRANCH_LOCK_MAX_ATTEMPTS_def)
  from acquire_run_ends [OF this] show ?thesis unfolding acquired_or_gave_up_def .
qed

theorem acquisition_ends_witness:
  "lk_point (acquire_run plain_tag (new_locker [7])
       (replicate 600 (Io_Done 0, \<lparr>bk_object = Some (lockBody [9] 0 False, 0), bk_writes = 1\<rparr>))) \<in>
     {Working, Ended (Threw (Lock_Error Branch_Lock_Timeout Lock_Not_Committed)), Ended (Threw Other_Error)} \<and>
   lk_point (acquire_run plain_tag (new_locker [7])
       (replicate 240 (Io_Done 0, \<lparr>bk_object = Some (lockBody [9] 0 False, 0), bk_writes = 1\<rparr>))) =
     Ended (Threw (Lock_Error Branch_Lock_Timeout Lock_Not_Committed))"
proof
  show "lk_point (acquire_run plain_tag (new_locker [7])
       (replicate 600 (Io_Done 0, \<lparr>bk_object = Some (lockBody [9] 0 False, 0), bk_writes = 1\<rparr>))) \<in>
     {Working, Ended (Threw (Lock_Error Branch_Lock_Timeout Lock_Not_Committed)), Ended (Threw Other_Error)}"
    by (rule acquisition_ends) simp
qed code_simp

text \<open>
  A read of the lock whose body cannot be fetched counts as a malformed payload: a process that meets it goes on to replace the lock of
  another, however recently that was renewed.
\<close>

lemma unreadable_lock_replaceable:
  assumes "etags_identify tag" "bk_object bk = Some (b, k)"
  shows "inspect n now (readBranchLock tag False bk) = Replacing n (tag b k)"
  using assms by (simp add: inspect_def readBranchLock_def replaceable_def truthy_def etags_identify_def)

end
